(* ===== verification/Prelude.thy ===== *)
theory Prelude
  imports Main "HOL-Library.Word"
begin

text \<open>
  Shared vocabulary of the development: the C integer types of the sources as words of the
  same width, the collections the component theories extend, and the generic facts on words,
  lists and maps that their proofs use.
\<close>

unbundle bit_operations_syntax

section \<open>The integer types of the sources\<close>

type_synonym u8 = "8 word"
type_synonym u16 = "16 word"
type_synonym u32 = "32 word"
type_synonym u64 = "64 word"

text \<open>\<open>uaecptr\<close> is the guest address type of the memory banks (a \<open>uae_u32\<close>).\<close>

type_synonym uaecptr = u32

text \<open>Rewrite collections: \<open>unat_conv\<close> moves word terms to \<open>nat\<close>; \<open>c_const\<close> holds the
  definitions of the preprocessor constants.\<close>

named_theorems unat_conv
named_theorems c_const

section \<open>Words\<close>

lemma unat_drop_bit [unat_conv]: "unat (drop_bit n w) = unat w div 2 ^ n"
  by (simp only: unat_drop_bit_eq) (simp only: drop_bit_eq_div)

lemma unat_take_bit [unat_conv]: "unat (take_bit n w) = unat w mod 2 ^ n"
  for w :: "'a::len word"
  by (simp only: unsigned_take_bit_eq) (simp only: take_bit_eq_mod)

lemma unat_and_mask [unat_conv]: "unat (w AND mask n) = unat w mod 2 ^ n"
  for w :: "'a::len word"
  by (simp only: unat_take_bit flip: take_bit_eq_mask)

lemma shifted_one_minus_one [simp]: "push_bit n 1 - 1 = (mask n :: 'a::len word)"
  by (simp add: mask_eq_exp_minus_1 push_bit_eq_mult)

lemma unat_push_bit_small [unat_conv]:
  "unat (push_bit n w) = unat w * 2 ^ n" if "unat w * 2 ^ n < 2 ^ LENGTH('a)"
  for w :: "'a::len word"
  using that
  by (simp only: unsigned_push_bit_eq) (simp only: take_bit_eq_mod push_bit_eq_mult mod_less)

text \<open>Packing a high and a low part that do not overlap is addition.\<close>

lemma unat_push_bit_or [unat_conv]:
  fixes x y :: "'a::len word"
  assumes y: "unat y < 2 ^ n" and x: "unat x * 2 ^ n + unat y < 2 ^ LENGTH('a)"
  shows "unat (push_bit n x OR y) = unat x * 2 ^ n + unat y"
proof -
  have yb: "\<not> bit y i" if "n \<le> i" for i
    by (metis bit_take_bit_iff linorder_not_less that take_bit_nat_eq_self unat_take_bit
        unsigned_take_bit_eq word_unat_eq_iff y)
  have "push_bit n x AND y = 0"
    by (rule bit_eqI) (auto simp: bit_simps yb)
  then have "push_bit n x OR y = push_bit n x + y"
    by (simp add: disjunctive_add_eq_or)
  moreover have "unat (push_bit n x) = unat x * 2 ^ n"
    using x by (simp add: unat_push_bit_small)
  ultimately show ?thesis
    using x by (simp add: unat_word_ariths)
qed

lemma high_bits_zero:
  fixes x :: "'a::len word"
  assumes "unat x < 2 ^ k" "k \<le> i"
  shows "\<not> bit x i"
proof
  assume "bit x i"
  then have "bit (unat x) i" by (simp add: bit_unsigned_iff)
  moreover have "unat x < 2 ^ i"
    using assms power_increasing [of k i "2::nat"] by linarith
  ultimately show False by (simp add: bit_iff_odd)
qed

lemma bit_exp_plus:
  fixes x :: "'a::len word"
  assumes "unat x < 2 ^ k" "k \<le> d" "d < LENGTH('a)"
  shows "bit (2 ^ d + x) i \<longleftrightarrow> i = d \<or> bit x i"
proof -
  have "2 ^ d AND x = 0"
    by (rule bit_eqI) (use assms high_bits_zero [OF assms(1)] in \<open>auto simp: bit_and_iff bit_exp_iff\<close>)
  then have "2 ^ d + x = 2 ^ d OR x" by (rule disjunctive_add_eq_or)
  with assms show ?thesis by (auto simp: bit_or_iff bit_exp_iff)
qed

lemma unat_exp: "d < LENGTH('a) \<Longrightarrow> unat (2 ^ d :: 'a::len word) = 2 ^ d"
  using unat_push_bit_small [of "1 :: 'a word" d] by (simp add: push_bit_eq_mult)

lemma unat_less_exp: "unat (w :: 'a::len word) < 2 ^ LENGTH('a)"
  by (rule unsigned_less)

lemma unat_less_exp_bits:
  fixes x :: "'a::len word"
  assumes "\<And>i. n \<le> i \<Longrightarrow> \<not> bit x i"
  shows "unat x < 2 ^ n"
proof -
  have "take_bit n x = x"
    by (rule bit_eqI) (metis assms bit_take_bit_iff linorder_not_less)
  then have "unat x = unat x mod 2 ^ n" by (metis unat_take_bit)
  then show ?thesis by (metis mod_less_divisor zero_less_numeral zero_less_power)
qed

lemma unat_add_small: "unat x + unat y < 2 ^ LENGTH('a) \<Longrightarrow> unat (x + y) = unat x + unat y"
  for x y :: "'a::len word"
  by (simp add: unat_word_ariths)

lemma unat_and_3: "unat (m AND 3) < 4" for m :: "'a::len word"
proof -
  have "m AND 3 = m AND mask 2" by (simp add: mask_eq_exp_minus_1)
  then have "unat (m AND 3) = unat m mod 4" by (simp only: unat_and_mask) simp
  then show ?thesis by simp
qed

lemma unat_and_not_mask: "unat (a AND NOT (mask n)) = unat a div 2 ^ n * 2 ^ n" for a :: "'a::len word"
proof -
  have "(a AND NOT (mask n)) AND (a AND mask n) = 0"
    by (rule bit_eqI) (auto simp: bit_simps)
  then have "(a AND NOT (mask n)) + (a AND mask n) = (a AND NOT (mask n)) OR (a AND mask n)"
    by (rule disjunctive_add_eq_or)
  also have "\<dots> = a" by (rule bit_eqI) (auto simp: bit_simps)
  finally have "a AND NOT (mask n) = a - (a AND mask n)" by (simp add: eq_diff_eq)
  moreover have "unat (a AND mask n) \<le> unat a" by (simp add: unat_and_mask)
  ultimately show ?thesis
    by (simp add: unat_sub word_le_nat_alt unat_and_mask minus_mod_eq_div_mult)
qed

section \<open>Lists\<close>

lemma find_sorted_best:
  fixes f :: "'a \<Rightarrow> 'b::linorder"
  assumes "sorted_wrt (\<lambda>x y. f y \<le> f x) xs" "d \<in> set xs" "P d"
  shows "\<exists>c. List.find P xs = Some c \<and> f d \<le> f c"
  using assms by (induction xs) auto

section \<open>Chunked arithmetic\<close>

lemma mod_chunk_add:
  fixes g r m D :: nat
  assumes "D dvd g" "D dvd m" "r < D" "0 < m"
  shows "(g + r) mod m = g mod m + r"
proof -
  have "D dvd g mod m" using assms by (simp add: dvd_mod)
  then obtain k where k: "g mod m = D * k" by (auto elim: dvdE)
  obtain j where j: "m = D * j" using assms by (auto elim: dvdE)
  have "D * k < D * j" using mod_less_divisor [OF \<open>0 < m\<close>, of g] by (simp only: k flip: j)
  then have "k < j" by simp
  then have "D * Suc k \<le> D * j" by (intro mult_le_mono2) simp
  then have "g mod m + r < m" using \<open>r < D\<close> by (simp only: k) (simp add: j)
  then show ?thesis by (metis mod_add_left_eq mod_less)
qed

lemma chunk_less_iff:
  fixes x r c D :: nat
  assumes "D dvd x" "D dvd c" "r < D"
  shows "x + r < c \<longleftrightarrow> x < c"
proof
  assume "x < c"
  obtain k j where k: "x = D * k" and j: "c = D * j" using assms by (auto elim!: dvdE)
  with \<open>x < c\<close> have "k < j" by simp
  then have "D * Suc k \<le> D * j" by (intro mult_le_mono2) simp
  with assms show "x + r < c" by (simp add: k j)
qed simp

section \<open>Reachable states\<close>

inductive reach :: "('s \<Rightarrow> bool) \<Rightarrow> ('s \<Rightarrow> 's \<Rightarrow> bool) \<Rightarrow> 's \<Rightarrow> bool"
  for init :: "'s \<Rightarrow> bool" and step :: "'s \<Rightarrow> 's \<Rightarrow> bool" where
  start: "init s \<Longrightarrow> reach init step s"
| step: "reach init step s \<Longrightarrow> step s t \<Longrightarrow> reach init step t"

text \<open>A component whose operations keep an invariant: it holds in every reachable state.\<close>

locale invariant_system =
  fixes init :: "'s \<Rightarrow> bool" and step :: "'s \<Rightarrow> 's \<Rightarrow> bool" and inv :: "'s \<Rightarrow> bool"
  assumes init_inv: "init s \<Longrightarrow> inv s"
    and step_inv: "inv s \<Longrightarrow> step s t \<Longrightarrow> inv t"
begin

lemma reach_inv: "reach init step s \<Longrightarrow> inv s"
  by (induction rule: reach.induct) (auto intro: init_inv step_inv)

lemma steps_inv: "inv s \<Longrightarrow> step\<^sup>*\<^sup>* s t \<Longrightarrow> inv t"
  by (rotate_tac, induction rule: rtranclp_induct) (auto intro: step_inv)

end

end
