(* ===== verification/Bus.thy ===== *)
theory Bus
  imports Prelude
begin

text \<open>
  The real 68000 bus as \<open>gpio/ps_protocol.c\<close> drives it. The hardware behind the GPIO pins is
  not code: a bus cycle is a value of the cycle history, and what the machine answers is a
  parameter, a function of the whole history so far. The primitives \<open>ps_read_8/16/32\<close> and
  \<open>ps_write_8/16/32\<close> are the cycles they issue, the sticky bus-error latch they set, and the
  monitor-detect filter of the read transaction.
\<close>

section \<open>Cycles, the environment and the bus state\<close>

text \<open>Function code, address and data of a cycle (the \<open>ps_io_t\<close> of a transaction).\<close>

datatype bus_cycle =
    WriteByte u8 u32 u8
  | WriteWord u8 u32 u16
  | ReadByte u8 u32
  | ReadWord u8 u32

text \<open>What the machine answers to the newest cycle of a history (newest first): the 16 data
  lines of a read and whether the cycle ended in a bus error. The host kernel's answers to the
  calls of the memory set-up that may fail are part of the environment too: a \<open>MAP_FIXED\<close>
  mapping at a guest offset, the \<open>memfd\<close> with its flat view, the release of a huge page and the
  protection of a page.\<close>

record bus_env =
  env_data :: "bus_cycle list \<Rightarrow> u16"
  env_berr :: "bus_cycle list \<Rightarrow> bool"
  env_mmap_fixed :: "u32 \<Rightarrow> bool"
  env_memfd :: bool
  env_hugetlb_release :: bool
  env_mprotect :: "nat \<Rightarrow> bool"

record bus_state =
  bus_hist :: "bus_cycle list"
  g_buserr :: bool
  g_buserr_addr :: u32
  fc :: u8
  regs_s :: bool
  ps_gpip7_force :: nat
  ps_gpip7_stable :: int
  gpip7_run :: nat
  ps_gpip7_glitches :: u32
  ps_gpip7_reads :: u32

definition fc_data :: "'a bus_state_scheme \<Rightarrow> 'a bus_state_scheme" where
  "fc_data s = s\<lparr>fc := if regs_s s then 5 else 1\<rparr>"

section \<open>The read transaction and its monitor-detect filter\<close>

text \<open>One read of the MFP's GPIP that is not forced: the held level moves only after four
  consecutive reads disagree with it.\<close>

definition gpip7_debounce :: "bool \<Rightarrow> 'a bus_state_scheme \<Rightarrow> 'a bus_state_scheme" where
  "gpip7_debounce b s =
     (let v = (if b then 1 else 0 :: int);
          s1 = (if ps_gpip7_stable s < 0 then s\<lparr>ps_gpip7_stable := v\<rparr>
                else if v \<noteq> ps_gpip7_stable s then
                  (let r = gpip7_run s + 1 in
                   if 4 \<le> r then s\<lparr>ps_gpip7_stable := v, gpip7_run := 0\<rparr>
                   else s\<lparr>gpip7_run := r\<rparr>)
                else if gpip7_run s \<noteq> 0 then
                  s\<lparr>ps_gpip7_glitches := ps_gpip7_glitches s + 1, gpip7_run := 0\<rparr>
                else s)
      in s1\<lparr>ps_gpip7_reads := ps_gpip7_reads s1 + 1\<rparr>)"

text \<open>The GPIP byte carries the wire in bit 7 of its low data lines.\<close>

definition gpip7_filter :: "u16 \<Rightarrow> 'a bus_state_scheme \<Rightarrow> u16 \<times> 'a bus_state_scheme" where
  "gpip7_filter d s =
     (if ps_gpip7_force s = 1 then (d AND NOT 0x80, s)
      else if ps_gpip7_force s = 2 then (d OR 0x80, s)
      else let s1 = gpip7_debounce (d AND 0x80 \<noteq> 0) s
           in (if ps_gpip7_stable s1 \<noteq> 0 then d OR 0x80 else d AND NOT 0x80, s1))"

fun is_gpip_read :: "bus_cycle \<Rightarrow> bool" where
  "is_gpip_read (ReadByte _ a) = (a AND 0x00FFFFFF = 0x00FFFA01)"
| "is_gpip_read (ReadWord _ a) = (a AND 0x00FFFFFF = 0x00FFFA00)"
| "is_gpip_read _ = False"

definition ps_read_txn ::
  "bus_env \<Rightarrow> bus_cycle \<Rightarrow> 'a bus_state_scheme \<Rightarrow> (u16 \<times> bool) \<times> 'a bus_state_scheme" where
  "ps_read_txn env c s =
     (let h = c # bus_hist s;
          s1 = s\<lparr>bus_hist := h\<rparr>;
          (d, s2) = (if is_gpip_read c then gpip7_filter (env_data env h) s1
                     else (env_data env h, s1))
      in ((d, env_berr env h), s2))"

definition ps_write_txn :: "bus_env \<Rightarrow> bus_cycle \<Rightarrow> 'a bus_state_scheme \<Rightarrow> bool \<times> 'a bus_state_scheme"
where
  "ps_write_txn env c s = (env_berr env (c # bus_hist s), s\<lparr>bus_hist := c # bus_hist s\<rparr>)"

text \<open>\<open>if (ps_io.berr) { g_buserr = 1; g_buserr_addr = addr; }\<close>\<close>

definition latch_berr :: "bool \<Rightarrow> u32 \<Rightarrow> 'a bus_state_scheme \<Rightarrow> 'a bus_state_scheme" where
  "latch_berr b a s = (if b then s\<lparr>g_buserr := True, g_buserr_addr := a\<rparr> else s)"

section \<open>The primitives the memory banks use\<close>

definition ps_write_8 :: "bus_env \<Rightarrow> u32 \<Rightarrow> u8 \<Rightarrow> 'a bus_state_scheme \<Rightarrow> 'a bus_state_scheme" where
  "ps_write_8 env a v s = (let (b, s1) = ps_write_txn env (WriteByte (fc s) a v) s in latch_berr b a s1)"

definition ps_write_16 :: "bus_env \<Rightarrow> u32 \<Rightarrow> u16 \<Rightarrow> 'a bus_state_scheme \<Rightarrow> 'a bus_state_scheme" where
  "ps_write_16 env a v s = (let (b, s1) = ps_write_txn env (WriteWord (fc s) a v) s in latch_berr b a s1)"

text \<open>A longword is two word cycles; only the second one's status is looked at.\<close>

definition ps_write_32 :: "bus_env \<Rightarrow> u32 \<Rightarrow> u32 \<Rightarrow> 'a bus_state_scheme \<Rightarrow> 'a bus_state_scheme" where
  "ps_write_32 env a v s =
     (let (_, s1) = ps_write_txn env (WriteWord (fc s) a (ucast (drop_bit 16 v))) s;
          (b, s2) = ps_write_txn env (WriteWord (fc s) (a + 2) (ucast v)) s1
      in latch_berr b (a + 2) s2)"

definition ps_read_16 :: "bus_env \<Rightarrow> u32 \<Rightarrow> 'a bus_state_scheme \<Rightarrow> u16 \<times> 'a bus_state_scheme" where
  "ps_read_16 env a s =
     (let ((d, b), s1) = ps_read_txn env (ReadWord (fc s) a) s in (d, latch_berr b a s1))"

definition ps_read_8 :: "bus_env \<Rightarrow> u32 \<Rightarrow> 'a bus_state_scheme \<Rightarrow> u8 \<times> 'a bus_state_scheme" where
  "ps_read_8 env a s =
     (let ((d, b), s1) = ps_read_txn env (ReadByte (fc s) a) s
      in (if a AND 1 = 0 then ucast (drop_bit 8 d) else ucast d, latch_berr b a s1))"

definition ps_read_32 :: "bus_env \<Rightarrow> u32 \<Rightarrow> 'a bus_state_scheme \<Rightarrow> u32 \<times> 'a bus_state_scheme" where
  "ps_read_32 env a s =
     (let ((hi, _), s1) = ps_read_txn env (ReadWord (fc s) a) s;
          ((lo, b), s2) = ps_read_txn env (ReadWord (fc s) (a + 2)) s1
      in (push_bit 16 (ucast hi) OR ucast lo, latch_berr b (a + 2) s2))"

section \<open>What a bus operation leaves alone\<close>

lemmas ps_write_defs =
  ps_write_8_def ps_write_16_def ps_write_32_def ps_write_txn_def latch_berr_def

lemma ps_write_frame [simp]:
  "fc (ps_write_8 env a v8 s) = fc s"
  "fc (ps_write_16 env a v16 s) = fc s"
  "fc (ps_write_32 env a v32 s) = fc s"
  "bus_state.more (ps_write_8 env a v8 s) = bus_state.more s"
  "bus_state.more (ps_write_16 env a v16 s) = bus_state.more s"
  "bus_state.more (ps_write_32 env a v32 s) = bus_state.more s"
  by (simp_all add: ps_write_defs Let_def)

lemma bus_hist_ps_write [simp]:
  "bus_hist (ps_write_8 env a v8 s) = WriteByte (fc s) a v8 # bus_hist s"
  "bus_hist (ps_write_16 env a v16 s) = WriteWord (fc s) a v16 # bus_hist s"
  "bus_hist (ps_write_32 env a v32 s) =
     WriteWord (fc s) (a + 2) (ucast v32) # WriteWord (fc s) a (ucast (drop_bit 16 v32)) # bus_hist s"
  by (simp_all add: ps_write_defs Let_def)

section \<open>The monitor-detect filter\<close>

text \<open>What the guest sees in bit 7 of successive byte reads of the GPIP, and what the wire showed
  in the same cycles.\<close>

fun gpip_polls :: "bus_env \<Rightarrow> nat \<Rightarrow> 'a bus_state_scheme \<Rightarrow> bool list \<times> 'a bus_state_scheme" where
  "gpip_polls env 0 s = ([], s)"
| "gpip_polls env (Suc n) s =
     (let (v, s1) = ps_read_8 env 0x00FFFA01 s; (vs, s2) = gpip_polls env n s1
      in (bit v 7 # vs, s2))"

fun wire_samples :: "bus_env \<Rightarrow> nat \<Rightarrow> u8 \<Rightarrow> bus_cycle list \<Rightarrow> bool list" where
  "wire_samples env 0 f h = []"
| "wire_samples env (Suc n) f h =
     (let h' = ReadByte f 0x00FFFA01 # h in bit (env_data env h') 7 # wire_samples env n f h')"

text \<open>\<open>n\<close> is the length of the run of disagreeing reads in progress; the level moves only if
  some run reaches four.\<close>

fun run_of_four :: "bool \<Rightarrow> nat \<Rightarrow> bool list \<Rightarrow> bool" where
  "run_of_four v n [] = False"
| "run_of_four v n (b # bs) =
     (if b = v then run_of_four v 0 bs else 4 \<le> Suc n \<or> run_of_four v (Suc n) bs)"

lemma and_0x80_bit: "(d AND 0x80 \<noteq> 0) = bit d 7" for d :: u16
proof -
  have "(0x80 :: u16) = 2 ^ 7" by simp
  then show ?thesis by (metis and_exp_eq_0_iff_not_bit)
qed

lemma bit_set_clear_7: "bit (d OR 0x80) 7" "\<not> bit (d AND NOT 0x80) 7" for d :: u16
  by (simp_all add: bit_or_iff bit_and_iff bit_not_iff)

lemma gpip7_debounce_frame [simp]:
  "ps_gpip7_force (gpip7_debounce b s) = ps_gpip7_force s" "fc (gpip7_debounce b s) = fc s"
  "bus_hist (gpip7_debounce b s) = bus_hist s"
  "ps_gpip7_stable (gpip7_debounce b (s\<lparr>bus_hist := h\<rparr>)) = ps_gpip7_stable (gpip7_debounce b s)"
  "gpip7_run (gpip7_debounce b (s\<lparr>bus_hist := h\<rparr>)) = gpip7_run (gpip7_debounce b s)"
  by (simp_all add: gpip7_debounce_def Let_def)

lemma latch_berr_frame [simp]:
  "ps_gpip7_force (latch_berr b a s) = ps_gpip7_force s" "fc (latch_berr b a s) = fc s"
  "bus_hist (latch_berr b a s) = bus_hist s" "ps_gpip7_stable (latch_berr b a s) = ps_gpip7_stable s"
  "gpip7_run (latch_berr b a s) = gpip7_run s"
  by (simp_all add: latch_berr_def)

text \<open>One poll: the guest sees the held level, and the level moves as \<open>gpip7_debounce\<close> says.\<close>

lemma gpip_poll:
  assumes f: "ps_gpip7_force s = 0" and r: "ps_read_8 env 0x00FFFA01 s = (v, t)"
  defines "w \<equiv> bit (env_data env (ReadByte (fc s) 0x00FFFA01 # bus_hist s)) 7"
  shows "bit v 7 = (ps_gpip7_stable t \<noteq> 0)" "ps_gpip7_force t = 0" "fc t = fc s"
    "bus_hist t = ReadByte (fc s) 0x00FFFA01 # bus_hist s"
    "ps_gpip7_stable t = ps_gpip7_stable (gpip7_debounce w s)"
    "gpip7_run t = gpip7_run (gpip7_debounce w s)"
proof -
  let ?h = "ReadByte (fc s) 0x00FFFA01 # bus_hist s"
  let ?d = "env_data env ?h"
  let ?t = "gpip7_debounce w (s\<lparr>bus_hist := ?h\<rparr>)"
  have t: "t = latch_berr (env_berr env ?h) 0x00FFFA01 ?t"
    and v: "v = ucast (if ps_gpip7_stable ?t \<noteq> 0 then ?d OR 0x80 else ?d AND NOT 0x80)"
    using r f by (simp_all add: ps_read_8_def ps_read_txn_def gpip7_filter_def Let_def w_def and_0x80_bit)
  show "bit v 7 = (ps_gpip7_stable t \<noteq> 0)"
    unfolding v t using bit_set_clear_7 [of ?d] by (simp add: bit_ucast_iff)
  show "ps_gpip7_force t = 0" "fc t = fc s" "bus_hist t = ?h"
    "ps_gpip7_stable t = ps_gpip7_stable (gpip7_debounce w s)"
    "gpip7_run t = gpip7_run (gpip7_debounce w s)"
    by (simp_all add: t f)
qed

lemma gpip_polls_hold:
  assumes "ps_gpip7_force s = 0" and "ps_gpip7_stable s = of_bool v"
    and "\<not> run_of_four v (gpip7_run s) (wire_samples env n (fc s) (bus_hist s))"
  shows "fst (gpip_polls env n s) = replicate n v"
  using assms
proof (induction n arbitrary: s)
  case 0
  then show ?case by simp
next
  case (Suc n)
  obtain b t where bt: "ps_read_8 env 0x00FFFA01 s = (b, t)" by fastforce
  note poll = gpip_poll [OF Suc.prems(1) bt]
  have "ps_gpip7_stable t = of_bool v \<and>
      \<not> run_of_four v (gpip7_run t) (wire_samples env n (fc t) (bus_hist t))"
    using Suc.prems(2,3) poll(3-6) by (auto simp: gpip7_debounce_def Let_def split: if_splits)
  with Suc.IH [of t] poll(1,2) bt show ?case by (cases v) (auto simp: Let_def case_prod_unfold)
qed

text \<open>Four disagreeing samples in a row do move the level.\<close>

lemma gpip_polls_follow:
  assumes "ps_gpip7_force s = 0" and "ps_gpip7_stable s = of_bool v" and "gpip7_run s = 0"
    and "wire_samples env 4 (fc s) (bus_hist s) = [\<not> v, \<not> v, \<not> v, \<not> v]"
  shows "fst (gpip_polls env 4 s) = [v, v, v, \<not> v]"
proof -
  obtain b1 t1 where r1: "ps_read_8 env 0x00FFFA01 s = (b1, t1)" by fastforce
  obtain b2 t2 where r2: "ps_read_8 env 0x00FFFA01 t1 = (b2, t2)" by fastforce
  obtain b3 t3 where r3: "ps_read_8 env 0x00FFFA01 t2 = (b3, t3)" by fastforce
  obtain b4 t4 where r4: "ps_read_8 env 0x00FFFA01 t3 = (b4, t4)" by fastforce
  note p1 = gpip_poll [OF assms(1) r1]
  note p2 = gpip_poll [OF p1(2) r2]
  note p3 = gpip_poll [OF p2(2) r3]
  note p4 = gpip_poll [OF p3(2) r4]
  let ?v = "of_bool v :: int"
  have w: "wire_samples env 4 (fc s) (bus_hist s) =
    [bit (env_data env (bus_hist t1)) 7, bit (env_data env (bus_hist t2)) 7,
     bit (env_data env (bus_hist t3)) 7, bit (env_data env (bus_hist t4)) 7]"
    by (simp add: eval_nat_numeral Let_def p1(3,4) p2(3,4) p3(3,4) p4(3,4))
  have "ps_gpip7_stable t1 = ?v \<and> gpip7_run t1 = 1" "ps_gpip7_stable t2 = ?v \<and> gpip7_run t2 = 2"
    "ps_gpip7_stable t3 = ?v \<and> gpip7_run t3 = 3" "ps_gpip7_stable t4 = of_bool (\<not> v)"
    using assms(2,3,4) w p1(4-6) p2(4-6) p3(4-6) p4(4-6)
    by (auto simp: gpip7_debounce_def Let_def)
  with p1(1) p2(1) p3(1) p4(1) show ?thesis
    by (cases v) (simp_all add: eval_nat_numeral Let_def r1 r2 r3 r4)
qed

section \<open>Properties\<close>

text \<open>The state before the first cycle.\<close>

definition power_up :: bus_state where
  "power_up = \<lparr>bus_hist = [], g_buserr = False, g_buserr_addr = 0, fc = 0, regs_s = True,
     ps_gpip7_force = 0, ps_gpip7_stable = - 1, gpip7_run = 0, ps_gpip7_glitches = 0, ps_gpip7_reads = 0\<rparr>"

text \<open>The monitor-detect bit is debounced. With no override in force and a held level \<open>v\<close>,
  every one of \<open>n\<close> successive guest reads of the MFP's GPIP shows \<open>v\<close> in bit 7 as long as the
  wire never disagrees four samples in a row, whatever the machine puts on the other lines.\<close>

theorem gpip7_level_held:
  assumes "ps_gpip7_force s = 0" and "ps_gpip7_stable s = of_bool v"
    and "\<not> run_of_four v (gpip7_run s) (wire_samples env n (fc s) (bus_hist s))"
  shows "fst (gpip_polls env n s) = replicate n v"
  using assms by (rule gpip_polls_hold)

theorem gpip7_level_held_witness:
  "fst (gpip_polls \<lparr>env_data = (\<lambda>h. if length h \<le> 3 then 0x6F else 0xEF), env_berr = (\<lambda>_. False),
      env_mmap_fixed = (\<lambda>_. True), env_memfd = True, env_hugetlb_release = True,
      env_mprotect = (\<lambda>_. True)\<rparr> 6
      (power_up\<lparr>ps_gpip7_stable := 1\<rparr>)) = [True, True, True, True, True, True]"
  using gpip7_level_held [of "power_up\<lparr>ps_gpip7_stable := 1\<rparr>" True
      "\<lparr>env_data = (\<lambda>h. if length h \<le> 3 then 0x6F else 0xEF), env_berr = (\<lambda>_. False),
      env_mmap_fixed = (\<lambda>_. True), env_memfd = True, env_hugetlb_release = True,
      env_mprotect = (\<lambda>_. True)\<rparr>" 6]
  by (simp add: power_up_def eval_nat_numeral Let_def del: gpip_polls.simps)

end
