(* ===== verification/Bank_Map.thy ===== *)
theory Bank_Map
  imports Bus
begin

text \<open>
  The bank table of \<open>pistorm_natmem.cpp\<close>: \<open>mem_banks[]\<close> gives the handler set of each 64 KB
  page of the 32-bit guest space, \<open>baseaddr[]\<close> the host address of its bytes. \<open>map_region\<close>
  fills both, with the 256 mirrors of a 24-bit machine.
\<close>

section \<open>Banks\<close>

text \<open>The \<open>addrbank\<close> objects of the file.\<close>

datatype bank =
    pistorm_dummy_bank | pistorm_stram_bank | pistorm_lowram_bank | pistorm_rom_bank
  | pistorm_ide_bank | pistorm_io_bank | pistorm_fdd_bank | pistorm_hw_bank | pistorm_ttram_bank
  | pistorm_guard_bank | pistorm_vga_vram | pistorm_vga_io | pistorm_fvdi_bank
  | pistorm_psvlo_bank | pistorm_psvram_bank | pistorm_psvreg_bank

text \<open>The last two fields of each initialiser: which accesses the JIT must send through the
  bank's handlers (\<open>S_READ\<close>, \<open>S_WRITE\<close>) instead of inlining them.\<close>

fun jit_read_flag :: "bank \<Rightarrow> bool" where
  "jit_read_flag pistorm_stram_bank = False"
| "jit_read_flag pistorm_lowram_bank = False"
| "jit_read_flag pistorm_rom_bank = False"
| "jit_read_flag pistorm_ttram_bank = False"
| "jit_read_flag _ = True"

fun jit_write_flag :: "bank \<Rightarrow> bool" where
  "jit_write_flag pistorm_ttram_bank = False"
| "jit_write_flag _ = True"

text \<open>A host pointer of \<open>baseaddr[]\<close>: an offset from \<open>natmem_offset\<close>, or the tagged bank
  address \<open>(uae_u8 *)b + 1\<close> of a bank with no host memory.\<close>

datatype host_ref = NatmemOff int | BankTag bank

text \<open>The configuration the memory set-up reads (\<open>emulator_config_*\<close> of \<open>config_file.c\<close>,
  \<open>emulator_machine_is_ste\<close> of \<open>emulator.c\<close>) and the environment variables it consults.\<close>

record emu_config =
  cfg_stram_size :: u32
  cfg_stram_direct :: bool
  cfg_stram_cache :: bool
  cfg_hdmi_only :: bool
  cfg_machine_is_ste :: bool
  cfg_machine_kind :: nat
  cfg_falcon_stram :: u32
  cfg_et4k :: bool
  cfg_psvidel :: bool
  getenv_stram_phys_off :: bool
  getenv_stram_memcfg :: "u32 option"
  getenv_stram_shadow_off :: bool
  getenv_cart_off :: bool
  getenv_ttsmc_off :: bool

record bank_state = bus_state +
  config :: emu_config
  mem_banks :: "nat \<Rightarrow> bank option"
  baseaddr :: "nat \<Rightarrow> host_ref option"
  bank_baseaddr :: "bank \<Rightarrow> int option"
  pistorm_addr24 :: bool

definition bankindex :: "nat \<Rightarrow> nat" where
  "bankindex a = a mod 2 ^ 32 div 2 ^ 16"

section \<open>\<open>map_region\<close>\<close>

text \<open>The body of the inner loop: one page.\<close>

definition map_page :: "nat \<Rightarrow> int \<Rightarrow> bank \<Rightarrow> 'a bank_state_scheme \<Rightarrow> 'a bank_state_scheme" where
  "map_page a base b s =
     (let page = bankindex a in
      s\<lparr>mem_banks := (mem_banks s)(page := Some b),
        baseaddr := (baseaddr s)(page := Some
          (case bank_baseaddr s b of
             Some p \<Rightarrow> NatmemOff (p - base)
           | None \<Rightarrow> BankTag b))\<rparr>)"

text \<open>\<open>for (a = hi + start; a < end; a += 0x10000)\<close>; the 64-bit counters cannot wrap, the end
  being below \<open>2 ^ 41\<close>.\<close>

function map_pages ::
  "nat \<Rightarrow> nat \<Rightarrow> int \<Rightarrow> bank \<Rightarrow> 'a bank_state_scheme \<Rightarrow> 'a bank_state_scheme" where
  "map_pages a end base b s =
     (if a < end then map_pages (a + 0x10000) end base b (map_page a base b s) else s)"
  by pat_completeness auto
termination
  by (relation "measure (\<lambda>(a, end, _). end - a)") auto

declare map_pages.simps [simp del]

definition map_mirrors :: "'a bank_state_scheme \<Rightarrow> nat \<Rightarrow> nat \<Rightarrow> nat" where
  "map_mirrors s start len = (if pistorm_addr24 s \<and> start + len \<le> 0x01000000 then 256 else 1)"

definition map_region ::
  "nat \<Rightarrow> nat \<Rightarrow> bank \<Rightarrow> 'a bank_state_scheme \<Rightarrow> 'a bank_state_scheme" where
  "map_region start len b s =
     fold (\<lambda>m s. let hi = m * 2 ^ 24
                 in map_pages (hi + start) (hi + start + len) (int (start + hi)) b s)
       [0..<map_mirrors s start len] s"

section \<open>What \<open>map_region\<close> writes\<close>

text \<open>The pages one run of the inner loop visits.\<close>

definition region_pages :: "nat \<Rightarrow> nat \<Rightarrow> nat set" where
  "region_pages a end = {bankindex (a + k * 0x10000) | k. a + k * 0x10000 < end}"

lemma region_pages_unfold:
  "region_pages a end =
     (if a < end then insert (bankindex a) (region_pages (a + 0x10000) end) else {})"
proof (cases "a < end")
  case True
  have "region_pages a end = insert (bankindex a) (region_pages (a + 0x10000) end)"
  proof (intro set_eqI iffI)
    fix p assume "p \<in> region_pages a end"
    then obtain k where p: "p = bankindex (a + k * 0x10000)" and k: "a + k * 0x10000 < end"
      by (auto simp: region_pages_def)
    show "p \<in> insert (bankindex a) (region_pages (a + 0x10000) end)"
    proof (cases k)
      case 0
      with p show ?thesis by simp
    next
      case (Suc j)
      with p k have "p \<in> region_pages (a + 0x10000) end"
        by (auto simp: region_pages_def algebra_simps intro!: exI [of _ j])
      then show ?thesis by simp
    qed
  next
    fix p assume "p \<in> insert (bankindex a) (region_pages (a + 0x10000) end)"
    then consider "p = bankindex a" | k where "p = bankindex (a + (k + 1) * 0x10000)"
        "a + (k + 1) * 0x10000 < end"
      by (auto simp: region_pages_def algebra_simps)
    then show "p \<in> region_pages a end"
    proof cases
      case 1
      with True show ?thesis by (auto simp: region_pages_def intro!: exI [of _ 0])
    next
      case (2 k)
      then show ?thesis by (auto simp: region_pages_def intro!: exI [of _ "k + 1"])
    qed
  qed
  with True show ?thesis by simp
next
  case False
  then show ?thesis by (auto simp: region_pages_def)
qed

lemma map_pages_spec:
  "mem_banks (map_pages a end base b s) p =
     (if p \<in> region_pages a end then Some b else mem_banks s p)"
  "baseaddr (map_pages a end base b s) p =
     (if p \<in> region_pages a end
      then Some (case bank_baseaddr s b of Some q \<Rightarrow> NatmemOff (q - base) | None \<Rightarrow> BankTag b)
      else baseaddr s p)"
  "bank_baseaddr (map_pages a end base b s) = bank_baseaddr s"
  "pistorm_addr24 (map_pages a end base b s) = pistorm_addr24 s"
  "bank_state.more (map_pages a end base b s) = bank_state.more s"
proof (induction a "end" base b s rule: map_pages.induct)
  case (1 a "end" base b s)
  {
    case 1
    show ?case
      using "1.IH"(1) by (auto simp: map_pages.simps [of a] region_pages_unfold [of a] map_page_def Let_def)
  next
    case 2
    show ?case
      using "1.IH"(2) by (auto simp: map_pages.simps [of a] region_pages_unfold [of a] map_page_def Let_def)
  next
    case 3
    show ?case using "1.IH"(3) by (simp add: map_pages.simps [of a] map_page_def Let_def)
  next
    case 4
    show ?case using "1.IH"(4) by (simp add: map_pages.simps [of a] map_page_def Let_def)
  next
    case 5
    show ?case using "1.IH"(5) by (simp add: map_pages.simps [of a] map_page_def Let_def)
  }
qed

text \<open>Nothing but the two tables changes.\<close>

lemma map_pages_only:
  "\<exists>mb ba. map_pages a end base b s = s\<lparr>mem_banks := mb, baseaddr := ba\<rparr>"
proof (induction a "end" base b s rule: map_pages.induct)
  case (1 a "end" base b s)
  show ?case
  proof (cases "a < end")
    case True
    with 1 obtain mb ba where
      "map_pages (a + 0x10000) end base b (map_page a base b s) =
         (map_page a base b s)\<lparr>mem_banks := mb, baseaddr := ba\<rparr>" by blast
    with True show ?thesis
      by (auto simp: map_pages.simps [of a] map_page_def Let_def)
  next
    case False
    then have "map_pages a end base b s = s\<lparr>mem_banks := mem_banks s, baseaddr := baseaddr s\<rparr>"
      by (simp add: map_pages.simps [of a])
    then show ?thesis by blast
  qed
qed

abbreviation map_mirror :: "nat \<Rightarrow> nat \<Rightarrow> bank \<Rightarrow> nat \<Rightarrow> 'a bank_state_scheme \<Rightarrow> 'a bank_state_scheme" where
  "map_mirror start len b m s \<equiv>
     map_pages (m * 2 ^ 24 + start) (m * 2 ^ 24 + start + len) (int (start + m * 2 ^ 24)) b s"

lemma map_mirror_fold_only:
  "\<exists>mb ba. fold (map_mirror start len b) ms s = s\<lparr>mem_banks := mb, baseaddr := ba\<rparr>"
proof (induction ms arbitrary: s)
  case Nil
  have "fold (map_mirror start len b) [] s = s\<lparr>mem_banks := mem_banks s, baseaddr := baseaddr s\<rparr>"
    by simp
  then show ?case by blast
next
  case (Cons m ms)
  obtain mb ba where "map_mirror start len b m s = s\<lparr>mem_banks := mb, baseaddr := ba\<rparr>"
    using map_pages_only by blast
  with Cons.IH [of "map_mirror start len b m s"] show ?case by auto
qed

lemma map_region_only:
  "map_region start len b s =
     s\<lparr>mem_banks := mem_banks (map_region start len b s),
       baseaddr := baseaddr (map_region start len b s)\<rparr>"
proof -
  obtain mb ba where "map_region start len b s = s\<lparr>mem_banks := mb, baseaddr := ba\<rparr>"
    using map_mirror_fold_only unfolding map_region_def Let_def by blast
  then show ?thesis by simp
qed

lemma map_region_fold:
  "map_region start len b s = fold (map_mirror start len b) [0..<map_mirrors s start len] s"
  by (simp only: map_region_def Let_def)

lemma map_mirror_fold_banks:
  "mem_banks (fold (map_mirror start len b) ms s) p =
     (if \<exists>m\<in>set ms. p \<in> region_pages (m * 2 ^ 24 + start) (m * 2 ^ 24 + start + len)
      then Some b else mem_banks s p)"
  by (induction ms arbitrary: s) (auto simp: map_pages_spec)

section \<open>Closed form of the table\<close>

text \<open>For a 64 KB aligned region, in terms of page numbers.\<close>

lemma region_pages_aligned:
  assumes al: "2 ^ 16 dvd a" and e: "end \<le> 2 ^ 32"
  shows "region_pages a end = {p. a div 2 ^ 16 \<le> p \<and> p * 2 ^ 16 < end}"
proof (intro set_eqI iffI)
  obtain q where q: "a = q * 2 ^ 16" using al by (auto elim: dvdE)
  have idx: "bankindex (a + k * 0x10000) = q + k" if "a + k * 0x10000 < end" for k
  proof -
    have eq: "a + k * 0x10000 = (q + k) * 2 ^ 16" by (simp add: q algebra_simps)
    then have "a + k * 0x10000 < 2 ^ 32" using that e by simp
    then show ?thesis by (simp add: bankindex_def eq)
  qed
  {
    fix p assume "p \<in> region_pages a end"
    then obtain k where "p = bankindex (a + k * 0x10000)" "a + k * 0x10000 < end"
      by (auto simp: region_pages_def)
    with idx have "p = q + k" "a + k * 0x10000 < end" by auto
    then show "p \<in> {p. a div 2 ^ 16 \<le> p \<and> p * 2 ^ 16 < end}"
      by (simp add: q algebra_simps)
  next
    fix p assume "p \<in> {p. a div 2 ^ 16 \<le> p \<and> p * 2 ^ 16 < end}"
    then have p: "q \<le> p" "p * 2 ^ 16 < end" by (simp_all add: q)
    then obtain k where k: "p = q + k" using le_Suc_ex by blast
    with p have "a + k * 0x10000 < end" by (simp add: q algebra_simps)
    with idx k show "p \<in> region_pages a end" by (force simp: region_pages_def)
  }
qed

text \<open>Whether the page of \<open>mem_banks\<close> with number \<open>p\<close> belongs to a region: a 24-bit machine
  ignores the eight high address bits of pages of a region that lies below 16 MB.\<close>

definition page_in_region :: "bool \<Rightarrow> nat \<Rightarrow> nat \<Rightarrow> nat \<Rightarrow> bool" where
  "page_in_region a24 start len p =
     (let q = (if a24 \<and> start + len \<le> 2 ^ 24 then p mod 256 else p)
      in start div 2 ^ 16 \<le> q \<and> q * 2 ^ 16 < start + len)"

lemma map_region_banks:
  assumes al: "2 ^ 16 dvd start" and e: "start + len \<le> 2 ^ 32" and p: "p < 2 ^ 16"
  shows "mem_banks (map_region start len b s) p =
           (if page_in_region (pistorm_addr24 s) start len p then Some b else mem_banks s p)"
proof (cases "pistorm_addr24 s \<and> start + len \<le> 2 ^ 24")
  case True
  have reg: "region_pages (m * 2 ^ 24 + start) (m * 2 ^ 24 + start + len) =
      {p. m * 256 + start div 2 ^ 16 \<le> p \<and> p * 2 ^ 16 < m * 2 ^ 24 + start + len}" if "m < 256" for m
  proof -
    have "m * 2 ^ 24 + start + len \<le> 2 ^ 32" using that True by simp
    moreover have "2 ^ 16 dvd m * 2 ^ 24 + start" using al by (auto intro!: dvd_add)
    moreover have "(m * 2 ^ 24 + start) div 2 ^ 16 = m * 256 + start div 2 ^ 16"
      using al by (auto elim!: dvdE)
    ultimately show ?thesis by (simp add: region_pages_aligned)
  qed
  obtain q where q: "start = q * 2 ^ 16" using al by (auto elim: dvdE)
  have "(\<exists>m\<in>set [0..<256]. p \<in> region_pages (m * 2 ^ 24 + start) (m * 2 ^ 24 + start + len)) =
        (q \<le> p mod 256 \<and> p mod 256 * 2 ^ 16 < start + len)" (is "?l = ?r")
  proof
    assume ?l
    then obtain m where m: "m < 256" "m * 256 + q \<le> p" "p * 2 ^ 16 < m * 2 ^ 24 + start + len"
      using reg by (auto simp: q)
    then have "p < m * 256 + 256" using True by simp
    moreover have "m * 256 \<le> p" using m by simp
    ultimately obtain r where r: "p = r + m * 256" "r < 256"
      by (metis add.commute le_Suc_ex nat_add_left_cancel_less)
    then have "p mod 256 = r" by simp
    with m r show ?r by simp
  next
    assume r: ?r
    let ?m = "p div 256"
    have "?m < 256" using p by (simp add: less_mult_imp_div_less)
    moreover have "?m * 256 + q \<le> p"
      using r div_mult_mod_eq [of p 256] by linarith
    moreover have "p * 2 ^ 16 < ?m * 2 ^ 24 + start + len"
    proof -
      have "p mod 256 * 65536 < start + len" using r by simp
      then have "p * 65536 < ?m * 16777216 + start + len"
        using div_mult_mod_eq [of p 256] by linarith
      then show ?thesis by simp
    qed
    ultimately show ?l using reg by (auto simp: q)
  qed
  moreover have "map_mirrors s start len = 256" using True by (simp add: map_mirrors_def)
  moreover have "page_in_region (pistorm_addr24 s) start len p =
      (q \<le> p mod 256 \<and> p mod 256 * 2 ^ 16 < start + len)"
    using True by (simp add: page_in_region_def Let_def q)
  ultimately show ?thesis
    by (simp only: map_region_fold map_mirror_fold_banks)
next
  case False
  then show ?thesis
    using al e
    by (auto simp: map_region_def map_mirrors_def Let_def map_pages_spec page_in_region_def
        region_pages_aligned)
qed

text \<open>States that differ in the two tables at most.\<close>

definition tables_only :: "'a bank_state_scheme \<Rightarrow> 'a bank_state_scheme \<Rightarrow> bool" where
  "tables_only s t \<longleftrightarrow> (\<exists>mb ba. t = s\<lparr>mem_banks := mb, baseaddr := ba\<rparr>)"

lemma tables_only_refl [intro, simp]: "tables_only s s"
  unfolding tables_only_def by (intro exI [of _ "mem_banks s"] exI [of _ "baseaddr s"]) simp

lemma tables_only_trans:
  assumes "tables_only s t" and "tables_only t u"
  shows "tables_only s u"
proof -
  obtain mb ba where "t = s\<lparr>mem_banks := mb, baseaddr := ba\<rparr>"
    using assms(1) unfolding tables_only_def by blast
  moreover obtain mb' ba' where "u = t\<lparr>mem_banks := mb', baseaddr := ba'\<rparr>"
    using assms(2) unfolding tables_only_def by blast
  ultimately have "u = s\<lparr>mem_banks := mb', baseaddr := ba'\<rparr>" by simp
  then show ?thesis unfolding tables_only_def by blast
qed

lemma tables_only_map_region:
  assumes "tables_only s t"
  shows "tables_only s (map_region start len b t)"
proof (rule tables_only_trans [OF assms])
  show "tables_only t (map_region start len b t)"
    unfolding tables_only_def using map_region_only [of start len b t] by blast
qed

end
