(* ===== verification/Stram_Banks.thy ===== *)
theory Stram_Banks
  imports Bank_Map
begin

text \<open>
  ST-RAM bank aliasing (\<open>pistorm_natmem.cpp\<close>, \<open>cfg stram_size\<close>): the first 4 MB of the guest
  mirror fold exactly as the real DRAM banks do. The STE flavour folds modulo the chip size in
  the page tables; the plain ST flavour drops column and row bits in the accessors. The physical
  banks are found by a pattern probe over the real bus.
\<close>

section \<open>Constants and state\<close>

abbreviation KB :: "u32 \<Rightarrow> u32" where "KB n \<equiv> push_bit 10 n"

definition ST_RAM_SIZE :: u32 where [c_const]: "ST_RAM_SIZE = 0x00400000"
definition STRAM_ALIAS_CHUNK :: u32 where [c_const]: "STRAM_ALIAS_CHUNK = KB 128"
definition STRAM_DIRECT_START :: u32 where [c_const]: "STRAM_DIRECT_START = 0x00010000"
definition STRAM_DIRECT_TOP_RESERVE :: u32 where [c_const]: "STRAM_DIRECT_TOP_RESERVE = 0x00080000"
definition STRAM_DIRECT_END :: u32 where
  [c_const]: "STRAM_DIRECT_END = ST_RAM_SIZE - STRAM_DIRECT_TOP_RESERVE"

definition stram_bank_tab :: "u32 list" where
  "stram_bank_tab = [KB 128, KB 512, KB 2048, KB 2048]"

text \<open>\<open>natmem\<close> is anonymous memory, except that \<open>stram_alias_layout\<close> maps chunks of the \<open>memfd\<close>
  over its first 4 MB: \<open>nm_page\<close> gives the file offset of a mapped chunk.\<close>

record stram_state = bank_state +
  g_stram_alias :: bool
  g_stram_act0 :: u32
  g_stram_act1 :: u32
  g_stram_cfgb0 :: u32
  g_stram_cfgb1 :: u32
  g_stram_memcfg :: u8
  g_stram_backing :: bool
  g_stram_st_mmu :: bool
  g_stram_fold_hook :: bool
  nm_anon :: "u32 \<Rightarrow> u8"
  nm_file :: "u32 \<Rightarrow> u8"
  nm_page :: "u32 \<Rightarrow> u32 option"

datatype cell = Anon u32 | File u32

text \<open>The host byte behind \<open>natmem_offset + a\<close>, and the byte loads and stores through it.\<close>

definition natmem_cell :: "'a stram_state_scheme \<Rightarrow> u32 \<Rightarrow> cell" where
  "natmem_cell s a =
     (case nm_page s (a AND NOT (mask 17)) of
        Some off \<Rightarrow> File (off + (a AND mask 17))
      | None \<Rightarrow> Anon a)"

definition cell_get :: "'a stram_state_scheme \<Rightarrow> cell \<Rightarrow> u8" where
  "cell_get s c = (case c of Anon a \<Rightarrow> nm_anon s a | File o' \<Rightarrow> nm_file s o')"

definition cell_put :: "cell \<Rightarrow> u8 \<Rightarrow> 'a stram_state_scheme \<Rightarrow> 'a stram_state_scheme" where
  "cell_put c v s =
     (case c of Anon a \<Rightarrow> s\<lparr>nm_anon := (nm_anon s)(a := v)\<rparr>
              | File o' \<Rightarrow> s\<lparr>nm_file := (nm_file s)(o' := v)\<rparr>)"

section \<open>The plain-ST fold\<close>

definition stram_colbits :: "u32 \<Rightarrow> nat" where
  "stram_colbits sz = (if sz \<ge> KB 2048 then 10 else if sz \<ge> KB 512 then 9 else 8)"

definition stram_st_fold :: "u32 \<Rightarrow> u32 \<Rightarrow> u32 \<Rightarrow> u32" where
  "stram_st_fold o' cfg act =
     (if act \<ge> cfg then o'
      else
        (let cb_cfg = stram_colbits cfg;
             cb_act = stram_colbits act;
             wrd = drop_bit 1 o'; low = o' AND 1;
             col = wrd AND (push_bit cb_cfg 1 - 1);
             row = drop_bit cb_cfg wrd;
             col = col AND (push_bit cb_act 1 - 1);
             row = row AND (push_bit cb_act 1 - 1)
         in push_bit 1 (push_bit cb_act row OR col) OR low))"

definition stram_st_map :: "'a stram_state_scheme \<Rightarrow> u32 \<Rightarrow> u32" where
  "stram_st_map s a =
     (let cfg0 = g_stram_cfgb0 s; cfg1 = g_stram_cfgb1 s;
          total = cfg0 + cfg1;
          a = (if total \<noteq> 0 \<and> a \<ge> total then a mod total else a)
      in if a < cfg0 then stram_st_fold a cfg0 (g_stram_act0 s)
         else
           (let a = a - cfg0 in
            if g_stram_act1 s \<noteq> 0 then g_stram_act0 s + stram_st_fold a cfg1 (g_stram_act1 s)
            else stram_st_fold a cfg1 (g_stram_act0 s)))"

definition stram_fold_hook_update :: "'a stram_state_scheme \<Rightarrow> 'a stram_state_scheme" where
  "stram_fold_hook_update s = s\<lparr>g_stram_fold_hook :=
     g_stram_alias s \<and> g_stram_st_mmu s \<and> g_stram_backing s \<and>
     \<not> (g_stram_cfgb0 s = g_stram_act0 s \<and>
        (g_stram_cfgb1 s = g_stram_act1 s \<or> g_stram_act1 s = 0))\<rparr>"

text \<open>A host pointer into guest RAM: into \<open>natmem\<close>, or into the flat second view of the \<open>memfd\<close>.
  \<open>sr_ptr\<close> is the one the \<open>sr_*\<close> accessors use.\<close>

datatype hptr = Natmem u32 | Backing u32

definition sr_ptr :: "'a stram_state_scheme \<Rightarrow> u32 \<Rightarrow> hptr" where
  "sr_ptr s a = (if g_stram_fold_hook s then Backing (stram_st_map s a) else Natmem a)"

section \<open>The page-table layout\<close>

text \<open>File offset of the chunk that holds guest offset \<open>g\<close>.\<close>

definition stram_alias_off :: "'a stram_state_scheme \<Rightarrow> u32 \<Rightarrow> u32" where
  "stram_alias_off s g =
     (let cfg0 = g_stram_cfgb0 s; cfg1 = g_stram_cfgb1 s;
          total = cfg0 + cfg1;
          a = (if g < total then g else g mod total)
      in if a < cfg0 then a AND (g_stram_act0 s - 1)
         else if g_stram_act1 s \<noteq> 0
              then g_stram_act0 s + ((a - cfg0) AND (g_stram_act1 s - 1))
         else (a - cfg0) AND (g_stram_act0 s - 1))"

text \<open>The loop over the chunks; a failing \<open>mmap\<close> is \<open>abort()\<close>, here \<open>None\<close>.\<close>

fun stram_map_chunks :: "bus_env \<Rightarrow> u32 list \<Rightarrow> 'a stram_state_scheme \<Rightarrow> 'a stram_state_scheme option"
where
  "stram_map_chunks env [] s = Some s"
| "stram_map_chunks env (g # gs) s =
     (if env_mmap_fixed env g
      then stram_map_chunks env gs (s\<lparr>nm_page := (nm_page s)(g \<mapsto> stram_alias_off s g)\<rparr>)
      else None)"

definition stram_chunks :: "u32 list" where
  "stram_chunks = map (\<lambda>i. of_nat i * STRAM_ALIAS_CHUNK) [0..<32]"

definition stram_alias_layout :: "bus_env \<Rightarrow> 'a stram_state_scheme \<Rightarrow> 'a stram_state_scheme option" where
  "stram_alias_layout env s = stram_map_chunks env stram_chunks s"

text \<open>Bank routing for the current layout.\<close>

definition stram_decoded :: "'a stram_state_scheme \<Rightarrow> u32" where
  "stram_decoded s = (if g_stram_act1 s \<noteq> 0 then g_stram_cfgb0 s + g_stram_cfgb1 s else g_stram_cfgb0 s)"

definition stram_direct_end :: "u32 \<Rightarrow> u32" where
  "stram_direct_end decoded =
     (if decoded < ST_RAM_SIZE
      then if decoded > STRAM_DIRECT_START + STRAM_DIRECT_TOP_RESERVE
           then decoded - STRAM_DIRECT_TOP_RESERVE else STRAM_DIRECT_START
      else STRAM_DIRECT_END)"

definition stram_alias_apply_banks :: "'a stram_state_scheme \<Rightarrow> 'a stram_state_scheme" where
  "stram_alias_apply_banks s =
     (if \<not> g_stram_alias s then s
      else
        (let s1 = map_region 0 (unat ST_RAM_SIZE) pistorm_stram_bank s;
             decoded = stram_decoded s;
             direct_end = stram_direct_end decoded;
             s2 = (if cfg_stram_direct (config s) \<and> \<not> g_stram_fold_hook s \<and>
                      direct_end > STRAM_DIRECT_START
                   then map_region (unat STRAM_DIRECT_START) (unat (direct_end - STRAM_DIRECT_START))
                          pistorm_lowram_bank s1
                   else s1)
         in if decoded < ST_RAM_SIZE
            then map_region (unat decoded) (unat (ST_RAM_SIZE - decoded)) pistorm_dummy_bank s2
            else s2))"

definition memcfg_bank0 :: "u8 \<Rightarrow> u32" where
  "memcfg_bank0 m = stram_bank_tab ! unat (drop_bit 2 m AND 3)"

definition memcfg_bank1 :: "u8 \<Rightarrow> u32" where
  "memcfg_bank1 m = stram_bank_tab ! unat (m AND 3)"

definition stram_alias_recfg ::
  "bus_env \<Rightarrow> u8 \<Rightarrow> 'a stram_state_scheme \<Rightarrow> 'a stram_state_scheme option" where
  "stram_alias_recfg env memcfg s =
     (if memcfg = g_stram_memcfg s then Some s
      else
        (let s1 = s\<lparr>g_stram_memcfg := memcfg,
                    g_stram_cfgb0 := memcfg_bank0 memcfg,
                    g_stram_cfgb1 := memcfg_bank1 memcfg\<rparr>;
             s2 = stram_fold_hook_update s1
         in case stram_alias_layout env s2 of
              None \<Rightarrow> None
            | Some s3 \<Rightarrow> Some (stram_alias_apply_banks s3)))"

definition stram_memcfg_snoop ::
  "bus_env \<Rightarrow> u32 \<Rightarrow> u32 \<Rightarrow> nat \<Rightarrow> 'a stram_state_scheme \<Rightarrow> 'a stram_state_scheme option" where
  "stram_memcfg_snoop env a v sz s =
     (if \<not> g_stram_alias s then Some s
      else if sz = 1 \<and> a = 0x00FF8001 then stram_alias_recfg env (ucast v) s
      else if sz = 2 \<and> a = 0x00FF8000 then stram_alias_recfg env (ucast v) s
      else if sz = 4 \<and> a = 0x00FF8000 then stram_alias_recfg env (ucast (drop_bit 16 v)) s
      else Some s)"

definition pistorm_stram_memcfg_snoop ::
  "bus_env \<Rightarrow> u32 \<Rightarrow> u32 \<Rightarrow> nat \<Rightarrow> 'a stram_state_scheme \<Rightarrow> 'a stram_state_scheme option" where
  "pistorm_stram_memcfg_snoop env a v sz s = stram_memcfg_snoop env (a AND 0x00FFFFFF) v sz s"

section \<open>The physical probe\<close>

text \<open>\<open>for (a = addr; a < addr + 0x1F8; a += 2)\<close>: 252 words of the arithmetic pattern with step
  \<open>0xFA54\<close>. The addresses stay below \<open>2 ^ 32\<close>, so counting the words is the loop's own bound.\<close>

fun pattern_check ::
  "bus_env \<Rightarrow> nat \<Rightarrow> u32 \<Rightarrow> u16 \<Rightarrow> 'a bus_state_scheme \<Rightarrow> bool \<times> 'a bus_state_scheme" where
  "pattern_check env 0 a v s = (True, s)"
| "pattern_check env (Suc n) a v s =
     (let (d, s1) = ps_read_16 env a s in
      if d \<noteq> v then (False, s1) else pattern_check env n (a + 2) (v + 0xFA54) s1)"

definition stram_pattern_present ::
  "bus_env \<Rightarrow> u32 \<Rightarrow> 'a bus_state_scheme \<Rightarrow> bool \<times> 'a bus_state_scheme" where
  "stram_pattern_present env addr s = pattern_check env 252 addr 0 s"

fun pattern_write :: "bus_env \<Rightarrow> nat \<Rightarrow> u32 \<Rightarrow> u16 \<Rightarrow> 'a bus_state_scheme \<Rightarrow> 'a bus_state_scheme" where
  "pattern_write env 0 a v s = s"
| "pattern_write env (Suc n) a v s = pattern_write env n (a + 2) (v + 0xFA54) (ps_write_16 env a v s)"

text \<open>\<open>||\<close> stops at the first alias that shows the pattern.\<close>

definition pattern_at_either ::
  "bus_env \<Rightarrow> u32 \<Rightarrow> u32 \<Rightarrow> 'a bus_state_scheme \<Rightarrow> bool \<times> 'a bus_state_scheme" where
  "pattern_at_either env a1 a2 s =
     (let (p1, s1) = stram_pattern_present env a1 s in
      if p1 then (True, s1) else stram_pattern_present env a2 s1)"

definition stram_probe_bank :: "bus_env \<Rightarrow> u32 \<Rightarrow> 'a bus_state_scheme \<Rightarrow> u32 \<times> 'a bus_state_scheme" where
  "stram_probe_bank env base s =
     (let s0 = pattern_write env 252 (base + 0x008) 0 s;
          (p128, s1) = pattern_at_either env (base + 0x40008) (base + 0x00208) s0
      in if p128 then (KB 128, s1)
         else let (p512, s2) = pattern_at_either env (base + 0x80008) (base + 0x00408) s1
              in if p512 then (KB 512, s2)
                 else let (p2m, s3) = stram_pattern_present env (base + 0x008) s2
                      in (if p2m then KB 2048 else 0, s3))"

section \<open>Choosing and engaging a configuration\<close>

definition stram_combo :: "(u32 \<times> u32) list" where
  "stram_combo =
     [(KB 2048, KB 2048), (KB 2048, KB 512), (KB 2048, 0),
      (KB 512, KB 512), (KB 512, 0), (KB 128, 0)]"

definition combo_fits :: "u32 \<Rightarrow> u32 \<Rightarrow> u32 \<Rightarrow> u32 \<times> u32 \<Rightarrow> bool" where
  "combo_fits want phys0 phys1 c =
     (fst c + snd c \<le> want \<and> fst c \<le> phys0 \<and> (snd c = 0 \<or> snd c \<le> phys1))"

text \<open>The selection loop: the first fitting entry, \<open>(0, 0)\<close> if there is none.\<close>

definition stram_pick :: "u32 \<Rightarrow> u32 \<Rightarrow> u32 \<Rightarrow> u32 \<times> u32" where
  "stram_pick want phys0 phys1 =
     (case List.find (combo_fits want phys0 phys1) stram_combo of None \<Rightarrow> (0, 0) | Some c \<Rightarrow> c)"

text \<open>Probe both banks with the controller set to 2M|2M and a valid function code.\<close>

definition stram_probe_both ::
  "bus_env \<Rightarrow> 'a bus_state_scheme \<Rightarrow> (u32 \<times> u32) \<times> 'a bus_state_scheme" where
  "stram_probe_both env s =
     (let old_fc = fc s;
          s1 = ps_write_8 env 0xFF8001 0x0A (s\<lparr>fc := 5\<rparr>);
          (p0, s2) = stram_probe_bank env 0x000000 s1;
          (p1, s3) = stram_probe_bank env 0x200000 s2
      in ((p0, p1), s3\<lparr>fc := old_fc, g_buserr := False\<rparr>))"

definition stram_alias_engage ::
  "bus_env \<Rightarrow> u32 \<Rightarrow> u32 \<Rightarrow> 'a stram_state_scheme \<Rightarrow> 'a stram_state_scheme option" where
  "stram_alias_engage env eff0 eff1 s =
     (if \<not> env_memfd env then None
      else
        (let s1 = s\<lparr>g_stram_act0 := eff0, g_stram_act1 := eff1,
                    nm_file := (\<lambda>_. 0),
                    g_stram_cfgb0 := memcfg_bank0 (g_stram_memcfg s),
                    g_stram_cfgb1 := memcfg_bank1 (g_stram_memcfg s),
                    g_stram_backing := True,
                    g_stram_st_mmu := \<not> cfg_machine_is_ste (config s),
                    g_stram_alias := True\<rparr>;
             s2 = stram_fold_hook_update s1
         in if \<not> env_hugetlb_release env then None else stram_alias_layout env s2))"

definition stram_alias_init :: "bus_env \<Rightarrow> 'a stram_state_scheme \<Rightarrow> 'a stram_state_scheme option" where
  "stram_alias_init env s =
     (let want = cfg_stram_size (config s) in
      if want = 0 then Some s
      else
        (let want = (if want > ST_RAM_SIZE then ST_RAM_SIZE else want);
             ((phys0, phys1), s1) = stram_probe_both env s
         in if phys0 = 0 then Some s1
            else
              (let (eff0, eff1) = stram_pick want phys0 phys1 in
               if eff0 = 0 then Some s1
               else if eff0 + eff1 \<ge> ST_RAM_SIZE then Some s1
               else stram_alias_engage env eff0 eff1 s1)))"

section \<open>Bank sizes and the invariant\<close>

text \<open>The sizes DRAM banks come in, and the part of the invariant that says the four size
  variables hold such sizes (an absent second bank is 0).\<close>

definition bank_sizes :: "u32 set" where
  "bank_sizes = {KB 128, KB 512, KB 2048}"

definition stram_sizes_ok :: "'a stram_state_scheme \<Rightarrow> bool" where
  "stram_sizes_ok s \<longleftrightarrow>
     g_stram_act0 s \<in> bank_sizes \<and> g_stram_act1 s \<in> insert 0 bank_sizes \<and>
     g_stram_cfgb0 s \<in> bank_sizes \<and> g_stram_cfgb1 s \<in> bank_sizes"

section \<open>The plain-ST fold\<close>

lemma KB_simps [simp]: "KB 128 = 0x20000" "KB 512 = 0x80000" "KB 2048 = 0x200000"
  by (simp_all add: push_bit_eq_mult)

lemma stram_colbits_simps [simp]:
  "stram_colbits 0x20000 = 8" "stram_colbits 0x80000 = 9" "stram_colbits 0x200000 = 10"
  by (simp_all add: stram_colbits_def)

lemma stram_bank_tab_nth: "stram_bank_tab ! unat (m AND 3) \<in> bank_sizes" for m :: u8
proof -
  have "unat (m AND 3) \<in> {0,1,2,3}" using unat_and_3[of m] by auto
  then show ?thesis by (auto simp: stram_bank_tab_def bank_sizes_def)
qed


lemma fold_core_bit:
  fixes a :: u32
  assumes "ca \<le> cc" "2 * ca < 32"
  shows "bit (push_bit 1 (push_bit ca (drop_bit cc (drop_bit 1 a) AND mask ca) OR
               ((drop_bit 1 a AND mask cc) AND mask ca)) OR (a AND 1)) i \<longleftrightarrow>
    (if i \<le> ca then bit a i else i \<le> 2 * ca \<and> bit a (i + (cc - ca)))"
proof (cases i)
  case 0
  then show ?thesis unfolding bit_or_iff bit_and_iff bit_push_bit_iff by (simp add: bit_1_iff)
next
  case (Suc j)
  have "bit a (Suc j + (cc - ca)) = bit a (cc + Suc (j - ca))" if "ca \<le> j"
    using that assms by (simp add: ac_simps)
  with Suc assms show ?thesis
    unfolding bit_or_iff bit_and_iff bit_push_bit_iff bit_drop_bit_eq bit_mask_iff bit_1_iff
    by (auto simp: possible_bit_def dest: bit_imp_le_length)
qed

lemma bank_size_lt_cases:
  assumes "cfg \<in> bank_sizes" "act \<in> bank_sizes" "act < cfg"
  shows "stram_colbits act < stram_colbits cfg" "stram_colbits act \<le> 9" "stram_colbits cfg \<le> 10"
  using assms by (auto simp: bank_sizes_def)

lemma fold_bit:
  assumes "cfg \<in> bank_sizes" "act \<in> bank_sizes" "act < cfg"
  shows "bit (stram_st_fold a cfg act) i \<longleftrightarrow>
    (if i \<le> stram_colbits act then bit a i
     else i \<le> 2 * stram_colbits act \<and> bit a (i + (stram_colbits cfg - stram_colbits act)))"
proof -
  note l = bank_size_lt_cases[OF assms]
  have "\<not> cfg \<le> act" using assms by simp
  then have "stram_st_fold a cfg act = push_bit 1 (push_bit (stram_colbits act) (drop_bit (stram_colbits cfg) (drop_bit 1 a) AND mask (stram_colbits act)) OR
               ((drop_bit 1 a AND mask (stram_colbits cfg)) AND mask (stram_colbits act))) OR (a AND 1)"
    by (simp only: stram_st_fold_def Let_def if_False shifted_one_minus_one)
  then show ?thesis using fold_core_bit[of "stram_colbits act" "stram_colbits cfg" a i] l by simp
qed

lemma bank_size_exp: "sz \<in> bank_sizes \<Longrightarrow> unat sz = 2 ^ (2 * stram_colbits sz + 1)"
  by (auto simp: bank_sizes_def)

lemma stram_st_fold_less:
  assumes "cfg \<in> bank_sizes" "act \<in> bank_sizes" "o' < cfg"
  shows "stram_st_fold o' cfg act < act"
proof (cases "act \<ge> cfg")
  case True
  with assms show ?thesis by (simp add: stram_st_fold_def)
next
  case False
  then have "unat (stram_st_fold o' cfg act) < 2 ^ (2 * stram_colbits act + 1)"
    using assms(1,2) by (intro unat_less_exp_bits) (auto simp: fold_bit)
  then show ?thesis using assms(2) by (simp add: bank_size_exp word_less_nat_alt del: power_Suc)
qed

lemma bank_sum_no_wrap:
  assumes "x \<in> bank_sizes" "y \<in> insert 0 bank_sizes"
  shows "unat (x + y) = unat x + unat y"
  using assms by (auto simp: bank_sizes_def)

lemma bank_size_le: "sz \<in> insert 0 bank_sizes \<Longrightarrow> unat sz \<le> 0x200000"
  by (auto simp: bank_sizes_def)

lemma stram_st_map_bound:
  assumes "stram_sizes_ok s"
  shows "stram_st_map s a < g_stram_act0 s + g_stram_act1 s"
proof -
  let ?cfgA = "g_stram_cfgb0 s" and ?cfgB = "g_stram_cfgb1 s"
  let ?actA = "g_stram_act0 s" and ?actB = "g_stram_act1 s"
  let ?t = "?cfgA + ?cfgB"
  let ?a = "if ?t \<noteq> 0 \<and> a \<ge> ?t then a mod ?t else a"
  have ok: "?actA \<in> bank_sizes" "?actB \<in> insert 0 bank_sizes" "?cfgA \<in> bank_sizes" "?cfgB \<in> bank_sizes"
    using assms by (auto simp: stram_sizes_ok_def)
  have t: "unat ?t = unat ?cfgA + unat ?cfgB" using ok by (simp add: bank_sum_no_wrap)
  have pos: "0 < unat ?cfgA" using ok by (simp add: bank_size_exp)
  have a: "unat ?a < unat ?t"
    using t pos by (auto simp: word_le_nat_alt unat_mod_distrib not_le intro!: mod_less_divisor)
  have sum: "unat (?actA + ?actB) = unat ?actA + unat ?actB" using ok by (simp add: bank_sum_no_wrap)
  have lt: "stram_st_fold x c b < b" if "c \<in> bank_sizes" "b \<in> bank_sizes" "unat x < unat c" for x c b
    using stram_st_fold_less that by (simp add: word_less_nat_alt)
  show ?thesis
  proof (cases "?a < ?cfgA")
    case True
    then have "stram_st_map s a = stram_st_fold ?a ?cfgA ?actA" by (simp add: stram_st_map_def Let_def)
    moreover have "unat (stram_st_fold ?a ?cfgA ?actA) < unat ?actA"
      using lt [OF ok(3) ok(1)] True by (simp add: word_less_nat_alt)
    ultimately show ?thesis by (simp add: word_less_nat_alt sum)
  next
    case False
    have d: "unat (?a - ?cfgA) < unat ?cfgB"
      using False a t by (simp add: unat_sub word_le_nat_alt not_less)
    show ?thesis
    proof (cases "?actB = 0")
      case True
      with False have "stram_st_map s a = stram_st_fold (?a - ?cfgA) ?cfgB ?actA"
        by (simp add: stram_st_map_def Let_def)
      with lt [OF ok(4) ok(1) d] True show ?thesis by simp
    next
      case a1: False
      with ok have b: "?actB \<in> bank_sizes" by simp
      from a1 False have "stram_st_map s a = ?actA + stram_st_fold (?a - ?cfgA) ?cfgB ?actB"
        by (simp add: stram_st_map_def Let_def)
      moreover have l: "unat (stram_st_fold (?a - ?cfgA) ?cfgB ?actB) < unat ?actB"
        using lt [OF ok(4) b d] by (simp add: word_less_nat_alt)
      moreover have "unat (?actA + stram_st_fold (?a - ?cfgA) ?cfgB ?actB) =
          unat ?actA + unat (stram_st_fold (?a - ?cfgA) ?cfgB ?actB)"
        using l bank_size_le [OF ok(2)] bank_size_le [of ?actA] ok(1) by (simp add: unat_add_small)
      ultimately show ?thesis by (simp add: word_less_nat_alt sum)
    qed
  qed
qed

section \<open>The page-table layout is the modulo bank model\<close>

text \<open>Byte-level specification of the modulo (STE) bank model.\<close>

definition ste_fold :: "nat \<Rightarrow> nat \<Rightarrow> nat \<Rightarrow> nat \<Rightarrow> nat \<Rightarrow> nat" where
  "ste_fold c0 c1 a0 a1 g =
     (let x = g mod (c0 + c1)
      in if x < c0 then x mod a0
         else if a1 \<noteq> 0 then a0 + (x - c0) mod a1 else (x - c0) mod a0)"

lemma ste_fold_chunk:
  assumes "D dvd c0" "D dvd c1" "D dvd a0" "D dvd a1" "0 < c0" "0 < a0" "D dvd g" "r < D"
  shows "ste_fold c0 c1 a0 a1 (g + r) = ste_fold c0 c1 a0 a1 g + r"
proof -
  let ?x = "g mod (c0 + c1)"
  have x: "(g + r) mod (c0 + c1) = ?x + r" using assms by (simp add: mod_chunk_add)
  have dx: "D dvd ?x" using assms by (simp add: dvd_mod)
  have lt: "?x + r < c0 \<longleftrightarrow> ?x < c0" using assms dx by (simp add: chunk_less_iff)
  show ?thesis
  proof (cases "?x < c0")
    case True
    with assms dx show ?thesis by (simp add: ste_fold_def Let_def x lt mod_chunk_add)
  next
    case False
    then have "?x + r - c0 = (?x - c0) + r" by simp
    moreover have "D dvd ?x - c0" using dx assms by (simp add: dvd_diff_nat)
    ultimately have "(?x + r - c0) mod a = (?x - c0) mod a + r" if "D dvd a" "0 < a" for a
      using that assms by (simp only: mod_chunk_add)
    with False assms show ?thesis by (simp add: ste_fold_def Let_def x lt)
  qed
qed

lemma and_bank_size_minus_one:
  assumes "act \<in> bank_sizes"
  shows "unat (x AND (act - 1)) = unat x mod unat act"
proof -
  have "act - 1 = mask (2 * stram_colbits act + 1)"
    using assms by (auto simp: bank_sizes_def mask_eq_exp_minus_1)
  then show ?thesis using assms by (simp only: unat_and_mask bank_size_exp)
qed

lemma unat_stram_alias_off:
  assumes ok: "stram_sizes_ok s"
  shows "unat (stram_alias_off s g) =
    ste_fold (unat (g_stram_cfgb0 s)) (unat (g_stram_cfgb1 s))
      (unat (g_stram_act0 s)) (unat (g_stram_act1 s)) (unat g)"
proof -
  let ?cfgA = "g_stram_cfgb0 s" and ?cfgB = "g_stram_cfgb1 s"
  let ?actA = "g_stram_act0 s" and ?actB = "g_stram_act1 s"
  define x where "x = (if g < ?cfgA + ?cfgB then g else g mod (?cfgA + ?cfgB))"
  have oks: "?actA \<in> bank_sizes" "?actB \<in> insert 0 bank_sizes" "?cfgA \<in> bank_sizes" "?cfgB \<in> bank_sizes"
    using ok by (auto simp: stram_sizes_ok_def)
  have t: "unat (?cfgA + ?cfgB) = unat ?cfgA + unat ?cfgB" using oks by (simp add: bank_sum_no_wrap)
  have ux: "unat x = unat g mod (unat ?cfgA + unat ?cfgB)"
    by (simp add: x_def unat_mod_distrib t word_less_nat_alt)
  have off: "stram_alias_off s g = (if x < ?cfgA then x AND (?actA - 1)
      else if ?actB \<noteq> 0 then ?actA + ((x - ?cfgA) AND (?actB - 1)) else (x - ?cfgA) AND (?actA - 1))"
    by (simp add: stram_alias_off_def Let_def x_def)
  have sub: "unat (x - ?cfgA) = unat x - unat ?cfgA" if "\<not> x < ?cfgA"
    using that by (simp add: unat_sub not_less)
  show ?thesis
  proof (cases "x < ?cfgA \<or> ?actB = 0")
    case True
    then show ?thesis
      using sub by (auto simp: off ste_fold_def Let_def and_bank_size_minus_one oks word_less_nat_alt
          simp flip: ux unat_eq_0)
  next
    case False
    then have b: "?actB \<in> bank_sizes" using oks by auto
    then have "unat ((x - ?cfgA) AND (?actB - 1)) < unat ?actB"
      by (simp add: and_bank_size_minus_one bank_size_exp)
    then have "unat (?actA + ((x - ?cfgA) AND (?actB - 1))) =
        unat ?actA + unat ((x - ?cfgA) AND (?actB - 1))"
      using bank_size_le [of ?actA] bank_size_le [of ?actB] oks b by (simp add: unat_add_small)
    then show ?thesis
      using False sub b by (auto simp: off ste_fold_def Let_def and_bank_size_minus_one word_less_nat_alt
          simp flip: ux unat_eq_0)
  qed
qed


lemma bank_size_pos: "sz \<in> bank_sizes \<Longrightarrow> 0 < unat sz"
  by (auto simp: bank_sizes_def)

lemma bank_size_dvd: "sz \<in> insert 0 bank_sizes \<Longrightarrow> 2 ^ 17 dvd unat sz"
  by (auto simp: bank_sizes_def)

lemma stram_alias_off_nm_page [simp]:
  "stram_alias_off (s\<lparr>nm_page := p\<rparr>) g = stram_alias_off s g"
  by (simp add: stram_alias_off_def Let_def)

lemma stram_map_chunks_spec:
  assumes "stram_map_chunks env gs s = Some s'"
  shows "s' = s\<lparr>nm_page := (\<lambda>g. if g \<in> set gs then Some (stram_alias_off s g) else nm_page s g)\<rparr>"
  using assms
proof (induction gs arbitrary: s)
  case Nil
  then show ?case by simp
next
  case (Cons g gs)
  let ?s = "s\<lparr>nm_page := (nm_page s)(g \<mapsto> stram_alias_off s g)\<rparr>"
  have "stram_map_chunks env gs ?s = Some s'" using Cons.prems by (simp split: if_splits)
  from Cons.IH [OF this] show ?case by (auto simp: intro!: arg_cong [where f = "\<lambda>p. s\<lparr>nm_page := p\<rparr>"])
qed

lemma chunk_base_mem:
  assumes "a < ST_RAM_SIZE"
  shows "a AND NOT (mask 17) \<in> set stram_chunks"
proof -
  let ?i = "unat a div 2 ^ 17"
  have i: "?i < 32" using assms by (simp add: c_const word_less_nat_alt)
  have "unat (of_nat ?i * STRAM_ALIAS_CHUNK) = ?i * 2 ^ 17"
    using i by (simp add: c_const unat_word_ariths unat_of_nat)
  then have "a AND NOT (mask 17) = of_nat ?i * STRAM_ALIAS_CHUNK"
    by (simp only: word_unat_eq_iff unat_and_not_mask)
  with i show ?thesis by (auto simp: stram_chunks_def)
qed

lemma stram_alias_layout_cell:
  assumes lay: "stram_alias_layout env s = Some s'" and ok: "stram_sizes_ok s" and a: "a < ST_RAM_SIZE"
  shows "natmem_cell s' a = File (stram_alias_off s a)"
proof -
  let ?g = "a AND NOT (mask 17)" and ?r = "a AND mask 17"
  have page: "nm_page s' ?g = Some (stram_alias_off s ?g)"
    using stram_map_chunks_spec [OF lay [unfolded stram_alias_layout_def]] chunk_base_mem [OF a] by simp
  have split: "unat a = unat ?g + unat ?r" by (simp add: unat_and_not_mask unat_and_mask)
  have g: "2 ^ 17 dvd unat ?g" by (simp add: unat_and_not_mask)
  have r: "unat ?r < 2 ^ 17" by (simp add: unat_and_mask)
  have eq: "unat (stram_alias_off s a) = unat (stram_alias_off s ?g) + unat ?r"
    unfolding unat_stram_alias_off [OF ok] split
    using ok by (intro ste_fold_chunk [where D = "2 ^ 17", OF _ _ _ _ _ _ g r] bank_size_dvd bank_size_pos)
      (auto simp: stram_sizes_ok_def)
  then have "stram_alias_off s a = stram_alias_off s ?g + ?r"
    using unat_less_exp [of "stram_alias_off s a"] by (simp add: word_unat_eq_iff unat_add_small)
  with page show ?thesis by (simp add: natmem_cell_def)
qed

text \<open>The layout stays inside the backing file.\<close>

lemma ste_fold_less:
  assumes "0 < a0"
  shows "ste_fold c0 c1 a0 a1 g < a0 + a1"
  using assms by (auto simp: ste_fold_def Let_def intro: trans_less_add1)

lemma stram_alias_off_bound:
  assumes ok: "stram_sizes_ok s"
  shows "stram_alias_off s a < g_stram_act0 s + g_stram_act1 s"
proof -
  have "unat (g_stram_act0 s + g_stram_act1 s) = unat (g_stram_act0 s) + unat (g_stram_act1 s)"
    using ok by (simp add: stram_sizes_ok_def bank_sum_no_wrap)
  then show ?thesis
    using ok by (simp add: word_less_nat_alt unat_stram_alias_off ste_fold_less stram_sizes_ok_def bank_size_pos)
qed

section \<open>The invariant of the aliasing state\<close>

text \<open>Without aliasing \<open>natmem\<close> is flat. While aliasing is engaged the size variables are bank sizes, the configured sizes are the
  ones the last memcfg value encodes, every guest page of the 4 MB window is mapped to its place
  in the bank model, and the accessor hook is live exactly when a plain-ST MMU is programmed for
  other sizes than the installed ones.\<close>

definition fold_needed :: "'a stram_state_scheme \<Rightarrow> bool" where
  "fold_needed s \<longleftrightarrow>
     \<not> (g_stram_cfgb0 s = g_stram_act0 s \<and> (g_stram_cfgb1 s = g_stram_act1 s \<or> g_stram_act1 s = 0))"

definition stram_inv :: "'a stram_state_scheme \<Rightarrow> bool" where
  "stram_inv s \<longleftrightarrow>
     (g_stram_alias s \<longrightarrow>
        stram_sizes_ok s \<and> g_stram_backing s \<and>
        g_stram_cfgb0 s = memcfg_bank0 (g_stram_memcfg s) \<and>
        g_stram_cfgb1 s = memcfg_bank1 (g_stram_memcfg s) \<and>
        (\<forall>a < ST_RAM_SIZE. natmem_cell s a = File (stram_alias_off s a))) \<and>
     (\<not> g_stram_alias s \<longrightarrow> nm_page s = (\<lambda>_. None)) \<and>
     g_stram_fold_hook s = (g_stram_alias s \<and> g_stram_st_mmu s \<and> fold_needed s)"

lemma memcfg_bank_sizes [simp]: "memcfg_bank0 m \<in> bank_sizes" "memcfg_bank1 m \<in> bank_sizes"
  by (simp_all add: memcfg_bank0_def memcfg_bank1_def stram_bank_tab_nth)


lemma tables_only_apply_banks: "tables_only s (stram_alias_apply_banks s)"
  by (simp add: stram_alias_apply_banks_def Let_def tables_only_map_region)

lemma stram_alias_off_cong:
  assumes "g_stram_cfgb0 t = g_stram_cfgb0 s" "g_stram_cfgb1 t = g_stram_cfgb1 s"
    "g_stram_act0 t = g_stram_act0 s" "g_stram_act1 t = g_stram_act1 s"
  shows "stram_alias_off t g = stram_alias_off s g"
  by (simp only: stram_alias_off_def assms)

lemma stram_inv_tables_only:
  assumes "tables_only s t"
  shows "stram_inv t = stram_inv s"
proof -
  obtain mb ba where t: "t = s\<lparr>mem_banks := mb, baseaddr := ba\<rparr>"
    using assms unfolding tables_only_def by blast
  have "natmem_cell t a = natmem_cell s a" for a by (simp add: t natmem_cell_def)
  moreover have "stram_alias_off t a = stram_alias_off s a" for a
    by (rule stram_alias_off_cong) (simp_all add: t)
  ultimately show ?thesis
    by (simp add: stram_inv_def) (simp add: t stram_sizes_ok_def fold_needed_def)
qed

lemma stram_alias_layout_frame:
  assumes "stram_alias_layout env s = Some s'"
  obtains p where "s' = s\<lparr>nm_page := p\<rparr>"
  using stram_map_chunks_spec assms unfolding stram_alias_layout_def by blast

lemma stram_inv_after_layout:
  assumes lay: "stram_alias_layout env (stram_fold_hook_update s) = Some s'"
    and ok: "stram_sizes_ok s" and b: "g_stram_backing s"
    and cfg: "g_stram_cfgb0 s = memcfg_bank0 (g_stram_memcfg s)" "g_stram_cfgb1 s = memcfg_bank1 (g_stram_memcfg s)"
    and al: "g_stram_alias s"
  shows "stram_inv s'"
proof -
  let ?s = "stram_fold_hook_update s"
  have oks: "stram_sizes_ok ?s" using ok by (simp add: stram_sizes_ok_def stram_fold_hook_update_def)
  obtain p where s': "s' = ?s\<lparr>nm_page := p\<rparr>" by (rule stram_alias_layout_frame [OF lay])
  have "natmem_cell s' a = File (stram_alias_off s' a)" if "a < ST_RAM_SIZE" for a
    using stram_alias_layout_cell [OF lay oks that] by (simp add: s')
  then show ?thesis
    using b cfg oks al
    by (auto simp: stram_inv_def s' stram_sizes_ok_def fold_needed_def stram_fold_hook_update_def)
qed

lemma stram_alias_recfg_inv:
  assumes "stram_alias_recfg env m s = Some s'" and inv: "stram_inv s" and al: "g_stram_alias s"
  shows "stram_inv s'"
proof (cases "m = g_stram_memcfg s")
  case True
  with assms show ?thesis by (simp add: stram_alias_recfg_def)
next
  case False
  let ?s = "s\<lparr>g_stram_memcfg := m, g_stram_cfgb0 := memcfg_bank0 m, g_stram_cfgb1 := memcfg_bank1 m\<rparr>"
  obtain t where lay: "stram_alias_layout env (stram_fold_hook_update ?s) = Some t"
    and s': "s' = stram_alias_apply_banks t"
    using assms False by (auto simp: stram_alias_recfg_def Let_def split: option.splits)
  have "stram_inv t"
    using inv al by (intro stram_inv_after_layout [OF lay]) (auto simp: stram_inv_def stram_sizes_ok_def)
  then show ?thesis by (simp add: s' stram_inv_tables_only [OF tables_only_apply_banks])
qed

lemma stram_memcfg_snoop_inv:
  assumes "stram_memcfg_snoop env a v sz s = Some s'" and "stram_inv s"
  shows "stram_inv s'"
  using assms stram_alias_recfg_inv
  by (auto simp: stram_memcfg_snoop_def split: if_splits)

lemma stram_pick_mem:
  assumes "stram_pick want p0 p1 = (e0, e1)" "e0 \<noteq> 0"
  shows "(e0, e1) \<in> set stram_combo" "combo_fits want p0 p1 (e0, e1)"
  using assms by (auto simp: stram_pick_def find_Some_iff split: option.splits)

lemma combo_bank_sizes:
  assumes "(e0, e1) \<in> set stram_combo"
  shows "e0 \<in> bank_sizes" "e1 = 0 \<or> e1 \<in> bank_sizes"
  using assms by (auto simp: stram_combo_def bank_sizes_def)

lemma stram_alias_engage_inv:
  assumes "stram_alias_engage env e0 e1 s = Some s'" and "(e0, e1) \<in> set stram_combo"
  shows "stram_inv s'" "g_stram_alias s'" "g_stram_act0 s' = e0" "g_stram_act1 s' = e1"
proof -
  let ?s = "s\<lparr>g_stram_act0 := e0, g_stram_act1 := e1, nm_file := (\<lambda>_. 0),
      g_stram_cfgb0 := memcfg_bank0 (g_stram_memcfg s), g_stram_cfgb1 := memcfg_bank1 (g_stram_memcfg s),
      g_stram_backing := True, g_stram_st_mmu := \<not> cfg_machine_is_ste (config s), g_stram_alias := True\<rparr>"
  have lay: "stram_alias_layout env (stram_fold_hook_update ?s) = Some s'"
    using assms(1) by (auto simp: stram_alias_engage_def Let_def split: if_splits)
  show "stram_inv s'"
    using assms(2) by (intro stram_inv_after_layout [OF lay])
      (auto simp: stram_sizes_ok_def combo_bank_sizes)
  obtain p where "s' = (stram_fold_hook_update ?s)\<lparr>nm_page := p\<rparr>" by (rule stram_alias_layout_frame [OF lay])
  then show "g_stram_alias s'" "g_stram_act0 s' = e0" "g_stram_act1 s' = e1"
    by (simp_all add: stram_fold_hook_update_def)
qed

section \<open>Properties\<close>

text \<open>The plain ST fold is the chip's view of the address. With a bank configured larger than
  the chip, the address bits up to the chip's column bits reach it unchanged, the next bits of
  the row are the address bits above the configured column field, and no bit beyond the chip's
  size is ever set.\<close>

theorem stram_st_fold_bits:
  assumes "cfg \<in> bank_sizes" and "act \<in> bank_sizes" and "act < cfg"
  shows "bit (stram_st_fold a cfg act) i \<longleftrightarrow>
    (if i \<le> stram_colbits act then bit a i
     else i \<le> 2 * stram_colbits act \<and> bit a (i + (stram_colbits cfg - stram_colbits act)))"
  using assms by (rule fold_bit)

theorem stram_st_fold_bits_witness:
  "bit (stram_st_fold 0x100400 0x200000 0x80000) 19 = False \<and> bit (stram_st_fold 0x100400 0x200000 0x80000) 10 = False"
  using stram_st_fold_bits [of "0x200000" "0x80000" "0x100400" 19] stram_st_fold_bits [of "0x200000" "0x80000" "0x100400" 10]
  by (simp add: bank_sizes_def)

end
