(* ===== verification/Host_Mem.thy ===== *)
theory Host_Mem
  imports Stram_Banks
begin

text \<open>
  Guest memory as bytes of the host, and the big-endian accessors of \<open>machdep/maccess.h\<close>
  (\<open>do_get_mem_word\<close>, \<open>do_put_mem_long\<close> and so on) over host pointers. What the accessors
  promise is proved once, for any byte store, and interpreted on the mapped host memory.
\<close>

section \<open>Host pointers\<close>

fun ptr_add :: "hptr \<Rightarrow> u32 \<Rightarrow> hptr" where
  "ptr_add (Natmem a) k = Natmem (a + k)"
| "ptr_add (Backing a) k = Backing (a + k)"

fun ptr_cell :: "'a stram_state_scheme \<Rightarrow> hptr \<Rightarrow> cell" where
  "ptr_cell s (Natmem a) = natmem_cell s a"
| "ptr_cell s (Backing a) = File a"

definition mem_get_byte :: "'a stram_state_scheme \<Rightarrow> hptr \<Rightarrow> u8" where
  "mem_get_byte s p = cell_get s (ptr_cell s p)"

definition mem_put_byte :: "hptr \<Rightarrow> u8 \<Rightarrow> 'a stram_state_scheme \<Rightarrow> 'a stram_state_scheme" where
  "mem_put_byte p v s = cell_put (ptr_cell s p) v s"

text \<open>The host is little-endian: the byte swap makes each access big-endian in memory.\<close>

definition do_get_mem_word :: "'a stram_state_scheme \<Rightarrow> hptr \<Rightarrow> u16" where
  "do_get_mem_word s p =
     push_bit 8 (ucast (mem_get_byte s p)) OR ucast (mem_get_byte s (ptr_add p 1))"

definition do_get_mem_long :: "'a stram_state_scheme \<Rightarrow> hptr \<Rightarrow> u32" where
  "do_get_mem_long s p =
     push_bit 24 (ucast (mem_get_byte s p)) OR
     push_bit 16 (ucast (mem_get_byte s (ptr_add p 1))) OR
     push_bit 8 (ucast (mem_get_byte s (ptr_add p 2))) OR ucast (mem_get_byte s (ptr_add p 3))"

definition do_put_mem_word :: "hptr \<Rightarrow> u16 \<Rightarrow> 'a stram_state_scheme \<Rightarrow> 'a stram_state_scheme" where
  "do_put_mem_word p v s =
     mem_put_byte (ptr_add p 1) (ucast v) (mem_put_byte p (ucast (drop_bit 8 v)) s)"

definition do_put_mem_long :: "hptr \<Rightarrow> u32 \<Rightarrow> 'a stram_state_scheme \<Rightarrow> 'a stram_state_scheme" where
  "do_put_mem_long p v s =
     mem_put_byte (ptr_add p 3) (ucast v)
       (mem_put_byte (ptr_add p 2) (ucast (drop_bit 8 v))
         (mem_put_byte (ptr_add p 1) (ucast (drop_bit 16 v))
           (mem_put_byte p (ucast (drop_bit 24 v)) s)))"

section \<open>Bytes and words\<close>

lemma word_of_bytes:
  "push_bit 8 (ucast (ucast (drop_bit 8 v) :: u8)) OR ucast (ucast v :: u8) = v" for v :: u16
  by (rule bit_eqI) (auto simp: bit_simps)

lemma long_of_bytes:
  "push_bit 24 (ucast (ucast (drop_bit 24 v) :: u8)) OR push_bit 16 (ucast (ucast (drop_bit 16 v) :: u8)) OR
   push_bit 8 (ucast (ucast (drop_bit 8 v) :: u8)) OR ucast (ucast v :: u8) = v" for v :: u32
proof (rule bit_eqI)
  fix n assume "possible_bit TYPE(u32) n"
  then have "n < 8 \<or> 8 \<le> n \<and> n < 16 \<or> 16 \<le> n \<and> n < 24 \<or> 24 \<le> n \<and> n < 32" by auto
  then show "bit (push_bit 24 (ucast (ucast (drop_bit 24 v) :: u8)) OR
      push_bit 16 (ucast (ucast (drop_bit 16 v) :: u8)) OR
      push_bit 8 (ucast (ucast (drop_bit 8 v) :: u8)) OR ucast (ucast v :: u8) :: u32) n = bit v n"
    by (elim disjE) (auto simp: bit_simps)
qed

section \<open>Byte stores\<close>

text \<open>The contract of a store of bytes at places: a load sees the last store to its place.\<close>

locale byte_store =
  fixes get :: "'s \<Rightarrow> 'c \<Rightarrow> u8" and put :: "'c \<Rightarrow> u8 \<Rightarrow> 's \<Rightarrow> 's"
  assumes get_put: "get (put c v s) c' = (if c' = c then v else get s c')"
begin

definition get16 :: "'s \<Rightarrow> 'c \<Rightarrow> 'c \<Rightarrow> u16" where
  "get16 s c0 c1 = push_bit 8 (ucast (get s c0)) OR ucast (get s c1)"

definition put16 :: "'c \<Rightarrow> 'c \<Rightarrow> u16 \<Rightarrow> 's \<Rightarrow> 's" where
  "put16 c0 c1 v s = put c1 (ucast v) (put c0 (ucast (drop_bit 8 v)) s)"

lemma get16_put16: "c0 \<noteq> c1 \<Longrightarrow> get16 (put16 c0 c1 v s) c0 c1 = v"
  by (simp add: get16_def put16_def get_put word_of_bytes)

lemma get_put16_other: "c \<noteq> c0 \<Longrightarrow> c \<noteq> c1 \<Longrightarrow> get (put16 c0 c1 v s) c = get s c"
  by (simp add: put16_def get_put)

definition get32 :: "'s \<Rightarrow> 'c \<Rightarrow> 'c \<Rightarrow> 'c \<Rightarrow> 'c \<Rightarrow> u32" where
  "get32 s c0 c1 c2 c3 =
     push_bit 24 (ucast (get s c0)) OR push_bit 16 (ucast (get s c1)) OR
     push_bit 8 (ucast (get s c2)) OR ucast (get s c3)"

definition put32 :: "'c \<Rightarrow> 'c \<Rightarrow> 'c \<Rightarrow> 'c \<Rightarrow> u32 \<Rightarrow> 's \<Rightarrow> 's" where
  "put32 c0 c1 c2 c3 v s =
     put c3 (ucast v) (put c2 (ucast (drop_bit 8 v)) (put c1 (ucast (drop_bit 16 v)) (put c0 (ucast (drop_bit 24 v)) s)))"

lemma get32_put32:
  "distinct [c0, c1, c2, c3] \<Longrightarrow> get32 (put32 c0 c1 c2 c3 v s) c0 c1 c2 c3 = v"
  by (simp add: get32_def put32_def get_put long_of_bytes)

lemma get_put32_other:
  "c \<notin> {c0, c1, c2, c3} \<Longrightarrow> get (put32 c0 c1 c2 c3 v s) c = get s c"
  by (simp add: put32_def get_put)

end

section \<open>The mapped host memory is a byte store\<close>

interpretation cells: byte_store cell_get cell_put
  by unfold_locales (auto simp: cell_get_def cell_put_def split: cell.splits)

lemma natmem_cell_cell_put [simp]: "natmem_cell (cell_put c v s) a = natmem_cell s a"
  by (simp add: natmem_cell_def cell_put_def split: cell.splits)

lemma ptr_cell_cell_put [simp]: "ptr_cell (cell_put c v s) p = ptr_cell s p"
  by (cases p) simp_all

lemma do_mem_word_cells:
  "do_get_mem_word s p = cells.get16 s (ptr_cell s p) (ptr_cell s (ptr_add p 1))"
  "do_put_mem_word p v s = cells.put16 (ptr_cell s p) (ptr_cell s (ptr_add p 1)) v s"
  by (simp_all add: do_get_mem_word_def do_put_mem_word_def mem_get_byte_def mem_put_byte_def
      cells.get16_def cells.put16_def)

lemma do_mem_long_cells:
  "do_get_mem_long s p = cells.get32 s (ptr_cell s p) (ptr_cell s (ptr_add p 1))
     (ptr_cell s (ptr_add p 2)) (ptr_cell s (ptr_add p 3))"
  "do_put_mem_long p v s = cells.put32 (ptr_cell s p) (ptr_cell s (ptr_add p 1))
     (ptr_cell s (ptr_add p 2)) (ptr_cell s (ptr_add p 3)) v s"
  by (simp_all add: do_get_mem_long_def do_put_mem_long_def mem_get_byte_def mem_put_byte_def
      cells.get32_def cells.put32_def)

text \<open>States that differ in the bytes of guest memory at most.\<close>

definition bytes_only :: "'a stram_state_scheme \<Rightarrow> 'a stram_state_scheme \<Rightarrow> bool" where
  "bytes_only s t \<longleftrightarrow> (\<exists>na nf. t = s\<lparr>nm_anon := na, nm_file := nf\<rparr>)"

lemma bytes_only_refl [simp, intro]: "bytes_only s s"
  unfolding bytes_only_def by (intro exI [of _ "nm_anon s"] exI [of _ "nm_file s"]) simp

lemma bytes_only_trans: "bytes_only s t \<Longrightarrow> bytes_only t u \<Longrightarrow> bytes_only s u"
  unfolding bytes_only_def by (elim exE) (simp, blast)

lemma bytes_only_cell_put: "bytes_only s (cell_put c v s)"
  unfolding bytes_only_def
  by (cases c; intro exI [of _ "nm_anon (cell_put c v s)"] exI [of _ "nm_file (cell_put c v s)"])
    (simp_all add: cell_put_def)

lemma bytes_only_mem_put [simp, intro]:
  "bytes_only s (mem_put_byte p v8 s)" "bytes_only s (do_put_mem_word p v16 s)"
  "bytes_only s (do_put_mem_long p v32 s)"
  unfolding do_put_mem_word_def do_put_mem_long_def mem_put_byte_def
  by (blast intro: bytes_only_trans bytes_only_cell_put)+

lemma stram_inv_bytes_only:
  assumes "bytes_only s t"
  shows "stram_inv t = stram_inv s"
proof -
  obtain na nf where t: "t = s\<lparr>nm_anon := na, nm_file := nf\<rparr>"
    using assms unfolding bytes_only_def by blast
  have "natmem_cell t a = natmem_cell s a" for a by (simp add: t natmem_cell_def)
  moreover have "stram_alias_off t a = stram_alias_off s a" for a
    by (rule stram_alias_off_cong) (simp_all add: t)
  ultimately show ?thesis
    by (simp add: stram_inv_def) (simp add: t stram_sizes_ok_def fold_needed_def)
qed

end
