(* ===== verification/Video_Snoop.thy ===== *)
theory Video_Snoop
  imports Host_Mem
begin

text \<open>
  The video snoops of \<open>pistorm_natmem.cpp\<close>: guest writes to the Shifter's and GLUE's registers
  and to the system variables are recorded in \<open>rtg\<close> (\<open>et4000.h\<close>), the palette and the published
  frame rate, from which the HDMI renderer draws. One function per access size.
\<close>

section \<open>State\<close>

record rtg_s =
  PAL :: u8
  shift_mode :: u8
  hw_rez :: u8
  res_changed :: bool
  vram_base :: u32
  low :: u8
  mid :: u8
  high :: u8
  linewidth :: u8
  hscroll :: u8

text \<open>The frame rate the GLUE produces: nothing published yet, or one of the three rates.\<close>

datatype guest_hz = HzUnknown | Hz50 | Hz60 | Hz71_4

record video_state = stram_state +
  rtg :: rtg_s
  st_palette :: "u16 list"
  pal_log :: "(nat \<times> u16) list"
  last_rez :: u8
  last_sync :: u8
  pistorm_guest_hz :: guest_hz

section \<open>The snoops\<close>

definition st_rez_sync_trace :: "u32 \<Rightarrow> u8 \<Rightarrow> 'a video_state_scheme \<Rightarrow> 'a video_state_scheme" where
  "st_rez_sync_trace a v s =
     (if (if a = 0x00FF8260 then v = last_rez s else v = last_sync s) then s
      else
        (let s1 = (if a = 0x00FF8260 then s\<lparr>last_rez := v\<rparr> else s\<lparr>last_sync := v\<rparr>);
             hz = (if last_rez s1 \<noteq> 0xFF \<and> last_rez s1 AND 3 = 2 then Hz71_4
                   else if last_sync s1 \<noteq> 0xFF then (if last_sync s1 AND 2 \<noteq> 0 then Hz50 else Hz60)
                   else HzUnknown)
         in if hz \<noteq> HzUnknown then s1\<lparr>pistorm_guest_hz := hz\<rparr> else s1))"

definition st_video_ste_extras_clear :: "'a video_state_scheme \<Rightarrow> 'a video_state_scheme" where
  "st_video_ste_extras_clear s = s\<lparr>rtg := (rtg s)\<lparr>low := 0\<rparr>\<rparr>"

definition palette_write :: "nat \<Rightarrow> u16 \<Rightarrow> 'a video_state_scheme \<Rightarrow> 'a video_state_scheme" where
  "palette_write i v s = s\<lparr>st_palette := (st_palette s)[i := v], pal_log := (i, v) # pal_log s\<rparr>"

definition st_video_snoop8 :: "u32 \<Rightarrow> u8 \<Rightarrow> 'a video_state_scheme \<Rightarrow> 'a video_state_scheme" where
  "st_video_snoop8 address v s =
     (let a = address AND 0x00FFFFFF in
      if a = 0x00FF8201 then st_video_ste_extras_clear (s\<lparr>rtg := (rtg s)\<lparr>high := v\<rparr>\<rparr>)
      else if a = 0x00FF8203 then st_video_ste_extras_clear (s\<lparr>rtg := (rtg s)\<lparr>mid := v\<rparr>\<rparr>)
      else if a = 0x00FF820D then s\<lparr>rtg := (rtg s)\<lparr>low := v\<rparr>\<rparr>
      else if a = 0x00FF820F then s\<lparr>rtg := (rtg s)\<lparr>linewidth := v\<rparr>\<rparr>
      else if a = 0x00FF8265 then s\<lparr>rtg := (rtg s)\<lparr>hscroll := v AND 0x0F\<rparr>\<rparr>
      else if a = 0x00FF8260 then
        st_rez_sync_trace a v (s\<lparr>rtg := (rtg s)\<lparr>shift_mode := v, hw_rez := v\<rparr>\<rparr>)
      else if a = 0x00FF820A then st_rez_sync_trace a v s
      else s)"

definition st_video_snoop16 :: "u32 \<Rightarrow> u16 \<Rightarrow> 'a video_state_scheme \<Rightarrow> 'a video_state_scheme" where
  "st_video_snoop16 address v s =
     (let a = address AND 0x00FFFFFF in
      if a = 0x00FF8200 then st_video_ste_extras_clear (s\<lparr>rtg := (rtg s)\<lparr>high := ucast v\<rparr>\<rparr>)
      else if a = 0x00FF8202 then st_video_ste_extras_clear (s\<lparr>rtg := (rtg s)\<lparr>mid := ucast v\<rparr>\<rparr>)
      else if a = 0x00FF820C then s\<lparr>rtg := (rtg s)\<lparr>low := ucast v\<rparr>\<rparr>
      else if a = 0x00FF820E then s\<lparr>rtg := (rtg s)\<lparr>linewidth := ucast v\<rparr>\<rparr>
      else if a = 0x00FF8264 then s\<lparr>rtg := (rtg s)\<lparr>hscroll := ucast (v AND 0x0F)\<rparr>\<rparr>
      else if a = 0x00FF8260 then
        st_rez_sync_trace a (ucast (drop_bit 8 v))
          (s\<lparr>rtg := (rtg s)\<lparr>shift_mode := ucast (drop_bit 8 v), hw_rez := ucast (drop_bit 8 v)\<rparr>\<rparr>)
      else if a = 0x00FF820A then st_rez_sync_trace a (ucast (drop_bit 8 v)) s
      else if a \<ge> 0x00FF8240 \<and> a < 0x00FF8260 then
        palette_write (unat (drop_bit 1 (a - 0x00FF8240))) v s
      else s)"

definition st_video_snoop32 :: "u32 \<Rightarrow> u32 \<Rightarrow> 'a video_state_scheme \<Rightarrow> 'a video_state_scheme" where
  "st_video_snoop32 address v s =
     (let a = address AND 0x00FFFFFF in
      if a = 0x00FF8200 then
        st_video_ste_extras_clear
          (s\<lparr>rtg := (rtg s)\<lparr>high := ucast (drop_bit 16 v), mid := ucast v\<rparr>\<rparr>)
      else if a = 0x00FF820C then
        s\<lparr>rtg := (rtg s)\<lparr>low := ucast (drop_bit 16 v), linewidth := ucast v\<rparr>\<rparr>
      else if a \<ge> 0x00FF8240 \<and> a < 0x00FF8260 then
        (let i = unat (drop_bit 1 (a - 0x00FF8240));
             s1 = palette_write i (ucast (drop_bit 16 v)) s
         in if i + 1 < 16 then palette_write (i + 1) (ucast v) s1
            else st_video_snoop8 0x00FF8260 (ucast (drop_bit 8 v)) s1)
      else if a = 0x00FF8260 then st_video_snoop8 a (ucast (drop_bit 24 v)) s
      else if a = 0x00FF8208 then st_video_snoop8 0x00FF820A (ucast (drop_bit 8 v)) s
      else s)"

text \<open>Reads of the mirror as the snoops of the system variables do them, byte by byte.\<close>

definition natmem_byte :: "'a stram_state_scheme \<Rightarrow> u32 \<Rightarrow> u8" where
  "natmem_byte s a = cell_get s (natmem_cell s a)"

definition stram_be32 :: "'a stram_state_scheme \<Rightarrow> u32 \<Rightarrow> u32" where
  "stram_be32 s a =
     push_bit 24 (ucast (natmem_byte s a)) OR push_bit 16 (ucast (natmem_byte s (a + 1))) OR
     push_bit 8 (ucast (natmem_byte s (a + 2))) OR ucast (natmem_byte s (a + 3))"

definition stram_be16 :: "'a stram_state_scheme \<Rightarrow> u32 \<Rightarrow> u16" where
  "stram_be16 s a = push_bit 8 (ucast (natmem_byte s a)) OR ucast (natmem_byte s (a + 1))"

definition stram_refresh_physbase :: "'a video_state_scheme \<Rightarrow> 'a video_state_scheme" where
  "stram_refresh_physbase s = s\<lparr>rtg := (rtg s)\<lparr>vram_base := stram_be32 s 0x44E AND 0x00FFFFFE\<rparr>\<rparr>"

definition stram_snoop_lowram :: "u32 \<Rightarrow> u32 \<Rightarrow> 'a video_state_scheme \<Rightarrow> 'a video_state_scheme" where
  "stram_snoop_lowram address sz s =
     (let a = address AND 0x00FFFFFF;
          e = a + sz;
          s1 = (if a = 0x448 then s\<lparr>rtg := (rtg s)\<lparr>PAL := ucast (stram_be16 s 0x448)\<rparr>\<rparr> else s);
          s2 = (if a = 0x44C then
                  (let m = ucast (stram_be16 s1 0x44C) in
                   if shift_mode (rtg s1) \<noteq> m
                   then s1\<lparr>rtg := (rtg s1)\<lparr>shift_mode := m, res_changed := True\<rparr>\<rparr> else s1)
                else s1)
      in if a < 0x452 \<and> e > 0x44E then stram_refresh_physbase s2 else s2)"

text \<open>The screen address: from the registers, else the recorded or the current \<open>_v_bas_ad\<close>.\<close>

definition reg_base :: "rtg_s \<Rightarrow> u32" where
  "reg_base r = push_bit 16 (ucast (high r)) OR push_bit 8 (ucast (mid r)) OR (ucast (low r) AND 0xFE)"

definition stram_screen_base :: "'a video_state_scheme \<Rightarrow> u32" where
  "stram_screen_base s =
     (let regbase = reg_base (rtg s) in
      if regbase \<noteq> 0 \<and> regbase < ST_RAM_SIZE then regbase
      else if vram_base (rtg s) \<noteq> 0 \<and> vram_base (rtg s) < ST_RAM_SIZE
           then vram_base (rtg s) AND 0x00FFFFFE
      else
        (let physbase = stram_be32 s 0x44E AND 0x00FFFFFE in
         if physbase \<noteq> 0 \<and> physbase < ST_RAM_SIZE then physbase else 0))"

definition stram_range_overlaps :: "u32 \<Rightarrow> u32 \<Rightarrow> u32 \<Rightarrow> u32 \<Rightarrow> bool" where
  "stram_range_overlaps a sz start len =
     (let e = a + sz; win_end = start + len in a < win_end \<and> e > start)"

section \<open>A wider write is its halves\<close>

text \<open>Registers by word address: those a longword write reaches through the long snoop.\<close>

definition long_gap :: "u32 set" where
  "long_gap = {0x00FF81FE, 0x00FF8202, 0x00FF820A, 0x00FF820E, 0x00FF823E, 0x00FF8262, 0x00FF8264}"

definition word_regs :: "u32 set" where
  "word_regs = {0x00FF8200, 0x00FF8202, 0x00FF820A, 0x00FF820C, 0x00FF820E, 0x00FF8260, 0x00FF8264}"

lemma and_24bit: "a < 0x01000000 \<Longrightarrow> a AND 0x00FFFFFF = a" for a :: u32
proof -
  assume "a < 0x01000000"
  then have "unat a < 2 ^ 24" by (simp add: word_less_nat_alt)
  moreover have "(0x00FFFFFF :: u32) = mask 24" by (simp add: mask_eq_exp_minus_1)
  ultimately show ?thesis by (metis unat_and_mask mod_less word_unat_eq_iff)
qed

lemma snoop16_other:
  assumes "a < 0x01000000" "a \<notin> word_regs" "\<not> (0x00FF8240 \<le> a \<and> a < 0x00FF8260)"
  shows "st_video_snoop16 a v s = s"
  using assms by (auto simp: st_video_snoop16_def and_24bit word_regs_def)

lemma pal_index:
  fixes a :: u32
  assumes "0x00FF8240 \<le> a" "a < 0x00FF8260"
  shows "unat (drop_bit 1 (a - 0x00FF8240)) = (unat a - 0x00FF8240) div 2"
  using assms by (simp add: unat_drop_bit unat_sub)

lemma snoop16_palette:
  assumes "0x00FF8240 \<le> a" "a < 0x00FF8260"
  shows "st_video_snoop16 a v s = palette_write ((unat a - 0x00FF8240) div 2) v s"
proof -
  have "a < 0x01000000" using assms(2) by (simp add: word_less_nat_alt)
  moreover have "a \<notin> word_regs" using assms by (auto simp: word_regs_def)
  ultimately show ?thesis
    using assms by (simp add: st_video_snoop16_def and_24bit word_regs_def pal_index [unfolded One_nat_def] Let_def)
qed

text \<open>The half of a longword that a word snoop sees.\<close>

lemma long_halves:
  "ucast (ucast (drop_bit 16 v) :: u16) = (ucast (drop_bit 16 v) :: u8)"
  "ucast (ucast v :: u16) = (ucast v :: u8)"
  "ucast (drop_bit 8 (ucast v :: u16)) = (ucast (drop_bit 8 v) :: u8)"
  "ucast (drop_bit 8 (ucast (drop_bit 16 v) :: u16)) = (ucast (drop_bit 24 v) :: u8)" for v :: u32
  by (rule bit_eqI; auto simp: bit_simps)+

lemma snoop32_other:
  assumes "a < 0x01000000" "a \<notin> {0x00FF8200, 0x00FF820C, 0x00FF8260, 0x00FF8208}"
    "\<not> (0x00FF8240 \<le> a \<and> a < 0x00FF8260)"
  shows "st_video_snoop32 a v s = s"
  using assms by (auto simp: st_video_snoop32_def and_24bit)

lemma snoop32_palette:
  assumes "0x00FF8240 \<le> a" "a < 0x00FF825E" "even (unat a)"
  shows "st_video_snoop32 a v s =
    st_video_snoop16 (a + 2) (ucast v) (st_video_snoop16 a (ucast (drop_bit 16 v)) s)"
proof -
  have l: "a < 0x01000000" "a < 0x00FF8260" using assms(2) by (simp_all add: word_less_nat_alt)
  have u: "unat (a + 2) = unat a + 2" using l by (subst unat_add_small) (simp_all add: word_less_nat_alt)
  have i: "(unat a + 2 - 0x00FF8240) div 2 = (unat a - 0x00FF8240) div 2 + 1"
    using assms(1) by (simp add: word_le_nat_alt)
  have b: "(unat a - 0x00FF8240) div 2 + 1 < 16"
    using assms by (auto simp: word_le_nat_alt word_less_nat_alt)
  have r: "0x00FF8240 \<le> a + 2" "a + 2 < 0x00FF8260"
    using assms by (auto simp: word_le_nat_alt word_less_nat_alt u)
  have n: "a \<noteq> 0x00FF8200" "a \<noteq> 0x00FF820C" using assms(1) by auto
  show ?thesis
    using b i by (simp add: st_video_snoop32_def snoop16_palette [OF r] snoop16_palette [OF assms(1) l(2)]
        u and_24bit [OF l(1)] n assms(1) l(2) pal_index [OF assms(1) l(2), unfolded One_nat_def] Let_def)
qed

lemma snoop32_is_snoop16:
  assumes lt: "a < 0x00FFFFFE" and ev: "even (unat a)" and g: "a \<notin> long_gap"
  shows "st_video_snoop32 a v s =
    st_video_snoop16 (a + 2) (ucast v) (st_video_snoop16 a (ucast (drop_bit 16 v)) s)"
proof -
  have l: "a < 0x01000000" using lt by (simp add: word_less_nat_alt)
  have u: "unat (a + 2) = unat a + 2" using l by (subst unat_add_small) (simp_all add: word_less_nat_alt)
  have "unat a \<noteq> 0x00FF825F" using ev by auto
  then have "a < 0x00FF825E \<or> a = 0x00FF825E" if "a < 0x00FF8260"
    using that by (auto simp: word_less_nat_alt word_unat_eq_iff)
  then consider "a = 0x00FF8200" | "a = 0x00FF820C" | "0x00FF8240 \<le> a" "a < 0x00FF825E" | "a = 0x00FF825E"
    | "a = 0x00FF8260" | "a = 0x00FF8208"
    | "a \<notin> {0x00FF8200, 0x00FF820C, 0x00FF8260, 0x00FF8208}" "\<not> (0x00FF8240 \<le> a \<and> a < 0x00FF8260)"
    by blast
  then show ?thesis
  proof cases
    case 3
    then show ?thesis using ev by (rule snoop32_palette)
  next
    case 7
    have n: "unat a \<notin> {0x00FF8200, 0x00FF820C, 0x00FF8260, 0x00FF8208, 0x00FF81FE, 0x00FF8202, 0x00FF820A,
        0x00FF820E, 0x00FF823E, 0x00FF8262, 0x00FF8264}" "\<not> (0x00FF8240 \<le> unat a \<and> unat a < 0x00FF8260)"
      using 7 g by (auto simp: long_gap_def word_le_nat_alt word_less_nat_alt word_unat_eq_iff)
    then have "a \<notin> word_regs" "a + 2 \<notin> word_regs" by (auto simp: word_regs_def word_unat_eq_iff u)
    moreover have "\<not> (0x00FF8240 \<le> a + 2 \<and> a + 2 < 0x00FF8260)"
      using n ev by (auto simp: word_le_nat_alt word_less_nat_alt u)
    moreover have "a + 2 < 0x01000000" using lt by (simp add: word_less_nat_alt u)
    ultimately show ?thesis using 7 l by (simp add: snoop16_other snoop32_other)
  qed (simp_all add: st_video_snoop32_def st_video_snoop16_def st_video_snoop8_def
        st_video_ste_extras_clear_def long_halves Let_def)
qed

text \<open>A word write to a register that is no colour is the byte write of the half that holds it.\<close>

definition reg_byte :: "u32 \<Rightarrow> u32" where
  "reg_byte a = (if a = 0x00FF8260 \<or> a = 0x00FF820A then a else a + 1)"

definition reg_half :: "u32 \<Rightarrow> u16 \<Rightarrow> u8" where
  "reg_half a v = (if a = 0x00FF8260 \<or> a = 0x00FF820A then ucast (drop_bit 8 v) else ucast v)"

lemma ucast_and_nibble: "(ucast (v AND 0x0F) :: u8) = ucast v AND 0x0F" for v :: u16
proof -
  have "(0x0F :: u16) = mask 4" "(0x0F :: u8) = mask 4" by (simp_all add: mask_eq_exp_minus_1)
  then show ?thesis by (simp only:) (rule bit_eqI, auto simp: bit_simps)
qed

lemma snoop16_is_snoop8:
  assumes "a \<in> word_regs"
  shows "st_video_snoop16 a v s = st_video_snoop8 (reg_byte a) (reg_half a v) s"
  using assms by (auto simp: word_regs_def st_video_snoop16_def st_video_snoop8_def reg_byte_def reg_half_def
      ucast_and_nibble)

section \<open>Properties\<close>

text \<open>Outside the seven addresses of \<open>long_gap\<close>, a longword write to any even address of the
  24-bit bus is snooped exactly as its two word writes in order, so the palette, the screen base
  and the mode the renderer sees do not depend on the size of the guest's access.\<close>

theorem video_long_is_words:
  assumes "a < 0x00FFFFFE" and "even (unat a)" and "a \<notin> long_gap"
  shows "st_video_snoop32 a v s =
    st_video_snoop16 (a + 2) (ucast v) (st_video_snoop16 a (ucast (drop_bit 16 v)) s)"
  using assms by (rule snoop32_is_snoop16)

theorem video_long_is_words_witness:
  "\<forall>s :: video_state. st_video_snoop32 0x00FF825E 0x07770200 s =
     st_video_snoop16 0x00FF8260 0x0200 (st_video_snoop16 0x00FF825E 0x0777 s)"
proof
  fix s :: video_state
  have low_half: "(0x07770200 :: u16) = 0x0200" by simp
  show "st_video_snoop32 0x00FF825E 0x07770200 s =
      st_video_snoop16 0x00FF8260 0x0200 (st_video_snoop16 0x00FF825E 0x0777 s)"
    using video_long_is_words [of "0x00FF825E" "0x07770200" s] by (simp add: long_gap_def low_half)
qed

text \<open>A longword write at \<open>$FF8202\<close> is the exception: the word write of its high half sets
  the middle byte of the screen base and clears the low one, the long write changes nothing.\<close>

theorem video_long_gap_8202:
  "st_video_snoop32 0x00FF8202 v s = s \<and>
   rtg (st_video_snoop16 0x00FF8202 (ucast (drop_bit 16 v)) s) =
     (rtg s)\<lparr>mid := ucast (drop_bit 16 v), low := 0\<rparr>"
  by (simp add: st_video_snoop32_def st_video_snoop16_def st_video_ste_extras_clear_def long_halves)

end
