(* ===== verification/Shadow.thy ===== *)
theory Shadow
  imports Video_Snoop
begin

text \<open>
  The real memory controller and the real Shifter (\<open>pistorm_natmem.cpp\<close>): ownership of the
  memory configuration register \<open>$FF8001\<close> and the shadow frame buffer in the board's own RAM
  that the Shifter scans while the guest keeps its screen in the emulated 4 MB.
\<close>

section \<open>State\<close>

text \<open>\<open>psvidel_act\<close> is what \<open>psvidel_active()\<close> answers.\<close>

record shadow_state = video_state +
  g_stram_phys_top :: u32
  g_stram_phys_memcfg :: u8
  g_stram_guest_memcfg :: u8
  g_stram_mirror_ok :: int
  g_shadow_base :: u32
  g_shadow_src :: u32
  g_shadow_have_base :: bool
  g_shadow_ste_reg :: bool
  psvidel_act :: bool

definition STRAM_SHADOW_SIZE :: u32 where [c_const]: "STRAM_SHADOW_SIZE = 0x8000"
definition STRAM_LOW_WRITE_THROUGH_SIZE :: u32 where [c_const]: "STRAM_LOW_WRITE_THROUGH_SIZE = 0x5B4"
definition STRAM_SCREEN_WRITE_THROUGH_SIZE :: u32 where
  [c_const]: "STRAM_SCREEN_WRITE_THROUGH_SIZE = 0x20000"

section \<open>The memory configuration register\<close>

definition stram_bank_code :: "u32 \<Rightarrow> u8" where
  "stram_bank_code sz = (if sz \<ge> KB 2048 then 2 else if sz \<ge> KB 512 then 1 else 0)"

text \<open>\<open>pistorm_stram_memcfg_bus_value\<close>: the value that goes to the chip.\<close>

definition pistorm_stram_memcfg_bus_value ::
  "u32 \<Rightarrow> u32 \<Rightarrow> nat \<Rightarrow> 'a shadow_state_scheme \<Rightarrow> u32 \<times> 'a shadow_state_scheme" where
  "pistorm_stram_memcfg_bus_value address v sz s =
     (let a = address AND 0x00FFFFFF; phys = ucast (g_stram_phys_memcfg s) in
      if g_stram_phys_memcfg s = 0 then (v, s)
      else if sz = 1 \<and> a = 0x00FF8001 then (phys, s\<lparr>g_stram_guest_memcfg := ucast v\<rparr>)
      else if sz = 2 \<and> a = 0x00FF8000 then
        ((v AND 0xFF00) OR phys, s\<lparr>g_stram_guest_memcfg := ucast v\<rparr>)
      else if sz = 4 \<and> a = 0x00FF8000 then
        ((v AND 0xFF00FFFF) OR push_bit 16 phys, s\<lparr>g_stram_guest_memcfg := ucast (drop_bit 16 v)\<rparr>)
      else (v, s))"

definition pistorm_stram_memcfg_read_shim :: "'a shadow_state_scheme \<Rightarrow> u32 \<Rightarrow> nat \<Rightarrow> u32 option" where
  "pistorm_stram_memcfg_read_shim s address sz =
     (let a = address AND 0x00FFFFFF in
      if g_stram_phys_memcfg s = 0 \<or> sz \<noteq> 1 \<or> a \<noteq> 0x00FF8001 then None
      else Some (ucast (g_stram_guest_memcfg s)))"

definition pistorm_stram_phys_top :: "'a shadow_state_scheme \<Rightarrow> u32" where
  "pistorm_stram_phys_top s = g_stram_phys_top s"

section \<open>The shadow frame buffer\<close>

definition stram_shadow_on :: "'a shadow_state_scheme \<Rightarrow> bool" where
  "stram_shadow_on s \<longleftrightarrow> g_shadow_base s \<noteq> 0"

definition pistorm_hdmi_only :: "'a shadow_state_scheme \<Rightarrow> bool" where
  "pistorm_hdmi_only s = cfg_hdmi_only (config s)"

definition stram_shadow_guest_base :: "'a shadow_state_scheme \<Rightarrow> u32" where
  "stram_shadow_guest_base s =
     (if \<not> g_shadow_have_base s then 0
      else
        (let b = reg_base (rtg s) in
         if b < 0x8000 \<or> b + STRAM_SHADOW_SIZE > ST_RAM_SIZE then 0 else b))"

definition stram_shadow_program_base :: "bus_env \<Rightarrow> 'a shadow_state_scheme \<Rightarrow> 'a shadow_state_scheme" where
  "stram_shadow_program_base env s =
     (if stram_shadow_guest_base s = 0 then s
      else
        (let s1 = ps_write_8 env 0x00FF8201 (ucast (drop_bit 16 (g_shadow_base s))) s;
             s2 = ps_write_8 env 0x00FF8203 (ucast (drop_bit 8 (g_shadow_base s))) s1
         in if g_shadow_ste_reg s
            then ps_write_8 env 0x00FF820D (ucast (g_shadow_base s AND 0xFE)) s2 else s2))"

text \<open>The copy loop over the longs of the screen: with \<open>diff\<close>, only those that differ from the
  screen at \<open>prev\<close>.\<close>

definition refill_long ::
  "bus_env \<Rightarrow> bool \<Rightarrow> u32 \<Rightarrow> u32 \<Rightarrow> u32 \<Rightarrow> 'a shadow_state_scheme \<Rightarrow> 'a shadow_state_scheme" where
  "refill_long env diff prev scr o' s =
     (let v = do_get_mem_long s (Natmem (scr + o')) in
      if diff \<and> v = do_get_mem_long s (Natmem (prev + o')) then s
      else ps_write_32 env (g_shadow_base s + o') v s)"

definition refill_offsets :: "u32 list" where
  "refill_offsets = map (\<lambda>k. 4 * of_nat k) [0..<0x2000]"

definition stram_shadow_refill :: "bus_env \<Rightarrow> 'a shadow_state_scheme \<Rightarrow> 'a shadow_state_scheme" where
  "stram_shadow_refill env s =
     (let scr = stram_shadow_guest_base s in
      if scr = 0 \<or> scr = g_shadow_src s then s
      else
        (let prev = g_shadow_src s;
             diff = (prev \<noteq> 0 \<and> cfg_stram_cache (config s))
         in fold (refill_long env diff prev scr) refill_offsets (s\<lparr>g_shadow_src := scr\<rparr>)))"

definition stram_bus_addr :: "'a shadow_state_scheme \<Rightarrow> u32 \<Rightarrow> u32" where
  "stram_bus_addr s a =
     (if g_shadow_base s = 0 then a AND 0x00FFFFFF
      else
        (let scr = stram_shadow_guest_base s in
         if scr \<noteq> 0 \<and> a \<ge> scr \<and> a < scr + STRAM_SHADOW_SIZE then g_shadow_base s + (a - scr)
         else a AND 0x00FFFFFF))"

definition shadow_hit :: "u32 \<Rightarrow> nat \<Rightarrow> bool" where
  "shadow_hit a sz =
     (if sz = 1 then a = 0x00FF8201 \<or> a = 0x00FF8203 \<or> a = 0x00FF820D
      else if sz = 2 then a = 0x00FF8200 \<or> a = 0x00FF8202 \<or> a = 0x00FF820C
      else a = 0x00FF8200 \<or> a = 0x00FF820C)"

definition stram_shadow_video_after ::
  "bus_env \<Rightarrow> u32 \<Rightarrow> nat \<Rightarrow> 'a shadow_state_scheme \<Rightarrow> 'a shadow_state_scheme" where
  "stram_shadow_video_after env address sz s =
     (if \<not> stram_shadow_on s then s
      else if psvidel_act s then s
      else if \<not> shadow_hit (address AND 0x00FFFFFF) sz then s
      else
        (let s1 = s\<lparr>g_shadow_have_base := True\<rparr> in
         if pistorm_hdmi_only s1 then s1
         else stram_shadow_program_base env (stram_shadow_refill env s1)))"

definition pistorm_video_base_read_shim :: "'a shadow_state_scheme \<Rightarrow> u32 \<Rightarrow> nat \<Rightarrow> u32 option" where
  "pistorm_video_base_read_shim s address sz =
     (let a = address AND 0x00FFFFFF in
      if g_shadow_base s = 0 \<or> \<not> g_shadow_have_base s \<or> sz \<noteq> 1 then None
      else if a = 0x00FF8201 then Some (ucast (high (rtg s)))
      else if a = 0x00FF8203 then Some (ucast (mid (rtg s)))
      else if a = 0x00FF820D then (if g_shadow_ste_reg s then Some (ucast (low (rtg s))) else None)
      else None)"

text \<open>The test for \<open>$FF820D\<close> on the real Shifter: write 5A, read, write 0, read, restore.\<close>

definition probe_ste_reg :: "bus_env \<Rightarrow> 'a shadow_state_scheme \<Rightarrow> 'a shadow_state_scheme" where
  "probe_ste_reg env s =
     (let old_fc = fc s;
          (save, s1) = ps_read_8 env 0x00FF820D (s\<lparr>fc := 5\<rparr>);
          s2 = ps_write_8 env 0x00FF820D 0x5A s1;
          (_, s3) = ps_read_8 env 0x00FF8203 s2;
          (r1, s4) = ps_read_8 env 0x00FF820D s3;
          s5 = ps_write_8 env 0x00FF820D 0 s4;
          (_, s6) = ps_read_16 env 0x00FF8240 s5;
          (r2, s7) = ps_read_8 env 0x00FF820D s6;
          s8 = ps_write_8 env 0x00FF820D save s7
      in s8\<lparr>fc := old_fc, g_buserr := False, g_shadow_ste_reg := (r1 = 0x5A \<and> r2 = 0)\<rparr>)"

definition stram_shadow_init ::
  "bus_env \<Rightarrow> u32 \<Rightarrow> bool \<Rightarrow> 'a shadow_state_scheme \<Rightarrow> 'a shadow_state_scheme" where
  "stram_shadow_init env phys_top mirrors s =
     (if getenv_stram_shadow_off (config s) then s
      else if g_stram_alias s \<or> mirrors \<or> phys_top = 0 \<or> phys_top \<ge> ST_RAM_SIZE then s
      else if phys_top < STRAM_SHADOW_SIZE * 2 then s
      else probe_ste_reg env (s\<lparr>g_shadow_base := (phys_top - STRAM_SHADOW_SIZE) AND 0x00FFFF00\<rparr>))"

section \<open>Probing the board\<close>

fun mirror_reads ::
  "bus_env \<Rightarrow> u32 \<Rightarrow> u32 list \<Rightarrow> 'a bus_state_scheme \<Rightarrow> bool \<times> 'a bus_state_scheme" where
  "mirror_reads env pat [] s = (True, s)"
| "mirror_reads env pat (off # offs) s =
     (let (v, s1) = ps_read_32 env (off + 0x400) s; (ok, s2) = mirror_reads env pat offs s1
      in (v = pat \<and> ok, s2))"

definition stram_probe_mirror :: "bus_env \<Rightarrow> 'a shadow_state_scheme \<Rightarrow> 'a shadow_state_scheme" where
  "stram_probe_mirror env s =
     (let old_fc = fc s;
          offs = [0x100000, 0x200000, 0x300000];
          s1 = ps_write_32 env 0x400 0xA5A50F0F (s\<lparr>fc := 5\<rparr>);
          (ok0, s2) = mirror_reads env 0xA5A50F0F offs s1;
          s3 = ps_write_32 env 0x400 0x5A5AF0F0 s2;
          (ok1, s4) = mirror_reads env 0x5A5AF0F0 offs s3;
          s5 = ps_write_32 env 0x400 0 s4
      in s5\<lparr>fc := old_fc, g_buserr := False, g_stram_mirror_ok := of_bool (ok0 \<and> ok1)\<rparr>)"

definition pistorm_stram_phys_init :: "bus_env \<Rightarrow> 'a shadow_state_scheme \<Rightarrow> 'a shadow_state_scheme" where
  "pistorm_stram_phys_init env s =
     (if getenv_stram_phys_off (config s) then s
      else
        (let ((p0, p1), s1) = stram_probe_both env s in
         if p0 = 0 then s1
         else
           (let probed = push_bit 2 (stram_bank_code p0) OR stram_bank_code p1;
                cfgv = (case getenv_stram_memcfg (config s) of
                          None \<Rightarrow> probed | Some f \<Rightarrow> ucast (f AND 0x0F));
                old_fc = fc s;
                s2 = s1\<lparr>g_stram_phys_memcfg := cfgv, fc := 5\<rparr>;
                s3 = (ps_write_8 env 0xFF8001 cfgv s2)\<lparr>fc := old_fc, g_buserr := False\<rparr>;
                s4 = stram_probe_mirror env s3;
                s5 = s4\<lparr>g_stram_phys_top := p0 + p1\<rparr>
            in stram_shadow_init env (p0 + p1) (g_stram_mirror_ok s5 \<noteq> 0) s5)))"

section \<open>The chip gets the board's value\<close>

text \<open>The byte a write of \<open>sz\<close> bytes of \<open>v\<close> at \<open>a\<close> puts on address \<open>x\<close>.\<close>

definition write_byte :: "u32 \<Rightarrow> u32 \<Rightarrow> nat \<Rightarrow> u32 \<Rightarrow> u8 option" where
  "write_byte a v sz x =
     (if unat (x - a) < sz then Some (ucast (drop_bit (8 * (sz - 1 - unat (x - a))) v)) else None)"

lemma sub_eq_cases:
  fixes a x :: u32
  shows "x - a = 0 \<longleftrightarrow> x = a" "x - a = 1 \<longleftrightarrow> x = a + 1" "x - a = 2 \<longleftrightarrow> x = a + 2" "x - a = 3 \<longleftrightarrow> x = a + 3"
  by (auto simp: algebra_simps)

lemma unat_sub_less:
  fixes a x :: u32
  shows "unat (x - a) < 1 \<longleftrightarrow> x = a" "unat (x - a) < 2 \<longleftrightarrow> x = a \<or> x = a + 1"
    "unat (x - a) < 4 \<longleftrightarrow> x = a \<or> x = a + 1 \<or> x = a + 2 \<or> x = a + 3"
proof -
  have c: "unat y < 1 \<longleftrightarrow> y = 0" "unat y < 2 \<longleftrightarrow> y = 0 \<or> y = 1" "unat y < 4 \<longleftrightarrow> y = 0 \<or> y = 1 \<or> y = 2 \<or> y = 3"
    for y :: u32
    by (auto simp: word_unat_eq_iff)
  show "unat (x - a) < 1 \<longleftrightarrow> x = a" "unat (x - a) < 2 \<longleftrightarrow> x = a \<or> x = a + 1"
    "unat (x - a) < 4 \<longleftrightarrow> x = a \<or> x = a + 1 \<or> x = a + 2 \<or> x = a + 3"
    unfolding c sub_eq_cases by auto
qed

lemma byte_masks:
  "(0xFF00 :: u32) = push_bit 8 (mask 8)" "(0xFF00FFFF :: u32) = NOT (push_bit 16 (mask 8))"
  by (simp_all add: mask_eq_exp_minus_1 push_bit_eq_mult)

lemma replace_low_byte:
  fixes v :: u32 and p :: u8
  shows "(ucast ((v AND 0xFF00) OR ucast p) :: u8) = p"
    "(ucast (drop_bit 8 ((v AND 0xFF00) OR ucast p)) :: u8) = ucast (drop_bit 8 v)"
  unfolding byte_masks by (rule bit_eqI; auto simp: bit_simps dest: bit_imp_le_length)+

lemma replace_third_byte:
  fixes v :: u32 and p :: u8
  shows "(ucast ((v AND 0xFF00FFFF) OR push_bit 16 (ucast p)) :: u8) = ucast v"
    "(ucast (drop_bit 8 ((v AND 0xFF00FFFF) OR push_bit 16 (ucast p))) :: u8) = ucast (drop_bit 8 v)"
    "(ucast (drop_bit 16 ((v AND 0xFF00FFFF) OR push_bit 16 (ucast p))) :: u8) = p"
    "(ucast (drop_bit 24 ((v AND 0xFF00FFFF) OR push_bit 16 (ucast p))) :: u8) = ucast (drop_bit 24 v)"
  unfolding byte_masks by (rule bit_eqI; auto simp: bit_simps dest: bit_imp_le_length)+

lemma ucast_byte: "(ucast (ucast p :: u32) :: u8) = p" for p :: u8
  by (rule bit_eqI) (auto simp: bit_simps dest: bit_imp_le_length)

lemma memcfg_bus_byte:
  assumes ph: "g_stram_phys_memcfg s \<noteq> 0" and a: "a < 0x01000000"
    and al: "sz = 1 \<or> sz = 2 \<and> even (unat a) \<or> sz = 4 \<and> even (unat a) \<and> a \<noteq> 0x00FF7FFE"
    and w: "pistorm_stram_memcfg_bus_value a v sz s = (w, s')"
  shows "write_byte a w sz x =
    (if x = 0x00FF8001 \<and> write_byte a v sz x \<noteq> None then Some (g_stram_phys_memcfg s)
     else write_byte a v sz x)"
proof -
  have odd: "a \<noteq> 0x00FF8001" "a \<noteq> 0x00FF7FFF" if "even (unat a)" using that by auto
  have zero: "0 < unat (0x00FF8001 - a) \<longleftrightarrow> a \<noteq> 0x00FF8001"
    using unat_sub_less(1) [of "0x00FF8001" a] by auto
  consider "sz = 1" "a = 0x00FF8001" | "sz = 2" "a = 0x00FF8000" | "sz = 4" "a = 0x00FF8000"
    | "w = v" "\<not> unat (0x00FF8001 - a) < sz"
    using al w ph odd
    by (auto simp: pistorm_stram_memcfg_bus_value_def and_24bit [OF a] unat_sub_less zero Let_def
        algebra_simps split: if_splits)
  then show ?thesis
  proof cases
    case 1
    have "unat (x - 0x00FF8001) = 0 \<longleftrightarrow> x = 0x00FF8001"
      using unat_sub_less(1) [of x "0x00FF8001"] by simp
    with 1 w ph show ?thesis
      by (auto simp: pistorm_stram_memcfg_bus_value_def write_byte_def ucast_byte)
  next
    case 2
    with w ph show ?thesis
      by (auto simp: pistorm_stram_memcfg_bus_value_def write_byte_def unat_sub_less replace_low_byte
          simp del: drop_bit_and drop_bit_or)
  next
    case 3
    with w ph show ?thesis
      by (auto simp: pistorm_stram_memcfg_bus_value_def write_byte_def unat_sub_less replace_third_byte
          simp del: drop_bit_and drop_bit_or)
  next
    case 4
    then show ?thesis by (auto simp: write_byte_def)
  qed
qed

section \<open>What the board's RAM holds\<close>

text \<open>The bytes behind the bus after a history of cycles, from contents \<open>m\<close>.\<close>

fun bus_mem :: "(u32 \<Rightarrow> u8) \<Rightarrow> bus_cycle list \<Rightarrow> u32 \<Rightarrow> u8" where
  "bus_mem m [] = m"
| "bus_mem m (WriteByte _ a v # h) = (bus_mem m h)(a := v)"
| "bus_mem m (WriteWord _ a v # h) = (bus_mem m h)(a := ucast (drop_bit 8 v), a + 1 := ucast v)"
| "bus_mem m (ReadByte _ _ # h) = bus_mem m h"
| "bus_mem m (ReadWord _ _ # h) = bus_mem m h"

definition overwrite :: "(u32 \<Rightarrow> u8 option) \<Rightarrow> (u32 \<Rightarrow> u8) \<Rightarrow> u32 \<Rightarrow> u8" where
  "overwrite w m x = (case w x of Some b \<Rightarrow> b | None \<Rightarrow> m x)"

lemma write_byte_cases:
  "write_byte a v 4 x =
     (if x = a then Some (ucast (drop_bit 24 v)) else if x = a + 1 then Some (ucast (drop_bit 16 v))
      else if x = a + 2 then Some (ucast (drop_bit 8 v)) else if x = a + 3 then Some (ucast v) else None)"
  "write_byte a v 2 x =
     (if x = a then Some (ucast (drop_bit 8 v)) else if x = a + 1 then Some (ucast v) else None)"
  "write_byte a v 1 x = (if x = a then Some (ucast v) else None)"
proof -
  have 4: "x = a \<or> x = a + 1 \<or> x = a + 2 \<or> x = a + 3" if "unat (x - a) < 4" using that by (simp only: unat_sub_less)
  have 2: "x = a \<or> x = a + 1" if "unat (x - a) < 2" using that by (simp only: unat_sub_less)
  have 1: "x = a" if "unat (x - a) < 1" using that by (simp only: unat_sub_less)
  show "write_byte a v 4 x =
     (if x = a then Some (ucast (drop_bit 24 v)) else if x = a + 1 then Some (ucast (drop_bit 16 v))
      else if x = a + 2 then Some (ucast (drop_bit 8 v)) else if x = a + 3 then Some (ucast v) else None)"
    by (cases "unat (x - a) < 4") (use 4 in \<open>auto simp: write_byte_def\<close>)
  show "write_byte a v 2 x =
     (if x = a then Some (ucast (drop_bit 8 v)) else if x = a + 1 then Some (ucast v) else None)"
    by (cases "unat (x - a) < 2") (use 2 in \<open>auto simp: write_byte_def\<close>)
  show "write_byte a v 1 x = (if x = a then Some (ucast v) else None)"
    by (cases "unat (x - a) < 1") (use 1 in \<open>auto simp: write_byte_def\<close>)
qed

lemma bus_mem_ps_write_32:
  "bus_mem m (bus_hist (ps_write_32 env a v s)) = overwrite (write_byte a v 4) (bus_mem m (bus_hist s))"
proof
  fix x
  show "bus_mem m (bus_hist (ps_write_32 env a v s)) x =
      overwrite (write_byte a v 4) (bus_mem m (bus_hist s)) x"
    by (auto simp: overwrite_def write_byte_cases long_halves add.assoc)
qed

lemma bus_mem_ps_write_16:
  "bus_mem m (bus_hist (ps_write_16 env a v s)) = overwrite (write_byte a (ucast v) 2) (bus_mem m (bus_hist s))"
proof
  have h: "(ucast (ucast v :: u32) :: u8) = ucast v" "(ucast (drop_bit 8 (ucast v :: u32)) :: u8) = ucast (drop_bit 8 v)"
    by (rule bit_eqI; auto simp: bit_simps dest: bit_imp_le_length)+
  fix x
  show "bus_mem m (bus_hist (ps_write_16 env a v s)) x =
      overwrite (write_byte a (ucast v) 2) (bus_mem m (bus_hist s)) x"
    by (auto simp: overwrite_def write_byte_cases h)
qed

lemma bus_mem_ps_write_8:
  "bus_mem m (bus_hist (ps_write_8 env a v s)) = overwrite (write_byte a (ucast v) 1) (bus_mem m (bus_hist s))"
proof
  fix x
  show "bus_mem m (bus_hist (ps_write_8 env a v s)) x =
      overwrite (write_byte a (ucast v) 1) (bus_mem m (bus_hist s)) x"
    by (auto simp: overwrite_def write_byte_cases(3) ucast_byte simp del: One_nat_def)
qed

lemmas bus_mem_ps_write = bus_mem_ps_write_8 bus_mem_ps_write_16 bus_mem_ps_write_32

section \<open>The refill\<close>

text \<open>States that differ in the bus part at most.\<close>

definition bus_only :: "'a shadow_state_scheme \<Rightarrow> 'a shadow_state_scheme \<Rightarrow> bool" where
  "bus_only s t \<longleftrightarrow> bus_state.more t = bus_state.more s"

lemma bus_only_fields:
  assumes "bus_only s t"
  shows "nm_anon t = nm_anon s" "nm_file t = nm_file s" "nm_page t = nm_page s" "config t = config s"
    "rtg t = rtg s" "g_shadow_base t = g_shadow_base s" "g_shadow_src t = g_shadow_src s"
    "g_shadow_have_base t = g_shadow_have_base s" "g_shadow_ste_reg t = g_shadow_ste_reg s"
    "psvidel_act t = psvidel_act s" "g_stram_fold_hook t = g_stram_fold_hook s"
    "g_stram_alias t = g_stram_alias s"
  using assms by (cases s; cases t; simp add: bus_only_def)+

lemma bus_only_natmem:
  assumes "bus_only s t"
  shows "natmem_byte t = natmem_byte s" "do_get_mem_long t p = do_get_mem_long s p"
    "stram_shadow_guest_base t = stram_shadow_guest_base s"
proof -
  note f = bus_only_fields [OF assms]
  have c: "natmem_cell t a = natmem_cell s a" for a by (simp add: natmem_cell_def f)
  have g: "cell_get t x = cell_get s x" for x by (simp add: cell_get_def f split: cell.split)
  show "natmem_byte t = natmem_byte s" by (rule ext) (simp add: natmem_byte_def c g)
  have "ptr_cell t q = ptr_cell s q" for q by (cases q) (simp_all add: c)
  then show "do_get_mem_long t p = do_get_mem_long s p"
    by (simp add: do_get_mem_long_def mem_get_byte_def g)
  show "stram_shadow_guest_base t = stram_shadow_guest_base s" by (simp add: stram_shadow_guest_base_def f)
qed

lemma bus_only_refl [simp, intro]: "bus_only s s" by (simp add: bus_only_def)

lemma bus_only_trans: "bus_only s t \<Longrightarrow> bus_only t u \<Longrightarrow> bus_only s u" by (simp add: bus_only_def)

lemma bus_only_refill_long: "bus_only s (refill_long env diff prev scr o' s)"
  by (simp add: bus_only_def refill_long_def Let_def)

lemma long_bytes:
  fixes b0 b1 b2 b3 :: u8
  defines "v \<equiv> push_bit 24 (ucast b0) OR push_bit 16 (ucast b1) OR push_bit 8 (ucast b2) OR (ucast b3 :: u32)"
  shows "(ucast (drop_bit 24 v) :: u8) = b0" "(ucast (drop_bit 16 v) :: u8) = b1"
    "(ucast (drop_bit 8 v) :: u8) = b2" "(ucast v :: u8) = b3"
  unfolding v_def by (rule bit_eqI; auto simp: bit_simps dest: bit_imp_le_length)+

text \<open>A long of the mirror, byte by byte.\<close>

lemma long_write_bytes:
  assumes "i < 4"
  shows "write_byte (b + o') (do_get_mem_long s (Natmem (scr + o'))) 4 (b + o' + of_nat i) =
    Some (natmem_byte s (scr + o' + of_nat i))"
proof -
  have "i = 0 \<or> i = 1 \<or> i = 2 \<or> i = 3" using assms by auto
  moreover have "a + 1 \<noteq> a" "a + 2 \<noteq> a" "a + 2 \<noteq> a + 1" "a + 3 \<noteq> a" "a + 3 \<noteq> a + 1" "a + 3 \<noteq> a + 2" for a :: u32
    by simp_all
  ultimately show ?thesis
    by (elim disjE) (simp_all add: write_byte_cases do_get_mem_long_def mem_get_byte_def natmem_byte_def long_bytes
        add.assoc [symmetric] del: drop_bit_or)
qed

text \<open>The shadow holds the screen at \<open>src\<close>.\<close>

definition shadow_holds :: "(u32 \<Rightarrow> u8) \<Rightarrow> u32 \<Rightarrow> 'a shadow_state_scheme \<Rightarrow> bool" where
  "shadow_holds m src s \<longleftrightarrow>
     (\<forall>j. unat j < 0x8000 \<longrightarrow> bus_mem m (bus_hist s) (g_shadow_base s + j) = natmem_byte s (src + j))"

lemma offset_split:
  fixes j :: u32
  assumes "unat j div 4 = k"
  shows "j = 4 * of_nat k + of_nat (unat j mod 4)"
proof -
  have "4 * k + unat j mod 4 = unat j" using assms by (metis mult_div_mod_eq)
  then have "of_nat (4 * k + unat j mod 4) = j" by (metis of_nat_unat ucast_id)
  then show ?thesis by simp
qed

lemma offset_inj:
  fixes j :: u32
  assumes "unat j < 0x8000" "k < 0x2000" "i < 4" "j = 4 * of_nat k + of_nat i"
  shows "unat j div 4 = k"
proof -
  have "unat j = 4 * k + i"
    using assms(2,3) by (simp add: assms(4) unat_word_ariths unat_of_nat)
  with assms(3) show ?thesis by simp
qed

lemma long_same_bytes:
  assumes "do_get_mem_long s (Natmem a) = do_get_mem_long s (Natmem b)" "i < 4"
  shows "natmem_byte s (a + of_nat i) = natmem_byte s (b + of_nat i)"
  using long_write_bytes [OF assms(2), of 0 0 s a] long_write_bytes [OF assms(2), of 0 0 s b] assms(1) by simp

lemma refill_long_bytes:
  assumes k: "k < 0x2000" and j: "unat j < 0x8000"
    and old: "diff \<Longrightarrow> unat j div 4 = k \<Longrightarrow>
      bus_mem m (bus_hist s) (g_shadow_base s + j) = natmem_byte s (prev + j)"
  shows "bus_mem m (bus_hist (refill_long env diff prev scr (4 * of_nat k) s)) (g_shadow_base s + j) =
    (if unat j div 4 = k then natmem_byte s (scr + j) else bus_mem m (bus_hist s) (g_shadow_base s + j))"
proof -
  let ?o = "4 * of_nat k :: u32" and ?i = "unat j mod 4"
  let ?v = "do_get_mem_long s (Natmem (scr + ?o))"
  show ?thesis
  proof (cases "unat j div 4 = k")
    case True
    note js = offset_split [OF True]
    have w: "write_byte (g_shadow_base s + ?o) ?v 4 (g_shadow_base s + j) = Some (natmem_byte s (scr + j))"
      using long_write_bytes [of ?i "g_shadow_base s" ?o s scr] by (simp add: add.assoc flip: js)
    have eq: "natmem_byte s (prev + j) = natmem_byte s (scr + j)"
      if "?v = do_get_mem_long s (Natmem (prev + ?o))"
      using long_same_bytes [OF that, of ?i] by (simp add: add.assoc flip: js)
    show ?thesis
      using old True eq
      by (auto simp: refill_long_def Let_def bus_mem_ps_write overwrite_def w simp del: bus_hist_ps_write)
  next
    case False
    have "write_byte (g_shadow_base s + ?o) ?v 4 (g_shadow_base s + j) = None"
    proof (rule ccontr)
      assume "write_byte (g_shadow_base s + ?o) ?v 4 (g_shadow_base s + j) \<noteq> None"
      then have lt: "unat (j - ?o) < 4" by (simp add: write_byte_def algebra_simps split: if_splits)
      have "j = ?o + of_nat (unat (j - ?o))" by simp
      with offset_inj [OF j k lt] False show False by blast
    qed
    with False show ?thesis 
      by (auto simp: refill_long_def Let_def bus_mem_ps_write overwrite_def simp del: bus_hist_ps_write)
  qed
qed

lemma refill_loop:
  fixes env :: bus_env and scr :: u32
  assumes "n \<le> 0x2000" and "diff \<Longrightarrow> shadow_holds m prev s"
  defines "t \<equiv> fold (\<lambda>k. refill_long env diff prev scr (4 * of_nat k)) [0..<n] s"
  shows "bus_only s t \<and> (\<forall>j. unat j < 0x8000 \<longrightarrow>
     bus_mem m (bus_hist t) (g_shadow_base s + j) =
       (if unat j div 4 < n then natmem_byte s (scr + j) else bus_mem m (bus_hist s) (g_shadow_base s + j)))"
  using assms(1) unfolding t_def
proof (induction n)
  case 0
  then show ?case by simp
next
  case (Suc n)
  let ?t = "fold (\<lambda>k. refill_long env diff prev scr (4 * of_nat k)) [0..<n] s"
  from Suc have bo: "bus_only s ?t" and mem: "unat j < 0x8000 \<Longrightarrow>
     bus_mem m (bus_hist ?t) (g_shadow_base s + j) =
       (if unat j div 4 < n then natmem_byte s (scr + j) else bus_mem m (bus_hist s) (g_shadow_base s + j))" for j
    by auto
  note nb = bus_only_natmem [OF bo] and ff = bus_only_fields [OF bo]
  have step: "bus_mem m (bus_hist (refill_long env diff prev scr (4 * of_nat n) ?t)) (g_shadow_base s + j) =
      (if unat j div 4 = n then natmem_byte s (scr + j) else bus_mem m (bus_hist ?t) (g_shadow_base s + j))"
    if j: "unat j < 0x8000" for j
  proof -
    have "bus_mem m (bus_hist ?t) (g_shadow_base ?t + j) = natmem_byte ?t (prev + j)"
      if "diff" "unat j div 4 = n"
      using assms(2) [OF that(1)] mem [OF j] j that(2) by (simp add: nb ff shadow_holds_def)
    from refill_long_bytes [where s = ?t, OF _ j this] Suc.prems show ?thesis by (simp add: nb ff)
  qed
  show ?case
    using step mem bo bus_only_refill_long [of ?t env diff prev scr "4 * of_nat n"]
    by (auto simp: less_Suc_eq intro: bus_only_trans)
qed

text \<open>When the guest's base has moved, the refill makes the shadow hold the new screen, in the
  differential mode too provided it held the previous one.\<close>

lemma stram_shadow_refill_holds:
  fixes env :: bus_env
  assumes "stram_shadow_guest_base s \<noteq> 0" "stram_shadow_guest_base s \<noteq> g_shadow_src s"
    and "g_shadow_src s \<noteq> 0 \<Longrightarrow> cfg_stram_cache (config s) \<Longrightarrow> shadow_holds m (g_shadow_src s) s"
  defines "t \<equiv> stram_shadow_refill env s"
  shows "bus_only (s\<lparr>g_shadow_src := stram_shadow_guest_base s\<rparr>) t"
    "shadow_holds m (stram_shadow_guest_base s) t"
proof -
  let ?scr = "stram_shadow_guest_base s" and ?s = "s\<lparr>g_shadow_src := stram_shadow_guest_base s\<rparr>"
  let ?diff = "g_shadow_src s \<noteq> 0 \<and> cfg_stram_cache (config s)"
  have nb: "natmem_byte ?s = natmem_byte s" by (rule ext) (simp add: natmem_byte_def natmem_cell_def cell_get_def split: cell.split)
  have t: "t = fold (\<lambda>k. refill_long env ?diff (g_shadow_src s) ?scr (4 * of_nat k)) [0..<0x2000] ?s"
    using assms(1,2)
    by (simp add: t_def stram_shadow_refill_def refill_offsets_def Let_def fold_map o_def)
  have "shadow_holds m (g_shadow_src s) ?s" if "?diff"
    using assms(3) that by (simp add: shadow_holds_def nb)
  note loop = refill_loop [of "0x2000" ?diff m "g_shadow_src s" ?s env ?scr, OF _ this, folded t]
  show bo: "bus_only ?s t" using loop by simp
  show "shadow_holds m ?scr t"
    using loop bus_only_fields [OF bo] bus_only_natmem [OF bo] by (auto simp: shadow_holds_def nb)
qed

section \<open>Properties\<close>

text \<open>Once the board's memory configuration is established, no guest write changes the
  chip's. For a byte write anywhere and for an aligned word or long write (the long at \<open>$FF7FFE\<close>
  apart), every byte goes to the bus as the guest wrote it except the one for \<open>$FF8001\<close>, which is
  the board's own value.\<close>

theorem memcfg_chip_keeps_board_value:
  assumes "g_stram_phys_memcfg s \<noteq> 0" and "a < 0x01000000"
    and "sz = 1 \<or> sz = 2 \<and> even (unat a) \<or> sz = 4 \<and> even (unat a) \<and> a \<noteq> 0x00FF7FFE"
    and "pistorm_stram_memcfg_bus_value a v sz s = (w, s')"
  shows "write_byte a w sz x =
    (if x = 0x00FF8001 \<and> write_byte a v sz x \<noteq> None then Some (g_stram_phys_memcfg s)
     else write_byte a v sz x)"
  using assms by (rule memcfg_bus_byte)

theorem memcfg_chip_keeps_board_value_witness:
  "\<forall>s :: shadow_state. write_byte 0x00FF8000 (fst (pistorm_stram_memcfg_bus_value 0x00FF8000 0xA0A 2
      (s\<lparr>g_stram_phys_memcfg := 5\<rparr>))) 2 0x00FF8001 = Some 5"
proof
  fix s :: shadow_state
  let ?s = "s\<lparr>g_stram_phys_memcfg := 5\<rparr>"
  obtain w t where wt: "pistorm_stram_memcfg_bus_value 0x00FF8000 0xA0A 2 ?s = (w, t)" by fastforce
  show "write_byte 0x00FF8000 (fst (pistorm_stram_memcfg_bus_value 0x00FF8000 0xA0A 2 ?s)) 2 0x00FF8001 = Some 5"
    using memcfg_chip_keeps_board_value [OF _ _ _ wt, of "0x00FF8001"] by (simp add: wt write_byte_cases)
qed

text \<open>The guest reads back its own configuration value with a byte read, after a write in any
  of the three sizes.\<close>

theorem memcfg_guest_reads_back:
  assumes "g_stram_phys_memcfg s \<noteq> 0"
  shows "pistorm_stram_memcfg_read_shim (snd (pistorm_stram_memcfg_bus_value 0x00FF8001 v 1 s)) 0x00FF8001 1 =
      Some (ucast (ucast v :: u8)) \<and>
    pistorm_stram_memcfg_read_shim (snd (pistorm_stram_memcfg_bus_value 0x00FF8000 v 2 s)) 0x00FF8001 1 =
      Some (ucast (ucast v :: u8)) \<and>
    pistorm_stram_memcfg_read_shim (snd (pistorm_stram_memcfg_bus_value 0x00FF8000 v 4 s)) 0x00FF8001 1 =
      Some (ucast (ucast (drop_bit 16 v) :: u8))"
  using assms by (simp add: pistorm_stram_memcfg_bus_value_def pistorm_stram_memcfg_read_shim_def)

theorem memcfg_guest_reads_back_witness:
  "\<forall>s :: shadow_state. pistorm_stram_memcfg_read_shim
     (snd (pistorm_stram_memcfg_bus_value 0x00FF8001 0x0A 1 (s\<lparr>g_stram_phys_memcfg := 5\<rparr>))) 0x00FF8001 1 = Some 0x0A"
proof
  fix s :: shadow_state
  show "pistorm_stram_memcfg_read_shim
     (snd (pistorm_stram_memcfg_bus_value 0x00FF8001 0x0A 1 (s\<lparr>g_stram_phys_memcfg := 5\<rparr>))) 0x00FF8001 1 = Some 0x0A"
    using memcfg_guest_reads_back [of "s\<lparr>g_stram_phys_memcfg := 5\<rparr>" "0x0A"] by simp
qed

text \<open>On a board with one or two 128K banks the established value is 0, which the code takes
  for \<open>not established\<close>: the guest's value reaches the chip unchanged and the read shim stays out.\<close>

theorem memcfg_128k_board_not_owned:
  "pistorm_stram_memcfg_bus_value a v sz
     (s\<lparr>g_stram_phys_memcfg := push_bit 2 (stram_bank_code (KB 128)) OR stram_bank_code (KB 128)\<rparr>) =
   (v, s\<lparr>g_stram_phys_memcfg := push_bit 2 (stram_bank_code (KB 128)) OR stram_bank_code (KB 128)\<rparr>)"
  by (simp add: pistorm_stram_memcfg_bus_value_def stram_bank_code_def)

text \<open>A screen move refills the shadow. When the guest's base has changed to a usable address,
  the refill leaves the whole new screen in the shadow window; in the differential mode this
  needs the shadow to have held the previous screen, and then only the bus is written.\<close>

theorem shadow_refill_complete:
  assumes "stram_shadow_guest_base s \<noteq> 0" and "stram_shadow_guest_base s \<noteq> g_shadow_src s"
    and "g_shadow_src s = 0 \<or> \<not> cfg_stram_cache (config s) \<or> shadow_holds m (g_shadow_src s) s"
  shows "shadow_holds m (stram_shadow_guest_base s) (stram_shadow_refill env s)"
  using assms by (intro stram_shadow_refill_holds) auto

theorem shadow_refill_complete_witness:
  "\<forall>(s :: shadow_state) env. shadow_holds (\<lambda>_. 0) 0x100000 (stram_shadow_refill env
     (s\<lparr>g_shadow_have_base := True, g_shadow_src := 0, rtg := (rtg s)\<lparr>high := 0x10, mid := 0, low := 0\<rparr>\<rparr>))"
proof (intro allI)
  fix s :: shadow_state and env
  let ?s = "s\<lparr>g_shadow_have_base := True, g_shadow_src := 0, rtg := (rtg s)\<lparr>high := 0x10, mid := 0, low := 0\<rparr>\<rparr>"
  have "stram_shadow_guest_base ?s = 0x100000"
    by (simp add: stram_shadow_guest_base_def reg_base_def push_bit_eq_mult c_const)
  then show "shadow_holds (\<lambda>_. 0) 0x100000 (stram_shadow_refill env ?s)"
    using shadow_refill_complete [of ?s "\<lambda>_. 0" env] by simp
qed

end
