(* ===== verification/Smc.thy ===== *)
theory Smc
  imports Shadow
begin

text \<open>
  Self-modifying code (\<open>pistorm_natmem.cpp\<close>): \<open>code_page\<close> marks the 4 KB pages the JIT has
  translated. Stores to ST-RAM pass \<open>pistorm_smc\<close>; TT-RAM pages are write-protected on the host
  and the SIGSEGV handler drops the protection and flushes.
\<close>

section \<open>State\<close>

definition PAGE_SHIFT :: nat where [c_const]: "PAGE_SHIFT = 12"
definition TT_RAM_BASE :: u32 where [c_const]: "TT_RAM_BASE = 0x01000000"
definition TT_RAM_SIZE :: u32 where [c_const]: "TT_RAM_SIZE = 0x10000000"
definition GUEST_RESERVE :: u32 where [c_const]: "GUEST_RESERVE = TT_RAM_BASE + TT_RAM_SIZE"
definition TTSMC_MAX_FAULTS :: nat where [c_const]: "TTSMC_MAX_FAULTS = 32"

text \<open>\<open>jit_flushes\<close> counts the calls of \<open>flush_icache\<close>, once the JIT has set the pointer;
  \<open>host_ro\<close> is the protection of the host pages of \<open>natmem\<close>.\<close>

record smc_state = shadow_state +
  code_page :: "nat \<Rightarrow> bool"
  ttsmc_prot :: "nat \<Rightarrow> bool"
  ttsmc_faults :: "nat \<Rightarrow> nat"
  ttsmc_enabled :: int
  ttsmc_stat_prot :: u32
  ttsmc_stat_fault :: u32
  ttsmc_stat_gaveup :: u32
  g_jp_smc :: u32
  flush_icache_set :: bool
  jit_flushes :: nat
  host_ro :: "nat \<Rightarrow> bool"
  g_stram_top :: u32
  tt_ram_available :: bool
  tt_ram_size :: u32

definition page_of :: "u32 \<Rightarrow> nat" where
  "page_of a = unat (drop_bit PAGE_SHIFT a)"

section \<open>Operations\<close>

definition cache_invalidate :: "'a smc_state_scheme \<Rightarrow> 'a smc_state_scheme" where
  "cache_invalidate s =
     s\<lparr>g_jp_smc := g_jp_smc s + 1,
       jit_flushes := (if flush_icache_set s then jit_flushes s + 1 else jit_flushes s)\<rparr>"

text \<open>The handler returns \<open>None\<close> for a fault that is not its own (the previous disposition
  takes over). The argument is the offset of the faulting host address from \<open>natmem_offset\<close>.\<close>

definition ttsmc_sigsegv :: "int \<Rightarrow> 'a smc_state_scheme \<Rightarrow> 'a smc_state_scheme option" where
  "ttsmc_sigsegv a s =
     (if a \<ge> uint TT_RAM_BASE \<and> a < uint TT_RAM_BASE + uint (tt_ram_size s)
      then
        (let pg = page_of (word_of_int a) in
         if ttsmc_prot s pg then
           (let s1 = s\<lparr>host_ro := (host_ro s)(pg := False),
                       ttsmc_prot := (ttsmc_prot s)(pg := False),
                       code_page := (code_page s)(pg := False),
                       ttsmc_stat_fault := ttsmc_stat_fault s + 1,
                       ttsmc_faults := (if ttsmc_faults s pg < 255
                                        then (ttsmc_faults s)(pg := ttsmc_faults s pg + 1)
                                        else ttsmc_faults s)\<rparr>;
                s2 = (if ttsmc_faults s1 pg = TTSMC_MAX_FAULTS
                      then s1\<lparr>ttsmc_stat_gaveup := ttsmc_stat_gaveup s1 + 1\<rparr> else s1)
            in Some (cache_invalidate s2))
         else None)
      else None)"

definition ttsmc_init :: "'a smc_state_scheme \<Rightarrow> 'a smc_state_scheme" where
  "ttsmc_init s = s\<lparr>ttsmc_enabled := of_bool (\<not> getenv_ttsmc_off (config s))\<rparr>"

definition pistorm_mark_code :: "bus_env \<Rightarrow> u32 \<Rightarrow> 'a smc_state_scheme \<Rightarrow> 'a smc_state_scheme" where
  "pistorm_mark_code env pc s =
     (if pc \<ge> GUEST_RESERVE then s
      else
        (let pg = page_of pc;
             s1 = s\<lparr>code_page := (code_page s)(pg := True)\<rparr>
         in if pc < TT_RAM_BASE then s1
            else
              (let s2 = (if ttsmc_enabled s1 < 0 then ttsmc_init s1 else s1) in
               if ttsmc_enabled s2 = 0 \<or> ttsmc_prot s2 pg \<or> ttsmc_faults s2 pg \<ge> TTSMC_MAX_FAULTS then s2
               else if env_mprotect env pg
                    then s2\<lparr>host_ro := (host_ro s2)(pg := True), ttsmc_prot := (ttsmc_prot s2)(pg := True),
                            ttsmc_stat_prot := ttsmc_stat_prot s2 + 1\<rparr>
                    else s2)))"

definition pistorm_smc :: "u32 \<Rightarrow> u32 \<Rightarrow> 'a smc_state_scheme \<Rightarrow> 'a smc_state_scheme" where
  "pistorm_smc addr sz s =
     (if addr \<ge> GUEST_RESERVE then s
      else
        (let first_page = page_of addr in
         if code_page s first_page then cache_invalidate s
         else
           (let last_page = page_of (addr + sz - 1) in
            if last_page \<noteq> first_page \<and> code_page s last_page then cache_invalidate s else s)))"

definition pistorm_ttsmc_stats :: "'a smc_state_scheme \<Rightarrow> u32 \<times> u32 \<times> u32" where
  "pistorm_ttsmc_stats s = (ttsmc_stat_prot s, ttsmc_stat_fault s, ttsmc_stat_gaveup s)"

text \<open>\<open>memcpy\<close> between a byte list and the mirror.\<close>

fun natmem_load :: "'a stram_state_scheme \<Rightarrow> u32 \<Rightarrow> nat \<Rightarrow> u8 list" where
  "natmem_load s a 0 = []"
| "natmem_load s a (Suc n) = natmem_byte s a # natmem_load s (a + 1) n"

fun natmem_store :: "u32 \<Rightarrow> u8 list \<Rightarrow> 'a stram_state_scheme \<Rightarrow> 'a stram_state_scheme" where
  "natmem_store a [] s = s"
| "natmem_store a (v # vs) s = natmem_store (a + 1) vs (mem_put_byte (Natmem a) v s)"

definition pistorm_dma_from_stram :: "u32 \<Rightarrow> u32 \<Rightarrow> 'a smc_state_scheme \<Rightarrow> u8 list option" where
  "pistorm_dma_from_stram addr n s =
     (if addr < g_stram_top s \<and> n \<le> g_stram_top s - addr then Some (natmem_load s addr (unat n)) else None)"

definition pistorm_dma_to_stram :: "u32 \<Rightarrow> u8 list \<Rightarrow> 'a smc_state_scheme \<Rightarrow> 'a smc_state_scheme" where
  "pistorm_dma_to_stram addr src s =
     (let n = of_nat (length src);
          s1 = (if addr < g_stram_top s \<and> n \<le> g_stram_top s - addr then natmem_store addr src s else s)
      in pistorm_smc addr n s1)"

section \<open>No store into translated code goes unnoticed\<close>

lemma page_of_nat: "page_of a = unat a div 4096"
  by (simp add: page_of_def c_const unat_drop_bit)

lemma smc_notices:
  assumes a: "unat addr + unat sz \<le> 0x11000000" and sz: "0 < unat sz" "unat sz \<le> 4096"
    and x: "unat addr \<le> x" "x < unat addr + unat sz" "code_page s (x div 4096)"
  shows "pistorm_smc addr sz s = cache_invalidate s"
proof -
  have lt: "addr < GUEST_RESERVE" using a sz by (simp add: c_const word_less_nat_alt)
  have "1 \<le> addr + sz" "unat (addr + sz) = unat addr + unat sz"
  proof -
    show u: "unat (addr + sz) = unat addr + unat sz" using a by (subst unat_add_small) auto
    show "1 \<le> addr + sz" using sz by (simp add: word_le_nat_alt u)
  qed
  then have last: "unat (addr + sz - 1) = unat addr + unat sz - 1" by (simp add: unat_sub)
  have "x div 4096 = unat addr div 4096 \<or> x div 4096 = (unat addr + unat sz - 1) div 4096"
  proof -
    have "unat addr div 4096 \<le> x div 4096" "x div 4096 \<le> (unat addr + unat sz - 1) div 4096"
      using x by (auto intro!: div_le_mono)
    moreover have "(unat addr + unat sz - 1) div 4096 \<le> unat addr div 4096 + 1"
    proof -
      have "(unat addr + unat sz - 1) div 4096 \<le> (unat addr + 4096) div 4096"
        using sz by (intro div_le_mono) simp
      then show ?thesis by simp
    qed
    ultimately show ?thesis by linarith
  qed
  then show ?thesis
    using lt x(3) by (auto simp: pistorm_smc_def Let_def page_of_nat last not_le)
qed

section \<open>Write protection of translated TT-RAM\<close>

text \<open>A guest store to TT-RAM as the JIT inlines it: a plain host store, which the kernel turns
  into a SIGSEGV on a read-only page; the handler returns and the store is executed again.
  \<open>None\<close>: the fault was not the handler's, or it would fault again for ever.\<close>

definition tt_store :: "u32 \<Rightarrow> u8 \<Rightarrow> 'a smc_state_scheme \<Rightarrow> 'a smc_state_scheme option" where
  "tt_store a v s =
     (if host_ro s (page_of a)
      then (case ttsmc_sigsegv (uint a) s of
              None \<Rightarrow> None
            | Some s1 \<Rightarrow> if host_ro s1 (page_of a) then None else Some (mem_put_byte (Natmem a) v s1))
      else Some (mem_put_byte (Natmem a) v s))"

definition in_tt_ram :: "'a smc_state_scheme \<Rightarrow> u32 \<Rightarrow> bool" where
  "in_tt_ram s a \<longleftrightarrow> TT_RAM_BASE \<le> a \<and> uint a < uint TT_RAM_BASE + uint (tt_ram_size s)"

text \<open>TT-RAM ends on a page boundary and code is only marked in memory that exists.\<close>

definition tt_page :: "u32 \<Rightarrow> nat \<Rightarrow> bool" where
  "tt_page sz pg \<longleftrightarrow> 0x1000 \<le> pg \<and> pg * 4096 + 4096 \<le> 0x01000000 + unat sz"

inductive tt_step :: "bus_env \<Rightarrow> 'a smc_state_scheme \<Rightarrow> 'a smc_state_scheme \<Rightarrow> bool" for env where
  mark: "pc < TT_RAM_BASE \<or> tt_page (tt_ram_size s) (page_of pc) \<Longrightarrow> tt_step env s (pistorm_mark_code env pc s)"
| store: "in_tt_ram s a \<Longrightarrow> tt_store a v s = Some t \<Longrightarrow> tt_step env s t"
| smc: "tt_step env s (pistorm_smc a sz s)"

inductive_cases tt_stepE: "tt_step env s t"

definition tt_init :: "'a smc_state_scheme \<Rightarrow> bool" where
  "tt_init s \<longleftrightarrow> ttsmc_enabled s = - 1 \<and> (\<forall>pg. \<not> code_page s pg \<and> \<not> ttsmc_prot s pg \<and> \<not> host_ro s pg \<and>
     ttsmc_faults s pg = 0)"

definition tt_inv :: "'a smc_state_scheme \<Rightarrow> bool" where
  "tt_inv s \<longleftrightarrow>
     (\<forall>pg. ttsmc_prot s pg = host_ro s pg) \<and>
     (\<forall>pg. ttsmc_prot s pg \<longrightarrow> code_page s pg \<and> tt_page (tt_ram_size s) pg \<and> ttsmc_faults s pg < TTSMC_MAX_FAULTS) \<and>
     (\<forall>pg. ttsmc_faults s pg \<le> TTSMC_MAX_FAULTS) \<and>
     (ttsmc_enabled s < 0 \<longrightarrow> (\<forall>pg. tt_page (tt_ram_size s) pg \<longrightarrow> \<not> code_page s pg)) \<and>
     (0 < ttsmc_enabled s \<longrightarrow> (\<forall>pg. tt_page (tt_ram_size s) pg \<longrightarrow> code_page s pg \<longrightarrow>
        ttsmc_prot s pg \<or> ttsmc_faults s pg = TTSMC_MAX_FAULTS))"

lemma page_of_low: "pc < TT_RAM_BASE \<Longrightarrow> \<not> 0x1000 \<le> page_of pc"
  by (simp add: page_of_nat c_const word_less_nat_alt)

lemma ttsmc_init_enabled: "ttsmc_enabled (ttsmc_init s) = of_bool (\<not> getenv_ttsmc_off (config s))"
  by (simp add: ttsmc_init_def)

lemma tt_inv_mark:
  assumes inv: "tt_inv s" and env: "\<And>pg. env_mprotect env pg"
    and pc: "pc < TT_RAM_BASE \<or> tt_page (tt_ram_size s) (page_of pc)"
  shows "tt_inv (pistorm_mark_code env pc s)"
proof (cases "pc < TT_RAM_BASE")
  case True
  then have "\<not> tt_page (tt_ram_size s) (page_of pc)" using page_of_low by (auto simp: tt_page_def)
  with True inv show ?thesis
    by (auto simp: tt_inv_def pistorm_mark_code_def Let_def)
next
  case False
  with pc have p: "tt_page (tt_ram_size s) (page_of pc)" by simp
  define e where "e = (if ttsmc_enabled s < 0 then of_bool (\<not> getenv_ttsmc_off (config s)) else ttsmc_enabled s)"
  define c where "c \<longleftrightarrow> e \<noteq> 0 \<and> \<not> ttsmc_prot s (page_of pc) \<and> ttsmc_faults s (page_of pc) < TTSMC_MAX_FAULTS"
  show ?thesis
  proof (cases "pc \<ge> GUEST_RESERVE")
    case True
    with inv show ?thesis by (simp add: pistorm_mark_code_def)
  next
    case g: False
    let ?t = "pistorm_mark_code env pc s" and ?pg = "page_of pc"
    have t: "?t = s\<lparr>code_page := (code_page s)(?pg := True), ttsmc_enabled := e,
        host_ro := (if c then (host_ro s)(?pg := True) else host_ro s),
        ttsmc_prot := (if c then (ttsmc_prot s)(?pg := True) else ttsmc_prot s),
        ttsmc_stat_prot := (if c then ttsmc_stat_prot s + 1 else ttsmc_stat_prot s)\<rparr>"
      using False g env by (auto simp: pistorm_mark_code_def ttsmc_init_def c_def e_def Let_def not_less)
    have e: "0 \<le> e" by (auto simp: e_def)
    have old: "ttsmc_enabled s < 0 \<or> ttsmc_enabled s = e" by (auto simp: e_def)
    have f: "ttsmc_faults s ?pg < TTSMC_MAX_FAULTS \<or> ttsmc_faults s ?pg = TTSMC_MAX_FAULTS"
      using inv by (simp add: tt_inv_def flip: le_less)
    show ?thesis
      using inv p e old f unfolding t tt_inv_def by (auto simp: c_def)
  qed
qed

lemma page_of_tt:
  assumes "tt_page sz (page_of a)"
  shows "uint TT_RAM_BASE \<le> uint a" "uint a < uint TT_RAM_BASE + uint sz"
proof -
  have "0x1000 \<le> unat a div 4096" "unat a div 4096 * 4096 + 4096 \<le> 0x01000000 + unat sz"
    using assms by (auto simp: tt_page_def page_of_nat)
  moreover have "unat a = unat a div 4096 * 4096 + unat a mod 4096" "unat a mod 4096 < 4096" by simp_all
  ultimately have "0x01000000 \<le> unat a" "unat a < 0x01000000 + unat sz" by linarith+
  moreover have "int (unat a) = uint a" "int (unat sz) = uint sz" "uint TT_RAM_BASE = 0x01000000"
    by (simp_all add: c_const)
  ultimately show "uint TT_RAM_BASE \<le> uint a" "uint a < uint TT_RAM_BASE + uint sz" by linarith+
qed

text \<open>A fault on a protected page is the handler's own, and it unprotects the page.\<close>

lemma ttsmc_sigsegv_ours:
  assumes inv: "tt_inv s" and ro: "host_ro s (page_of a)"
  obtains t where "ttsmc_sigsegv (uint a) s = Some t" "\<not> host_ro t (page_of a)" "tt_inv t"
    "g_jp_smc t = g_jp_smc s + 1" "ttsmc_faults t (page_of a) = ttsmc_faults s (page_of a) + 1"
proof -
  let ?pg = "page_of a"
  have p: "ttsmc_prot s ?pg" "tt_page (tt_ram_size s) ?pg" "ttsmc_faults s ?pg < 32"
    using inv ro by (auto simp: tt_inv_def c_const)
  define f where "f = (ttsmc_faults s)(?pg := ttsmc_faults s ?pg + 1)"
  define t where "t = cache_invalidate (s\<lparr>host_ro := (host_ro s)(?pg := False),
      ttsmc_prot := (ttsmc_prot s)(?pg := False), code_page := (code_page s)(?pg := False),
      ttsmc_stat_fault := ttsmc_stat_fault s + 1, ttsmc_faults := f,
      ttsmc_stat_gaveup := (if f ?pg = TTSMC_MAX_FAULTS then ttsmc_stat_gaveup s + 1 else ttsmc_stat_gaveup s)\<rparr>)"
  have t: "ttsmc_sigsegv (uint a) s = Some t"
    using p page_of_tt [OF p(2)] by (simp add: ttsmc_sigsegv_def t_def f_def Let_def)
  have inv': "tt_inv t"
    using inv p(3) by (auto simp: tt_inv_def t_def f_def cache_invalidate_def c_const)
  show thesis
    by (rule that [OF t _ inv']) (simp_all add: t_def cache_invalidate_def f_def)
qed

lemma tt_inv_cong:
  assumes "tt_inv s" "code_page t = code_page s" "ttsmc_prot t = ttsmc_prot s" "host_ro t = host_ro s"
    "ttsmc_faults t = ttsmc_faults s" "ttsmc_enabled t = ttsmc_enabled s" "tt_ram_size t = tt_ram_size s"
  shows "tt_inv t"
proof -
  have "tt_inv t = tt_inv s" by (simp only: tt_inv_def assms(2-7))
  with assms(1) show ?thesis by simp
qed

lemma mem_put_byte_smc_fields [simp]:
  "code_page (mem_put_byte p v s) = code_page s" "ttsmc_prot (mem_put_byte p v s) = ttsmc_prot s"
  "host_ro (mem_put_byte p v s) = host_ro s" "ttsmc_faults (mem_put_byte p v s) = ttsmc_faults s"
  "ttsmc_enabled (mem_put_byte p v s) = ttsmc_enabled s" "tt_ram_size (mem_put_byte p v s) = tt_ram_size s"
  "g_jp_smc (mem_put_byte p v s) = g_jp_smc s"
  by (simp_all add: mem_put_byte_def cell_put_def split: cell.split)

lemma tt_store_total:
  assumes inv: "tt_inv s"
  obtains t where "tt_store a v s = Some t" "tt_inv t"
    "g_jp_smc t = (if host_ro s (page_of a) then g_jp_smc s + 1 else g_jp_smc s)"
proof (cases "host_ro s (page_of a)")
  case True
  obtain t where t: "ttsmc_sigsegv (uint a) s = Some t" "\<not> host_ro t (page_of a)" "tt_inv t"
    "g_jp_smc t = g_jp_smc s + 1"
    using ttsmc_sigsegv_ours [OF inv True] by metis
  show ?thesis
    by (rule that [of "mem_put_byte (Natmem a) v t"])
      (use t True in \<open>auto simp: tt_store_def intro: tt_inv_cong\<close>)
next
  case False
  show ?thesis
    by (rule that [of "mem_put_byte (Natmem a) v s"])
      (use inv False in \<open>auto simp: tt_store_def intro: tt_inv_cong\<close>)
qed

lemma tt_inv_step:
  assumes "tt_step env s t" "tt_inv s" "\<And>pg. env_mprotect env pg"
  shows "tt_inv t"
  using assms(1)
proof (cases rule: tt_step.cases)
  case (mark pc)
  then show ?thesis using assms tt_inv_mark by blast
next
  case (store a v)
  then show ?thesis using tt_store_total [OF assms(2), of a v] by (metis option.inject)
next
  case (smc a sz)
  have "tt_inv (cache_invalidate s)"
    by (rule tt_inv_cong [OF assms(2)]) (simp_all add: cache_invalidate_def)
  then show ?thesis using assms(2) by (auto simp: smc(1) pistorm_smc_def Let_def)
qed

text \<open>The environment in which \<open>mprotect\<close> always works.\<close>

definition host_env :: bus_env where
  "host_env = \<lparr>env_data = (\<lambda>_. 0xFFFF), env_berr = (\<lambda>_. False), env_mmap_fixed = (\<lambda>_. True),
     env_memfd = True, env_hugetlb_release = True, env_mprotect = (\<lambda>_. True)\<rparr>"

definition tt_step_ok :: "'a smc_state_scheme \<Rightarrow> 'a smc_state_scheme \<Rightarrow> bool" where
  "tt_step_ok s t \<longleftrightarrow> (\<exists>env. (\<forall>pg. env_mprotect env pg) \<and> tt_step env s t)"

interpretation ttsmc: invariant_system tt_init tt_step_ok tt_inv
proof unfold_locales
  show "tt_inv s" if "tt_init s" for s :: "'a smc_state_scheme"
    using that by (simp add: tt_init_def tt_inv_def c_const)
  show "tt_inv t" if "tt_inv s" "tt_step_ok s t" for s t :: "'a smc_state_scheme"
    using that tt_inv_step by (auto simp: tt_step_ok_def)
qed

section \<open>Properties\<close>

text \<open>A store that a bank handler reports to \<open>pistorm_smc\<close> flushes the translation cache
  whenever any byte of it lies in a page marked as translated, for every access of up to a page
  (the CPU's bytes, words and longs, and disk blocks handed over page by page).\<close>

theorem smc_store_flushes:
  assumes "unat addr + unat sz \<le> 0x11000000" and "0 < unat sz" and "unat sz \<le> 4096"
    and "unat addr \<le> x" and "x < unat addr + unat sz" and "code_page s (x div 4096)"
  shows "pistorm_smc addr sz s = cache_invalidate s"
  using smc_notices [OF assms] .

theorem smc_store_flushes_witness:
  "\<forall>s :: smc_state. pistorm_smc 0x4FFE 4 (s\<lparr>code_page := (\<lambda>pg. pg = 5)\<rparr>) =
     cache_invalidate (s\<lparr>code_page := (\<lambda>pg. pg = 5)\<rparr>)"
  by (intro allI smc_store_flushes [of "0x4FFE" 4 "0x5000"]) simp_all

text \<open>A longer transfer is not covered. A DMA block of three pages whose middle page holds
  translated code is stored without a flush.\<close>

theorem smc_misses_middle_page:
  assumes "code_page s = (\<lambda>pg. pg = 0x11)"
  shows "pistorm_smc 0x10000 0x3000 s = s"
  using assms by (simp add: pistorm_smc_def page_of_nat Let_def)

theorem smc_misses_middle_page_witness:
  "\<forall>s :: smc_state. pistorm_smc 0x10000 0x3000 (s\<lparr>code_page := (\<lambda>pg. pg = 0x11)\<rparr>) =
     s\<lparr>code_page := (\<lambda>pg. pg = 0x11)\<rparr>"
  by (intro allI smc_misses_middle_page) simp

text \<open>C9: in every state the emulator reaches with a host that honours \<open>mprotect\<close>, a guest store
  to TT-RAM completes (no fault is left to the default action and none repeats), it flushes the
  translation cache if its page is write-protected, and no page takes more than 32 faults. A
  translated page is unprotected only after its 32nd fault or with the mechanism disabled.\<close>

theorem ttsmc_sound:
  assumes "reach tt_init tt_step_ok s"
  shows "(\<exists>t. tt_store a v s = Some t \<and>
            (host_ro s (page_of a) \<longrightarrow> g_jp_smc t = g_jp_smc s + 1)) \<and>
         ttsmc_faults s pg \<le> 32 \<and>
         (tt_page (tt_ram_size s) pg \<longrightarrow> code_page s pg \<longrightarrow> host_ro s pg \<or> ttsmc_faults s pg = 32 \<or>
            ttsmc_enabled s = 0)"
proof -
  have inv: "tt_inv s" using assms by (rule ttsmc.reach_inv)
  then have "ttsmc_faults s pg \<le> 32" by (simp add: tt_inv_def c_const)
  moreover have "host_ro s pg \<or> ttsmc_faults s pg = 32 \<or> ttsmc_enabled s = 0"
    if "tt_page (tt_ram_size s) pg" "code_page s pg"
    using inv that by (cases "ttsmc_enabled s" "0 :: int" rule: linorder_cases) (auto simp: tt_inv_def c_const)
  ultimately show ?thesis using tt_store_total [OF inv, of a v] by metis
qed

definition smc_start :: "smc_state \<Rightarrow> smc_state" where
  "smc_start s = s\<lparr>code_page := (\<lambda>_. False), ttsmc_prot := (\<lambda>_. False), ttsmc_faults := (\<lambda>_. 0),
     ttsmc_enabled := - 1, host_ro := (\<lambda>_. False), tt_ram_size := 0x10000\<rparr>"

theorem ttsmc_sound_witness:
  "\<forall>s. \<exists>t. tt_store 0x01000010 7 (pistorm_mark_code host_env 0x01000004 (smc_start s)) = Some t"
proof
  fix s
  let ?s = "pistorm_mark_code host_env 0x01000004 (smc_start s)"
  have "tt_step host_env (smc_start s) ?s"
    by (rule tt_step.mark) (simp add: smc_start_def tt_page_def page_of_nat)
  moreover have "env_mprotect host_env pg" for pg by (simp add: host_env_def)
  ultimately have "tt_step_ok (smc_start s) ?s" unfolding tt_step_ok_def by blast
  moreover have "reach tt_init tt_step_ok (smc_start s)"
    by (rule reach.start) (simp add: tt_init_def smc_start_def)
  ultimately have "reach tt_init tt_step_ok ?s" by (rule reach.step [rotated])
  from ttsmc_sound [OF this, of "0x01000010" 7] show "\<exists>t. tt_store 0x01000010 7 ?s = Some t" by blast
qed

end
