(* ===== verification/Stram_Probe.thy ===== *)
theory Stram_Probe
  imports Stram_Banks
begin

text \<open>
  The DRAM probe against a model of the board. The board is hardware: what it answers is a
  hypothesis, the behaviour the comments of \<open>stram_probe_bank\<close> and \<open>stram_st_fold\<close> document.
  A bank that holds a chip decodes the address lines the chip has (the plain ST MMU drops
  column and row bits, the STE MMU folds modulo the chip size), an absent bank leaves the bus
  pulled high, and RAM cycles are decoded for the supervisor-data function code.
\<close>

section \<open>The board\<close>

datatype mmu = Plain_ST | STE

text \<open>Cell of a chip of size \<open>n\<close> that an offset of its 2 MB slot selects.\<close>

definition chip_cell :: "mmu \<Rightarrow> u32 \<Rightarrow> u32 \<Rightarrow> u32" where
  "chip_cell fl n off = (case fl of Plain_ST \<Rightarrow> stram_st_fold off (KB 2048) n | STE \<Rightarrow> off mod n)"

definition slot :: "u32 \<Rightarrow> u32" where
  "slot a = (if a < 0x200000 then 0 else 0x200000)"

definition chip_at :: "u32 \<Rightarrow> u32 \<Rightarrow> u32 \<Rightarrow> u32" where
  "chip_at n0 n1 a = (if a < 0x200000 then n0 else n1)"

text \<open>The cell (slot and offset in the chip) behind a RAM address, \<open>None\<close> for an empty slot.\<close>

definition board_cell :: "mmu \<Rightarrow> u32 \<Rightarrow> u32 \<Rightarrow> u32 \<Rightarrow> (u32 \<times> u32) option" where
  "board_cell fl n0 n1 a =
     (if chip_at n0 n1 a = 0 then None
      else Some (slot a, chip_cell fl (chip_at n0 n1 a) (a - slot a)))"

text \<open>Contents of a word cell after a history of cycles (newest first).\<close>

fun dram_word ::
  "(u32 \<Rightarrow> (u32 \<times> u32) option) \<Rightarrow> (u32 \<times> u32 \<Rightarrow> u16) \<Rightarrow> bus_cycle list \<Rightarrow> u32 \<times> u32 \<Rightarrow> u16" where
  "dram_word cell ini [] c = ini c"
| "dram_word cell ini (WriteWord _ a v # h) c =
     (if a < 0x400000 \<and> cell a = Some c then v else dram_word cell ini h c)"
| "dram_word cell ini (WriteByte _ a v # h) c =
     (if a < 0x400000 \<and> cell (a AND NOT 1) = Some c
      then (let w = dram_word cell ini h c
            in if a AND 1 = 0 then push_bit 8 (ucast v) OR (w AND 0xFF) else (w AND 0xFF00) OR ucast v)
      else dram_word cell ini h c)"
| "dram_word cell ini (_ # h) c = dram_word cell ini h c"

definition board_word ::
  "mmu \<Rightarrow> u32 \<Rightarrow> u32 \<Rightarrow> (u32 \<times> u32 \<Rightarrow> u16) \<Rightarrow> bus_cycle list \<Rightarrow> u32 \<Rightarrow> u16" where
  "board_word fl n0 n1 ini h a =
     (case board_cell fl n0 n1 a of
        None \<Rightarrow> 0xFFFF
      | Some c \<Rightarrow> dram_word (board_cell fl n0 n1) ini h c)"

text \<open>The cycles of a probe: the controller is set to 2M|2M first and left alone.\<close>

fun memcfg_write :: "bus_cycle \<Rightarrow> bool" where
  "memcfg_write (WriteByte _ a _) = (a = 0xFF8001)"
| "memcfg_write (WriteWord _ a _) = (a = 0xFF8000)"
| "memcfg_write _ = False"

definition probe_cycles :: "bus_cycle list \<Rightarrow> bool" where
  "probe_cycles h \<longleftrightarrow>
     h \<noteq> [] \<and> last h = WriteByte 5 0xFF8001 0x0A \<and> (\<forall>c\<in>set (butlast h). \<not> memcfg_write c)"

text \<open>After the history \<open>h0\<close> the cells hold \<open>ini\<close>; a supervisor-data read of RAM in the course
  of a probe returns the cell.\<close>

definition board_answers ::
  "bus_env \<Rightarrow> bus_cycle list \<Rightarrow> mmu \<Rightarrow> u32 \<Rightarrow> u32 \<Rightarrow> (u32 \<times> u32 \<Rightarrow> u16) \<Rightarrow> bool" where
  "board_answers env h0 fl n0 n1 ini \<longleftrightarrow>
     (\<forall>h a. a < 0x400000 \<longrightarrow> probe_cycles h \<longrightarrow>
        env_data env (ReadWord 5 a # h @ h0) = board_word fl n0 n1 ini h a)"

text \<open>An environment that answers so from power-up.\<close>

fun board_data :: "mmu \<Rightarrow> u32 \<Rightarrow> u32 \<Rightarrow> (u32 \<times> u32 \<Rightarrow> u16) \<Rightarrow> bus_cycle list \<Rightarrow> u16" where
  "board_data fl n0 n1 ini (ReadWord f a # h) =
     (if a < 0x400000 then board_word fl n0 n1 ini h a else 0xFFFF)"
| "board_data fl n0 n1 ini _ = 0xFFFF"

definition board_env :: "mmu \<Rightarrow> u32 \<Rightarrow> u32 \<Rightarrow> (u32 \<times> u32 \<Rightarrow> u16) \<Rightarrow> bus_env" where
  "board_env fl n0 n1 ini =
     \<lparr>env_data = board_data fl n0 n1 ini, env_berr = (\<lambda>_. False),
      env_mmap_fixed = (\<lambda>_. True), env_memfd = True, env_hugetlb_release = True, env_mprotect = (\<lambda>_. True)\<rparr>"

lemma board_env_answers: "board_answers (board_env fl n0 n1 ini) [] fl n0 n1 ini"
  by (simp add: board_answers_def board_env_def)

section \<open>The pattern\<close>

definition pattern_word :: "nat \<Rightarrow> u16" where
  "pattern_word k = of_nat k * 0xFA54"

text \<open>The pattern stands at address \<open>a\<close> in the memory \<open>m\<close>.\<close>

definition pattern_at :: "(u32 \<Rightarrow> u16) \<Rightarrow> u32 \<Rightarrow> bool" where
  "pattern_at m a \<longleftrightarrow> (\<forall>k < 252. m (a + 2 * of_nat k) = pattern_word k)"

text \<open>Before the probe, no alias offset of a bank that is a cell of its own (not the image of
  offset 8) shows the pattern.\<close>

definition no_stale_pattern :: "mmu \<Rightarrow> u32 \<Rightarrow> u32 \<Rightarrow> (u32 \<times> u32 \<Rightarrow> u16) \<Rightarrow> bool" where
  "no_stale_pattern fl n0 n1 ini \<longleftrightarrow>
     (\<forall>base \<in> {0, 0x200000}. \<forall>off \<in> {0x40008, 0x208, 0x80008, 0x408}.
        board_cell fl n0 n1 (base + off) \<noteq> board_cell fl n0 n1 (base + 8) \<longrightarrow>
        \<not> pattern_at (board_word fl n0 n1 ini []) (base + off))"

section \<open>One cycle\<close>

lemma probe_cycles_step: "probe_cycles h \<Longrightarrow> \<not> memcfg_write c \<Longrightarrow> probe_cycles (c # h)"
  by (auto simp: probe_cycles_def)

text \<open>A state in the course of a probe that began after the history \<open>h0\<close>, with the cycles \<open>h\<close> so far.\<close>

definition probing :: "bus_cycle list \<Rightarrow> bus_cycle list \<Rightarrow> 'a bus_state_scheme \<Rightarrow> bool" where
  "probing h0 h s \<longleftrightarrow> fc s = 5 \<and> bus_hist s = h @ h0 \<and> probe_cycles h"

lemma not_gpip_ram:
  assumes "a < 0x400000"
  shows "\<not> is_gpip_read (ReadWord f a)"
proof -
  have "\<not> bit a 23" using assms by (intro high_bits_zero [of a 22]) (simp_all add: word_less_nat_alt)
  then have "\<not> bit (a AND 0x00FFFFFF) 23" by (simp add: bit_and_iff)
  moreover have "bit (0x00FFFA00 :: u32) 23" by simp
  ultimately show ?thesis by auto
qed

lemma probe_read:
  assumes "board_answers env h0 fl n0 n1 ini" "probing h0 h s" "a < 0x400000"
  shows "fst (ps_read_16 env a s) = board_word fl n0 n1 ini h a"
    and "probing h0 (ReadWord 5 a # h) (snd (ps_read_16 env a s))"
  using assms not_gpip_ram [OF assms(3), of 5]
  by (auto simp: ps_read_16_def ps_read_txn_def Let_def probing_def board_answers_def latch_berr_def
      probe_cycles_step)

lemma probe_write:
  assumes "probing h0 h s" "a < 0x400000"
  shows "probing h0 (WriteWord 5 a v # h) (ps_write_16 env a v s)"
proof -
  have "a \<noteq> 0xFF8000" using assms(2) by auto
  with assms show ?thesis by (auto simp: probing_def intro!: probe_cycles_step)
qed

lemma board_word_read [simp]: "board_word fl n0 n1 ini (ReadWord f a # h) = board_word fl n0 n1 ini h"
  by (auto simp: board_word_def fun_eq_iff split: option.splits)

lemma board_word_write:
  assumes "a < 0x400000"
  shows "board_word fl n0 n1 ini (WriteWord f a v # h) x =
    (if board_cell fl n0 n1 x = board_cell fl n0 n1 a \<and> board_cell fl n0 n1 a \<noteq> None then v
     else board_word fl n0 n1 ini h x)"
  using assms by (auto simp: board_word_def split: option.splits)

section \<open>Reading and writing the pattern\<close>

text \<open>The addresses of \<open>n\<close> words from \<open>a\<close> stay inside the RAM window.\<close>

lemma step_window:
  fixes a :: u32
  assumes "unat a + 2 * Suc n \<le> 0x400000"
  shows "a < 0x400000" "unat (a + 2) + 2 * n \<le> 0x400000"
proof -
  show "a < 0x400000" using assms by (simp add: word_less_nat_alt)
  have "unat (a + 2) = unat a + 2" using assms by (subst unat_add_small) auto
  then show "unat (a + 2) + 2 * n \<le> 0x400000" using assms by simp
qed

lemma all_less_Suc_split: "(\<forall>k < Suc n. P k) \<longleftrightarrow> P 0 \<and> (\<forall>k < n. P (Suc k))"
  by (auto simp: less_Suc_eq_0_disj)

lemma probe_check:
  assumes "board_answers env h0 fl n0 n1 ini" "probing h0 h s" "unat a + 2 * n \<le> 0x400000"
  shows "fst (pattern_check env n a v s) \<longleftrightarrow>
           (\<forall>k < n. board_word fl n0 n1 ini h (a + 2 * of_nat k) = v + of_nat k * 0xFA54)"
    and "\<exists>h'. probing h0 h' (snd (pattern_check env n a v s)) \<and>
           board_word fl n0 n1 ini h' = board_word fl n0 n1 ini h"
  using assms(2,3)
proof (induction n arbitrary: a v s h)
  case 0
  {
    case 1
    show ?case by simp
  next
    case 2
    then show ?case by auto
  }
next
  case (Suc n)
  {
    case 1
    obtain d t where dt: "ps_read_16 env a s = (d, t)" by fastforce
    note w = step_window [OF 1(2)]
    have d: "d = board_word fl n0 n1 ini h a" and t: "probing h0 (ReadWord 5 a # h) t"
      using probe_read [OF assms(1) 1(1) w(1)] dt by simp_all
    have eq: "a + 2 + 2 * of_nat k = a + 2 * of_nat (Suc k)"
      "v + 0xFA54 + of_nat k * 0xFA54 = v + of_nat (Suc k) * 0xFA54" for k
      by (simp_all add: algebra_simps)
    show ?case
      using Suc.IH(1) [OF t w(2), of "v + 0xFA54"]
      by (simp add: dt Let_def all_less_Suc_split d eq)
  next
    case 2
    obtain d t where dt: "ps_read_16 env a s = (d, t)" by fastforce
    note w = step_window [OF 2(2)]
    have t: "probing h0 (ReadWord 5 a # h) t"
      using probe_read [OF assms(1) 2(1) w(1)] dt by auto
    show ?case
      using Suc.IH(2) [OF t w(2), of "v + 0xFA54"] t
      by (auto simp: dt Let_def intro!: exI [of _ "ReadWord 5 a # h"])
  }
qed

lemma probe_present:
  assumes "board_answers env h0 fl n0 n1 ini" "probing h0 h s" "unat a + 504 \<le> 0x400000"
  obtains h' where "fst (stram_pattern_present env a s) = pattern_at (board_word fl n0 n1 ini h) a"
    "probing h0 h' (snd (stram_pattern_present env a s))"
    "board_word fl n0 n1 ini h' = board_word fl n0 n1 ini h"
  using probe_check [OF assms(1,2), of a 252 0] assms(3)
  unfolding stram_pattern_present_def pattern_at_def pattern_word_def by auto

lemma probe_either:
  assumes "board_answers env h0 fl n0 n1 ini" "probing h0 h s"
    "unat a + 504 \<le> 0x400000" "unat b + 504 \<le> 0x400000"
  obtains h' where "fst (pattern_at_either env a b s) \<longleftrightarrow>
      pattern_at (board_word fl n0 n1 ini h) a \<or> pattern_at (board_word fl n0 n1 ini h) b"
    "probing h0 h' (snd (pattern_at_either env a b s))"
    "board_word fl n0 n1 ini h' = board_word fl n0 n1 ini h"
proof -
  obtain p t where pt: "stram_pattern_present env a s = (p, t)" by fastforce
  obtain h' where h': "p = pattern_at (board_word fl n0 n1 ini h) a" "probing h0 h' t"
    "board_word fl n0 n1 ini h' = board_word fl n0 n1 ini h"
    using probe_present [OF assms(1,2,3)] pt by (metis fst_conv snd_conv)
  obtain h'' where h'': "fst (stram_pattern_present env b t) = pattern_at (board_word fl n0 n1 ini h') b"
    "probing h0 h'' (snd (stram_pattern_present env b t))"
    "board_word fl n0 n1 ini h'' = board_word fl n0 n1 ini h'"
    using probe_present [OF assms(1) h'(2) assms(4)] by metis
  show thesis
  proof (cases p)
    case True
    with h' pt show ?thesis by (intro that [of h']) (auto simp: pattern_at_either_def)
  next
    case False
    with h' h'' pt show ?thesis by (intro that [of h'']) (auto simp: pattern_at_either_def)
  qed
qed

text \<open>Writing: the last word written to a cell is the one it holds; the cells written are
  pairwise different.\<close>

lemma probe_write_pattern:
  assumes "probing h0 h s" "unat a + 2 * n \<le> 0x400000"
    and "\<And>j k. j < n \<Longrightarrow> k < n \<Longrightarrow>
      board_cell fl n0 n1 (a + 2 * of_nat j) = board_cell fl n0 n1 (a + 2 * of_nat k) \<Longrightarrow>
      board_cell fl n0 n1 (a + 2 * of_nat j) \<noteq> None \<Longrightarrow> j = k"
  obtains h' where "probing h0 h' (pattern_write env n a v s)"
    "\<And>x k. k < n \<Longrightarrow> board_cell fl n0 n1 x = board_cell fl n0 n1 (a + 2 * of_nat k) \<Longrightarrow>
       board_cell fl n0 n1 x \<noteq> None \<Longrightarrow> board_word fl n0 n1 ini h' x = v + of_nat k * 0xFA54"
    "\<And>x. (\<forall>k < n. board_cell fl n0 n1 x = None \<or>
         board_cell fl n0 n1 x \<noteq> board_cell fl n0 n1 (a + 2 * of_nat k)) \<Longrightarrow>
       board_word fl n0 n1 ini h' x = board_word fl n0 n1 ini h x"
  using assms
proof (induction n arbitrary: a v s h thesis)
  case 0
  show ?case by (rule 0(1) [of h]) (use 0 in auto)
next
  case (Suc n)
  note w = step_window [OF Suc.prems(3)]
  let ?h = "WriteWord 5 a v # h"
  have eq: "a + 2 + 2 * of_nat k = a + 2 * of_nat (Suc k)"
    "v + 0xFA54 + of_nat k * 0xFA54 = v + of_nat (Suc k) * 0xFA54" for k
    by (simp_all add: algebra_simps)
  have pr: "probing h0 ?h (ps_write_16 env a v s)" by (rule probe_write [OF Suc.prems(2) w(1)])
  have inj: "j = k" if "j < n" "k < n"
      "board_cell fl n0 n1 (a + 2 + 2 * of_nat j) = board_cell fl n0 n1 (a + 2 + 2 * of_nat k)"
      "board_cell fl n0 n1 (a + 2 + 2 * of_nat j) \<noteq> None" for j k
    using Suc.prems(4) [of "Suc j" "Suc k"] that unfolding eq by simp
  obtain h' where h': "probing h0 h' (pattern_write env n (a + 2) (v + 0xFA54) (ps_write_16 env a v s))"
    "\<And>x k. k < n \<Longrightarrow> board_cell fl n0 n1 x = board_cell fl n0 n1 (a + 2 * of_nat (Suc k)) \<Longrightarrow>
       board_cell fl n0 n1 x \<noteq> None \<Longrightarrow> board_word fl n0 n1 ini h' x = v + of_nat (Suc k) * 0xFA54"
    "\<And>x. (\<forall>k < n. board_cell fl n0 n1 x = None \<or>
         board_cell fl n0 n1 x \<noteq> board_cell fl n0 n1 (a + 2 * of_nat (Suc k))) \<Longrightarrow>
       board_word fl n0 n1 ini h' x = board_word fl n0 n1 ini ?h x"
    by (rule Suc.IH [OF _ pr w(2), where v = "v + 0xFA54", unfolded eq]) (use inj in \<open>auto simp: eq\<close>)
  show ?case
  proof (rule Suc.prems(1) [of h'])
    show "probing h0 h' (pattern_write env (Suc n) a v s)" using h'(1) by simp
  next
    fix x k assume k: "k < Suc n" "board_cell fl n0 n1 x = board_cell fl n0 n1 (a + 2 * of_nat k)"
      "board_cell fl n0 n1 x \<noteq> None"
    show "board_word fl n0 n1 ini h' x = v + of_nat k * 0xFA54"
    proof (cases k)
      case 0
      have "board_cell fl n0 n1 x \<noteq> board_cell fl n0 n1 (a + 2 * of_nat (Suc i))" if "i < n" for i
        using Suc.prems(4) [of 0 "Suc i"] that k 0 by auto
      then have "board_word fl n0 n1 ini h' x = board_word fl n0 n1 ini ?h x" by (intro h'(3)) blast
      then show ?thesis using k 0 by (simp add: board_word_write [OF w(1)])
    next
      case (Suc i)
      then show ?thesis using h'(2) [of i x] k by simp
    qed
  next
    fix x assume x: "\<forall>k < Suc n. board_cell fl n0 n1 x = None \<or>
         board_cell fl n0 n1 x \<noteq> board_cell fl n0 n1 (a + 2 * of_nat k)"
    then have "board_word fl n0 n1 ini h' x = board_word fl n0 n1 ini ?h x"
      by (intro h'(3)) (auto simp: all_less_Suc_split)
    also have "\<dots> = board_word fl n0 n1 ini h x"
      using x by (auto simp: board_word_write [OF w(1)] all_less_Suc_split)
    finally show "board_word fl n0 n1 ini h' x = board_word fl n0 n1 ini h x" .
  qed
qed

section \<open>Which cell an alias offset is\<close>

text \<open>Offsets below 512 bytes are cells of their own in every chip.\<close>

lemma fold_2M_bit:
  assumes "n \<in> bank_sizes" "n < 0x200000"
  shows "bit (stram_st_fold x 0x200000 n) i \<longleftrightarrow>
    (if i \<le> stram_colbits n then bit x i
     else i \<le> 2 * stram_colbits n \<and> bit x (i + (10 - stram_colbits n)))"
  using fold_bit [of "0x200000" n x i] assms by (simp add: bank_sizes_def)

lemma chip_cell_low:
  assumes n: "n \<in> bank_sizes" and x: "unat x < 0x200"
  shows "chip_cell fl n x = x"
proof (cases fl)
  case STE
  have "x < n" using n x by (auto simp: bank_sizes_def word_less_nat_alt)
  with STE show ?thesis by (simp add: chip_cell_def word_unat_eq_iff unat_mod_distrib word_less_nat_alt)
next
  case Plain_ST
  have hb: "\<not> bit x i" if "9 \<le> i" for i using high_bits_zero [of x 9 i] x that by simp
  show ?thesis
  proof (cases "n < 0x200000")
    case True
    have cb: "8 \<le> stram_colbits n" by (simp add: stram_colbits_def)
    have "stram_st_fold x 0x200000 n = x"
    proof (rule bit_eqI)
      fix i
      show "bit (stram_st_fold x 0x200000 n) i = bit x i"
        using cb hb by (auto simp: fold_2M_bit [OF n True])
    qed
    with Plain_ST show ?thesis by (simp add: chip_cell_def)
  next
    case False
    with Plain_ST show ?thesis by (simp add: chip_cell_def stram_st_fold_def not_less)
  qed
qed

text \<open>An offset with one more address bit set, in a chip: the plain ST drops it, moves it down
  or keeps it, the STE drops or keeps it.\<close>

lemma chip_cell_ST_bit:
  assumes n: "n \<in> bank_sizes" "n < 0x200000" and x: "unat x < 0x200" and d: "9 \<le> d" "d < 32"
  shows "bit (chip_cell Plain_ST n (2 ^ d + x)) i \<longleftrightarrow>
    bit x i \<or> (if i \<le> stram_colbits n then i = d else i \<le> 2 * stram_colbits n \<and> i + (10 - stram_colbits n) = d)"
proof -
  have cb: "8 \<le> stram_colbits n" "stram_colbits n \<le> 9" using n by (auto simp: bank_sizes_def)
  have b: "bit (2 ^ d + x) j \<longleftrightarrow> j = d \<or> bit x j" for j
    using bit_exp_plus [of x 9 d j] x d by simp
  have hb: "\<not> bit x j" if "9 \<le> j" for j using high_bits_zero [of x 9 j] x that by simp
  show ?thesis
    using cb hb by (auto simp: chip_cell_def fold_2M_bit [OF n] b)
qed

lemma chip_cell_2M: "unat x < 0x200000 \<Longrightarrow> chip_cell fl 0x200000 x = x"
  by (cases fl) (auto simp: chip_cell_def stram_st_fold_def word_unat_eq_iff unat_mod_distrib)

lemma chip_cell_STE:
  "unat (chip_cell STE n x) = unat x mod unat n"
  by (simp add: chip_cell_def unat_mod_distrib)

text \<open>The alias that folds onto a low offset, by flavour and size.\<close>

definition folding_bit :: "mmu \<Rightarrow> u32 \<Rightarrow> nat" where
  "folding_bit fl n = (if n = 0x20000 then (if fl = STE then 18 else 9) else if fl = STE then 19 else 10)"

lemma chip_cell_folds:
  assumes n: "n \<in> {0x20000, 0x80000}" and x: "unat x < 0x200"
  shows "chip_cell fl n (2 ^ folding_bit fl n + x) = x"
proof (cases fl)
  case STE
  have "unat (2 ^ folding_bit STE n + x) = 2 ^ folding_bit STE n + unat x"
    using x n by (subst unat_add_small) (auto simp: folding_bit_def)
  then have "unat (chip_cell fl n (2 ^ folding_bit fl n + x)) = unat x"
    using STE x n by (auto simp: chip_cell_STE folding_bit_def mod_add_eq [symmetric, where a = 262144]
        mod_add_eq [symmetric, where a = 524288])
  then show ?thesis by (simp only: word_unat_eq_iff)
next
  case Plain_ST
  have "n \<in> bank_sizes" "n < 0x200000" using n by (auto simp: bank_sizes_def)
  note b = chip_cell_ST_bit [OF this x]
  show ?thesis
    unfolding Plain_ST
    by (rule bit_eqI, subst b) (use n in \<open>auto simp: folding_bit_def\<close>)
qed

text \<open>The aliases that stay clear of the low offsets.\<close>

definition clear_bits :: "u32 \<Rightarrow> nat set" where
  "clear_bits n = (if n = 0x20000 then {} else if n = 0x80000 then {18, 9} else {18, 9, 19, 10})"

lemma chip_cell_clear:
  assumes n: "n \<in> bank_sizes" and d: "d \<in> clear_bits n" and x: "unat x < 0x200"
  shows "0x200 \<le> unat (chip_cell fl n (2 ^ d + x))"
proof -
  have dd: "9 \<le> d" "d < 21" using d by (auto simp: clear_bits_def split: if_splits)
  have dl: "(2::nat) ^ 9 \<le> 2 ^ d" "(2::nat) ^ d \<le> 2 ^ 20"
    using dd by (simp_all only: power_increasing_iff [of "2::nat"] one_less_numeral_iff semiring_norm)
  have u: "unat (2 ^ d + x) = 2 ^ d + unat x"
    using x dd dl by (subst unat_add_small) (simp_all add: unat_exp)
  consider "n = 0x200000" | "n = 0x80000" "fl = STE" | "n = 0x80000" "fl = Plain_ST"
    using n d by (cases fl) (auto simp: bank_sizes_def clear_bits_def)
  then show ?thesis
  proof cases
    case 1
    have "unat (2 ^ d + x) < 0x200000" using u dl x by simp
    with 1 u dl show ?thesis by (simp add: chip_cell_2M)
  next
    case 2
    then show ?thesis using d u x by (auto simp: chip_cell_STE clear_bits_def)
  next
    case 3
    note b = chip_cell_ST_bit [of n x d, OF _ _ x]
    have "bit (chip_cell fl n (2 ^ d + x)) (if d = 18 then 17 else 9)"
      using 3 d by (subst 3, subst b) (auto simp: bank_sizes_def clear_bits_def)
    then have "\<not> unat (chip_cell fl n (2 ^ d + x)) < 2 ^ 9"
      using high_bits_zero [of "chip_cell fl n (2 ^ d + x)" 9 "if d = 18 then 17 else 9"] by (auto split: if_splits)
    then show ?thesis by simp
  qed
qed

section \<open>One bank\<close>

definition bank_base :: "u32 set" where "bank_base = {0, 0x200000}"

lemma bank_addr:
  fixes y :: u32
  assumes "base \<in> bank_base" "unat y < 0x200000"
  shows "unat (base + y) = unat base + unat y" "base + y < 0x400000" "(base + y < 0x200000) = (base = 0)"
    "slot (base + y) = base"
proof -
  show u: "unat (base + y) = unat base + unat y"
    using assms by (subst unat_add_small) (auto simp: bank_base_def)
  show "base + y < 0x400000" using assms by (auto simp: bank_base_def word_less_nat_alt u)
  show lt: "(base + y < 0x200000) = (base = 0)" using assms by (auto simp: bank_base_def word_less_nat_alt u)
  show "slot (base + y) = base" using assms lt by (auto simp: slot_def bank_base_def)
qed

lemma board_cell_bank:
  assumes "base \<in> bank_base" "unat y < 0x200000"
  shows "board_cell fl n0 n1 (base + y) =
    (if chip_at n0 n1 base = 0 then None else Some (base, chip_cell fl (chip_at n0 n1 base) y))"
proof -
  have "chip_at n0 n1 (base + y) = chip_at n0 n1 base"
    using assms by (auto simp: chip_at_def bank_addr bank_base_def)
  then show ?thesis using assms by (simp add: board_cell_def bank_addr)
qed

lemma board_cell_slot: "board_cell fl n0 n1 a = Some (b, c) \<Longrightarrow> b = slot a"
  by (auto simp: board_cell_def split: if_splits)

text \<open>Offset of the \<open>k\<close>-th word of the pattern from the alias bit.\<close>

lemma pattern_offset:
  assumes "k < 252"
  shows "unat (8 + 2 * of_nat k :: u32) = 8 + 2 * k"
proof -
  have "unat (of_nat k :: u32) = k" using assms by (simp add: unat_of_nat)
  then show ?thesis using assms by (simp add: unat_word_ariths)
qed

lemma absent_no_pattern:
  assumes "base \<in> bank_base" "unat off < 0x200000" "chip_at n0 n1 base = 0"
  shows "\<not> pattern_at (board_word fl n0 n1 ini h) (base + off)"
  using assms by (auto simp: pattern_at_def board_word_def board_cell_bank pattern_word_def intro!: exI [of _ 0])

text \<open>The probe of a bank returns its size and touches no other bank.\<close>

lemma pattern_cell:
  assumes b: "base \<in> bank_base" and n: "chip_at n0 n1 base \<in> bank_sizes" and k: "k < 252"
  shows "board_cell fl n0 n1 (base + 8 + 2 * of_nat k) = Some (base, 8 + 2 * of_nat k)"
proof -
  have "chip_at n0 n1 base \<noteq> 0" using n by (auto simp: bank_sizes_def)
  moreover have "unat (8 + 2 * of_nat k :: u32) < 0x200" using pattern_offset [OF k] k by simp
  ultimately show ?thesis
    using board_cell_bank [OF b, of "8 + 2 * of_nat k"] n by (simp add: chip_cell_low add.assoc)
qed

lemma alias_cell:
  assumes b: "base \<in> bank_base" and n: "chip_at n0 n1 base \<in> bank_sizes" and k: "k < 252"
    and d: "9 \<le> d" "d < 20"
  shows "board_cell fl n0 n1 (base + (2 ^ d + 8) + 2 * of_nat k) =
    Some (base, chip_cell fl (chip_at n0 n1 base) (2 ^ d + (8 + 2 * of_nat k)))"
proof -
  have "(2::nat) ^ d \<le> 2 ^ 19" using d by (simp only: power_increasing_iff [of "2::nat"] one_less_numeral_iff semiring_norm)
  then have "unat (2 ^ d + (8 + 2 * of_nat k) :: u32) < 0x200000"
    using pattern_offset [OF k] k d by (subst unat_add_small) (simp_all add: unat_exp)
  moreover have "chip_at n0 n1 base \<noteq> 0" using n by (auto simp: bank_sizes_def)
  ultimately show ?thesis
    using board_cell_bank [OF b, of "2 ^ d + (8 + 2 * of_nat k)"] by (simp add: add.assoc)
qed

text \<open>After the pattern is written at offset 8: where it shows.\<close>

definition pattern_written ::
  "mmu \<Rightarrow> u32 \<Rightarrow> u32 \<Rightarrow> (u32 \<times> u32 \<Rightarrow> u16) \<Rightarrow> u32 \<Rightarrow> bus_cycle list \<Rightarrow> bus_cycle list \<Rightarrow> bool" where
  "pattern_written fl n0 n1 ini base h h' \<longleftrightarrow>
     (\<forall>x k. k < 252 \<longrightarrow> board_cell fl n0 n1 x = Some (base, 8 + 2 * of_nat k) \<longrightarrow>
        board_word fl n0 n1 ini h' x = pattern_word k) \<and>
     (\<forall>x. (\<forall>k < 252. board_cell fl n0 n1 x \<noteq> Some (base, 8 + 2 * of_nat k)) \<longrightarrow>
        board_word fl n0 n1 ini h' x = board_word fl n0 n1 ini h x)"

lemma bank_window: "base \<in> bank_base \<Longrightarrow> unat base + 0x200000 \<le> 0x400000"
  by (auto simp: bank_base_def)

lemma probe_writes_pattern:
  assumes b: "base \<in> bank_base" and n: "chip_at n0 n1 base \<in> bank_sizes" and p: "probing h0 h s"
  obtains h' where "probing h0 h' (pattern_write env 252 (base + 8) 0 s)"
    "pattern_written fl n0 n1 ini base h h'"
proof -
  have inj: "j = k" if "j < 252" "k < 252"
      "board_cell fl n0 n1 (base + 8 + 2 * of_nat j) = board_cell fl n0 n1 (base + 8 + 2 * of_nat k)" for j k
  proof -
    have "8 + 2 * of_nat j = (8 + 2 * of_nat k :: u32)" using that by (simp add: pattern_cell [OF b n])
    then have "8 + 2 * j = 8 + 2 * k" by (simp only: flip: pattern_offset [OF that(1)] pattern_offset [OF that(2)])
    then show ?thesis by simp
  qed
  have w: "unat (base + 8) + 2 * 252 \<le> 0x400000"
    using bank_window [OF b] bank_addr(1) [OF b, of 8] by simp
  show thesis
  proof (rule probe_write_pattern [OF p w, of fl n0 n1 env 0 ini])
    fix h'
    assume *: "probing h0 h' (pattern_write env 252 (base + 8) 0 s)"
      "\<And>x k. k < 252 \<Longrightarrow> board_cell fl n0 n1 x = board_cell fl n0 n1 (base + 8 + 2 * of_nat k) \<Longrightarrow>
         board_cell fl n0 n1 x \<noteq> None \<Longrightarrow> board_word fl n0 n1 ini h' x = 0 + of_nat k * 0xFA54"
      "\<And>x. (\<forall>k < 252. board_cell fl n0 n1 x = None \<or>
           board_cell fl n0 n1 x \<noteq> board_cell fl n0 n1 (base + 8 + 2 * of_nat k)) \<Longrightarrow>
         board_word fl n0 n1 ini h' x = board_word fl n0 n1 ini h x"
    show thesis
    proof (rule that [OF *(1)])
      show "pattern_written fl n0 n1 ini base h h'"
        using *(2,3) by (auto simp: pattern_written_def pattern_word_def pattern_cell [OF b n])
    qed
  qed (rule inj)
qed

lemma probe_writes_nothing:
  assumes b: "base \<in> bank_base" and n: "chip_at n0 n1 base = 0" and p: "probing h0 h s"
  obtains h' where "probing h0 h' (pattern_write env 252 (base + 8) 0 s)"
    "board_word fl n0 n1 ini h' = board_word fl n0 n1 ini h"
proof -
  have none: "board_cell fl n0 n1 (base + 8 + 2 * of_nat k) = None" if "k < 252" for k
    using board_cell_bank [OF b, of "8 + 2 * of_nat k"] pattern_offset [OF that] that n
    by (simp add: add.assoc)
  have w: "unat (base + 8) + 2 * 252 \<le> 0x400000"
    using bank_window [OF b] bank_addr(1) [OF b, of 8] by simp
  show thesis
  proof (rule probe_write_pattern [OF p w, of fl n0 n1 env 0 ini])
    fix h'
    assume *: "probing h0 h' (pattern_write env 252 (base + 8) 0 s)"
      "\<And>x. (\<forall>k < 252. board_cell fl n0 n1 x = None \<or>
           board_cell fl n0 n1 x \<noteq> board_cell fl n0 n1 (base + 8 + 2 * of_nat k)) \<Longrightarrow>
         board_word fl n0 n1 ini h' x = board_word fl n0 n1 ini h x"
    show thesis
      by (rule that [OF *(1)]) (rule ext, rule *(2), use none in metis)
  qed (use none in auto)
qed

lemma alias_shows:
  assumes w: "pattern_written fl n0 n1 ini base h h'" and b: "base \<in> bank_base"
    and n: "chip_at n0 n1 base \<in> {0x20000, 0x80000}" and d: "d = folding_bit fl (chip_at n0 n1 base)"
  shows "pattern_at (board_word fl n0 n1 ini h') (base + (2 ^ d + 8))"
proof -
  have n': "chip_at n0 n1 base \<in> bank_sizes" using n by (auto simp: bank_sizes_def)
  have dd: "9 \<le> d" "d < 20" by (auto simp: d folding_bit_def)
  have "board_cell fl n0 n1 (base + (2 ^ d + 8) + 2 * of_nat k) = Some (base, 8 + 2 * of_nat k)"
    if k: "k < 252" for k
    using chip_cell_folds [OF n, of "8 + 2 * of_nat k" fl] pattern_offset [OF k] k
    by (simp add: alias_cell [OF b n' k dd] flip: d)
  then show ?thesis using w by (auto simp: pattern_at_def pattern_written_def)
qed

lemma alias_clear:
  assumes w: "pattern_written fl n0 n1 ini base h h'" and b: "base \<in> bank_base"
    and n: "chip_at n0 n1 base \<in> bank_sizes" and d: "d \<in> clear_bits (chip_at n0 n1 base)"
  shows "pattern_at (board_word fl n0 n1 ini h') (base + (2 ^ d + 8)) \<longleftrightarrow>
         pattern_at (board_word fl n0 n1 ini h) (base + (2 ^ d + 8))"
    and "board_cell fl n0 n1 (base + (2 ^ d + 8)) \<noteq> board_cell fl n0 n1 (base + 8)"
proof -
  have dd: "9 \<le> d" "d < 20" using d by (auto simp: clear_bits_def split: if_splits)
  have far: "chip_cell fl (chip_at n0 n1 base) (2 ^ d + (8 + 2 * of_nat k)) \<noteq> 8 + 2 * of_nat j"
    if "k < 252" "j < 252" for j k
    using chip_cell_clear [OF n d, of "8 + 2 * of_nat k" fl] pattern_offset [OF that(1)]
      pattern_offset [OF that(2)] that by auto
  have "board_word fl n0 n1 ini h' (base + (2 ^ d + 8) + 2 * of_nat k) =
        board_word fl n0 n1 ini h (base + (2 ^ d + 8) + 2 * of_nat k)" if k: "k < 252" for k
    using w far [OF k] by (auto simp: pattern_written_def alias_cell [OF b n k dd])
  then show "pattern_at (board_word fl n0 n1 ini h') (base + (2 ^ d + 8)) \<longleftrightarrow>
         pattern_at (board_word fl n0 n1 ini h) (base + (2 ^ d + 8))"
    by (simp add: pattern_at_def)
  show "board_cell fl n0 n1 (base + (2 ^ d + 8)) \<noteq> board_cell fl n0 n1 (base + 8)"
    using far [of 0 0] alias_cell [OF b n _ dd, of 0 fl] pattern_cell [OF b n, of 0 fl] by simp
qed

lemma alias_numerals:
  "(0x40008 :: u32) = 2 ^ 18 + 8" "(0x208 :: u32) = 2 ^ 9 + 8" "(0x80008 :: u32) = 2 ^ 19 + 8"
  "(0x408 :: u32) = 2 ^ 10 + 8"
  by simp_all

lemma alias_window:
  assumes "base \<in> bank_base"
  shows "unat (base + 0x40008) + 504 \<le> 0x400000" "unat (base + 0x208) + 504 \<le> 0x400000"
    "unat (base + 0x80008) + 504 \<le> 0x400000" "unat (base + 0x408) + 504 \<le> 0x400000"
    "unat (base + 8) + 504 \<le> 0x400000"
  using assms by (auto simp: bank_base_def)

text \<open>The decision tree of the probe over what the memory shows.\<close>

definition probe_decision :: "(u32 \<Rightarrow> u16) \<Rightarrow> u32 \<Rightarrow> u32" where
  "probe_decision m base =
     (if pattern_at m (base + 0x40008) \<or> pattern_at m (base + 0x208) then 0x20000
      else if pattern_at m (base + 0x80008) \<or> pattern_at m (base + 0x408) then 0x80000
      else if pattern_at m (base + 8) then 0x200000 else 0)"

lemma stram_probe_bank_decision:
  assumes ba: "board_answers env h0 fl n0 n1 ini" and b: "base \<in> bank_base"
    and w: "probing h0 h (pattern_write env 252 (base + 8) 0 s)"
  obtains h' where "fst (stram_probe_bank env base s) = probe_decision (board_word fl n0 n1 ini h) base"
    "probing h0 h' (snd (stram_probe_bank env base s))"
    "board_word fl n0 n1 ini h' = board_word fl n0 n1 ini h"
proof -
  let ?w = "pattern_write env 252 (base + 8) 0 s"
  let ?m = "board_word fl n0 n1 ini h"
  note win = alias_window [OF b]
  obtain p t where pt: "pattern_at_either env (base + 0x40008) (base + 0x208) ?w = (p, t)" by fastforce
  obtain q u where qu: "pattern_at_either env (base + 0x80008) (base + 0x408) t = (q, u)" by fastforce
  obtain r v where rv: "stram_pattern_present env (base + 8) u = (r, v)" by fastforce
  obtain h1 where A: "p \<longleftrightarrow> pattern_at ?m (base + 0x40008) \<or> pattern_at ?m (base + 0x208)"
    "probing h0 h1 t" "board_word fl n0 n1 ini h1 = ?m"
    using probe_either [OF ba w win(1,2)] pt by (metis fst_conv snd_conv)
  obtain h2 where B: "q \<longleftrightarrow> pattern_at ?m (base + 0x80008) \<or> pattern_at ?m (base + 0x408)"
    "probing h0 h2 u" "board_word fl n0 n1 ini h2 = ?m"
    using probe_either [OF ba A(2) win(3,4)] qu A(3) by (metis fst_conv snd_conv)
  obtain h3 where C: "r \<longleftrightarrow> pattern_at ?m (base + 8)"
    "probing h0 h3 v" "board_word fl n0 n1 ini h3 = ?m"
    using probe_present [OF ba B(2) win(5)] rv B(3) by (metis fst_conv snd_conv)
  have res: "stram_probe_bank env base s =
    (if p then (0x20000, t) else if q then (0x80000, u) else (if r then 0x200000 else 0, v))"
    by (simp add: stram_probe_bank_def Let_def pt qu rv)
  show thesis
  proof (rule that [of "if p then h1 else if q then h2 else h3"])
    show "fst (stram_probe_bank env base s) = probe_decision ?m base"
      unfolding res probe_decision_def A(1) B(1) C(1) by auto
  qed (use A B C in \<open>auto simp: res\<close>)
qed

lemma pattern_written_here:
  assumes "pattern_written fl n0 n1 ini base h h'" "base \<in> bank_base" "chip_at n0 n1 base \<in> bank_sizes"
  shows "pattern_at (board_word fl n0 n1 ini h') (base + 8)"
  using assms by (auto simp: pattern_at_def pattern_written_def pattern_cell)

lemma probe_decision_size:
  assumes w: "pattern_written fl n0 n1 ini base h h'" and b: "base \<in> bank_base"
    and n: "chip_at n0 n1 base \<in> bank_sizes"
    and ns: "\<And>off. off \<in> {0x40008, 0x208, 0x80008, 0x408} \<Longrightarrow>
        board_cell fl n0 n1 (base + off) \<noteq> board_cell fl n0 n1 (base + 8) \<Longrightarrow>
        \<not> pattern_at (board_word fl n0 n1 ini h) (base + off)"
  shows "probe_decision (board_word fl n0 n1 ini h') base = chip_at n0 n1 base"
proof -
  let ?n = "chip_at n0 n1 base" and ?m = "board_word fl n0 n1 ini h'"
  have clear: "\<not> pattern_at ?m (base + (2 ^ d + 8))"
    if "d \<in> clear_bits ?n" "2 ^ d + 8 \<in> {0x40008, 0x208, 0x80008, 0x408 :: u32}" for d
    using alias_clear [OF w b n that(1)] ns [OF that(2)] by simp
  consider "?n = 0x20000" | "?n = 0x80000" | "?n = 0x200000" using n by (auto simp: bank_sizes_def)
  then show ?thesis
  proof cases
    case 1
    then have "pattern_at ?m (base + 0x40008) \<or> pattern_at ?m (base + 0x208)"
      using alias_shows [OF w b _ refl] by (cases fl) (auto simp: folding_bit_def)
    with 1 show ?thesis by (simp add: probe_decision_def)
  next
    case 2
    then have "pattern_at ?m (base + 0x80008) \<or> pattern_at ?m (base + 0x408)"
      using alias_shows [OF w b _ refl] by (cases fl) (auto simp: folding_bit_def)
    moreover have "\<not> pattern_at ?m (base + 0x40008)" "\<not> pattern_at ?m (base + 0x208)"
      using 2 clear [of 18] clear [of 9] by (simp_all add: clear_bits_def)
    ultimately show ?thesis using 2 by (simp add: probe_decision_def)
  next
    case 3
    have "\<not> pattern_at ?m (base + 0x40008)" "\<not> pattern_at ?m (base + 0x208)"
      "\<not> pattern_at ?m (base + 0x80008)" "\<not> pattern_at ?m (base + 0x408)"
      using 3 clear [of 18] clear [of 9] clear [of 19] clear [of 10] by (simp_all add: clear_bits_def)
    with 3 pattern_written_here [OF w b n] show ?thesis by (simp add: probe_decision_def)
  qed
qed

lemma stram_probe_bank_size:
  assumes ba: "board_answers env h0 fl n0 n1 ini" and b: "base \<in> bank_base" and p: "probing h0 h s"
    and n: "chip_at n0 n1 base \<in> insert 0 bank_sizes"
    and ns: "\<And>off. off \<in> {0x40008, 0x208, 0x80008, 0x408} \<Longrightarrow>
        board_cell fl n0 n1 (base + off) \<noteq> board_cell fl n0 n1 (base + 8) \<Longrightarrow>
        \<not> pattern_at (board_word fl n0 n1 ini h) (base + off)"
  obtains h' where "fst (stram_probe_bank env base s) = chip_at n0 n1 base"
    "probing h0 h' (snd (stram_probe_bank env base s))"
    "\<And>x. slot x \<noteq> base \<Longrightarrow> board_word fl n0 n1 ini h' x = board_word fl n0 n1 ini h x"
proof (cases "chip_at n0 n1 base = 0")
  case True
  obtain h1 where h1: "probing h0 h1 (pattern_write env 252 (base + 8) 0 s)"
    "board_word fl n0 n1 ini h1 = board_word fl n0 n1 ini h"
    by (rule probe_writes_nothing [OF b True p])
  obtain h2 where h2: "fst (stram_probe_bank env base s) = probe_decision (board_word fl n0 n1 ini h1) base"
    "probing h0 h2 (snd (stram_probe_bank env base s))"
    "board_word fl n0 n1 ini h2 = board_word fl n0 n1 ini h1"
    by (rule stram_probe_bank_decision [OF ba b h1(1)])
  show thesis
    by (rule that [OF _ h2(2)])
      (use h1 h2 True in \<open>auto simp: probe_decision_def absent_no_pattern [OF b _ True]\<close>)
next
  case False
  with n have n': "chip_at n0 n1 base \<in> bank_sizes" by simp
  obtain h1 where h1: "probing h0 h1 (pattern_write env 252 (base + 8) 0 s)"
    "pattern_written fl n0 n1 ini base h h1"
    by (rule probe_writes_pattern [OF b n' p])
  obtain h2 where h2: "fst (stram_probe_bank env base s) = probe_decision (board_word fl n0 n1 ini h1) base"
    "probing h0 h2 (snd (stram_probe_bank env base s))"
    "board_word fl n0 n1 ini h2 = board_word fl n0 n1 ini h1"
    by (rule stram_probe_bank_decision [OF ba b h1(1)])
  show thesis
  proof (rule that [OF _ h2(2)])
    show "fst (stram_probe_bank env base s) = chip_at n0 n1 base"
      using probe_decision_size [OF h1(2) b n' ns] h2(1) by simp
    show "board_word fl n0 n1 ini h2 x = board_word fl n0 n1 ini h x" if "slot x \<noteq> base" for x
      using h1(2) h2(3) that by (auto simp: pattern_written_def dest: board_cell_slot)
  qed
qed

section \<open>Both banks\<close>

lemma board_word_other_slot:
  assumes "\<And>x. slot x \<noteq> b0 \<Longrightarrow> board_word fl n0 n1 ini h' x = board_word fl n0 n1 ini h x"
    and "b \<noteq> b0" "b \<in> bank_base" "unat off < 0x1FFE08"
  shows "pattern_at (board_word fl n0 n1 ini h') (b + off) \<longleftrightarrow> pattern_at (board_word fl n0 n1 ini h) (b + off)"
proof -
  have "slot (b + off + 2 * of_nat k) = b" if "k < 252" for k
  proof -
    have k: "unat (2 * of_nat k :: u32) = 2 * k"
      using that by (simp add: unat_word_ariths unat_of_nat)
    have "unat (off + 2 * of_nat k) < 0x200000"
      using that assms(4) k by (subst unat_add_small) simp_all
    then show ?thesis using bank_addr(4) [OF assms(3), of "off + 2 * of_nat k"] by (simp add: add.assoc)
  qed
  with assms(1,2) show ?thesis by (simp add: pattern_at_def)
qed

text \<open>The word view before the probe proper: the controller write is no RAM cycle.\<close>

lemma board_word_controller [simp]:
  "board_word fl n0 n1 ini [WriteByte f 0xFF8001 v] = board_word fl n0 n1 ini []"
  by (auto simp: board_word_def fun_eq_iff split: option.splits)

lemma stram_probe_both_board:
  assumes ba: "board_answers env (bus_hist s) fl n0 n1 ini"
    and n0: "n0 \<in> bank_sizes" and n1: "n1 \<in> insert 0 bank_sizes"
    and ns: "no_stale_pattern fl n0 n1 ini"
  shows "fst (stram_probe_both env s) = (n0, n1)"
proof -
  let ?hist = "bus_hist s" and ?h = "[WriteByte 5 0xFF8001 0x0A]"
  let ?s = "ps_write_8 env 0xFF8001 0x0A (s\<lparr>fc := 5\<rparr>)"
  let ?off = "{0x40008, 0x208, 0x80008, 0x408 :: u32}"
  have p: "probing ?hist ?h ?s" by (simp add: probing_def probe_cycles_def)
  have stale: "\<not> pattern_at (board_word fl n0 n1 ini ?h) (base + off)"
    if "base \<in> bank_base" "off \<in> ?off" "board_cell fl n0 n1 (base + off) \<noteq> board_cell fl n0 n1 (base + 8)"
    for base off
    using ns that unfolding no_stale_pattern_def bank_base_def board_word_controller by blast
  have c: "chip_at n0 n1 0 = n0" "chip_at n0 n1 0x200000 = n1" by (simp_all add: chip_at_def)
  have b: "0 \<in> bank_base" "0x200000 \<in> bank_base" by (simp_all add: bank_base_def)
  obtain h1 where A: "fst (stram_probe_bank env 0 ?s) = n0"
    "probing ?hist h1 (snd (stram_probe_bank env 0 ?s))"
    "\<And>x. slot x \<noteq> 0 \<Longrightarrow> board_word fl n0 n1 ini h1 x = board_word fl n0 n1 ini ?h x"
    using stram_probe_bank_size [OF ba b(1) p, where thesis = thesis] n0 stale [OF b(1)] c(1) by auto
  have stale1: "\<not> pattern_at (board_word fl n0 n1 ini h1) (0x200000 + off)"
    if "off \<in> ?off" "board_cell fl n0 n1 (0x200000 + off) \<noteq> board_cell fl n0 n1 (0x200000 + 8)" for off
    using stale [OF b(2) that] board_word_other_slot [where ?b0.0 = 0, OF A(3) _ b(2), of off] that(1) by auto
  obtain h2 where B: "fst (stram_probe_bank env 0x200000 (snd (stram_probe_bank env 0 ?s))) = n1"
    using stram_probe_bank_size [OF ba b(2) A(2), where thesis = thesis] n1 stale1 c(2) by auto
  show ?thesis using A(1) B by (simp add: stram_probe_both_def Let_def case_prod_unfold)
qed

section \<open>Choosing a configuration\<close>

text \<open>Total size of a configuration, and the board a configuration needs.\<close>

lemma stram_pick_best:
  assumes "c \<in> set stram_combo" "combo_fits want p0 p1 c"
  shows "fst c + snd c \<le> fst (stram_pick want p0 p1) + snd (stram_pick want p0 p1)"
proof -
  let ?f = "\<lambda>c :: u32 \<times> u32. fst c + snd c"
  have "sorted_wrt (\<lambda>x y. ?f y \<le> ?f x) stram_combo" by (simp add: stram_combo_def)
  from find_sorted_best [where f = ?f, OF this assms(1), of "combo_fits want p0 p1"] assms(2) show ?thesis by (auto simp: stram_pick_def)
qed

section \<open>Properties\<close>

text \<open>C5: the DRAM probe finds the board. Whatever the state of the emulator, if the machine
  behaves as a board with chips of sizes \<open>n0\<close> and \<open>n1\<close> (an absent second bank is 0) behind a
  plain ST or an STE memory controller, and no separate cell already shows the test pattern, the
  probe of both banks returns exactly \<open>n0\<close> and \<open>n1\<close>.\<close>

theorem stram_probe_finds_board:
  assumes "board_answers env (bus_hist s) fl n0 n1 ini"
    and "n0 \<in> bank_sizes" and "n1 \<in> insert 0 bank_sizes"
    and "no_stale_pattern fl n0 n1 ini"
  shows "fst (stram_probe_both env s) = (n0, n1)"
  using assms by (rule stram_probe_both_board)

theorem stram_probe_finds_board_witness:
  "fst (stram_probe_both (board_env Plain_ST 0x80000 0x80000 (\<lambda>_. 0xFFFF)) power_up) = (0x80000, 0x80000)"
proof (rule stram_probe_finds_board)
  show "board_answers (board_env Plain_ST 0x80000 0x80000 (\<lambda>_. 0xFFFF)) (bus_hist power_up)
      Plain_ST 0x80000 0x80000 (\<lambda>_. 0xFFFF)"
    by (simp add: power_up_def board_env_answers)
  show "0x80000 \<in> bank_sizes" "0x80000 \<in> insert 0 bank_sizes" by (simp_all add: bank_sizes_def)
  have "\<not> pattern_at (board_word Plain_ST 0x80000 0x80000 (\<lambda>_. 0xFFFF) []) a" for a
    by (auto simp: pattern_at_def board_word_def pattern_word_def intro!: exI [of _ 0] split: option.splits)
  then show "no_stale_pattern Plain_ST 0x80000 0x80000 (\<lambda>_. 0xFFFF)" by (simp add: no_stale_pattern_def)
qed

end
