(* ===== verification/Stram_Access.thy ===== *)
theory Stram_Access
  imports Smc Stram_Probe
begin

text \<open>
  The handlers of the RAM and ROM banks of \<open>pistorm_natmem.cpp\<close>: mirror-only ST-RAM (\<open>lo_*\<close>),
  ST-RAM with write-through (\<open>sr_*\<close>), ROM, TT-RAM, and the memory hooks of the emulated blitter.
\<close>

section \<open>Write-through policy\<close>

definition stram_needs_bus_write :: "'a smc_state_scheme \<Rightarrow> u32 \<Rightarrow> u32 \<Rightarrow> bool" where
  "stram_needs_bus_write s address sz =
     (let a = address AND 0x00FFFFFF in
      if a \<ge> ST_RAM_SIZE then False
      else if \<not> cfg_stram_cache (config s) then True
      else if a < STRAM_LOW_WRITE_THROUGH_SIZE then True
      else
        (let screen = stram_screen_base s in
         if screen \<noteq> 0 \<and> stram_range_overlaps a sz screen STRAM_SCREEN_WRITE_THROUGH_SIZE
         then \<not> psvidel_act s \<and> \<not> pistorm_hdmi_only s
         else False))"

section \<open>Mirror-only ST-RAM\<close>

definition lo_lget :: "'a smc_state_scheme \<Rightarrow> u32 \<Rightarrow> u32" where
  "lo_lget s a = do_get_mem_long s (Natmem a)"
definition lo_wget :: "'a smc_state_scheme \<Rightarrow> u32 \<Rightarrow> u32" where
  "lo_wget s a = ucast (do_get_mem_word s (Natmem a))"
definition lo_bget :: "'a smc_state_scheme \<Rightarrow> u32 \<Rightarrow> u32" where
  "lo_bget s a = ucast (mem_get_byte s (Natmem a))"
definition lo_lput :: "u32 \<Rightarrow> u32 \<Rightarrow> 'a smc_state_scheme \<Rightarrow> 'a smc_state_scheme" where
  "lo_lput a v s = pistorm_smc a 4 (do_put_mem_long (Natmem a) v s)"
definition lo_wput :: "u32 \<Rightarrow> u32 \<Rightarrow> 'a smc_state_scheme \<Rightarrow> 'a smc_state_scheme" where
  "lo_wput a v s = pistorm_smc a 2 (do_put_mem_word (Natmem a) (ucast v) s)"
definition lo_bput :: "u32 \<Rightarrow> u32 \<Rightarrow> 'a smc_state_scheme \<Rightarrow> 'a smc_state_scheme" where
  "lo_bput a v s = pistorm_smc a 1 (mem_put_byte (Natmem a) (ucast v) s)"

section \<open>ST-RAM with write-through\<close>

definition sr_lget :: "'a smc_state_scheme \<Rightarrow> u32 \<Rightarrow> u32" where
  "sr_lget s a =
     (if g_stram_fold_hook s
      then push_bit 16 (ucast (do_get_mem_word s (sr_ptr s a))) OR
           ucast (do_get_mem_word s (sr_ptr s (a + 2)))
      else do_get_mem_long s (Natmem a))"
definition sr_wget :: "'a smc_state_scheme \<Rightarrow> u32 \<Rightarrow> u32" where
  "sr_wget s a = ucast (do_get_mem_word s (sr_ptr s a))"
definition sr_bget :: "'a smc_state_scheme \<Rightarrow> u32 \<Rightarrow> u32" where
  "sr_bget s a = ucast (mem_get_byte s (sr_ptr s a))"

text \<open>The tail of each put: snoop the system variables, write through, check for code.\<close>

definition sr_lput :: "bus_env \<Rightarrow> u32 \<Rightarrow> u32 \<Rightarrow> 'a smc_state_scheme \<Rightarrow> 'a smc_state_scheme" where
  "sr_lput env a v s =
     (let s1 = s\<lparr>g_buserr := False\<rparr>;
          s2 = (if g_stram_fold_hook s1
                then (let t = do_put_mem_word (sr_ptr s1 a) (ucast (drop_bit 16 v)) s1
                      in do_put_mem_word (sr_ptr t (a + 2)) (ucast v) t)
                else do_put_mem_long (Natmem a) v s1);
          s3 = stram_snoop_lowram a 4 s2;
          s4 = (if stram_needs_bus_write s3 a 4
                then ps_write_32 env (stram_bus_addr s3 a) v (fc_data s3) else s3)
      in pistorm_smc a 4 s4)"

definition sr_wput :: "bus_env \<Rightarrow> u32 \<Rightarrow> u32 \<Rightarrow> 'a smc_state_scheme \<Rightarrow> 'a smc_state_scheme" where
  "sr_wput env a v s =
     (let s1 = s\<lparr>g_buserr := False\<rparr>;
          s2 = do_put_mem_word (sr_ptr s1 a) (ucast v) s1;
          s3 = stram_snoop_lowram a 2 s2;
          s4 = (if stram_needs_bus_write s3 a 2
                then ps_write_16 env (stram_bus_addr s3 a) (ucast v) (fc_data s3) else s3)
      in pistorm_smc a 2 s4)"

definition sr_bput :: "bus_env \<Rightarrow> u32 \<Rightarrow> u32 \<Rightarrow> 'a smc_state_scheme \<Rightarrow> 'a smc_state_scheme" where
  "sr_bput env a v s =
     (let s1 = s\<lparr>g_buserr := False\<rparr>;
          s2 = mem_put_byte (sr_ptr s1 a) (ucast v) s1;
          s3 = stram_snoop_lowram a 1 s2;
          s4 = (if stram_needs_bus_write s3 a 1
                then ps_write_8 env (stram_bus_addr s3 a) (ucast v) (fc_data s3) else s3)
      in pistorm_smc a 1 s4)"

section \<open>The blitter's hooks\<close>

definition blit_tt :: "'a smc_state_scheme \<Rightarrow> u32 \<Rightarrow> bool" where
  "blit_tt s a \<longleftrightarrow> tt_ram_available s \<and> a \<ge> TT_RAM_BASE \<and> a - TT_RAM_BASE < tt_ram_size s - 1"

definition pistorm_blit_read16 :: "'a smc_state_scheme \<Rightarrow> u32 \<Rightarrow> u16" where
  "pistorm_blit_read16 s a =
     (if blit_tt s a then do_get_mem_word s (Natmem (a AND NOT 1))
      else do_get_mem_word s (Natmem (a AND 0x00FFFFFE)))"

text \<open>A store to a protected TT-RAM page goes through the SIGSEGV handler like any host store:
  its bytes in address order, each re-executed after the handler has run.\<close>

fun tt_stores :: "u32 \<Rightarrow> u8 list \<Rightarrow> 'a smc_state_scheme \<Rightarrow> 'a smc_state_scheme option" where
  "tt_stores a [] s = Some s"
| "tt_stores a (v # vs) s = (case tt_store a v s of None \<Rightarrow> None | Some t \<Rightarrow> tt_stores (a + 1) vs t)"

definition pistorm_blit_write16 ::
  "bus_env \<Rightarrow> u32 \<Rightarrow> u16 \<Rightarrow> 'a smc_state_scheme \<Rightarrow> 'a smc_state_scheme option" where
  "pistorm_blit_write16 env address v s =
     (if blit_tt s address then tt_stores (address AND NOT 1) [ucast (drop_bit 8 v), ucast v] s
      else
        (let a = address AND 0x00FFFFFE in
         if a \<ge> g_stram_top s then Some s
         else
           (let s1 = do_put_mem_word (Natmem a) v s;
                s2 = stram_snoop_lowram a 2 s1;
                s3 = (if stram_needs_bus_write s2 a 2
                      then (ps_write_16 env (stram_bus_addr s2 a) v (s2\<lparr>fc := 5, g_buserr := False\<rparr>))
                             \<lparr>g_buserr := False, fc := fc s2\<rparr>
                      else s2)
            in Some (pistorm_smc a 2 s3))))"

section \<open>ROM and TT-RAM\<close>

definition rom_lget :: "'a smc_state_scheme \<Rightarrow> u32 \<Rightarrow> u32" where
  "rom_lget s a = do_get_mem_long s (Natmem a)"
definition rom_wget :: "'a smc_state_scheme \<Rightarrow> u32 \<Rightarrow> u32" where
  "rom_wget s a = ucast (do_get_mem_word s (Natmem a))"
definition rom_bget :: "'a smc_state_scheme \<Rightarrow> u32 \<Rightarrow> u32" where
  "rom_bget s a = ucast (mem_get_byte s (Natmem a))"
definition rom_nop_put :: "u32 \<Rightarrow> u32 \<Rightarrow> 'a smc_state_scheme \<Rightarrow> 'a smc_state_scheme" where
  "rom_nop_put a v s = s"

definition tt_lget :: "'a smc_state_scheme \<Rightarrow> u32 \<Rightarrow> u32" where
  "tt_lget s a = do_get_mem_long s (Natmem a)"
definition tt_wget :: "'a smc_state_scheme \<Rightarrow> u32 \<Rightarrow> u32" where
  "tt_wget s a = ucast (do_get_mem_word s (Natmem a))"
definition tt_bget :: "'a smc_state_scheme \<Rightarrow> u32 \<Rightarrow> u32" where
  "tt_bget s a = ucast (mem_get_byte s (Natmem a))"
definition tt_lput :: "u32 \<Rightarrow> u32 \<Rightarrow> 'a smc_state_scheme \<Rightarrow> 'a smc_state_scheme option" where
  "tt_lput a v s =
     tt_stores a [ucast (drop_bit 24 v), ucast (drop_bit 16 v), ucast (drop_bit 8 v), ucast v] s"
definition tt_wput :: "u32 \<Rightarrow> u32 \<Rightarrow> 'a smc_state_scheme \<Rightarrow> 'a smc_state_scheme option" where
  "tt_wput a v s = tt_stores a [ucast (drop_bit 8 v), ucast v] s"
definition tt_bput :: "u32 \<Rightarrow> u32 \<Rightarrow> 'a smc_state_scheme \<Rightarrow> 'a smc_state_scheme option" where
  "tt_bput a v s = tt_stores a [ucast v] s"
definition tt_check :: "'a smc_state_scheme \<Rightarrow> u32 \<Rightarrow> bool" where
  "tt_check s a \<longleftrightarrow> a \<ge> TT_RAM_BASE \<and> a < TT_RAM_BASE + tt_ram_size s"

section \<open>What the accessors see of the state\<close>

definition mem_view where
  "mem_view s =
     (nm_anon s, nm_file s, nm_page s, g_stram_fold_hook s,
      g_stram_cfgb0 s, g_stram_cfgb1 s, g_stram_act0 s, g_stram_act1 s)"

lemma mem_view_fields:
  assumes "mem_view t = mem_view s"
  shows "nm_anon t = nm_anon s" "nm_file t = nm_file s" "nm_page t = nm_page s"
    "g_stram_fold_hook t = g_stram_fold_hook s" "g_stram_cfgb0 t = g_stram_cfgb0 s"
    "g_stram_cfgb1 t = g_stram_cfgb1 s" "g_stram_act0 t = g_stram_act0 s" "g_stram_act1 t = g_stram_act1 s"
  using assms by (simp_all add: mem_view_def)

lemma mem_view_gets:
  assumes v: "mem_view t = mem_view s"
  shows "natmem_cell t = natmem_cell s" "cell_get t = cell_get s" "ptr_cell t = ptr_cell s"
    "stram_st_map t = stram_st_map s" "sr_ptr t = sr_ptr s" "mem_get_byte t = mem_get_byte s"
    "do_get_mem_word t = do_get_mem_word s" "do_get_mem_long t = do_get_mem_long s"
    "natmem_byte t = natmem_byte s"
proof -
  note f = mem_view_fields [OF v]
  show c: "natmem_cell t = natmem_cell s" by (rule ext) (simp add: natmem_cell_def f)
  show g: "cell_get t = cell_get s" by (rule ext) (simp add: cell_get_def f split: cell.split)
  show p: "ptr_cell t = ptr_cell s"
  proof
    fix q show "ptr_cell t q = ptr_cell s q" by (cases q) (simp_all add: c)
  qed
  show m: "stram_st_map t = stram_st_map s" by (rule ext) (simp only: stram_st_map_def f)
  show "sr_ptr t = sr_ptr s" by (rule ext) (simp add: sr_ptr_def f m)
  show b: "mem_get_byte t = mem_get_byte s" by (rule ext) (simp add: mem_get_byte_def p g)
  show "do_get_mem_word t = do_get_mem_word s" by (rule ext) (simp add: do_get_mem_word_def b)
  show "do_get_mem_long t = do_get_mem_long s" by (rule ext) (simp add: do_get_mem_long_def b)
  show "natmem_byte t = natmem_byte s" by (rule ext) (simp add: natmem_byte_def c g)
qed

lemma mem_view_tail [simp]:
  "mem_view (s\<lparr>g_buserr := b\<rparr>) = mem_view s"
  "mem_view (stram_snoop_lowram a z s) = mem_view s"
  "mem_view (pistorm_smc a z s) = mem_view s"
  "mem_view (fc_data s) = mem_view s"
  by (simp_all add: mem_view_def stram_snoop_lowram_def stram_refresh_physbase_def pistorm_smc_def
      cache_invalidate_def fc_data_def Let_def)

lemma mem_view_ps_write [simp]:
  "mem_view (ps_write_8 env a v8 s) = mem_view s"
  "mem_view (ps_write_16 env a v16 s) = mem_view s"
  "mem_view (ps_write_32 env a v32 s) = mem_view s"
  by (simp_all add: mem_view_def ps_write_defs Let_def)

lemma mem_view_sr_put:
  "mem_view (sr_bput env a v s) = mem_view (mem_put_byte (sr_ptr s a) (ucast v) s)"
  "mem_view (sr_wput env a v s) = mem_view (do_put_mem_word (sr_ptr s a) (ucast v) s)"
proof -
  have p: "sr_ptr (s\<lparr>g_buserr := False\<rparr>) = sr_ptr s" by (rule mem_view_gets) simp
  have "mem_view (cell_put c x (s\<lparr>g_buserr := False\<rparr>)) = mem_view (cell_put c x s)" for c x
    by (cases c) (simp_all add: cell_put_def mem_view_def)
  moreover have "ptr_cell (s\<lparr>g_buserr := False\<rparr>) = ptr_cell s" by (rule mem_view_gets) simp
  ultimately have b: "mem_view (mem_put_byte q x (s\<lparr>g_buserr := False\<rparr>)) = mem_view (mem_put_byte q x s)" for q x
    by (simp add: mem_put_byte_def)
  show "mem_view (sr_bput env a v s) = mem_view (mem_put_byte (sr_ptr s a) (ucast v) s)"
    by (simp add: sr_bput_def Let_def p b)
  have "cell_put c x (cell_put d y (s\<lparr>g_buserr := False\<rparr>)) = (cell_put c x (cell_put d y s))\<lparr>g_buserr := False\<rparr>" for c x d y
    by (cases c; cases d) (simp_all add: cell_put_def)
  then have "do_put_mem_word q x (s\<lparr>g_buserr := False\<rparr>) = (do_put_mem_word q x s)\<lparr>g_buserr := False\<rparr>" for q x
    by (simp add: do_put_mem_word_def mem_put_byte_def \<open>ptr_cell (s\<lparr>g_buserr := False\<rparr>) = ptr_cell s\<close>)
  then show "mem_view (sr_wput env a v s) = mem_view (do_put_mem_word (sr_ptr s a) (ucast v) s)"
    by (simp add: sr_wput_def Let_def p)
qed

section \<open>Words of folded memory\<close>

text \<open>The bytes of a word at an even address are neighbours, the first one at an even offset.\<close>

lemma even_bit: "even (unat x) \<longleftrightarrow> \<not> bit x 0" for x :: "'a::len word"
  by (metis bit_0 even_of_nat_iff of_nat_unat ucast_id)

lemma stram_st_fold_even:
  assumes "cfg \<in> bank_sizes" "act \<in> bank_sizes" "even (unat x)"
  shows "even (unat (stram_st_fold x cfg act))"
proof (cases "act \<ge> cfg")
  case True
  with assms show ?thesis by (simp add: stram_st_fold_def)
next
  case False
  with assms show ?thesis using fold_bit [of cfg act x 0] by (simp add: even_bit not_le)
qed

lemma bank_size_even: "sz \<in> insert 0 bank_sizes \<Longrightarrow> even (unat sz)"
  by (auto simp: bank_sizes_def)

lemma stram_st_map_even:
  assumes ok: "stram_sizes_ok s" and a: "even (unat a)"
  shows "even (unat (stram_st_map s a))"
proof -
  let ?cfgA = "g_stram_cfgb0 s" and ?cfgB = "g_stram_cfgb1 s"
  let ?actA = "g_stram_act0 s" and ?actB = "g_stram_act1 s"
  let ?t = "?cfgA + ?cfgB"
  define x where "x = (if ?t \<noteq> 0 \<and> a \<ge> ?t then a mod ?t else a)"
  have oks: "?actA \<in> bank_sizes" "?actB \<in> insert 0 bank_sizes" "?cfgA \<in> bank_sizes" "?cfgB \<in> bank_sizes"
    using ok by (auto simp: stram_sizes_ok_def)
  have "unat ?t = unat ?cfgA + unat ?cfgB" using oks by (simp add: bank_sum_no_wrap)
  then have "even (unat ?t)" using oks bank_size_even by simp
  then have x: "even (unat x)" using a by (simp add: x_def unat_mod_distrib dvd_mod)
  have sub: "even (unat (x - ?cfgA))" if "\<not> x < ?cfgA"
    using that x bank_size_even [of ?cfgA] oks by (simp add: unat_sub not_less)
  have map: "stram_st_map s a =
     (if x < ?cfgA then stram_st_fold x ?cfgA ?actA
      else if ?actB \<noteq> 0 then ?actA + stram_st_fold (x - ?cfgA) ?cfgB ?actB
      else stram_st_fold (x - ?cfgA) ?cfgB ?actA)"
    by (simp add: stram_st_map_def Let_def x_def)
  have add: "even (unat (?actA + y))" if "even (unat y)" for y
    using that bank_size_even [of ?actA] oks by (simp add: unat_word_ariths dvd_mod)
  show ?thesis
    using x sub add oks unfolding map by (auto intro: stram_st_fold_even)
qed

lemma alias_off_pair:
  assumes ok: "stram_sizes_ok s" and a: "even (unat a)" "a < ST_RAM_SIZE"
  shows "even (unat (stram_alias_off s a))" "stram_alias_off s (a + 1) = stram_alias_off s a + 1"
proof -
  let ?f = "ste_fold (unat (g_stram_cfgb0 s)) (unat (g_stram_cfgb1 s)) (unat (g_stram_act0 s)) (unat (g_stram_act1 s))"
  have d: "even (unat (g_stram_cfgb0 s))" "even (unat (g_stram_cfgb1 s))" "even (unat (g_stram_act0 s))"
    "even (unat (g_stram_act1 s))"
    using ok bank_size_even by (auto simp: stram_sizes_ok_def)
  show e: "even (unat (stram_alias_off s a))"
    unfolding unat_stram_alias_off [OF ok] ste_fold_def Let_def using a d by (simp add: dvd_mod)
  have "unat (a + 1) = unat a + 1" using a(2) by (subst unat_add_small) (auto simp: c_const word_less_nat_alt)
  then have "unat (stram_alias_off s (a + 1)) = ?f (unat a) + 1"
    unfolding unat_stram_alias_off [OF ok]
    using ok a d ste_fold_chunk [where D = 2 and r = 1 and g = "unat a", OF d]
    by (simp add: stram_sizes_ok_def bank_size_pos)
  also have "\<dots> = unat (stram_alias_off s a) + 1" by (simp only: unat_stram_alias_off [OF ok])
  finally show "stram_alias_off s (a + 1) = stram_alias_off s a + 1"
    using unat_less_exp [of "stram_alias_off s (a + 1)"] by (simp add: word_unat_eq_iff unat_add_small)
qed

definition word_pair :: "cell \<Rightarrow> cell \<Rightarrow> bool" where
  "word_pair c d \<longleftrightarrow> (\<exists>x. even (unat x) \<and> (c = Anon x \<and> d = Anon (x + 1) \<or> c = File x \<and> d = File (x + 1)))"

abbreviation sr_cell :: "'a smc_state_scheme \<Rightarrow> u32 \<Rightarrow> cell" where
  "sr_cell s a \<equiv> ptr_cell s (sr_ptr s a)"

abbreviation sr_cell_next :: "'a smc_state_scheme \<Rightarrow> u32 \<Rightarrow> cell" where
  "sr_cell_next s a \<equiv> ptr_cell s (ptr_add (sr_ptr s a) 1)"

lemma sr_word_pair:
  assumes inv: "stram_inv s" and a: "even (unat a)" "a < ST_RAM_SIZE"
  shows "word_pair (sr_cell s a) (sr_cell_next s a)"
proof -
  have lt: "a + 1 < ST_RAM_SIZE"
  proof -
    have "unat a \<noteq> 0x3FFFFF" using a(1) by auto
    moreover have "unat (a + 1) = unat a + 1" using a(2) by (subst unat_add_small) (auto simp: c_const word_less_nat_alt)
    ultimately show ?thesis using a(2) by (simp add: c_const word_less_nat_alt)
  qed
  consider "g_stram_fold_hook s" | "\<not> g_stram_fold_hook s" "g_stram_alias s"
    | "\<not> g_stram_fold_hook s" "\<not> g_stram_alias s" by blast
  then show ?thesis
  proof cases
    case 1
    then have "stram_sizes_ok s" using inv by (simp add: stram_inv_def)
    with 1 a(1) show ?thesis by (auto simp: word_pair_def sr_ptr_def stram_st_map_even)
  next
    case 2
    then have ok: "stram_sizes_ok s" and l: "\<And>b. b < ST_RAM_SIZE \<Longrightarrow> natmem_cell s b = File (stram_alias_off s b)"
      using inv by (auto simp: stram_inv_def)
    show ?thesis
      using 2 alias_off_pair [OF ok a] by (auto simp: word_pair_def sr_ptr_def l a(2) lt)
  next
    case 3
    then have "nm_page s = (\<lambda>_. None)" using inv by (simp add: stram_inv_def)
    with 3 a(1) show ?thesis by (auto simp: word_pair_def sr_ptr_def natmem_cell_def)
  qed
qed

lemma word_pair_cases:
  assumes "word_pair c c'" "word_pair d d'"
  shows "c' \<noteq> c" "c = d \<longleftrightarrow> c' = d'" "c \<noteq> d \<Longrightarrow> c \<noteq> d'" "c \<noteq> d \<Longrightarrow> c' \<noteq> d"
proof -
  have p: "x + 1 \<noteq> y" if "even (unat x)" "even (unat y)" for x y :: u32
    using that by (metis even_bit bit_0 even_add odd_one)
  show "c' \<noteq> c" "c = d \<longleftrightarrow> c' = d'" "c \<noteq> d \<Longrightarrow> c \<noteq> d'" "c \<noteq> d \<Longrightarrow> c' \<noteq> d"
    using assms p by (auto simp: word_pair_def)
qed

lemma ptr_cell_put_word [simp]: "ptr_cell (do_put_mem_word p v s) = ptr_cell s"
  by (rule ext) (simp add: do_put_mem_word_def mem_put_byte_def)

lemma sr_ptr_put_word [simp]: "sr_ptr (do_put_mem_word p v s) = sr_ptr s"
proof
  fix a
  obtain na nf where t: "do_put_mem_word p v s = s\<lparr>nm_anon := na, nm_file := nf\<rparr>"
    using bytes_only_mem_put(2) [of s p v] unfolding bytes_only_def by blast
  show "sr_ptr (do_put_mem_word p v s) a = sr_ptr s a"
    unfolding t by (simp add: sr_ptr_def stram_st_map_def Let_def)
qed

lemma word_store_load:
  assumes "word_pair (ptr_cell s p) (ptr_cell s (ptr_add p 1))"
    "word_pair (ptr_cell s q) (ptr_cell s (ptr_add q 1))"
  shows "do_get_mem_word (do_put_mem_word p v s) q =
    (if ptr_cell s q = ptr_cell s p then v else do_get_mem_word s q)"
proof (cases "ptr_cell s q = ptr_cell s p")
  case True
  with word_pair_cases [OF assms] show ?thesis
    unfolding do_mem_word_cells(1) ptr_cell_put_word unfolding do_mem_word_cells(2)
    by (metis cells.get16_put16)
next
  case False
  with word_pair_cases [OF assms(2,1)] show ?thesis
    unfolding do_mem_word_cells(1) ptr_cell_put_word unfolding do_mem_word_cells(2)
    by (metis cells.get16_def cells.get_put16_other)
qed

lemma sr_word_store_load:
  assumes inv: "stram_inv s" and a: "even (unat a)" "a < ST_RAM_SIZE" and b: "even (unat b)" "b < ST_RAM_SIZE"
  shows "sr_wget (sr_wput env a v s) b = (if sr_cell s b = sr_cell s a then v AND 0xFFFF else sr_wget s b)"
proof -
  have m: "mask 16 = (0xFFFF :: u32)" by (simp add: mask_eq_exp_minus_1)
  have "ucast (ucast v :: u16) = v AND mask 16" by (rule bit_eqI) (auto simp: bit_simps)
  note v = this [unfolded m]
  show ?thesis
    unfolding sr_wget_def mem_view_gets [OF mem_view_sr_put(2)] sr_ptr_put_word
      word_store_load [OF sr_word_pair [OF inv a] sr_word_pair [OF inv b]]
    by (auto simp: v)
qed

text \<open>The cell of a guest address, in the three modes.\<close>

lemma sr_cell_modes:
  assumes "stram_inv s" "a < ST_RAM_SIZE"
  shows "sr_cell s a =
    (if \<not> g_stram_alias s then Anon a
     else if g_stram_st_mmu s \<and> fold_needed s then File (stram_st_map s a) else File (stram_alias_off s a))"
  using assms by (auto simp: stram_inv_def sr_ptr_def natmem_cell_def)

section \<open>The aliasing machine\<close>

text \<open>What the guest does to the memory model: writes to the configuration register and stores.\<close>

inductive stram_step :: "'a smc_state_scheme \<Rightarrow> 'a smc_state_scheme \<Rightarrow> bool" where
  memcfg: "pistorm_stram_memcfg_snoop env a v sz s = Some t \<Longrightarrow> stram_step s t"
| sr_byte: "stram_step s (sr_bput env a v s)"
| sr_word: "stram_step s (sr_wput env a v s)"
| sr_long: "stram_step s (sr_lput env a v s)"
| lo_byte: "stram_step s (lo_bput a v s)"
| lo_word: "stram_step s (lo_wput a v s)"
| lo_long: "stram_step s (lo_lput a v s)"
| dma: "stram_step s (pistorm_dma_to_stram a src s)"

definition alias_view where
  "alias_view s =
     (nm_page s, g_stram_fold_hook s, g_stram_cfgb0 s, g_stram_cfgb1 s, g_stram_act0 s, g_stram_act1 s,
      g_stram_alias s, g_stram_memcfg s, g_stram_backing s, g_stram_st_mmu s)"

lemma stram_inv_alias_view:
  assumes "alias_view t = alias_view s"
  shows "stram_inv t = stram_inv s"
proof -
  note f = assms [unfolded alias_view_def prod.inject]
  have "natmem_cell t = natmem_cell s" by (rule ext) (simp add: natmem_cell_def f)
  moreover have "stram_alias_off t = stram_alias_off s" by (rule ext, rule stram_alias_off_cong) (simp_all add: f)
  ultimately show ?thesis by (simp add: stram_inv_def stram_sizes_ok_def fold_needed_def f)
qed

lemma alias_view_bytes_only: "bytes_only s t \<Longrightarrow> alias_view t = alias_view s"
  unfolding bytes_only_def alias_view_def by auto

lemma alias_view_tail [simp]:
  "alias_view (s\<lparr>g_buserr := b\<rparr>) = alias_view s"
  "alias_view (stram_snoop_lowram a z s) = alias_view s"
  "alias_view (pistorm_smc a z s) = alias_view s"
  "alias_view (fc_data s) = alias_view s"
  by (simp_all add: alias_view_def stram_snoop_lowram_def stram_refresh_physbase_def pistorm_smc_def
      cache_invalidate_def fc_data_def Let_def)

lemma alias_view_ps_write [simp]:
  "alias_view (ps_write_8 env a v8 s) = alias_view s"
  "alias_view (ps_write_16 env a v16 s) = alias_view s"
  "alias_view (ps_write_32 env a v32 s) = alias_view s"
  "alias_view (s\<lparr>fc := x\<rparr>) = alias_view s"
  by (simp_all add: alias_view_def ps_write_defs Let_def)

lemma alias_view_puts [simp]:
  "alias_view (mem_put_byte p v8 s) = alias_view s"
  "alias_view (do_put_mem_word p v16 s) = alias_view s"
  "alias_view (do_put_mem_long p v32 s) = alias_view s"
  by (simp_all add: alias_view_bytes_only)

lemma alias_view_natmem_store [simp]: "alias_view (natmem_store a vs s) = alias_view s"
  by (induction vs arbitrary: a s) simp_all

lemma alias_view_accessors:
  "alias_view (sr_bput env a v s) = alias_view s"
  "alias_view (sr_wput env a v s) = alias_view s"
  "alias_view (sr_lput env a v s) = alias_view s"
  "alias_view (lo_bput a v s) = alias_view s"
  "alias_view (lo_wput a v s) = alias_view s"
  "alias_view (lo_lput a v s) = alias_view s"
  "alias_view (pistorm_dma_to_stram a src s) = alias_view s"
  by (simp_all add: sr_bput_def sr_wput_def sr_lput_def lo_bput_def lo_wput_def lo_lput_def
      pistorm_dma_to_stram_def Let_def)

text \<open>The start: the flat model, or aliasing engaged by \<open>stram_alias_init\<close>.\<close>

definition stram_start :: "'a smc_state_scheme \<Rightarrow> bool" where
  "stram_start s \<longleftrightarrow>
     (\<exists>env s0. \<not> g_stram_alias s0 \<and> \<not> g_stram_fold_hook s0 \<and> nm_page s0 = (\<lambda>_. None) \<and>
        stram_alias_init env s0 = Some s)"

lemma alias_view_read:
  "alias_view (snd (ps_read_16 env a s)) = alias_view s"
  by (simp add: ps_read_16_def ps_read_txn_def gpip7_filter_def gpip7_debounce_def latch_berr_def alias_view_def
      Let_def case_prod_unfold)

lemma alias_view_pattern [simp]:
  "alias_view (snd (pattern_check env n a v s)) = alias_view s"
  "alias_view (pattern_write env n a v s) = alias_view s"
proof -
  show "alias_view (snd (pattern_check env n a v s)) = alias_view s"
  proof (induction n arbitrary: a v s)
    case (Suc n)
    then show ?case using alias_view_read [of env a s] by (simp add: Let_def case_prod_unfold)
  qed simp
  show "alias_view (pattern_write env n a v s) = alias_view s"
    by (induction n arbitrary: a v s) simp_all
qed

lemma alias_view_probe_both [simp]: "alias_view (snd (stram_probe_both env s)) = alias_view s"
proof -
  have either: "alias_view (snd (pattern_at_either env a b s)) = alias_view s" for a b s
    by (simp add: pattern_at_either_def stram_pattern_present_def Let_def case_prod_unfold)
  have bank: "alias_view (snd (stram_probe_bank env b s)) = alias_view s" for b s
    by (simp add: stram_probe_bank_def stram_pattern_present_def either Let_def case_prod_unfold)
  have fc: "alias_view (t\<lparr>fc := x, g_buserr := y\<rparr>) = alias_view t" for t x y
    by (simp add: alias_view_def)
  show ?thesis by (simp add: stram_probe_both_def bank fc Let_def case_prod_unfold)
qed

lemma stram_start_inv:
  assumes "stram_start s"
  shows "stram_inv s"
proof -
  obtain env s0 where z: "\<not> g_stram_alias s0" "\<not> g_stram_fold_hook s0" "nm_page s0 = (\<lambda>_. None)"
    and i: "stram_alias_init env s0 = Some s"
    using assms by (auto simp: stram_start_def)
  obtain p0 p1 s1 where p: "stram_probe_both env s0 = ((p0, p1), s1)" by (metis surj_pair)
  have flat: "stram_inv s0" using z by (simp add: stram_inv_def)
  have "alias_view s1 = alias_view s0" using alias_view_probe_both [of env s0] by (simp add: p)
  with flat have one: "stram_inv s1" using stram_inv_alias_view by blast
  let ?want = "if cfg_stram_size (config s0) > ST_RAM_SIZE then ST_RAM_SIZE else cfg_stram_size (config s0)"
  obtain e0 e1 where e: "stram_pick ?want p0 p1 = (e0, e1)" by (metis surj_pair)
  have "stram_alias_init env s0 =
      (if cfg_stram_size (config s0) = 0 then Some s0 else if p0 = 0 \<or> e0 = 0 \<or> e0 + e1 \<ge> ST_RAM_SIZE then Some s1
       else stram_alias_engage env e0 e1 s1)"
    by (simp add: stram_alias_init_def p e Let_def)
  then consider "s = s0" | "s = s1" | "e0 \<noteq> 0" "stram_alias_engage env e0 e1 s1 = Some s"
    using i by (metis option.inject)
  then show ?thesis
  proof cases
    case 3
    from stram_pick_mem(1) [OF e 3(1)] stram_alias_engage_inv(1) [OF 3(2)] show ?thesis by blast
  qed (use flat one in auto)
qed

lemmas accessors_inv = alias_view_accessors [THEN stram_inv_alias_view]

lemma stram_inv_step: "stram_step s t \<Longrightarrow> stram_inv s \<Longrightarrow> stram_inv t"
proof (induction rule: stram_step.induct)
  case (memcfg env a v sz s t)
  then show ?case by (auto simp: pistorm_stram_memcfg_snoop_def intro: stram_memcfg_snoop_inv)
qed (simp_all only: accessors_inv)

interpretation stram: invariant_system stram_start stram_step stram_inv
  by unfold_locales (auto intro: stram_start_inv stram_inv_step)

section \<open>Engaging the aliasing on a board\<close>

lemma stram_map_chunks_total:
  "(\<And>g. env_mmap_fixed env g) \<Longrightarrow> \<exists>t. stram_map_chunks env gs s = Some t"
  by (induction gs arbitrary: s) auto

lemma stram_pick_smallest:
  assumes "0x20000 \<le> want" "n0 \<in> bank_sizes"
  shows "fst (stram_pick want n0 n1) \<noteq> 0"
proof -
  have "(0x20000, 0) \<in> set stram_combo" by (simp add: stram_combo_def)
  moreover have "combo_fits want n0 n1 (0x20000, 0)"
    using assms by (auto simp: combo_fits_def bank_sizes_def)
  ultimately obtain c where c: "List.find (combo_fits want n0 n1) stram_combo = Some c"
    by (metis find_None_iff option.exhaust)
  then have "c \<in> set stram_combo" by (metis find_Some_iff nth_mem)
  then have "fst c \<noteq> 0" by (auto simp: stram_combo_def)
  then show ?thesis by (simp add: stram_pick_def c)
qed

lemma stram_alias_init_board:
  assumes ba: "board_answers env (bus_hist s) fl n0 n1 ini" "no_stale_pattern fl n0 n1 ini"
    and n: "n0 \<in> bank_sizes" "n1 \<in> insert 0 bank_sizes"
    and env: "env_memfd env" "env_hugetlb_release env" "\<And>g. env_mmap_fixed env g"
    and want: "want = min (cfg_stram_size (config s)) ST_RAM_SIZE" "0x20000 \<le> want"
    and pick: "stram_pick want n0 n1 = (e0, e1)" "e0 + e1 < ST_RAM_SIZE"
  obtains t where "stram_alias_init env s = Some t" "stram_inv t" "g_stram_alias t"
    "g_stram_act0 t = e0" "g_stram_act1 t = e1"
proof -
  obtain s1 where p: "stram_probe_both env s = ((n0, n1), s1)"
    using stram_probe_both_board [OF ba(1) n ba(2)] by (metis eq_fst_iff)
  have e: "e0 \<noteq> 0" using stram_pick_smallest [OF want(2) n(1)] pick(1) by (metis fst_conv)
  have nz: "n0 \<noteq> 0" "cfg_stram_size (config s) \<noteq> 0"
    using n(1) want by (auto simp: bank_sizes_def)
  obtain t where t: "stram_alias_engage env e0 e1 s1 = Some t"
    using stram_map_chunks_total [OF env(3)] env(1,2) unfolding stram_alias_engage_def stram_alias_layout_def Let_def
    by fastforce
  have "stram_alias_init env s = Some t"
  proof -
    have w: "(if cfg_stram_size (config s) > ST_RAM_SIZE then ST_RAM_SIZE else cfg_stram_size (config s)) = want"
      by (auto simp: want(1) min_def)
    show ?thesis
      unfolding stram_alias_init_def Let_def w p prod.case pick(1) using nz e pick(2) t by simp
  qed
  then show thesis
    using that stram_alias_engage_inv [OF t] stram_pick_mem(1) [OF pick(1) e] by blast
qed

section \<open>The state the emulator boots with\<close>

definition boot_config :: emu_config where
  "boot_config = \<lparr>cfg_stram_size = 0, cfg_stram_direct = False, cfg_stram_cache = True, cfg_hdmi_only = False,
     cfg_machine_is_ste = False, cfg_machine_kind = 0, cfg_falcon_stram = 0, cfg_et4k = False, cfg_psvidel = False,
     getenv_stram_phys_off = False, getenv_stram_memcfg = None, getenv_stram_shadow_off = False,
     getenv_cart_off = False, getenv_ttsmc_off = False\<rparr>"

definition boot_state :: "emu_config \<Rightarrow> smc_state" where
  "boot_state cfg = \<lparr>bus_hist = [], g_buserr = False, g_buserr_addr = 0, fc = 0, regs_s = True,
     ps_gpip7_force = 0, ps_gpip7_stable = - 1, gpip7_run = 0, ps_gpip7_glitches = 0, ps_gpip7_reads = 0,
     config = cfg, mem_banks = (\<lambda>_. None), baseaddr = (\<lambda>_. None), bank_baseaddr = (\<lambda>_. None),
     pistorm_addr24 = False,
     g_stram_alias = False, g_stram_act0 = 0, g_stram_act1 = 0, g_stram_cfgb0 = 0, g_stram_cfgb1 = 0,
     g_stram_memcfg = 0x0A, g_stram_backing = False, g_stram_st_mmu = False, g_stram_fold_hook = False,
     nm_anon = (\<lambda>_. 0), nm_file = (\<lambda>_. 0), nm_page = (\<lambda>_. None),
     rtg = \<lparr>PAL = 0, shift_mode = 0, hw_rez = 0, res_changed = False, vram_base = 0, low = 0, mid = 0, high = 0,
       linewidth = 0, hscroll = 0\<rparr>,
     st_palette = replicate 16 0, pal_log = [], last_rez = 0xFF, last_sync = 0xFF, pistorm_guest_hz = HzUnknown,
     g_stram_phys_top = 0, g_stram_phys_memcfg = 0, g_stram_guest_memcfg = 0x0A, g_stram_mirror_ok = - 1,
     g_shadow_base = 0, g_shadow_src = 0, g_shadow_have_base = False, g_shadow_ste_reg = False, psvidel_act = False,
     code_page = (\<lambda>_. False), ttsmc_prot = (\<lambda>_. False), ttsmc_faults = (\<lambda>_. 0), ttsmc_enabled = - 1,
     ttsmc_stat_prot = 0, ttsmc_stat_fault = 0, ttsmc_stat_gaveup = 0, g_jp_smc = 0, flush_icache_set = True,
     jit_flushes = 0, host_ro = (\<lambda>_. False), g_stram_top = 0x400000, tt_ram_available = False, tt_ram_size = 0\<rparr>"

lemma boot_state_start:
  assumes "stram_alias_init env (boot_state cfg) = Some t"
  shows "stram_start t"
  unfolding stram_start_def using assms by (intro exI [of _ env] exI [of _ "boot_state cfg"]) (simp add: boot_state_def)

lemma boot_512:
  obtains t :: smc_state where "reach stram_start stram_step t" "g_stram_alias t" "g_stram_act0 t = 0x80000" "g_stram_act1 t = 0"
proof -
  let ?env = "board_env Plain_ST 0x80000 0 (\<lambda>_. 0xFFFF)"
  let ?s = "boot_state (boot_config\<lparr>cfg_stram_size := 0x80000\<rparr>)"
  have "\<not> pattern_at (board_word Plain_ST 0x80000 0 (\<lambda>_. 0xFFFF) []) a" for a
    by (auto simp: pattern_at_def board_word_def pattern_word_def intro!: exI [of _ 0] split: option.splits)
  then have ns: "no_stale_pattern Plain_ST 0x80000 0 (\<lambda>_. 0xFFFF)" by (simp add: no_stale_pattern_def)
  have ba: "board_answers ?env (bus_hist ?s) Plain_ST 0x80000 0 (\<lambda>_. 0xFFFF)"
    by (simp add: boot_state_def board_env_answers)
  have pick: "stram_pick 0x80000 0x80000 0 = (0x80000, 0)"
    by (simp add: stram_pick_def stram_combo_def combo_fits_def)
  obtain t where "stram_alias_init ?env ?s = Some t" "g_stram_alias t" "g_stram_act0 t = 0x80000" "g_stram_act1 t = 0"
    by (rule stram_alias_init_board [OF ba ns _ _ _ _ _ _ _ pick])
      (simp_all add: bank_sizes_def board_env_def boot_state_def boot_config_def c_const)
  then show thesis using that boot_state_start by (blast intro: reach.start)
qed

section \<open>Properties\<close>

text \<open>C1: in every reachable state of the memory model, whatever sequence of configuration
  register writes, stores and DMA transfers led there, the byte behind a guest address of the
  4 MB window is a byte of the installed banks: with the page-table (STE) flavour the one the
  modulo bank model gives for the sizes the guest has configured, with the plain ST flavour and
  a configuration larger than the chips the one the bit fold gives. The offset is inside the
  backing file, so no access faults.\<close>

theorem stram_bank_model:
  assumes "reach stram_start stram_step s" and "g_stram_alias s" and "a < ST_RAM_SIZE"
  shows "\<exists>o'. sr_cell s a = File o' \<and> o' < g_stram_act0 s + g_stram_act1 s \<and>
    (if g_stram_st_mmu s \<and> fold_needed s then o' = stram_st_map s a
     else unat o' = ste_fold (unat (memcfg_bank0 (g_stram_memcfg s))) (unat (memcfg_bank1 (g_stram_memcfg s)))
            (unat (g_stram_act0 s)) (unat (g_stram_act1 s)) (unat a))"
proof -
  have inv: "stram_inv s" using assms(1) by (rule stram.reach_inv)
  then have ok: "stram_sizes_ok s" and c: "g_stram_cfgb0 s = memcfg_bank0 (g_stram_memcfg s)"
      "g_stram_cfgb1 s = memcfg_bank1 (g_stram_memcfg s)"
    using assms(2) by (auto simp: stram_inv_def)
  show ?thesis
    using sr_cell_modes [OF inv assms(3)] assms(2) stram_st_map_bound [OF ok] stram_alias_off_bound [OF ok]
      unat_stram_alias_off [OF ok, of a] by (auto simp: c)
qed

theorem stram_bank_model_witness:
  "\<exists>s :: smc_state. reach stram_start stram_step s \<and>
     (\<exists>o'. sr_cell s 0x80010 = File o' \<and> o' < 0x80000)"
proof -
  obtain t :: smc_state where t: "reach stram_start stram_step t" "g_stram_alias t" "g_stram_act0 t = 0x80000" "g_stram_act1 t = 0"
    by (rule boot_512)
  show ?thesis using stram_bank_model [OF t(1,2), of "0x80010"] t by (auto simp: c_const)
qed

text \<open>C32: a word stored to ST-RAM is read back at exactly the even addresses that select the same
  cell, and no other word of the 4 MB window changes, in every reachable state, flat or folded.\<close>

theorem stram_word_aliasing:
  assumes "reach stram_start stram_step s" and "even (unat a)" and "a < ST_RAM_SIZE"
    and "even (unat b)" and "b < ST_RAM_SIZE"
  shows "sr_wget (sr_wput env a v s) b = (if sr_cell s b = sr_cell s a then v AND 0xFFFF else sr_wget s b)"
  using sr_word_store_load [OF stram.reach_inv [OF assms(1)] assms(2-5)] .

theorem stram_word_aliasing_witness:
  "\<exists>s :: smc_state. reach stram_start stram_step s \<and>
     sr_wget (sr_wput host_env 0x1000 0x12345678 s) 0x1000 = 0x5678"
proof -
  obtain t :: smc_state where "reach stram_start stram_step t" by (rule boot_512)
  with stram_word_aliasing [OF this, of "0x1000" "0x1000" host_env "0x12345678"] show ?thesis
    by (auto simp: c_const)
qed

end
