(* ===== verification/Shadow_Coherence.thy ===== *)
theory Shadow_Coherence
  imports Stram_Access
begin

text \<open>
  The claim the differential refill rests on (the comment in \<open>stram_shadow_refill\<close>): the shadow
  holds the guest's current screen exactly. It is an invariant of the guest's stores and screen
  moves, under the conditions the code needs for it, which the step relation states.
\<close>

section \<open>Stores as byte overwrites\<close>

definition flat :: "'a smc_state_scheme \<Rightarrow> bool" where
  "flat s \<longleftrightarrow> \<not> g_stram_alias s \<and> \<not> g_stram_fold_hook s \<and> nm_page s = (\<lambda>_. None)"

lemma natmem_byte_flat: "flat s \<Longrightarrow> natmem_byte s a = nm_anon s a"
  by (simp add: flat_def natmem_byte_def natmem_cell_def cell_get_def)

lemma put_byte_flat: "flat s \<Longrightarrow> mem_put_byte (Natmem a) v s = s\<lparr>nm_anon := (nm_anon s)(a := v)\<rparr>"
  by (simp add: flat_def mem_put_byte_def natmem_cell_def cell_put_def)

lemma flat_put [simp]: "flat (s\<lparr>nm_anon := m\<rparr>) = flat s"
  by (simp add: flat_def)

lemma puts_flat:
  assumes "flat s"
  shows "mem_put_byte (Natmem a) v8 s = s\<lparr>nm_anon := overwrite (write_byte a (ucast v8) 1) (nm_anon s)\<rparr>"
    "do_put_mem_word (Natmem a) v16 s = s\<lparr>nm_anon := overwrite (write_byte a (ucast v16) 2) (nm_anon s)\<rparr>"
    "do_put_mem_long (Natmem a) v32 s = s\<lparr>nm_anon := overwrite (write_byte a v32 4) (nm_anon s)\<rparr>"
proof -
  have h: "(ucast (ucast v16 :: u32) :: u8) = ucast v16" "(ucast (drop_bit 8 (ucast v16 :: u32)) :: u8) = ucast (drop_bit 8 v16)"
    by (rule bit_eqI; auto simp: bit_simps dest: bit_imp_le_length)+
  show "mem_put_byte (Natmem a) v8 s = s\<lparr>nm_anon := overwrite (write_byte a (ucast v8) 1) (nm_anon s)\<rparr>"
    using assms
    by (auto simp: put_byte_flat overwrite_def write_byte_cases(3) fun_eq_iff ucast_byte simp del: One_nat_def
        intro!: arg_cong [where f = "\<lambda>m. s\<lparr>nm_anon := m\<rparr>"])
  show "do_put_mem_word (Natmem a) v16 s = s\<lparr>nm_anon := overwrite (write_byte a (ucast v16) 2) (nm_anon s)\<rparr>"
    using assms
    by (auto simp: do_put_mem_word_def put_byte_flat overwrite_def write_byte_cases fun_eq_iff h
        intro!: arg_cong [where f = "\<lambda>m. s\<lparr>nm_anon := m\<rparr>"])
  show "do_put_mem_long (Natmem a) v32 s = s\<lparr>nm_anon := overwrite (write_byte a v32 4) (nm_anon s)\<rparr>"
    using assms
    by (auto simp: do_put_mem_long_def put_byte_flat overwrite_def write_byte_cases fun_eq_iff
        intro!: arg_cong [where f = "\<lambda>m. s\<lparr>nm_anon := m\<rparr>"])
qed

text \<open>The store of \<open>sz\<close> bytes, in the form the coherence argument uses.\<close>

definition sr_store :: "bus_env \<Rightarrow> u32 \<Rightarrow> u32 \<Rightarrow> nat \<Rightarrow> 'a smc_state_scheme \<Rightarrow> 'a smc_state_scheme" where
  "sr_store env a v sz s =
     (if sz = 1 then sr_bput env a v s else if sz = 2 then sr_wput env a v s else sr_lput env a v s)"

lemma write_byte_low:
  "write_byte a (ucast (ucast v :: u8)) 1 = write_byte a v 1"
  "write_byte a (ucast (ucast v :: u16)) 2 = write_byte a v 2"
proof -
  have h: "(ucast (ucast (ucast v :: u16) :: u32) :: u8) = ucast v"
    "(ucast (drop_bit 8 (ucast (ucast v :: u16) :: u32)) :: u8) = ucast (drop_bit 8 v)" for v :: u32
    by (rule bit_eqI; auto simp: bit_simps)+
  show "write_byte a (ucast (ucast v :: u8)) 1 = write_byte a v 1"
    by (rule ext) (simp add: write_byte_cases(3) ucast_byte del: One_nat_def)
  show "write_byte a (ucast (ucast v :: u16)) 2 = write_byte a v 2"
    by (rule ext) (simp only: write_byte_cases h)
qed

text \<open>What the coherence argument reads of a state.\<close>

definition shadow_view where
  "shadow_view s = (g_shadow_base s, g_shadow_src s, g_shadow_have_base s, g_shadow_ste_reg s, reg_base (rtg s), config s,
     psvidel_act s, flat s)"

lemma shadow_view_guest_base:
  assumes "shadow_view t = shadow_view s"
  shows "stram_shadow_guest_base t = stram_shadow_guest_base s" "stram_bus_addr t = stram_bus_addr s"
proof -
  have f: "g_shadow_base t = g_shadow_base s" "g_shadow_have_base t = g_shadow_have_base s"
    "reg_base (rtg t) = reg_base (rtg s)" using assms by (simp_all add: shadow_view_def)
  show g: "stram_shadow_guest_base t = stram_shadow_guest_base s" by (simp add: stram_shadow_guest_base_def f)
  show "stram_bus_addr t = stram_bus_addr s" by (rule ext) (simp only: stram_bus_addr_def f g)
qed

lemma shadow_view_tail [simp]:
  "shadow_view (s\<lparr>g_buserr := b\<rparr>) = shadow_view s"
  "shadow_view (s\<lparr>nm_anon := m\<rparr>) = shadow_view s"
  "shadow_view (stram_snoop_lowram a z s) = shadow_view s"
  "shadow_view (pistorm_smc a z s) = shadow_view s"
  "shadow_view (fc_data s) = shadow_view s"
  "shadow_view (ps_write_8 env a v8 s) = shadow_view s"
  "shadow_view (ps_write_16 env a v16 s) = shadow_view s"
  "shadow_view (ps_write_32 env a v32 s) = shadow_view s"
  by (simp_all add: shadow_view_def stram_snoop_lowram_def stram_refresh_physbase_def pistorm_smc_def
      cache_invalidate_def fc_data_def ps_write_defs Let_def flat_def reg_base_def)

lemma bus_hist_tail [simp]:
  "bus_hist (stram_snoop_lowram a z s) = bus_hist s"
  "bus_hist (pistorm_smc a z s) = bus_hist s"
  "bus_hist (fc_data s) = bus_hist s"
  by (simp_all add: stram_snoop_lowram_def stram_refresh_physbase_def pistorm_smc_def
      cache_invalidate_def fc_data_def Let_def)

text \<open>The state a store consults for its write-through.\<close>

definition stored :: "u32 \<Rightarrow> u32 \<Rightarrow> nat \<Rightarrow> 'a smc_state_scheme \<Rightarrow> 'a smc_state_scheme" where
  "stored a v sz s =
     stram_snoop_lowram a (of_nat sz)
       (s\<lparr>g_buserr := False, nm_anon := overwrite (write_byte a v sz) (nm_anon s)\<rparr>)"

lemma stored_view [simp]: "shadow_view (stored a v sz s) = shadow_view s"
  by (simp add: stored_def shadow_view_def) (simp add: stram_snoop_lowram_def stram_refresh_physbase_def Let_def
      flat_def reg_base_def)

text \<open>A store: the mirror takes its bytes, the bus takes them at the translated address.\<close>

lemma sr_store_effect:
  fixes env :: bus_env and a v :: u32
  assumes fl: "flat s" and sz: "sz \<in> {1, 2, 4}"
  defines "t \<equiv> sr_store env a v sz s"
  shows "shadow_view t = shadow_view s"
    "natmem_byte t = overwrite (write_byte a v sz) (natmem_byte s)"
    "bus_mem m (bus_hist t) =
       (if stram_needs_bus_write (stored a v sz s) a (of_nat sz)
        then overwrite (write_byte (stram_bus_addr s a) v sz) (bus_mem m (bus_hist s))
        else bus_mem m (bus_hist s))"
proof -
  let ?s = "s\<lparr>g_buserr := False\<rparr>"
  let ?d = "stored a v sz s"
  have fl': "flat ?s" using fl by (simp add: flat_def)
  have ptr: "sr_ptr ?s a = Natmem a" using fl by (simp add: sr_ptr_def flat_def)
  have hook: "\<not> g_stram_fold_hook ?s" using fl by (simp add: flat_def)
  define w where "w = (if stram_needs_bus_write ?d a (of_nat sz)
     then (if sz = 1 then ps_write_8 env (stram_bus_addr ?d a) (ucast v) (fc_data ?d)
           else if sz = 2 then ps_write_16 env (stram_bus_addr ?d a) (ucast v) (fc_data ?d)
           else ps_write_32 env (stram_bus_addr ?d a) v (fc_data ?d)) else ?d)"
  have t: "t = pistorm_smc a (of_nat sz) w"
    using sz hook
    by (auto simp: t_def sr_store_def sr_bput_def sr_wput_def sr_lput_def Let_def ptr puts_flat [OF fl'] write_byte_low
        write_byte_low(1) [unfolded One_nat_def] stored_def w_def)
  have ba: "stram_bus_addr (stored a v z s) = stram_bus_addr s" for z by (rule shadow_view_guest_base) simp
  show v: "shadow_view t = shadow_view s" by (simp add: t w_def)
  have mv: "mem_view t = mem_view (s\<lparr>nm_anon := overwrite (write_byte a v sz) (nm_anon s)\<rparr>)"
  proof -
    have "mem_view t = mem_view ?d" by (simp add: t w_def)
    also have "\<dots> = mem_view (s\<lparr>nm_anon := overwrite (write_byte a v sz) (nm_anon s)\<rparr>)"
      by (simp add: stored_def) (simp add: mem_view_def)
    finally show ?thesis .
  qed
  have nb: "natmem_byte s = nm_anon s" using natmem_byte_flat [OF fl] by blast
  have "natmem_byte (s\<lparr>nm_anon := x\<rparr>) = x" for x
    using natmem_byte_flat [of "s\<lparr>nm_anon := x\<rparr>"] fl by (simp add: fun_eq_iff)
  then show "natmem_byte t = overwrite (write_byte a v sz) (natmem_byte s)"
    by (simp only: mem_view_gets(9) [OF mv] nb)
  have h: "bus_hist (stored a v z s) = bus_hist s" for z by (simp add: stored_def)
  show "bus_mem m (bus_hist t) =
       (if stram_needs_bus_write ?d a (of_nat sz)
        then overwrite (write_byte (stram_bus_addr s a) v sz) (bus_mem m (bus_hist s))
        else bus_mem m (bus_hist s))"
    using sz by (auto simp: t w_def bus_mem_ps_write write_byte_low write_byte_low(1) [unfolded One_nat_def] ba h
        simp del: bus_hist_ps_write)
qed

section \<open>The conditions\<close>

text \<open>The shadow is engaged as \<open>stram_shadow_init\<close> engages it, the ST-RAM cache keeps other
  addresses off the bus, and the real Shifter is the display.\<close>

definition shadow_engaged :: "'a smc_state_scheme \<Rightarrow> bool" where
  "shadow_engaged s \<longleftrightarrow>
     flat s \<and> 0x8000 \<le> g_shadow_base s \<and> g_shadow_base s \<le> 0x3F8000 \<and>
     cfg_stram_cache (config s) \<and> \<not> cfg_hdmi_only (config s) \<and> \<not> psvidel_act s"

text \<open>Byte ranges that do not meet.\<close>

definition apart :: "u32 \<Rightarrow> nat \<Rightarrow> u32 \<Rightarrow> nat \<Rightarrow> bool" where
  "apart a m b n \<longleftrightarrow> unat a + m \<le> unat b \<or> unat b + n \<le> unat a"

text \<open>A store the argument covers: it starts in the screen, or misses it; in the second case it
  also misses the shadow unless it stays off the bus.\<close>

definition clean_store :: "'a smc_state_scheme \<Rightarrow> u32 \<Rightarrow> u32 \<Rightarrow> nat \<Rightarrow> bool" where
  "clean_store s a v sz \<longleftrightarrow>
     sz \<in> {1, 2, 4} \<and> unat a + sz \<le> 0x400000 \<and>
     (let scr = stram_shadow_guest_base s in
      scr = 0 \<or> (scr \<le> a \<and> a < scr + STRAM_SHADOW_SIZE) \<or>
      (apart a sz scr 0x8000 \<and>
        (apart a sz (g_shadow_base s) 0x8000 \<or>
         \<not> stram_needs_bus_write (stored a v sz s) a (of_nat sz))))"

text \<open>The base registers of the Shifter, as the last bus writes left them, hold the base of the shadow. The
  low byte exists on an STE only.\<close>

definition shifter_regs :: "u32 set" where
  "shifter_regs = {0x00FF8201, 0x00FF8203, 0x00FF820D}"

definition shifter_programmed :: "(u32 \<Rightarrow> u8) \<Rightarrow> 'a smc_state_scheme \<Rightarrow> bool" where
  "shifter_programmed m s \<longleftrightarrow>
     bus_mem m (bus_hist s) 0x00FF8201 = ucast (drop_bit 16 (g_shadow_base s)) \<and>
     bus_mem m (bus_hist s) 0x00FF8203 = ucast (drop_bit 8 (g_shadow_base s)) \<and>
     (g_shadow_ste_reg s \<longrightarrow> bus_mem m (bus_hist s) 0x00FF820D = ucast (g_shadow_base s AND 0xFE))"

definition shadow_inv :: "(u32 \<Rightarrow> u8) \<Rightarrow> 'a smc_state_scheme \<Rightarrow> bool" where
  "shadow_inv m s \<longleftrightarrow>
     shadow_engaged s \<and> g_shadow_src s = stram_shadow_guest_base s \<and>
     (g_shadow_src s \<noteq> 0 \<longrightarrow> shadow_holds m (g_shadow_src s) s \<and> shifter_programmed m s)"

lemma shifter_programmed_cong:
  assumes "\<And>x. x \<in> shifter_regs \<Longrightarrow> bus_mem m (bus_hist t) x = bus_mem m (bus_hist s) x"
    and "g_shadow_base t = g_shadow_base s" "g_shadow_ste_reg t = g_shadow_ste_reg s"
  shows "shifter_programmed m t = shifter_programmed m s"
  using assms by (simp add: shifter_programmed_def shifter_regs_def)

lemma write_byte_shift: "write_byte (b + (a - c)) v sz (b + j) = write_byte a v sz (c + j)"
  by (simp add: write_byte_def algebra_simps)

lemma apart_untouched:
  assumes "apart a sz b 0x8000" "unat b + 0x8000 \<le> 0x400000" "unat a + sz \<le> 0x400000" "unat j < 0x8000"
  shows "write_byte a v sz (b + j) = None"
proof -
  let ?i = "unat (b + j - a)"
  have bj: "unat (b + j) = unat b + unat j" using assms(2,4) by (subst unat_add_small) auto
  have "\<not> ?i < sz"
  proof
    assume i: "?i < sz"
    have "b + j = a + of_nat ?i" by simp
    moreover have "unat (a + of_nat ?i) = unat a + ?i"
      using i assms(3) by (subst unat_add_small) simp_all
    ultimately have "unat b + unat j = unat a + ?i" using bj by simp
    with i assms(1,4) show False by (auto simp: apart_def)
  qed
  then show ?thesis by (simp add: write_byte_def)
qed

lemma guest_base_bounds:
  assumes "stram_shadow_guest_base s \<noteq> 0"
  shows "0x8000 \<le> unat (stram_shadow_guest_base s)" "unat (stram_shadow_guest_base s) + 0x8000 \<le> 0x400000"
    "reg_base (rtg s) = stram_shadow_guest_base s"
proof -
  let ?b = "reg_base (rtg s)"
  have b: "stram_shadow_guest_base s = ?b" "\<not> ?b < 0x8000" "\<not> ?b + 0x8000 > 0x400000"
    using assms by (auto simp: stram_shadow_guest_base_def Let_def c_const split: if_splits)
  have "unat ?b < 2 ^ 24"
  proof (rule unat_less_exp_bits)
    fix i :: nat assume "24 \<le> i"
    then show "\<not> bit ?b i" by (auto simp: reg_base_def bit_simps dest: bit_imp_le_length)
  qed
  then have "unat (?b + 0x8000) = unat ?b + 0x8000" by (subst unat_add_small) simp_all
  with b show "0x8000 \<le> unat (stram_shadow_guest_base s)"
    "unat (stram_shadow_guest_base s) + 0x8000 \<le> 0x400000" "?b = stram_shadow_guest_base s"
    by (simp_all add: word_less_nat_alt not_less)
qed

lemma and_24_small: "unat a < 0x400000 \<Longrightarrow> a AND 0x00FFFFFF = a" for a :: u32
  by (rule and_24bit) (simp add: word_less_nat_alt)

section \<open>Stores keep the invariant\<close>

text \<open>A store into the screen is written through.\<close>

lemma screen_written:
  assumes en: "shadow_engaged s" and scr: "stram_shadow_guest_base s \<noteq> 0"
    and a: "stram_shadow_guest_base s \<le> a" "a < stram_shadow_guest_base s + STRAM_SHADOW_SIZE"
    and sz: "sz \<in> {1, 2, 4}" "unat a + sz \<le> 0x400000"
  shows "stram_needs_bus_write (stored a v sz s) a (of_nat sz)"
proof -
  let ?d = "stored a v sz s" and ?scr = "stram_shadow_guest_base s"
  note gbd = guest_base_bounds [OF scr]
  have f: "config ?d = config s" "psvidel_act ?d = psvidel_act s" "reg_base (rtg ?d) = ?scr"
    using stored_view [of a v sz s] gbd(3) by (simp_all add: shadow_view_def)
  have base: "stram_screen_base ?d = ?scr"
    using scr gbd by (simp add: stram_screen_base_def f c_const word_less_nat_alt)
  have a24: "a AND 0x00FFFFFF = a" "a < ST_RAM_SIZE"
    using sz by (auto intro: and_24_small simp: c_const word_less_nat_alt)
  have ub: "unat (?scr + 0x20000) = unat ?scr + 0x20000" "unat (?scr + 0x8000) = unat ?scr + 0x8000"
    using gbd by (subst unat_add_small; simp)+
  have ua: "unat (a + of_nat sz) = unat a + sz"
    using sz by (subst unat_add_small) (auto simp: unat_of_nat)
  have "stram_range_overlaps a (of_nat sz) ?scr STRAM_SCREEN_WRITE_THROUGH_SIZE"
    using a ub ua sz by (auto simp: stram_range_overlaps_def c_const word_less_nat_alt word_le_nat_alt)
  then show ?thesis
    using en a24 scr by (auto simp: stram_needs_bus_write_def Let_def base f shadow_engaged_def pistorm_hdmi_only_def)
qed

text \<open>Stores reach RAM on the bus, not the registers.\<close>

lemma store_off_regs:
  assumes inv: "shadow_inv m s" and sz: "sz \<in> {1, 2, 4}" "unat a + sz \<le> 0x400000" and x: "x \<in> shifter_regs"
  shows "write_byte (stram_bus_addr s a) v sz x = None"
proof -
  let ?b = "stram_bus_addr s a" and ?scr = "stram_shadow_guest_base s"
  have sb: "unat (g_shadow_base s) + 0x8000 \<le> 0x400000"
    using inv by (simp add: shadow_inv_def shadow_engaged_def word_le_nat_alt)
  have "unat ?b \<le> 0x400000"
  proof (cases "?scr \<noteq> 0 \<and> ?scr \<le> a \<and> a < ?scr + STRAM_SHADOW_SIZE")
    case True
    then have "?b = a AND 0x00FFFFFF \<or> ?b = g_shadow_base s + (a - ?scr)" by (simp add: stram_bus_addr_def Let_def)
    moreover have "a AND 0x00FFFFFF = a" using sz by (intro and_24_small) auto
    moreover have "unat (a - ?scr) < 0x8000"
      using True guest_base_bounds(2) [of s] by (auto simp: unat_sub word_le_nat_alt word_less_nat_alt unat_add_small c_const)
    moreover have "unat (g_shadow_base s + (a - ?scr)) \<le> unat (g_shadow_base s) + unat (a - ?scr)"
      by (simp add: unat_word_ariths)
    ultimately show ?thesis using sz sb by auto
  next
    case False
    then have "?b = a AND 0x00FFFFFF" by (auto simp: stram_bus_addr_def Let_def)
    moreover have "a AND 0x00FFFFFF = a" using sz by (intro and_24_small) auto
    ultimately show ?thesis using sz by simp
  qed
  then have "\<not> unat (x - ?b) < sz"
    using x sz(1) by (auto simp: shifter_regs_def unat_sub word_le_nat_alt)
  then show ?thesis by (simp add: write_byte_def)
qed

lemma shadow_inv_store:
  assumes inv: "shadow_inv m s" and c: "clean_store s a v sz"
  shows "shadow_inv m (sr_store env a v sz s)"
proof -
  let ?t = "sr_store env a v sz s" and ?scr = "stram_shadow_guest_base s"
  have fl: "flat s" using inv by (simp add: shadow_inv_def shadow_engaged_def)
  have sz: "sz \<in> {1, 2, 4}" "unat a + sz \<le> 0x400000" using c by (auto simp: clean_store_def)
  note e = sr_store_effect [OF fl sz(1), where env = env and a = a and v = v]
  have f: "g_shadow_base ?t = g_shadow_base s" "g_shadow_src ?t = g_shadow_src s" "config ?t = config s"
    "psvidel_act ?t = psvidel_act s" "flat ?t = flat s" "g_shadow_ste_reg ?t = g_shadow_ste_reg s"
    using e(1) by (simp_all add: shadow_view_def)
  note gb = shadow_view_guest_base(1) [OF e(1)]
  have "shadow_holds m ?scr ?t" if scr: "?scr \<noteq> 0"
    unfolding shadow_holds_def
  proof (intro allI impI)
    fix j :: u32 assume j: "unat j < 0x8000"
    have old: "bus_mem m (bus_hist s) (g_shadow_base s + j) = natmem_byte s (?scr + j)"
      using inv scr j by (simp add: shadow_inv_def shadow_holds_def)
    note gbd = guest_base_bounds [OF scr]
    have sb: "unat (g_shadow_base s) + 0x8000 \<le> 0x400000" "g_shadow_base s \<noteq> 0"
      using inv by (auto simp: shadow_inv_def shadow_engaged_def word_le_nat_alt)
    have a24: "a AND 0x00FFFFFF = a" using sz by (intro and_24_small) auto
    consider (screen) "?scr \<le> a" "a < ?scr + STRAM_SHADOW_SIZE"
      | (off) "apart a sz ?scr 0x8000" "\<not> stram_needs_bus_write (stored a v sz s) a (of_nat sz)"
      | (raw) "apart a sz ?scr 0x8000" "apart a sz (g_shadow_base s) 0x8000"
          "\<not> (?scr \<le> a \<and> a < ?scr + STRAM_SHADOW_SIZE)"
      using c scr by (auto simp: clean_store_def Let_def)
    then show "bus_mem m (bus_hist ?t) (g_shadow_base ?t + j) = natmem_byte ?t (?scr + j)"
    proof cases
      case screen
      have "stram_needs_bus_write (stored a v sz s) a (of_nat sz)"
        using screen scr inv sz gbd a24 by (intro screen_written) (auto simp: shadow_inv_def)
      moreover have "stram_bus_addr s a = g_shadow_base s + (a - ?scr)"
        using screen scr sb by (simp add: stram_bus_addr_def Let_def)
      ultimately show ?thesis
        using old by (simp add: e f overwrite_def write_byte_shift split: option.split)
    next
      case off
      then show ?thesis
        using old apart_untouched [OF off(1) gbd(2) sz(2) j] by (simp add: e f overwrite_def)
    next
      case raw
      then have "stram_bus_addr s a = a" using sb a24 by (auto simp: stram_bus_addr_def Let_def)
      then show ?thesis
        using old apart_untouched [OF raw(1) gbd(2) sz(2) j] apart_untouched [OF raw(2) sb(1) sz(2) j]
        by (simp add: e f overwrite_def)
    qed
  qed
  moreover have "shifter_programmed m ?t = shifter_programmed m s"
    by (rule shifter_programmed_cong) (simp_all add: f e store_off_regs [OF inv sz] overwrite_def)
  ultimately show ?thesis using inv by (simp add: shadow_inv_def shadow_engaged_def f gb)
qed

section \<open>Screen moves keep the invariant\<close>

text \<open>The part of the state that neither a snoop nor a bus access changes.\<close>

definition video_frame where
  "video_frame s = (g_shadow_base s, g_shadow_src s, g_shadow_have_base s, g_shadow_ste_reg s, config s, psvidel_act s, flat s,
     nm_anon s, nm_file s, nm_page s)"

lemma trace_frame [simp]: "video_frame (st_rez_sync_trace a v s) = video_frame s"
  by (simp add: video_frame_def st_rez_sync_trace_def Let_def flat_def)

lemma palette_frame [simp]: "video_frame (palette_write i v s) = video_frame s"
  by (simp add: video_frame_def palette_write_def flat_def)

lemma rtg_frame [simp]: "video_frame (s\<lparr>rtg := r\<rparr>) = video_frame s"
  by (simp add: video_frame_def flat_def)

text \<open>The snoop of a write of \<open>n\<close> bytes.\<close>

definition snoop_put :: "nat \<Rightarrow> u32 \<Rightarrow> u32 \<Rightarrow> 'a video_state_scheme \<Rightarrow> 'a video_state_scheme" where
  "snoop_put n a v s =
     (if n = 1 then st_video_snoop8 a (ucast v) s else if n = 2 then st_video_snoop16 a (ucast v) s else st_video_snoop32 a v s)"

lemma snoop_frame:
  "video_frame (st_video_snoop8 a v8 s) = video_frame s"
  "video_frame (st_video_snoop16 a v16 s) = video_frame s"
  "video_frame (st_video_snoop32 a v32 s) = video_frame s"
  by (simp_all add: st_video_snoop8_def st_video_snoop16_def st_video_snoop32_def st_video_ste_extras_clear_def Let_def)

lemma snoop_put_frame: "video_frame (snoop_put n a v s) = video_frame s"
  by (simp add: snoop_put_def snoop_frame)

lemma video_frame_natmem:
  assumes "video_frame t = video_frame s"
  shows "natmem_byte t = natmem_byte s" "g_shadow_base t = g_shadow_base s"
    "g_shadow_src t = g_shadow_src s" "shadow_engaged t = shadow_engaged s" "g_shadow_ste_reg t = g_shadow_ste_reg s"
    "g_shadow_have_base t = g_shadow_have_base s" "config t = config s" "psvidel_act t = psvidel_act s"
proof -
  note f = assms [unfolded video_frame_def prod.inject]
  show "natmem_byte t = natmem_byte s"
    by (rule ext) (simp add: natmem_byte_def natmem_cell_def cell_get_def f split: cell.split)
qed (use assms in \<open>auto simp: video_frame_def shadow_engaged_def\<close>)

text \<open>The base moves only in writes that \<open>stram_shadow_video_after\<close> takes notice of.\<close>

lemma trace_rtg [simp]: "rtg (st_rez_sync_trace a v s) = rtg s"
  by (simp add: st_rez_sync_trace_def Let_def)

lemma palette_rtg [simp]: "rtg (palette_write i v s) = rtg s"
  by (simp add: palette_write_def)

lemma snoop8_base:
  assumes "\<not> shadow_hit (a AND 0x00FFFFFF) 1"
  shows "reg_base (rtg (st_video_snoop8 a v s)) = reg_base (rtg s)"
  using assms by (auto simp: st_video_snoop8_def shadow_hit_def reg_base_def Let_def)

lemma snoop16_base:
  assumes "\<not> shadow_hit (a AND 0x00FFFFFF) 2"
  shows "reg_base (rtg (st_video_snoop16 a v s)) = reg_base (rtg s)"
  using assms by (auto simp: st_video_snoop16_def shadow_hit_def reg_base_def Let_def)

lemma snoop32_base:
  assumes "\<not> shadow_hit (a AND 0x00FFFFFF) 4"
  shows "reg_base (rtg (st_video_snoop32 a v s)) = reg_base (rtg s)"
proof -
  have n: "a AND 0x00FFFFFF \<noteq> 0x00FF8200" "a AND 0x00FFFFFF \<noteq> 0x00FF820C"
    using assms by (auto simp: shadow_hit_def)
  have 8: "reg_base (rtg (st_video_snoop8 b x t)) = reg_base (rtg t)" if "b = 0x00FF8260 \<or> b = 0x00FF820A" for b x t
    using that by (intro snoop8_base) (auto simp: shadow_hit_def)
  show ?thesis using n 8 by (auto simp: st_video_snoop32_def Let_def)
qed

lemma snoop_put_base:
  assumes "\<not> shadow_hit (a AND 0x00FFFFFF) n" "n \<in> {1, 2, 4}"
  shows "reg_base (rtg (snoop_put n a v s)) = reg_base (rtg s)"
  using assms by (auto simp: snoop_put_def snoop8_base [unfolded One_nat_def] snoop16_base snoop32_base)

text \<open>Programming the Shifter writes registers, not RAM.\<close>

lemma program_base_mem:
  assumes "unat x < 0x400000"
  shows "bus_mem m (bus_hist (stram_shadow_program_base env s)) x = bus_mem m (bus_hist s) x"
proof -
  have "x \<noteq> 0x00FF8201" "x \<noteq> 0x00FF8203" "x \<noteq> 0x00FF820D" using assms by auto
  then show ?thesis by (simp add: stram_shadow_program_base_def Let_def)
qed

lemma program_base_only: "bus_only s (stram_shadow_program_base env s)"
  by (simp add: bus_only_def stram_shadow_program_base_def Let_def)

lemma program_base_regs:
  assumes "stram_shadow_guest_base s \<noteq> 0"
  shows "shifter_programmed m (stram_shadow_program_base env s)"
proof -
  have "g_shadow_base (stram_shadow_program_base env s) = g_shadow_base s"
    "g_shadow_ste_reg (stram_shadow_program_base env s) = g_shadow_ste_reg s"
    using bus_only_fields [OF program_base_only [of s env]] by simp_all
  then show ?thesis
    using assms unfolding shifter_programmed_def by (auto simp: stram_shadow_program_base_def Let_def)
qed

text \<open>The correction of the real Shifter that follows a write to the video page. State \<open>u\<close> is what the snoop
  and the bus access made of \<open>s\<close>.\<close>

lemma shadow_inv_after:
  assumes inv: "shadow_inv m s" and fr: "video_frame u = video_frame s"
    and ram: "\<And>x. unat x < 0x400000 \<Longrightarrow> bus_mem m (bus_hist u) x = bus_mem m (bus_hist s) x"
    and hit: "shadow_hit (a AND 0x00FFFFFF) n \<Longrightarrow> stram_shadow_guest_base (u\<lparr>g_shadow_have_base := True\<rparr>) \<noteq> 0"
    and miss: "\<not> shadow_hit (a AND 0x00FFFFFF) n \<Longrightarrow> reg_base (rtg u) = reg_base (rtg s) \<and>
      (\<forall>x \<in> shifter_regs. bus_mem m (bus_hist u) x = bus_mem m (bus_hist s) x)"
  shows "shadow_inv m (stram_shadow_video_after env a n u)"
proof -
  note vf = video_frame_natmem [OF fr]
  have en: "shadow_engaged s" "shadow_engaged u" using inv vf by (auto simp: shadow_inv_def)
  have on: "stram_shadow_on u" "\<not> psvidel_act u" "\<not> pistorm_hdmi_only (u\<lparr>g_shadow_have_base := True\<rparr>)"
    using en(2) by (auto simp: shadow_engaged_def stram_shadow_on_def pistorm_hdmi_only_def)
  have win: "unat (g_shadow_base s + j) < 0x400000" if "unat j < 0x8000" for j :: u32
    using en(1) that by (subst unat_add_small) (auto simp: shadow_engaged_def word_le_nat_alt)
  have prev: "shadow_holds m (g_shadow_src s) u" if "g_shadow_src s \<noteq> 0"
    using inv that ram win by (simp add: shadow_inv_def shadow_holds_def vf)
  show ?thesis
  proof (cases "shadow_hit (a AND 0x00FFFFFF) n")
    case False
    then have "stram_shadow_video_after env a n u = u" using on by (simp add: stram_shadow_video_after_def)
    moreover have "stram_shadow_guest_base u = stram_shadow_guest_base s"
      using miss [OF False] by (simp add: stram_shadow_guest_base_def vf)
    moreover have "shifter_programmed m u = shifter_programmed m s"
      using miss [OF False] by (intro shifter_programmed_cong) (simp_all add: vf)
    ultimately show ?thesis using inv prev en by (simp add: shadow_inv_def vf)
  next
    case True
    let ?v = "u\<lparr>g_shadow_have_base := True\<rparr>"
    let ?r = "stram_shadow_refill env ?v" and ?t = "stram_shadow_video_after env a n u"
    let ?scr = "stram_shadow_guest_base ?v"
    have t: "?t = stram_shadow_program_base env ?r" using on True by (simp add: stram_shadow_video_after_def Let_def)
    have nbv: "natmem_byte ?v = natmem_byte u" by (rule mem_view_gets) (simp add: mem_view_def)
    have scr: "?scr \<noteq> 0" using hit [OF True] .
    have pv: "shadow_holds m (g_shadow_src ?v) ?v" if "g_shadow_src ?v \<noteq> 0"
      using prev that by (simp add: shadow_holds_def nbv vf)
    have r: "bus_only (?v\<lparr>g_shadow_src := ?scr\<rparr>) ?r \<and> shadow_holds m ?scr ?r"
    proof (cases "?scr = g_shadow_src ?v")
      case True
      then have "?r = ?v" by (simp add: stram_shadow_refill_def Let_def)
      with True scr pv show ?thesis by (simp add: bus_only_def)
    next
      case False
      then show ?thesis using stram_shadow_refill_holds [OF scr _ pv, where env = env] by simp
    qed
    have rt: "bus_only ?r ?t" unfolding t by (rule program_base_only)
    have bo: "bus_only (?v\<lparr>g_shadow_src := ?scr\<rparr>) ?t" using r rt bus_only_trans by blast
    note bf = bus_only_fields [OF bo] and bn = bus_only_natmem [OF bo]
    have gb: "stram_shadow_guest_base ?t = ?scr" "stram_shadow_guest_base ?r = ?scr"
      using bn(3) bus_only_natmem(3) [OF rt] by (simp_all add: stram_shadow_guest_base_def)
    have b: "g_shadow_base ?t = g_shadow_base s" "g_shadow_base ?r = g_shadow_base s"
      using bf(6) bus_only_fields(6) [OF rt] by (simp_all add: vf)
    have "shadow_holds m ?scr ?t"
      using r bus_only_natmem(1) [OF rt] win program_base_mem [of _ m env ?r, folded t] by (simp add: shadow_holds_def b)
    moreover have "shifter_programmed m ?t" unfolding t using scr gb(2) by (intro program_base_regs) simp
    moreover have "shadow_engaged ?t" using en(2) bf by (simp add: shadow_engaged_def flat_def)
    ultimately show ?thesis using bf gb by (simp add: shadow_inv_def)
  qed
qed

section \<open>The start\<close>

definition shadow_start :: "'a smc_state_scheme \<Rightarrow> bool" where
  "shadow_start s \<longleftrightarrow> shadow_engaged s \<and> g_shadow_base s AND 0xFF = 0 \<and> \<not> g_shadow_have_base s \<and> g_shadow_src s = 0"

lemma shadow_inv_start: "shadow_start s \<Longrightarrow> shadow_inv m s"
  by (simp add: shadow_start_def shadow_inv_def stram_shadow_guest_base_def)

text \<open>\<open>stram_shadow_init\<close> puts the shadow in the top 32K of the board's RAM.\<close>

lemma shadow_window:
  fixes top :: u32
  assumes "0x10000 \<le> top" "top < 0x400000" "2 ^ 8 dvd unat top"
  shows "unat ((top - 0x8000) AND 0x00FFFF00) = unat top - 0x8000"
proof -
  have u: "unat (top - 0x8000) = unat top - 0x8000" using assms(1) by (simp add: unat_sub word_le_nat_alt)
  have lt: "unat (top - 0x8000) < 2 ^ 24" using assms(2) u by (simp add: word_less_nat_alt)
  have "(0x00FFFF00 :: u32) = mask 24 AND NOT (mask 8)" by (simp add: mask_eq_exp_minus_1)
  then have "(top - 0x8000) AND 0x00FFFF00 = ((top - 0x8000) AND mask 24) AND NOT (mask 8)"
    by (simp only: and.assoc)
  then have "unat ((top - 0x8000) AND 0x00FFFF00) = unat ((top - 0x8000) AND mask 24) div 2 ^ 8 * 2 ^ 8"
    by (simp only: unat_and_not_mask)
  also have "unat ((top - 0x8000) AND mask 24) = unat (top - 0x8000)"
    using lt by (simp only: unat_and_mask mod_less)
  also have "unat (top - 0x8000) div 2 ^ 8 * 2 ^ 8 = unat (top - 0x8000)"
    using assms(1,3) u by (intro dvd_div_mult_self) (simp add: dvd_diff_nat)
  finally show ?thesis using u by simp
qed

lemma debounce_more: "bus_state.more (gpip7_debounce b s) = bus_state.more s"
  by (simp add: gpip7_debounce_def Let_def)

lemma read_bus_only:
  "bus_only s (snd (ps_read_8 env a s))" "bus_only s (snd (ps_read_16 env a s))"
  by (auto simp: bus_only_def ps_read_8_def ps_read_16_def ps_read_txn_def gpip7_filter_def latch_berr_def debounce_more Let_def
      split: prod.splits if_splits)

lemma write_bus_only: "bus_only s (ps_write_8 env a v s)"
  by (simp add: bus_only_def)

lemma probe_ste_reg_only:
  "\<exists>r. bus_only (s\<lparr>g_shadow_ste_reg := r\<rparr>) (probe_ste_reg env s)"
proof -
  define s1 where "s1 = snd (ps_read_8 env 0x00FF820D (s\<lparr>fc := 5\<rparr>))"
  define s4 where "s4 = snd (ps_read_8 env 0x00FF820D (snd (ps_read_8 env 0x00FF8203 (ps_write_8 env 0x00FF820D 0x5A s1))))"
  define s7 where "s7 = snd (ps_read_8 env 0x00FF820D (snd (ps_read_16 env 0x00FF8240 (ps_write_8 env 0x00FF820D 0 s4))))"
  have o: "bus_only s s7"
    unfolding s7_def s4_def s1_def
    by (intro bus_only_trans [OF _ read_bus_only(1)] bus_only_trans [OF _ read_bus_only(2)] bus_only_trans [OF _ write_bus_only])
      (simp add: bus_only_def)
  obtain r v where "probe_ste_reg env s = (ps_write_8 env 0x00FF820D v s7)\<lparr>fc := fc s, g_buserr := False, g_shadow_ste_reg := r\<rparr>"
    by (simp add: probe_ste_reg_def s7_def s4_def s1_def Let_def case_prod_unfold)
  moreover have "bus_only (s\<lparr>g_shadow_ste_reg := r\<rparr>) ((ps_write_8 env 0x00FF820D v s7)\<lparr>fc := fc s, g_buserr := False, g_shadow_ste_reg := r\<rparr>)"
    using o by (cases s; cases s7; simp add: bus_only_def ps_write_defs)
  ultimately show ?thesis by metis
qed

text \<open>A board with less than the 4 MB of the guest and no mirrors starts with an empty shadow.\<close>

lemma shadow_init_start:
  assumes "flat s" "cfg_stram_cache (config s)" "\<not> cfg_hdmi_only (config s)" "\<not> psvidel_act s" "\<not> getenv_stram_shadow_off (config s)"
    "\<not> g_shadow_have_base s" "g_shadow_src s = 0" "0x10000 \<le> top'" "top' < 0x400000" "2 ^ 8 dvd unat top'"
  shows "shadow_start (stram_shadow_init env top' False s)"
proof -
  let ?b = "(top' - 0x8000) AND 0x00FFFF00"
  obtain r where o: "bus_only (s\<lparr>g_shadow_base := ?b, g_shadow_ste_reg := r\<rparr>) (probe_ste_reg env (s\<lparr>g_shadow_base := ?b\<rparr>))"
    using probe_ste_reg_only [of "s\<lparr>g_shadow_base := ?b\<rparr>" env] by auto
  have t: "stram_shadow_init env top' False s = probe_ste_reg env (s\<lparr>g_shadow_base := ?b\<rparr>)"
    using assms by (auto simp: stram_shadow_init_def flat_def c_const word_less_nat_alt word_le_nat_alt)
  have low: "?b AND 0xFF = 0"
  proof -
    have "(0x00FFFF00 :: u32) AND 0xFF = 0" by simp
    then show ?thesis by (simp only: and.assoc and_zero_eq)
  qed
  have "0x10000 \<le> unat top'" "unat top' < 0x400000" using assms(8,9) by (simp_all add: word_le_nat_alt word_less_nat_alt)
  then have w: "0x8000 \<le> unat ?b" "unat ?b \<le> 0x3F8000" unfolding shadow_window [OF assms(8-10)] by linarith+
  show ?thesis
    using bus_only_fields [OF o] w assms low
    by (simp add: t shadow_start_def shadow_engaged_def flat_def word_le_nat_alt word_less_nat_alt)
qed

section \<open>Properties\<close>

definition shadow_boot :: smc_state where
  "shadow_boot = (boot_state boot_config)\<lparr>g_shadow_base := 0xF8000\<rparr>"

text \<open>C40: the condition on stores above the screen is needed. The write-through window of the
  screen is 128K, the shadow translation covers its first 32K: a byte stored 64K above the base of
  a screen at \<open>$E8000\<close> reaches the bus at its own address, which on a 1 MB board is the first byte of
  the shadow, although the guest's screen did not change.\<close>

theorem shadow_overwritten_by_raw_store:
  assumes "shadow_engaged s" and "g_shadow_base s = 0xF8000" and "stram_shadow_guest_base s = 0xE8000"
  shows "bus_mem m (bus_hist (sr_bput env 0xF8000 v s)) 0xF8000 = ucast v \<and>
    natmem_byte (sr_bput env 0xF8000 v s) 0xE8000 = natmem_byte s 0xE8000"
proof -
  have fl: "flat s" using assms(1) by (simp add: shadow_engaged_def)
  have b: "sr_store env 0xF8000 v 1 s = sr_bput env 0xF8000 v s" by (simp add: sr_store_def)
  note e = sr_store_effect [OF fl, where sz = 1 and env = env and a = "0xF8000" and v = v, unfolded b]
  let ?d = "stored 0xF8000 v 1 s"
  have f: "config ?d = config s" "psvidel_act ?d = psvidel_act s" "reg_base (rtg ?d) = 0xE8000"
    using stored_view [of "0xF8000" v 1 s] guest_base_bounds(3) [of s] assms(3) by (simp_all add: shadow_view_def)
  have "stram_needs_bus_write ?d 0xF8000 (of_nat 1)"
    using assms(1) f by (simp add: stram_needs_bus_write_def stram_screen_base_def stram_range_overlaps_def
        c_const shadow_engaged_def pistorm_hdmi_only_def)
  moreover have "stram_bus_addr s 0xF8000 = 0xF8000"
    using assms by (simp add: stram_bus_addr_def c_const)
  ultimately show ?thesis
    using e(2,3) by (simp add: overwrite_def write_byte_cases(3) del: One_nat_def)
qed

definition raw_store_state :: smc_state where
  "raw_store_state = shadow_boot\<lparr>g_shadow_have_base := True, rtg := (rtg shadow_boot)\<lparr>high := 0x0E, mid := 0x80\<rparr>\<rparr>"

theorem shadow_overwritten_by_raw_store_witness:
  "bus_mem (\<lambda>_. 0) (bus_hist (sr_bput host_env 0xF8000 0x55 raw_store_state)) 0xF8000 = 0x55 \<and>
   natmem_byte (sr_bput host_env 0xF8000 0x55 raw_store_state) 0xE8000 = 0"
proof -
  have "shadow_engaged raw_store_state"
    by (simp add: raw_store_state_def shadow_engaged_def shadow_boot_def boot_state_def boot_config_def flat_def)
  moreover have "g_shadow_base raw_store_state = 0xF8000" by (simp add: raw_store_state_def shadow_boot_def)
  moreover have "reg_base (rtg raw_store_state) = 0xE8000"
    by (simp add: raw_store_state_def reg_base_def shadow_boot_def boot_state_def push_bit_eq_mult)
  then have "stram_shadow_guest_base raw_store_state = 0xE8000"
    by (simp add: stram_shadow_guest_base_def c_const) (simp add: raw_store_state_def)
  ultimately show ?thesis
    using shadow_overwritten_by_raw_store [of raw_store_state "\<lambda>_. 0" host_env "0x55"]
    by (simp add: raw_store_state_def shadow_boot_def boot_state_def natmem_byte_def natmem_cell_def cell_get_def)
qed

end
