(* ===== verification/Hostdos_Names.thy ===== *)
theory Hostdos_Names
  imports Prelude "HOL-Library.Char_ord" "HOL-Library.List_Lexorder" "HOL-Library.Sublist"
begin

text \<open>
  The 8.3 names of the HOSTDOS engine (\<open>platforms/atari/network/hostdos.cpp\<close>): which host names
  are valid TOS names, how the others are mangled, how a typed name is truncated, and the
  11-character pattern match of \<open>Fsfirst\<close>. Host and TOS strings are byte strings.
\<close>

section \<open>Characters\<close>

definition ascii_digit :: "char \<Rightarrow> bool" where
  "ascii_digit c \<longleftrightarrow> (48 :: nat) \<le> of_char c \<and> of_char c \<le> (57 :: nat)"

definition ascii_upper :: "char \<Rightarrow> bool" where
  "ascii_upper c \<longleftrightarrow> (65 :: nat) \<le> of_char c \<and> of_char c \<le> (90 :: nat)"

definition ascii_lower :: "char \<Rightarrow> bool" where
  "ascii_lower c \<longleftrightarrow> (97 :: nat) \<le> of_char c \<and> of_char c \<le> (122 :: nat)"

text \<open>\<open>isalnum\<close> and \<open>toupper\<close> of the C locale.\<close>

definition isalnum :: "char \<Rightarrow> bool" where
  "isalnum c \<longleftrightarrow> ascii_digit c \<or> ascii_upper c \<or> ascii_lower c"

definition toupper :: "char \<Rightarrow> char" where
  "toupper c = (if ascii_lower c then char_of (of_char c - 32 :: nat) else c)"

definition tos_specials :: string where
  "tos_specials = ''_-!#$%&'' @ [CHR 0x27] @ ''()@^'' @ [CHR 0x60] @ ''{}~''"

definition tos_char_ok :: "char \<Rightarrow> bool" where
  "tos_char_ok c \<longleftrightarrow> isalnum c \<or> c \<in> set tos_specials"

section \<open>Names\<close>

text \<open>\<open>find('.')\<close> with the two substrings around it.\<close>

definition split_dot :: "string \<Rightarrow> string \<times> string option" where
  "split_dot n =
     (let base = takeWhile (\<lambda>c. c \<noteq> CHR ''.'') n
      in (base, if CHR ''.'' \<in> set n then Some (drop (Suc (length base)) n) else None))"

definition valid83 :: "string \<Rightarrow> bool" where
  "valid83 n =
     (let (base, dot) = split_dot n; ext = (case dot of None \<Rightarrow> [] | Some e \<Rightarrow> e) in
      if base = [] \<or> length base > 8 \<or> length ext > 3 then False
      else if dot \<noteq> None \<and> ext = [] then False
      else list_all tos_char_ok base \<and> list_all tos_char_ok ext)"

definition upper :: "string \<Rightarrow> string" where
  "upper s = map toupper s"

definition join83 :: "string \<Rightarrow> string \<Rightarrow> string" where
  "join83 base ext = (if ext = [] then base else base @ ''.'' @ ext)"

definition trunc83 :: "string \<Rightarrow> string" where
  "trunc83 s =
     (if s = ''.'' \<or> s = ''..'' then s
      else
        (let (base, dot) = split_dot (upper s);
             ext = (case dot of None \<Rightarrow> [] | Some e \<Rightarrow> fst (split_dot e))
         in join83 (take 8 base) (take 3 ext)))"

definition sanitize :: "string \<Rightarrow> string" where
  "sanitize s =
     map (\<lambda>c. if tos_char_ok c then toupper c else CHR ''_'')
       (filter (\<lambda>c. c \<noteq> CHR '' '' \<and> c \<noteq> CHR ''.'') s)"

text \<open>\<open>rfind('.')\<close>: the last dot, unless it is the first character.\<close>

definition split_last_dot :: "string \<Rightarrow> string \<times> string" where
  "split_last_dot s =
     (let ext = rev (takeWhile (\<lambda>c. c \<noteq> CHR ''.'') (rev s));
          base = take (length s - length ext - 1) s
      in if CHR ''.'' \<notin> set s \<or> base = [] then (s, []) else (base, ext))"

text \<open>\<open>%d\<close> of a non-negative number.\<close>

fun dec :: "nat \<Rightarrow> string" where
  "dec n = (if n < 10 then [char_of (48 + n)] else dec (n div 10) @ [char_of (48 + n mod 10)])"

declare dec.simps [simp del]

definition mangle :: "string \<Rightarrow> nat \<Rightarrow> string" where
  "mangle host n =
     (let (b, e) = split_last_dot host;
          base = (let s = sanitize b in if s = [] then ''_'' else s);
          ext = take 3 (sanitize e);
          suf = ''~'' @ dec n;
          keep = 8 - length suf
      in join83 (take keep base @ suf) ext)"

section \<open>Patterns\<close>

text \<open>One field of the 11-character block: \<open>*\<close> fills the rest with \<open>?\<close>.\<close>

fun fcb_field :: "nat \<Rightarrow> string \<Rightarrow> string" where
  "fcb_field 0 s = []"
| "fcb_field (Suc k) [] = CHR '' '' # fcb_field k []"
| "fcb_field (Suc k) (c # s) =
     (if c = CHR ''*'' then replicate (Suc k) (CHR ''?'') else c # fcb_field k s)"

definition fcb :: "string \<Rightarrow> string" where
  "fcb n =
     (let (base, dot) = split_dot n; ext = (case dot of None \<Rightarrow> [] | Some e \<Rightarrow> e)
      in fcb_field 8 base @ fcb_field 3 ext)"

definition match83 :: "string \<Rightarrow> string \<Rightarrow> bool" where
  "match83 pat name =
     (if name = ''.'' \<or> name = ''..'' then pat = ''*.*'' \<or> pat = name
      else list_all2 (\<lambda>p n. p = CHR ''?'' \<or> p = n) (fcb (upper pat)) (fcb name))"

definition has_wild :: "string \<Rightarrow> bool" where
  "has_wild s \<longleftrightarrow> CHR ''*'' \<in> set s \<or> CHR ''?'' \<in> set s"

section \<open>Facts on characters\<close>

lemma of_char_toupper:
  "(of_char (toupper c) :: nat) = (if ascii_lower c then of_char c - 32 else of_char c)"
  by (auto simp: toupper_def ascii_lower_def)

lemma toupper_idem [simp]: "toupper (toupper c) = toupper c"
proof -
  have "\<not> ascii_lower (toupper c)" by (auto simp: ascii_lower_def of_char_toupper)
  then show ?thesis by (simp add: toupper_def [of "toupper c"])
qed

lemma upper_idem [simp]: "upper (upper s) = upper s"
  by (simp add: upper_def)

lemma isalnum_toupper: "isalnum c \<Longrightarrow> isalnum (toupper c)"
  by (auto simp: isalnum_def ascii_digit_def ascii_upper_def ascii_lower_def of_char_toupper)

lemma special_not_lower: "c \<in> set tos_specials \<Longrightarrow> \<not> ascii_lower c"
  by (auto simp: tos_specials_def ascii_lower_def)

lemma toupper_special: "c \<in> set tos_specials \<Longrightarrow> toupper c = c"
  by (simp add: toupper_def special_not_lower)

lemma tos_char_ok_toupper: "tos_char_ok c \<Longrightarrow> tos_char_ok (toupper c)"
  using isalnum_toupper [of c] toupper_special [of c] unfolding tos_char_ok_def by auto

lemma ok_no_dot [simp]: "\<not> tos_char_ok (CHR ''.'')" "\<not> tos_char_ok (CHR ''*'')" "\<not> tos_char_ok (CHR ''?'')"
  "\<not> tos_char_ok (CHR ''/'')" "\<not> tos_char_ok (CHR 0x5C)" "\<not> tos_char_ok (CHR '' '')"
  by (auto simp: tos_char_ok_def isalnum_def ascii_digit_def ascii_upper_def ascii_lower_def tos_specials_def)

lemma toupper_dot: "toupper c = CHR ''.'' \<longleftrightarrow> c = CHR ''.''"
proof
  assume "toupper c = CHR ''.''"
  then have "(of_char (toupper c) :: nat) = 46" by simp
  then have "(of_char c :: nat) = 46" by (auto simp: of_char_toupper ascii_lower_def split: if_splits)
  then have "(of_char c :: nat) = of_char (CHR ''.'')" by simp
  then show "c = CHR ''.''" by (simp only: of_char_eq_iff)
qed (simp add: toupper_def ascii_lower_def)

section \<open>Valid names\<close>

lemma takeWhile_dot: "CHR ''.'' \<notin> set xs \<Longrightarrow> takeWhile (\<lambda>c. c \<noteq> CHR ''.'') (xs @ CHR ''.'' # ys) = xs"
  by (induction xs) auto

lemma takeWhile_no_dot: "CHR ''.'' \<notin> set xs \<Longrightarrow> takeWhile (\<lambda>c. c \<noteq> CHR ''.'') xs = xs"
  by (induction xs) auto

lemma split_dot_join:
  assumes "CHR ''.'' \<notin> set base" "CHR ''.'' \<notin> set ext"
  shows "split_dot (join83 base ext) = (base, if ext = [] then None else Some ext)"
  using assms by (auto simp: split_dot_def join83_def Let_def takeWhile_dot takeWhile_no_dot)

lemma split_dot_parts:
  "split_dot n = (base, dot) \<Longrightarrow> CHR ''.'' \<notin> set base"
  "split_dot n = (base, dot) \<Longrightarrow> n = (case dot of None \<Rightarrow> base | Some e \<Rightarrow> base @ ''.'' @ e)"
proof -
  assume s: "split_dot n = (base, dot)"
  have b: "base = takeWhile (\<lambda>c. c \<noteq> CHR ''.'') n"
    and d: "dot = (if CHR ''.'' \<in> set n then Some (drop (Suc (length base)) n) else None)"
    using s by (auto simp: split_dot_def Let_def)
  show "CHR ''.'' \<notin> set base" unfolding b by (auto dest: set_takeWhileD)
  show "n = (case dot of None \<Rightarrow> base | Some e \<Rightarrow> base @ ''.'' @ e)"
  proof (cases "CHR ''.'' \<in> set n")
    case True
    then obtain xs ys where n: "n = xs @ CHR ''.'' # ys" "CHR ''.'' \<notin> set xs"
      by (meson split_list_first)
    then have "base = xs" unfolding b by (simp add: takeWhile_dot)
    then show ?thesis using d n by simp
  next
    case False
    then have "base = n" unfolding b by (simp add: takeWhile_no_dot)
    with False d show ?thesis by simp
  qed
qed

definition name83 :: "string \<Rightarrow> string \<Rightarrow> bool" where
  "name83 base ext \<longleftrightarrow>
     base \<noteq> [] \<and> length base \<le> 8 \<and> length ext \<le> 3 \<and> list_all tos_char_ok base \<and> list_all tos_char_ok ext"

lemma name83_no_dot: "name83 base ext \<Longrightarrow> CHR ''.'' \<notin> set base \<and> CHR ''.'' \<notin> set ext"
  using ok_no_dot(1) by (auto simp: name83_def list_all_iff)

lemma valid83_join: "name83 base ext \<Longrightarrow> valid83 (join83 base ext)"
  using name83_no_dot [of base ext] by (auto simp: valid83_def split_dot_join name83_def)

lemma valid83_parts:
  assumes "valid83 n"
  obtains base ext where "n = join83 base ext" "name83 base ext"
proof -
  obtain base dot where s: "split_dot n = (base, dot)" by fastforce
  let ?ext = "case dot of None \<Rightarrow> [] | Some e \<Rightarrow> e"
  have "name83 base ?ext" "dot \<noteq> None \<Longrightarrow> ?ext \<noteq> []"
    using assms s by (auto simp: valid83_def name83_def Let_def split: if_splits)
  moreover have "n = join83 base ?ext"
    using split_dot_parts(2) [OF s] calculation(2) by (auto simp: join83_def split: option.splits)
  ultimately show thesis using that by blast
qed

lemma upper_join: "upper (join83 base ext) = join83 (upper base) (upper ext)"
  by (simp add: join83_def upper_def toupper_def ascii_lower_def)

lemma name83_upper: "name83 base ext \<Longrightarrow> name83 (upper base) (upper ext)"
  by (auto simp: name83_def upper_def list_all_iff tos_char_ok_toupper)

lemma valid83_upper: "valid83 n \<Longrightarrow> valid83 (upper n)"
  by (metis name83_upper upper_join valid83_join valid83_parts)

text \<open>A name of the table survives truncation: what was listed can be typed back.\<close>

lemma trunc83_valid:
  assumes "valid83 n" "upper n = n"
  shows "trunc83 n = n"
proof -
  obtain base ext where n: "n = join83 base ext" and v: "name83 base ext" using assms(1) by (rule valid83_parts)
  have d: "CHR ''.'' \<notin> set base" "CHR ''.'' \<notin> set ext" using name83_no_dot [OF v] by auto
  have "n \<noteq> ''.''" "n \<noteq> ''..''"
    using v d by (auto simp: n join83_def name83_def append_eq_Cons_conv split: if_splits)
  moreover have "fst (split_dot ext) = ext"
    using d(2) by (simp add: split_dot_def Let_def takeWhile_no_dot)
  ultimately show ?thesis
    using v assms(2) split_dot_join [OF d] by (auto simp: trunc83_def n name83_def)
qed


section \<open>Mangled names\<close>

lemma digit_char: "d < 10 \<Longrightarrow> ascii_digit (char_of (48 + d :: nat))"
  by (simp add: ascii_digit_def)

lemma dec_digits: "list_all ascii_digit (dec n)"
proof (induction n rule: dec.induct)
  case (1 n)
  then show ?case by (subst dec.simps) (auto simp: digit_char)
qed

lemma dec_nonempty [simp]: "dec n \<noteq> []" "[] \<noteq> dec n"
  by (subst dec.simps, simp)+

lemma length_dec: "n < 10 ^ k \<Longrightarrow> 0 < k \<Longrightarrow> length (dec n) \<le> k"
proof (induction k arbitrary: n)
  case (Suc k)
  then show ?case
    by (cases "n < 10"; cases k) (subst dec.simps, fastforce)+
qed simp

lemma char_digit_inj: "a < 10 \<Longrightarrow> b < 10 \<Longrightarrow> (char_of (48 + a :: nat) :: char) = char_of (48 + b :: nat) \<longleftrightarrow> a = b"
  by (simp add: char_of_eq_iff take_bit_eq_mod)

lemma dec_inj: "dec n = dec m \<longleftrightarrow> n = m"
proof (induction n arbitrary: m rule: dec.induct)
  case (1 n)
  have "dec n = dec m \<Longrightarrow> n = m"
  proof -
    assume e: "dec n = dec m"
    consider "n < 10" "m < 10" | "n < 10" "\<not> m < 10" | "\<not> n < 10" "m < 10" | "\<not> n < 10" "\<not> m < 10" by linarith
    then show "n = m"
    proof cases
      case 1
      then show ?thesis using e by (simp add: dec.simps [of n] dec.simps [of m] char_digit_inj)
    next
      case 4
      then have "dec (n div 10) = dec (m div 10)" "n mod 10 = m mod 10"
        using e by (simp_all add: dec.simps [of n] dec.simps [of m] char_digit_inj)
      then have "n div 10 = m div 10" using 1 [OF 4(1)] by simp
      with \<open>n mod 10 = m mod 10\<close> show ?thesis by (metis mult_div_mod_eq)
    qed (use e in \<open>simp_all add: dec.simps [of n] dec.simps [of m]\<close>)
  qed
  then show ?case by blast
qed

lemma sanitize_ok: "list_all tos_char_ok (sanitize s)"
  by (auto simp: sanitize_def list_all_iff tos_char_ok_toupper)
     (simp add: tos_char_ok_def tos_specials_def)

lemma sanitize_upper: "map toupper (sanitize s) = sanitize s"
  by (auto simp: sanitize_def) (simp add: toupper_def ascii_lower_def)

lemma digit_ok: "ascii_digit c \<Longrightarrow> tos_char_ok c \<and> toupper c = c \<and> c \<noteq> CHR ''~''"
  by (auto simp: tos_char_ok_def isalnum_def toupper_def ascii_digit_def ascii_lower_def)

definition mangled_base :: "string \<Rightarrow> nat \<Rightarrow> string" where
  "mangled_base host n =
     (let s = sanitize (fst (split_last_dot host)); b = (if s = [] then ''_'' else s)
      in take (7 - length (dec n)) b @ ''~'' @ dec n)"

lemma mangle_join: "mangle host n = join83 (mangled_base host n) (take 3 (sanitize (snd (split_last_dot host))))"
  by (simp add: mangle_def mangled_base_def Let_def split: prod.splits)

lemma take_all_toupper: "map toupper xs = xs \<Longrightarrow> map toupper (take k xs) = take k xs"
  by (metis take_map)

lemma list_all_take: "list_all P xs \<Longrightarrow> list_all P (take k xs)"
  by (auto simp: list_all_iff dest: in_set_takeD)

lemma mangle_name83:
  assumes "n < 100000"
  shows "name83 (mangled_base host n) (take 3 (sanitize (snd (split_last_dot host))))"
proof -
  have l: "length (dec n) \<le> 5" using length_dec [of n 5] assms by simp
  have "list_all tos_char_ok (dec n)" using dec_digits [of n] digit_ok by (auto simp: list_all_iff)
  moreover have "tos_char_ok (CHR ''_'')" "tos_char_ok (CHR ''~'')" by (simp_all add: tos_char_ok_def tos_specials_def)
  ultimately show ?thesis
    using l sanitize_ok by (auto simp: name83_def mangled_base_def Let_def list_all_take)
qed

lemma mangle_valid83: "n < 100000 \<Longrightarrow> valid83 (mangle host n)"
  by (simp add: mangle_join mangle_name83 valid83_join)

lemma mangle_upper: "upper (mangle host n) = mangle host n"
proof -
  have "map toupper (dec n) = dec n"
    using dec_digits [of n] digit_ok by (auto simp: list_all_iff intro: map_idI)
  moreover have "map toupper ''_'' = ''_''" "toupper (CHR ''~'') = CHR ''~''"
    by (simp_all add: toupper_def ascii_lower_def)
  ultimately show ?thesis
    by (simp add: mangle_join upper_join)
       (auto simp: mangled_base_def Let_def upper_def sanitize_upper take_all_toupper)
qed

text \<open>The counter can be read off a mangled name: it is what follows the last tilde.\<close>

lemma mangled_base_suffix: "rev (takeWhile (\<lambda>c. c \<noteq> CHR ''~'') (rev (mangled_base host n))) = dec n"
proof -
  have "\<forall>c \<in> set (rev (dec n)). c \<noteq> CHR ''~''"
    using dec_digits [of n] digit_ok by (auto simp: list_all_iff)
  then have "takeWhile (\<lambda>c. c \<noteq> CHR ''~'') (rev (dec n) @ CHR ''~'' # zs) = rev (dec n)" for zs
    by (simp add: takeWhile_append)
  then show ?thesis by (simp add: mangled_base_def Let_def)
qed

lemma mangle_inj:
  assumes "n < 100000" "m < 100000" "mangle host n = mangle host m"
  shows "n = m"
proof -
  have "CHR ''.'' \<notin> set (mangled_base host n)" "CHR ''.'' \<notin> set (mangled_base host m)"
    "CHR ''.'' \<notin> set (take 3 (sanitize (snd (split_last_dot host))))"
    using name83_no_dot mangle_name83 assms by blast+
  then have "mangled_base host n = mangled_base host m"
    using assms(3) by (metis fst_conv mangle_join split_dot_join)
  then show ?thesis using mangled_base_suffix dec_inj by metis
qed

text \<open>Evaluation of the name functions on literals.\<close>

lemmas name_eval = less_eq_char_def less_char_def valid83_def split_dot_def upper_def toupper_def
  ascii_digit_def ascii_upper_def ascii_lower_def isalnum_def tos_char_ok_def tos_specials_def
  mangle_def split_last_dot_def sanitize_def join83_def dec.simps char_of_eq_iff

end
