(* ===== verification/Hostdos_Dir.thy ===== *)
theory Hostdos_Dir
  imports Hostdos_Names "HOL-Library.Multiset"
begin

text \<open>
  The table of TOS names of one host directory (\<open>map_dir\<close> of \<open>hostdos.cpp\<close>, after the directory
  has been read): a first pass keeps the valid names, a second one mangles the others.
\<close>

section \<open>The two passes\<close>

record ent =
  ent_tos :: string
  ent_host :: string

text \<open>The first pass returns the entries, the names it left (those with \<open>done[i]\<close> unset) and the
  names taken so far.\<close>

fun map_valid :: "string list \<Rightarrow> string list \<Rightarrow> ent list \<times> string list \<times> string list" where
  "map_valid [] taken = ([], [], taken)"
| "map_valid (n # ns) taken =
     (if \<not> valid83 n \<or> upper n \<in> set taken
      then (let (out, left, tk) = map_valid ns taken in (out, n # left, tk))
      else (let (out, left, tk) = map_valid ns (upper n # taken)
            in (\<lparr>ent_tos = upper n, ent_host = n\<rparr> # out, left, tk)))"

function mangle_free :: "string \<Rightarrow> nat \<Rightarrow> string list \<Rightarrow> string option" where
  "mangle_free host n taken =
     (if n < 100000
      then (let t = mangle host n in if t \<notin> set taken then Some t else mangle_free host (n + 1) taken)
      else None)"
  by pat_completeness auto
termination by (relation "measure (\<lambda>(h, n, t). 100000 - n)") auto

declare mangle_free.simps [simp del]

fun map_mangled :: "string list \<Rightarrow> string list \<Rightarrow> ent list" where
  "map_mangled [] taken = []"
| "map_mangled (h # hs) taken =
     (case mangle_free h 1 taken of
        None \<Rightarrow> map_mangled hs taken
      | Some t \<Rightarrow> \<lparr>ent_tos = t, ent_host = h\<rparr> # map_mangled hs (t # taken))"

definition dir_table :: "string list \<Rightarrow> ent list" where
  "dir_table names =
     (let (out, left, taken) = map_valid (sort names) []
      in sort_key ent_host (out @ map_mangled left taken))"

definition lookup_ent :: "ent list \<Rightarrow> string \<Rightarrow> ent option" where
  "lookup_ent m tos = find (\<lambda>e. ent_tos e = tos) m"

section \<open>A free number is always found\<close>

lemma mangle_free_some: "mangle_free host n taken = Some t \<Longrightarrow> \<exists>k. n \<le> k \<and> k < 100000 \<and> t = mangle host k \<and> t \<notin> set taken"
proof (induction host n taken rule: mangle_free.induct)
  case (1 host n taken)
  show ?case
  proof (cases "n < 100000 \<and> mangle host n \<in> set taken")
    case True
    then have "mangle_free host (n + 1) taken = Some t" using "1.prems" by (simp add: mangle_free.simps [of host n])
    then obtain k where "n + 1 \<le> k" "k < 100000" "t = mangle host k" "t \<notin> set taken"
      using "1.IH" [OF _ refl] True by blast
    then show ?thesis by (intro exI [of _ k]) simp
  next
    case False
    with "1.prems" show ?thesis by (auto simp: mangle_free.simps [of host n] split: if_splits)
  qed
qed

lemma mangle_free_none: "mangle_free host n taken = None \<Longrightarrow> \<forall>k \<in> {n..<100000}. mangle host k \<in> set taken"
proof (induction host n taken rule: mangle_free.induct)
  case (1 host n taken)
  show ?case
  proof (cases "n < 100000")
    case True
    then have m: "mangle host n \<in> set taken" "mangle_free host (n + 1) taken = None"
      using "1.prems" by (auto simp: mangle_free.simps [of host n] Let_def split: if_splits)
    then have "\<forall>k \<in> {n + 1..<100000}. mangle host k \<in> set taken" using "1.IH" [OF True refl] by simp
    moreover have "k = n \<or> k \<in> {n + 1..<100000}" if "k \<in> {n..<100000}" for k using that by auto
    ultimately show ?thesis using m by blast
  qed auto
qed

lemma mangle_free_exists:
  assumes "length taken < 99999"
  shows "\<exists>t. mangle_free host 1 taken = Some t"
proof (rule ccontr)
  assume "\<not> ?thesis"
  then have "mangle host ` {1..<100000} \<subseteq> set taken" using mangle_free_none [of host 1 taken] by fastforce
  then have "card (mangle host ` {1..<100000}) \<le> card (set taken)" by (rule card_mono [rotated]) simp
  moreover have "inj_on (mangle host) {1..<100000}" by (auto intro!: inj_onI mangle_inj)
  ultimately show False using card_length [of taken] assms by (simp add: card_image)
qed

section \<open>The table\<close>

lemma disjoint_image: "f ` A \<inter> B = {} \<Longrightarrow> x \<in> A \<Longrightarrow> f x \<notin> B"
  by blast

text \<open>What both passes keep: the names given out are valid, in upper case, pairwise different
  and different from the names taken before.\<close>

definition names_ok :: "ent list \<Rightarrow> string list \<Rightarrow> bool" where
  "names_ok out taken \<longleftrightarrow>
     distinct (map ent_tos out) \<and> set (map ent_tos out) \<inter> set taken = {} \<and>
     (\<forall>e \<in> set out. valid83 (ent_tos e) \<and> upper (ent_tos e) = ent_tos e)"

lemma map_valid_ok:
  "map_valid ns taken = (out, left, tk) \<Longrightarrow>
     names_ok out taken \<and> set tk = set (map ent_tos out) \<union> set taken \<and>
     mset ns = mset (map ent_host out) + mset left \<and> length tk = length taken + length out"
proof (induction ns taken arbitrary: out left tk rule: map_valid.induct)
  case (2 n ns taken)
  show ?case
  proof (cases "\<not> valid83 n \<or> upper n \<in> set taken")
    case True
    obtain o1 l1 t1 where m: "map_valid ns taken = (o1, l1, t1)" by (metis prod_cases3)
    then show ?thesis using "2.IH"(1) [OF True m] "2.prems" True by auto
  next
    case False
    obtain o1 l1 t1 where m: "map_valid ns (upper n # taken) = (o1, l1, t1)" by (metis prod_cases3)
    then show ?thesis
      using "2.IH"(2) [OF False m] "2.prems" False
      by (auto simp: names_ok_def valid83_upper dest: disjoint_image)
  qed
qed (simp add: names_ok_def)

lemma map_mangled_ok:
  "names_ok (map_mangled hs taken) taken \<and>
   (length taken + length hs \<le> 99999 \<longrightarrow> map ent_host (map_mangled hs taken) = hs)"
proof (induction hs taken rule: map_mangled.induct)
  case (2 h hs taken)
  show ?case
  proof (cases "mangle_free h 1 taken")
    case None
    then show ?thesis using 2 mangle_free_exists [of taken h] by (auto simp: linorder_not_less)
  next
    case (Some t)
    then obtain k where "k < 100000" "t = mangle h k" "t \<notin> set taken"
      using mangle_free_some by blast
    then show ?thesis
      using Some 2(2) [OF Some] by (auto simp: names_ok_def mangle_valid83 mangle_upper)
  qed
qed (simp add: names_ok_def)

lemma names_ok_append:
  "names_ok a t \<Longrightarrow> names_ok b u \<Longrightarrow> set u = set (map ent_tos a) \<union> set t \<Longrightarrow> names_ok (a @ b) t"
  by (auto simp: names_ok_def)

lemma mset_sort_key: "mset (sort_key f xs) = mset xs"
  by simp

lemma names_ok_mset: "mset a = mset b \<Longrightarrow> names_ok a t = names_ok b t"
  by (metis (no_types, lifting) distinct_count_atmost_1 mset_map names_ok_def set_map set_mset_mset)

lemma dir_table_ok:
  "names_ok (dir_table names) [] \<and>
   (length names \<le> 99999 \<longrightarrow> mset (map ent_host (dir_table names)) = mset names)"
proof -
  obtain out left tk where m: "map_valid (sort names) [] = (out, left, tk)" by (metis prod_cases3)
  note v = map_valid_ok [OF m] and w = map_mangled_ok [of left tk]
  have t: "mset (dir_table names) = mset (out @ map_mangled left tk)" by (simp add: dir_table_def m)
  have "length names = length out + length left" using v by (metis mset_sort size_mset size_union length_map)
  then have "length names \<le> 99999 \<Longrightarrow> map ent_host (map_mangled left tk) = left" using w v by simp
  then have "length names \<le> 99999 \<Longrightarrow> mset (map ent_host (dir_table names)) = mset names"
    using v by (metis map_append mset_append mset_map mset_sort t)
  moreover have "names_ok (out @ map_mangled left tk) []"
    using v w by (auto intro!: names_ok_append [of out "[]" _ tk])
  ultimately show ?thesis using names_ok_mset [OF t] by blast
qed

lemma lookup_ent_listed:
  "distinct (map ent_tos m) \<Longrightarrow> e \<in> set m \<Longrightarrow> lookup_ent m (ent_tos e) = Some e"
  by (induction m) (auto simp: lookup_ent_def)

lemma lookup_ent_some: "lookup_ent m tos = Some e \<Longrightarrow> e \<in> set m \<and> ent_tos e = tos"
  by (auto simp: lookup_ent_def find_Some_iff)

lemma sort_mset_eq: "mset xs = mset ys \<Longrightarrow> sort xs = sort ys"
  by (simp add: properties_for_sort)

lemma map_valid_keeps:
  assumes "map_valid ns taken = (out, left, tk)" "n \<in> set ns" "valid83 n"
    "\<forall>k \<in> set ns. upper k = upper n \<longrightarrow> k = n" "upper n \<notin> set taken"
  shows "\<lparr>ent_tos = upper n, ent_host = n\<rparr> \<in> set out"
  using assms
proof (induction ns taken arbitrary: out left tk rule: map_valid.induct)
  case (2 k ks taken)
  show ?case
  proof (cases "\<not> valid83 k \<or> upper k \<in> set taken")
    case True
    obtain o1 l1 t1 where m: "map_valid ks taken = (o1, l1, t1)" by (metis prod_cases3)
    have "k \<noteq> n" using True "2.prems" by auto
    then show ?thesis using "2.IH"(1) [OF True m] "2.prems" True m by auto
  next
    case False
    obtain o1 l1 t1 where m: "map_valid ks (upper k # taken) = (o1, l1, t1)" by (metis prod_cases3)
    show ?thesis
    proof (cases "k = n")
      case True
      then show ?thesis using "2.prems" False m by auto
    next
      case ne: False
      then have "n \<in> set ks" "upper n \<notin> set (upper k # taken)" using "2.prems" by auto
      then show ?thesis using "2.IH"(2) [OF False m] "2.prems" False m by auto
    qed
  qed
qed simp

text \<open>C33: The directory table is a naming. Whatever a directory holds, the TOS names given out are
  pairwise different, valid 8.3 names in upper case, and typing one back (after the truncation
  GEMDOS applies) finds the entry it was listed for; up to 99999 names every host file gets a name;
  a valid name no other file shares but for its case keeps it; and the table does not depend on
  the order in which the host lists the directory.\<close>
theorem dir_table_names:
  fixes names :: "string list"
  defines "t \<equiv> dir_table names"
  shows "distinct (map ent_tos t) \<and>
    (\<forall>e \<in> set t. valid83 (ent_tos e) \<and> upper (ent_tos e) = ent_tos e \<and>
       lookup_ent t (trunc83 (ent_tos e)) = Some e) \<and>
    (length names \<le> 99999 \<longrightarrow> mset (map ent_host t) = mset names) \<and>
    (\<forall>n \<in> set names. valid83 n \<and> (\<forall>k \<in> set names. upper k = upper n \<longrightarrow> k = n) \<longrightarrow>
       \<lparr>ent_tos = upper n, ent_host = n\<rparr> \<in> set t) \<and>
    (\<forall>names'. mset names' = mset names \<longrightarrow> dir_table names' = t)"
proof -
  have ok: "names_ok t []" and all: "length names \<le> 99999 \<longrightarrow> mset (map ent_host t) = mset names"
    using dir_table_ok by (auto simp: t_def)
  have keep: "\<lparr>ent_tos = upper n, ent_host = n\<rparr> \<in> set t"
    if "n \<in> set names" "valid83 n" "\<forall>k \<in> set names. upper k = upper n \<longrightarrow> k = n" for n
  proof -
    obtain out left tk where m: "map_valid (sort names) [] = (out, left, tk)" by (metis prod_cases3)
    then show ?thesis using map_valid_keeps [OF m, of n] that by (simp add: t_def dir_table_def)
  qed
  have "dir_table names' = t" if "mset names' = mset names" for names'
    using sort_mset_eq [OF that] by (simp add: t_def dir_table_def)
  then show ?thesis
    using ok all keep by (auto simp: names_ok_def lookup_ent_listed trunc83_valid)
qed

theorem dir_table_names_witness:
  "dir_table [''read me.txt'', ''a.b'', ''A.B''] =
     [\<lparr>ent_tos = ''A.B'', ent_host = ''A.B''\<rparr>, \<lparr>ent_tos = ''A~1.B'', ent_host = ''a.b''\<rparr>,
      \<lparr>ent_tos = ''README~1.TXT'', ent_host = ''read me.txt''\<rparr>] \<and>
   distinct (map ent_tos (dir_table [''read me.txt'', ''a.b'', ''A.B'']))"
proof
  show "distinct (map ent_tos (dir_table [''read me.txt'', ''a.b'', ''A.B'']))"
    by (rule dir_table_names [THEN conjunct1])
qed (simp add: dir_table_def name_eval mangle_free.simps)

text \<open>A file created under a name that is not a valid 8.3 name can never be found again under that
  name: new files get the typed name as it is (only cut to 8.3), while the table gives such host
  names a mangled one, so no directory has an entry for it.\<close>
theorem untabled_name_lost:
  assumes "\<not> valid83 leaf"
  shows "lookup_ent (dir_table names) leaf = None"
  using dir_table_ok [of names] assms by (auto simp: lookup_ent_def names_ok_def find_None_iff)

theorem untabled_name_lost_witness:
  "trunc83 ''a+b.txt'' = ''A+B.TXT'' \<and> \<not> valid83 ''A+B.TXT'' \<and>
   lookup_ent (dir_table [''A+B.TXT'']) (trunc83 ''a+b.txt'') = None"
proof -
  have v: "\<not> valid83 ''A+B.TXT''" and t: "trunc83 ''a+b.txt'' = ''A+B.TXT''"
    by (simp_all add: trunc83_def name_eval Let_def)
  show ?thesis using untabled_name_lost [OF v, of "[''A+B.TXT'']"] v unfolding t by blast
qed

end
