(* ===== verification/Hostdos_State.thy ===== *)
theory Hostdos_State
  imports Hostdos_Dir "HOL-Library.State_Monad" "HOL-Library.AList"
begin

text \<open>
  State and services of the HOSTDOS engine (\<open>hostdos.cpp\<close>): the static tables, guest memory through
  the \<open>hostdos_mem_t\<close> callbacks, the system calls it makes, the directory cache and the
  resolution of GEMDOS paths. The operating system is a parameter: a record of functions on a
  host state \<open>'w\<close>; the callbacks act on a guest memory state \<open>'m\<close>. Every system call is also noted in
  \<open>sys_log\<close> together with the drive table of that moment, and \<open>open_fds\<close> is, for each descriptor,
  how often the host has given it out less how often it was closed; neither is read by the model.
\<close>

section \<open>Constants\<close>

definition E_OK :: int where [c_const]: "E_OK = 0"
definition ERROR :: int where [c_const]: "ERROR = -1"
definition EWRPRO :: int where [c_const]: "EWRPRO = -13"
definition EFILNF :: int where [c_const]: "EFILNF = -33"
definition EPTHNF :: int where [c_const]: "EPTHNF = -34"
definition ENHNDL :: int where [c_const]: "ENHNDL = -35"
definition EACCDN :: int where [c_const]: "EACCDN = -36"
definition EIHNDL :: int where [c_const]: "EIHNDL = -37"
definition ENSMEM :: int where [c_const]: "ENSMEM = -39"
definition EDRIVE :: int where [c_const]: "EDRIVE = -46"
definition ENSAME :: int where [c_const]: "ENSAME = -48"
definition ENMFIL :: int where [c_const]: "ENMFIL = -49"
definition ERANGE_T :: int where [c_const]: "ERANGE_T = -64"
definition EPLFMT :: int where [c_const]: "EPLFMT = -66"

definition FA_RDONLY :: u16 where [c_const]: "FA_RDONLY = 1"
definition FA_LABEL :: u16 where [c_const]: "FA_LABEL = 8"
definition FA_DIR :: u16 where [c_const]: "FA_DIR = 0x10"

definition NDRIVES :: nat where [c_const]: "NDRIVES = 26"
definition MAX_SEARCHES :: nat where [c_const]: "MAX_SEARCHES = 32"
definition HOSTDOS_HANDLE_BASE :: int where [c_const]: "HOSTDOS_HANDLE_BASE = 64"
definition HOSTDOS_MAX_FILES :: nat where [c_const]: "HOSTDOS_MAX_FILES = 32"
definition HOSTDOS_DTA_MAGIC :: u32 where [c_const]: "HOSTDOS_DTA_MAGIC = 0x48444F53"
definition HOSTDOS_PASS :: u32 where [c_const]: "HOSTDOS_PASS = 0x80000000"
definition HOSTDOS_PEXEC :: u32 where [c_const]: "HOSTDOS_PEXEC = 0x80000001"
definition MAX_PRG_BYTES :: nat where [c_const]: "MAX_PRG_BYTES = 64 * 2 ^ 20"

section \<open>The operating system\<close>

datatype errno = ENOENT | ENOTDIR | EACCES | EPERM | EEXIST | ENOTEMPTY | EISDIR | EROFS
  | EMFILE | ENFILE | ENOMEM | EXDEV | EOTHER int

definition errno_tos :: "errno \<Rightarrow> int \<Rightarrow> int" where
  "errno_tos e dflt =
     (case e of ENOENT \<Rightarrow> dflt | ENOTDIR \<Rightarrow> EPTHNF
      | EACCES \<Rightarrow> EACCDN | EPERM \<Rightarrow> EACCDN | EEXIST \<Rightarrow> EACCDN | ENOTEMPTY \<Rightarrow> EACCDN | EISDIR \<Rightarrow> EACCDN
      | EROFS \<Rightarrow> EWRPRO | EMFILE \<Rightarrow> ENHNDL | ENFILE \<Rightarrow> ENHNDL | ENOMEM \<Rightarrow> ENSMEM | EXDEV \<Rightarrow> ENSAME
      | EOTHER _ \<Rightarrow> ERROR)"

text \<open>The fields of \<open>struct stat\<close>, \<open>struct tm\<close> and \<open>struct statvfs\<close> that are read.\<close>

record stat =
  st_mode :: u32
  st_size :: int
  st_mtime :: int
  st_mtim_nsec :: int

definition S_ISDIR :: "u32 \<Rightarrow> bool" where "S_ISDIR m \<longleftrightarrow> m AND 0xF000 = 0x4000"
definition S_ISREG :: "u32 \<Rightarrow> bool" where "S_ISREG m \<longleftrightarrow> m AND 0xF000 = 0x8000"

record tm =
  tm_sec :: int
  tm_min :: int
  tm_hour :: int
  tm_mday :: int
  tm_mon :: int
  tm_year :: int

record statvfs =
  f_blocks :: u64
  f_bavail :: u64
  f_frsize :: u64

datatype oflag = O_RDONLY | O_WRONLY | O_RDWR | O_RDWR_CREAT_TRUNC

datatype whence = SEEK_SET | SEEK_CUR

text \<open>System calls as they are noted; a call on a descriptor is noted with the path that is open
  behind it.\<close>

datatype syscall =
    Sys_stat string | Sys_readdir string | Sys_statvfs string | Sys_fopen_rb string
  | Sys_open string oflag | Sys_close int
  | Sys_read string | Sys_fstat string | Sys_lseek string
  | Sys_write string | Sys_futimens string | Sys_fchmod string
  | Sys_unlink string | Sys_mkdir string | Sys_rmdir string | Sys_rename string string | Sys_chmod string

record ('m, 'w) hostdos_env =
  mem_read :: "u32 \<Rightarrow> nat \<Rightarrow> 'm \<Rightarrow> u8 list \<times> 'm"
  mem_write :: "u32 \<Rightarrow> u8 list \<Rightarrow> 'm \<Rightarrow> 'm"
  px_stat :: "string \<Rightarrow> 'w \<Rightarrow> stat option \<times> 'w"
  px_readdir :: "string \<Rightarrow> 'w \<Rightarrow> string list option \<times> 'w"
  px_statvfs :: "string \<Rightarrow> 'w \<Rightarrow> statvfs option \<times> 'w"
  px_fread :: "string \<Rightarrow> 'w \<Rightarrow> (errno + u8 list) \<times> 'w"
  px_open :: "string \<Rightarrow> oflag \<Rightarrow> 'w \<Rightarrow> (errno + int) \<times> 'w"
  px_close :: "int \<Rightarrow> 'w \<Rightarrow> 'w"
  px_read :: "int \<Rightarrow> nat \<Rightarrow> 'w \<Rightarrow> (errno + u8 list) \<times> 'w"
  px_fstat :: "int \<Rightarrow> 'w \<Rightarrow> stat option \<times> 'w"
  px_lseek :: "int \<Rightarrow> int \<Rightarrow> whence \<Rightarrow> 'w \<Rightarrow> int \<times> 'w"
  px_write :: "int \<Rightarrow> u8 list \<Rightarrow> 'w \<Rightarrow> (errno + nat) \<times> 'w"
  px_futimens :: "int \<Rightarrow> int \<Rightarrow> 'w \<Rightarrow> errno option \<times> 'w"
  px_fchmod :: "int \<Rightarrow> u32 \<Rightarrow> 'w \<Rightarrow> 'w"
  px_unlink :: "string \<Rightarrow> 'w \<Rightarrow> errno option \<times> 'w"
  px_mkdir :: "string \<Rightarrow> 'w \<Rightarrow> errno option \<times> 'w"
  px_rmdir :: "string \<Rightarrow> 'w \<Rightarrow> errno option \<times> 'w"
  px_rename :: "string \<Rightarrow> string \<Rightarrow> 'w \<Rightarrow> errno option \<times> 'w"
  px_chmod :: "string \<Rightarrow> u32 \<Rightarrow> 'w \<Rightarrow> errno option \<times> 'w"
  px_localtime :: "int \<Rightarrow> tm"
  px_mktime :: "tm \<Rightarrow> int"

section \<open>The engine's state\<close>

record drive =
  drv_enabled :: bool
  drv_readonly :: bool
  drv_path :: string

record dmap =
  dm_mtime :: int
  dm_e :: "ent list"

record hfile =
  hf_used :: bool
  hf_fd :: int
  hf_drive :: int
  hf_canwrite :: bool
  hf_owner :: u32
  hf_path :: string

record hit =
  hit_name :: string
  hit_attr :: u16
  hit_time :: u16
  hit_date :: u16
  hit_size :: u32

record search =
  ss_id :: u32
  ss_hits :: "hit list"
  ss_pos :: nat

record pend =
  pend_valid :: bool
  pend_path :: string
  pend_tlen :: u32
  pend_dlen :: u32
  pend_blen :: u32
  pend_slen :: u32
  pend_flags :: u32
  pend_absflag :: u16

record ('m, 'w) hostdos =
  g_drives :: "drive list"
  g_mint :: bool
  g_dcache :: "(string \<times> dmap) list"
  g_cwd :: "string list list"
  g_files :: "hfile list"
  g_search :: "search list"
  g_next_search :: u32
  g_pend :: pend
  g_mem_set :: bool
  gmem :: 'm
  world :: 'w
  sys_log :: "(drive list \<times> syscall) list"
  open_fds :: "int \<Rightarrow> int"

type_synonym ('m, 'w, 'a) hd = "(('m, 'w) hostdos, 'a) state"

section \<open>Weakest preconditions\<close>

definition modify :: "('s \<Rightarrow> 's) \<Rightarrow> ('s, unit) state" where
  "modify f = State (\<lambda>s. ((), f s))"

definition gets :: "('s \<Rightarrow> 'a) \<Rightarrow> ('s, 'a) state" where
  "gets f = State (\<lambda>s. (f s, s))"

abbreviation return :: "'a \<Rightarrow> ('s, 'a) state" where
  "return \<equiv> State_Monad.return"

definition wp :: "('s, 'a) state \<Rightarrow> ('a \<Rightarrow> 's \<Rightarrow> bool) \<Rightarrow> 's \<Rightarrow> bool" where
  "wp m Q s = (case run_state m s of (r, s') \<Rightarrow> Q r s')"

lemma wp_return [simp]: "wp (return x) Q s = Q x s"
  by (simp add: wp_def)

lemma wp_return_fun: "wp (return x) Q = Q x"
  by (rule ext) simp

lemma wp_bind [simp]: "wp (State_Monad.bind m f) Q s = wp m (\<lambda>r. wp (f r) Q) s"
  by (simp add: wp_def split: prod.split)

lemma wp_bind_fun: "wp (State_Monad.bind m f) Q = wp m (\<lambda>r. wp (f r) Q)"
  by (rule ext) simp

lemma wp_modify [simp]: "wp (modify f) Q s = Q () (f s)"
  by (simp add: wp_def modify_def)

lemma wp_gets [simp]: "wp (gets f) Q s = Q (f s) s"
  by (simp add: wp_def gets_def)

lemma wp_if [simp]: "wp (if b then m else n) Q s = (if b then wp m Q s else wp n Q s)"
  by simp

lemma wp_option [simp]:
  "wp (case x of None \<Rightarrow> m | Some y \<Rightarrow> n y) Q s = (case x of None \<Rightarrow> wp m Q s | Some y \<Rightarrow> wp (n y) Q s)"
  by (simp split: option.split)

lemma wp_sum [simp]:
  "wp (case x of Inl e \<Rightarrow> m e | Inr y \<Rightarrow> n y) Q s = (case x of Inl e \<Rightarrow> wp (m e) Q s | Inr y \<Rightarrow> wp (n y) Q s)"
  by (simp split: sum.split)

lemma wp_prod [simp]: "wp (case x of (a, b) \<Rightarrow> m a b) Q s = (case x of (a, b) \<Rightarrow> wp (m a b) Q s)"
  by (simp split: prod.split)

lemma wp_mono: "wp m P s \<Longrightarrow> (\<And>r t. P r t \<Longrightarrow> Q r t) \<Longrightarrow> wp m Q s"
  by (auto simp: wp_def split: prod.splits)

lemma wp_run: "wp m Q s \<Longrightarrow> run_state m s = (r, t) \<Longrightarrow> Q r t"
  by (simp add: wp_def)

end
