(* ===== verification/Hostdos_Paths.thy ===== *)
theory Hostdos_Paths
  imports Hostdos_State
begin

text \<open>
  Guest memory, system calls, directory cache, path resolution and the handle table of
  \<open>hostdos.cpp\<close>.
\<close>

section \<open>Guest memory\<close>

definition g_read :: "('m, 'w) hostdos_env \<Rightarrow> u32 \<Rightarrow> nat \<Rightarrow> ('m, 'w, u8 list) hd" where
  "g_read env a n = State (\<lambda>s. let (b, m) = mem_read env a n (gmem s) in (b, s\<lparr>gmem := m\<rparr>))"

definition g_write :: "('m, 'w) hostdos_env \<Rightarrow> u32 \<Rightarrow> u8 list \<Rightarrow> ('m, 'w, unit) hd" where
  "g_write env a b = modify (\<lambda>s. s\<lparr>gmem := mem_write env a b (gmem s)\<rparr>)"

definition be_bytes :: "u8 list \<Rightarrow> 'a::len word" where
  "be_bytes bs = foldl (\<lambda>v b. push_bit 8 v OR ucast b) 0 bs"

definition be32 :: "u32 \<Rightarrow> u8 list" where
  "be32 v = [ucast (drop_bit 24 v), ucast (drop_bit 16 v), ucast (drop_bit 8 v), ucast v]"

definition be16 :: "u16 \<Rightarrow> u8 list" where
  "be16 v = [ucast (drop_bit 8 v), ucast v]"

definition rd32 :: "('m, 'w) hostdos_env \<Rightarrow> u32 \<Rightarrow> ('m, 'w, u32) hd" where
  "rd32 env a = do { b \<leftarrow> g_read env a 4; return (be_bytes b) }"

definition rd16 :: "('m, 'w) hostdos_env \<Rightarrow> u32 \<Rightarrow> ('m, 'w, u16) hd" where
  "rd16 env a = do { b \<leftarrow> g_read env a 2; return (be_bytes b) }"

definition wr32 :: "('m, 'w) hostdos_env \<Rightarrow> u32 \<Rightarrow> u32 \<Rightarrow> ('m, 'w, unit) hd" where
  "wr32 env a v = g_write env a (be32 v)"

definition wr16 :: "('m, 'w) hostdos_env \<Rightarrow> u32 \<Rightarrow> u16 \<Rightarrow> ('m, 'w, unit) hd" where
  "wr16 env a v = g_write env a (be16 v)"

fun rdstr_loop :: "('m, 'w) hostdos_env \<Rightarrow> nat \<Rightarrow> u32 \<Rightarrow> ('m, 'w, string) hd" where
  "rdstr_loop env 0 a = return []"
| "rdstr_loop env (Suc k) a = do {
     b \<leftarrow> g_read env a 1;
     if hd b = 0 then return []
     else do { r \<leftarrow> rdstr_loop env k (a + 1); return (char_of (unat (hd b)) # r) } }"

definition rdstr :: "('m, 'w) hostdos_env \<Rightarrow> u32 \<Rightarrow> ('m, 'w, string) hd" where
  "rdstr env a = (if a = 0 then return [] else rdstr_loop env 256 a)"

function wrzero :: "('m, 'w) hostdos_env \<Rightarrow> u32 \<Rightarrow> nat \<Rightarrow> ('m, 'w, unit) hd" where
  "wrzero env a n =
     (if n = 0 then return ()
      else (let k = min n 16384
            in do { g_write env a (replicate k 0); wrzero env (a + of_nat k) (n - k) }))"
  by pat_completeness auto
termination by (relation "measure (\<lambda>(e, a, n). n)") auto

declare wrzero.simps [simp del]

section \<open>System calls\<close>

definition sys :: "syscall \<Rightarrow> ('w \<Rightarrow> 'a \<times> 'w) \<Rightarrow> ('m, 'w, 'a) hd" where
  "sys c f = State (\<lambda>s. let (r, w) = f (world s)
                       in (r, s\<lparr>world := w, sys_log := sys_log s @ [(g_drives s, c)]\<rparr>))"

definition sys_stat :: "('m, 'w) hostdos_env \<Rightarrow> string \<Rightarrow> ('m, 'w, stat option) hd" where
  "sys_stat env p = sys (Sys_stat p) (px_stat env p)"

text \<open>\<open>open_fds\<close> counts up when \<open>open\<close> returns a descriptor and down with \<open>close\<close>.\<close>

definition sys_open :: "('m, 'w) hostdos_env \<Rightarrow> string \<Rightarrow> oflag \<Rightarrow> ('m, 'w, errno + int) hd" where
  "sys_open env p fl = do {
     r \<leftarrow> sys (Sys_open p fl) (px_open env p fl);
     case r of Inl e \<Rightarrow> return (Inl e)
     | Inr fd \<Rightarrow> do { modify (\<lambda>s. s\<lparr>open_fds := (open_fds s)(fd := open_fds s fd + 1)\<rparr>); return (Inr fd) } }"

definition sys_close :: "('m, 'w) hostdos_env \<Rightarrow> int \<Rightarrow> ('m, 'w, unit) hd" where
  "sys_close env fd = do {
     sys (Sys_close fd) (\<lambda>w. ((), px_close env fd w));
     modify (\<lambda>s. s\<lparr>open_fds := (open_fds s)(fd := open_fds s fd - 1)\<rparr>) }"

section \<open>Time\<close>

definition dos_time :: "('m, 'w) hostdos_env \<Rightarrow> int \<Rightarrow> u16" where
  "dos_time env t =
     (let m = px_localtime env t
      in word_of_int ((push_bit 11 (tm_hour m) OR push_bit 5 (tm_min m)) OR tm_sec m div 2))"

definition dos_date :: "('m, 'w) hostdos_env \<Rightarrow> int \<Rightarrow> u16" where
  "dos_date env t =
     (let m = px_localtime env t;
          y = tm_year m - 80;
          y = (if y < 0 then 0 else y);
          y = (if y > 127 then 127 else y)
      in word_of_int ((push_bit 9 y OR push_bit 5 (tm_mon m + 1)) OR tm_mday m))"

definition dos_tm :: "u16 \<Rightarrow> u16 \<Rightarrow> tm" where
  "dos_tm time date =
     \<lparr>tm_sec = uint (time AND 0x1F) * 2, tm_min = uint (drop_bit 5 time AND 0x3F),
      tm_hour = uint (drop_bit 11 time AND 0x1F), tm_mday = uint (date AND 0x1F),
      tm_mon = uint (drop_bit 5 date AND 0x0F) - 1, tm_year = uint (drop_bit 9 date AND 0x7F) + 80\<rparr>"

definition from_dos :: "('m, 'w) hostdos_env \<Rightarrow> u16 \<Rightarrow> u16 \<Rightarrow> int" where
  "from_dos env time date = px_mktime env (dos_tm time date)"

section \<open>Directory map\<close>

definition dcache_drop :: "('m, 'w, unit) hd" where
  "dcache_drop = modify (\<lambda>s. s\<lparr>g_dcache := []\<rparr>)"

definition mtime_ns :: "stat \<Rightarrow> int" where
  "mtime_ns st = st_mtime st * 1000000000 + st_mtim_nsec st"

text \<open>The loop over \<open>readdir\<close>: dot-files, dangling links and special files are left out.\<close>

fun dir_names :: "('m, 'w) hostdos_env \<Rightarrow> string \<Rightarrow> string list \<Rightarrow> ('m, 'w, string list) hd" where
  "dir_names env dir [] = return []"
| "dir_names env dir (n # ns) =
     (if take 1 n = ''.'' then dir_names env dir ns
      else do {
        st \<leftarrow> sys_stat env (dir @ ''/'' @ n);
        r \<leftarrow> dir_names env dir ns;
        return (case st of None \<Rightarrow> r
                | Some cs \<Rightarrow> if \<not> S_ISREG (st_mode cs) \<and> \<not> S_ISDIR (st_mode cs) then r else n # r) })"

definition dcache_put :: "string \<Rightarrow> dmap \<Rightarrow> ('m, 'w, unit) hd" where
  "dcache_put dir m =
     modify (\<lambda>s. s\<lparr>g_dcache := AList.update dir m (if length (g_dcache s) \<ge> 32 then [] else g_dcache s)\<rparr>)"

definition map_dir_read :: "('m, 'w) hostdos_env \<Rightarrow> string \<Rightarrow> stat \<Rightarrow> ('m, 'w, ent list option) hd" where
  "map_dir_read env dir st = do {
     d \<leftarrow> sys (Sys_readdir dir) (px_readdir env dir);
     case d of None \<Rightarrow> return None
     | Some l \<Rightarrow> do {
         names \<leftarrow> dir_names env dir l;
         let out = dir_table names;
         dcache_put dir \<lparr>dm_mtime = mtime_ns st, dm_e = out\<rparr>;
         return (Some out) } }"

definition map_dir :: "('m, 'w) hostdos_env \<Rightarrow> string \<Rightarrow> ('m, 'w, ent list option) hd" where
  "map_dir env dir = do {
     r \<leftarrow> sys_stat env dir;
     case r of None \<Rightarrow> return None
     | Some st \<Rightarrow>
         if \<not> S_ISDIR (st_mode st) then return None
         else do {
           it \<leftarrow> gets (\<lambda>s. map_of (g_dcache s) dir);
           case it of None \<Rightarrow> map_dir_read env dir st
           | Some m \<Rightarrow> if dm_mtime m = mtime_ns st then return (Some (dm_e m)) else map_dir_read env dir st } }"

definition lookup :: "('m, 'w) hostdos_env \<Rightarrow> string \<Rightarrow> string \<Rightarrow> ('m, 'w, ent option) hd" where
  "lookup env dir tos = do {
     m \<leftarrow> map_dir env dir;
     return (case m of None \<Rightarrow> None | Some m \<Rightarrow> lookup_ent m tos) }"

section \<open>Drives and paths\<close>

definition drive_table :: "('m, 'w, drive list) hd" where
  "drive_table = gets g_drives"

definition drive_ok :: "drive list \<Rightarrow> int \<Rightarrow> bool" where
  "drive_ok ds d \<longleftrightarrow>
     d \<ge> 0 \<and> d < int NDRIVES \<and> drv_enabled (ds ! nat d) \<and> drv_path (ds ! nat d) \<noteq> []"

definition drive_ro :: "drive list \<Rightarrow> int \<Rightarrow> bool" where
  "drive_ro ds d = drv_readonly (ds ! nat d)"

text \<open>\<open>while (r.size() > 1 && r.back() == '/') r.pop_back();\<close>\<close>

function strip_slashes :: "string \<Rightarrow> string" where
  "strip_slashes r = (if length r > 1 \<and> last r = CHR ''/'' then strip_slashes (butlast r) else r)"
  by pat_completeness auto
termination by (relation "measure length") auto

declare strip_slashes.simps [simp del]

definition root_of :: "drive list \<Rightarrow> int \<Rightarrow> string" where
  "root_of ds d = strip_slashes (drv_path (ds ! nat d))"

definition is_sep :: "char \<Rightarrow> bool" where
  "is_sep c \<longleftrightarrow> c = CHR 0x5C \<or> c = CHR ''/''"

function split_path :: "string \<Rightarrow> string list" where
  "split_path s =
     (let c = takeWhile (\<lambda>x. \<not> is_sep x) s
      in case drop (length c) s of [] \<Rightarrow> [c] | _ # r \<Rightarrow> c # split_path r)"
  by pat_completeness auto
termination
proof (relation "measure length")
  fix s c x r assume "c = takeWhile (\<lambda>x. \<not> is_sep x) s" "drop (length c) s = x # r"
  then have "length s - length c = Suc (length r)" by (metis length_Cons length_drop)
  then show "(r, s) \<in> measure length" by simp
qed simp

declare split_path.simps [simp del]

definition push_comp :: "string list \<Rightarrow> string \<Rightarrow> string list" where
  "push_comp c x =
     (if x = [] \<or> x = ''.'' then c
      else if x = ''..'' then (if c \<noteq> [] then butlast c else c)
      else c @ [trunc83 x])"

definition parse_path :: "string list \<Rightarrow> string \<Rightarrow> string list" where
  "parse_path cwd gem =
     (let s = (if length gem \<ge> 2 \<and> gem ! 1 = CHR '':'' then drop 2 gem else gem);
          c = (if s = [] \<or> \<not> is_sep (s ! 0) then cwd else [])
      in foldl push_comp c (split_path s))"

definition parse :: "int \<Rightarrow> string \<Rightarrow> ('m, 'w, string list) hd" where
  "parse d gem = gets (\<lambda>s. parse_path (g_cwd s ! nat d) gem)"

fun walk_from :: "('m, 'w) hostdos_env \<Rightarrow> string \<Rightarrow> string list \<Rightarrow> ('m, 'w, int + string) hd" where
  "walk_from env h [] = return (Inr h)"
| "walk_from env h (c # cs) = do {
     r \<leftarrow> lookup env h c;
     case r of None \<Rightarrow> return (Inl EPTHNF)
     | Some e \<Rightarrow> do {
         let h' = h @ ''/'' @ ent_host e;
         r \<leftarrow> sys_stat env h';
         case r of None \<Rightarrow> return (Inl EPTHNF)
         | Some st \<Rightarrow> if \<not> S_ISDIR (st_mode st) then return (Inl EPTHNF) else walk_from env h' cs } }"

definition walk :: "('m, 'w) hostdos_env \<Rightarrow> int \<Rightarrow> string list \<Rightarrow> nat \<Rightarrow> ('m, 'w, int + string) hd" where
  "walk env d c n = do { ds \<leftarrow> drive_table; walk_from env (root_of ds d) (take n c) }"

definition resolve_comps :: "('m, 'w) hostdos_env \<Rightarrow> int \<Rightarrow> string list \<Rightarrow> ('m, 'w, int + string \<times> stat) hd" where
  "resolve_comps env d c =
     (if c = [] then do {
        ds \<leftarrow> drive_table;
        st \<leftarrow> sys_stat env (root_of ds d);
        return (case st of None \<Rightarrow> Inl EPTHNF | Some st \<Rightarrow> Inr (root_of ds d, st)) }
      else do {
        dir \<leftarrow> walk env d c (length c - 1);
        case dir of Inl err \<Rightarrow> return (Inl err)
        | Inr dir \<Rightarrow> do {
            r \<leftarrow> lookup env dir (last c);
            case r of None \<Rightarrow> return (Inl EFILNF)
            | Some e \<Rightarrow> do {
                let host = dir @ ''/'' @ ent_host e;
                st \<leftarrow> sys_stat env host;
                return (case st of None \<Rightarrow> Inl EFILNF | Some st \<Rightarrow> Inr (host, st)) } } })"

definition resolve :: "('m, 'w) hostdos_env \<Rightarrow> int \<Rightarrow> string \<Rightarrow> ('m, 'w, int + string \<times> stat) hd" where
  "resolve env d gem = do { c \<leftarrow> parse d gem; resolve_comps env d c }"

text \<open>The result of \<open>resolve_new\<close>: parent folder, leaf, and the path of a same-named entry.\<close>

definition resolve_new :: "('m, 'w) hostdos_env \<Rightarrow> int \<Rightarrow> string
    \<Rightarrow> ('m, 'w, int + string \<times> string \<times> string option) hd" where
  "resolve_new env d gem = do {
     c \<leftarrow> parse d gem;
     if c = [] then return (Inl EACCDN)
     else do {
       dir \<leftarrow> walk env d c (length c - 1);
       case dir of Inl err \<Rightarrow> return (Inl err)
       | Inr dir \<Rightarrow>
           (let leaf = last c in
            if leaf = ''.'' \<or> leaf = ''..'' \<or> has_wild leaf then return (Inl EACCDN)
            else do {
              e \<leftarrow> lookup env dir leaf;
              return (Inr (dir, leaf, map_option (\<lambda>e. dir @ ''/'' @ ent_host e) e)) }) } }"

definition is_ro :: "stat \<Rightarrow> bool" where
  "is_ro st \<longleftrightarrow> \<not> S_ISDIR (st_mode st) \<and> st_mode st AND 0x92 = 0"

section \<open>Handles\<close>

definition file_of :: "int \<Rightarrow> hfile list \<Rightarrow> nat option" where
  "file_of h fs =
     (let i = h - HOSTDOS_HANDLE_BASE in
      if i < 0 \<or> i \<ge> int HOSTDOS_MAX_FILES \<or> \<not> hf_used (fs ! nat i) then None else Some (nat i))"

fun free_slot :: "hfile list \<Rightarrow> nat option" where
  "free_slot [] = None"
| "free_slot (f # fs) = (if \<not> hf_used f then Some 0 else map_option Suc (free_slot fs))"

definition file_new :: "('m, 'w) hostdos_env \<Rightarrow> int \<Rightarrow> int \<Rightarrow> bool \<Rightarrow> u32 \<Rightarrow> string \<Rightarrow> ('m, 'w, int) hd" where
  "file_new env fd d w owner path = do {
     i \<leftarrow> gets (\<lambda>s. free_slot (g_files s));
     case i of
       Some i \<Rightarrow> do {
         modify (\<lambda>s. s\<lparr>g_files := (g_files s)[i := \<lparr>hf_used = True, hf_fd = fd, hf_drive = d,
                                                hf_canwrite = w, hf_owner = owner, hf_path = path\<rparr>]\<rparr>);
         return (HOSTDOS_HANDLE_BASE + int i) }
     | None \<Rightarrow> do { sys_close env fd; return ENHNDL } }"

definition file_close :: "('m, 'w) hostdos_env \<Rightarrow> nat \<Rightarrow> ('m, 'w, unit) hd" where
  "file_close env i = do {
     f \<leftarrow> gets (\<lambda>s. g_files s ! i);
     (if hf_used f \<and> hf_fd f \<ge> 0 then sys_close env (hf_fd f) else return ());
     modify (\<lambda>s. s\<lparr>g_files := (g_files s)[i := f\<lparr>hf_used := False, hf_fd := -1, hf_path := []\<rparr>]\<rparr>) }"

fun files_close :: "('m, 'w) hostdos_env \<Rightarrow> (hfile \<Rightarrow> bool) \<Rightarrow> nat list \<Rightarrow> ('m, 'w, unit) hd" where
  "files_close env P [] = return ()"
| "files_close env P (i # is) = do {
     f \<leftarrow> gets (\<lambda>s. g_files s ! i);
     (if P f then file_close env i else return ());
     files_close env P is }"

definition reset_all :: "('m, 'w) hostdos_env \<Rightarrow> ('m, 'w, unit) hd" where
  "reset_all env = do {
     files_close env (\<lambda>f. True) [0..<HOSTDOS_MAX_FILES];
     modify (\<lambda>s. s\<lparr>g_search := map (\<lambda>x. x\<lparr>ss_id := 0, ss_hits := []\<rparr>) (g_search s),
                   g_cwd := map (\<lambda>c. []) (g_cwd s),
                   g_pend := (g_pend s)\<lparr>pend_valid := False\<rparr>\<rparr>);
     dcache_drop }"

end
