(* ===== verification/Hostdos_Calls.thy ===== *)
theory Hostdos_Calls
  imports Hostdos_Paths
begin

text \<open>
  The GEMDOS calls of the HOSTDOS engine and its entry points (\<open>hostdos.cpp\<close>). Results are the
  \<open>int32_t\<close> of the source as integers; \<open>hostdos_call\<close> returns them as 32 bit words.
\<close>

section \<open>Directory searches\<close>

definition make_hit :: "('m, 'w) hostdos_env \<Rightarrow> string \<Rightarrow> stat \<Rightarrow> hit" where
  "make_hit env name st =
     \<lparr>hit_name = name,
      hit_attr = (let a = (if S_ISDIR (st_mode st) then FA_DIR else 0) in if is_ro st then a OR FA_RDONLY else a),
      hit_time = dos_time env (st_mtime st),
      hit_date = dos_date env (st_mtime st),
      hit_size = (if S_ISDIR (st_mode st) then 0
                  else if st_size st > 0x7FFFFFFF then 0x7FFFFFFF else word_of_int (st_size st))\<rparr>"

definition bytes_of :: "string \<Rightarrow> u8 list" where
  "bytes_of s = map (\<lambda>c. word_of_nat (of_char c)) s"

text \<open>\<open>strncpy(b + 30, name, 13)\<close> pads with zeros; byte 43 stays zero.\<close>

definition strncpy :: "string \<Rightarrow> nat \<Rightarrow> u8 list" where
  "strncpy name n = take n (bytes_of name @ replicate n 0)"

definition dta_bytes :: "u32 \<Rightarrow> hit \<Rightarrow> u8 list" where
  "dta_bytes sid h =
     be32 HOSTDOS_DTA_MAGIC @ be32 sid @ replicate 13 0 @ [ucast (hit_attr h)] @
     be16 (hit_time h) @ be16 (hit_date h) @ be32 (hit_size h) @ strncpy (hit_name h) 13 @ [0]"

definition dta_fill :: "('m, 'w) hostdos_env \<Rightarrow> u32 \<Rightarrow> u32 \<Rightarrow> hit \<Rightarrow> ('m, 'w, unit) hd" where
  "dta_fill env dta sid h = g_write env dta (dta_bytes sid h)"

text \<open>A free slot, else the oldest: the loop with its best slot so far and that slot's id.\<close>

fun pick_slot :: "search list \<Rightarrow> nat \<Rightarrow> nat \<Rightarrow> u32 \<Rightarrow> nat" where
  "pick_slot [] i best bid = best"
| "pick_slot (x # xs) i best bid =
     (if ss_id x = 0 then i
      else if ss_id x < bid then pick_slot xs (i + 1) i (ss_id x)
      else pick_slot xs (i + 1) best bid)"

fun search_hits :: "('m, 'w) hostdos_env \<Rightarrow> string \<Rightarrow> string \<Rightarrow> u16 \<Rightarrow> ent list \<Rightarrow> ('m, 'w, hit list) hd" where
  "search_hits env dir pat attr [] = return []"
| "search_hits env dir pat attr (e # es) =
     (if \<not> match83 pat (ent_tos e) then search_hits env dir pat attr es
      else do {
        r \<leftarrow> sys_stat env (dir @ ''/'' @ ent_host e);
        case r of None \<Rightarrow> search_hits env dir pat attr es
        | Some st \<Rightarrow>
            if S_ISDIR (st_mode st) \<and> attr AND FA_DIR = 0 then search_hits env dir pat attr es
            else do { hs \<leftarrow> search_hits env dir pat attr es; return (make_hit env (ent_tos e) st # hs) } })"

definition dot_hits :: "('m, 'w) hostdos_env \<Rightarrow> string \<Rightarrow> string \<Rightarrow> bool \<Rightarrow> ('m, 'w, hit list) hd" where
  "dot_hits env dir pat sub =
     (if sub then do {
        r \<leftarrow> sys_stat env dir;
        return (case r of None \<Rightarrow> []
                | Some st \<Rightarrow> (if match83 pat ''.'' then [make_hit env ''.'' st] else []) @
                            (if match83 pat ''..'' then [make_hit env ''..'' st] else [])) }
      else return [])"

definition put_search :: "nat \<Rightarrow> search \<Rightarrow> ('m, 'w, unit) hd" where
  "put_search i x = modify (\<lambda>s. s\<lparr>g_search := (g_search s)[i := x]\<rparr>)"

definition do_fsfirst :: "('m, 'w) hostdos_env \<Rightarrow> int \<Rightarrow> u32 \<Rightarrow> u32 \<Rightarrow> ('m, 'w, int) hd" where
  "do_fsfirst env d a dta = do {
     sp \<leftarrow> rd32 env (a + 2);
     spec \<leftarrow> rdstr env sp;
     attr \<leftarrow> rd16 env (a + 6);
     if dta = 0 then return EFILNF
     else if attr AND 0xFF = FA_LABEL then return EFILNF
     else do {
       c \<leftarrow> parse d spec;
       if c = [] then return EFILNF
       else do {
         r \<leftarrow> walk env d c (length c - 1);
         case r of Inl err \<Rightarrow> return err
         | Inr dir \<Rightarrow> do {
             i \<leftarrow> gets (\<lambda>s. pick_slot (g_search s) 0 0 (ss_id (g_search s ! 0)));
             x \<leftarrow> gets (\<lambda>s. g_search s ! i);
             put_search i (x\<lparr>ss_hits := [], ss_pos := 0\<rparr>);
             dots \<leftarrow> dot_hits env dir (last c) (length c > 1 \<and> attr AND FA_DIR \<noteq> 0);
             m \<leftarrow> map_dir env dir;
             hs \<leftarrow> (case m of None \<Rightarrow> return [] | Some m \<Rightarrow> search_hits env dir (last c) attr m);
             let hits = dots @ hs;
             if hits = [] then do {
               put_search i (x\<lparr>ss_id := 0, ss_hits := [], ss_pos := 0\<rparr>);
               return EFILNF }
             else do {
               sid \<leftarrow> gets g_next_search;
               modify (\<lambda>s. s\<lparr>g_next_search := (if sid + 1 = 0 then 1 else sid + 1)\<rparr>);
               dta_fill env dta sid (hd hits);
               put_search i \<lparr>ss_id = sid, ss_hits = hits, ss_pos = 1\<rparr>;
               return 0 } } } } }"

fun find_search :: "u32 \<Rightarrow> search list \<Rightarrow> nat option" where
  "find_search sid [] = None"
| "find_search sid (x # xs) = (if ss_id x \<noteq> sid \<or> sid = 0 then map_option Suc (find_search sid xs) else Some 0)"

definition do_fsnext :: "('m, 'w) hostdos_env \<Rightarrow> u32 \<Rightarrow> ('m, 'w, int) hd" where
  "do_fsnext env dta =
     (if dta = 0 then return ENMFIL
      else do {
        magic \<leftarrow> rd32 env dta;
        if magic \<noteq> HOSTDOS_DTA_MAGIC then return ENMFIL
        else do {
          sid \<leftarrow> rd32 env (dta + 4);
          r \<leftarrow> gets (\<lambda>s. find_search sid (g_search s));
          case r of None \<Rightarrow> return ENMFIL
          | Some i \<Rightarrow> do {
              x \<leftarrow> gets (\<lambda>s. g_search s ! i);
              if ss_pos x \<ge> length (ss_hits x) then do {
                put_search i (x\<lparr>ss_id := 0, ss_hits := []\<rparr>);
                return ENMFIL }
              else do {
                put_search i (x\<lparr>ss_pos := ss_pos x + 1\<rparr>);
                dta_fill env dta sid (ss_hits x ! ss_pos x);
                return 0 } } } })"

section \<open>Files\<close>

definition do_fopen :: "('m, 'w) hostdos_env \<Rightarrow> int \<Rightarrow> u32 \<Rightarrow> u32 \<Rightarrow> ('m, 'w, int) hd" where
  "do_fopen env d a bp = do {
     np \<leftarrow> rd32 env (a + 2);
     name \<leftarrow> rdstr env np;
     md \<leftarrow> rd16 env (a + 6);
     let mode = md AND 3;
     r \<leftarrow> resolve env d name;
     case r of Inl err \<Rightarrow> return err
     | Inr hst \<Rightarrow> do {
         ds \<leftarrow> drive_table;
         if S_ISDIR (st_mode (snd hst)) then return EFILNF
         else if mode \<noteq> 0 \<and> drive_ro ds d then return EWRPRO
         else do {
           fdr \<leftarrow> sys_open env (fst hst) (if mode = 0 then O_RDONLY else if mode = 1 then O_WRONLY else O_RDWR);
           case fdr of Inl e \<Rightarrow> return (errno_tos e EFILNF)
           | Inr fd \<Rightarrow> file_new env fd d (mode \<noteq> 0) bp (fst hst) } } }"

text \<open>The end of \<open>do_fcreate\<close>, once the file is open.\<close>

definition fcreate_finish :: "('m, 'w) hostdos_env \<Rightarrow> u16 \<Rightarrow> int \<Rightarrow> int \<Rightarrow> u32 \<Rightarrow> string \<Rightarrow> ('m, 'w, int) hd" where
  "fcreate_finish env attr fd d bp host = do {
     (if attr AND FA_RDONLY \<noteq> 0
      then sys (Sys_fchmod host) (\<lambda>w. ((), px_fchmod env fd 0x124 w)) else return ());
     dcache_drop;
     file_new env fd d True bp host }"

definition do_fcreate :: "('m, 'w) hostdos_env \<Rightarrow> int \<Rightarrow> u32 \<Rightarrow> u32 \<Rightarrow> ('m, 'w, int) hd" where
  "do_fcreate env d a bp = do {
     np \<leftarrow> rd32 env (a + 2);
     name \<leftarrow> rdstr env np;
     attr \<leftarrow> rd16 env (a + 6);
     ds \<leftarrow> drive_table;
     if attr AND (FA_LABEL OR FA_DIR) \<noteq> 0 then return EACCDN
     else if drive_ro ds d then return EWRPRO
     else do {
       r \<leftarrow> resolve_new env d name;
       case r of Inl err \<Rightarrow> return err
       | Inr (dir, leaf, exist) \<Rightarrow> do {
           let host = (case exist of None \<Rightarrow> dir @ ''/'' @ leaf | Some h \<Rightarrow> h);
           busy \<leftarrow> (if exist = None then return False
                   else do { st \<leftarrow> sys_stat env host;
                             return (case st of None \<Rightarrow> False | Some st \<Rightarrow> S_ISDIR (st_mode st) \<or> is_ro st) });
           if busy then return EACCDN
           else do {
             fdr \<leftarrow> sys_open env host O_RDWR_CREAT_TRUNC;
             case fdr of Inl e \<Rightarrow> return (errno_tos e EPTHNF)
             | Inr fd \<Rightarrow> fcreate_finish env attr fd d bp host } } } }"

text \<open>\<open>file_of((int16_t)rd16(a))\<close>: the slot and what it holds.\<close>

definition rd_handle :: "('m, 'w) hostdos_env \<Rightarrow> u32 \<Rightarrow> ('m, 'w, (nat \<times> hfile) option) hd" where
  "rd_handle env a = do {
     h \<leftarrow> rd16 env a;
     gets (\<lambda>s. map_option (\<lambda>i. (i, g_files s ! i)) (file_of (sint h) (g_files s))) }"

definition do_fclose :: "('m, 'w) hostdos_env \<Rightarrow> u32 \<Rightarrow> ('m, 'w, int) hd" where
  "do_fclose env a = do {
     f \<leftarrow> rd_handle env (a + 2);
     case f of None \<Rightarrow> return EIHNDL
     | Some (i, _) \<Rightarrow> do { file_close env i; return 0 } }"

text \<open>One round of a transfer loop advances by the length of its chunk and does not wrap.\<close>

lemma chunk_progress:
  fixes tot cnt :: u32
  assumes "tot < cnt" "k \<le> unat cnt - unat tot"
  shows "unat (tot + of_nat k) = unat tot + k"
proof -
  have "unat cnt < 2 ^ 32" using unsigned_less [of cnt] by simp
  moreover have "unat tot < unat cnt" using assms(1) by (simp add: word_less_nat_alt)
  ultimately have "unat tot + k < 2 ^ 32" using assms(2) by linarith
  moreover from this have "unat (of_nat k :: u32) = k" by (simp add: unat_of_nat)
  ultimately show ?thesis by (simp add: unat_add_small)
qed

lemma chunk_want:
  fixes tot cnt :: u32
  assumes "tot < cnt"
  shows "unat (if cnt - tot > 65536 then 65536 else cnt - tot) = min 65536 (unat cnt - unat tot)"
  using assms by (auto simp: unat_sub word_less_nat_alt word_le_nat_alt)

text \<open>\<open>read\<close> returns at most what it was asked for.\<close>

function fread_loop :: "('m, 'w) hostdos_env \<Rightarrow> hfile \<Rightarrow> u32 \<Rightarrow> u32 \<Rightarrow> u32
    \<Rightarrow> ('m, 'w) hostdos \<Rightarrow> int \<times> ('m, 'w) hostdos" where
  "fread_loop env f buf cnt tot s =
     (if tot < cnt then
        (let want = (if cnt - tot > 65536 then 65536 else cnt - tot);
             (r, s1) = run_state (sys (Sys_read (hf_path f)) (px_read env (hf_fd f) (unat want))) s
         in case r of
              Inl e \<Rightarrow> (if tot \<noteq> 0 then sint tot else ERROR, s1)
            | Inr b \<Rightarrow>
                (let got = take (unat want) b in
                 if got = [] then (sint tot, s1)
                 else fread_loop env f buf cnt (tot + of_nat (length got))
                        (s1\<lparr>gmem := mem_write env (buf + tot) got (gmem s1)\<rparr>)))
      else (sint tot, s))"
  by pat_completeness auto
termination
proof (relation "measure (\<lambda>(env, f, buf, cnt, tot, s). unat cnt - unat tot)", goal_cases)
  case (2 env f buf cnt tot s want x r s1 b got)
  have "unat want \<le> unat cnt - unat tot" using chunk_want 2(1,2) by simp
  moreover have l: "0 < length got" "length got \<le> unat want" using 2 by auto
  ultimately have "length got \<le> unat cnt - unat tot" by simp
  from chunk_progress [OF 2(1) this] show ?case using l(1) 2(1)
    by (simp add: word_less_nat_alt del: length_greater_0_conv)
qed simp

declare fread_loop.simps [simp del]

definition do_fread :: "('m, 'w) hostdos_env \<Rightarrow> u32 \<Rightarrow> ('m, 'w, int) hd" where
  "do_fread env a = do {
     f \<leftarrow> rd_handle env (a + 2);
     cnt \<leftarrow> rd32 env (a + 4);
     buf \<leftarrow> rd32 env (a + 8);
     case f of None \<Rightarrow> return EIHNDL
     | Some (_, x) \<Rightarrow> State (fread_loop env x buf cnt 0) }"

text \<open>\<open>write\<close> takes at most what it is given.\<close>

function fwrite_loop :: "('m, 'w) hostdos_env \<Rightarrow> hfile \<Rightarrow> u32 \<Rightarrow> u32 \<Rightarrow> u32
    \<Rightarrow> ('m, 'w) hostdos \<Rightarrow> int \<times> ('m, 'w) hostdos" where
  "fwrite_loop env f buf cnt tot s =
     (if tot < cnt then
        (let want = (if cnt - tot > 65536 then 65536 else cnt - tot);
             (chunk, s1) = run_state (g_read env (buf + tot) (unat want)) s;
             (r, s2) = run_state (sys (Sys_write (hf_path f)) (px_write env (hf_fd f) chunk)) s1
         in case r of
              Inl e \<Rightarrow> (if tot \<noteq> 0 then sint tot else errno_tos e EACCDN, s2)
            | Inr put \<Rightarrow>
                if put < unat want then (sint (tot + of_nat put), s2)
                else fwrite_loop env f buf cnt (tot + want) s2)
      else (sint tot, s))"
  by pat_completeness auto
termination
proof (relation "measure (\<lambda>(env, f, buf, cnt, tot, s). unat cnt - unat tot)", goal_cases)
  case (2 env f buf cnt tot s want)
  have "unat want \<le> unat cnt - unat tot" "0 < unat want"
    using chunk_want 2(1,2) by (simp_all add: word_less_nat_alt)
  then show ?case using chunk_progress [OF 2(1), of "unat want"] 2(1) by (simp add: word_less_nat_alt)
qed simp

declare fwrite_loop.simps [simp del]

definition do_fwrite :: "('m, 'w) hostdos_env \<Rightarrow> u32 \<Rightarrow> ('m, 'w, int) hd" where
  "do_fwrite env a = do {
     f \<leftarrow> rd_handle env (a + 2);
     cnt \<leftarrow> rd32 env (a + 4);
     buf \<leftarrow> rd32 env (a + 8);
     case f of None \<Rightarrow> return EIHNDL
     | Some (_, x) \<Rightarrow>
         if \<not> hf_canwrite x then return EACCDN else State (fwrite_loop env x buf cnt 0) }"

text \<open>The cast \<open>(int32_t)pos\<close>.\<close>

definition int32 :: "int \<Rightarrow> int" where
  "int32 x = sint (word_of_int x :: u32)"

definition do_fseek :: "('m, 'w) hostdos_env \<Rightarrow> u32 \<Rightarrow> ('m, 'w, int) hd" where
  "do_fseek env a = do {
     off \<leftarrow> rd32 env (a + 2);
     f \<leftarrow> rd_handle env (a + 6);
     mode \<leftarrow> rd16 env (a + 8);
     case f of None \<Rightarrow> return EIHNDL
     | Some (_, x) \<Rightarrow> do {
         r \<leftarrow> sys (Sys_fstat (hf_path x)) (px_fstat env (hf_fd x));
         case r of None \<Rightarrow> return ERROR
         | Some st \<Rightarrow> do {
             cur \<leftarrow> sys (Sys_lseek (hf_path x)) (px_lseek env (hf_fd x) 0 SEEK_CUR);
             let base = (if mode = 0 then 0 else if mode = 1 then cur else if mode = 2 then st_size st else -1);
             if base < 0 then return ERROR
             else (let pos = base + sint off in
               if pos < 0 \<or> pos > st_size st then return ERANGE_T
               else do {
                 l \<leftarrow> sys (Sys_lseek (hf_path x)) (px_lseek env (hf_fd x) pos SEEK_SET);
                 return (if l < 0 then ERROR else int32 pos) }) } } }"

definition do_fdatime :: "('m, 'w) hostdos_env \<Rightarrow> u32 \<Rightarrow> ('m, 'w, int) hd" where
  "do_fdatime env a = do {
     tp \<leftarrow> rd32 env (a + 2);
     f \<leftarrow> rd_handle env (a + 6);
     wflag \<leftarrow> rd16 env (a + 8);
     case f of None \<Rightarrow> return EIHNDL
     | Some (_, x) \<Rightarrow> do {
         ds \<leftarrow> drive_table;
         if wflag \<noteq> 0 then
           if drive_ro ds (hf_drive x) then return EWRPRO
           else do {
             time \<leftarrow> rd16 env tp;
             date \<leftarrow> rd16 env (tp + 2);
             e \<leftarrow> sys (Sys_futimens (hf_path x)) (px_futimens env (hf_fd x) (from_dos env time date));
             return (case e of None \<Rightarrow> 0 | Some e \<Rightarrow> errno_tos e EACCDN) }
         else do {
           r \<leftarrow> sys (Sys_fstat (hf_path x)) (px_fstat env (hf_fd x));
           case r of None \<Rightarrow> return ERROR
           | Some st \<Rightarrow> do {
               wr16 env tp (dos_time env (st_mtime st));
               wr16 env (tp + 2) (dos_date env (st_mtime st));
               return 0 } } } }"

section \<open>Directories\<close>

definition do_fdelete :: "('m, 'w) hostdos_env \<Rightarrow> int \<Rightarrow> u32 \<Rightarrow> ('m, 'w, int) hd" where
  "do_fdelete env d a = do {
     np \<leftarrow> rd32 env (a + 2);
     name \<leftarrow> rdstr env np;
     r \<leftarrow> resolve env d name;
     case r of Inl err \<Rightarrow> return err
     | Inr hst \<Rightarrow> do {
         ds \<leftarrow> drive_table;
         if S_ISDIR (st_mode (snd hst)) then return EFILNF
         else if drive_ro ds d then return EWRPRO
         else if is_ro (snd hst) then return EACCDN
         else do {
           e \<leftarrow> sys (Sys_unlink (fst hst)) (px_unlink env (fst hst));
           case e of Some e \<Rightarrow> return (errno_tos e EFILNF)
           | None \<Rightarrow> do { dcache_drop; return 0 } } } }"

definition do_dcreate :: "('m, 'w) hostdos_env \<Rightarrow> int \<Rightarrow> u32 \<Rightarrow> ('m, 'w, int) hd" where
  "do_dcreate env d a = do {
     np \<leftarrow> rd32 env (a + 2);
     name \<leftarrow> rdstr env np;
     ds \<leftarrow> drive_table;
     if drive_ro ds d then return EWRPRO
     else do {
       r \<leftarrow> resolve_new env d name;
       case r of Inl err \<Rightarrow> return err
       | Inr (dir, leaf, exist) \<Rightarrow>
           if exist \<noteq> None then return EACCDN
           else do {
             e \<leftarrow> sys (Sys_mkdir (dir @ ''/'' @ leaf)) (px_mkdir env (dir @ ''/'' @ leaf));
             case e of Some e \<Rightarrow> return (errno_tos e EPTHNF)
             | None \<Rightarrow> do { dcache_drop; return 0 } } } }"

definition do_ddelete :: "('m, 'w) hostdos_env \<Rightarrow> int \<Rightarrow> u32 \<Rightarrow> ('m, 'w, int) hd" where
  "do_ddelete env d a = do {
     np \<leftarrow> rd32 env (a + 2);
     name \<leftarrow> rdstr env np;
     c \<leftarrow> parse d name;
     r \<leftarrow> resolve_comps env d c;
     case r of Inl err \<Rightarrow> return EPTHNF
     | Inr hst \<Rightarrow> do {
         ds \<leftarrow> drive_table;
         if \<not> S_ISDIR (st_mode (snd hst)) \<or> c = [] then return EPTHNF
         else if drive_ro ds d then return EWRPRO
         else do {
           e \<leftarrow> sys (Sys_rmdir (fst hst)) (px_rmdir env (fst hst));
           case e of Some e \<Rightarrow> return (errno_tos e EPTHNF)
           | None \<Rightarrow> do { dcache_drop; return 0 } } } }"

definition do_frename :: "('m, 'w) hostdos_env \<Rightarrow> int \<Rightarrow> u32 \<Rightarrow> ('m, 'w, int) hd" where
  "do_frename env d a = do {
     op \<leftarrow> rd32 env (a + 4);
     oldn \<leftarrow> rdstr env op;
     np \<leftarrow> rd32 env (a + 8);
     newn \<leftarrow> rdstr env np;
     if length newn \<ge> 2 \<and> newn ! 1 = CHR '':'' \<and> of_char (toupper (newn ! 0)) - 65 \<noteq> d then return ENSAME
     else do {
       r \<leftarrow> resolve env d oldn;
       case r of Inl err \<Rightarrow> return err
       | Inr hst \<Rightarrow> do {
           ds \<leftarrow> drive_table;
           if drive_ro ds d then return EWRPRO
           else do {
             r \<leftarrow> resolve_new env d newn;
             case r of Inl err \<Rightarrow> return err
             | Inr (dir, leaf, exist) \<Rightarrow>
                 if exist \<noteq> None then return EACCDN
                 else do {
                   e \<leftarrow> sys (Sys_rename (fst hst) (dir @ ''/'' @ leaf))
                          (px_rename env (fst hst) (dir @ ''/'' @ leaf));
                   case e of Some e \<Rightarrow> return (errno_tos e EPTHNF)
                   | None \<Rightarrow> do { dcache_drop; return 0 } } } } } }"

definition do_fattrib :: "('m, 'w) hostdos_env \<Rightarrow> int \<Rightarrow> u32 \<Rightarrow> ('m, 'w, int) hd" where
  "do_fattrib env d a = do {
     np \<leftarrow> rd32 env (a + 2);
     name \<leftarrow> rdstr env np;
     wflag \<leftarrow> rd16 env (a + 6);
     attr \<leftarrow> rd16 env (a + 8);
     r \<leftarrow> resolve env d name;
     case r of Inl err \<Rightarrow> return err
     | Inr hst \<Rightarrow> do {
         ds \<leftarrow> drive_table;
         let st = snd hst;
         let cur = (let c = (if S_ISDIR (st_mode st) then FA_DIR else 0) in if is_ro st then c OR FA_RDONLY else c);
         if wflag = 0 then return (uint cur)
         else if drive_ro ds d then return EWRPRO
         else if S_ISDIR (st_mode st) then return (uint cur)
         else do {
           let m = st_mode st AND 0xFFF;
           let m = (if attr AND FA_RDONLY \<noteq> 0 then m AND NOT 0x92 else m OR 0x80);
           e \<leftarrow> sys (Sys_chmod (fst hst)) (px_chmod env (fst hst) m);
           return (case e of Some e \<Rightarrow> errno_tos e EACCDN
                   | None \<Rightarrow> if attr AND FA_RDONLY \<noteq> 0 then uint FA_RDONLY else 0) } } }"

definition do_dsetpath :: "('m, 'w) hostdos_env \<Rightarrow> int \<Rightarrow> u32 \<Rightarrow> ('m, 'w, int) hd" where
  "do_dsetpath env d a = do {
     np \<leftarrow> rd32 env (a + 2);
     name \<leftarrow> rdstr env np;
     if name = [] \<or> length name = 2 \<and> name ! 1 = CHR '':'' then return 0
     else do {
       c \<leftarrow> parse d name;
       r \<leftarrow> resolve_comps env d c;
       case r of Inl err \<Rightarrow> return EPTHNF
       | Inr hst \<Rightarrow>
           if \<not> S_ISDIR (st_mode (snd hst)) then return EPTHNF
           else do { modify (\<lambda>s. s\<lparr>g_cwd := (g_cwd s)[nat d := c]\<rparr>); return 0 } } }"

definition cwd_string :: "string list \<Rightarrow> string" where
  "cwd_string c = take 127 (concat (map (\<lambda>x. CHR 0x5C # x) c))"

definition do_dgetpath :: "('m, 'w) hostdos_env \<Rightarrow> int \<Rightarrow> u32 \<Rightarrow> ('m, 'w, int) hd" where
  "do_dgetpath env d a = do {
     buf \<leftarrow> rd32 env (a + 2);
     c \<leftarrow> gets (\<lambda>s. g_cwd s ! nat d);
     g_write env buf (bytes_of (cwd_string c) @ [0]);
     return 0 }"

definition do_dfree :: "('m, 'w) hostdos_env \<Rightarrow> int \<Rightarrow> u32 \<Rightarrow> ('m, 'w, int) hd" where
  "do_dfree env d a = do {
     buf \<leftarrow> rd32 env (a + 2);
     ds \<leftarrow> drive_table;
     v \<leftarrow> sys (Sys_statvfs (root_of ds d)) (px_statvfs env (root_of ds d));
     let maxcl = (0x7FFFFFFF div 1024 :: u64);
     let tot = (case v of None \<Rightarrow> 0 | Some v \<Rightarrow> f_blocks v * f_frsize v div 1024);
     let avail = (case v of None \<Rightarrow> 0 | Some v \<Rightarrow> f_bavail v * f_frsize v div 1024);
     let tot = (if tot > maxcl then maxcl else tot);
     let avail = (if avail > tot then tot else avail);
     let avail = (if drive_ro ds d then 0 else avail);
     wr32 env buf (ucast avail);
     wr32 env (buf + 4) (ucast tot);
     wr32 env (buf + 8) 512;
     wr32 env (buf + 12) 2;
     return 0 }"

section \<open>Programs\<close>

definition do_pexec :: "('m, 'w) hostdos_env \<Rightarrow> int \<Rightarrow> u32 \<Rightarrow> ('m, 'w, int) hd" where
  "do_pexec env d a = do {
     mode \<leftarrow> rd16 env (a + 2);
     if mode \<noteq> 0 \<and> mode \<noteq> 3 then return (sint HOSTDOS_PASS)
     else do {
       np \<leftarrow> rd32 env (a + 4);
       name \<leftarrow> rdstr env np;
       r \<leftarrow> resolve env d name;
       case r of Inl err \<Rightarrow> return err
       | Inr hst \<Rightarrow>
           if S_ISDIR (st_mode (snd hst)) then return EFILNF
           else do {
             fp \<leftarrow> sys (Sys_fopen_rb (fst hst)) (px_fread env (fst hst));
             case fp of Inl e \<Rightarrow> return (errno_tos e EFILNF)
             | Inr content \<Rightarrow>
                 (let h = take 28 content in
                  if length h \<noteq> 28 \<or> h ! 0 \<noteq> 0x60 \<or> h ! 1 \<noteq> 0x1A then return EPLFMT
                  else do {
                    modify (\<lambda>s. s\<lparr>g_pend := \<lparr>pend_valid = True, pend_path = fst hst,
                       pend_tlen = be_bytes (take 4 (drop 2 h)), pend_dlen = be_bytes (take 4 (drop 6 h)),
                       pend_blen = be_bytes (take 4 (drop 10 h)), pend_slen = be_bytes (take 4 (drop 14 h)),
                       pend_flags = be_bytes (take 4 (drop 22 h)),
                       pend_absflag = be_bytes (take 2 (drop 26 h))\<rparr>\<rparr>);
                    return (sint HOSTDOS_PEXEC) }) } } }"

text \<open>The file in chunks of 64 KB, until it ends or more than the limit has been read.\<close>

function slurp :: "u8 list \<Rightarrow> u8 list \<Rightarrow> u8 list" where
  "slurp file rest =
     (if rest = [] then file
      else (let file' = file @ take 65536 rest in
            if length file' > MAX_PRG_BYTES + 64 * 2 ^ 20 then file' else slurp file' (drop 65536 rest)))"
  by pat_completeness auto
termination by (relation "measure (\<lambda>(f, r). length r)") auto

declare slurp.simps [simp del]

definition patch :: "u32 \<Rightarrow> u8 list \<Rightarrow> nat \<Rightarrow> u8 list option" where
  "patch tbase im off =
     (if off + 4 > length im \<or> odd off then None
      else Some (take off im @ be32 (be_bytes (take 4 (drop off im)) + tbase) @ drop (off + 4) im))"

fun reloc_loop :: "u32 \<Rightarrow> u8 list \<Rightarrow> nat \<Rightarrow> u8 list \<Rightarrow> u8 list option" where
  "reloc_loop tbase im pos [] = Some im"
| "reloc_loop tbase im pos (b # bs) =
     (if b = 0 then Some im
      else if b = 1 then reloc_loop tbase im (pos + 254) bs
      else case patch tbase im (pos + unat b) of
             None \<Rightarrow> None
           | Some im' \<Rightarrow> reloc_loop tbase im' (pos + unat b) bs)"

definition relocate :: "pend \<Rightarrow> u32 \<Rightarrow> u8 list \<Rightarrow> u8 list \<Rightarrow> u8 list option" where
  "relocate p tbase file im =
     (let ro = 28 + (unat (pend_tlen p) + unat (pend_dlen p)) + unat (pend_slen p) in
      if pend_absflag p = 0 \<and> ro + 4 \<le> length file then
        (let pos = unat (be_bytes (take 4 (drop ro file)) :: u32) in
         if pos \<noteq> 0 then
           case patch tbase im pos of
             None \<Rightarrow> None
           | Some im' \<Rightarrow> reloc_loop tbase im' pos (drop (ro + 4) file)
         else Some im)
      else Some im)"

definition load_writes :: "('m, 'w) hostdos_env \<Rightarrow> pend \<Rightarrow> u32 \<Rightarrow> u32 \<Rightarrow> u32 \<Rightarrow> u8 list \<Rightarrow> ('m, 'w, unit) hd" where
  "load_writes env p bp tbase hitpa im = do {
     g_write env tbase im;
     let bbase = tbase + (pend_tlen p + pend_dlen p);
     (if pend_flags p AND 1 \<noteq> 0 then wrzero env bbase (unat (pend_blen p))
      else wrzero env bbase (unat (hitpa - bbase)));
     wr32 env (bp + 8) tbase;
     wr32 env (bp + 12) (pend_tlen p);
     wr32 env (bp + 16) (tbase + pend_tlen p);
     wr32 env (bp + 20) (pend_dlen p);
     wr32 env (bp + 24) bbase;
     wr32 env (bp + 28) (pend_blen p) }"

definition do_load :: "('m, 'w) hostdos_env \<Rightarrow> u32 \<Rightarrow> ('m, 'w, int) hd" where
  "do_load env bp = do {
     p \<leftarrow> gets g_pend;
     if \<not> pend_valid p then return EPLFMT
     else do {
       modify (\<lambda>s. s\<lparr>g_pend := p\<lparr>pend_valid := False\<rparr>\<rparr>);
       lowtpa \<leftarrow> rd32 env bp;
       hitpa \<leftarrow> rd32 env (bp + 4);
       let img = unat (pend_tlen p) + unat (pend_dlen p);
       let need = 0x100 + img + unat (pend_blen p);
       if img > MAX_PRG_BYTES \<or> unat lowtpa + need > unat hitpa then return ENSMEM
       else do {
         fp \<leftarrow> sys (Sys_fopen_rb (pend_path p)) (px_fread env (pend_path p));
         case fp of Inl e \<Rightarrow> return EFILNF
         | Inr content \<Rightarrow>
             (let file = slurp [] content in
              if length file < 28 + img then return EPLFMT
              else
                (let im = take img (drop 28 file); tbase = lowtpa + 0x100 in
                 case relocate p tbase file im of
                   None \<Rightarrow> return EPLFMT
                 | Some im' \<Rightarrow> do { load_writes env p bp tbase hitpa im'; return 0 })) } } }"

section \<open>Entry points\<close>

definition dispatch :: "('m, 'w) hostdos_env \<Rightarrow> u32 \<Rightarrow> int \<Rightarrow> u32 \<Rightarrow> u32 \<Rightarrow> ('m, 'w, int) hd" where
  "dispatch env a d bp dta = do {
     fn \<leftarrow> rd16 env a;
     ds \<leftarrow> drive_table;
     if fn = 0x3E then do_fclose env a
     else if fn = 0x3F then do_fread env a
     else if fn = 0x40 then do_fwrite env a
     else if fn = 0x42 then do_fseek env a
     else if fn = 0x57 then do_fdatime env a
     else if fn = 0x4F then do_fsnext env dta
     else if \<not> drive_ok ds d then return (sint HOSTDOS_PASS)
     else if fn = 0x36 then do_dfree env d a
     else if fn = 0x39 then do_dcreate env d a
     else if fn = 0x3A then do_ddelete env d a
     else if fn = 0x3B then do_dsetpath env d a
     else if fn = 0x3C then do_fcreate env d a bp
     else if fn = 0x3D then do_fopen env d a bp
     else if fn = 0x41 then do_fdelete env d a
     else if fn = 0x43 then do_fattrib env d a
     else if fn = 0x47 then do_dgetpath env d a
     else if fn = 0x4B then do_pexec env d a
     else if fn = 0x4E then do_fsfirst env d a dta
     else if fn = 0x56 then do_frename env d a
     else return (sint HOSTDOS_PASS) }"

definition no_drive :: drive where
  "no_drive = \<lparr>drv_enabled = False, drv_readonly = False, drv_path = []\<rparr>"

definition hostdos_init :: "('m, 'w) hostdos_env \<Rightarrow> drive list option \<Rightarrow> bool \<Rightarrow> ('m, 'w, unit) hd" where
  "hostdos_init env drives mem = do {
     reset_all env;
     modify (\<lambda>s. s\<lparr>g_drives := (case drives of None \<Rightarrow> replicate NDRIVES no_drive | Some ds \<Rightarrow> take NDRIVES ds),
                   g_mem_set := (mem \<or> g_mem_set s), g_mint := False\<rparr>) }"

definition hostdos_note_mint :: "('m, 'w) hostdos_env \<Rightarrow> ('m, 'w, unit) hd" where
  "hostdos_note_mint env = do {
     m \<leftarrow> gets g_mint;
     (if \<not> m then reset_all env else return ());
     modify (\<lambda>s. s\<lparr>g_mint := True\<rparr>) }"

definition drive_bits :: "drive list \<Rightarrow> u32" where
  "drive_bits ds = foldl (\<lambda>bits d. if drive_ok ds (int d) then bits OR push_bit d 1 else bits) 0 [0..<NDRIVES]"

definition hostdos_call :: "('m, 'w) hostdos_env \<Rightarrow> u32 \<Rightarrow> u32 list \<Rightarrow> ('m, 'w, u32) hd" where
  "hostdos_call env subid p = do {
     ok \<leftarrow> gets g_mem_set;
     mint \<leftarrow> gets g_mint;
     if \<not> ok then return (word_of_int EDRIVE)
     else if subid = 0 then return 1
     else if subid = 1 then do {
       reset_all env;
       modify (\<lambda>s. s\<lparr>g_mint := False\<rparr>);
       gets (\<lambda>s. drive_bits (g_drives s)) }
     else if subid = 2 then
       (if mint then return HOSTDOS_PASS
        else do { r \<leftarrow> dispatch env (p ! 0) (sint (p ! 1)) (p ! 2) (p ! 3); return (word_of_int r) })
     else if subid = 3 then do {
       files_close env (\<lambda>f. hf_used f \<and> hf_owner f = p ! 0) [0..<HOSTDOS_MAX_FILES];
       return 0 }
     else if subid = 4 then gets (\<lambda>s. if pend_valid (g_pend s) then pend_flags (g_pend s) else 0)
     else if subid = 5 then do { r \<leftarrow> do_load env (p ! 0); return (word_of_int r) }
     else return (word_of_int ERROR) }"

text \<open>\<open>out\<close> is the buffer of \<open>outsz\<close> bytes; \<open>None\<close> stands for the result 0. The argument is the C
  string without its terminator.\<close>

definition hostdos_gemdos_to_host :: "('m, 'w) hostdos_env \<Rightarrow> string \<Rightarrow> nat \<Rightarrow> ('m, 'w, string option) hd" where
  "hostdos_gemdos_to_host env gem outsz =
     (if gem = [] \<or> length gem < 2 \<or> gem ! 1 \<noteq> CHR '':'' then return None
      else (let d = of_char (toupper (gem ! 0)) - 65 in do {
        ds \<leftarrow> drive_table;
        if \<not> drive_ok ds d then return None
        else do {
          r \<leftarrow> resolve env d gem;
          return (case r of Inl _ \<Rightarrow> None
                  | Inr hst \<Rightarrow> if length (fst hst) + 1 > outsz then None else Some (fst hst)) } }))"

end
