(* ===== verification/Hostdos_Safety.thy ===== *)
theory Hostdos_Safety
  imports Hostdos_Calls
begin

text \<open>
  What the HOSTDOS engine asks of the host (\<open>hostdos.cpp\<close>): every system call names a path under the
  root of an enabled drive, nothing on a read-only drive is changed, and the handle table holds
  exactly the descriptors that are open.
\<close>

section \<open>Specification\<close>

text \<open>A path component that stays below its directory.\<close>

definition comp_ok :: "string \<Rightarrow> bool" where
  "comp_ok c \<longleftrightarrow> CHR ''/'' \<notin> set c \<and> c \<noteq> ''.'' \<and> c \<noteq> ''..''"

definition path_in :: "drive list \<Rightarrow> int \<Rightarrow> string \<Rightarrow> bool" where
  "path_in ds d p \<longleftrightarrow>
     drive_ok ds d \<and> (\<exists>cs. p = root_of ds d @ concat (map (\<lambda>c. CHR ''/'' # c) cs) \<and> list_all comp_ok cs)"

definition readable :: "drive list \<Rightarrow> string \<Rightarrow> bool" where
  "readable ds p \<longleftrightarrow> (\<exists>d. path_in ds d p)"

definition writable :: "drive list \<Rightarrow> string \<Rightarrow> bool" where
  "writable ds p \<longleftrightarrow> (\<exists>d. path_in ds d p \<and> \<not> drive_ro ds d)"

fun call_ok :: "drive list \<Rightarrow> syscall \<Rightarrow> bool" where
  "call_ok ds (Sys_stat p) = readable ds p"
| "call_ok ds (Sys_readdir p) = readable ds p"
| "call_ok ds (Sys_statvfs p) = readable ds p"
| "call_ok ds (Sys_fopen_rb p) = readable ds p"
| "call_ok ds (Sys_open p fl) = (if fl = O_RDONLY then readable ds p else writable ds p)"
| "call_ok ds (Sys_close fd) = True"
| "call_ok ds (Sys_read p) = readable ds p"
| "call_ok ds (Sys_fstat p) = readable ds p"
| "call_ok ds (Sys_lseek p) = readable ds p"
| "call_ok ds (Sys_write p) = writable ds p"
| "call_ok ds (Sys_futimens p) = writable ds p"
| "call_ok ds (Sys_fchmod p) = writable ds p"
| "call_ok ds (Sys_unlink p) = writable ds p"
| "call_ok ds (Sys_mkdir p) = writable ds p"
| "call_ok ds (Sys_rmdir p) = writable ds p"
| "call_ok ds (Sys_rename p q) = (writable ds p \<and> writable ds q)"
| "call_ok ds (Sys_chmod p) = writable ds p"

text \<open>What is relied on of the host: \<open>readdir\<close> returns names of entries, which hold no slash, and a
  successful \<open>open\<close> returns a descriptor that is not negative.\<close>

definition posix_ok :: "('m, 'w) hostdos_env \<Rightarrow> bool" where
  "posix_ok env \<longleftrightarrow>
     (\<forall>dir w l w'. px_readdir env dir w = (Some l, w') \<longrightarrow> (\<forall>n \<in> set l. CHR ''/'' \<notin> set n)) \<and>
     (\<forall>p fl w fd w'. px_open env p fl w = (Inr fd, w') \<longrightarrow> 0 \<le> fd)"

section \<open>Components\<close>

lemma toupper_slash: "toupper c = CHR ''/'' \<longleftrightarrow> c = CHR ''/''"
proof
  assume "toupper c = CHR ''/''"
  then have "(of_char (toupper c) :: nat) = 47" by simp
  then have "(of_char c :: nat) = of_char (CHR ''/'')" by (auto simp: of_char_toupper ascii_lower_def split: if_splits)
  then show "c = CHR ''/''" by (simp only: of_char_eq_iff)
qed (simp add: toupper_def ascii_lower_def)

lemma set_split_dot: "split_dot n = (b, e) \<Longrightarrow> set b \<subseteq> set n \<and> (\<forall>x. e = Some x \<longrightarrow> set x \<subseteq> set n)"
  by (auto simp: split_dot_def Let_def dest: set_takeWhileD in_set_dropD split: if_splits)

lemma trunc83_comp_ok:
  assumes "CHR ''/'' \<notin> set s" "s \<noteq> ''.''" "s \<noteq> ''..''"
  shows "comp_ok (trunc83 s)"
proof -
  obtain base dot where d: "split_dot (upper s) = (base, dot)" by fastforce
  let ?ext = "case dot of None \<Rightarrow> [] | Some e \<Rightarrow> fst (split_dot e)"
  have up: "CHR ''/'' \<notin> set (upper s)" using assms(1) by (auto simp: upper_def) (metis toupper_slash)
  have b: "CHR ''.'' \<notin> set base" "CHR ''/'' \<notin> set base"
    using split_dot_parts(1) [OF d] set_split_dot [OF d] up by auto
  have e: "CHR ''.'' \<notin> set ?ext \<and> CHR ''/'' \<notin> set ?ext"
  proof (cases dot)
    case (Some x)
    obtain b' e' where x: "split_dot x = (b', e')" by fastforce
    then show ?thesis
      using split_dot_parts(1) [OF x] set_split_dot [OF x] set_split_dot [OF d] up Some by auto
  qed simp
  have "trunc83 s = join83 (take 8 base) (take 3 ?ext)"
    using assms(2,3) by (simp add: trunc83_def d)
  moreover have "CHR ''.'' \<notin> set (take 8 base)" "CHR ''/'' \<notin> set (take 8 base)"
    "CHR ''.'' \<notin> set (take 3 ?ext)" "CHR ''/'' \<notin> set (take 3 ?ext)"
    using b e by (blast dest: in_set_takeD)+
  ultimately show ?thesis
    by (auto simp: comp_ok_def join83_def append_eq_Cons_conv)
qed

lemma split_path_no_sep: "c \<in> set (split_path s) \<Longrightarrow> \<forall>x \<in> set c. \<not> is_sep x"
proof (induction s rule: split_path.induct)
  case (1 s)
  let ?c = "takeWhile (\<lambda>x. \<not> is_sep x) s"
  have c: "\<forall>x \<in> set ?c. \<not> is_sep x" by (auto dest: set_takeWhileD)
  show ?case
  proof (cases "drop (length ?c) s")
    case Nil
    then show ?thesis using 1(2) c by (simp add: split_path.simps [of s])
  next
    case (Cons y r)
    then have "split_path s = ?c # split_path r" by (subst split_path.simps) simp
    then have "c = ?c \<or> c \<in> set (split_path r)" using 1(2) by simp
    then show ?thesis using 1(1) [OF refl Cons] c by blast
  qed
qed

lemma push_comp_ok:
  "list_all comp_ok c \<Longrightarrow> \<forall>y \<in> set x. \<not> is_sep y \<Longrightarrow> list_all comp_ok (push_comp c x)"
  using trunc83_comp_ok [of x]
  by (auto simp: push_comp_def is_sep_def list_all_iff dest: in_set_butlastD)

lemma foldl_push_comp_ok:
  "list_all comp_ok c \<Longrightarrow> \<forall>x \<in> set xs. \<forall>y \<in> set x. \<not> is_sep y \<Longrightarrow> list_all comp_ok (foldl push_comp c xs)"
  by (induction xs arbitrary: c) (auto intro: push_comp_ok)

lemma parse_path_ok: "list_all comp_ok cwd \<Longrightarrow> list_all comp_ok (parse_path cwd gem)"
  unfolding parse_path_def Let_def by (rule foldl_push_comp_ok) (auto dest: split_path_no_sep)

lemma map_mangled_hosts: "e \<in> set (map_mangled hs tk) \<Longrightarrow> ent_host e \<in> set hs"
  by (induction hs tk rule: map_mangled.induct) (auto split: option.splits)

lemma dir_table_hosts: "e \<in> set (dir_table names) \<Longrightarrow> ent_host e \<in> set names"
proof -
  assume e: "e \<in> set (dir_table names)"
  obtain out left tk where m: "map_valid (sort names) [] = (out, left, tk)" by (metis prod_cases3)
  have "set names = ent_host ` set out \<union> set left"
    using map_valid_ok [OF m] by (metis list.set_map mset_append mset_sort set_append set_mset_mset)
  then show ?thesis using e map_mangled_hosts [of e left tk] by (auto simp: dir_table_def m)
qed

lemma path_in_root: "drive_ok ds d \<Longrightarrow> path_in ds d (root_of ds d)"
  unfolding path_in_def by (auto intro: exI [of _ "[]"])

lemma path_in_sub: "path_in ds d p \<Longrightarrow> comp_ok c \<Longrightarrow> path_in ds d (p @ CHR ''/'' # c)"
proof -
  assume p: "path_in ds d p" and c: "comp_ok c"
  then obtain cs where "p = root_of ds d @ concat (map (\<lambda>c. CHR ''/'' # c) cs)" "list_all comp_ok cs"
    by (auto simp: path_in_def)
  then show ?thesis using p c unfolding path_in_def by (auto intro!: exI [of _ "cs @ [c]"])
qed

section \<open>Invariant\<close>

definition file_ok :: "drive list \<Rightarrow> hfile \<Rightarrow> bool" where
  "file_ok ds f \<longleftrightarrow>
     (hf_used f \<longrightarrow> 0 \<le> hf_fd f \<and> path_in ds (hf_drive f) (hf_path f) \<and>
        (hf_canwrite f \<longrightarrow> \<not> drive_ro ds (hf_drive f)))"

definition tables_ok :: "drive list \<Rightarrow> ('m, 'w) hostdos \<Rightarrow> bool" where
  "tables_ok ds s \<longleftrightarrow>
     g_drives s = ds \<and> length ds = NDRIVES \<and> length (g_cwd s) = NDRIVES \<and>
     length (g_files s) = HOSTDOS_MAX_FILES \<and> length (g_search s) = MAX_SEARCHES \<and>
     (\<forall>cs \<in> set (g_cwd s). list_all comp_ok cs) \<and>
     (\<forall>(k, m) \<in> set (g_dcache s). \<forall>e \<in> set (dm_e m). comp_ok (ent_host e)) \<and>
     (\<forall>f \<in> set (g_files s). file_ok ds f) \<and>
     (pend_valid (g_pend s) \<longrightarrow> readable ds (pend_path (g_pend s)))"

definition fd_count :: "hfile list \<Rightarrow> int \<Rightarrow> int" where
  "fd_count fs fd = int (length (filter (\<lambda>f. hf_used f \<and> hf_fd f = fd) fs))"

definition log_ok :: "('m, 'w) hostdos \<Rightarrow> bool" where
  "log_ok s \<longleftrightarrow> (\<forall>(ds, c) \<in> set (sys_log s). call_ok ds c)"

text \<open>\<open>fl\<close> lists descriptors that have just been opened and are not in the table yet.\<close>

definition hinv :: "drive list \<Rightarrow> int list \<Rightarrow> ('m, 'w) hostdos \<Rightarrow> bool" where
  "hinv ds fl s \<longleftrightarrow> tables_ok ds s \<and> log_ok s \<and>
     (\<forall>fd. open_fds s fd = fd_count (g_files s) fd + int (count_list fl fd))"

named_theorems hd_wp

lemma hinv_drives: "hinv ds fl s \<Longrightarrow> g_drives s = ds"
  by (simp add: hinv_def tables_ok_def)

lemma wp_drive_table [hd_wp]: "hinv ds fl s \<Longrightarrow> Q ds s \<Longrightarrow> wp drive_table Q s"
  by (simp add: drive_table_def hinv_drives)

lemma wp_modifyI: "hinv ds fl (f s) \<Longrightarrow> (\<And>t. hinv ds fl t \<Longrightarrow> Q () t) \<Longrightarrow> wp (modify f) Q s"
  by simp

lemma wp_g_read [hd_wp]:
  "hinv ds fl s \<Longrightarrow> (\<And>b t. hinv ds fl t \<Longrightarrow> Q b t) \<Longrightarrow> wp (g_read env a n) Q s"
  by (auto simp: wp_def g_read_def hinv_def tables_ok_def log_ok_def split: prod.split)

lemma wp_g_write [hd_wp]:
  "hinv ds fl s \<Longrightarrow> (\<And>t. hinv ds fl t \<Longrightarrow> Q () t) \<Longrightarrow> wp (g_write env a b) Q s"
  by (simp add: g_write_def hinv_def tables_ok_def log_ok_def)

lemma wp_rd [hd_wp]:
  "hinv ds fl s \<Longrightarrow> (\<And>v t. hinv ds fl t \<Longrightarrow> Q v t) \<Longrightarrow> wp (rd32 env a) Q s"
  "hinv ds fl s \<Longrightarrow> (\<And>w t. hinv ds fl t \<Longrightarrow> R w t) \<Longrightarrow> wp (rd16 env a) R s"
  by (auto simp: rd32_def rd16_def intro!: hd_wp)

lemma wp_wr [hd_wp]:
  "hinv ds fl s \<Longrightarrow> (\<And>t. hinv ds fl t \<Longrightarrow> Q () t) \<Longrightarrow> wp (wr32 env a v) Q s"
  "hinv ds fl s \<Longrightarrow> (\<And>t. hinv ds fl t \<Longrightarrow> Q () t) \<Longrightarrow> wp (wr16 env a w) Q s"
  by (auto simp: wr32_def wr16_def intro!: hd_wp)

lemma wp_rdstr_loop:
  "hinv ds fl s \<Longrightarrow> (\<And>v t. hinv ds fl t \<Longrightarrow> Q v t) \<Longrightarrow> wp (rdstr_loop env k a) Q s"
  by (induction k arbitrary: a s Q) (auto intro!: hd_wp)

lemma wp_rdstr [hd_wp]:
  "hinv ds fl s \<Longrightarrow> (\<And>v t. hinv ds fl t \<Longrightarrow> Q v t) \<Longrightarrow> wp (rdstr env a) Q s"
  by (auto simp: rdstr_def intro!: wp_rdstr_loop)

lemma wp_wrzero [hd_wp]:
  "hinv ds fl s \<Longrightarrow> (\<And>t. hinv ds fl t \<Longrightarrow> Q () t) \<Longrightarrow> wp (wrzero env a n) Q s"
proof (induction env a n arbitrary: s rule: wrzero.induct)
  case (1 env a n)
  show ?case
  proof (cases "n = 0")
    case False
    then show ?thesis
      by (subst wrzero.simps) (auto simp: Let_def intro!: hd_wp 1)
  qed (use 1 in \<open>simp add: wrzero.simps\<close>)
qed

lemma wp_sys [hd_wp]:
  "hinv ds fl s \<Longrightarrow> call_ok ds c \<Longrightarrow> (\<And>r t w w'. hinv ds fl t \<Longrightarrow> f w = (r, w') \<Longrightarrow> Q r t) \<Longrightarrow> wp (sys c f) Q s"
  by (auto simp: wp_def sys_def hinv_def tables_ok_def log_ok_def split: prod.split)

lemma wp_sys_stat [hd_wp]:
  "hinv ds fl s \<Longrightarrow> readable ds p \<Longrightarrow> (\<And>r t. hinv ds fl t \<Longrightarrow> Q r t) \<Longrightarrow> wp (sys_stat env p) Q s"
  by (auto simp: sys_stat_def intro!: hd_wp)

lemma wp_dcache_drop [hd_wp]:
  "hinv ds fl s \<Longrightarrow> (\<And>t. hinv ds fl t \<Longrightarrow> Q () t) \<Longrightarrow> wp dcache_drop Q s"
  by (simp add: dcache_drop_def hinv_def tables_ok_def log_ok_def)

section \<open>Paths\<close>

lemma readable_sub: "path_in ds d p \<Longrightarrow> comp_ok c \<Longrightarrow> readable ds (p @ CHR ''/'' # c)"
  using path_in_sub unfolding readable_def by blast

lemma path_in_readable [intro]: "path_in ds d p \<Longrightarrow> readable ds p"
  by (auto simp: readable_def)

lemma path_in_writable [intro]: "path_in ds d p \<Longrightarrow> \<not> drive_ro ds d \<Longrightarrow> writable ds p"
  by (auto simp: writable_def)

lemma not_hidden_comp_ok: "take 1 n \<noteq> ''.'' \<Longrightarrow> CHR ''/'' \<notin> set n \<Longrightarrow> comp_ok n"
  by (auto simp: comp_ok_def)

lemma wp_dir_names:
  "hinv ds fl s \<Longrightarrow> path_in ds d dir \<Longrightarrow> \<forall>n \<in> set l. CHR ''/'' \<notin> set n \<Longrightarrow>
   (\<And>r t. hinv ds fl t \<Longrightarrow> \<forall>n \<in> set r. comp_ok n \<Longrightarrow> Q r t) \<Longrightarrow> wp (dir_names env dir l) Q s"
proof (induction l arbitrary: s Q)
  case (Cons n ns)
  show ?case
  proof (cases "take 1 n = ''.''")
    case False
    then have "comp_ok n" using Cons.prems(3) by (intro not_hidden_comp_ok) auto
    then show ?thesis
      using False Cons.prems
      by (auto intro!: wp_sys_stat Cons.IH readable_sub simp: False split: option.splits)
  qed (use Cons in auto)
qed auto

lemma set_alist_update: "x \<in> set (AList.update k v al) \<Longrightarrow> x = (k, v) \<or> x \<in> set al"
  by (induction al) (auto split: if_splits)

lemma wp_dcache_put:
  "hinv ds fl s \<Longrightarrow> \<forall>e \<in> set (dm_e m). comp_ok (ent_host e) \<Longrightarrow> (\<And>t. hinv ds fl t \<Longrightarrow> Q () t) \<Longrightarrow>
   wp (dcache_put dir m) Q s"
  unfolding dcache_put_def
  by (rule wp_modifyI) (auto simp: hinv_def tables_ok_def log_ok_def dest!: set_alist_update split: if_splits)

lemma posix_readdir: "posix_ok env \<Longrightarrow> px_readdir env dir w = (Some l, w') \<Longrightarrow> n \<in> set l \<Longrightarrow> CHR ''/'' \<notin> set n"
  unfolding posix_ok_def by blast

lemma posix_open: "posix_ok env \<Longrightarrow> px_open env p fl w = (Inr fd, w') \<Longrightarrow> 0 \<le> fd"
  unfolding posix_ok_def by blast

lemma dir_table_comp_ok: "\<forall>n \<in> set r. comp_ok n \<Longrightarrow> e \<in> set (dir_table r) \<Longrightarrow> comp_ok (ent_host e)"
  using dir_table_hosts by blast

lemma lookup_ent_comp_ok: "\<forall>e \<in> set m. comp_ok (ent_host e) \<Longrightarrow> lookup_ent m tos = Some e \<Longrightarrow> comp_ok (ent_host e)"
  using lookup_ent_some by blast

lemma cwd_comp_ok: "hinv ds fl s \<Longrightarrow> drive_ok ds d \<Longrightarrow> list_all comp_ok (g_cwd s ! nat d)"
  by (auto simp: hinv_def tables_ok_def drive_ok_def)

definition ents_ok :: "ent list option \<Rightarrow> bool" where
  "ents_ok r \<longleftrightarrow> (\<forall>m. r = Some m \<longrightarrow> (\<forall>e \<in> set m. comp_ok (ent_host e)))"

lemma wp_map_dir_read:
  assumes "posix_ok env" "hinv ds fl s" "path_in ds d dir"
    and Q: "\<And>r t. hinv ds fl t \<Longrightarrow> ents_ok r \<Longrightarrow> Q r t"
  shows "wp (map_dir_read env dir st) Q s"
  unfolding map_dir_read_def Let_def
  using assms(2,3)
  by (auto split: option.split simp: ents_ok_def
      intro!: wp_sys [where fl = fl] wp_dir_names [where fl = fl and d = d] wp_dcache_put [where fl = fl] Q)
     (blast dest: posix_readdir [OF assms(1)] dir_table_comp_ok)+

lemma wp_map_dir [hd_wp]:
  assumes "posix_ok env" "path_in ds d dir" "hinv ds fl s"
    and Q: "\<And>r t. hinv ds fl t \<Longrightarrow> ents_ok r \<Longrightarrow> Q r t"
  shows "wp (map_dir env dir) Q s"
proof -
  have c: "ents_ok (Some (dm_e m))" if "hinv ds fl t" "map_of (g_dcache t) dir = Some m" for t m
    using that by (force simp: hinv_def tables_ok_def ents_ok_def dest!: map_of_SomeD)
  show ?thesis
    unfolding map_dir_def using assms(2,3)
    by (auto split: option.split intro!: wp_sys_stat [where fl = fl] wp_map_dir_read [OF assms(1)] Q
        simp: c) (simp add: ents_ok_def)+
qed

lemma wp_lookup [hd_wp]:
  assumes "posix_ok env" "path_in ds d dir" "hinv ds fl s"
    and Q: "\<And>r t. hinv ds fl t \<Longrightarrow> \<forall>e. r = Some e \<longrightarrow> comp_ok (ent_host e) \<Longrightarrow> Q r t"
  shows "wp (lookup env dir tos) Q s"
  unfolding lookup_def using assms(1-3)
  by (auto simp: ents_ok_def split: option.split intro!: wp_map_dir [where fl = fl] Q)
     (blast dest: lookup_ent_comp_ok)

lemma wp_parse [hd_wp]:
  assumes "drive_ok ds d" "hinv ds fl s" "\<And>c. list_all comp_ok c \<Longrightarrow> Q c s"
  shows "wp (parse d gem) Q s"
  unfolding parse_def wp_gets by (intro assms(3) parse_path_ok cwd_comp_ok [OF assms(2,1)])

lemma wp_walk_from:
  "posix_ok env \<Longrightarrow> path_in ds d h \<Longrightarrow> hinv ds fl s \<Longrightarrow>
   (\<And>r t. hinv ds fl t \<Longrightarrow> \<forall>p. r = Inr p \<longrightarrow> path_in ds d p \<Longrightarrow> Q r t) \<Longrightarrow> wp (walk_from env h cs) Q s"
proof (induction cs arbitrary: h s)
  case (Cons c cs)
  show ?case
    by (auto simp: Let_def split: option.split
        intro!: wp_lookup [OF Cons.prems(1,2,3)] wp_sys_stat readable_sub [OF Cons.prems(2)]
          Cons.IH [OF Cons.prems(1)] path_in_sub [OF Cons.prems(2)] Cons.prems(4))
qed auto

lemma wp_walk [hd_wp]:
  "posix_ok env \<Longrightarrow> drive_ok ds d \<Longrightarrow> hinv ds fl s \<Longrightarrow>
   (\<And>r t. hinv ds fl t \<Longrightarrow> \<forall>p. r = Inr p \<longrightarrow> path_in ds d p \<Longrightarrow> Q r t) \<Longrightarrow> wp (walk env d c n) Q s"
  by (auto simp: walk_def intro!: wp_drive_table wp_walk_from path_in_root)

lemma wp_resolve_comps [hd_wp]:
  assumes "posix_ok env" "drive_ok ds d" "hinv ds fl s"
    and Q: "\<And>r t. hinv ds fl t \<Longrightarrow> \<forall>h. r = Inr h \<longrightarrow> path_in ds d (fst h) \<Longrightarrow> Q r t"
  shows "wp (resolve_comps env d c) Q s"
  unfolding resolve_comps_def Let_def
  using assms(1-3) path_in_root [OF assms(2)] path_in_readable [OF path_in_root [OF assms(2)]]
  by (auto split: option.split sum.split
      intro!: wp_drive_table [where fl = fl] wp_walk [where fl = fl] wp_lookup [where fl = fl] wp_sys_stat [where fl = fl] path_in_sub readable_sub Q)

lemma wp_resolve [hd_wp]:
  assumes "posix_ok env" "drive_ok ds d" "hinv ds fl s"
    "\<And>r t. hinv ds fl t \<Longrightarrow> \<forall>h. r = Inr h \<longrightarrow> path_in ds d (fst h) \<Longrightarrow> Q r t"
  shows "wp (resolve env d gem) Q s"
  unfolding resolve_def using assms by (auto intro!: wp_parse wp_resolve_comps)

definition new_ok :: "drive list \<Rightarrow> int \<Rightarrow> int + string \<times> string \<times> string option \<Rightarrow> bool" where
  "new_ok ds d r \<longleftrightarrow> (\<forall>dir leaf ex. r = Inr (dir, leaf, ex) \<longrightarrow>
     path_in ds d (dir @ CHR ''/'' # leaf) \<and> (\<forall>h. ex = Some h \<longrightarrow> path_in ds d h))"

lemma wp_resolve_new [hd_wp]:
  assumes "posix_ok env" "drive_ok ds d" "hinv ds fl s"
    and Q: "\<And>r t. hinv ds fl t \<Longrightarrow> new_ok ds d r \<Longrightarrow> Q r t"
  shows "wp (resolve_new env d gem) Q s"
proof -
  have l: "comp_ok (last c)" if "list_all comp_ok c" "c \<noteq> []" for c
    using that by (auto simp: list_all_iff)
  show ?thesis
    unfolding resolve_new_def Let_def
    using assms(1-3)
    by (auto split: sum.split intro!: wp_parse [where fl = fl] wp_walk [where fl = fl] wp_lookup [where fl = fl] Q
        simp: new_ok_def) (blast intro: l path_in_sub)+
qed

section \<open>The handle table\<close>

lemma fd_count_update:
  "i < length fs \<Longrightarrow> fd_count (fs[i := f]) x =
     fd_count fs x - of_bool (hf_used (fs ! i) \<and> hf_fd (fs ! i) = x) + of_bool (hf_used f \<and> hf_fd f = x)"
proof (induction fs arbitrary: i)
  case (Cons g fs)
  then show ?case by (cases i) (auto simp: fd_count_def)
qed simp

lemma free_slot_some: "free_slot fs = Some i \<Longrightarrow> i < length fs \<and> \<not> hf_used (fs ! i)"
  by (induction fs arbitrary: i) (auto split: if_splits)

lemma wp_sys_open [hd_wp]:
  assumes "posix_ok env" "hinv ds fl s" "call_ok ds (Sys_open p flag)"
    and Q: "\<And>r t. case r of Inl e \<Rightarrow> hinv ds fl t | Inr fd \<Rightarrow> 0 \<le> fd \<and> hinv ds (fd # fl) t \<Longrightarrow> Q r t"
  shows "wp (sys_open env p flag) Q s"
proof -
  have up: "hinv ds (fd # fl) (t\<lparr>open_fds := (open_fds t)(fd := open_fds t fd + 1)\<rparr>)" if "hinv ds fl t" for fd t
    using that by (auto simp: hinv_def tables_ok_def log_ok_def)
  show ?thesis
    unfolding sys_open_def
    using assms(2,3) by (auto split: sum.split intro!: wp_sys [where fl = fl] Q up)
      (blast dest: posix_open [OF assms(1)])
qed

lemma wp_sys_close [hd_wp]:
  assumes "hinv ds (fd # fl) s" "\<And>t. hinv ds fl t \<Longrightarrow> Q () t"
  shows "wp (sys_close env fd) Q s"
proof -
  have "hinv ds fl (t\<lparr>open_fds := (open_fds t)(fd := open_fds t fd - 1)\<rparr>)" if "hinv ds (fd # fl) t" for t
    using that by (auto simp: hinv_def tables_ok_def log_ok_def split: if_splits)
  then show ?thesis
    unfolding sys_close_def using assms(1) by (auto intro!: wp_sys [where fl = "fd # fl"] assms(2))
qed

lemma hinv_put_file:
  assumes "hinv ds fl s" "i < HOSTDOS_MAX_FILES" "file_ok ds f"
    "\<And>x. int (count_list fl' x) = int (count_list fl x) +
       of_bool (hf_used (g_files s ! i) \<and> hf_fd (g_files s ! i) = x) - of_bool (hf_used f \<and> hf_fd f = x)"
  shows "hinv ds fl' (s\<lparr>g_files := (g_files s)[i := f]\<rparr>)"
  using assms by (auto simp: hinv_def tables_ok_def log_ok_def fd_count_update dest!: set_update_subset_insert [THEN subsetD])

lemma wp_file_new [hd_wp]:
  assumes "hinv ds (fd # fl) s" "0 \<le> fd" "path_in ds d p" "w \<longrightarrow> \<not> drive_ro ds d"
    and Q: "\<And>r t. hinv ds fl t \<Longrightarrow> Q r t"
  shows "wp (file_new env fd d w owner p) Q s"
proof (cases "free_slot (g_files s)")
  case None
  then show ?thesis using assms by (auto simp: file_new_def intro!: wp_sys_close)
next
  case (Some i)
  have "i < HOSTDOS_MAX_FILES" "\<not> hf_used (g_files s ! i)"
    using free_slot_some [OF Some] assms(1) by (auto simp: hinv_def tables_ok_def)
  then have "hinv ds fl (s\<lparr>g_files := (g_files s)[i := \<lparr>hf_used = True, hf_fd = fd, hf_drive = d,
                           hf_canwrite = w, hf_owner = owner, hf_path = p\<rparr>]\<rparr>)"
    using assms(2-4) by (intro hinv_put_file [OF assms(1)]) (auto simp: file_ok_def)
  then show ?thesis using Some Q by (simp add: file_new_def)
qed

lemma hinv_file: "hinv ds fl s \<Longrightarrow> i < HOSTDOS_MAX_FILES \<Longrightarrow> file_ok ds (g_files s ! i)"
  by (auto simp: hinv_def tables_ok_def)

text \<open>Between \<open>close\<close> and the update of the slot the descriptor is one too few.\<close>

lemma wp_file_close [hd_wp]:
  assumes h: "hinv ds fl s" and i: "i < HOSTDOS_MAX_FILES" and Q: "\<And>t. hinv ds fl t \<Longrightarrow> Q () t"
  shows "wp (file_close env i) Q s"
proof -
  let ?f = "g_files s ! i"
  let ?g = "?f\<lparr>hf_used := False, hf_fd := -1, hf_path := []\<rparr>"
  have g: "file_ok ds ?g" by (simp add: file_ok_def)
  show ?thesis
  proof (cases "hf_used ?f")
    case False
    then have "hinv ds fl (s\<lparr>g_files := (g_files s)[i := ?g]\<rparr>)"
      by (intro hinv_put_file [OF h i g]) simp
    then show ?thesis using False Q by (simp add: file_close_def)
  next
    case True
    let ?fd = "hf_fd ?f"
    have fd: "0 \<le> ?fd" using hinv_file [OF h i] True by (simp add: file_ok_def)
    obtain w where "run_state (sys_close env ?fd) s =
        ((), s\<lparr>world := w, sys_log := sys_log s @ [(g_drives s, Sys_close ?fd)],
               open_fds := (open_fds s)(?fd := open_fds s ?fd - 1)\<rparr>)"
      by (simp add: sys_close_def sys_def modify_def)
    moreover have "hinv ds fl (s\<lparr>world := w, sys_log := sys_log s @ [(g_drives s, Sys_close ?fd)],
        open_fds := (open_fds s)(?fd := open_fds s ?fd - 1), g_files := (g_files s)[i := ?g]\<rparr>)"
      using hinv_put_file [OF h i g, of "?fd # fl"] True
      by (auto simp: hinv_def tables_ok_def log_ok_def fd_count_update split: if_splits)
    ultimately show ?thesis using True fd Q by (simp add: file_close_def wp_def modify_def gets_def)
  qed
qed

lemma wp_files_close [hd_wp]:
  "hinv ds fl s \<Longrightarrow> \<forall>i \<in> set is. i < HOSTDOS_MAX_FILES \<Longrightarrow> (\<And>t. hinv ds fl t \<Longrightarrow> Q () t) \<Longrightarrow>
   wp (files_close env P is) Q s"
  by (induction "is" arbitrary: s) (auto intro!: wp_file_close)

lemma wp_reset_all [hd_wp]:
  assumes "hinv ds fl s" "\<And>t. hinv ds fl t \<Longrightarrow> pend_valid (g_pend t) = False \<Longrightarrow> Q () t"
  shows "wp (reset_all env) Q s"
proof -
  have r: "hinv ds fl (t\<lparr>g_search := map (\<lambda>x. x\<lparr>ss_id := 0, ss_hits := []\<rparr>) (g_search t),
     g_cwd := map (\<lambda>c. []) (g_cwd t), g_pend := (g_pend t)\<lparr>pend_valid := False\<rparr>, g_dcache := []\<rparr>)"
    if "hinv ds fl t" for t
    using that by (auto simp: hinv_def tables_ok_def log_ok_def)
  show ?thesis
    unfolding reset_all_def dcache_drop_def
    using assms(1) by (auto intro!: wp_files_close [where fl = fl] assms(2) r)
qed

section \<open>The calls\<close>

definition handle_ok :: "drive list \<Rightarrow> (nat \<times> hfile) option \<Rightarrow> bool" where
  "handle_ok ds r \<longleftrightarrow> (\<forall>i f. r = Some (i, f) \<longrightarrow> i < HOSTDOS_MAX_FILES \<and> file_ok ds f \<and> hf_used f)"

lemma wp_rd_handle [hd_wp]:
  assumes "hinv ds fl s" and Q: "\<And>r t. hinv ds fl t \<Longrightarrow> handle_ok ds r \<Longrightarrow> Q r t"
  shows "wp (rd_handle env a) Q s"
proof -
  have "handle_ok ds (map_option (\<lambda>i. (i, g_files t ! i)) (file_of h (g_files t)))" if "hinv ds fl t" for h t
    using that hinv_file [OF that] by (auto simp: handle_ok_def file_of_def Let_def split: if_splits)
  then show ?thesis unfolding rd_handle_def using assms(1) by (auto intro!: wp_rd [where fl = fl] Q)
qed

lemma handle_ok_some: "handle_ok ds (Some (i, f)) \<longleftrightarrow> i < HOSTDOS_MAX_FILES \<and> file_ok ds f \<and> hf_used f"
  by (simp add: handle_ok_def)

lemma used_readable: "file_ok ds f \<Longrightarrow> hf_used f \<Longrightarrow> readable ds (hf_path f)"
  by (auto simp: file_ok_def)

lemma used_writable: "file_ok ds f \<Longrightarrow> hf_used f \<Longrightarrow> hf_canwrite f \<or> \<not> drive_ro ds (hf_drive f) \<Longrightarrow> writable ds (hf_path f)"
  by (auto simp: file_ok_def)

lemma hinv_run_sys:
  "hinv ds fl s \<Longrightarrow> call_ok ds c \<Longrightarrow> run_state (sys c f) s = (r, t) \<Longrightarrow> hinv ds fl t"
  by (rule wp_run [where Q = "\<lambda>r. hinv ds fl"]) (auto intro: wp_sys)

lemma hinv_run_read: "hinv ds fl s \<Longrightarrow> run_state (g_read env a n) s = (r, t) \<Longrightarrow> hinv ds fl t"
  by (rule wp_run [where Q = "\<lambda>r. hinv ds fl"]) (auto intro: wp_g_read)

lemma hinv_mem: "hinv ds fl (s\<lparr>gmem := m\<rparr>) = hinv ds fl s"
  by (simp add: hinv_def tables_ok_def log_ok_def)

lemma hinv_fread_loop:
  "hinv ds fl s \<Longrightarrow> readable ds (hf_path f) \<Longrightarrow> fread_loop env f buf cnt tot s = (r, t) \<Longrightarrow> hinv ds fl t"
proof (induction env f buf cnt tot s arbitrary: r t rule: fread_loop.induct)
  case (1 env f buf cnt tot s)
  let ?want = "if cnt - tot > 65536 then 65536 else cnt - tot :: u32"
  show ?case
  proof (cases "tot < cnt")
    case True
    obtain x s1 where x: "run_state (sys (Sys_read (hf_path f)) (px_read env (hf_fd f) (unat ?want))) s = (x, s1)"
      by (metis surj_pair)
    have s1: "hinv ds fl s1" using hinv_run_sys [OF _ _ x] 1 by simp
    show ?thesis
    proof (cases "case x of Inl e \<Rightarrow> True | Inr b \<Rightarrow> take (unat ?want) b = []")
      case stop: True
      then show ?thesis using 1(4) s1 True x
        by (subst (asm) fread_loop.simps) (auto simp: Let_def split: sum.splits if_splits)
    next
      case go: False
      then obtain b where b: "x = Inr b" "take (unat ?want) b \<noteq> []" by (cases x) auto
      then have "fread_loop env f buf cnt (tot + of_nat (length (take (unat ?want) b)))
          (s1\<lparr>gmem := mem_write env (buf + tot) (take (unat ?want) b) (gmem s1)\<rparr>) = (r, t)"
        using 1(4) True x by (subst (asm) fread_loop.simps) (simp add: Let_def)
      then show ?thesis
        using 1(1) [OF True refl x [symmetric] _ b(1) refl b(2)] 1(3) s1 by (simp add: hinv_mem)
    qed
  next
    case False
    then show ?thesis using 1(2,4) by (simp add: fread_loop.simps)
  qed
qed

lemma hinv_fwrite_loop:
  "hinv ds fl s \<Longrightarrow> writable ds (hf_path f) \<Longrightarrow> fwrite_loop env f buf cnt tot s = (r, t) \<Longrightarrow> hinv ds fl t"
proof (induction env f buf cnt tot s arbitrary: r t rule: fwrite_loop.induct)
  case (1 env f buf cnt tot s)
  let ?want = "if cnt - tot > 65536 then 65536 else cnt - tot :: u32"
  show ?case
  proof (cases "tot < cnt")
    case True
    obtain b s1 where b: "run_state (g_read env (buf + tot) (unat ?want)) s = (b, s1)" by (metis surj_pair)
    obtain x s2 where x: "run_state (sys (Sys_write (hf_path f)) (px_write env (hf_fd f) b)) s1 = (x, s2)"
      by (metis surj_pair)
    have s2: "hinv ds fl s2" using hinv_run_sys [OF hinv_run_read [OF 1(2) b] _ x] 1(3) by simp
    show ?thesis
    proof (cases "case x of Inl e \<Rightarrow> True | Inr put \<Rightarrow> put < unat ?want")
      case stop: True
      then show ?thesis using 1(4) s2 True x b
        by (subst (asm) fwrite_loop.simps) (auto simp: Let_def split: sum.splits if_splits)
    next
      case go: False
      then obtain put where p: "x = Inr put" "\<not> put < unat ?want" by (cases x) auto
      then have "fwrite_loop env f buf cnt (tot + ?want) s2 = (r, t)"
        using 1(4) True x b by (subst (asm) fwrite_loop.simps) (simp add: Let_def)
      then show ?thesis
        using 1(1) [OF True refl b [symmetric] refl x [symmetric] refl p(1) p(2)] 1(3) s2 by simp
    qed
  next
    case False
    then show ?thesis using 1(2,4) by (simp add: fwrite_loop.simps)
  qed
qed

lemma wp_fread_loop:
  "hinv ds fl s \<Longrightarrow> readable ds (hf_path f) \<Longrightarrow> (\<And>r t. hinv ds fl t \<Longrightarrow> Q r t) \<Longrightarrow>
   wp (State (fread_loop env f buf cnt tot)) Q s"
  unfolding wp_def by (auto split: prod.split dest: hinv_fread_loop)

lemma wp_fwrite_loop:
  "hinv ds fl s \<Longrightarrow> writable ds (hf_path f) \<Longrightarrow> (\<And>r t. hinv ds fl t \<Longrightarrow> Q r t) \<Longrightarrow>
   wp (State (fwrite_loop env f buf cnt tot)) Q s"
  unfolding wp_def by (auto split: prod.split dest: hinv_fwrite_loop)

lemma wp_do_fclose [hd_wp]:
  assumes "hinv ds fl s" and Q: "\<And>r t. hinv ds fl t \<Longrightarrow> Q r t"
  shows "wp (do_fclose env a) Q s"
  unfolding do_fclose_def Let_def
  using assms(1)
  by (auto split: option.split simp: handle_ok_some
      intro!: wp_rd_handle [where ds = ds and fl = fl] wp_file_close [where ds = ds and fl = fl] Q)

lemma wp_do_fread [hd_wp]:
  assumes "hinv ds fl s" and Q: "\<And>r t. hinv ds fl t \<Longrightarrow> Q r t"
  shows "wp (do_fread env a) Q s"
  unfolding do_fread_def Let_def
  using assms(1)
  by (auto split: option.split simp: handle_ok_some used_readable
      intro!: wp_rd_handle [where ds = ds and fl = fl] wp_rd [where ds = ds and fl = fl]
        wp_fread_loop [where ds = ds and fl = fl] Q)

lemma wp_do_fwrite [hd_wp]:
  assumes "hinv ds fl s" and Q: "\<And>r t. hinv ds fl t \<Longrightarrow> Q r t"
  shows "wp (do_fwrite env a) Q s"
  unfolding do_fwrite_def Let_def
  using assms(1)
  by (auto split: option.split simp: handle_ok_some used_writable
      intro!: wp_rd_handle [where ds = ds and fl = fl] wp_rd [where ds = ds and fl = fl]
        wp_fwrite_loop [where ds = ds and fl = fl] Q)

lemma wp_do_fseek [hd_wp]:
  assumes "hinv ds fl s" and Q: "\<And>r t. hinv ds fl t \<Longrightarrow> Q r t"
  shows "wp (do_fseek env a) Q s"
  unfolding do_fseek_def Let_def
  using assms(1)
  by (auto split: option.split simp: handle_ok_some used_readable
      intro!: wp_rd_handle [where ds = ds and fl = fl] wp_rd [where ds = ds and fl = fl]
        wp_sys [where ds = ds and fl = fl] Q)

lemma wp_do_fdatime [hd_wp]:
  assumes "hinv ds fl s" and Q: "\<And>r t. hinv ds fl t \<Longrightarrow> Q r t"
  shows "wp (do_fdatime env a) Q s"
  unfolding do_fdatime_def Let_def
  using assms(1)
  by (auto split: option.split simp: handle_ok_some used_readable used_writable
      intro!: wp_rd_handle [where ds = ds and fl = fl] wp_rd [where ds = ds and fl = fl]
        wp_wr [where ds = ds and fl = fl] wp_drive_table [where ds = ds and fl = fl]
        wp_sys [where ds = ds and fl = fl] Q)

lemma wp_do_fopen [hd_wp]:
  assumes "posix_ok env" "drive_ok ds d" "hinv ds fl s" and Q: "\<And>r t. hinv ds fl t \<Longrightarrow> Q r t"
  shows "wp (do_fopen env d a bp) Q s"
  unfolding do_fopen_def Let_def
  using assms(1-3)
  by (auto split: sum.splits simp: path_in_readable path_in_writable
      intro!: wp_rd [where ds = ds and fl = fl] wp_rdstr [where ds = ds and fl = fl]
        wp_drive_table [where ds = ds and fl = fl] wp_resolve [where ds = ds and fl = fl]
        wp_sys_open [where ds = ds and fl = fl] wp_file_new [where ds = ds and fl = fl] Q)

lemma wp_fcreate_finish:
  assumes "hinv ds (fd # fl) s" "0 \<le> fd" "path_in ds d p" "\<not> drive_ro ds d" "\<And>r t. hinv ds fl t \<Longrightarrow> Q r t"
  shows "wp (fcreate_finish env attr fd d bp p) Q s"
  unfolding fcreate_finish_def using assms(1-4)
  by (auto simp: path_in_writable intro!: wp_sys [where ds = ds and fl = "fd # fl"] assms(5)
      wp_dcache_drop [where ds = ds and fl = "fd # fl"] wp_file_new [where ds = ds and fl = fl])

lemma wp_do_fcreate [hd_wp]:
  assumes "posix_ok env" "drive_ok ds d" "hinv ds fl s" and Q: "\<And>r t. hinv ds fl t \<Longrightarrow> Q r t"
  shows "wp (do_fcreate env d a bp) Q s"
  unfolding do_fcreate_def Let_def
  using assms(1-3)
  by (auto split: sum.splits option.splits simp: new_ok_def path_in_readable path_in_writable
      intro!: wp_rd [where ds = ds and fl = fl] wp_rdstr [where ds = ds and fl = fl]
        wp_drive_table [where ds = ds and fl = fl] wp_resolve_new [where ds = ds and fl = fl]
        wp_sys_stat [where ds = ds and fl = fl] wp_fcreate_finish [where ds = ds and fl = fl]
        wp_sys_open [where ds = ds and fl = fl]
        Q)

lemma wp_do_fdelete [hd_wp]:
  assumes "posix_ok env" "drive_ok ds d" "hinv ds fl s" and Q: "\<And>r t. hinv ds fl t \<Longrightarrow> Q r t"
  shows "wp (do_fdelete env d a) Q s"
  unfolding do_fdelete_def Let_def
  using assms(1-3)
  by (auto split: sum.splits option.splits simp: path_in_writable
      intro!: wp_rd [where ds = ds and fl = fl] wp_rdstr [where ds = ds and fl = fl]
        wp_drive_table [where ds = ds and fl = fl] wp_resolve [where ds = ds and fl = fl]
        wp_sys [where ds = ds and fl = fl] wp_dcache_drop [where ds = ds and fl = fl] Q)

lemma wp_do_dcreate [hd_wp]:
  assumes "posix_ok env" "drive_ok ds d" "hinv ds fl s" and Q: "\<And>r t. hinv ds fl t \<Longrightarrow> Q r t"
  shows "wp (do_dcreate env d a) Q s"
  unfolding do_dcreate_def Let_def
  using assms(1-3)
  by (auto split: sum.splits option.splits simp: new_ok_def path_in_writable
      intro!: wp_rd [where ds = ds and fl = fl] wp_rdstr [where ds = ds and fl = fl]
        wp_drive_table [where ds = ds and fl = fl] wp_resolve_new [where ds = ds and fl = fl]
        wp_sys [where ds = ds and fl = fl] wp_dcache_drop [where ds = ds and fl = fl] Q)

lemma wp_do_ddelete [hd_wp]:
  assumes "posix_ok env" "drive_ok ds d" "hinv ds fl s" and Q: "\<And>r t. hinv ds fl t \<Longrightarrow> Q r t"
  shows "wp (do_ddelete env d a) Q s"
  unfolding do_ddelete_def Let_def
  using assms(1-3)
  by (auto split: sum.splits option.splits simp: path_in_writable
      intro!: wp_rd [where ds = ds and fl = fl] wp_rdstr [where ds = ds and fl = fl]
        wp_drive_table [where ds = ds and fl = fl] wp_parse [where ds = ds and fl = fl]
        wp_resolve_comps [where ds = ds and fl = fl] wp_sys [where ds = ds and fl = fl]
        wp_dcache_drop [where ds = ds and fl = fl] Q)

lemma wp_do_frename [hd_wp]:
  assumes "posix_ok env" "drive_ok ds d" "hinv ds fl s" and Q: "\<And>r t. hinv ds fl t \<Longrightarrow> Q r t"
  shows "wp (do_frename env d a) Q s"
  unfolding do_frename_def Let_def
  using assms(1-3)
  by (auto split: sum.splits option.splits simp: new_ok_def path_in_writable
      intro!: wp_rd [where ds = ds and fl = fl] wp_rdstr [where ds = ds and fl = fl]
        wp_drive_table [where ds = ds and fl = fl] wp_resolve [where ds = ds and fl = fl]
        wp_resolve_new [where ds = ds and fl = fl] wp_sys [where ds = ds and fl = fl]
        wp_dcache_drop [where ds = ds and fl = fl] Q)

lemma wp_do_fattrib [hd_wp]:
  assumes "posix_ok env" "drive_ok ds d" "hinv ds fl s" and Q: "\<And>r t. hinv ds fl t \<Longrightarrow> Q r t"
  shows "wp (do_fattrib env d a) Q s"
  unfolding do_fattrib_def Let_def
  using assms(1-3)
  by (auto split: sum.splits option.splits simp: path_in_writable
      intro!: wp_rd [where ds = ds and fl = fl] wp_rdstr [where ds = ds and fl = fl]
        wp_drive_table [where ds = ds and fl = fl] wp_resolve [where ds = ds and fl = fl]
        wp_sys [where ds = ds and fl = fl] Q)

lemma hinv_set_cwd:
  "hinv ds fl s \<Longrightarrow> list_all comp_ok c \<Longrightarrow> hinv ds fl (s\<lparr>g_cwd := (g_cwd s)[i := c]\<rparr>)"
  by (auto simp: hinv_def tables_ok_def log_ok_def dest!: set_update_subset_insert [THEN subsetD])

lemma wp_do_dsetpath [hd_wp]:
  assumes "posix_ok env" "drive_ok ds d" "hinv ds fl s" and Q: "\<And>r t. hinv ds fl t \<Longrightarrow> Q r t"
  shows "wp (do_dsetpath env d a) Q s"
  unfolding do_dsetpath_def Let_def
  using assms(1-3)
  by (auto split: sum.splits option.splits
      intro!: wp_rd [where ds = ds and fl = fl] wp_rdstr [where ds = ds and fl = fl]
        wp_drive_table [where ds = ds and fl = fl] wp_parse [where ds = ds and fl = fl]
        wp_resolve_comps [where ds = ds and fl = fl] hinv_set_cwd Q)

lemma wp_do_dgetpath [hd_wp]:
  assumes "hinv ds fl s" and Q: "\<And>r t. hinv ds fl t \<Longrightarrow> Q r t"
  shows "wp (do_dgetpath env d a) Q s"
  unfolding do_dgetpath_def Let_def
  using assms(1)
  by (auto
      intro!: wp_rd [where ds = ds and fl = fl] wp_g_write [where ds = ds and fl = fl] Q)

lemma wp_do_dfree [hd_wp]:
  assumes "posix_ok env" "drive_ok ds d" "hinv ds fl s" and Q: "\<And>r t. hinv ds fl t \<Longrightarrow> Q r t"
  shows "wp (do_dfree env d a) Q s"
  unfolding do_dfree_def Let_def
  using assms(1-3) path_in_readable [OF path_in_root [OF assms(2)]]
  by (auto split: option.splits
      intro!: wp_rd [where ds = ds and fl = fl] wp_wr [where ds = ds and fl = fl]
        wp_drive_table [where ds = ds and fl = fl] wp_sys [where ds = ds and fl = fl] Q)

lemma hinv_set_pend:
  "hinv ds fl s \<Longrightarrow> (pend_valid p \<longrightarrow> readable ds (pend_path p)) \<Longrightarrow> hinv ds fl (s\<lparr>g_pend := p\<rparr>)"
  by (auto simp: hinv_def tables_ok_def log_ok_def)

lemma wp_do_pexec [hd_wp]:
  assumes "posix_ok env" "drive_ok ds d" "hinv ds fl s" and Q: "\<And>r t. hinv ds fl t \<Longrightarrow> Q r t"
  shows "wp (do_pexec env d a) Q s"
  unfolding do_pexec_def Let_def
  using assms(1-3)
  by (auto split: sum.splits option.splits simp: path_in_readable
      intro!: wp_rd [where ds = ds and fl = fl] wp_rdstr [where ds = ds and fl = fl]
        wp_resolve [where ds = ds and fl = fl] wp_sys [where ds = ds and fl = fl] hinv_set_pend Q)

lemma hinv_put_search: "hinv ds fl s \<Longrightarrow> hinv ds fl (s\<lparr>g_search := (g_search s)[i := x]\<rparr>)"
  by (simp add: hinv_def tables_ok_def log_ok_def)

lemma wp_put_search [hd_wp]: "hinv ds fl s \<Longrightarrow> (\<And>t. hinv ds fl t \<Longrightarrow> Q () t) \<Longrightarrow> wp (put_search i x) Q s"
  by (simp add: put_search_def hinv_put_search)

lemma wp_dta_fill [hd_wp]: "hinv ds fl s \<Longrightarrow> (\<And>t. hinv ds fl t \<Longrightarrow> Q () t) \<Longrightarrow> wp (dta_fill env dta i h) Q s"
  unfolding dta_fill_def by (rule wp_g_write)

lemma wp_search_hits:
  "hinv ds fl s \<Longrightarrow> path_in ds d dir \<Longrightarrow> \<forall>e \<in> set m. comp_ok (ent_host e) \<Longrightarrow>
   (\<And>r t. hinv ds fl t \<Longrightarrow> Q r t) \<Longrightarrow> wp (search_hits env dir pat attr m) Q s"
proof (induction m arbitrary: s Q)
  case (Cons e m)
  have "readable ds (dir @ CHR ''/'' # ent_host e)" using Cons.prems(2,3) by (intro readable_sub) auto
  then show ?case
    using Cons.prems(1,2,3)
    by (auto split: option.split intro!: wp_sys_stat [where ds = ds and fl = fl] Cons.IH Cons.prems(4))
qed auto

lemma wp_dot_hits:
  "hinv ds fl s \<Longrightarrow> readable ds dir \<Longrightarrow> (\<And>r t. hinv ds fl t \<Longrightarrow> Q r t) \<Longrightarrow> wp (dot_hits env dir pat b) Q s"
  by (auto simp: dot_hits_def intro!: wp_sys_stat [where ds = ds and fl = fl])

lemma wp_do_fsnext [hd_wp]:
  assumes "hinv ds fl s" and Q: "\<And>r t. hinv ds fl t \<Longrightarrow> Q r t"
  shows "wp (do_fsnext env dta) Q s"
  unfolding do_fsnext_def Let_def
  using assms(1)
  by (auto split: option.split
      intro!: wp_rd [where ds = ds and fl = fl] wp_put_search [where ds = ds and fl = fl]
        wp_dta_fill [where ds = ds and fl = fl] Q)

lemma hinv_next_search: "hinv ds fl (s\<lparr>g_next_search := n\<rparr>) = hinv ds fl s"
  by (simp add: hinv_def tables_ok_def log_ok_def)

lemma wp_do_fsfirst [hd_wp]:
  assumes "posix_ok env" "drive_ok ds d" "hinv ds fl s" and Q: "\<And>r t. hinv ds fl t \<Longrightarrow> Q r t"
  shows "wp (do_fsfirst env d a dta) Q s"
  unfolding do_fsfirst_def Let_def
  using assms(1-3)
  by (auto split: sum.splits option.splits simp: path_in_readable ents_ok_def hinv_next_search
      intro!: wp_rd [where ds = ds and fl = fl] wp_rdstr [where ds = ds and fl = fl]
        wp_parse [where ds = ds and fl = fl] wp_walk [where ds = ds and fl = fl]
        wp_put_search [where ds = ds and fl = fl] wp_dot_hits [where ds = ds and fl = fl]
        wp_map_dir [where ds = ds and fl = fl] wp_search_hits [where ds = ds and fl = fl]
        wp_dta_fill [where ds = ds and fl = fl] Q)

lemma wp_load_writes [hd_wp]:
  assumes "hinv ds fl s" and Q: "\<And>r t. hinv ds fl t \<Longrightarrow> Q r t"
  shows "wp (load_writes env p bp tbase hitpa im) Q s"
  unfolding load_writes_def Let_def
  using assms(1)
  by (auto
      intro!: wp_g_write [where ds = ds and fl = fl] wp_wrzero [where ds = ds and fl = fl]
        wp_wr [where ds = ds and fl = fl] Q)

lemma pend_readable: "hinv ds fl s \<Longrightarrow> pend_valid (g_pend s) \<Longrightarrow> readable ds (pend_path (g_pend s))"
  by (simp add: hinv_def tables_ok_def)

lemma wp_do_load [hd_wp]:
  assumes "hinv ds fl s" and Q: "\<And>r t. hinv ds fl t \<Longrightarrow> Q r t"
  shows "wp (do_load env bp) Q s"
  unfolding do_load_def Let_def
  using assms(1)
  by (auto split: sum.splits option.splits
      intro!: wp_rd [where ds = ds and fl = fl] wp_sys [where ds = ds and fl = fl]
        wp_load_writes [where ds = ds and fl = fl] hinv_set_pend pend_readable Q)

lemma wp_dispatch [hd_wp]:
  assumes "posix_ok env" "hinv ds fl s" and Q: "\<And>r t. hinv ds fl t \<Longrightarrow> Q r t"
  shows "wp (dispatch env a d bp dta) Q s"
  unfolding dispatch_def Let_def
  using assms(1,2)
  by (auto
      intro!: wp_rd [where ds = ds and fl = fl] wp_drive_table [where ds = ds and fl = fl]
        wp_do_fclose [where ds = ds and fl = fl] wp_do_fread [where ds = ds and fl = fl]
        wp_do_fwrite [where ds = ds and fl = fl] wp_do_fseek [where ds = ds and fl = fl]
        wp_do_fdatime [where ds = ds and fl = fl] wp_do_fsnext [where ds = ds and fl = fl]
        wp_do_dfree [where ds = ds and fl = fl] wp_do_dcreate [where ds = ds and fl = fl]
        wp_do_ddelete [where ds = ds and fl = fl] wp_do_dsetpath [where ds = ds and fl = fl]
        wp_do_fcreate [where ds = ds and fl = fl] wp_do_fopen [where ds = ds and fl = fl]
        wp_do_fdelete [where ds = ds and fl = fl] wp_do_fattrib [where ds = ds and fl = fl]
        wp_do_dgetpath [where ds = ds and fl = fl] wp_do_pexec [where ds = ds and fl = fl]
        wp_do_fsfirst [where ds = ds and fl = fl] wp_do_frename [where ds = ds and fl = fl] Q)

end
