(* ===== verification/Hostdos.thy ===== *)
theory Hostdos
  imports Hostdos_Safety
begin

text \<open>
  The HOSTDOS engine as a machine: the entry points of \<open>hostdos.cpp\<close> in any order, with any guest
  memory and any answers of the host, and what holds in every state it can reach.
\<close>

section \<open>Closing a set of handles\<close>

definition closed :: "hfile \<Rightarrow> hfile" where
  "closed f = f\<lparr>hf_used := False, hf_fd := -1, hf_path := []\<rparr>"

lemma wp_conj: "wp m P s \<Longrightarrow> wp m Q s \<Longrightarrow> wp m (\<lambda>r t. P r t \<and> Q r t) s"
  by (auto simp: wp_def split: prod.splits)

lemma file_close_files:
  assumes "\<And>t. g_files t = (g_files s)[i := closed (g_files s ! i)] \<Longrightarrow> Q () t"
  shows "wp (file_close env i) Q s"
  by (auto simp: file_close_def sys_close_def sys_def wp_def modify_def gets_def closed_def intro!: assms)

definition close_if :: "(hfile \<Rightarrow> bool) \<Rightarrow> nat list \<Rightarrow> hfile list \<Rightarrow> hfile list" where
  "close_if P is fs = map (\<lambda>i. if i \<in> set is \<and> P (fs ! i) then closed (fs ! i) else fs ! i) [0..<length fs]"

lemma close_if_Nil: "close_if P [] fs = fs"
  by (simp add: close_if_def map_nth)

lemma close_if_Cons:
  assumes "i \<notin> set is" "i < length fs"
  shows "close_if P is (if P (fs ! i) then fs[i := closed (fs ! i)] else fs) = close_if P (i # is) fs"
  using assms by (cases "P (fs ! i)"; intro nth_equalityI) (auto simp: close_if_def nth_list_update)

lemma files_close_files:
  "distinct is \<Longrightarrow> \<forall>i \<in> set is. i < length (g_files s) \<Longrightarrow>
   wp (files_close env P is) (\<lambda>_ t. g_files t = close_if P is (g_files s)) s"
proof (induction "is" arbitrary: s)
  case (Cons i "is")
  have "wp (files_close env P is) (\<lambda>_ t. g_files t = close_if P (i # is) (g_files s)) u"
    if "g_files u = (if P (g_files s ! i) then (g_files s)[i := closed (g_files s ! i)] else g_files s)" for u
    using Cons.IH [of u] Cons.prems that close_if_Cons [of i "is" "g_files s" P] by (simp split: if_splits)
  then show ?case by (auto intro!: file_close_files)
qed (simp add: close_if_Nil)

section \<open>Entry points\<close>

lemma reset_all_unused:
  assumes "length (g_files s) = HOSTDOS_MAX_FILES"
  shows "wp (reset_all env) (\<lambda>_ t. (\<forall>f \<in> set (g_files t). \<not> hf_used f) \<and> g_dcache t = [] \<and> \<not> pend_valid (g_pend t)) s"
proof -
  have "wp (files_close env (\<lambda>f. True) [0..<HOSTDOS_MAX_FILES])
         (\<lambda>_ t. g_files t = close_if (\<lambda>f. True) [0..<HOSTDOS_MAX_FILES] (g_files s)) s"
    using assms by (intro files_close_files) auto
  then show ?thesis
    unfolding reset_all_def dcache_drop_def
    using assms by (auto simp: close_if_def closed_def elim!: wp_mono)
qed

lemma hinv_mint: "hinv ds fl (s\<lparr>g_mint := b\<rparr>) = hinv ds fl s"
  by (simp add: hinv_def tables_ok_def log_ok_def)

lemma hinv_new_drives:
  assumes "hinv ds fl s" "\<forall>f \<in> set (g_files s). \<not> hf_used f" "\<not> pend_valid (g_pend s)" "length ds' = NDRIVES"
  shows "hinv ds' fl (s\<lparr>g_drives := ds', g_mem_set := b, g_mint := c\<rparr>)"
  using assms by (auto simp: hinv_def tables_ok_def log_ok_def file_ok_def)

lemma wp_hostdos_init:
  assumes "hinv ds fl s" "\<forall>l. drives = Some l \<longrightarrow> length l = NDRIVES"
  shows "wp (hostdos_init env drives mem) (\<lambda>_ t. \<exists>ds'. hinv ds' fl t) s"
proof -
  have "wp (reset_all env) (\<lambda>_ t. (hinv ds fl t) \<and> (\<forall>f \<in> set (g_files t). \<not> hf_used f) \<and> g_dcache t = [] \<and>
          \<not> pend_valid (g_pend t)) s"
    using assms(1) by (intro wp_conj wp_reset_all [where ds = ds and fl = fl] reset_all_unused)
      (auto simp: hinv_def tables_ok_def)
  moreover let ?n = "case drives of None \<Rightarrow> replicate NDRIVES no_drive | Some l \<Rightarrow> take NDRIVES l"
  have "length ?n = NDRIVES" using assms(2) by (auto split: option.split)
  ultimately show ?thesis
    unfolding hostdos_init_def
    by (auto elim!: wp_mono intro!: exI [of _ ?n] hinv_new_drives simp del: wp_option)
qed

lemma wp_hostdos_note_mint:
  "hinv ds fl s \<Longrightarrow> wp (hostdos_note_mint env) (\<lambda>_. hinv ds fl) s"
  by (auto simp: hostdos_note_mint_def hinv_mint intro!: wp_reset_all)

lemma wp_hostdos_call:
  "posix_ok env \<Longrightarrow> hinv ds fl s \<Longrightarrow> wp (hostdos_call env subid p) (\<lambda>_. hinv ds fl) s"
  unfolding hostdos_call_def
  by (auto simp: hinv_mint intro!: wp_reset_all [where ds = ds and fl = fl] wp_files_close [where ds = ds and fl = fl]
      wp_dispatch [where ds = ds and fl = fl] wp_do_load [where ds = ds and fl = fl])

lemma wp_hostdos_gemdos_to_host:
  "posix_ok env \<Longrightarrow> hinv ds fl s \<Longrightarrow> wp (hostdos_gemdos_to_host env gem n) (\<lambda>_. hinv ds fl) s"
  unfolding hostdos_gemdos_to_host_def Let_def
  by (auto intro!: wp_drive_table [where ds = ds and fl = fl] wp_resolve [where ds = ds and fl = fl])

section \<open>The machine\<close>

text \<open>The static initial values, and the state behind the callbacks and the host arbitrary.\<close>

definition hd_power_up :: "('m, 'w) hostdos \<Rightarrow> bool" where
  "hd_power_up s \<longleftrightarrow>
     g_drives s = replicate NDRIVES no_drive \<and> \<not> g_mint s \<and> g_dcache s = [] \<and> g_cwd s = replicate NDRIVES [] \<and>
     g_files s = replicate HOSTDOS_MAX_FILES
       \<lparr>hf_used = False, hf_fd = 0, hf_drive = 0, hf_canwrite = False, hf_owner = 0, hf_path = []\<rparr> \<and>
     g_search s = replicate MAX_SEARCHES \<lparr>ss_id = 0, ss_hits = [], ss_pos = 0\<rparr> \<and> g_next_search s = 1 \<and>
     \<not> pend_valid (g_pend s) \<and> \<not> g_mem_set s \<and> sys_log s = [] \<and> open_fds s = (\<lambda>fd. 0)"

definition after :: "('s, 'a) state \<Rightarrow> 's \<Rightarrow> 's" where
  "after m s = snd (run_state m s)"

text \<open>Between two calls the guest may change its memory and the host its files; the environment may
  be another one at every step.\<close>

inductive hd_step :: "('m, 'w) hostdos \<Rightarrow> ('m, 'w) hostdos \<Rightarrow> bool" where
  hd_init: "posix_ok env \<Longrightarrow> (\<forall>l. drives = Some l \<longrightarrow> length l = NDRIVES) \<Longrightarrow>
    hd_step s (after (hostdos_init env drives mem) s)"
| hd_mint: "posix_ok env \<Longrightarrow> hd_step s (after (hostdos_note_mint env) s)"
| hd_call: "posix_ok env \<Longrightarrow> hd_step s (after (hostdos_call env subid p) s)"
| hd_outside: "hd_step s (s\<lparr>gmem := m, world := w\<rparr>)"
| hd_to_host: "posix_ok env \<Longrightarrow> hd_step s (after (hostdos_gemdos_to_host env gem n) s)"

definition hd_inv :: "('m, 'w) hostdos \<Rightarrow> bool" where
  "hd_inv s \<longleftrightarrow> hinv (g_drives s) [] s"

lemma wp_after: "wp m (\<lambda>_. P) s \<Longrightarrow> P (after m s)"
  by (simp add: wp_def after_def split_def)

lemma hd_invI: "hinv ds [] s \<Longrightarrow> hd_inv s"
  by (simp add: hd_inv_def hinv_drives)

interpretation hd: invariant_system hd_power_up hd_step hd_inv
proof unfold_locales
  show "hd_inv s" if "hd_power_up s" for s :: "('m, 'w) hostdos"
    using that by (auto simp: hd_power_up_def hd_inv_def hinv_def tables_ok_def log_ok_def fd_count_def
        file_ok_def in_set_replicate)
  show "hd_inv t" if "hd_inv s" "hd_step s t" for s t :: "('m, 'w) hostdos"
    using that(2,1)
  proof (induction rule: hd_step.induct)
    case (hd_init env drives s mem)
    then show ?case
      using wp_after [OF wp_hostdos_init [of "g_drives s" "[]" s drives env mem]] by (auto simp: hd_inv_def [of s] intro: hd_invI)
  next
    case (hd_outside s m w)
    then show ?case by (simp add: hd_inv_def hinv_def tables_ok_def log_ok_def)
  qed (auto simp: hd_inv_def intro!: hd_invI [unfolded hd_inv_def] elim: wp_after
         dest: wp_hostdos_call wp_hostdos_note_mint wp_hostdos_gemdos_to_host)
qed

section \<open>An example host\<close>

text \<open>One empty directory \<open>/srv\<close>; every file holds \<open>content\<close>, every other call succeeds.\<close>

definition demo_host :: "(u32 \<Rightarrow> nat \<Rightarrow> 'm \<Rightarrow> u8 list \<times> 'm) \<Rightarrow> (u32 \<Rightarrow> u8 list \<Rightarrow> 'm \<Rightarrow> 'm) \<Rightarrow> u8 list
    \<Rightarrow> ('m, unit) hostdos_env" where
  "demo_host rd wr content = \<lparr>mem_read = rd, mem_write = wr,
     px_stat = (\<lambda>p w. (if p = ''/srv''
       then Some \<lparr>st_mode = 0x41ED, st_size = 0, st_mtime = 0, st_mtim_nsec = 0\<rparr> else None, w)),
     px_readdir = (\<lambda>p w. (Some [''.'', ''..''], w)), px_statvfs = (\<lambda>p w. (None, w)), px_fread = (\<lambda>p w. (Inr content, w)),
     px_open = (\<lambda>p fl w. (Inr 5, w)), px_close = (\<lambda>fd w. w), px_read = (\<lambda>fd n w. (Inr [], w)),
     px_fstat = (\<lambda>fd w. (None, w)), px_lseek = (\<lambda>fd p h w. (p, w)), px_write = (\<lambda>fd b w. (Inr (length b), w)),
     px_futimens = (\<lambda>fd t w. (None, w)), px_fchmod = (\<lambda>fd m w. w), px_unlink = (\<lambda>p w. (None, w)),
     px_mkdir = (\<lambda>p w. (None, w)), px_rmdir = (\<lambda>p w. (None, w)), px_rename = (\<lambda>p q w. (None, w)),
     px_chmod = (\<lambda>p m w. (None, w)), 
     px_localtime = (\<lambda>t. \<lparr>tm_sec = 0, tm_min = 0, tm_hour = 0, tm_mday = 1, tm_mon = 0, tm_year = 100\<rparr>),
     px_mktime = (\<lambda>t. 0)\<rparr>"

definition demo_env :: "(u32 \<Rightarrow> u8, unit) hostdos_env" where
  "demo_env = demo_host (\<lambda>a n m. (map (\<lambda>i. m (a + of_nat i)) [0..<n], m))
     (\<lambda>a b m. foldl (\<lambda>m (i, v). m(a + of_nat i := v)) m (zip [0..<length b] b)) []"

text \<open>The argument block of GEMDOS call \<open>fn\<close> on the name \<open>N\<close>.\<close>

definition demo_mem :: "u8 \<Rightarrow> u32 \<Rightarrow> u8" where
  "demo_mem fn a = (if a = 0x101 then fn else if a = 0x104 then 2 else if a = 0x200 then 0x4E else 0)"

definition demo_power_up :: "'m \<Rightarrow> ('m, unit) hostdos" where
  "demo_power_up m = \<lparr>g_drives = replicate NDRIVES no_drive, g_mint = False, g_dcache = [], g_cwd = replicate NDRIVES [],
     g_files = replicate HOSTDOS_MAX_FILES
       \<lparr>hf_used = False, hf_fd = 0, hf_drive = 0, hf_canwrite = False, hf_owner = 0, hf_path = []\<rparr>,
     g_search = replicate MAX_SEARCHES \<lparr>ss_id = 0, ss_hits = [], ss_pos = 0\<rparr>, g_next_search = 1,
     g_pend = \<lparr>pend_valid = False, pend_path = [], pend_tlen = 0, pend_dlen = 0, pend_blen = 0,
       pend_slen = 0, pend_flags = 0, pend_absflag = 0\<rparr>,
     g_mem_set = False, gmem = m, world = (), sys_log = [], open_fds = (\<lambda>fd. 0)\<rparr>"

definition demo_drives :: "drive list" where
  "demo_drives = replicate NDRIVES \<lparr>drv_enabled = True, drv_readonly = False, drv_path = ''/srv''\<rparr>"

definition demo_call :: "u8 \<Rightarrow> (u32 \<Rightarrow> u8, unit) hostdos" where
  "demo_call fn =
     after (hostdos_call demo_env 2 [0x100, 2, 0, 0])
       (after (hostdos_init demo_env (Some demo_drives) True) (demo_power_up (demo_mem fn)))"

lemma demo_posix_ok: "posix_ok demo_env"
  by (simp add: posix_ok_def demo_env_def demo_host_def)

lemma demo_reach: "reach hd_power_up hd_step (demo_call fn)"
proof -
  have "hd_power_up (demo_power_up (demo_mem fn))" by (simp add: hd_power_up_def demo_power_up_def)
  then have "reach hd_power_up hd_step (demo_power_up (demo_mem fn))" by (rule reach.start)
  then have "reach hd_power_up hd_step (after (hostdos_init demo_env (Some demo_drives) True) (demo_power_up (demo_mem fn)))"
    by (rule reach.step) (rule hd_step.hd_init [OF demo_posix_ok], simp add: demo_drives_def)
  then show ?thesis
    unfolding demo_call_def by (rule reach.step) (rule hd_step.hd_call [OF demo_posix_ok])
qed

section \<open>What every reachable state satisfies\<close>

text \<open>C2: HOSTDOS stays inside its drives. Whatever the guest calls, in any order, with any arguments
  and whatever the host answers, every path the engine hands to the host is the root of an enabled
  drive followed by components that hold no slash and are neither \<open>.\<close> nor \<open>..\<close>; and every call that
  can change the host (opening for writing, creating, writing, renaming, removing, changing
  attributes or times) is on a drive that is not read-only.\<close>
theorem hostdos_stays_in_drives:
  assumes "reach hd_power_up hd_step s" "(ds, c) \<in> set (sys_log s)"
  shows "call_ok ds c"
  using hd.reach_inv [OF assms(1)] assms(2) by (auto simp: hd_inv_def hinv_def log_ok_def)

theorem hostdos_stays_in_drives_witness:
  "reach hd_power_up hd_step (demo_call 0x39) \<and>
   (demo_drives, Sys_mkdir ''/srv/N'') \<in> set (sys_log (demo_call 0x39)) \<and> call_ok demo_drives (Sys_mkdir ''/srv/N'')"
proof -
  have m: "(demo_drives, Sys_mkdir ''/srv/N'') \<in> set (sys_log (demo_call 0x39))" by code_simp
  show ?thesis using hostdos_stays_in_drives [OF demo_reach m] m demo_reach by blast
qed

text \<open>C14: The handle table owns exactly the open descriptors: in every reachable state, a descriptor
  has been opened as many times more than closed as there are handles in use that hold it. No call
  leaks a descriptor, closes one twice, or hands out a handle beyond the 32 of the table. Streams that the
  code opens and closes within one call (\<open>fopen\<close>, \<open>opendir\<close>) are single calls of the host interface and
  not counted.\<close>
theorem hostdos_no_descriptor_leak:
  assumes "reach hd_power_up hd_step s"
  shows "open_fds s fd = fd_count (g_files s) fd \<and> length (g_files s) = HOSTDOS_MAX_FILES"
  using hd.reach_inv [OF assms] by (auto simp: hd_inv_def hinv_def tables_ok_def)

theorem hostdos_no_descriptor_leak_witness:
  "reach hd_power_up hd_step (demo_call 0x3C) \<and> fd_count (g_files (demo_call 0x3C)) 5 = 1 \<and>
   open_fds (demo_call 0x3C) 5 = 1"
proof -
  have "fd_count (g_files (demo_call 0x3C)) 5 = 1" by code_simp
  then show ?thesis using hostdos_no_descriptor_leak [OF demo_reach, of "0x3C" 5] demo_reach by metis
qed

section \<open>Single calls\<close>

text \<open>\<open>HOSTDOS_OP_PTERM\<close> closes exactly the handles of the process that ends: its slots are
  emptied, every other slot is untouched, and the descriptors still open are those of the others.\<close>
theorem pterm_closes_owner:
  fixes env :: "('m, 'w) hostdos_env" and s :: "('m, 'w) hostdos" and bp :: u32 and p :: "u32 list"
  defines "t \<equiv> after (hostdos_call env 3 (bp # p)) s"
  assumes "reach hd_power_up hd_step s" "g_mem_set s" "posix_ok env"
  shows "g_files t = map (\<lambda>f. if hf_used f \<and> hf_owner f = bp then closed f else f) (g_files s) \<and>
    open_fds t fd = fd_count (filter (\<lambda>f. hf_owner f \<noteq> bp) (g_files s)) fd"
proof -
  have inv: "hd_inv s" using hd.reach_inv [OF assms(2)] .
  then have len: "length (g_files s) = HOSTDOS_MAX_FILES" by (simp add: hd_inv_def hinv_def tables_ok_def)
  have "wp (hostdos_call env 3 (bp # p))
      (\<lambda>_ t. g_files t = close_if (\<lambda>f. hf_used f \<and> hf_owner f = bp) [0..<HOSTDOS_MAX_FILES] (g_files s)) s"
    using files_close_files [of "[0..<HOSTDOS_MAX_FILES]" s env "\<lambda>f. hf_used f \<and> hf_owner f = bp"] len assms(3)
    by (simp add: hostdos_call_def wp_return_fun)
  from wp_after [OF this] have f: "g_files t =
      map (\<lambda>f. if hf_used f \<and> hf_owner f = bp then closed f else f) (g_files s)"
    unfolding assms(1) using len by (auto simp: close_if_def intro!: nth_equalityI)
  have "reach hd_power_up hd_step t"
    unfolding assms(1) using assms(2,4) by (blast intro: reach.step hd_step.hd_call)
  then have "open_fds t fd = fd_count (g_files t) fd"
    using hd.reach_inv by (force simp: hd_inv_def hinv_def)
  also have "\<dots> = fd_count (filter (\<lambda>f. hf_owner f \<noteq> bp) (g_files s)) fd"
    unfolding f by (simp add: fd_count_def filter_map comp_def closed_def)
      (rule arg_cong [where f = length], rule filter_cong, auto)
  finally show ?thesis using f by simp
qed

theorem pterm_closes_owner_witness:
  "reach hd_power_up hd_step (demo_call 0x3C) \<and> hf_used (g_files (demo_call 0x3C) ! 0) \<and>
   g_files (after (hostdos_call demo_env 3 [0]) (demo_call 0x3C)) =
     map (\<lambda>f. if hf_used f \<and> hf_owner f = 0 then closed f else f) (g_files (demo_call 0x3C)) \<and>
   open_fds (after (hostdos_call demo_env 3 [0]) (demo_call 0x3C)) 5 =
     fd_count (filter (\<lambda>f. hf_owner f \<noteq> 0) (g_files (demo_call 0x3C))) 5"
proof -
  have "g_mem_set (demo_call 0x3C)" "hf_used (g_files (demo_call 0x3C) ! 0)" by code_simp+
  then show ?thesis
    using pterm_closes_owner [of "demo_call 0x3C" demo_env 0 "[]" 5] demo_reach demo_posix_ok by blast
qed

text \<open>A file of 2 GB behind the handle that \<open>Fcreate\<close> gave out, and the arguments of
  \<open>Fseek(0, 64, 2)\<close>.\<close>

definition big_env :: "(u32 \<Rightarrow> u8, unit) hostdos_env" where
  "big_env = demo_env\<lparr>px_fstat := \<lambda>fd w. (Some \<lparr>st_mode = 0x81A4, st_size = 2 ^ 31, st_mtime = 0, st_mtim_nsec = 0\<rparr>, w)\<rparr>"

definition seek_mem :: "u32 \<Rightarrow> u8" where
  "seek_mem a = (if a = 0x101 then 0x42 else if a = 0x107 then 64 else if a = 0x109 then 2 else 0)"

definition big_state :: "(u32 \<Rightarrow> u8, unit) hostdos" where
  "big_state = (demo_call 0x3C)\<lparr>gmem := seek_mem, world := ()\<rparr>"

text \<open>Seeking to the end of a file of exactly 2 GB answers \<open>HOSTDOS_PASS\<close>: the position is cast to
  32 bits without a bound, so a call that was served looks to the guest like one that is not for
  this engine.\<close>
theorem fseek_position_is_pass:
  "reach hd_power_up hd_step big_state \<and> fst (run_state (hostdos_call big_env 2 [0x100, 2, 0, 0]) big_state) = HOSTDOS_PASS"
proof
  show "reach hd_power_up hd_step big_state"
    unfolding big_state_def by (rule reach.step [OF demo_reach hd_step.hd_outside])
qed code_simp

section \<open>Time stamps\<close>

lemma push_bit_or_int:
  fixes a b :: int
  assumes "0 \<le> b" "b < 2 ^ n"
  shows "push_bit n a OR b = a * 2 ^ n + b"
proof -
  have "take_bit n b = b" using assms by (simp add: take_bit_int_eq_self)
  then have "\<not> bit b i" if "n \<le> i" for i using that by (metis bit_take_bit_iff linorder_not_less)
  then have "push_bit n a AND b = 0" by (intro bit_eqI) (auto simp: bit_simps)
  then show ?thesis by (simp add: disjunctive_add_eq_or [symmetric] push_bit_eq_mult)
qed

lemma pack_fields:
  fixes a b c :: int
  assumes "0 \<le> b" "b < 2 ^ m" "0 \<le> c" "c < 2 ^ n"
  shows "(push_bit (m + n) a OR push_bit n b) OR c = (a * 2 ^ m + b) * 2 ^ n + c"
proof -
  have "push_bit (m + n) a OR push_bit n b = push_bit n (push_bit m a OR b)"
    by (simp add: push_bit_or add.commute)
  then show ?thesis using assms by (simp add: push_bit_or_int)
qed

lemma unpack_fields:
  fixes a b c :: int
  assumes "0 \<le> b" "b < 2 ^ m" "0 \<le> c" "c < 2 ^ n"
  shows "((a * 2 ^ m + b) * 2 ^ n + c) mod 2 ^ n = c" "((a * 2 ^ m + b) * 2 ^ n + c) div 2 ^ n mod 2 ^ m = b"
    "((a * 2 ^ m + b) * 2 ^ n + c) div 2 ^ (m + n) = a"
proof -
  have d: "((a * 2 ^ m + b) * 2 ^ n + c) div 2 ^ n = a * 2 ^ m + b" using assms by simp
  show "((a * 2 ^ m + b) * 2 ^ n + c) mod 2 ^ n = c" using assms by simp
  show "((a * 2 ^ m + b) * 2 ^ n + c) div 2 ^ n mod 2 ^ m = b" unfolding d using assms by simp
  have "2 ^ (m + n) = (2 ^ n * 2 ^ m :: int)" by (simp add: power_add)
  then have "((a * 2 ^ m + b) * 2 ^ n + c) div 2 ^ (m + n) = ((a * 2 ^ m + b) * 2 ^ n + c) div 2 ^ n div 2 ^ m"
    by (simp only: zdiv_zmult2_eq zero_le_power zero_le_numeral)
  then show "((a * 2 ^ m + b) * 2 ^ n + c) div 2 ^ (m + n) = a" unfolding d using assms by simp
qed

lemma uint_field: "uint (drop_bit k w AND mask n) = uint w div 2 ^ k mod 2 ^ n" for w :: "'a::len word"
  by (simp only: uint_nat unat_and_mask unat_drop_bit of_nat_mod of_nat_div of_nat_power of_nat_numeral)

lemma uint_u16: "0 \<le> x \<Longrightarrow> x < 65536 \<Longrightarrow> uint (word_of_int x :: u16) = x"
  by (simp add: uint_word_of_int)

definition tm_ok :: "tm \<Rightarrow> bool" where
  "tm_ok m \<longleftrightarrow> 0 \<le> tm_sec m \<and> tm_sec m \<le> 61 \<and> 0 \<le> tm_min m \<and> tm_min m \<le> 59 \<and> 0 \<le> tm_hour m \<and> tm_hour m \<le> 23 \<and>
     1 \<le> tm_mday m \<and> tm_mday m \<le> 31 \<and> 0 \<le> tm_mon m \<and> tm_mon m \<le> 11"

text \<open>GEMDOS time stamps round trip: for a local time of the years 1980 to 2107 whose fields are in
  the ranges of the C library, unpacking the packed time and date gives the same broken-down time
  with the seconds rounded down to even.\<close>
theorem dos_stamp_roundtrip:
  assumes "tm_ok (px_localtime env t)" "80 \<le> tm_year (px_localtime env t)" "tm_year (px_localtime env t) \<le> 207"
  shows "dos_tm (dos_time env t) (dos_date env t) =
    (px_localtime env t)\<lparr>tm_sec := tm_sec (px_localtime env t) div 2 * 2\<rparr>"
proof -
  obtain m where m: "px_localtime env t = m" by simp
  have r: "0 \<le> tm_sec m div 2" "tm_sec m div 2 < 2 ^ 5" "0 \<le> tm_min m" "tm_min m < 2 ^ 6" "0 \<le> tm_hour m" "tm_hour m < 2 ^ 5"
    "0 \<le> tm_mday m" "tm_mday m < 2 ^ 5" "0 \<le> tm_mon m + 1" "tm_mon m + 1 < 2 ^ 4" "0 \<le> tm_year m - 80" "tm_year m - 80 < 2 ^ 7"
    using assms unfolding m tm_ok_def by auto
  have "dos_time env t = word_of_int ((tm_hour m * 2 ^ 6 + tm_min m) * 2 ^ 5 + tm_sec m div 2)"
    using r pack_fields [of "tm_min m" 6 "tm_sec m div 2" 5 "tm_hour m"] by (simp add: dos_time_def m Let_def)
  moreover have "0 \<le> (tm_hour m * 2 ^ 6 + tm_min m) * 2 ^ 5 + tm_sec m div 2"
    "(tm_hour m * 2 ^ 6 + tm_min m) * 2 ^ 5 + tm_sec m div 2 < 65536" using r by auto
  ultimately have T: "uint (dos_time env t) = (tm_hour m * 2 ^ 6 + tm_min m) * 2 ^ 5 + tm_sec m div 2"
    by (simp only: uint_u16)
  have "dos_date env t = word_of_int (((tm_year m - 80) * 2 ^ 4 + (tm_mon m + 1)) * 2 ^ 5 + tm_mday m)"
    using r pack_fields [of "tm_mon m + 1" 4 "tm_mday m" 5 "tm_year m - 80"] by (simp add: dos_date_def m Let_def)
  moreover have "0 \<le> ((tm_year m - 80) * 2 ^ 4 + (tm_mon m + 1)) * 2 ^ 5 + tm_mday m"
    "((tm_year m - 80) * 2 ^ 4 + (tm_mon m + 1)) * 2 ^ 5 + tm_mday m < 65536" using r by auto
  ultimately have D: "uint (dos_date env t) = ((tm_year m - 80) * 2 ^ 4 + (tm_mon m + 1)) * 2 ^ 5 + tm_mday m"
    by (simp only: uint_u16)
  have k: "mask 5 = (0x1F :: u16)" "mask 6 = (0x3F :: u16)" "mask 4 = (0xF :: u16)" "mask 7 = (0x7F :: u16)"
    by (simp_all add: mask_eq_exp_minus_1)
  have f: "uint (w AND 0x1F) = uint w mod 2 ^ 5" "uint (drop_bit 5 w AND 0x3F) = uint w div 2 ^ 5 mod 2 ^ 6"
    "uint (drop_bit 11 w AND 0x1F) = uint w div 2 ^ 11 mod 2 ^ 5" "uint (drop_bit 5 w AND 0xF) = uint w div 2 ^ 5 mod 2 ^ 4"
    "uint (drop_bit 9 w AND 0x7F) = uint w div 2 ^ 9 mod 2 ^ 7" for w :: u16
    using uint_field [of 0 w 5] uint_field [of 5 w 6] uint_field [of 11 w 5] uint_field [of 5 w 4] uint_field [of 9 w 7]
    by (simp_all only: k drop_bit_0 id_apply power_0 div_by_1)
  have s: "(6 :: nat) + 5 = 11" "(4 :: nat) + 5 = 9" by simp_all
  note u = unpack_fields [of "tm_min m" 6 "tm_sec m div 2" 5 "tm_hour m", OF r(3,4,1,2), unfolded s]
    unpack_fields [of "tm_mon m + 1" 4 "tm_mday m" 5 "tm_year m - 80", OF r(9,10,7,8), unfolded s]
  have h: "tm_hour m mod 2 ^ 5 = tm_hour m" "(tm_year m - 80) mod 2 ^ 7 = tm_year m - 80"
    using r(5,6,11,12) by (simp_all only: mod_pos_pos_trivial)
  have "dos_tm (dos_time env t) (dos_date env t) =
      \<lparr>tm_sec = tm_sec m div 2 * 2, tm_min = tm_min m, tm_hour = tm_hour m, tm_mday = tm_mday m,
       tm_mon = tm_mon m + 1 - 1, tm_year = tm_year m - 80 + 80\<rparr>"
    unfolding dos_tm_def unfolding f(2-5) unfolding f(1) T D by (simp only: u h)
  then show ?thesis unfolding m by simp
qed

theorem dos_stamp_roundtrip_witness:
  "dos_tm (dos_time demo_env 0) (dos_date demo_env 0) = px_localtime demo_env 0"
  using dos_stamp_roundtrip [of demo_env 0] by (simp add: tm_ok_def demo_env_def demo_host_def)

end
