(* ===== verification/Nf_Mem.thy ===== *)
theory Nf_Mem
  imports Shadow_Coherence Hostdos
begin

text \<open>
  Guest memory as the NatFeat calls reach it (\<open>atari_natfeat.cpp\<close>): RAM through the host mirror,
  everything else through the CPU core's accessors, which are parameters; and the two callbacks
  of the HOSTDOS engine.
\<close>

section \<open>Accessors\<close>

definition NF_ST_RAM_SIZE :: u32 where [c_const]: "NF_ST_RAM_SIZE = 0x00400000"
definition NF_TT_RAM_BASE :: u32 where [c_const]: "NF_TT_RAM_BASE = 0x01000000"

text \<open>\<open>x_get_byte\<close> and the like of the CPU core: they dispatch on the memory banks.\<close>

record x_env =
  x_get_byte :: "u32 \<Rightarrow> smc_state \<Rightarrow> u32 \<times> smc_state"
  x_get_word :: "u32 \<Rightarrow> smc_state \<Rightarrow> u32 \<times> smc_state"
  x_get_long :: "u32 \<Rightarrow> smc_state \<Rightarrow> u32 \<times> smc_state"
  x_put_byte :: "u32 \<Rightarrow> u32 \<Rightarrow> smc_state \<Rightarrow> smc_state"
  x_put_word :: "u32 \<Rightarrow> u32 \<Rightarrow> smc_state \<Rightarrow> smc_state"
  x_put_long :: "u32 \<Rightarrow> u32 \<Rightarrow> smc_state \<Rightarrow> smc_state"

text \<open>Whether \<open>natmem_offset + addr\<close> may be used for \<open>sz\<close> bytes.\<close>

definition nf_host_ram_ptr :: "smc_state \<Rightarrow> u32 \<Rightarrow> u32 \<Rightarrow> bool" where
  "nf_host_ram_ptr s addr sz =
     (if sz = 0 then False
      else if addr < NF_ST_RAM_SIZE \<and> sz \<le> NF_ST_RAM_SIZE - addr then True
      else if addr \<ge> NF_ST_RAM_SIZE \<and> addr < g_stram_top s \<and> sz \<le> g_stram_top s - addr then True
      else tt_ram_available s \<and> addr \<ge> NF_TT_RAM_BASE \<and> addr - NF_TT_RAM_BASE \<le> tt_ram_size s \<and>
           sz \<le> tt_ram_size s - (addr - NF_TT_RAM_BASE))"

definition nf_read_byte :: "x_env \<Rightarrow> u32 \<Rightarrow> smc_state \<Rightarrow> u8 \<times> smc_state" where
  "nf_read_byte env addr s =
     (if nf_host_ram_ptr s addr 1 then (natmem_byte s addr, s)
      else (let (v, t) = x_get_byte env addr s in (ucast v, t)))"

definition nf_read_word :: "x_env \<Rightarrow> u32 \<Rightarrow> smc_state \<Rightarrow> u16 \<times> smc_state" where
  "nf_read_word env addr s =
     (if nf_host_ram_ptr s addr 2 then (be_bytes (natmem_load s addr 2), s)
      else (let (v, t) = x_get_word env addr s in (ucast v, t)))"

definition nf_read_long :: "x_env \<Rightarrow> u32 \<Rightarrow> smc_state \<Rightarrow> u32 \<times> smc_state" where
  "nf_read_long env addr s =
     (if nf_host_ram_ptr s addr 4 then (be_bytes (natmem_load s addr 4), s) else x_get_long env addr s)"

definition nf_get_param :: "x_env \<Rightarrow> u32 \<Rightarrow> nat \<Rightarrow> smc_state \<Rightarrow> u32 \<times> smc_state" where
  "nf_get_param env params i = nf_read_long env (params + of_nat i * 4)"

text \<open>Stores return \<open>None\<close> when a plain host store faults for good; see \<open>tt_store\<close>.\<close>

definition nf_write_byte :: "x_env \<Rightarrow> u32 \<Rightarrow> u8 \<Rightarrow> smc_state \<Rightarrow> smc_state option" where
  "nf_write_byte env addr v s =
     (if addr < NF_ST_RAM_SIZE then Some (pistorm_dma_to_stram addr [v] s)
      else if nf_host_ram_ptr s addr 1 then tt_stores addr [v] s
      else Some (x_put_byte env addr (ucast v) s))"

definition nf_write_word :: "x_env \<Rightarrow> u32 \<Rightarrow> u16 \<Rightarrow> smc_state \<Rightarrow> smc_state option" where
  "nf_write_word env addr v s =
     (if addr < NF_ST_RAM_SIZE \<and> 2 \<le> NF_ST_RAM_SIZE - addr then Some (pistorm_dma_to_stram addr (be16 v) s)
      else if nf_host_ram_ptr s addr 2 then tt_stores addr (be16 v) s
      else Some (x_put_word env addr (ucast v) s))"

definition nf_write_long :: "x_env \<Rightarrow> u32 \<Rightarrow> u32 \<Rightarrow> smc_state \<Rightarrow> smc_state option" where
  "nf_write_long env addr v s =
     (if addr < NF_ST_RAM_SIZE \<and> 4 \<le> NF_ST_RAM_SIZE - addr then Some (pistorm_dma_to_stram addr (be32 v) s)
      else if nf_host_ram_ptr s addr 4 then tt_stores addr (be32 v) s
      else Some (x_put_long env addr v s))"

definition nf_write_quad :: "x_env \<Rightarrow> u32 \<Rightarrow> u64 \<Rightarrow> smc_state \<Rightarrow> smc_state option" where
  "nf_write_quad env addr v s =
     (case nf_write_long env addr (ucast (drop_bit 32 v)) s of
        None \<Rightarrow> None | Some t \<Rightarrow> nf_write_long env (addr + 4) (ucast v) t)"

fun nf_write_buffer :: "x_env \<Rightarrow> u32 \<Rightarrow> u8 list \<Rightarrow> smc_state \<Rightarrow> smc_state option" where
  "nf_write_buffer env addr [] s = Some s"
| "nf_write_buffer env addr (v # vs) s =
     (case nf_write_byte env addr v s of None \<Rightarrow> None | Some t \<Rightarrow> nf_write_buffer env (addr + 1) vs t)"

text \<open>At most \<open>max_len - 1\<close> characters and a terminator.\<close>

definition nf_write_string :: "x_env \<Rightarrow> u32 \<Rightarrow> nat \<Rightarrow> string \<Rightarrow> smc_state \<Rightarrow> smc_state option" where
  "nf_write_string env addr max_len str s =
     (if addr = 0 \<or> max_len = 0 then Some s
      else nf_write_buffer env addr (bytes_of (take (max_len - 1) str) @ [0]) s)"

fun nf_read_chars :: "x_env \<Rightarrow> u32 \<Rightarrow> nat \<Rightarrow> smc_state \<Rightarrow> string \<times> smc_state" where
  "nf_read_chars env addr 0 s = ([], s)"
| "nf_read_chars env addr (Suc k) s =
     (let (b, t) = nf_read_byte env addr s in
      if b = 0 then ([], t)
      else (let (r, u) = nf_read_chars env (addr + 1) k t in (char_of (unat b) # r, u)))"

text \<open>The string left in the buffer of \<open>dst_len\<close> bytes.\<close>

definition nf_read_string :: "x_env \<Rightarrow> u32 \<Rightarrow> nat \<Rightarrow> smc_state \<Rightarrow> string \<times> smc_state" where
  "nf_read_string env addr dst_len s =
     (if dst_len = 0 \<or> addr = 0 then ([], s) else nf_read_chars env addr (dst_len - 1) s)"

section \<open>The callbacks of HOSTDOS\<close>

fun nf_read_bytes :: "x_env \<Rightarrow> u32 \<Rightarrow> nat \<Rightarrow> smc_state \<Rightarrow> u8 list \<times> smc_state" where
  "nf_read_bytes env addr 0 s = ([], s)"
| "nf_read_bytes env addr (Suc k) s =
     (let (b, t) = nf_read_byte env addr s; (r, u) = nf_read_bytes env (addr + 1) k t in (b # r, u))"

definition hostdos_mem_read :: "x_env \<Rightarrow> u32 \<Rightarrow> nat \<Rightarrow> smc_state \<Rightarrow> u8 list \<times> smc_state" where
  "hostdos_mem_read env addr n s =
     (if nf_host_ram_ptr s addr (of_nat n) then (natmem_load s addr n, s) else nf_read_bytes env addr n s)"

text \<open>The bytes of one call of \<open>pistorm_dma_to_stram\<close>: to the end of the page, of the data or of
  ST-RAM.\<close>

definition dma_chunk :: "u32 \<Rightarrow> nat \<Rightarrow> u32 \<Rightarrow> nat" where
  "dma_chunk addr n tp =
     (let k = 0x1000 - unat (addr AND 0xFFF); k = (if k > n then n else k)
      in if k > unat (tp - addr) then unat (tp - addr) else k)"

lemma unat_and_fff: "unat (a AND 0xFFF) = unat a mod 4096" for a :: u32
proof -
  have "a AND 0xFFF = a AND mask 12" by (simp add: mask_eq_exp_minus_1)
  then show ?thesis using unat_and_mask [of a 12] by simp
qed

lemma dma_chunk_pos: "addr < tp \<Longrightarrow> 0 < n \<Longrightarrow> 0 < dma_chunk addr n tp"
  by (auto simp: dma_chunk_def Let_def unat_and_fff unat_sub word_less_nat_alt word_le_nat_alt)

function hostdos_mem_write :: "x_env \<Rightarrow> u32 \<Rightarrow> u8 list \<Rightarrow> smc_state \<Rightarrow> smc_state option" where
  "hostdos_mem_write env addr src s =
     (if src = [] then Some s
      else if addr < g_stram_top s then
        (let k = dma_chunk addr (length src) (g_stram_top s)
         in hostdos_mem_write env (addr + of_nat k) (drop k src) (pistorm_dma_to_stram addr (take k src) s))
      else if nf_host_ram_ptr s addr (of_nat (length src)) then tt_stores addr src s
      else (case nf_write_byte env addr (hd src) s of
              None \<Rightarrow> None
            | Some t \<Rightarrow> hostdos_mem_write env (addr + 1) (tl src) t))"
  by pat_completeness auto
termination
  by (relation "measure (\<lambda>(e, a, l, s). length l)") (auto simp: dma_chunk_pos)

declare hostdos_mem_write.simps [simp del]

text \<open>\<open>hostdos_attach\<close>: the drives of the configuration (an index, enabled, path, read-only) and the
  callbacks. The guest memory of the engine is the machine state, or \<open>None\<close> after a fatal fault.\<close>

record hostfs_cfg =
  hfs_enabled :: bool
  hfs_readonly :: bool
  hfs_path :: string

definition hostdos_drive_of :: "hostfs_cfg \<Rightarrow> drive" where
  "hostdos_drive_of c =
     \<lparr>drv_enabled = hfs_enabled c \<and> hfs_path c \<noteq> [], drv_readonly = hfs_readonly c, drv_path = take 255 (hfs_path c)\<rparr>"

definition hostdos_callbacks :: "x_env \<Rightarrow> (smc_state option, 'w) hostdos_env \<Rightarrow> (smc_state option, 'w) hostdos_env" where
  "hostdos_callbacks x env =
     env\<lparr>mem_read := \<lambda>a n m. case m of None \<Rightarrow> (replicate n 0, None)
                              | Some s \<Rightarrow> (let (b, t) = hostdos_mem_read x a n s in (b, Some t)),
         mem_write := \<lambda>a b m. Option.bind m (hostdos_mem_write x a b)\<rparr>"

definition hostdos_attach :: "(smc_state option, 'w) hostdos_env \<Rightarrow> hostfs_cfg list \<Rightarrow> (smc_state option, 'w, unit) hd" where
  "hostdos_attach env cfg = hostdos_init env (Some (map hostdos_drive_of (take NDRIVES cfg))) True"

end
