(* ===== verification/Guest_Ram.thy ===== *)
theory Guest_Ram
  imports Nf_Mem
begin

text \<open>
  The guest memory interface of the HOSTDOS engine as a locale, the facts its calls rest on, and
  its interpretation on the NatFeat callbacks over ST-RAM and TT-RAM.
\<close>

section \<open>Runs of bytes\<close>

definition put_bytes :: "u32 \<Rightarrow> u8 list \<Rightarrow> (u32 \<Rightarrow> u8) \<Rightarrow> u32 \<Rightarrow> u8" where
  "put_bytes a bs m x =
     (if unat a \<le> unat x \<and> unat x < unat a + length bs then bs ! (unat x - unat a) else m x)"

lemma put_bytes_Nil [simp]: "put_bytes a [] m = m"
  by (rule ext) (auto simp: put_bytes_def)

lemma unat_Suc: "unat a + 1 < 2 ^ 32 \<Longrightarrow> unat (a + 1) = unat a + 1" for a :: u32
  by (subst unat_add_small) simp_all

lemma put_bytes_Cons:
  assumes "unat a + length bs + 1 < 2 ^ 32"
  shows "put_bytes (a + 1) bs (m(a := b)) = put_bytes a (b # bs) m"
proof
  fix x
  have a: "unat (a + 1) = unat a + 1" using assms by (intro unat_Suc) simp
  have "unat x = unat a \<longleftrightarrow> x = a" by (simp add: word_unat_eq_iff)
  then show "put_bytes (a + 1) bs (m(a := b)) x = put_bytes a (b # bs) m x"
    by (auto simp: put_bytes_def a nth_Cons' Suc_diff_Suc)
qed

lemma put_bytes_append:
  assumes "unat a + length bs + length cs < 2 ^ 32"
  shows "put_bytes (a + of_nat (length bs)) cs (put_bytes a bs m) = put_bytes a (bs @ cs) m"
proof
  fix x
  have "unat (of_nat (length bs) :: u32) = length bs" using assms by (simp add: unat_of_nat)
  then have "unat (a + of_nat (length bs)) = unat a + length bs" using assms by (simp add: unat_add_small)
  then show "put_bytes (a + of_nat (length bs)) cs (put_bytes a bs m) x = put_bytes a (bs @ cs) m x"
    by (auto simp: put_bytes_def nth_append)
qed

lemma natmem_store_flat:
  "flat s \<Longrightarrow> unat a + length bs < 2 ^ 32 \<Longrightarrow> natmem_store a bs s = s\<lparr>nm_anon := put_bytes a bs (nm_anon s)\<rparr>"
proof (induction bs arbitrary: a s)
  case (Cons b bs)
  have "unat (a + 1) = unat a + 1" using Cons.prems by (intro unat_Suc) simp
  then show ?case
    using Cons.IH [of "s\<lparr>nm_anon := (nm_anon s)(a := b)\<rparr>" "a + 1"] Cons.prems
      put_bytes_Cons [of a bs "nm_anon s" b]
    by (simp add: put_byte_flat fun_upd_def)
qed simp

lemma natmem_load_flat:
  "flat s \<Longrightarrow> unat a + n < 2 ^ 32 \<Longrightarrow> natmem_load s a n = map (\<lambda>x. nm_anon s (of_nat x)) [unat a..<unat a + n]"
proof (induction n arbitrary: a)
  case (Suc n)
  have "unat (a + 1) = unat a + 1" using Suc.prems by (intro unat_Suc) simp
  then show ?case
    using Suc.IH [of "a + 1"] Suc.prems by (simp add: natmem_byte_flat upt_conv_Cons del: upt_Suc)
qed simp

section \<open>Writes to ST-RAM\<close>

text \<open>What a write leaves: the bytes, and the counters of the translation cache.\<close>

definition wrote :: "u32 \<Rightarrow> u8 list \<Rightarrow> u32 \<Rightarrow> nat \<Rightarrow> 'a smc_state_scheme \<Rightarrow> 'a smc_state_scheme" where
  "wrote a bs j f s = s\<lparr>nm_anon := put_bytes a bs (nm_anon s), g_jp_smc := j, jit_flushes := f\<rparr>"

definition touches_code :: "'a smc_state_scheme \<Rightarrow> u32 \<Rightarrow> nat \<Rightarrow> bool" where
  "touches_code s a n \<longleftrightarrow> (\<exists>x. unat a \<le> x \<and> x < unat a + n \<and> code_page s (x div 4096))"

lemma dma_to_stram_wrote:
  assumes "flat s" "addr < g_stram_top s" "0 < length bs" "length bs \<le> 4096" "unat addr + length bs \<le> unat (g_stram_top s)"
    "unat (g_stram_top s) \<le> 0x01000000"
  obtains j f where "pistorm_dma_to_stram addr bs s = wrote addr bs j f s" "jit_flushes s \<le> f"
    "flush_icache_set s \<Longrightarrow> touches_code s addr (length bs) \<Longrightarrow> jit_flushes s < f"
proof -
  have n: "unat (of_nat (length bs) :: u32) = length bs" using assms(4) by (simp add: unat_of_nat)
  have le: "of_nat (length bs) \<le> g_stram_top s - addr"
    using assms(2,5) n by (simp add: word_le_nat_alt unat_sub word_less_nat_alt)
  let ?s = "s\<lparr>nm_anon := put_bytes addr bs (nm_anon s)\<rparr>"
  have e: "pistorm_dma_to_stram addr bs s = pistorm_smc addr (of_nat (length bs)) ?s"
    using assms(2) le natmem_store_flat [OF assms(1), of addr bs] assms(5,6)
    by (simp add: pistorm_dma_to_stram_def Let_def)
  have c: "pistorm_smc addr (of_nat (length bs)) ?s = cache_invalidate ?s" if t: "touches_code s addr (length bs)"
  proof -
    obtain x where "unat addr \<le> x" "x < unat addr + length bs" "code_page s (x div 4096)"
      using t by (auto simp: touches_code_def)
    then show ?thesis using assms(3-6) n by (intro smc_notices [of _ _ x]) auto
  qed
  show ?thesis
  proof (cases "pistorm_smc addr (of_nat (length bs)) ?s = cache_invalidate ?s")
    case True
    show ?thesis
      by (rule that [of "g_jp_smc s + 1" "if flush_icache_set s then jit_flushes s + 1 else jit_flushes s"])
        (simp_all add: e True wrote_def cache_invalidate_def)
  next
    case False
    then have "pistorm_smc addr (of_nat (length bs)) ?s = ?s" by (auto simp: pistorm_smc_def Let_def)
    then show ?thesis using c False by (intro that [of "g_jp_smc s" "jit_flushes s"]) (auto simp: e wrote_def)
  qed
qed

lemma hostdos_mem_write_st:
  assumes "flat s" "unat addr + length src \<le> unat (g_stram_top s)" "unat (g_stram_top s) \<le> 0x01000000"
  shows "\<exists>j f. hostdos_mem_write env addr src s = Some (wrote addr src j f s) \<and> jit_flushes s \<le> f \<and>
    (flush_icache_set s \<longrightarrow> touches_code s addr (length src) \<longrightarrow> jit_flushes s < f)"
  using assms
proof (induction env addr src s rule: hostdos_mem_write.induct)
  case (1 env addr src s)
  show ?case
  proof (cases "src = []")
    case True
    then show ?thesis
      by (intro exI [of _ "g_jp_smc s"] exI [of _ "jit_flushes s"])
        (simp add: hostdos_mem_write.simps wrote_def touches_code_def)
  next
    case False
    then have top: "addr < g_stram_top s" using "1.prems"(2) by (cases src) (simp_all add: word_less_nat_alt)
    define k where "k = dma_chunk addr (length src) (g_stram_top s)"
    have k: "0 < k" "k \<le> length src" "k \<le> 4096"
      using dma_chunk_pos [OF top, of "length src"] False
      by (auto simp: k_def dma_chunk_def Let_def unat_and_fff)
    obtain j f where d: "pistorm_dma_to_stram addr (take k src) s = wrote addr (take k src) j f s" "jit_flushes s \<le> f"
      "flush_icache_set s \<Longrightarrow> touches_code s addr k \<Longrightarrow> jit_flushes s < f"
    proof (rule dma_to_stram_wrote [OF "1.prems"(1) top, of "take k src"])
      have l: "length (take k src) = k" using k by simp
      show "0 < length (take k src)" "length (take k src) \<le> 4096"
        "unat addr + length (take k src) \<le> unat (g_stram_top s)" "unat (g_stram_top s) \<le> 0x01000000"
        unfolding l using k "1.prems"(2,3) by simp_all
    qed (use k in \<open>auto simp: min_absorb2\<close>)
    let ?t = "wrote addr (take k src) j f s"
    have a: "unat (addr + of_nat k) = unat addr + k"
      using k "1.prems"(2,3) by (subst unat_add_small) (auto simp: unat_of_nat)
    have "\<exists>j' f'. hostdos_mem_write env (addr + of_nat k) (drop k src) ?t =
        Some (wrote (addr + of_nat k) (drop k src) j' f' ?t) \<and> jit_flushes ?t \<le> f' \<and>
        (flush_icache_set ?t \<longrightarrow> touches_code ?t (addr + of_nat k) (length (drop k src)) \<longrightarrow> jit_flushes ?t < f')"
      using "1.IH"(1) [OF False top k_def] "1.prems" k a unfolding d(1)
      by (simp add: wrote_def flat_def)
    then obtain j' f' where r: "hostdos_mem_write env (addr + of_nat k) (drop k src) ?t =
        Some (wrote (addr + of_nat k) (drop k src) j' f' ?t)" "f \<le> f'"
      "flush_icache_set s \<Longrightarrow> touches_code s (addr + of_nat k) (length src - k) \<Longrightarrow> f < f'"
      by (auto simp: wrote_def touches_code_def)
    have w: "wrote (addr + of_nat k) (drop k src) j' f' ?t = wrote addr src j' f' s"
      using put_bytes_append [of addr "take k src" "drop k src" "nm_anon s"] k "1.prems"(2,3)
      by (simp add: wrote_def min_absorb2)
    have "hostdos_mem_write env addr src s = Some (wrote addr src j' f' s)"
      using False top r(1) by (subst hostdos_mem_write.simps) (simp add: Let_def k_def [symmetric] d(1) w)
    moreover have "touches_code s addr k \<or> touches_code s (addr + of_nat k) (length src - k)"
      if "touches_code s addr (length src)"
      using that k by (auto simp: touches_code_def a) (metis add.commute le_add_diff_inverse linorder_not_le)
    ultimately show ?thesis using r(2,3) d(2,3) by (intro exI [of _ j'] exI [of _ f']) auto
  qed
qed

section \<open>Writes to TT-RAM\<close>

definition same_ram :: "smc_state \<Rightarrow> smc_state \<Rightarrow> bool" where
  "same_ram s t \<longleftrightarrow> flat t = flat s \<and> g_stram_top t = g_stram_top s \<and> tt_ram_available t = tt_ram_available s \<and>
     tt_ram_size t = tt_ram_size s"

lemma ttsmc_sigsegv_keeps:
  "ttsmc_sigsegv a s = Some t \<Longrightarrow> same_ram s t \<and> nm_anon t = nm_anon s"
  by (auto simp: ttsmc_sigsegv_def Let_def cache_invalidate_def same_ram_def flat_def split: if_splits)

lemma tt_store_flat:
  assumes "tt_inv s" "flat s" "tt_store a v s = Some t"
  shows "tt_inv t \<and> same_ram s t \<and> nm_anon t = (nm_anon s)(a := v)"
proof -
  have "tt_inv t" using tt_store_total [OF assms(1), of a v] assms(3) by (metis option.inject)
  moreover obtain u where "t = mem_put_byte (Natmem a) v u" "same_ram s u" "nm_anon u = nm_anon s"
    using assms(3) ttsmc_sigsegv_keeps [of "uint a" s]
    by (auto simp: tt_store_def same_ram_def split: if_splits option.splits)
  ultimately show ?thesis using assms(2) by (auto simp: same_ram_def put_byte_flat)
qed

lemma tt_stores_flat:
  "tt_inv s \<Longrightarrow> flat s \<Longrightarrow> unat a + length bs < 2 ^ 32 \<Longrightarrow>
   \<exists>t. tt_stores a bs s = Some t \<and> tt_inv t \<and> same_ram s t \<and> nm_anon t = put_bytes a bs (nm_anon s)"
proof (induction bs arbitrary: a s)
  case (Cons b bs)
  obtain u where u: "tt_store a b s = Some u" using tt_store_total [OF Cons.prems(1), of a b] by metis
  note f = tt_store_flat [OF Cons.prems(1,2) u]
  have "unat (a + 1) = unat a + 1" using Cons.prems by (intro unat_Suc) simp
  then obtain t where "tt_stores (a + 1) bs u = Some t" "tt_inv t" "same_ram u t"
    "nm_anon t = put_bytes (a + 1) bs (nm_anon u)"
    using Cons.IH [of u "a + 1"] f Cons.prems by (auto simp: same_ram_def fun_upd_def)
  then show ?case
    using f u put_bytes_Cons [of a bs "nm_anon s" b] Cons.prems by (auto simp: same_ram_def fun_upd_def)
qed (simp add: same_ram_def)

section \<open>The interface\<close>

definition bytes_at :: "(nat \<Rightarrow> u8) \<Rightarrow> nat \<Rightarrow> nat \<Rightarrow> u8 list" where
  "bytes_at f a n = map f [a..<a + n]"

lemma length_bytes_at [simp]: "length (bytes_at f a n) = n"
  by (simp add: bytes_at_def)

text \<open>What the engine needs of the callbacks: inside RAM, reads return the bytes of memory and change
  nothing, and writes change exactly the bytes written.\<close>

locale guest_memory =
  fixes env :: "('m, 'w) hostdos_env" and byte :: "'m \<Rightarrow> nat \<Rightarrow> u8" and ram :: "nat \<Rightarrow> nat \<Rightarrow> bool"
    and ok :: "'m \<Rightarrow> bool"
  assumes read_ram: "ok m \<Longrightarrow> ram (unat a) n \<Longrightarrow> mem_read env a n m = (map (byte m) [unat a..<unat a + n], m)"
    and write_ok: "ok m \<Longrightarrow> ram (unat a) (length bs) \<Longrightarrow> ok (mem_write env a bs m)"
    and write_ram: "ok m \<Longrightarrow> ram (unat a) (length bs) \<Longrightarrow> x < 2 ^ 32 \<Longrightarrow>
      byte (mem_write env a bs m) x = (if unat a \<le> x \<and> x < unat a + length bs then bs ! (x - unat a) else byte m x)"
    and ram_sub: "ram i n \<Longrightarrow> i \<le> b \<Longrightarrow> b + k \<le> i + n \<Longrightarrow> ram b k"
    and ram_bound: "ram i n \<Longrightarrow> i + n < 2 ^ 32"
begin

lemma run_rd32: "ok (gmem s) \<Longrightarrow> ram (unat a) 4 \<Longrightarrow> run_state (rd32 env a) s = (be_bytes (bytes_at (byte (gmem s)) (unat a) 4), s)"
  by (simp add: rd32_def g_read_def read_ram bytes_at_def)

lemma load_write:
  assumes "ok m" "ram (unat a) (length bs)" "c + n < 2 ^ 32"
  shows "bytes_at (byte (mem_write env a bs m)) c n =
    map (\<lambda>x. if unat a \<le> x \<and> x < unat a + length bs then bs ! (x - unat a) else byte m x) [c..<c + n]"
  using assms by (auto simp: bytes_at_def write_ram)

lemma load_write_same: "ok m \<Longrightarrow> ram (unat a) (length bs) \<Longrightarrow> bytes_at (byte (mem_write env a bs m)) (unat a) (length bs) = bs"
  using ram_bound [of "unat a" "length bs"] by (auto simp: load_write intro!: nth_equalityI)

lemma load_write_other:
  "ok m \<Longrightarrow> ram (unat a) (length bs) \<Longrightarrow> c + n < 2 ^ 32 \<Longrightarrow> c + n \<le> unat a \<or> unat a + length bs \<le> c \<Longrightarrow>
   bytes_at (byte (mem_write env a bs m)) c n = bytes_at (byte m) c n"
  by (auto simp: bytes_at_def write_ram)

end

section \<open>The callbacks\<close>

definition nf_ram :: "u32 \<Rightarrow> u32 \<Rightarrow> nat \<Rightarrow> nat \<Rightarrow> bool" where
  "nf_ram st tt a n \<longleftrightarrow>
     unat st \<le> 0x01000000 \<and> a + n \<le> unat st \<or>
     unat tt \<le> 0x10000000 \<and> 0x01000000 \<le> a \<and> a + n \<le> 0x01000000 + unat tt"

definition nf_ok :: "u32 \<Rightarrow> u32 \<Rightarrow> smc_state option \<Rightarrow> bool" where
  "nf_ok st tt m \<longleftrightarrow> (\<exists>s. m = Some s \<and> flat s \<and> tt_inv s \<and> g_stram_top s = st \<and> unat st \<le> 0x01000000 \<and>
     tt_ram_available s \<and> tt_ram_size s = tt)"

definition nf_byte :: "smc_state option \<Rightarrow> nat \<Rightarrow> u8" where
  "nf_byte m x = (case m of None \<Rightarrow> 0 | Some s \<Rightarrow> nm_anon s (of_nat x))"

lemma ram_ptr_byte:
  assumes "nf_ok st tt (Some s)" "nf_ram st tt (unat a) 1"
  shows "nf_host_ram_ptr s a 1"
  using assms
  by (auto simp: nf_ok_def nf_ram_def nf_host_ram_ptr_def c_const word_less_nat_alt word_le_nat_alt unat_sub)

lemma nf_ram_sub: "nf_ram st tt a n \<Longrightarrow> a \<le> b \<Longrightarrow> b + k \<le> a + n \<Longrightarrow> nf_ram st tt b k"
  by (auto simp: nf_ram_def)

lemma nf_ram_bound: "nf_ram st tt a n \<Longrightarrow> a + n < 2 ^ 32"
  by (auto simp: nf_ram_def)

lemma nf_read_bytes_ram:
  "nf_ok st tt (Some s) \<Longrightarrow> nf_ram st tt (unat a) n \<Longrightarrow>
   nf_read_bytes x a n s = (map (\<lambda>i. nm_anon s (of_nat i)) [unat a..<unat a + n], s)"
proof (induction n arbitrary: a)
  case (Suc n)
  have "unat (a + 1) = unat a + 1" using nf_ram_bound [OF Suc.prems(2)] by (intro unat_Suc) simp
  moreover have "nf_ram st tt (unat a) 1" "nf_ram st tt (unat a + 1) n"
    using nf_ram_sub [OF Suc.prems(2)] by auto
  ultimately show ?case
    using Suc.IH [of "a + 1"] Suc.prems(1) ram_ptr_byte [OF Suc.prems(1), of a]
    by (auto simp: nf_read_byte_def natmem_byte_flat nf_ok_def upt_conv_Cons simp del: upt_Suc)
qed simp

lemma hostdos_mem_read_ram:
  assumes "nf_ok st tt (Some s)" "nf_ram st tt (unat a) n"
  shows "hostdos_mem_read x a n s = (map (\<lambda>i. nm_anon s (of_nat i)) [unat a..<unat a + n], s)"
  using assms natmem_load_flat [of s a n] nf_ram_bound [OF assms(2)] nf_read_bytes_ram [OF assms]
  by (auto simp: hostdos_mem_read_def nf_ok_def)

lemma hostdos_mem_write_ram:
  assumes ok: "nf_ok st tt (Some s)" and ram: "nf_ram st tt (unat a) (length bs)"
  shows "\<exists>t. hostdos_mem_write x a bs s = Some t \<and> nf_ok st tt (Some t) \<and> nm_anon t = put_bytes a bs (nm_anon s)"
proof (cases "bs = []")
  case True
  then show ?thesis using ok by (simp add: hostdos_mem_write.simps)
next
  case ne: False
  have s: "flat s" "tt_inv s" "g_stram_top s = st" "unat st \<le> 0x01000000" "tt_ram_available s" "tt_ram_size s = tt"
    using ok by (auto simp: nf_ok_def)
  show ?thesis
  proof (cases "unat a + length bs \<le> unat st")
    case True
    then obtain j f where "hostdos_mem_write x a bs s = Some (wrote a bs j f s)"
      using hostdos_mem_write_st [of s a bs x] s by auto
    moreover have "tt_inv (wrote a bs j f s)" by (rule tt_inv_cong [OF s(2)]) (simp_all add: wrote_def)
    ultimately show ?thesis using s by (auto simp: nf_ok_def wrote_def flat_def)
  next
    case False
    then have tt: "unat tt \<le> 0x10000000" "0x01000000 \<le> unat a" "unat a + length bs \<le> 0x01000000 + unat tt"
      using ram by (auto simp: nf_ram_def)
    have l: "unat (of_nat (length bs) :: u32) = length bs" using tt by (simp add: unat_of_nat)
    have "a - 0x01000000 \<le> tt" "of_nat (length bs) \<le> tt - (a - 0x01000000)"
      using tt l by (auto simp: word_le_nat_alt unat_sub)
    moreover have "(of_nat (length bs) :: u32) \<noteq> 0" using l ne by (metis length_0_conv unat_0)
    ultimately have p: "nf_host_ram_ptr s a (of_nat (length bs))"
      using s tt by (auto simp: nf_host_ram_ptr_def c_const word_le_nat_alt)
    have "\<not> a < g_stram_top s" using s tt by (simp add: word_less_nat_alt)
    then have "hostdos_mem_write x a bs s = tt_stores a bs s"
      using ne p by (subst hostdos_mem_write.simps) simp
    then show ?thesis
      using tt_stores_flat [of s a bs] s nf_ram_bound [OF ram] by (auto simp: nf_ok_def same_ram_def)
  qed
qed

interpretation nf: guest_memory "hostdos_callbacks x env" nf_byte "nf_ram st tt" "nf_ok st tt" for x env st tt
proof unfold_locales
  fix m a n and bs :: "u8 list"
  assume ok: "nf_ok st tt m"
  then obtain s where s: "m = Some s" by (auto simp: nf_ok_def)
  show "mem_read (hostdos_callbacks x env) a n m = (map (nf_byte m) [unat a..<unat a + n], m)"
    if "nf_ram st tt (unat a) n"
    using hostdos_mem_read_ram [of st tt s a n x] ok that by (simp add: s hostdos_callbacks_def nf_byte_def)
  assume ram: "nf_ram st tt (unat a) (length bs)"
  obtain t where t: "hostdos_mem_write x a bs s = Some t" "nf_ok st tt (Some t)" "nm_anon t = put_bytes a bs (nm_anon s)"
    using hostdos_mem_write_ram [of st tt s a bs x] ok ram by (auto simp: s)
  show "nf_ok st tt (mem_write (hostdos_callbacks x env) a bs m)"
    using t by (simp add: s hostdos_callbacks_def)
  show "nf_byte (mem_write (hostdos_callbacks x env) a bs m) y =
      (if unat a \<le> y \<and> y < unat a + length bs then bs ! (y - unat a) else nf_byte m y)" if "y < 2 ^ 32" for y
    using t that by (simp add: s hostdos_callbacks_def nf_byte_def put_bytes_def unat_of_nat)
qed (auto intro: nf_ram_sub dest: nf_ram_bound)

section \<open>Translated code\<close>

text \<open>C18: A HOSTDOS transfer into ST-RAM, however long, stores every byte and notices every page of
  translated code it touches: cut at page boundaries, it flushes the translation cache whenever one
  of the bytes lies in a page that holds translated code.\<close>
theorem hostdos_write_notices_code:
  assumes "flat s" "unat addr + length src \<le> unat (g_stram_top s)" "unat (g_stram_top s) \<le> 0x01000000"
    "flush_icache_set s"
  shows "\<exists>t. hostdos_mem_write env addr src s = Some t \<and>
    (\<forall>i < length src. natmem_byte t (addr + of_nat i) = src ! i) \<and>
    (\<forall>x. unat addr \<le> x \<and> x < unat addr + length src \<and> code_page s (x div 4096) \<longrightarrow> jit_flushes s < jit_flushes t)"
proof -
  obtain j f where w: "hostdos_mem_write env addr src s = Some (wrote addr src j f s)"
    "touches_code s addr (length src) \<Longrightarrow> jit_flushes s < f"
    using hostdos_mem_write_st [OF assms(1-3), of env] assms(4) by blast
  have "flat (wrote addr src j f s)" using assms(1) by (simp add: wrote_def flat_def)
  moreover have "unat (addr + of_nat i) = unat addr + i" if "i < length src" for i
    using that assms(2,3) by (subst unat_add_small) (auto simp: unat_of_nat)
  ultimately have "natmem_byte (wrote addr src j f s) (addr + of_nat i) = src ! i" if "i < length src" for i
    using that by (simp add: natmem_byte_flat) (simp add: wrote_def put_bytes_def)
  then show ?thesis using w by (auto simp: touches_code_def wrote_def)
qed

text \<open>Three pages, the middle one holds code: the transfer that a single \<open>pistorm_dma_to_stram\<close> would
  not have noticed.\<close>

definition code_state :: smc_state where
  "code_state = (boot_state boot_config)\<lparr>code_page := \<lambda>pg. pg = 2\<rparr>"

theorem hostdos_write_notices_code_witness:
  "\<forall>env. \<exists>t. hostdos_mem_write env 0x1000 (replicate 0x3000 7) code_state = Some t \<and> jit_flushes code_state < jit_flushes t"
proof
  fix env
  have s: "flat code_state" "g_stram_top code_state = 0x400000" "flush_icache_set code_state" "code_page code_state 2"
    by (simp_all add: code_state_def boot_state_def flat_def)
  then obtain t where t: "hostdos_mem_write env 0x1000 (replicate 0x3000 7) code_state = Some t"
    "\<forall>x. unat (0x1000 :: u32) \<le> x \<and> x < unat (0x1000 :: u32) + length (replicate 0x3000 (7 :: u8)) \<and>
       code_page code_state (x div 4096) \<longrightarrow> jit_flushes code_state < jit_flushes t"
    using hostdos_write_notices_code [of code_state "0x1000" "replicate 0x3000 7" env] by auto
  from t(2) [rule_format, of "0x2000"] s(4) have "jit_flushes code_state < jit_flushes t" by simp
  with t(1) show "\<exists>t. hostdos_mem_write env 0x1000 (replicate 0x3000 7) code_state = Some t \<and>
      jit_flushes code_state < jit_flushes t" by blast
qed

text \<open>The other NatFeat stores do not: above the 4 MB of the board, in the 14 MB a Falcon has, a
  store goes straight to memory like one to TT-RAM, but pages below \<open>TT_RAM_BASE\<close> are never write
  protected, so nothing is flushed even where the JIT has translated code.\<close>
theorem nf_write_misses_falcon_code:
  assumes "NF_ST_RAM_SIZE \<le> addr" "addr < g_stram_top s" "\<not> host_ro s (page_of addr)"
  shows "\<exists>t. nf_write_byte env addr v s = Some t \<and> jit_flushes t = jit_flushes s \<and> g_jp_smc t = g_jp_smc s"
proof -
  have "nf_host_ram_ptr s addr 1"
    using assms(1,2) by (auto simp: nf_host_ram_ptr_def c_const word_less_nat_alt word_le_nat_alt unat_sub)
  then show ?thesis
    using assms(1,3) by (auto simp: nf_write_byte_def not_less tt_store_def mem_put_byte_def cell_put_def split: cell.split)
qed

definition falcon_state :: smc_state where
  "falcon_state = (boot_state boot_config)\<lparr>g_stram_top := 0xE00000, code_page := \<lambda>pg. pg = 0x400\<rparr>"

theorem nf_write_misses_falcon_code_witness:
  "code_page falcon_state (page_of 0x400000) \<and>
   (\<forall>env. \<exists>t. nf_write_byte env 0x400000 7 falcon_state = Some t \<and> jit_flushes t = jit_flushes falcon_state \<and>
      g_jp_smc t = g_jp_smc falcon_state)"
  using nf_write_misses_falcon_code [of "0x400000" falcon_state _ 7]
  by (simp add: falcon_state_def boot_state_def page_of_nat c_const)

end
