(* ===== verification/Hostdos_Load.thy ===== *)
theory Hostdos_Load
  imports Guest_Ram
begin

text \<open>
  Loading a program (\<open>do_load\<close> of \<open>hostdos.cpp\<close>): relocation, and what is left in guest memory.
\<close>

section \<open>Relocation\<close>

text \<open>Reference: the offsets a relocation table names, in order.\<close>

fun reloc_offsets :: "nat \<Rightarrow> u8 list \<Rightarrow> nat list" where
  "reloc_offsets pos [] = []"
| "reloc_offsets pos (b # bs) =
     (if b = 0 then []
      else if b = 1 then reloc_offsets (pos + 254) bs
      else (pos + unat b) # reloc_offsets (pos + unat b) bs)"

fun patch_all :: "u32 \<Rightarrow> u8 list \<Rightarrow> nat list \<Rightarrow> u8 list option" where
  "patch_all tbase im [] = Some im"
| "patch_all tbase im (off # offs) =
     (case patch tbase im off of None \<Rightarrow> None | Some im' \<Rightarrow> patch_all tbase im' offs)"

lemma reloc_loop_patch_all: "reloc_loop tbase im pos bs = patch_all tbase im (reloc_offsets pos bs)"
  by (induction tbase im pos bs rule: reloc_loop.induct) (auto split: option.split)

lemma length_be32 [simp]: "length (be32 v) = 4"
  by (simp add: be32_def)

lemma be_bytes_be32: "be_bytes (be32 v) = v"
proof (rule bit_eqI)
  fix n assume "possible_bit TYPE(u32) n"
  then have "n < 8 \<or> 8 \<le> n \<and> n < 16 \<or> 16 \<le> n \<and> n < 24 \<or> 24 \<le> n \<and> n < 32" by auto
  then show "bit (be_bytes (be32 v) :: u32) n = bit v n"
    by (elim disjE) (auto simp: be_bytes_def be32_def bit_simps)
qed

lemma length_patch: "patch tbase im off = Some im' \<Longrightarrow> length im' = length im"
  by (auto simp: patch_def split: if_splits)

lemma length_patch_all: "patch_all tbase im offs = Some im' \<Longrightarrow> length im' = length im"
  by (induction tbase im offs rule: patch_all.induct) (auto split: option.splits dest: length_patch)

definition long_at :: "u8 list \<Rightarrow> nat \<Rightarrow> u32" where
  "long_at im off = be_bytes (take 4 (drop off im))"

lemma patch_long_at:
  assumes "patch tbase im off = Some im'"
  shows "long_at im' off = long_at im off + tbase"
    "\<And>q. q + 4 \<le> off \<or> off + 4 \<le> q \<Longrightarrow> take 4 (drop q im') = take 4 (drop q im)"
    "\<And>i. i < off \<or> off + 4 \<le> i \<Longrightarrow> i < length im \<Longrightarrow> im' ! i = im ! i"
proof -
  have l: "off + 4 \<le> length im" and e: "im' = take off im @ be32 (long_at im off + tbase) @ drop (off + 4) im"
    using assms by (auto simp: patch_def long_at_def split: if_splits)
  show "long_at im' off = long_at im off + tbase"
    using l by (simp add: e long_at_def [of "_ @ _"] be_bytes_be32)
  show n: "im' ! i = im ! i" if "i < off \<or> off + 4 \<le> i" "i < length im" for i
    using that l by (auto simp: e nth_append)
  show "take 4 (drop q im') = take 4 (drop q im)" if "q + 4 \<le> off \<or> off + 4 \<le> q" for q
    using that l n length_patch [OF assms] by (intro nth_equalityI) auto
qed

lemma patch_all_adds:
  "patch_all tbase im offs = Some im' \<Longrightarrow> sorted_wrt (\<lambda>a b. a + 4 \<le> b) offs \<Longrightarrow>
   (\<forall>q \<in> set offs. q + 4 \<le> length im \<and> long_at im' q = long_at im q + tbase) \<and>
   (\<forall>q. (\<forall>p \<in> set offs. q + 4 \<le> p \<or> p + 4 \<le> q) \<longrightarrow> take 4 (drop q im') = take 4 (drop q im)) \<and>
   (\<forall>i < length im. (\<forall>p \<in> set offs. i < p \<or> p + 4 \<le> i) \<longrightarrow> im' ! i = im ! i)"
proof (induction tbase im offs arbitrary: im' rule: patch_all.induct)
  case (2 tbase im off offs)
  obtain im1 where p: "patch tbase im off = Some im1" "patch_all tbase im1 offs = Some im'"
    using "2.prems"(1) by (auto split: option.splits)
  have sep: "\<forall>q \<in> set offs. off + 4 \<le> q" using "2.prems"(2) by simp
  have len: "off + 4 \<le> length im" using p(1) by (auto simp: patch_def split: if_splits)
  note ih = "2.IH" [OF p(1) p(2)]
  have ih: "\<forall>q \<in> set offs. q + 4 \<le> length im1 \<and> long_at im' q = long_at im1 q + tbase"
    "\<And>q. \<forall>p \<in> set offs. q + 4 \<le> p \<or> p + 4 \<le> q \<Longrightarrow> take 4 (drop q im') = take 4 (drop q im1)"
    "\<And>i. i < length im1 \<Longrightarrow> \<forall>p \<in> set offs. i < p \<or> p + 4 \<le> i \<Longrightarrow> im' ! i = im1 ! i"
    using ih "2.prems"(2) by auto
  have "long_at im' off = long_at im off + tbase"
    using patch_long_at(1) [OF p(1)] ih(2) [of off] sep by (simp add: long_at_def)
  moreover have "q + 4 \<le> length im \<and> long_at im' q = long_at im q + tbase" if "q \<in> set offs" for q
    using ih(1) patch_long_at(2) [OF p(1), of q] sep that length_patch [OF p(1)] by (simp add: long_at_def)
  ultimately show ?case
    using len ih(2,3) patch_long_at(2,3) [OF p(1)] length_patch [OF p(1)] by simp
qed simp

definition reloc_table :: "pend \<Rightarrow> u8 list \<Rightarrow> nat list" where
  "reloc_table p file =
     (let ro = 28 + (unat (pend_tlen p) + unat (pend_dlen p)) + unat (pend_slen p);
          pos = unat (long_at file ro)
      in if pend_absflag p = 0 \<and> ro + 4 \<le> length file \<and> pos \<noteq> 0
         then pos # reloc_offsets pos (drop (ro + 4) file) else [])"

lemma relocate_patch_all: "relocate p tbase file im = patch_all tbase im (reloc_table p file)"
  by (auto simp: relocate_def reloc_table_def Let_def long_at_def reloc_loop_patch_all split: option.split)

text \<open>C34: Relocation adds the load address to exactly the longs the table names. For a program whose
  table names longs that do not overlap, a relocation that succeeds keeps the length of the image,
  adds \<open>tbase\<close> to each named long, all of which lie inside the image, and changes no other byte; and it
  succeeds whenever the named offsets are even and inside the image.\<close>
theorem relocate_adds_base:
  assumes "sorted_wrt (\<lambda>a b. a + 4 \<le> b) (reloc_table p file)"
  shows "(relocate p tbase file im \<noteq> None \<longleftrightarrow> (\<forall>q \<in> set (reloc_table p file). q + 4 \<le> length im \<and> even q)) \<and>
    (\<forall>im'. relocate p tbase file im = Some im' \<longrightarrow> length im' = length im \<and>
       (\<forall>q \<in> set (reloc_table p file). long_at im' q = long_at im q + tbase) \<and>
       (\<forall>i < length im. (\<forall>q \<in> set (reloc_table p file). i < q \<or> q + 4 \<le> i) \<longrightarrow> im' ! i = im ! i))"
proof -
  have "patch_all tbase im offs \<noteq> None \<longleftrightarrow> (\<forall>q \<in> set offs. q + 4 \<le> length im \<and> even q)" for offs
    by (induction tbase im offs rule: patch_all.induct) (auto simp: patch_def split: option.splits if_splits)
  then show ?thesis
    using patch_all_adds [OF _ assms] length_patch_all unfolding relocate_patch_all by blast
qed

text \<open>A program of eight bytes with one entry in its table, at offset 4.\<close>

definition tiny_pend :: pend where
  "tiny_pend = \<lparr>pend_valid = True, pend_path = ''/srv/P'', pend_tlen = 8, pend_dlen = 0, pend_blen = 0, pend_slen = 0,
     pend_flags = 0, pend_absflag = 0\<rparr>"

definition tiny_file :: "u8 list" where
  "tiny_file = [0x60, 0x1A] @ replicate 26 0 @ [0x4E, 0x71, 0x4E, 0xF9, 0, 0, 0, 2] @ [0, 0, 0, 4] @ [0]"

theorem relocate_adds_base_witness:
  "reloc_table tiny_pend tiny_file = [4] \<and>
   (\<exists>im'. relocate tiny_pend 0x10000 tiny_file [0x4E, 0x71, 0x4E, 0xF9, 0, 0, 0, 2] = Some im' \<and>
      long_at im' 4 = 0x10002 \<and> im' ! 0 = 0x4E)"
proof -
  have t: "reloc_table tiny_pend tiny_file = [4]" by code_simp
  have "long_at [0x4E, 0x71, 0x4E, 0xF9, 0, 0, 0, 2] 4 = 2" by code_simp
  then show ?thesis
    using relocate_adds_base [of tiny_pend tiny_file "0x10000" "[0x4E, 0x71, 0x4E, 0xF9, 0, 0, 0, 2]"]
    by (auto simp: t)
qed

section \<open>Loading\<close>

lemma wp_True: "wp m (\<lambda>r t. True) s"
  by (simp add: wp_def split: prod.split)

lemma wp_sys_eq:
  "wp (sys c f) Q s = (case f (world s) of (r, w) \<Rightarrow> Q r (s\<lparr>world := w, sys_log := sys_log s @ [(g_drives s, c)]\<rparr>))"
  by (simp add: wp_def sys_def split: prod.split)

text \<open>The memory after a load: image, cleared memory behind it (only the BSS with the fastload flag),
  six fields of the base page, and nothing else: with the fastload flag the heap between the BSS and
  the end of the TPA keeps its contents.\<close>

definition base_page :: "pend \<Rightarrow> u32 \<Rightarrow> u8 list" where
  "base_page p tbase =
     be32 tbase @ be32 (pend_tlen p) @ be32 (tbase + pend_tlen p) @ be32 (pend_dlen p) @
     be32 (tbase + (pend_tlen p + pend_dlen p)) @ be32 (pend_blen p)"

definition cleared :: "pend \<Rightarrow> nat \<Rightarrow> nat \<Rightarrow> nat" where
  "cleared p bbase hi = (if pend_flags p AND 1 \<noteq> 0 then unat (pend_blen p) else hi - bbase)"

definition program_loaded :: "pend \<Rightarrow> u32 \<Rightarrow> nat \<Rightarrow> nat \<Rightarrow> u8 list \<Rightarrow> (nat \<Rightarrow> u8) \<Rightarrow> (nat \<Rightarrow> u8) \<Rightarrow> bool" where
  "program_loaded p tbase hi bp im old new \<longleftrightarrow>
     (let b = unat tbase; e = b + length im in
      (\<forall>i < length im. new (b + i) = im ! i) \<and>
      (\<forall>i < cleared p e hi. new (e + i) = 0) \<and>
      (\<forall>i < 24. new (bp + 8 + i) = base_page p tbase ! i) \<and>
      (\<forall>x < 2 ^ 32. (x < b \<or> e + cleared p e hi \<le> x) \<and> (x < bp + 8 \<or> bp + 32 \<le> x) \<longrightarrow> new x = old x))"

text \<open>What \<open>do_load\<close> leaves for a base page at \<open>bp\<close> whose TPA runs from \<open>lowtpa\<close> to \<open>hitpa\<close>.\<close>

definition load_result :: "('m, 'w) hostdos_env \<Rightarrow> ('m \<Rightarrow> nat \<Rightarrow> u8) \<Rightarrow> u32 \<Rightarrow> ('m, 'w) hostdos \<Rightarrow> int
    \<Rightarrow> ('m, 'w) hostdos \<Rightarrow> bool" where
  "load_result env byte bp s r t \<longleftrightarrow>
     (let p = g_pend s; old = byte (gmem s);
          lowtpa = be_bytes (bytes_at old (unat bp) 4); hitpa = be_bytes (bytes_at old (unat bp + 4) 4) :: u32
      in (r \<noteq> 0 \<longrightarrow> gmem t = gmem s) \<and>
         (r = 0 \<longrightarrow>
            (\<exists>content im. fst (px_fread env (pend_path p) (world s)) = Inr content \<and>
               relocate p (lowtpa + 0x100) (slurp [] content)
                 (take (unat (pend_tlen p) + unat (pend_dlen p)) (drop 28 (slurp [] content))) = Some im \<and>
               program_loaded p (lowtpa + 0x100) (unat hitpa) (unat bp) im old (byte (gmem t)))))"

lemma load_result_err: "r \<noteq> 0 \<Longrightarrow> gmem t = gmem s \<Longrightarrow> load_result env byte bp s r t"
  by (simp add: load_result_def)

context guest_memory
begin

text \<open>State \<open>t\<close> is \<open>s\<close> with \<open>bs\<close> written at \<open>a\<close>.\<close>

definition stored :: "('m, 'w) hostdos \<Rightarrow> nat \<Rightarrow> u8 list \<Rightarrow> ('m, 'w) hostdos \<Rightarrow> bool" where
  "stored s a bs t \<longleftrightarrow> (\<exists>m. t = s\<lparr>gmem := m\<rparr>) \<and> ok (gmem t) \<and>
     (\<forall>x < 2 ^ 32. byte (gmem t) x = (if a \<le> x \<and> x < a + length bs then bs ! (x - a) else byte (gmem s) x))"

lemma wp_store:
  assumes "ok (gmem s)" "ram (unat a) (length bs)" "\<And>t. stored s (unat a) bs t \<Longrightarrow> Q () t"
  shows "wp (g_write env a bs) Q s"
  using assms(1,2) by (auto simp: g_write_def stored_def write_ok write_ram intro!: assms(3))

lemma wp_store32:
  assumes "ok (gmem s)" "ram (unat a) 4" "\<And>t. stored s (unat a) (be32 v) t \<Longrightarrow> Q () t"
  shows "wp (wr32 env a v) Q s"
  unfolding wr32_def using assms by (intro wp_store) simp_all

lemma stored_append:
  assumes "stored s a bs t" "stored t (a + length bs) cs u"
  shows "stored s a (bs @ cs) u"
  using assms by (auto simp: stored_def nth_append)

lemma wp_wrzero_store:
  "ok (gmem s) \<Longrightarrow> ram (unat a) n \<Longrightarrow> (\<And>t. stored s (unat a) (replicate n 0) t \<Longrightarrow> Q () t) \<Longrightarrow> wp (wrzero env a n) Q s"
proof (induction n arbitrary: a s Q rule: less_induct)
  case (less n)
  show ?case
  proof (cases "n = 0")
    case True
    have "stored s (unat a) [] s" using less.prems(1) by (auto simp: stored_def intro: exI [of _ "gmem s"])
    then show ?thesis using True less.prems(3) by (simp add: wrzero.simps)
  next
    case False
    let ?k = "min n 16384"
    have k: "?k \<le> n" "n - ?k < n" using False by auto
    have b: "unat a + n < 2 ^ 32" using ram_bound [OF less.prems(2)] .
    have a: "unat (a + of_nat ?k) = unat a + ?k"
      using b k by (subst unat_add_small) (auto simp: unat_of_nat)
    have "wp (wrzero env (a + of_nat ?k) (n - ?k)) Q t" if t: "stored s (unat a) (replicate ?k 0) t" for t
    proof (rule less.IH [OF k(2)])
      show "ok (gmem t)" using t by (simp add: stored_def)
      show "ram (unat (a + of_nat ?k)) (n - ?k)" unfolding a by (rule ram_sub [OF less.prems(2)]) auto
      show "Q () u" if "stored t (unat (a + of_nat ?k)) (replicate (n - ?k) 0) u" for u
        using stored_append [OF t, of "replicate (n - ?k) 0" u] that k
        by (intro less.prems(3)) (simp add: a flip: replicate_add)
    qed
    moreover have "ram (unat a) ?k" by (rule ram_sub [OF less.prems(2)]) auto
    ultimately show ?thesis
      using False less.prems(1) by (subst wrzero.simps) (auto simp: Let_def intro!: wp_store)
  qed
qed

lemma wp_extend32:
  assumes "stored s a bs t" "unat c = a + length bs" "ram (unat c) 4" "\<And>u. stored s a (bs @ be32 v) u \<Longrightarrow> Q () u"
  shows "wp (wr32 env c v) Q t"
proof (rule wp_store32)
  show "ok (gmem t)" using assms(1) by (simp add: stored_def)
  show "Q () u" if "stored t (unat c) (be32 v) u" for u
    using stored_append [OF assms(1), of "be32 v" u] that assms(2) by (intro assms(4)) simp
qed (rule assms(3))

lemma wp_base_page:
  assumes ok: "ok (gmem s)" and bp: "ram (unat bp) 32"
    and Q: "\<And>t. stored s (unat bp + 8) (base_page p tbase) t \<Longrightarrow> Q () t"
  shows "wp (do { wr32 env (bp + 8) tbase; wr32 env (bp + 12) (pend_tlen p); wr32 env (bp + 16) (tbase + pend_tlen p);
      wr32 env (bp + 20) (pend_dlen p); wr32 env (bp + 24) (tbase + (pend_tlen p + pend_dlen p));
      wr32 env (bp + 28) (pend_blen p) }) Q s"
proof -
  have bps: "unat (bp + of_nat k) = unat bp + k" if "k < 32" for k
    using ram_bound [OF bp] that by (subst unat_add_small) (auto simp: unat_of_nat)
  have b: "unat (bp + 8) = unat bp + 8" "unat (bp + 12) = unat bp + 12" "unat (bp + 16) = unat bp + 16"
    "unat (bp + 20) = unat bp + 20" "unat (bp + 24) = unat bp + 24" "unat (bp + 28) = unat bp + 28"
    using bps [of 8] bps [of 12] bps [of 16] bps [of 20] bps [of 24] bps [of 28] by simp_all
  have r4: "ram (unat bp + k) 4" if "k \<le> 28" for k using that by (intro ram_sub [OF bp]) auto
  show ?thesis
    unfolding wp_bind
    by (rule wp_store32 [OF ok], simp add: b r4, simp only: b,
        (rule wp_extend32 [where a = "unat bp + 8"], assumption, simp add: b, simp add: b r4)+,
        rule Q, simp add: base_page_def)
qed

lemma wp_image:
  assumes ok: "ok (gmem s)" and tpa: "ram (unat tbase) (unat hi - unat tbase)"
    and im: "length im = unat (pend_tlen p) + unat (pend_dlen p)"
    and room: "unat tbase + length im + unat (pend_blen p) \<le> unat hi"
    and Q: "\<And>t. stored s (unat tbase) (im @ replicate (cleared p (unat tbase + length im) (unat hi)) 0) t \<Longrightarrow> Q () t"
  shows "wp (do { g_write env tbase im;
      if pend_flags p AND 1 \<noteq> 0 then wrzero env (tbase + (pend_tlen p + pend_dlen p)) (unat (pend_blen p))
      else wrzero env (tbase + (pend_tlen p + pend_dlen p)) (unat (hi - (tbase + (pend_tlen p + pend_dlen p)))) }) Q s"
proof -
  let ?b = "tbase + (pend_tlen p + pend_dlen p)" and ?e = "unat tbase + length im"
  let ?z = "cleared p ?e (unat hi)"
  have hi: "unat hi < 2 ^ 32" using unsigned_less [of hi] by simp
  have "unat (pend_tlen p + pend_dlen p) = length im" using im room hi by (subst unat_add_small) auto
  then have e: "unat ?b = ?e" using room hi by (subst unat_add_small) auto
  have z: "unat (hi - ?b) = unat hi - ?e" using room e by (simp add: unat_sub word_le_nat_alt)
  have zn: "?e + ?z \<le> unat hi" using room by (simp add: cleared_def)
  have "wp (wrzero env ?b ?z) Q t" if t: "stored s (unat tbase) im t" for t
  proof (rule wp_wrzero_store)
    show "ok (gmem t)" using t by (simp add: stored_def)
    show "ram (unat ?b) ?z" unfolding e using zn by (intro ram_sub [OF tpa]) auto
    show "Q () u" if "stored t (unat ?b) (replicate ?z 0) u" for u
      using stored_append [OF t] that by (intro Q) (simp add: e)
  qed
  then have "wp (if pend_flags p AND 1 \<noteq> 0 then wrzero env ?b (unat (pend_blen p)) else wrzero env ?b (unat (hi - ?b))) Q t"
    if "stored s (unat tbase) im t" for t
    using that unfolding z cleared_def by (cases "pend_flags p AND 1 \<noteq> 0") simp_all
  moreover have "ram (unat tbase) (length im)" using room by (intro ram_sub [OF tpa]) auto
  ultimately show ?thesis unfolding wp_bind by (intro wp_store [OF ok]) blast+
qed

lemma stored_program_loaded:
  fixes hi :: u32
  assumes "stored s (unat tbase) (im @ replicate (cleared p (unat tbase + length im) (unat hi)) 0) t"
    "stored t (unat bp + 8) (base_page p tbase) u"
    "unat tbase + length im + cleared p (unat tbase + length im) (unat hi) \<le> unat hi" "unat bp + 32 < 2 ^ 32"
    "unat bp + 32 \<le> unat tbase \<or> unat hi \<le> unat bp + 8"
  shows "program_loaded p tbase (unat hi) (unat bp) im (byte (gmem s)) (byte (gmem u))"
proof -
  let ?c = "cleared p (unat tbase + length im) (unat hi)"
  have l: "length (base_page p tbase) = 24" by (simp add: base_page_def)
  have hi: "unat hi < 2 ^ 32" using unsigned_less [of hi] by simp
  have T: "byte (gmem t) x = (if unat tbase \<le> x \<and> x < unat tbase + length im + ?c
      then (im @ replicate ?c 0) ! (x - unat tbase) else byte (gmem s) x)" if "x < 2 ^ 32" for x
    using assms(1) that by (simp add: stored_def add.assoc)
  have U: "byte (gmem u) x = (if unat bp + 8 \<le> x \<and> x < unat bp + 32 then base_page p tbase ! (x - (unat bp + 8))
      else byte (gmem t) x)" if "x < 2 ^ 32" for x
    using assms(2) that by (simp add: stored_def l)
  have out: "byte (gmem u) x = byte (gmem t) x" if "unat tbase \<le> x" "x < unat hi" for x
    using U [of x] that assms(5) hi by auto
  show ?thesis
    unfolding program_loaded_def Let_def
  proof (intro conjI allI impI)
    show "byte (gmem u) (unat tbase + i) = im ! i" if "i < length im" for i
      using out [of "unat tbase + i"] T [of "unat tbase + i"] that assms(3) hi by (simp add: nth_append)
    show "byte (gmem u) (unat tbase + length im + i) = 0" if "i < ?c" for i
      using out [of "unat tbase + length im + i"] T [of "unat tbase + length im + i"] that assms(3) hi
      by (simp add: nth_append)
    show "byte (gmem u) (unat bp + 8 + i) = base_page p tbase ! i" if "i < 24" for i
      using U [of "unat bp + 8 + i"] that assms(4) by simp
    show "byte (gmem u) x = byte (gmem s) x"
      if "x < 2 ^ 32" "(x < unat tbase \<or> unat tbase + length im + ?c \<le> x) \<and> (x < unat bp + 8 \<or> unat bp + 32 \<le> x)" for x
      using T [of x] U [of x] that assms(3) by auto
  qed
qed

lemma wp_load_writes_mem:
  assumes ok: "ok (gmem s)" and bp: "ram (unat bp) 32" and tpa: "ram (unat tbase) (unat hi - unat tbase)"
    and im: "length im = unat (pend_tlen p) + unat (pend_dlen p)"
    and room: "unat tbase + length im + unat (pend_blen p) \<le> unat hi"
    and dis: "unat bp + 32 \<le> unat tbase \<or> unat hi \<le> unat bp + 8"
  shows "wp (load_writes env p bp tbase hi im) (\<lambda>_ t. ok (gmem t) \<and>
    program_loaded p tbase (unat hi) (unat bp) im (byte (gmem s)) (byte (gmem t))) s"
proof -
  let ?c = "cleared p (unat tbase + length im) (unat hi)"
  have c: "unat tbase + length im + ?c \<le> unat hi" using room by (simp add: cleared_def)
  let ?hdr = "do { wr32 env (bp + 8) tbase; wr32 env (bp + 12) (pend_tlen p); wr32 env (bp + 16) (tbase + pend_tlen p);
      wr32 env (bp + 20) (pend_dlen p); wr32 env (bp + 24) (tbase + (pend_tlen p + pend_dlen p));
      wr32 env (bp + 28) (pend_blen p) }"
  let ?R = "\<lambda>(_ :: unit) t. ok (gmem t) \<and>
    program_loaded p tbase (unat hi) (unat bp) im (byte (gmem s)) (byte (gmem t))"
  have "wp ?hdr ?R t" if t: "stored s (unat tbase) (im @ replicate ?c 0) t" for t
    using t stored_program_loaded [OF t _ c ram_bound [OF bp] dis]
    by (intro wp_base_page [OF _ bp]) (auto simp: stored_def)
  note i = wp_image [OF ok tpa im room, where Q = "\<lambda>_. wp ?hdr ?R", OF this]
  show ?thesis unfolding load_writes_def Let_def wp_bind_fun by (rule i [unfolded wp_bind_fun])
qed

lemma wp_rd32_mem:
  "ok (gmem s) \<Longrightarrow> ram (unat a) 4 \<Longrightarrow> wp (rd32 env a) Q s = Q (be_bytes (bytes_at (byte (gmem s)) (unat a) 4)) s"
  by (simp add: wp_def run_rd32)

lemma wp_do_load_mem:
  fixes bp :: u32 and s :: "('m, 'w) hostdos"
  defines "lowtpa \<equiv> be_bytes (bytes_at (byte (gmem s)) (unat bp) 4) :: u32" and "hitpa \<equiv> be_bytes (bytes_at (byte (gmem s)) (unat bp + 4) 4) :: u32"
  assumes ok: "ok (gmem s)" and bp: "ram (unat bp) 32" and tpa: "ram (unat lowtpa) (unat hitpa - unat lowtpa)"
    and dis: "unat bp + 32 \<le> unat lowtpa + 0x100 \<or> unat hitpa \<le> unat bp + 8"
  shows "wp (do_load env bp) (load_result env byte bp s) s"
proof (cases "pend_valid (g_pend s)")
  case False
  then show ?thesis by (simp add: do_load_def load_result_def c_const)
next
  case True
  let ?p = "g_pend s"
  let ?img = "unat (pend_tlen ?p) + unat (pend_dlen ?p)"
  have b4: "unat (bp + 4) = unat bp + 4" using ram_bound [OF bp] by (subst unat_add_small) auto
  have r: "ram (unat bp) 4" "ram (unat (bp + 4)) 4" unfolding b4 by (intro ram_sub [OF bp]; simp)+
  obtain fr w where fr: "px_fread env (pend_path ?p) (world s) = (fr, w)" by fastforce
  let ?u = "s\<lparr>g_pend := ?p\<lparr>pend_valid := False\<rparr>, world := w,
      sys_log := sys_log s @ [(g_drives s, Sys_fopen_rb (pend_path ?p))]\<rparr>"
  have load: "wp (load_writes env ?p bp (lowtpa + 0x100) hitpa im) (\<lambda>_. load_result env byte bp s 0) ?u"
    if c: "fr = Inr content" "?img \<le> MAX_PRG_BYTES" "unat lowtpa + (0x100 + ?img + unat (pend_blen ?p)) \<le> unat hitpa"
      "28 + ?img \<le> length (slurp [] content)"
      "relocate ?p (lowtpa + 0x100) (slurp [] content) (take ?img (drop 28 (slurp [] content))) = Some im" for content im
  proof -
    have hb: "unat hitpa < 2 ^ 32" using unsigned_less [of hitpa] by simp
    have t: "unat (lowtpa + 0x100) = unat lowtpa + 0x100" using c(3) hb by (subst unat_add_small) auto
    have l: "length im = ?img"
      using length_patch_all c(4,5) unfolding relocate_patch_all by fastforce
    have "wp (load_writes env ?p bp (lowtpa + 0x100) hitpa im) (\<lambda>_ t. ok (gmem t) \<and>
        program_loaded ?p (lowtpa + 0x100) (unat hitpa) (unat bp) im (byte (gmem ?u)) (byte (gmem t))) ?u"
      using ok bp l c(3) dis t by (intro wp_load_writes_mem) (auto intro: ram_sub [OF tpa])
    then show ?thesis
      by (rule wp_mono) (use c fr in \<open>auto simp: load_result_def Let_def lowtpa_def hitpa_def\<close>)
  qed
  show ?thesis
    unfolding do_load_def
    using True ok r fr load
    by (auto simp: wp_rd32_mem b4 Let_def wp_sys_eq wp_return_fun not_less load_result_err c_const
        simp flip: lowtpa_def hitpa_def split: sum.split option.split)
qed

end

text \<open>C17: Loading a program through the NatFeat callbacks. With the base page and the TPA in ST-RAM or
  TT-RAM and the six fields outside the image, a load that fails leaves guest memory as it was; one
  that succeeds leaves the relocated image at \<open>lowtpa + 0x100\<close>, zeros behind it (the BSS of a program
  with the fastload flag, everything up to \<open>hitpa\<close> otherwise), the six fields of the base page, and
  every other byte of the guest unchanged, the heap of a fastload program included.\<close>
theorem hostdos_load_memory:
  fixes x :: x_env and env :: "(smc_state option, 'w) hostdos_env" and s :: "(smc_state option, 'w) hostdos" and bp :: u32
  defines "e \<equiv> hostdos_callbacks x env"
    and "lowtpa \<equiv> be_bytes (bytes_at (nf_byte (gmem s)) (unat bp) 4) :: u32"
    and "hitpa \<equiv> be_bytes (bytes_at (nf_byte (gmem s)) (unat bp + 4) 4) :: u32"
  assumes "nf_ok st tt (gmem s)" "nf_ram st tt (unat bp) 32" "nf_ram st tt (unat lowtpa) (unat hitpa - unat lowtpa)"
    "unat bp + 32 \<le> unat lowtpa + 0x100 \<or> unat hitpa \<le> unat bp + 8"
    "run_state (do_load e bp) s = (r, t)"
  shows "load_result e nf_byte bp s r t"
  using nf.wp_do_load_mem [of st tt s bp x env] assms(4-8) unfolding e_def lowtpa_def hitpa_def by (auto simp: wp_def)

text \<open>The eight-byte program, to be loaded at a base page at \<open>0x1000\<close> whose TPA ends at \<open>0x1200\<close>.\<close>

definition tiny_ram :: smc_state where
  "tiny_ram = (boot_state boot_config)\<lparr>tt_ram_available := True, tt_ram_size := 0x100000,
     nm_anon := \<lambda>a. if a = 0x1002 then 0x10 else if a = 0x1006 then 0x12 else 0\<rparr>"

definition tiny_x :: x_env where
  "tiny_x = \<lparr>x_get_byte = (\<lambda>a s. (0, s)), x_get_word = (\<lambda>a s. (0, s)), x_get_long = (\<lambda>a s. (0, s)),
     x_put_byte = (\<lambda>a v s. s), x_put_word = (\<lambda>a v s. s), x_put_long = (\<lambda>a v s. s)\<rparr>"

definition tiny_env :: "(smc_state option, unit) hostdos_env" where
  "tiny_env = hostdos_callbacks tiny_x (demo_host (\<lambda>a n m. ([], m)) (\<lambda>a b m. m) tiny_file)"

definition tiny_state :: "(smc_state option, unit) hostdos" where
  "tiny_state = (demo_power_up (Some tiny_ram))\<lparr>g_pend := tiny_pend\<lparr>pend_flags := 1\<rparr>\<rparr>"

lemma tiny_ok: "nf_ok 0x400000 0x100000 (gmem tiny_state)"
  by (simp add: nf_ok_def tiny_state_def tiny_ram_def demo_power_up_def boot_state_def flat_def tt_inv_def c_const)

lemma tiny_tpa:
  "be_bytes (bytes_at (nf_byte (gmem tiny_state)) 0x1000 4) = (0x1000 :: u32)"
  "be_bytes (bytes_at (nf_byte (gmem tiny_state)) 0x1004 4) = (0x1200 :: u32)"
  by code_simp+

lemma tiny_loads: "wp (do_load tiny_env 0x1000) (\<lambda>r t. r = 0) tiny_state"
proof -
  have p: "g_pend tiny_state = tiny_pend\<lparr>pend_flags := 1\<rparr>" "world tiny_state = ()"
    and f: "px_fread tiny_env p w = (Inr tiny_file, w)" for p w
    by (simp_all add: tiny_state_def demo_power_up_def tiny_env_def hostdos_callbacks_def demo_host_def)
  have l: "length tiny_file = 41" by code_simp
  have "slurp tiny_file [] = tiny_file" by (simp add: slurp.simps)
  then have s: "slurp [] tiny_file = tiny_file" using l by (subst slurp.simps) (auto simp: Let_def c_const)
  have r: "relocate (tiny_pend\<lparr>pend_flags := 1\<rparr>) 0x1100 tiny_file (take 8 (drop 28 tiny_file)) =
      Some [0x4E, 0x71, 0x4E, 0xF9, 0, 0, 0x11, 2]" by code_simp
  have ok: "nf_ok 0x400000 0x100000 (gmem (tiny_state\<lparr>g_pend := q\<rparr>))" for q using tiny_ok by simp
  have "wp (rd32 tiny_env 0x1000) Q (tiny_state\<lparr>g_pend := q\<rparr>) = Q 0x1000 (tiny_state\<lparr>g_pend := q\<rparr>)"
    "wp (rd32 tiny_env 0x1004) Q (tiny_state\<lparr>g_pend := q\<rparr>) = Q 0x1200 (tiny_state\<lparr>g_pend := q\<rparr>)" for Q q
    using nf.wp_rd32_mem [OF ok, where x = tiny_x, folded tiny_env_def]
    unfolding tiny_env_def by (simp_all add: nf_ram_def tiny_tpa)
  then show ?thesis
    unfolding do_load_def
    by (simp add: p f s l r [unfolded tiny_pend_def pend.simps] Let_def wp_sys_eq c_const tiny_pend_def wp_return_fun wp_True)
qed

theorem hostdos_load_memory_witness:
  "\<exists>t. run_state (do_load tiny_env 0x1000) tiny_state = (0, t) \<and> load_result tiny_env nf_byte 0x1000 tiny_state 0 t"
proof -
  obtain t where t: "run_state (do_load tiny_env 0x1000) tiny_state = (0, t)"
    using tiny_loads by (auto simp: wp_def split: prod.splits)
  moreover have "load_result tiny_env nf_byte 0x1000 tiny_state 0 t"
    unfolding tiny_env_def
    by (rule hostdos_load_memory [OF tiny_ok]) (use t in \<open>simp_all add: nf_ram_def tiny_tpa flip: tiny_env_def\<close>)
  ultimately show ?thesis by blast
qed

end
