(* ===== verification/Hostdos_Search.thy ===== *)
theory Hostdos_Search
  imports Hostdos_Load
begin

text \<open>
  Directory searches (\<open>do_fsfirst\<close> and \<open>do_fsnext\<close> of \<open>hostdos.cpp\<close>): a search that was started
  delivers its hits one by one and in order, and then ends.
\<close>

section \<open>Encoding of the DTA\<close>

lemma length_dta_bytes [simp]: "length (dta_bytes i h) = 44"
  by (simp add: dta_bytes_def be32_def be16_def strncpy_def bytes_of_def)

lemma dta_head: "take 4 (dta_bytes i h) = be32 HOSTDOS_DTA_MAGIC" "take 4 (drop 4 (dta_bytes i h)) = be32 i"
  by (simp_all add: dta_bytes_def be32_def)

section \<open>A search in progress\<close>

definition searching :: "('m \<Rightarrow> nat \<Rightarrow> u8) \<Rightarrow> u32 \<Rightarrow> u32 \<Rightarrow> nat \<Rightarrow> hit list \<Rightarrow> nat \<Rightarrow> ('m, 'w) hostdos \<Rightarrow> bool" where
  "searching byte dta sid i hs p s \<longleftrightarrow>
     i < length (g_search s) \<and> find_search sid (g_search s) = Some i \<and>
     g_search s ! i = \<lparr>ss_id = sid, ss_hits = hs, ss_pos = p\<rparr> \<and>
     bytes_at (byte (gmem s)) (unat dta) 4 = be32 HOSTDOS_DTA_MAGIC \<and>
     bytes_at (byte (gmem s)) (unat dta + 4) 4 = be32 sid"

lemma find_search_id: "find_search sid xs = Some i \<Longrightarrow> i < length xs \<and> ss_id (xs ! i) = sid \<and> sid \<noteq> 0"
  by (induction xs arbitrary: i) (auto split: if_splits)

lemma find_search_update:
  "find_search sid xs = Some i \<Longrightarrow> ss_id x = sid \<Longrightarrow> find_search sid (xs[i := x]) = Some i"
proof (induction xs arbitrary: i)
  case (Cons y xs)
  then show ?case using find_search_id [of sid xs] by (auto split: if_splits)
qed simp

context guest_memory
begin

lemma bytes_at_sub: "i + k \<le> n \<Longrightarrow> bytes_at f (a + i) k = take k (drop i (bytes_at f a n))"
  by (auto simp: bytes_at_def add.assoc intro!: nth_equalityI)

lemma stored_bytes_at: "stored s a bs t \<Longrightarrow> a + length bs < 2 ^ 32 \<Longrightarrow> bytes_at (byte (gmem t)) a (length bs) = bs"
  by (auto simp: stored_def bytes_at_def intro!: nth_equalityI)

lemma stored_search: "stored s a bs t \<Longrightarrow> g_search t = g_search s \<and> g_next_search t = g_next_search s"
  by (auto simp: stored_def)

lemma wp_dta_fill_mem:
  assumes "ok (gmem s)" "ram (unat dta) 44"
    "\<And>t. ok (gmem t) \<Longrightarrow> g_search t = g_search s \<Longrightarrow> bytes_at (byte (gmem t)) (unat dta) 44 = dta_bytes sid h \<Longrightarrow> Q () t"
  shows "wp (dta_fill env dta sid h) Q s"
  unfolding dta_fill_def
proof (rule wp_store [OF assms(1)])
  show "ram (unat dta) (length (dta_bytes sid h))" using assms(2) by simp
  show "Q () t" if t: "stored s (unat dta) (dta_bytes sid h) t" for t
    using stored_bytes_at [OF t] ram_bound [OF assms(2)] stored_search [OF t] t
    by (intro assms(3)) (auto simp: stored_def)
qed

lemma wp_fsnext_more:
  assumes ok: "ok (gmem s)" and ram: "ram (unat dta) 44" and dta: "dta \<noteq> 0"
    and s: "searching byte dta sid i hs p s" and p: "p < length hs"
  shows "wp (do_fsnext env dta) (\<lambda>r t. r = 0 \<and> ok (gmem t) \<and> searching byte dta sid i hs (p + 1) t \<and>
    bytes_at (byte (gmem t)) (unat dta) 44 = dta_bytes sid (hs ! p)) s"
proof -
  have d4: "unat (dta + 4) = unat dta + 4" using ram_bound [OF ram] by (subst unat_add_small) auto
  have r: "ram (unat dta) 4" "ram (unat (dta + 4)) 4" unfolding d4 by (intro ram_sub [OF ram]; simp)+
  let ?u = "s\<lparr>g_search := (g_search s)[i := \<lparr>ss_id = sid, ss_hits = hs, ss_pos = p + 1\<rparr>]\<rparr>"
  have "wp (dta_fill env dta sid (hs ! p)) (\<lambda>_ t. ok (gmem t) \<and> searching byte dta sid i hs (p + 1) t \<and>
      bytes_at (byte (gmem t)) (unat dta) 44 = dta_bytes sid (hs ! p)) ?u"
  proof (rule wp_dta_fill_mem)
    fix t :: "('m, 'w) hostdos"
    assume t: "ok (gmem t)" "g_search t = g_search ?u" "bytes_at (byte (gmem t)) (unat dta) 44 = dta_bytes sid (hs ! p)"
    have "bytes_at (byte (gmem t)) (unat dta) 4 = be32 HOSTDOS_DTA_MAGIC" "bytes_at (byte (gmem t)) (unat dta + 4) 4 = be32 sid"
      using bytes_at_sub [of 0 4 44 "byte (gmem t)" "unat dta"] bytes_at_sub [of 4 4 44 "byte (gmem t)" "unat dta"] t(3)
      by (simp_all add: dta_head)
    then show "ok (gmem t) \<and> searching byte dta sid i hs (p + 1) t \<and> bytes_at (byte (gmem t)) (unat dta) 44 = dta_bytes sid (hs ! p)"
      using t s by (auto simp: searching_def find_search_update)
  qed (use ok ram in auto)
  then show ?thesis
    unfolding do_fsnext_def
    using ok r dta s p
    by (simp add: wp_rd32_mem d4 searching_def be_bytes_be32 put_search_def wp_return_fun)
qed

lemma wp_fsnext_end:
  assumes ok: "ok (gmem s)" and ram: "ram (unat dta) 44" and s: "searching byte dta sid i hs (length hs) s"
  shows "wp (do_fsnext env dta) (\<lambda>r t. r = ENMFIL) s"
proof -
  have d4: "unat (dta + 4) = unat dta + 4" using ram_bound [OF ram] by (subst unat_add_small) auto
  have r: "ram (unat dta) 4" "ram (unat (dta + 4)) 4" unfolding d4 by (intro ram_sub [OF ram]; simp)+
  show ?thesis
    unfolding do_fsnext_def using ok r s
    by (simp add: wp_rd32_mem d4 searching_def be_bytes_be32 put_search_def)
qed

lemma fsnext_steps:
  assumes ok: "ok (gmem s)" and ram: "ram (unat dta) 44" and dta: "dta \<noteq> 0" and s: "searching byte dta sid i hs p s"
  shows "p + k \<le> length hs \<Longrightarrow>
    ok (gmem ((after (do_fsnext env dta) ^^ k) s)) \<and> searching byte dta sid i hs (p + k) ((after (do_fsnext env dta) ^^ k) s)"
proof (induction k)
  case (Suc k)
  let ?t = "(after (do_fsnext env dta) ^^ k) s"
  have "ok (gmem ?t)" "searching byte dta sid i hs (p + k) ?t" using Suc by simp_all
  from wp_fsnext_more [OF this(1) ram dta this(2)] Suc.prems show ?case
    by (simp add: wp_def split_def flip: after_def)
qed (use ok s in simp)

end

text \<open>C37: A directory search delivers its hits one by one. While a search is open on a DTA in RAM and
  the guest leaves the DTA alone, each \<open>Fsnext\<close> answers 0 and fills the DTA with the next hit, and the
  call after the last hit answers \<open>ENMFIL\<close>.\<close>
theorem fsnext_enumerates:
  fixes x :: x_env and env :: "(smc_state option, 'w) hostdos_env" and s :: "(smc_state option, 'w) hostdos" and dta :: u32
  defines "e \<equiv> hostdos_callbacks x env"
  defines "nth_state k \<equiv> (after (do_fsnext e dta) ^^ k) s"
  assumes "nf_ok st tt (gmem s)" "nf_ram st tt (unat dta) 44" "dta \<noteq> 0" "searching nf_byte dta sid i hs p s"
  shows "(\<forall>k. p + k < length hs \<longrightarrow>
      fst (run_state (do_fsnext e dta) (nth_state k)) = 0 \<and>
      bytes_at (nf_byte (gmem (nth_state (k + 1)))) (unat dta) 44 = dta_bytes sid (hs ! (p + k))) \<and>
    (p \<le> length hs \<longrightarrow> fst (run_state (do_fsnext e dta) (nth_state (length hs - p))) = ENMFIL)"
proof -
  have st: "nf_ok st tt (gmem (nth_state k))" "searching nf_byte dta sid i hs (p + k) (nth_state k)" if "p + k \<le> length hs" for k
    using nf.fsnext_steps [OF assms(3-6) that, of x env] unfolding nth_state_def e_def by simp_all
  have "fst (run_state (do_fsnext e dta) (nth_state k)) = 0 \<and>
      bytes_at (nf_byte (gmem (nth_state (k + 1)))) (unat dta) 44 = dta_bytes sid (hs ! (p + k))"
    if "p + k < length hs" for k
    using nf.wp_fsnext_more [OF st(1) assms(4,5) st(2), of k x env] that
    unfolding e_def nth_state_def by (simp add: wp_def split_def flip: after_def)
  moreover have "fst (run_state (do_fsnext e dta) (nth_state (length hs - p))) = ENMFIL" if "p \<le> length hs"
    using nf.wp_fsnext_end [of st tt "nth_state (length hs - p)" dta sid i hs x env] st [of "length hs - p"] assms(4) that
    unfolding e_def by (simp add: wp_def split_def)
  ultimately show ?thesis by blast
qed

text \<open>A search with two hits, the first of them already in the DTA at \<open>0x2000\<close>.\<close>

definition two_hits :: "hit list" where
  "two_hits = [\<lparr>hit_name = ''A'', hit_attr = 0, hit_time = 0, hit_date = 0, hit_size = 1\<rparr>,
               \<lparr>hit_name = ''B.TXT'', hit_attr = 1, hit_time = 0, hit_date = 0, hit_size = 2\<rparr>]"

definition search_state :: "(smc_state option, unit) hostdos" where
  "search_state = (demo_power_up (Some (tiny_ram\<lparr>nm_anon := \<lambda>a.
       if a = 0x2000 then 0x48 else if a = 0x2001 then 0x44 else if a = 0x2002 then 0x4F else if a = 0x2003 then 0x53
       else if a = 0x2007 then 7 else 0\<rparr>)))
     \<lparr>g_search := \<lparr>ss_id = 7, ss_hits = two_hits, ss_pos = 1\<rparr> # replicate 31 \<lparr>ss_id = 0, ss_hits = [], ss_pos = 0\<rparr>\<rparr>"

lemma search_state_ok: "nf_ok 0x400000 0x100000 (gmem search_state)"
  by (simp add: nf_ok_def search_state_def tiny_ram_def demo_power_up_def boot_state_def flat_def tt_inv_def c_const)

lemma search_state_searching: "searching nf_byte 0x2000 7 0 two_hits 1 search_state"
proof -
  have "bytes_at (nf_byte (gmem search_state)) 0x2000 4 = be32 HOSTDOS_DTA_MAGIC"
    "bytes_at (nf_byte (gmem search_state)) 0x2004 4 = be32 7"
    by code_simp+
  then show ?thesis by (simp add: searching_def) (simp add: search_state_def)
qed

theorem fsnext_enumerates_witness:
  "searching nf_byte 0x2000 7 0 two_hits 1 search_state \<and>
   fst (run_state (do_fsnext tiny_env 0x2000) search_state) = 0 \<and>
   bytes_at (nf_byte (gmem (after (do_fsnext tiny_env 0x2000) search_state))) 0x2000 44 = dta_bytes 7 (two_hits ! 1) \<and>
   fst (run_state (do_fsnext tiny_env 0x2000) (after (do_fsnext tiny_env 0x2000) search_state)) = ENMFIL"
proof -
  have l: "length two_hits = 2" by (simp add: two_hits_def)
  show ?thesis
    using fsnext_enumerates [OF search_state_ok _ _ search_state_searching, of tiny_x
        "demo_host (\<lambda>a n m. ([], m)) (\<lambda>a b m. m) tiny_file"] search_state_searching
    unfolding tiny_env_def by (auto simp: l nf_ram_def dest: spec [of _ 0])
qed

section \<open>What is listed\<close>

definition listed :: "(string \<Rightarrow> stat option) \<Rightarrow> string \<Rightarrow> string \<Rightarrow> u16 \<Rightarrow> ent \<Rightarrow> bool" where
  "listed st dir pat attr e \<longleftrightarrow>
     match83 pat (ent_tos e) \<and>
     (case st (dir @ ''/'' @ ent_host e) of None \<Rightarrow> False | Some x \<Rightarrow> S_ISDIR (st_mode x) \<longrightarrow> attr AND FA_DIR \<noteq> 0)"

lemma run_sys_stat: "px_stat env p (world s) = (st p, world s) \<Longrightarrow>
  run_state (sys_stat env p) s = (st p, s\<lparr>sys_log := sys_log s @ [(g_drives s, Sys_stat p)]\<rparr>)"
  by (simp add: sys_stat_def sys_def)

text \<open>\<open>Fsfirst\<close> lists exactly what it should: on a host whose \<open>stat\<close> answers do not change
  meanwhile, the hits are, in the order of the directory table, the entries whose name matches
  the pattern, that still exist, and that are no folders unless folders were asked for.\<close>
theorem search_hits_listed:
  assumes "\<And>p w. px_stat env p w = (st p, w)"
  shows "fst (run_state (search_hits env dir pat attr m) s) =
    map (\<lambda>e. make_hit env (ent_tos e) (the (st (dir @ ''/'' @ ent_host e)))) (filter (listed st dir pat attr) m)"
proof (induction m arbitrary: s)
  case (Cons e m)
  show ?case
  proof (cases "match83 pat (ent_tos e)")
    case True
    then show ?thesis
      using Cons run_sys_stat [of env "dir @ ''/'' @ ent_host e" s st] assms
      by (cases "st (dir @ ''/'' @ ent_host e)") (auto simp: listed_def split_def)
  next
    case False
    then show ?thesis using Cons by (simp add: listed_def)
  qed
qed simp

theorem search_hits_listed_witness:
  "fst (run_state (search_hits demo_env ''/'' ''*.*'' 0x10 [\<lparr>ent_tos = ''SRV'', ent_host = ''srv''\<rparr>]) (demo_power_up (demo_mem 0))) =
   map (\<lambda>e. make_hit demo_env (ent_tos e) (the (fst (px_stat demo_env (''/'' @ ''/'' @ ent_host e) ()))))
     (filter (listed (\<lambda>p. fst (px_stat demo_env p ())) ''/'' ''*.*'' 0x10) [\<lparr>ent_tos = ''SRV'', ent_host = ''srv''\<rparr>])"
  by (rule search_hits_listed) (simp add: demo_env_def demo_host_def)

end
