(* ===== verification/Blitter.thy ===== *)
theory Blitter
  imports Shadow_Coherence
begin

text \<open>
  The emulated BLiTTER of \<open>platforms/atari/st_blitter.c\<close>: its register file, the word engine
  \<open>blit_run\<close> over guest memory (through \<open>pistorm_blit_read16\<close> and \<open>pistorm_blit_write16\<close>) and the
  guest's register accesses. The clock is a parameter of the operations that read it.
\<close>

section \<open>State\<close>

text \<open>The register file \<open>R\<close> has 64 bytes, the source FIFO and the bus latch persist between
  blits. The two tunables are settings of the control panel.\<close>

record blitter =
  R :: "nat \<Rightarrow> u8"
  g_fifo :: u32
  g_bus_word :: u16
  g_busy_until :: u64
  g_accesses :: u32
  g_tt_blits :: u32
  pst_blit_timed_ns :: int
  pst_dbg_blit_trace :: int

definition BLIT_TT_BASE :: u32 where [c_const]: "BLIT_TT_BASE = 0x01000000"

definition blit_is_tt :: "'a smc_state_scheme \<Rightarrow> u32 \<Rightarrow> bool" where
  "blit_is_tt s a \<longleftrightarrow> tt_ram_available s \<and> a \<ge> BLIT_TT_BASE \<and> a - BLIT_TT_BASE < tt_ram_size s"

definition blit_addr_mask :: "'a smc_state_scheme \<Rightarrow> u32 \<Rightarrow> u32" where
  "blit_addr_mask s a = (if blit_is_tt s a then 0xFFFFFFFE else 0x00FFFFFE)"

definition blit_timing_cfg :: "blitter \<Rightarrow> int" where
  "blit_timing_cfg b =
     (let ns = pst_blit_timed_ns b in if ns < 0 \<or> ns > 100000 then 0 else ns)"

section \<open>The register file\<close>

definition blit_rd16 :: "blitter \<Rightarrow> nat \<Rightarrow> u16" where
  "blit_rd16 b off = push_bit 8 (ucast (R b off)) OR ucast (R b (off + 1))"

definition blit_wr16 :: "nat \<Rightarrow> u16 \<Rightarrow> blitter \<Rightarrow> blitter" where
  "blit_wr16 off v b = b\<lparr>R := (R b)(off := ucast (drop_bit 8 v), off + 1 := ucast v)\<rparr>"

definition blit_rd32 :: "blitter \<Rightarrow> nat \<Rightarrow> u32" where
  "blit_rd32 b off = push_bit 16 (ucast (blit_rd16 b off)) OR ucast (blit_rd16 b (off + 2))"

definition blit_wr32 :: "nat \<Rightarrow> u32 \<Rightarrow> blitter \<Rightarrow> blitter" where
  "blit_wr32 off v b = blit_wr16 (off + 2) (ucast v) (blit_wr16 off (ucast (drop_bit 16 v)) b)"

text \<open>\<open>R[i] &= m\<close>, and the don't-care bits of every register.\<close>

definition and_reg :: "nat \<Rightarrow> u8 \<Rightarrow> blitter \<Rightarrow> blitter" where
  "and_reg i m b = b\<lparr>R := (R b)(i := R b i AND m)\<rparr>"

definition blit_sanitize :: "blitter \<Rightarrow> blitter" where
  "blit_sanitize b =
     (and_reg 0x3D 0xCF (and_reg 0x3C 0xEF (and_reg 0x3B 0x0F (and_reg 0x3A 0x03
       (and_reg (0x32 + 3) 0xFE (and_reg (0x24 + 3) 0xFE
         (and_reg (0x30 + 1) 0xFE (and_reg (0x2E + 1) 0xFE
           (and_reg (0x22 + 1) 0xFE (and_reg (0x20 + 1) 0xFE b))))))))))"

definition blit_op :: "nat \<Rightarrow> u16 \<Rightarrow> u16 \<Rightarrow> u16" where
  "blit_op op' s d =
     (let k = op' mod 16 in
      if k = 0 then 0x0000
      else if k = 1 then s AND d
      else if k = 2 then s AND NOT d
      else if k = 3 then s
      else if k = 4 then NOT s AND d
      else if k = 5 then d
      else if k = 6 then s XOR d
      else if k = 7 then s OR d
      else if k = 8 then NOT s AND NOT d
      else if k = 9 then NOT (s XOR d)
      else if k = 10 then NOT d
      else if k = 11 then s OR NOT d
      else if k = 12 then NOT s
      else if k = 13 then NOT s OR d
      else if k = 14 then NOT s OR NOT d
      else 0xFFFF)"

section \<open>The word engine\<close>

text \<open>The values \<open>blit_run\<close> takes from the registers before its loop, and the variables the loop
  changes. The increments are the sign-extended register words, added modulo \<open>2 ^ 32\<close>.\<close>

record blit_params =
  smask :: u32
  dmask :: u32
  sxi :: u32
  syi :: u32
  dxi :: u32
  dyi :: u32
  em1 :: u16
  em2 :: u16
  em3 :: u16
  xc :: u32
  hop :: nat
  opn :: nat
  smudge :: bool
  fxsr :: bool
  nfsr :: bool
  skew :: nat

record blit_vars =
  src :: u32
  dst :: u32
  buf :: u32
  bl_x :: u32
  yc :: u32
  bl_line :: nat
  have_fxsr :: bool
  st_fxsr :: bool
  st_nfsr :: bool
  bus_word :: u16
  accesses :: u32

definition desc :: "blit_params \<Rightarrow> bool" where
  "desc p \<longleftrightarrow> sint (sxi p) < 0"

definition lop_src :: "nat \<Rightarrow> bool" where
  "lop_src k = [False,True,True,True,True,False,True,True,True,True,False,True,True,True,True,False] ! k"

definition lop_dst :: "nat \<Rightarrow> bool" where
  "lop_dst k = [False,True,True,False,True,True,True,True,True,True,True,True,False,True,True,False] ! k"

text \<open>\<open>FIFO_SHIFT\<close> followed by \<open>FIFO_INSERT\<close>: the two are always used together.\<close>

definition fifo_shift :: "blit_params \<Rightarrow> u32 \<Rightarrow> u32" where
  "fifo_shift p f = (if desc p then drop_bit 16 f else push_bit 16 f)"

definition fifo_insert :: "blit_params \<Rightarrow> u16 \<Rightarrow> u32 \<Rightarrow> u32" where
  "fifo_insert p w f = f OR (if desc p then push_bit 16 (ucast w) else ucast w)"

definition fifo_push :: "blit_params \<Rightarrow> u16 \<Rightarrow> blit_vars \<Rightarrow> blit_vars" where
  "fifo_push p w v = v\<lparr>buf := fifo_insert p w (fifo_shift p (buf v))\<rparr>"

definition blit_mask :: "blit_params \<Rightarrow> blit_vars \<Rightarrow> u16" where
  "blit_mask p v =
     (if bl_x v = xc p \<or> xc p = 1 then em1 p else if bl_x v = 1 then em3 p else em2 p)"

definition need_src :: "blit_params \<Rightarrow> bool" where
  "need_src p \<longleftrightarrow> lop_src (opn p) \<and> (2 \<le> hop p \<or> hop p = 1 \<and> smudge p)"

definition need_dst :: "blit_params \<Rightarrow> u16 \<Rightarrow> bool" where
  "need_dst p m \<longleftrightarrow> lop_dst (opn p) \<or> m \<noteq> 0xFFFF"

text \<open>A source fetch: the word goes through the bus latch into the FIFO.\<close>

definition fetch_word :: "blit_params \<Rightarrow> 'a smc_state_scheme \<Rightarrow> blit_vars \<Rightarrow> blit_vars" where
  "fetch_word p s v =
     (let w = pistorm_blit_read16 s (src v)
      in (fifo_push p w (v\<lparr>bus_word := w\<rparr>))\<lparr>accesses := accesses v + 1\<rparr>)"

text \<open>The reads of one word: the extra first fetch, the ordinary fetch, the destination, and the
  suppressed last fetch, which takes the bus latch again. The result carries \<open>fetch_src\<close> and
  \<open>dst_word\<close>.\<close>

definition blit_reads ::
  "blit_params \<Rightarrow> 'a smc_state_scheme \<Rightarrow> blit_vars \<Rightarrow> bool \<times> u16 \<times> blit_vars" where
  "blit_reads p s v =
     (let v0 = (if bl_x v = xc p then v\<lparr>st_nfsr := False, st_fxsr := fxsr p\<rparr> else v);
          v1 = (if st_fxsr v0 \<and> \<not> have_fxsr v0 \<and> need_src p
                then (fetch_word p s v0)\<lparr>src := (src v0 + sxi p) AND smask p, have_fxsr := True\<rparr>
                else v0);
          fetch_src = (need_src p \<and> \<not> st_nfsr v1);
          v2 = (if fetch_src then fetch_word p s v1 else v1);
          nd = need_dst p (blit_mask p v);
          dst_word = (if nd then pistorm_blit_read16 s (dst v2) else 0);
          v3 = (if nd then v2\<lparr>bus_word := dst_word, accesses := accesses v2 + 1\<rparr> else v2);
          v4 = (if nfsr p \<and> bl_x v3 = 1 \<and> need_src p then fifo_push p (bus_word v3) v3 else v3)
      in (fetch_src, dst_word, v4))"

text \<open>The source operand: halftone, shifted source or both.\<close>

definition blit_sdata :: "blitter \<Rightarrow> blit_params \<Rightarrow> blit_vars \<Rightarrow> u16" where
  "blit_sdata b p v =
     (let sw = ucast (drop_bit (skew p) (buf v)) :: u16;
          ht = blit_rd16 b ((if smudge p then unat (sw AND 0xF) else bl_line v) * 2)
      in if hop p = 0 then 0xFFFF else if hop p = 1 then ht else if hop p = 2 then sw else sw AND ht)"

definition blit_out :: "blit_params \<Rightarrow> u16 \<Rightarrow> u16 \<Rightarrow> u16 \<Rightarrow> u16" where
  "blit_out p m sdata d =
     (if m \<noteq> 0xFFFF then (blit_op (opn p) sdata d AND m) OR (d AND NOT m) else blit_op (opn p) sdata d)"

text \<open>The updates after a word has been written.\<close>

definition blit_step_vars :: "blit_params \<Rightarrow> bool \<Rightarrow> blit_vars \<Rightarrow> blit_vars" where
  "blit_step_vars p fetch_src v =
     (let v1 = (if bl_x v = 2 \<and> nfsr p then v\<lparr>st_nfsr := True\<rparr> else v);
          v2 = (if fetch_src
                then v1\<lparr>src := (src v1 + (if bl_x v1 = 1 \<or> st_nfsr v1 then syi p else sxi p)) AND smask p\<rparr>
                else v1)
      in if bl_x v2 = 1
         then v2\<lparr>have_fxsr := False, yc := yc v2 - 1, bl_x := xc p, dst := (dst v2 + dyi p) AND dmask p,
                 bl_line := (if 0 \<le> sint (dyi p) then bl_line v2 + 1 else bl_line v2 + 15) mod 16\<rparr>
         else v2\<lparr>bl_x := bl_x v2 - 1, dst := (dst v2 + dxi p) AND dmask p\<rparr>)"

text \<open>The body of the loop. \<open>None\<close>: the store faulted outside the pages the handler manages.\<close>

definition blit_word ::
  "bus_env \<Rightarrow> blitter \<Rightarrow> blit_params \<Rightarrow> blit_vars \<times> 'a smc_state_scheme \<Rightarrow>
   (blit_vars \<times> 'a smc_state_scheme) option" where
  "blit_word env b p vs =
     (let (v, s) = vs;
          (fetch_src, dst_word, v1) = blit_reads p s v;
          out = blit_out p (blit_mask p v) (blit_sdata b p v1) dst_word
      in case pistorm_blit_write16 env (dst v1) out s of
           None \<Rightarrow> None
         | Some t \<Rightarrow>
             (let v2 = v1\<lparr>bus_word := out, accesses := accesses v1 + 1\<rparr>;
                  v3 = (if nfsr p \<and> bl_x v2 = 1 \<and> need_src p then fifo_push p (bus_word v2) v2 else v2)
              in Some (blit_step_vars p fetch_src v3, t)))"

lemma blit_reads_counters:
  assumes "blit_reads p s v = (f, d, v')"
  shows "bl_x v' = bl_x v" "yc v' = yc v" "dst v' = dst v" "bl_line v' = bl_line v"
  using assms by (auto simp: blit_reads_def fetch_word_def fifo_push_def Let_def split: if_splits)

lemma blit_step_vars_counters:
  "bl_x (blit_step_vars p f v) = (if bl_x v = 1 then xc p else bl_x v - 1)"
  "yc (blit_step_vars p f v) = (if bl_x v = 1 then yc v - 1 else yc v)"
  "dst (blit_step_vars p f v) = (dst v + (if bl_x v = 1 then dyi p else dxi p)) AND dmask p"
  "bl_line (blit_step_vars p f v) =
     (if bl_x v = 1 then (if 0 \<le> sint (dyi p) then bl_line v + 1 else bl_line v + 15) mod 16 else bl_line v)"
  by (simp_all add: blit_step_vars_def Let_def)

lemma blit_word_counters:
  assumes "blit_word env b p (v, s) = Some (v', t)"
  shows "bl_x v' = (if bl_x v = 1 then xc p else bl_x v - 1)"
    "yc v' = (if bl_x v = 1 then yc v - 1 else yc v)"
    "dst v' = (dst v + (if bl_x v = 1 then dyi p else dxi p)) AND dmask p"
    "bl_line v' = (if bl_x v = 1 then (if 0 \<le> sint (dyi p) then bl_line v + 1 else bl_line v + 15) mod 16
       else bl_line v)"
proof -
  obtain f d v1 where r: "blit_reads p s v = (f, d, v1)" by (metis prod_cases3)
  note c = blit_reads_counters [OF r]
  obtain v3 where "v' = blit_step_vars p f v3" "bl_x v3 = bl_x v1" "yc v3 = yc v1" "dst v3 = dst v1"
    "bl_line v3 = bl_line v1"
    using assms by (auto simp: blit_word_def r Let_def fifo_push_def split: option.splits if_splits)
  then show "bl_x v' = (if bl_x v = 1 then xc p else bl_x v - 1)"
    "yc v' = (if bl_x v = 1 then yc v - 1 else yc v)"
    "dst v' = (dst v + (if bl_x v = 1 then dyi p else dxi p)) AND dmask p"
    "bl_line v' = (if bl_x v = 1 then (if 0 \<le> sint (dyi p) then bl_line v + 1 else bl_line v + 15) mod 16
       else bl_line v)"
    by (simp_all add: blit_step_vars_counters c)
qed

text \<open>\<open>while (yc)\<close>. Each turn lowers \<open>x\<close>, or starts a line with one line less to go; for every
  value of the counters the loop ends.\<close>

function blit_loop ::
  "bus_env \<Rightarrow> blitter \<Rightarrow> blit_params \<Rightarrow> blit_vars \<times> 'a smc_state_scheme \<Rightarrow>
   (blit_vars \<times> 'a smc_state_scheme) option" where
  "blit_loop env b p vs =
     (if yc (fst vs) = 0 then Some vs
      else case blit_word env b p vs of None \<Rightarrow> None | Some vs' \<Rightarrow> blit_loop env b p vs')"
  by pat_completeness auto
termination
proof (relation "measures [\<lambda>(_, _, _, vs). unat (yc (fst vs)), \<lambda>(_, _, _, vs). unat (bl_x (fst vs) - 1)]")
  fix env b p and vs vs' :: "blit_vars \<times> 'a smc_state_scheme"
  assume y: "yc (fst vs) \<noteq> 0" and w: "blit_word env b p vs = Some vs'"
  have c: "bl_x (fst vs') = (if bl_x (fst vs) = 1 then xc p else bl_x (fst vs) - 1)"
    "yc (fst vs') = (if bl_x (fst vs) = 1 then yc (fst vs) - 1 else yc (fst vs))"
    using blit_word_counters [of env b p "fst vs" "snd vs" "fst vs'" "snd vs'"] w by simp_all
  have dec: "unat (w - 1) < unat w" if "w \<noteq> 0" for w :: u32
    using that by (simp add: unat_minus_one word_neq_0_conv unat_gt_0)
  show "((env, b, p, vs'), env, b, p, vs) \<in>
    measures [\<lambda>(_, _, _, vs). unat (yc (fst vs)), \<lambda>(_, _, _, vs). unat (bl_x (fst vs) - 1)]"
    using dec [OF y] dec [of "bl_x (fst vs) - 1"] c by auto
qed simp

declare blit_loop.simps [simp del]

section \<open>\<open>blit_run\<close>\<close>

text \<open>Unpacking the registers; an X count of 0 is 65536.\<close>

definition blit_setup :: "'a smc_state_scheme \<Rightarrow> blitter \<Rightarrow> blit_params \<times> blit_vars" where
  "blit_setup s b =
     (let sm = blit_addr_mask s (blit_rd32 b 0x24);
          dm = blit_addr_mask s (blit_rd32 b 0x32);
          xcount = ucast (blit_rd16 b 0x36) :: u32;
          xcount = (if xcount = 0 then 65536 else xcount)
      in (\<lparr>smask = sm, dmask = dm, sxi = scast (blit_rd16 b 0x20), syi = scast (blit_rd16 b 0x22),
           dxi = scast (blit_rd16 b 0x2E), dyi = scast (blit_rd16 b 0x30),
           em1 = blit_rd16 b 0x28, em2 = blit_rd16 b 0x2A, em3 = blit_rd16 b 0x2C, xc = xcount,
           hop = unat (R b 0x3A AND 3), opn = unat (R b 0x3B AND 0xF),
           smudge = (R b 0x3C AND 0x20 \<noteq> 0), fxsr = (R b 0x3D AND 0x80 \<noteq> 0),
           nfsr = (R b 0x3D AND 0x40 \<noteq> 0), skew = unat (R b 0x3D AND 0xF)\<rparr>,
          \<lparr>src = blit_rd32 b 0x24 AND sm, dst = blit_rd32 b 0x32 AND dm, buf = g_fifo b, bl_x = xcount,
           yc = ucast (blit_rd16 b 0x38), bl_line = unat (R b 0x3C AND 0xF), have_fxsr = False,
           st_fxsr = False, st_nfsr = False, bus_word = g_bus_word b, accesses = 0\<rparr>))"

text \<open>The BUSY window: the time the real chip would need, doubled in shared mode.\<close>

definition blit_arm_busy :: "u64 \<Rightarrow> blitter \<Rightarrow> blitter" where
  "blit_arm_busy now b =
     (let ns = blit_timing_cfg b in
      if ns \<noteq> 0 then
        (let dur = ucast (g_accesses b) * word_of_int ns;
             dur = (if R b 0x3C AND 0x40 = 0 then dur * 2 else dur)
         in b\<lparr>g_busy_until := now + dur\<rparr>)
      else b)"

text \<open>The write-back of the end state.\<close>

definition blit_finish :: "u64 \<Rightarrow> blit_params \<Rightarrow> blit_vars \<Rightarrow> blitter \<Rightarrow> blitter" where
  "blit_finish now p v b =
     (let b1 = blit_arm_busy now (b\<lparr>g_bus_word := bus_word v, g_accesses := accesses v\<rparr>);
          b2 = blit_wr16 0x38 0 (blit_wr32 0x32 (dst v AND dmask p) (blit_wr32 0x24 (src v AND smask p)
                 (b1\<lparr>g_fifo := buf v\<rparr>)))
      in b2\<lparr>R := (R b2)(0x3C := (R b2 0x3C AND 0x60) OR of_nat (bl_line v))\<rparr>)"

text \<open>The two diagnostic counters.\<close>

definition blit_tt_note :: "blit_params \<Rightarrow> blitter \<Rightarrow> blitter" where
  "blit_tt_note p b =
     (if (smask p OR dmask p) = 0xFFFFFFFE then b\<lparr>g_tt_blits := g_tt_blits b + 1\<rparr> else b)"

definition blit_trace_note :: "blitter \<Rightarrow> blitter" where
  "blit_trace_note b =
     (if pst_dbg_blit_trace b > 0 then b\<lparr>pst_dbg_blit_trace := pst_dbg_blit_trace b - 1\<rparr> else b)"

definition blit_run ::
  "bus_env \<Rightarrow> u64 \<Rightarrow> blitter \<times> 'a smc_state_scheme \<Rightarrow> (blitter \<times> 'a smc_state_scheme) option" where
  "blit_run env now bs =
     (let (b, s) = bs;
          (p, v) = blit_setup s b;
          b1 = blit_tt_note p b
      in if yc v = 0 then Some (and_reg 0x3C 0x7F b1, s)
         else case blit_loop env (blit_trace_note b1) p (v, s) of
                None \<Rightarrow> None
              | Some (v', t) \<Rightarrow> Some (blit_finish now p v' (blit_trace_note b1), t))"

section \<open>The guest's register accesses\<close>

definition blit_read_byte :: "'a smc_state_scheme \<Rightarrow> u64 \<Rightarrow> blitter \<Rightarrow> nat \<Rightarrow> u8" where
  "blit_read_byte s now b k =
     (let v = (if (k = 0x24 \<and> \<not> blit_is_tt s (blit_rd32 b 0x24)) \<or>
                  (k = 0x32 \<and> \<not> blit_is_tt s (blit_rd32 b 0x32)) then 0 else R b k)
      in if k = 0x3C \<and> g_busy_until b \<noteq> 0 \<and> now < g_busy_until b then v OR 0x80 else v)"

definition st_blitter_reg_read ::
  "'a smc_state_scheme \<Rightarrow> u64 \<Rightarrow> u32 \<Rightarrow> nat \<Rightarrow> blitter \<Rightarrow> u32" where
  "st_blitter_reg_read s now addr n b =
     (let off = unat (addr AND 0x3F)
      in fold (\<lambda>i v. push_bit 8 v OR ucast (blit_read_byte s now b ((off + i) mod 64))) [0..<n] 0)"

definition blit_put_bytes :: "nat \<Rightarrow> u32 \<Rightarrow> nat \<Rightarrow> blitter \<Rightarrow> blitter" where
  "blit_put_bytes off val n b =
     fold (\<lambda>i b. b\<lparr>R := (R b)((off + i) mod 64 := ucast (drop_bit (8 * (n - 1 - i)) val))\<rparr>) [0..<n] b"

definition st_blitter_reg_write ::
  "bus_env \<Rightarrow> u64 \<Rightarrow> u32 \<Rightarrow> u32 \<Rightarrow> nat \<Rightarrow> blitter \<times> 'a smc_state_scheme \<Rightarrow>
   (blitter \<times> 'a smc_state_scheme) option" where
  "st_blitter_reg_write env now addr val n bs =
     (let (b, s) = bs;
          off = unat (addr AND 0x3F);
          b1 = blit_sanitize (blit_put_bytes off val n b)
      in if off \<le> 0x3C \<and> off + n > 0x3C \<and> R b1 0x3C AND 0x80 \<noteq> 0
         then blit_run env now (b1, s) else Some (b1, s))"

definition st_blitter_reset :: "blitter \<Rightarrow> blitter" where
  "st_blitter_reset b = b\<lparr>R := (\<lambda>_. 0), g_fifo := 0, g_bus_word := 0, g_busy_until := 0\<rparr>"

section \<open>The registers\<close>

text \<open>The bits each register keeps. A register file is well-formed if the others are clear and
  no blit is pending.\<close>

definition reg_masks :: "(nat \<times> u8) list" where
  "reg_masks =
     [(0x21, 0xFE), (0x23, 0xFE), (0x2F, 0xFE), (0x31, 0xFE), (0x27, 0xFE), (0x35, 0xFE),
      (0x3A, 0x03), (0x3B, 0x0F), (0x3C, 0xEF), (0x3D, 0xCF)]"

definition sane :: "blitter \<Rightarrow> bool" where
  "sane b \<longleftrightarrow> (\<forall>(i, m) \<in> set reg_masks. R b i AND m = R b i)"

definition blitter_wf :: "blitter \<Rightarrow> bool" where
  "blitter_wf b \<longleftrightarrow> sane b \<and> \<not> bit (R b 0x3C) 7"

lemma sanitize_sane: "sane (blit_sanitize b)"
  by (simp add: sane_def reg_masks_def blit_sanitize_def and_reg_def and.assoc)

text \<open>Register words and longs.\<close>

lemma rd16_wr16: "blit_rd16 (blit_wr16 off v b) off = v"
proof -
  have "push_bit 8 (ucast (ucast (drop_bit 8 v) :: u8)) OR ucast (ucast v :: u8) = v"
    by (rule bit_eqI) (auto simp: bit_simps)
  then show ?thesis by (simp add: blit_rd16_def blit_wr16_def)
qed

lemma rd16_wr16_other: "k + 1 < off \<or> off + 1 < k \<Longrightarrow> blit_rd16 (blit_wr16 off v b) k = blit_rd16 b k"
  by (auto simp: blit_rd16_def blit_wr16_def)

lemma rd32_wr32: "blit_rd32 (blit_wr32 off v b) off = v"
proof -
  have "push_bit 16 (ucast (ucast (drop_bit 16 v) :: u16)) OR ucast (ucast v :: u16) = v"
    by (rule bit_eqI) (auto simp: bit_simps)
  moreover have "blit_rd16 (blit_wr16 (off + 2) x c) off = blit_rd16 c off" for x c by (rule rd16_wr16_other) simp
  ultimately show ?thesis by (simp only: blit_rd32_def blit_wr32_def rd16_wr16)
qed

lemma rd32_wr32_other: "k + 3 < off \<or> off + 3 < k \<Longrightarrow> blit_rd32 (blit_wr32 off v b) k = blit_rd32 b k"
  by (auto simp: blit_rd32_def blit_wr32_def rd16_wr16_other)

lemma even_ucast: "even (ucast w :: 'b::len word) = even w" for w :: "'a::len word"
  using bit_ucast_iff [of w 0, where ?'a = 'b] by (simp add: bit_0)

lemma even_rd16: "even (blit_rd16 b off) = even (R b (off + 1))"
  by (simp add: blit_rd16_def even_or_iff even_push_bit_iff even_ucast)

lemma even_rd32: "even (blit_rd32 b off) = even (R b (off + 3))"
  by (simp add: blit_rd32_def even_or_iff even_push_bit_iff even_ucast even_rd16 eval_nat_numeral)

lemma and_FE_even: "w AND 0xFE = w \<Longrightarrow> even w" for w :: u8
  by (metis even_and_iff even_numeral)

lemma sane_even:
  assumes "sane b"
  shows "even (blit_rd16 b 0x20)" "even (blit_rd16 b 0x22)" "even (blit_rd16 b 0x2E)" "even (blit_rd16 b 0x30)"
    "even (blit_rd32 b 0x24)" "even (blit_rd32 b 0x32)"
  using assms by (auto simp: sane_def reg_masks_def even_rd16 even_rd32 intro: and_FE_even)


section \<open>The invariant of the register file\<close>

lemma blit_loop_line:
  "blit_loop env b p vs = Some vs' \<Longrightarrow> bl_line (fst vs) < 16 \<Longrightarrow> bl_line (fst vs') < 16"
proof (induction env b p vs rule: blit_loop.induct)
  case (1 env b p vs)
  show ?case
  proof (cases "yc (fst vs) = 0")
    case True
    then show ?thesis using "1.prems" by (simp add: blit_loop.simps)
  next
    case False
    then obtain ws where w: "blit_word env b p vs = Some ws" "blit_loop env b p ws = Some vs'"
      using "1.prems"(1) by (subst (asm) blit_loop.simps) (auto split: option.splits)
    then have "bl_line (fst ws) < 16"
      using blit_word_counters(4) [of env b p "fst vs" "snd vs" "fst ws" "snd ws"] "1.prems"(2) by simp
    then show ?thesis using "1.IH" [OF False w(1)] w(2) by blast
  qed
qed

lemma R_blit_finish:
  "R (blit_finish now p v b) k =
     (if k = 0x3C then (R b 0x3C AND 0x60) OR of_nat (bl_line v)
      else R (blit_wr16 0x38 0 (blit_wr32 0x32 (dst v AND dmask p) (blit_wr32 0x24 (src v AND smask p) b))) k)"
  by (simp add: blit_finish_def blit_arm_busy_def Let_def blit_wr32_def blit_wr16_def)

lemma even_and_addr_mask: "even (a AND blit_addr_mask s x)"
  by (simp add: blit_addr_mask_def even_and_iff)

lemma line_bits:
  assumes "n < 16"
  shows "(w AND 0x60 OR of_nat n) AND 0xEF = (w AND 0x60 OR of_nat n :: u8)"
    "\<not> bit (w AND 0x60 OR of_nat n :: u8) 7"
proof -
  have "of_nat n = take_bit 4 (of_nat n :: u8)" using assms by (simp add: take_bit_nat_eq_self flip: of_nat_take_bit)
  then have n: "\<not> bit (of_nat n :: u8) i" if "4 \<le> i" for i using that by (metis bit_take_bit_iff not_le)
  have m: "bit (0xEF :: u8) i = (i < 8 \<and> i \<noteq> 4)" for i by (cases "i < 8") (auto simp: bit_numeral_rec less_Suc_eq numeral_eq_Suc)
  have k: "bit (0x60 :: u8) i = (i = 5 \<or> i = 6)" for i by (cases "i < 8") (auto simp: bit_numeral_rec less_Suc_eq numeral_eq_Suc)
  show "(w AND 0x60 OR of_nat n) AND 0xEF = (w AND 0x60 OR of_nat n :: u8)"
    using n [of 4] by (intro bit_eqI) (simp only: bit_or_iff bit_and_iff m k, auto)
  show "\<not> bit (w AND 0x60 OR of_nat n :: u8) 7"
    using n [of 7] by (simp only: bit_or_iff bit_and_iff k, simp)
qed

lemma blit_finish_wf:
  assumes "sane b" "bl_line v < 16" "p = fst (blit_setup s c)"
  shows "blitter_wf (blit_finish now p v b)"
proof -
  have e: "even (a AND smask p)" "even (a AND dmask p)" for a
    using assms(3) even_and_addr_mask by (simp_all add: blit_setup_def Let_def)
  have "ucast (w :: u16) AND 0xFE = (ucast w :: u8)" if "even w" for w
    using that by (intro bit_eqI) (auto simp: bit_simps bit_numeral_rec bit_0 less_Suc_eq numeral_eq_Suc)
  then show ?thesis
    using assms(1) line_bits [OF assms(2), of "R b 0x3C"] e
    by (simp add: blitter_wf_def sane_def reg_masks_def R_blit_finish blit_wr32_def blit_wr16_def even_ucast)
qed


lemma R_blit_notes [simp]: "R (blit_tt_note p b) = R b" "R (blit_trace_note b) = R b"
  by (simp_all add: blit_tt_note_def blit_trace_note_def)

lemma blit_run_wf:
  assumes "sane b" "blit_run env now (b, s) = Some (b', t)"
  shows "blitter_wf b'"
proof -
  obtain p v where pv: "blit_setup s b = (p, v)" by fastforce
  show ?thesis
  proof (cases "yc v = 0")
    case True
    have "\<not> bit (w AND 0x7F :: u8) 7" for w by (simp only: bit_and_iff bit_numeral_rec, simp)
    moreover have "(w AND 0x7F) AND 0xEF = (w AND 0xEF) AND 0x7F" for w :: u8 by (simp add: ac_simps)
    ultimately show ?thesis
      using assms True by (auto simp: blit_run_def pv and_reg_def blitter_wf_def sane_def reg_masks_def Let_def split: if_splits)
  next
    case False
    let ?c = "blit_trace_note (blit_tt_note p b)"
    obtain v' where c: "blit_loop env ?c p (v, s) = Some (v', t)" "b' = blit_finish now p v' ?c"
      using assms(2) False by (auto simp: blit_run_def pv Let_def split: option.splits)
    have sn: "sane ?c" using assms(1) by (simp add: sane_def)
    have "bl_line v < 16"
    proof -
      have "bl_line v = unat (R b 0x3C AND mask 4)" using pv by (auto simp: blit_setup_def Let_def mask_eq_exp_minus_1)
      then show ?thesis by (simp only: unat_and_mask) simp
    qed
    then have "bl_line v' < 16" using blit_loop_line [OF c(1)] by simp
    moreover have "p = fst (blit_setup s b)" by (simp add: pv)
    ultimately show ?thesis unfolding c(2) using sn by (intro blit_finish_wf)
  qed
qed

lemma R_blit_put_bytes_other:
  assumes "off + n \<le> k \<or> k < off" "k < 64" "off + n \<le> k + 64"
  shows "R (blit_put_bytes off val n b) k = R b k"
proof -
  have "R (fold (\<lambda>i b. b\<lparr>R := (R b)((off + i) mod 64 := f i)\<rparr>) is b) k = R b k"
    if "\<forall>i \<in> set is. (off + i) mod 64 \<noteq> k" for f "is"
    using that by (induction "is" arbitrary: b) auto
  moreover have "(off + i) mod 64 \<noteq> k" if "i < n" for i
  proof (cases "off + i < 64")
    case True
    then show ?thesis using that assms by auto
  next
    case False
    moreover have "off + i - 64 < k" using that assms False by simp
    ultimately show ?thesis using assms(2) by (simp add: le_mod_geq)
  qed
  ultimately show ?thesis unfolding blit_put_bytes_def by simp
qed


lemma st_blitter_reg_write_wf:
  assumes wf: "blitter_wf b" and n: "n \<in> {1, 2, 4}"
    and w: "st_blitter_reg_write env now addr val n (b, s) = Some (b', t)"
  shows "blitter_wf b'"
proof -
  define off where "off = unat (addr AND mask 6)"
  have off: "off < 64" unfolding off_def by (simp only: unat_and_mask) simp
  have off': "off = unat (addr AND 0x3F)" by (simp add: off_def mask_eq_exp_minus_1)
  let ?b = "blit_sanitize (blit_put_bytes off val n b)"
  show ?thesis
  proof (cases "off \<le> 0x3C \<and> off + n > 0x3C \<and> R ?b 0x3C AND 0x80 \<noteq> 0")
    case True
    then have "blit_run env now (?b, s) = Some (b', t)"
      using w by (simp add: st_blitter_reg_write_def off' [symmetric] Let_def)
    then show ?thesis by (rule blit_run_wf [OF sanitize_sane])
  next
    case False
    then have b': "b' = ?b" using w by (auto simp: st_blitter_reg_write_def off' [symmetric] Let_def split: if_splits)
    have "\<not> bit (R ?b 0x3C) 7"
    proof (cases "off \<le> 0x3C \<and> off + n > 0x3C")
      case True
      then have "R ?b 0x3C AND 0x80 = 0" using False by simp
      moreover have "(0x80 :: u8) = 2 ^ 7" by simp
      ultimately show ?thesis by (metis and_exp_eq_0_iff_not_bit)
    next
      case out: False
      then have "R (blit_put_bytes off val n b) 0x3C = R b 0x3C"
        using off n by (intro R_blit_put_bytes_other) auto
      then have "R ?b 0x3C = R b 0x3C AND 0xEF" by (simp add: blit_sanitize_def and_reg_def)
      then show ?thesis using wf by (simp add: blitter_wf_def bit_and_iff)
    qed
    then show ?thesis using sanitize_sane by (simp add: blitter_wf_def b')
  qed
qed

text \<open>What happens to the chip: a guest write of a byte, word or long, a reset, and anything the
  rest of the machine does to memory.\<close>

inductive blit_machine :: "blitter \<times> smc_state \<Rightarrow> blitter \<times> smc_state \<Rightarrow> bool" where
  reg_write: "n \<in> {1, 2, 4} \<Longrightarrow> st_blitter_reg_write env now addr val n (b, s) = Some (b', t) \<Longrightarrow>
    blit_machine (b, s) (b', t)"
| chip_reset: "blit_machine (b, s) (st_blitter_reset b, s)"
| memory: "blit_machine (b, s) (b, t)"

inductive_cases blit_machineE: "blit_machine (b, s) x"

lemma st_blitter_reset_wf: "blitter_wf (st_blitter_reset b)"
  by (simp add: blitter_wf_def sane_def reg_masks_def st_blitter_reset_def)

definition blit_power_up :: "blitter \<times> smc_state \<Rightarrow> bool" where
  "blit_power_up bs \<longleftrightarrow> fst bs = st_blitter_reset (fst bs)"

lemma blit_power_up_wf: "blit_power_up bs \<Longrightarrow> blitter_wf (fst bs)"
  unfolding blit_power_up_def by (metis st_blitter_reset_wf)

lemma blit_machine_wf: "blit_machine x y \<Longrightarrow> blitter_wf (fst x) \<Longrightarrow> blitter_wf (fst y)"
proof (induction rule: blit_machine.induct)
  case (reg_write n env now addr val b s b' t)
  then show ?case using st_blitter_reg_write_wf [of b n env now addr val s b' t] by simp
qed (simp_all add: st_blitter_reset_wf)

interpretation blit: invariant_system blit_power_up blit_machine "\<lambda>bs. blitter_wf (fst bs)"
  by unfold_locales (erule blit_power_up_wf, rule blit_machine_wf)

section \<open>The raster operations\<close>

lemma bit_FFFF: "i < 16 \<Longrightarrow> bit (0xFFFF :: u16) i"
  using bit_mask_iff [of 16 i, where ?'a = u16] by (simp add: mask_eq_exp_minus_1)

text \<open>The operation number is its own truth table.\<close>

lemma blit_op_bit:
  assumes "k < 16" "i < 16"
  shows "bit (blit_op k s d) i = bit k ((if bit s i then 0 else 2) + (if bit d i then 0 else 1))"
proof -
  have f: "bit (0xFFFF :: u16) i" by (rule bit_FFFF [OF assms(2)])
  have "k = 0 \<or> k = 1 \<or> k = 2 \<or> k = 3 \<or> k = 4 \<or> k = 5 \<or> k = 6 \<or> k = 7 \<or> k = 8 \<or> k = 9 \<or> k = 10 \<or> k = 11 \<or>
      k = 12 \<or> k = 13 \<or> k = 14 \<or> k = 15"
    using assms(1) by presburger
  then show ?thesis
    using assms(2) f
    by (elim disjE; cases "bit s i"; cases "bit d i")
      (simp_all add: blit_op_def bit_and_iff bit_or_iff bit_xor_iff bit_not_iff bit_iff_odd [of "_ :: nat"])
qed

end
