(* ===== verification/Blitter_Walk.thy ===== *)
theory Blitter_Walk
  imports Blitter
begin

text \<open>
  What a blit does to guest memory: the walk of the destination address over the rectangle the
  registers describe, the words it leaves alone and the words it writes.
\<close>

section \<open>Words of guest RAM\<close>

text \<open>Addresses the 24-bit blitter produces: below 16 MB and even.\<close>

definition blit24 :: "u32 \<Rightarrow> bool" where
  "blit24 a \<longleftrightarrow> a AND 0x00FFFFFE = a"

lemma blit24_and [simp]: "blit24 (a AND 0x00FFFFFE)"
  by (simp add: blit24_def and.assoc)

lemma blit24_less: "blit24 a \<Longrightarrow> unat a < 0x01000000"
proof -
  assume "blit24 a"
  moreover have "(0x00FFFFFE :: u32) AND mask 24 = 0x00FFFFFE" by (simp add: mask_eq_exp_minus_1)
  ultimately have "a AND mask 24 = a" unfolding blit24_def by (metis and.assoc)
  then have "unat a = unat a mod 2 ^ 24" by (metis unat_and_mask)
  moreover have "unat a mod 2 ^ 24 < (2 ^ 24 :: nat)" by (rule mod_less_divisor) simp
  ultimately show ?thesis by simp
qed

lemma blit24_even: "blit24 a \<Longrightarrow> even a"
  unfolding blit24_def by (metis even_and_iff even_numeral)

text \<open>The fields of the memory layout a blit depends on; it changes none of them.\<close>

definition ram_cfg where
  "ram_cfg s = (g_stram_top s, tt_ram_available s, tt_ram_size s)"

lemma ram_cfg_tail [simp]:
  "ram_cfg (s\<lparr>g_buserr := b\<rparr>) = ram_cfg s" "ram_cfg (s\<lparr>fc := x\<rparr>) = ram_cfg s"
  "ram_cfg (s\<lparr>nm_anon := m\<rparr>) = ram_cfg s"
  "ram_cfg (stram_snoop_lowram a z s) = ram_cfg s"
  "ram_cfg (pistorm_smc a z s) = ram_cfg s"
  "ram_cfg (ps_write_16 env a v16 s) = ram_cfg s"
  by (simp_all add: ram_cfg_def stram_snoop_lowram_def stram_refresh_physbase_def pistorm_smc_def
      cache_invalidate_def ps_write_defs Let_def)

lemma flat_alias_view: "alias_view t = alias_view s \<Longrightarrow> flat t = flat s"
  by (simp add: alias_view_def flat_def)

definition ram_word :: "'a smc_state_scheme \<Rightarrow> u32 \<Rightarrow> u16" where
  "ram_word s a = do_get_mem_word s (Natmem a)"

definition put_word :: "u32 \<Rightarrow> u16 \<Rightarrow> (u32 \<Rightarrow> u8) \<Rightarrow> u32 \<Rightarrow> u8" where
  "put_word a v m = m(a := ucast (drop_bit 8 v), a + 1 := ucast v)"

lemma not_blit_tt: "blit24 a \<Longrightarrow> \<not> blit_tt s a"
  using blit24_less [of a] by (auto simp: blit_tt_def word_le_nat_alt c_const)

lemma blit_read_st: "blit24 a \<Longrightarrow> pistorm_blit_read16 s a = ram_word s a"
  using not_blit_tt [of a s] by (simp add: pistorm_blit_read16_def blit24_def ram_word_def)

lemma blit_write_st:
  assumes fl: "flat s" and a: "blit24 a"
  obtains t where "pistorm_blit_write16 env a v s = Some t" "flat t" "ram_cfg t = ram_cfg s"
    "nm_anon t = (if a < g_stram_top s then put_word a v (nm_anon s) else nm_anon s)"
proof (cases "a < g_stram_top s")
  case False
  then show ?thesis
    using a fl not_blit_tt [OF a, of s]
    by (intro that [of s]) (auto simp: pistorm_blit_write16_def blit24_def)
next
  case True
  let ?s1 = "do_put_mem_word (Natmem a) v s"
  have s1: "?s1 = s\<lparr>nm_anon := put_word a v (nm_anon s)\<rparr>"
    using fl by (simp add: do_put_mem_word_def put_byte_flat put_word_def)
  let ?s2 = "stram_snoop_lowram a 2 ?s1"
  let ?s3 = "if stram_needs_bus_write ?s2 a 2
    then (ps_write_16 env (stram_bus_addr ?s2 a) v (?s2\<lparr>fc := 5, g_buserr := False\<rparr>))\<lparr>g_buserr := False, fc := fc ?s2\<rparr>
    else ?s2"
  have e: "pistorm_blit_write16 env a v s = Some (pistorm_smc a 2 ?s3)"
    using True a not_blit_tt [OF a, of s] by (simp add: pistorm_blit_write16_def blit24_def Let_def)
  have m: "mem_view (x\<lparr>fc := y\<rparr>) = mem_view x" for x :: "'a smc_state_scheme" and y by (simp add: mem_view_def)
  have "mem_view (pistorm_smc a 2 ?s3) = mem_view ?s1" by (simp add: m)
  then have "nm_anon (pistorm_smc a 2 ?s3) = nm_anon ?s1" by (rule mem_view_fields)
  moreover have "alias_view (pistorm_smc a 2 ?s3) = alias_view s" by simp
  then have "flat (pistorm_smc a 2 ?s3)" using fl flat_alias_view by blast
  moreover have "ram_cfg (pistorm_smc a 2 ?s3) = ram_cfg s" by (simp add: s1)
  ultimately show ?thesis using True by (intro that [OF e]) (simp_all add: s1)
qed

lemma ram_word_flat:
  "flat s \<Longrightarrow> ram_word s a = push_bit 8 (ucast (nm_anon s a)) OR ucast (nm_anon s (a + 1))"
  by (simp add: ram_word_def do_get_mem_word_def mem_get_byte_def flat_def natmem_cell_def cell_get_def)

lemma put_word_other: "even a \<Longrightarrow> even c \<Longrightarrow> a \<noteq> c \<Longrightarrow> put_word a v m c = m c \<and> put_word a v m (c + 1) = m (c + 1)"
proof -
  assume "even a" "even c" "a \<noteq> c"
  then have "a + 1 \<noteq> c" "a \<noteq> c + 1" by auto
  then show ?thesis using \<open>a \<noteq> c\<close> by (simp add: put_word_def)
qed

lemma ram_word_put:
  assumes "flat s" "flat t" "nm_anon t = put_word a v (nm_anon s)"
  shows "ram_word t a = v" "even a \<Longrightarrow> even c \<Longrightarrow> a \<noteq> c \<Longrightarrow> ram_word t c = ram_word s c"
proof -
  have "push_bit 8 (ucast (ucast (drop_bit 8 v) :: u8)) OR ucast (ucast v :: u8) = v"
    by (rule bit_eqI) (auto simp: bit_simps)
  then show "ram_word t a = v" using assms by (simp add: ram_word_flat put_word_def)
  show "ram_word t c = ram_word s c" if "even a" "even c" "a \<noteq> c"
    using put_word_other [OF that] assms by (simp add: ram_word_flat)
qed


section \<open>The walk over the destination\<close>

text \<open>Word \<open>x\<close> of line \<open>y\<close>: within a line of \<open>c\<close> words the address moves by the X increment, from
  the last word of a line to the first of the next by the Y increment.\<close>

definition walk_addr :: "u32 \<Rightarrow> u32 \<Rightarrow> u32 \<Rightarrow> u32 \<Rightarrow> u32 \<Rightarrow> nat \<Rightarrow> nat \<Rightarrow> u32" where
  "walk_addr m c xi yi a y x = (a + of_nat y * ((c - 1) * xi + yi) + of_nat x * xi) AND m"

definition dst_addr :: "blit_params \<Rightarrow> u32 \<Rightarrow> nat \<Rightarrow> nat \<Rightarrow> u32" where
  "dst_addr p = walk_addr (dmask p) (xc p) (dxi p) (dyi p)"

definition src_addr :: "blit_params \<Rightarrow> u32 \<Rightarrow> nat \<Rightarrow> nat \<Rightarrow> u32" where
  "src_addr p = walk_addr (smask p) (xc p) (sxi p) (syi p)"

text \<open>The destination rectangle of a blit of \<open>n\<close> lines that starts at \<open>d\<close>.\<close>

definition blit_rect :: "blit_params \<Rightarrow> u32 \<Rightarrow> nat \<Rightarrow> u32 set" where
  "blit_rect p d n = {dst_addr p d y x | y x. y < n \<and> x < unat (xc p)}"

text \<open>Adding an even increment commutes with the 24-bit mask.\<close>

lemma and_FFFFFE: "a AND 0x00FFFFFE = take_bit 24 (a - (a AND 1))" for a :: u32
proof -
  have "(0x00FFFFFE :: u32) = mask 24 AND NOT 1" by (simp add: mask_eq_exp_minus_1)
  moreover have "a - (a AND 1) = a AND NOT 1"
    by (subst disjunctive_diff_eq_and_not) (auto intro!: bit_eqI simp: bit_simps)
  ultimately show ?thesis by (simp only: take_bit_eq_mask and.assoc) (metis and.commute)
qed

lemma even_and_1: "even a \<Longrightarrow> a AND 1 = 0" for a :: u32
  by (simp add: and_one_eq mod2_eq_if)

lemma take_bit_add_left: "take_bit 24 (take_bit 24 x + y) = take_bit 24 (x + y)" for x :: u32
proof -
  have m: "k mod 4294967296 mod 16777216 = k mod 16777216" for k :: nat by (rule mod_mod_cancel) simp
  show ?thesis by (simp add: word_unat_eq_iff unat_take_bit unat_word_ariths m mod_simps)
qed

lemma mask24_add:
  assumes "even e"
  shows "((a AND 0x00FFFFFE) + e) AND 0x00FFFFFE = (a + e) AND (0x00FFFFFE :: u32)"
proof -
  let ?z = "a AND 0x00FFFFFE"
  have "even (?z + e)" using assms by (simp add: even_and_iff)
  then have "(?z + e) AND 0x00FFFFFE = take_bit 24 (?z + e)" by (simp only: and_FFFFFE even_and_1 diff_zero)
  also have "\<dots> = take_bit 24 (a - (a AND 1) + e)"
    unfolding and_FFFFFE [of a] by (simp add: take_bit_add_left)
  also have "\<dots> = take_bit 24 ((a + e) - ((a + e) AND 1))"
  proof -
    have "(a + e) AND 1 = a AND 1" using assms by (simp add: and_one_eq mod2_eq_if)
    then show ?thesis by (simp add: algebra_simps)
  qed
  finally show ?thesis by (simp only: and_FFFFFE)
qed


lemma walk_addr_step:
  assumes "m = 0x00FFFFFE" "even xi" "even yi" "c \<noteq> 0"
  shows "(walk_addr m c xi yi a y x + xi) AND m = walk_addr m c xi yi a y (x + 1)"
    "x + 1 = unat c \<Longrightarrow> (walk_addr m c xi yi a y x + yi) AND m = walk_addr m c xi yi a (y + 1) 0"
proof -
  show "(walk_addr m c xi yi a y x + xi) AND m = walk_addr m c xi yi a y (x + 1)"
    using assms(1,2) by (simp add: walk_addr_def mask24_add) (simp add: algebra_simps)
  assume x: "x + 1 = unat c"
  then have "of_nat (x + 1) = c" by simp
  then have "of_nat x = c - 1" by (simp add: eq_diff_eq add.commute)
  then show "(walk_addr m c xi yi a y x + yi) AND m = walk_addr m c xi yi a (y + 1) 0"
    using assms(1,3) by (simp add: walk_addr_def mask24_add) (simp add: algebra_simps)
qed

lemma walk_addr_blit24: "m = 0x00FFFFFE \<Longrightarrow> blit24 (walk_addr m c xi yi a y x)"
  by (simp add: walk_addr_def)

text \<open>An invariant of the word loop, by position.\<close>

lemma blit_loop_rule:
  assumes step: "\<And>y x v s. y < n \<Longrightarrow> x < unat (xc p) \<Longrightarrow> unat (bl_x v) = unat (xc p) - x \<Longrightarrow> I y x v s \<Longrightarrow>
      \<exists>v' t. blit_word env b p (v, s) = Some (v', t) \<and>
        (if x + 1 = unat (xc p) then I (y + 1) 0 v' t else I y (x + 1) v' t)"
    and "I y x v s" "unat (yc v) = n - y" "y \<le> n" "unat (bl_x v) = unat (xc p) - x" "x < unat (xc p)"
    "y = n \<Longrightarrow> x = 0"
  shows "\<exists>v' t. blit_loop env b p (v, s) = Some (v', t) \<and> I n 0 v' t"
  using assms
proof (induction env b p "(v, s)" arbitrary: v s y x rule: blit_loop.induct)
  case (1 env b p v s)
  show ?case
  proof (cases "y = n")
    case True
    then show ?thesis using "1.prems"(2,3,7) by (simp add: blit_loop.simps unat_eq_zero)
  next
    case False
    then have y: "y < n" "yc v \<noteq> 0" using "1.prems"(3,4) by auto
    obtain v' t where w: "blit_word env b p (v, s) = Some (v', t)"
      and i: "if x + 1 = unat (xc p) then I (y + 1) 0 v' t else I y (x + 1) v' t"
      using "1.prems"(1) [OF y(1) "1.prems"(6,5,2)] by blast
    note c = blit_word_counters [OF w]
    have one: "bl_x v = 1 \<longleftrightarrow> x + 1 = unat (xc p)"
      using "1.prems"(5,6) by (auto simp: word_unat_eq_iff)
    have dec: "unat (u - 1) = unat u - 1" if "0 < unat u" for u :: u32
      using that by (simp add: unat_minus_one unat_gt_0)
    have "\<exists>v'' t'. blit_loop env b p (v', t) = Some (v'', t') \<and> I n 0 v'' t'"
    proof (cases "x + 1 = unat (xc p)")
      case True
      then show ?thesis
        using i c one y "1.prems"(3,6) dec [of "yc v"]
        by (intro "1.hyps" [OF _ w, of "y + 1" 0] "1.prems"(1)) (auto simp: unat_gt_0)
    next
      case False
      then show ?thesis
        using i c one y "1.prems"(3,5,6) dec [of "bl_x v"]
        by (intro "1.hyps" [OF _ w, of y "x + 1"] "1.prems"(1)) auto
    qed
    then show ?thesis using y(2) w by (subst blit_loop.simps) simp
  qed
qed


section \<open>One word\<close>

text \<open>The word a turn of the loop writes.\<close>

definition word_out :: "blitter \<Rightarrow> blit_params \<Rightarrow> 'a smc_state_scheme \<Rightarrow> blit_vars \<Rightarrow> u16" where
  "word_out b p s v =
     (let (_, d, v1) = blit_reads p s v in blit_out p (blit_mask p v) (blit_sdata b p v1) d)"

lemma blit_word_st:
  assumes "flat s" "blit24 (dst v)"
  obtains v' t where "blit_word env b p (v, s) = Some (v', t)" "flat t" "ram_cfg t = ram_cfg s"
    "nm_anon t = (if dst v < g_stram_top s then put_word (dst v) (word_out b p s v) (nm_anon s) else nm_anon s)"
proof -
  obtain f d v1 where r: "blit_reads p s v = (f, d, v1)" by (metis prod_cases3)
  have e: "dst v1 = dst v" using blit_reads_counters [OF r] by simp
  obtain t where t: "pistorm_blit_write16 env (dst v) (word_out b p s v) s = Some t" "flat t" "ram_cfg t = ram_cfg s"
    "nm_anon t = (if dst v < g_stram_top s then put_word (dst v) (word_out b p s v) (nm_anon s) else nm_anon s)"
    by (rule blit_write_st [OF assms, of env "word_out b p s v"])
  then have "\<exists>v'. blit_word env b p (v, s) = Some (v', t)"
    by (simp add: blit_word_def r e word_out_def Let_def)
  then show thesis using t that by blast
qed

text \<open>The destination is read whenever its old value matters, and the source operand is read
  whenever it does: with a full mask, operations 0, 3, 12 and 15 ignore the old word.\<close>

lemma lop_dst_sound: "k < 16 \<Longrightarrow> \<not> lop_dst k \<Longrightarrow> blit_op k s d = blit_op k s d'"
proof -
  assume k: "k < 16" "\<not> lop_dst k"
  then have "k = 0 \<or> k = 3 \<or> k = 12 \<or> k = 15"
    by (auto simp: lop_dst_def nth_Cons' split: if_splits)
  then show ?thesis by (auto simp: blit_op_def)
qed

lemma lop_src_sound: "k < 16 \<Longrightarrow> \<not> lop_src k \<Longrightarrow> blit_op k s d = blit_op k s' d"
proof -
  assume k: "k < 16" "\<not> lop_src k"
  then have "k = 0 \<or> k = 5 \<or> k = 10 \<or> k = 15"
    by (auto simp: lop_src_def nth_Cons' split: if_splits)
  then show ?thesis by (auto simp: blit_op_def)
qed

lemma blit_reads_dst:
  assumes "blit_reads p s v = (f, d, v1)" "blit24 (dst v)"
  shows "d = (if need_dst p (blit_mask p v) then ram_word s (dst v) else 0)"
  using assms(1) blit_read_st [OF assms(2)]
  by (auto simp: blit_reads_def fetch_word_def fifo_push_def Let_def split: if_splits)

lemma word_out_bits:
  assumes "blit24 (dst v)" "opn p < 16" "i < 16" "blit_reads p s v = (f, d, v1)"
  shows "bit (word_out b p s v) i =
    (if bit (blit_mask p v) i
     then bit (opn p) ((if bit (blit_sdata b p v1) i then 0 else 2) + (if bit (ram_word s (dst v)) i then 0 else 1))
     else bit (ram_word s (dst v)) i)"
proof -
  let ?m = "blit_mask p v" and ?sd = "blit_sdata b p v1" and ?old = "ram_word s (dst v)"
  have w: "word_out b p s v = blit_out p ?m ?sd d" by (simp add: word_out_def assms(4))
  have d: "d = (if need_dst p ?m then ?old else 0)" by (rule blit_reads_dst [OF assms(4,1)])
  have e: "blit_out p ?m ?sd d = blit_out p ?m ?sd ?old"
    using d lop_dst_sound [OF assms(2), of ?sd 0 ?old] by (auto simp: need_dst_def blit_out_def)
  show ?thesis
  proof (cases "?m = 0xFFFF")
    case True
    then show ?thesis
      unfolding w e using bit_FFFF [OF assms(3)] blit_op_bit [OF assms(2,3), of ?sd ?old] by (simp add: blit_out_def)
  next
    case False
    then show ?thesis
      unfolding w e using assms(3) blit_op_bit [OF assms(2,3), of ?sd ?old]
      by (simp add: blit_out_def bit_or_iff bit_and_iff bit_not_iff)
  qed
qed


section \<open>The whole blit\<close>

text \<open>A rectangle in 24-bit memory with even increments, as the sanitized registers give it.\<close>

definition walk_ok :: "blit_params \<Rightarrow> bool" where
  "walk_ok p \<longleftrightarrow> dmask p = 0x00FFFFFE \<and> even (dxi p) \<and> even (dyi p) \<and> xc p \<noteq> 0"

lemma even_scast: "even (scast w :: u32) = even w" for w :: u16
proof -
  have "bit (scast w :: u32) 0 = bit w 0" by (simp only: bit_signed_iff) simp
  then show ?thesis by (simp add: bit_0)
qed

lemma blit_setup_walk_ok:
  assumes "sane b" "\<not> blit_is_tt s (blit_rd32 b 0x32)" "blit_setup s b = (p, v)"
  shows "walk_ok p" "dst v = dst_addr p (blit_rd32 b 0x32) 0 0" "bl_x v = xc p" "yc v = ucast (blit_rd16 b 0x38)"
    "bl_line v < 16"
proof -
  have "(if c = 0 then 65536 else c :: u32) \<noteq> 0" for c by simp
  moreover have "unat (R b 0x3C AND mask 4) < 16" by (simp only: unat_and_mask) simp
  ultimately show "walk_ok p" "dst v = dst_addr p (blit_rd32 b 0x32) 0 0" "bl_x v = xc p" "yc v = ucast (blit_rd16 b 0x38)"
    "bl_line v < 16"
    using assms sane_even [OF assms(1)]
    by (auto simp: blit_setup_def Let_def walk_ok_def dst_addr_def walk_addr_def blit_addr_mask_def even_scast
        mask_eq_exp_minus_1)
qed

lemma dst_step:
  assumes "walk_ok p" "unat (bl_x v) = unat (xc p) - x" "x < unat (xc p)" "dst v = dst_addr p d y x"
    "blit_word env b p (v, s) = Some (v', t)"
  shows "dst v' = (if x + 1 = unat (xc p) then dst_addr p d (y + 1) 0 else dst_addr p d y (x + 1))"
proof -
  have "bl_x v = 1 \<longleftrightarrow> x + 1 = unat (xc p)" using assms(2,3) by (auto simp: word_unat_eq_iff)
  then show ?thesis
    using blit_word_counters(3) [OF assms(5)] assms(1,4) walk_addr_step [where m = "dmask p" and xi = "dxi p" and yi = "dyi p" and c = "xc p" and a = d and y = y and x = x]
    by (auto simp: walk_ok_def dst_addr_def)
qed

text \<open>Every blit into 24-bit memory returns, and leaves the bytes outside its rectangle alone.\<close>

definition outside :: "u32 set \<Rightarrow> u32 \<Rightarrow> bool" where
  "outside A a \<longleftrightarrow> a \<notin> A \<and> a - 1 \<notin> A"

lemma blit_loop_rect:
  assumes p: "walk_ok p" and s: "flat s" and d: "dst v = dst_addr p d 0 0" "bl_x v = xc p" "unat (yc v) = n"
    "bl_line v = l mod 16"
  shows "\<exists>v' t. blit_loop env b p (v, s) = Some (v', t) \<and> flat t \<and> dst v' = dst_addr p d n 0 \<and>
    bl_line v' = (l + n * (if 0 \<le> sint (dyi p) then 1 else 15)) mod 16 \<and>
    (\<forall>a. outside (blit_rect p d n) a \<longrightarrow> nm_anon t a = nm_anon s a)"
proof -
  define I where "I y x v t \<longleftrightarrow> flat t \<and> dst v = dst_addr p d y x \<and>
    bl_line v = (l + y * (if 0 \<le> sint (dyi p) then 1 else 15)) mod 16 \<and>
    (\<forall>a. outside (blit_rect p d n) a \<longrightarrow> nm_anon t a = nm_anon s a)" for y x and v :: blit_vars and t :: "'a smc_state_scheme"
  have "\<exists>v' t. blit_loop env b p (v, s) = Some (v', t) \<and> I n 0 v' t"
  proof (rule blit_loop_rule [where y = 0 and x = 0])
    fix y x v and u :: "'a smc_state_scheme"
    assume yx: "y < n" "x < unat (xc p)" "unat (bl_x v) = unat (xc p) - x" and i: "I y x v u"
    have "blit24 (dst v)" using i p walk_addr_blit24 by (simp add: I_def dst_addr_def walk_ok_def)
    then obtain v' t where w: "blit_word env b p (v, u) = Some (v', t)" "flat t"
      "nm_anon t = (if dst v < g_stram_top u then put_word (dst v) (word_out b p u v) (nm_anon u) else nm_anon u)"
      using blit_word_st [of u v env b p] i unfolding I_def by blast
    have "dst v \<in> blit_rect p d n" using i yx by (auto simp: I_def blit_rect_def)
    then have "outside (blit_rect p d n) a \<Longrightarrow> nm_anon t a = nm_anon s a" for a
      using i w(3) by (auto simp: I_def outside_def put_word_def)
    moreover have "bl_x v = 1 \<longleftrightarrow> x + 1 = unat (xc p)" using yx by (auto simp: word_unat_eq_iff)
    ultimately show "\<exists>v' t. blit_word env b p (v, u) = Some (v', t) \<and>
        (if x + 1 = unat (xc p) then I (y + 1) 0 v' t else I y (x + 1) v' t)"
      using w(1,2) i dst_step [OF p yx(3,2) _ w(1), of d y] blit_word_counters(4) [OF w(1)]
      by (auto simp: I_def mod_simps algebra_simps)
  qed (use p s d in \<open>auto simp: I_def walk_ok_def unat_gt_0\<close>)
  then show ?thesis by (simp add: I_def)
qed


section \<open>Plain copies\<close>

text \<open>Source replaces destination: operation 3 on the unshifted source, every bit enabled, no
  extra or suppressed fetches, both ends in 24-bit memory, ascending.\<close>

definition copy_params :: "blit_params \<Rightarrow> bool" where
  "copy_params p \<longleftrightarrow>
     walk_ok p \<and> smask p = 0x00FFFFFE \<and> even (sxi p) \<and> even (syi p) \<and> 0 \<le> sint (sxi p) \<and>
     opn p = 3 \<and> hop p = 2 \<and> skew p = 0 \<and> \<not> smudge p \<and> \<not> fxsr p \<and> \<not> nfsr p \<and>
     em1 p = 0xFFFF \<and> em2 p = 0xFFFF \<and> em3 p = 0xFFFF"

lemma copy_word:
  assumes p: "copy_params p" and v: "\<not> st_fxsr v" "\<not> st_nfsr v" "blit24 (src v)"
  shows "word_out b p s v = ram_word s (src v)"
    "blit_word env b p (v, s) = Some (v', t) \<Longrightarrow> \<not> st_fxsr v' \<and> \<not> st_nfsr v' \<and>
       src v' = (src v + (if bl_x v = 1 then syi p else sxi p)) AND smask p"
proof -
  have n: "need_src p" using p by (simp add: copy_params_def need_src_def lop_src_def)
  have m: "blit_mask p v = 0xFFFF" using p by (simp add: copy_params_def blit_mask_def)
  have nd: "\<not> need_dst p 0xFFFF" using p by (simp add: copy_params_def need_dst_def lop_dst_def)
  have as: "\<not> desc p" using p by (simp add: copy_params_def desc_def)
  obtain f d v1 where r: "blit_reads p s v = (f, d, v1)" by (metis prod_cases3)
  have v1: "f" "v1 = fetch_word p s (if bl_x v = xc p then v\<lparr>st_nfsr := False, st_fxsr := False\<rparr> else v)"
    using r p v n nd by (auto simp: blit_reads_def m copy_params_def Let_def split: if_splits)
  have "blit_sdata b p v1 = ucast (push_bit 16 (buf v) OR ucast (pistorm_blit_read16 s (src v)) :: u32)"
    using p as by (simp add: v1 fetch_word_def fifo_push_def fifo_insert_def fifo_shift_def blit_sdata_def
        copy_params_def Let_def)
  also have "\<dots> = pistorm_blit_read16 s (src v)" by (rule bit_eqI) (auto simp: bit_simps)
  finally show "word_out b p s v = ram_word s (src v)"
    using p blit_read_st [OF v(3), of s] by (simp add: word_out_def r m blit_out_def copy_params_def blit_op_def)
  show "\<not> st_fxsr v' \<and> \<not> st_nfsr v' \<and> src v' = (src v + (if bl_x v = 1 then syi p else sxi p)) AND smask p"
    if "blit_word env b p (v, s) = Some (v', t)"
    using that p v v1(1)
    by (auto simp: blit_word_def r v1(2) fetch_word_def fifo_push_def blit_step_vars_def copy_params_def Let_def
        split: option.splits if_splits)
qed

lemma blit_loop_copy:
  assumes p: "copy_params p" and s: "flat s"
    and v: "dst v = dst_addr p d 0 0" "src v = src_addr p c 0 0" "bl_x v = xc p" "unat (yc v) = n"
      "\<not> st_fxsr v" "\<not> st_nfsr v"
    and ram: "\<And>y x. y < n \<Longrightarrow> x < unat (xc p) \<Longrightarrow> dst_addr p d y x < g_stram_top s"
    and inj: "\<And>y x y' x'. y < n \<Longrightarrow> x < unat (xc p) \<Longrightarrow> y' < n \<Longrightarrow> x' < unat (xc p) \<Longrightarrow>
      dst_addr p d y x = dst_addr p d y' x' \<Longrightarrow> y = y' \<and> x = x'"
    and disj: "\<And>y x y' x'. y < n \<Longrightarrow> x < unat (xc p) \<Longrightarrow> y' < n \<Longrightarrow> x' < unat (xc p) \<Longrightarrow>
      dst_addr p d y x \<noteq> src_addr p c y' x'"
  shows "\<exists>v' t. blit_loop env b p (v, s) = Some (v', t) \<and> flat t \<and>
    (\<forall>y<n. \<forall>x<unat (xc p). ram_word t (dst_addr p d y x) = ram_word s (src_addr p c y x))"
proof -
  define I where "I y x v t \<longleftrightarrow> flat t \<and> ram_cfg t = ram_cfg s \<and> dst v = dst_addr p d y x \<and> src v = src_addr p c y x \<and>
    \<not> st_fxsr v \<and> \<not> st_nfsr v \<and>
    (\<forall>y'<n. \<forall>x'<unat (xc p). ram_word t (src_addr p c y' x') = ram_word s (src_addr p c y' x')) \<and>
    (\<forall>y'<n. \<forall>x'<unat (xc p). y' < y \<or> y' = y \<and> x' < x \<longrightarrow>
      ram_word t (dst_addr p d y' x') = ram_word s (src_addr p c y' x'))"
    for y x and v :: blit_vars and t :: "'a smc_state_scheme"
  have ok: "walk_ok p" using p by (simp add: copy_params_def)
  have d24: "blit24 (dst_addr p d y x)" "blit24 (src_addr p c y x)" for y x
    using p by (simp_all add: dst_addr_def src_addr_def walk_addr_blit24 copy_params_def walk_ok_def)
  have ev: "even (dst_addr p d y x)" "even (src_addr p c y x)" for y x
    using d24 by (auto intro: blit24_even)
  have "\<exists>v' t. blit_loop env b p (v, s) = Some (v', t) \<and> I n 0 v' t"
  proof (rule blit_loop_rule [where y = 0 and x = 0])
    fix y x v and u :: "'a smc_state_scheme"
    assume yx: "y < n" "x < unat (xc p)" "unat (bl_x v) = unat (xc p) - x" and i: "I y x v u"
    have u: "flat u" "dst v = dst_addr p d y x" "src v = src_addr p c y x" "g_stram_top u = g_stram_top s"
      "\<not> st_fxsr v" "\<not> st_nfsr v"
      using i by (simp_all add: I_def ram_cfg_def)
    have src24: "blit24 (src v)" and dst24: "blit24 (dst v)" using d24 u by simp_all
    obtain v' t where w: "blit_word env b p (v, u) = Some (v', t)" "flat t" "ram_cfg t = ram_cfg u"
      "nm_anon t = put_word (dst v) (word_out b p u v) (nm_anon u)"
      using blit_word_st [OF u(1) dst24, of env b p] ram [OF yx(1,2)] u(2,4) by metis
    have out: "word_out b p u v = ram_word s (src_addr p c y x)"
      using copy_word(1) [OF p u(5,6) src24, of b u] i yx u(3) by (simp add: I_def)
    note put = ram_word_put [OF u(1) w(2,4), unfolded out u(2)]
    have one: "bl_x v = 1 \<longleftrightarrow> x + 1 = unat (xc p)" using yx by (auto simp: word_unat_eq_iff)
    have sv: "src v' = (if x + 1 = unat (xc p) then src_addr p c (y + 1) 0 else src_addr p c y (x + 1))"
      using copy_word(2) [OF p u(5,6) src24 w(1)] one u(3) p ok
        walk_addr_step [where m = "smask p" and xi = "sxi p" and yi = "syi p" and c = "xc p" and a = c and y = y and x = x]
      by (auto simp: copy_params_def walk_ok_def src_addr_def)
    have src_same: "ram_word t (src_addr p c y' x') = ram_word s (src_addr p c y' x')" if "y' < n" "x' < unat (xc p)" for y' x'
      using put(2) [OF ev(1) ev(2) disj [OF yx(1,2) that]] i that by (simp add: I_def)
    have written: "ram_word t (dst_addr p d y' x') = ram_word s (src_addr p c y' x')"
      if "y' < n" "x' < unat (xc p)" "y' < y \<or> y' = y \<and> x' \<le> x" for y' x'
    proof (cases "y' = y \<and> x' = x")
      case True
      then show ?thesis using put(1) by simp
    next
      case False
      then have "dst_addr p d y x \<noteq> dst_addr p d y' x'" using inj [OF yx(1,2) that(1,2)] by auto
      then show ?thesis using put(2) [OF ev(1) ev(1)] i that False by (auto simp: I_def)
    qed
    have line: "ram_word t (dst_addr p d y' x') = ram_word s (src_addr p c y' x')"
      if "x + 1 = unat (xc p)" "y' < n" "x' < unat (xc p)" "y' < y + 1" for y' x'
      using that by (intro written) auto
    have "ram_cfg t = ram_cfg s" using w(3) i by (simp add: I_def)
    moreover have "dst v' = (if x + 1 = unat (xc p) then dst_addr p d (y + 1) 0 else dst_addr p d y (x + 1))"
      by (rule dst_step [OF ok yx(3,2) u(2) w(1)])
    ultimately have "if x + 1 = unat (xc p) then I (y + 1) 0 v' t else I y (x + 1) v' t"
      using w(2) sv src_same written line copy_word(2) [OF p u(5,6) src24 w(1)] by (auto simp: I_def)
    then show "\<exists>v' t. blit_word env b p (v, u) = Some (v', t) \<and>
        (if x + 1 = unat (xc p) then I (y + 1) 0 v' t else I y (x + 1) v' t)"
      using w(1) by blast
  qed (use ok s v in \<open>auto simp: I_def walk_ok_def unat_gt_0\<close>)
  then show ?thesis by (auto simp: I_def)
qed


lemma unat_ucast_16: "unat (ucast w :: u32) = unat w" for w :: u16
  using unat_less_exp [of w] by (simp add: unsigned_ucast_eq take_bit_nat_eq_self_iff)

lemma rd32_finish: "blit_rd32 (blit_finish now p v b) 0x32 = dst v AND dmask p"
proof -
  have "blit_rd32 (blit_finish now p v b) 0x32 = blit_rd32 (blit_wr32 0x32 (dst v AND dmask p) (blit_wr32 0x24 (src v AND smask p) b)) 0x32"
    by (simp add: blit_rd32_def blit_rd16_def R_blit_finish blit_wr16_def)
  then show ?thesis by (simp only: rd32_wr32)
qed

lemma rd16_finish: "blit_rd16 (blit_finish now p v b) 0x38 = 0"
  by (simp add: blit_rd16_def R_blit_finish blit_wr16_def)

section \<open>The properties\<close>

text \<open>The rectangle the registers describe.\<close>

definition blit_geom :: "'a smc_state_scheme \<Rightarrow> blitter \<Rightarrow> blit_params" where
  "blit_geom s b = fst (blit_setup s b)"

definition copy_ready :: "'a smc_state_scheme \<Rightarrow> blitter \<Rightarrow> bool" where
  "copy_ready s b \<longleftrightarrow>
     (let p = blit_geom s b; d = blit_rd32 b 0x32; c = blit_rd32 b 0x24; n = unat (blit_rd16 b 0x38); m = unat (xc p)
      in copy_params p \<and> n \<noteq> 0 \<and>
         (\<forall>y<n. \<forall>x<m. dst_addr p d y x < g_stram_top s \<and>
           (\<forall>y'<n. \<forall>x'<m. (dst_addr p d y x = dst_addr p d y' x' \<longrightarrow> y = y' \<and> x = x') \<and>
             dst_addr p d y x \<noteq> src_addr p c y' x')))"

text \<open>A blit of two lines of two words from \<open>$1000\<close> to \<open>$2000\<close>, lines 160 bytes apart.\<close>

definition demo_blitter :: blitter where
  "demo_blitter = \<lparr>R = (\<lambda>_. 0)(0x21 := 2, 0x23 := 0x9E, 0x26 := 0x10, 0x28 := 0xFF, 0x29 := 0xFF, 0x2A := 0xFF,
     0x2B := 0xFF, 0x2C := 0xFF, 0x2D := 0xFF, 0x2F := 2, 0x31 := 0x9E, 0x34 := 0x20, 0x37 := 2, 0x39 := 2,
     0x3A := 2, 0x3B := 3, 0x3C := 0x80),
     g_fifo = 0, g_bus_word = 0, g_busy_until = 0, g_accesses = 0, g_tt_blits = 0, pst_blit_timed_ns = 0,
     pst_dbg_blit_trace = 0\<rparr>"

lemma demo_blitter_regs:
  "blit_rd32 demo_blitter 0x24 = 0x1000" "blit_rd32 demo_blitter 0x32 = 0x2000" "blit_rd16 demo_blitter 0x38 = 2"
  "blit_rd16 demo_blitter 0x36 = 2" "blit_rd16 demo_blitter 0x20 = 2" "blit_rd16 demo_blitter 0x22 = 0x9E"
  "blit_rd16 demo_blitter 0x2E = 2" "blit_rd16 demo_blitter 0x30 = 0x9E" "blit_rd16 demo_blitter 0x28 = 0xFFFF"
  "blit_rd16 demo_blitter 0x2A = 0xFFFF" "blit_rd16 demo_blitter 0x2C = 0xFFFF"
  by (simp_all add: blit_rd32_def blit_rd16_def demo_blitter_def)

lemma boot_flat: "flat (boot_state boot_config)" "\<not> blit_is_tt (boot_state boot_config) a"
  by (simp_all add: flat_def boot_state_def blit_is_tt_def)

lemma demo_sane: "sane demo_blitter"
  by (simp add: sane_def reg_masks_def demo_blitter_def)

text \<open>C15: A blit whose destination is not in TT-RAM returns for every setting of the registers.
  It changes no byte of guest RAM outside the rectangle they describe (\<open>x\<close> words per line, X
  increment within and Y increment between lines, addresses modulo 16 MB), and leaves the
  destination address past the last line, the Y count zero, BUSY clear and the halftone line
  moved by one per line.\<close>

theorem blit_stays_in_rectangle:
  assumes "flat s" "sane b" "\<not> blit_is_tt s (blit_rd32 b 0x32)" "blit_rd16 b 0x38 \<noteq> 0"
  shows "\<exists>b' t. blit_run env now (b, s) = Some (b', t) \<and>
    (\<forall>a. outside (blit_rect (blit_geom s b) (blit_rd32 b 0x32) (unat (blit_rd16 b 0x38))) a \<longrightarrow> natmem_byte t a = natmem_byte s a) \<and>
    blit_rd32 b' 0x32 = dst_addr (blit_geom s b) (blit_rd32 b 0x32) (unat (blit_rd16 b 0x38)) 0 \<and>
    blit_rd16 b' 0x38 = 0 \<and>
    R b' 0x3C = (R b 0x3C AND 0x60) OR
      of_nat ((unat (R b 0x3C AND 0xF) + unat (blit_rd16 b 0x38) * (if 0 \<le> sint (dyi (blit_geom s b)) then 1 else 15)) mod 16)"
proof -
  obtain p v where pv: "blit_setup s b = (p, v)" by fastforce
  let ?b = "blit_trace_note (blit_tt_note p b)" and ?n = "unat (blit_rd16 b 0x38)"
  note u = blit_setup_walk_ok [OF assms(2,3) pv]
  have yc: "unat (yc v) = ?n" "yc v \<noteq> 0" using u(4) assms(4) by (simp_all add: unat_ucast_16 word_unat_eq_iff)
  have l: "bl_line v = unat (R b 0x3C AND 0xF) mod 16" using pv u(5) by (auto simp: blit_setup_def Let_def)
  obtain v' t where w: "blit_loop env ?b p (v, s) = Some (v', t)" "flat t" "dst v' = dst_addr p (blit_rd32 b 0x32) ?n 0"
    "bl_line v' = (unat (R b 0x3C AND 0xF) + ?n * (if 0 \<le> sint (dyi p) then 1 else 15)) mod 16"
    "\<forall>a. outside (blit_rect p (blit_rd32 b 0x32) ?n) a \<longrightarrow> nm_anon t a = nm_anon s a"
    using blit_loop_rect [OF u(1) assms(1) u(2,3) yc(1) l, of env ?b] by blast
  let ?f = "blit_finish now p v' ?b"
  have run: "blit_run env now (b, s) = Some (?f, t)" using w(1) yc(2) by (simp add: blit_run_def pv Let_def)
  have "dst v' AND dmask p = dst v'" using w(3) by (simp add: dst_addr_def walk_addr_def and.assoc)
  then have "blit_rd32 ?f 0x32 = dst v'" by (simp add: rd32_finish)
  then show ?thesis
    using run w natmem_byte_flat [OF w(2)] natmem_byte_flat [OF assms(1)]
    by (intro exI [of _ ?f] exI [of _ t]) (simp add: blit_geom_def pv R_blit_finish rd16_finish)
qed


theorem blit_stays_in_rectangle_witness:
  "\<forall>env now. \<exists>b' t. blit_run env now (demo_blitter, boot_state boot_config) = Some (b', t) \<and>
    (\<forall>a. outside (blit_rect (blit_geom (boot_state boot_config) demo_blitter) 0x2000 2) a \<longrightarrow>
       natmem_byte t a = natmem_byte (boot_state boot_config) a) \<and>
    blit_rd16 b' 0x38 = 0"
proof (intro allI)
  fix env now
  have "unat (2 :: u16) = 2" by simp
  then show "\<exists>b' t. blit_run env now (demo_blitter, boot_state boot_config) = Some (b', t) \<and>
    (\<forall>a. outside (blit_rect (blit_geom (boot_state boot_config) demo_blitter) 0x2000 2) a \<longrightarrow>
       natmem_byte t a = natmem_byte (boot_state boot_config) a) \<and>
    blit_rd16 b' 0x38 = 0"
    using blit_stays_in_rectangle [OF boot_flat(1) demo_sane boot_flat(2), of env now]
    unfolding demo_blitter_regs by auto
qed

text \<open>A copy blit (source replaces destination, every bit enabled, no shift) whose rectangles
  lie in ST-RAM and do not meet leaves in every word of the destination rectangle the word the
  source rectangle held there before.\<close>

lemma blit_run_copies:
  assumes "flat s" "copy_ready s b"
  shows "\<exists>b' t. blit_run env now (b, s) = Some (b', t) \<and>
    (\<forall>y < unat (blit_rd16 b 0x38). \<forall>x < unat (xc (blit_geom s b)).
       ram_word t (dst_addr (blit_geom s b) (blit_rd32 b 0x32) y x) = ram_word s (src_addr (blit_geom s b) (blit_rd32 b 0x24) y x))"
proof -
  obtain p v where pv: "blit_setup s b = (p, v)" by fastforce
  have g: "blit_geom s b = p" by (simp add: blit_geom_def pv)
  let ?b = "blit_trace_note (blit_tt_note p b)" and ?n = "unat (blit_rd16 b 0x38)"
  have v: "dst v = dst_addr p (blit_rd32 b 0x32) 0 0" "src v = src_addr p (blit_rd32 b 0x24) 0 0" "bl_x v = xc p"
    "yc v = ucast (blit_rd16 b 0x38)" "\<not> st_fxsr v" "\<not> st_nfsr v"
    using pv by (auto simp: blit_setup_def Let_def dst_addr_def src_addr_def walk_addr_def)
  have yc: "unat (yc v) = ?n" "yc v \<noteq> 0"
    using v(4) assms(2) by (auto simp: unat_ucast_16 word_unat_eq_iff copy_ready_def Let_def)
  have "\<exists>v' t. blit_loop env ?b p (v, s) = Some (v', t) \<and> flat t \<and>
    (\<forall>y<?n. \<forall>x<unat (xc p). ram_word t (dst_addr p (blit_rd32 b 0x32) y x) = ram_word s (src_addr p (blit_rd32 b 0x24) y x))"
    using assms(2) by (intro blit_loop_copy [OF _ assms(1) v(1-3) yc(1) v(5,6)]) (auto simp: copy_ready_def g Let_def)
  then obtain v' t where "blit_loop env ?b p (v, s) = Some (v', t)"
    "\<forall>y<?n. \<forall>x<unat (xc p). ram_word t (dst_addr p (blit_rd32 b 0x32) y x) = ram_word s (src_addr p (blit_rd32 b 0x24) y x)"
    by blast
  then show ?thesis using yc(2) unfolding g by (auto simp: blit_run_def pv Let_def)
qed

lemma demo_geom:
  "blit_geom (boot_state boot_config) demo_blitter =
     \<lparr>smask = 0x00FFFFFE, dmask = 0x00FFFFFE, sxi = 2, syi = 0x9E, dxi = 2, dyi = 0x9E, em1 = 0xFFFF, em2 = 0xFFFF,
      em3 = 0xFFFF, xc = 2, hop = 2, opn = 3, smudge = False, fxsr = False, nfsr = False, skew = 0\<rparr>"
  by (simp add: blit_geom_def blit_setup_def Let_def blit_addr_mask_def boot_flat demo_blitter_regs)
    (simp add: demo_blitter_def)


lemma demo_addr:
  assumes "y < 2" "x < 2"
  shows "dst_addr (blit_geom (boot_state boot_config) demo_blitter) 0x2000 y x =
      (if y = 0 then if x = 0 then 0x2000 else 0x2002 else if x = 0 then 0x20A0 else 0x20A2)"
    "src_addr (blit_geom (boot_state boot_config) demo_blitter) 0x1000 y x =
      (if y = 0 then if x = 0 then 0x1000 else 0x1002 else if x = 0 then 0x10A0 else 0x10A2)"
proof -
  have "y = 0 \<or> y = 1" "x = 0 \<or> x = 1" using assms by auto
  then show "dst_addr (blit_geom (boot_state boot_config) demo_blitter) 0x2000 y x =
      (if y = 0 then if x = 0 then 0x2000 else 0x2002 else if x = 0 then 0x20A0 else 0x20A2)"
    "src_addr (blit_geom (boot_state boot_config) demo_blitter) 0x1000 y x =
      (if y = 0 then if x = 0 then 0x1000 else 0x1002 else if x = 0 then 0x10A0 else 0x10A2)"
    by (auto simp: dst_addr_def src_addr_def walk_addr_def demo_geom)
qed

lemma boot_top: "g_stram_top (boot_state boot_config) = 0x400000"
  by (simp add: boot_state_def)

lemma demo_copy_ready: "copy_ready (boot_state boot_config) demo_blitter"
proof -
  have n: "unat (2 :: u16) = 2" "unat (2 :: u32) = 2" by simp_all
  have "copy_params (blit_geom (boot_state boot_config) demo_blitter)"
    by (simp add: copy_params_def walk_ok_def demo_geom)
  moreover have "xc (blit_geom (boot_state boot_config) demo_blitter) = 2" by (simp add: demo_geom)
  ultimately show ?thesis
    unfolding copy_ready_def demo_blitter_regs Let_def
    by (simp only: n) (auto simp: demo_addr boot_top split: if_splits)
qed

text \<open>C35: One turn of the blit loop on ST-RAM, bit by bit. Where the end mask has a zero the
  destination keeps its bit; elsewhere the new bit is the entry of the operation number, read as
  a truth table, for the source operand's bit and the old destination bit. The reads the engine
  leaves out for some operations make no difference.\<close>

theorem blit_word_raster_op:
  assumes "flat s" "blit24 (dst v)" "dst v < g_stram_top s" "opn p < 16" "i < 16"
  shows "\<exists>v' t. blit_word env b p (v, s) = Some (v', t) \<and>
    bit (ram_word t (dst v)) i =
      (if bit (blit_mask p v) i
       then bit (opn p) ((if bit (blit_sdata b p (snd (snd (blit_reads p s v)))) i then 0 else 2) +
                         (if bit (ram_word s (dst v)) i then 0 else 1))
       else bit (ram_word s (dst v)) i)"
proof -
  obtain f d v1 where r: "blit_reads p s v = (f, d, v1)" by (metis prod_cases3)
  obtain v' t where w: "blit_word env b p (v, s) = Some (v', t)" "flat t"
    "nm_anon t = put_word (dst v) (word_out b p s v) (nm_anon s)"
    using blit_word_st [OF assms(1,2), of env b p] assms(3) by metis
  show ?thesis
    using w(1) ram_word_put(1) [OF assms(1) w(2,3)] word_out_bits [OF assms(2,4,5) r, of b] by (auto simp: r)
qed

theorem blit_word_raster_op_witness:
  "\<forall>env. \<exists>v' t. blit_word env demo_blitter (blit_geom (boot_state boot_config) demo_blitter)
     (snd (blit_setup (boot_state boot_config) demo_blitter), boot_state boot_config) = Some (v', t)"
proof
  fix env
  let ?v = "snd (blit_setup (boot_state boot_config) demo_blitter)"
  have d: "dst ?v = 0x2000"
    by (simp add: blit_setup_def Let_def blit_addr_mask_def boot_flat demo_blitter_regs)
  have "blit24 (dst ?v)" "dst ?v < g_stram_top (boot_state boot_config)"
    "opn (blit_geom (boot_state boot_config) demo_blitter) < 16" "(0::nat) < 16"
    unfolding d by (simp_all add: blit24_def boot_top demo_geom)
  from blit_word_raster_op [OF boot_flat(1) this, of env demo_blitter]
  show "\<exists>v' t. blit_word env demo_blitter (blit_geom (boot_state boot_config) demo_blitter) (?v, boot_state boot_config) = Some (v', t)"
    by blast
qed


section \<open>The registers the guest sees\<close>

lemma reg_read_control:
  assumes "blitter_wf b" "g_busy_until b \<le> now"
  shows "\<not> bit (st_blitter_reg_read s now 0x00FF8A3C 1 b) 7"
proof -
  have "st_blitter_reg_read s now 0x00FF8A3C 1 b = ucast (R b 0x3C)"
    using assms(2) by (auto simp: st_blitter_reg_read_def blit_read_byte_def Let_def)
  then show ?thesis using assms(1) by (simp add: blitter_wf_def bit_ucast_iff)
qed

text \<open>C38: Whatever the guest writes to the blitter after a reset, in bytes, words or longs, the
  bits the chip does not implement stay clear and no blit is left pending; once the timed BUSY
  window is over, a program polling the control byte reads BUSY as clear.\<close>

theorem blitter_registers_wf:
  assumes "reach blit_power_up blit_machine (b, s)"
  shows "blitter_wf b \<and> (g_busy_until b \<le> now \<longrightarrow> \<not> bit (st_blitter_reg_read s now 0x00FF8A3C 1 b) 7)"
  using blit.reach_inv [OF assms] reg_read_control by auto

theorem blitter_registers_wf_witness:
  "\<exists>b (s :: smc_state). blitter_wf b \<and> blit_rd16 b 0x2E = 6 \<and> \<not> bit (st_blitter_reg_read s 5 0x00FF8A3C 1 b) 7"
proof -
  let ?b = "st_blitter_reset demo_blitter" and ?s = "boot_state boot_config"
  let ?c = "blit_sanitize (blit_put_bytes 0x2E 7 2 ?b)"
  have s: "blit_power_up (?b, ?s)" by (simp add: blit_power_up_def st_blitter_reset_def)
  have "st_blitter_reg_write env 0 0x00FF8A2E 7 2 (?b, ?s) = Some (?c, ?s)" for env
    by (simp add: st_blitter_reg_write_def Let_def)
  then have "blit_machine (?b, ?s) (?c, ?s)" by (intro blit_machine.reg_write) auto
  moreover have "reach blit_power_up blit_machine (?b, ?s)" using s by (rule reach.start)
  ultimately have r: "reach blit_power_up blit_machine (?c, ?s)" by (blast intro: reach.step)
  have "R ?c 0x2E = 0" "R ?c 0x2F = 6" "g_busy_until ?c = 0"
    by (simp_all add: blit_sanitize_def and_reg_def blit_put_bytes_def st_blitter_reset_def upt_rec)
  then have "blit_rd16 ?c 0x2E = 6" "g_busy_until ?c \<le> 5" by (simp_all add: blit_rd16_def)
  then show ?thesis using blitter_registers_wf [OF r, of 5] by blast
qed

end
