(* ===== verification/Bus_Banks.thy ===== *)
theory Bus_Banks
  imports Blitter_Walk
begin

text \<open>
  Accesses that go to the real bus (\<open>pistorm_natmem.cpp\<close>): the catch-all bank for undecoded
  space, the reads of MFP registers that are repeated after a bus error, and the plain hardware
  accesses. A bus error that reaches the guest is \<open>hardware_exception2\<close>, which does not return:
  the left part of a sum.
\<close>

section \<open>State and results\<close>

text \<open>\<open>Exception2 a v read n\<close>: vector 2 for an access of \<open>n\<close> bytes.\<close>

datatype bus_exc = Exception2 u32 u32 bool nat

type_synonym ('v, 's) access = "(bus_exc + 'v) \<times> 's"

record hw_state = smc_state +
  pistorm_dm_berr_addr :: u32
  pistorm_dm_berr_count :: u32
  mfp_gpip_berr_retries :: u32
  pistorm_blitter_real_bus :: bool
  pistorm_blitter_mode :: int
  blitter_shadow :: "nat \<Rightarrow> u8"
  chip :: blitter

definition pistorm_buserr :: "u32 \<Rightarrow> u32 \<Rightarrow> bool \<Rightarrow> nat \<Rightarrow> 'v \<Rightarrow> 'a bus_state_scheme \<Rightarrow> ('v, 'a bus_state_scheme) access"
where
  "pistorm_buserr a v rd n r s = (if g_buserr s then Inl (Exception2 a v rd n) else Inr r, s)"

section \<open>Repeated reads\<close>

definition mfp_berr_note :: "'a hw_state_scheme \<Rightarrow> 'a hw_state_scheme" where
  "mfp_berr_note s = s\<lparr>mfp_gpip_berr_retries := mfp_gpip_berr_retries s + 1\<rparr>"

text \<open>\<open>for (i = 0; g_buserr && i < n; i++)\<close> around a read.\<close>

fun berr_retry :: "('a hw_state_scheme \<Rightarrow> 'v \<times> 'a hw_state_scheme) \<Rightarrow> nat \<Rightarrow> 'v \<times> 'a hw_state_scheme \<Rightarrow> 'v \<times> 'a hw_state_scheme"
where
  "berr_retry rd 0 vs = vs"
| "berr_retry rd (Suc n) vs =
     (if g_buserr (snd vs) then berr_retry rd n (rd ((mfp_berr_note (snd vs))\<lparr>g_buserr := False\<rparr>)) else vs)"

definition mfp_gpip_read :: "bus_env \<Rightarrow> u32 \<Rightarrow> 'a hw_state_scheme \<Rightarrow> u8 \<times> 'a hw_state_scheme" where
  "mfp_gpip_read env a s = berr_retry (ps_read_8 env a) 3 (ps_read_8 env a s)"

definition mfp_read_repeatable :: "u32 \<Rightarrow> bool" where
  "mfp_read_repeatable a \<longleftrightarrow> (a OR 1) \<noteq> 0x00FFFA2F"

definition mfp_read8_retry :: "bus_env \<Rightarrow> u32 \<Rightarrow> 'a hw_state_scheme \<Rightarrow> u8 \<times> 'a hw_state_scheme" where
  "mfp_read8_retry env a s =
     berr_retry (ps_read_8 env a) (if mfp_read_repeatable a then 3 else 0) (ps_read_8 env a s)"

definition mfp_read16_retry :: "bus_env \<Rightarrow> u32 \<Rightarrow> 'a hw_state_scheme \<Rightarrow> u16 \<times> 'a hw_state_scheme" where
  "mfp_read16_retry env a s =
     berr_retry (ps_read_16 env a) (if mfp_read_repeatable a then 3 else 0) (ps_read_16 env a s)"

section \<open>Longs as two word cycles\<close>

definition ps_bus_lget :: "bus_env \<Rightarrow> u32 \<Rightarrow> 'a bus_state_scheme \<Rightarrow> u32 \<times> 'a bus_state_scheme" where
  "ps_bus_lget env a s =
     (let (hi, s1) = ps_read_16 env a s; (lo, s2) = ps_read_16 env (a + 2) s1
      in (push_bit 16 (ucast hi) OR ucast lo, s2))"

definition ps_bus_lput :: "bus_env \<Rightarrow> u32 \<Rightarrow> u32 \<Rightarrow> 'a bus_state_scheme \<Rightarrow> 'a bus_state_scheme" where
  "ps_bus_lput env a v s = ps_write_16 env (a + 2) (ucast v) (ps_write_16 env a (ucast (drop_bit 16 v)) s)"

section \<open>The catch-all bank\<close>

text \<open>The address on the bus, or \<open>None\<close> for undecoded high space, which is silent.\<close>

definition dm_bus_addr :: "u32 \<Rightarrow> 'a hw_state_scheme \<Rightarrow> u32 option \<times> 'a hw_state_scheme" where
  "dm_bus_addr a s =
     (let a1 = (if pistorm_addr24 s then a AND 0x00FFFFFF
                else if a AND 0xFF000000 = 0xFF000000 then a AND 0x00FFFFFF else a)
      in if a1 AND 0xFF000000 = 0 then (Some a1, s)
         else (None, s\<lparr>pistorm_dm_berr_addr := a1, pistorm_dm_berr_count := pistorm_dm_berr_count s + 1\<rparr>))"

definition dm_lget :: "bus_env \<Rightarrow> u32 \<Rightarrow> 'a hw_state_scheme \<Rightarrow> (u32, 'a hw_state_scheme) access" where
  "dm_lget env a s =
     (case dm_bus_addr a (fc_data (s\<lparr>g_buserr := False\<rparr>)) of
        (None, t) \<Rightarrow> (Inr 0, t)
      | (Some b, t) \<Rightarrow> (let (v, u) = ps_bus_lget env b t in pistorm_buserr b 0 True 4 v u))"

definition dm_wget :: "bus_env \<Rightarrow> u32 \<Rightarrow> 'a hw_state_scheme \<Rightarrow> (u32, 'a hw_state_scheme) access" where
  "dm_wget env a s =
     (case dm_bus_addr a (fc_data (s\<lparr>g_buserr := False\<rparr>)) of
        (None, t) \<Rightarrow> (Inr 0, t)
      | (Some b, t) \<Rightarrow> (let (v, u) = ps_read_16 env b t in pistorm_buserr b 0 True 2 (ucast v) u))"

definition dm_bget :: "bus_env \<Rightarrow> u32 \<Rightarrow> 'a hw_state_scheme \<Rightarrow> (u32, 'a hw_state_scheme) access" where
  "dm_bget env a s =
     (case dm_bus_addr a (fc_data (s\<lparr>g_buserr := False\<rparr>)) of
        (None, t) \<Rightarrow> (Inr 0, t)
      | (Some b, t) \<Rightarrow> (let (v, u) = ps_read_8 env b t in pistorm_buserr b 0 True 1 (ucast v) u))"

definition dm_lput :: "bus_env \<Rightarrow> u32 \<Rightarrow> u32 \<Rightarrow> 'a hw_state_scheme \<Rightarrow> (unit, 'a hw_state_scheme) access" where
  "dm_lput env a v s =
     (case dm_bus_addr a (fc_data (s\<lparr>g_buserr := False\<rparr>)) of
        (None, t) \<Rightarrow> (Inr (), t)
      | (Some b, t) \<Rightarrow> pistorm_buserr b v False 4 () (ps_bus_lput env b v t))"

definition dm_wput :: "bus_env \<Rightarrow> u32 \<Rightarrow> u32 \<Rightarrow> 'a hw_state_scheme \<Rightarrow> (unit, 'a hw_state_scheme) access" where
  "dm_wput env a v s =
     (case dm_bus_addr a (fc_data (s\<lparr>g_buserr := False\<rparr>)) of
        (None, t) \<Rightarrow> (Inr (), t)
      | (Some b, t) \<Rightarrow> pistorm_buserr b v False 2 () (ps_write_16 env b (ucast v) t))"

definition dm_bput :: "bus_env \<Rightarrow> u32 \<Rightarrow> u32 \<Rightarrow> 'a hw_state_scheme \<Rightarrow> (unit, 'a hw_state_scheme) access" where
  "dm_bput env a v s =
     (case dm_bus_addr a (fc_data (s\<lparr>g_buserr := False\<rparr>)) of
        (None, t) \<Rightarrow> (Inr (), t)
      | (Some b, t) \<Rightarrow> pistorm_buserr b v False 1 () (ps_write_8 env b (ucast v) t))"

section \<open>Plain hardware accesses\<close>

definition hw_fold_addr :: "u32 \<Rightarrow> u32" where
  "hw_fold_addr a = a AND 0x00FFFFFF"

definition hw_bus_lget :: "bus_env \<Rightarrow> u32 \<Rightarrow> 'a bus_state_scheme \<Rightarrow> (u32, 'a bus_state_scheme) access" where
  "hw_bus_lget env a s = (let (v, t) = ps_bus_lget env a s in pistorm_buserr a 0 True 4 v t)"

definition hw_bus_wget :: "bus_env \<Rightarrow> u32 \<Rightarrow> 'a bus_state_scheme \<Rightarrow> (u32, 'a bus_state_scheme) access" where
  "hw_bus_wget env a s = (let (v, t) = ps_read_16 env a s in pistorm_buserr a 0 True 2 (ucast v) t)"

definition hw_bus_bget :: "bus_env \<Rightarrow> u32 \<Rightarrow> 'a bus_state_scheme \<Rightarrow> (u32, 'a bus_state_scheme) access" where
  "hw_bus_bget env a s = (let (v, t) = ps_read_8 env a s in pistorm_buserr a 0 True 1 (ucast v) t)"

definition hw_bus_lput :: "bus_env \<Rightarrow> u32 \<Rightarrow> u32 \<Rightarrow> 'a bus_state_scheme \<Rightarrow> (unit, 'a bus_state_scheme) access" where
  "hw_bus_lput env a v s = pistorm_buserr a v False 4 () (ps_bus_lput env a v s)"

definition hw_bus_wput :: "bus_env \<Rightarrow> u32 \<Rightarrow> u32 \<Rightarrow> 'a bus_state_scheme \<Rightarrow> (unit, 'a bus_state_scheme) access" where
  "hw_bus_wput env a v s = pistorm_buserr a v False 2 () (ps_write_16 env a (ucast v) s)"

definition hw_bus_bput :: "bus_env \<Rightarrow> u32 \<Rightarrow> u32 \<Rightarrow> 'a bus_state_scheme \<Rightarrow> (unit, 'a bus_state_scheme) access" where
  "hw_bus_bput env a v s = pistorm_buserr a v False 1 () (ps_write_8 env a (ucast v) s)"

section \<open>Repeated reads, in terms of bus cycles\<close>

text \<open>The history after attempt \<open>k\<close>, counting from 0.\<close>

definition attempt :: "bus_cycle \<Rightarrow> nat \<Rightarrow> bus_cycle list \<Rightarrow> bus_cycle list" where
  "attempt c k h = replicate (Suc k) c @ h"

text \<open>A word read of a register other than the GPIP is one cycle.\<close>

lemma ps_read_16_plain:
  assumes "a AND 0x00FFFFFF \<noteq> 0x00FFFA00"
  shows "fst (ps_read_16 env a s) = env_data env (ReadWord (fc s) a # bus_hist s)"
    "bus_hist (snd (ps_read_16 env a s)) = ReadWord (fc s) a # bus_hist s"
    "g_buserr (snd (ps_read_16 env a s)) = (g_buserr s \<or> env_berr env (ReadWord (fc s) a # bus_hist s))"
    "fc (snd (ps_read_16 env a s)) = fc s"
  using assms by (simp_all add: ps_read_16_def ps_read_txn_def latch_berr_def Let_def)

lemma berr_retry_cycles:
  assumes a: "a AND 0x00FFFFFF \<noteq> 0x00FFFA00" and c: "c = ReadWord (fc s) a" and h: "bus_hist s = c # h"
    and g: "g_buserr s = env_berr env (c # h)" and v: "v = env_data env (c # h)"
    and r: "berr_retry (ps_read_16 env a) n (v, s) = (w, t)"
  shows "\<exists>k \<le> n. bus_hist t = attempt c k h \<and> w = env_data env (attempt c k h) \<and>
    (\<forall>j < k. env_berr env (attempt c j h)) \<and> g_buserr t = env_berr env (attempt c k h) \<and>
    (g_buserr t \<longrightarrow> k = n)"
  using assms
proof (induction n arbitrary: s h v)
  case 0
  then show ?case by (auto simp: attempt_def)
next
  case (Suc n)
  show ?case
  proof (cases "g_buserr s")
    case False
    then show ?thesis using Suc.prems by (intro exI [of _ 0]) (auto simp: attempt_def)
  next
    case True
    let ?s = "(mfp_berr_note s)\<lparr>g_buserr := False\<rparr>"
    obtain v' s' where r: "ps_read_16 env a ?s = (v', s')" by fastforce
    have p: "fc s' = fc s" "bus_hist s' = c # c # h" "g_buserr s' = env_berr env (c # c # h)" "v' = env_data env (c # c # h)"
      using ps_read_16_plain [OF Suc.prems(1), of env ?s] r Suc.prems(2,3) by (simp_all add: mfp_berr_note_def)
    have "berr_retry (ps_read_16 env a) n (v', s') = (w, t)" using Suc.prems(6) True r by simp
    then obtain k where k: "k \<le> n" "bus_hist t = attempt c k (c # h)" "w = env_data env (attempt c k (c # h))"
      "\<forall>j < k. env_berr env (attempt c j (c # h))" "g_buserr t = env_berr env (attempt c k (c # h))"
      "g_buserr t \<longrightarrow> k = n"
      using Suc.IH [OF Suc.prems(1), of s' "c # h" v'] p Suc.prems(2) by auto
    have sh: "attempt c j (c # h) = attempt c (Suc j) h" for j by (simp add: attempt_def replicate_app_Cons_same)
    have "env_berr env (attempt c j h)" if "j < Suc k" for j
    proof (cases j)
      case 0
      then show ?thesis using True Suc.prems(4) by (simp add: attempt_def)
    next
      case (Suc i)
      then show ?thesis using k(4) [rule_format, of i] that sh [of i] by simp
    qed
    moreover have "Suc k \<le> Suc n" "g_buserr t \<longrightarrow> Suc k = Suc n" using k(1,6) by simp_all
    ultimately show ?thesis using k(2,3,5) [unfolded sh] by blast
  qed
qed


section \<open>The properties\<close>

definition hw_boot :: hw_state where
  "hw_boot = smc_state.extend (boot_state boot_config)
     \<lparr>pistorm_dm_berr_addr = 0, pistorm_dm_berr_count = 0, mfp_gpip_berr_retries = 0, pistorm_blitter_real_bus = False,
      pistorm_blitter_mode = 2, blitter_shadow = (\<lambda>_. 0), chip = demo_blitter\<rparr>"

text \<open>A word read of an MFP register (other than the GPIP word, which is filtered) makes at
  most four identical bus cycles: it stops at the first one without a bus error and returns that
  cycle's data, and a bus error is left for the guest exactly if every attempt failed. The USART
  data register, whose read has a side effect, is read once.\<close>

theorem mfp_read_retry_spec:
  assumes "a AND 0x00FFFFFF \<noteq> 0x00FFFA00" "\<not> g_buserr s" "mfp_read16_retry env a s = (w, t)"
  shows "\<exists>k \<le> (if mfp_read_repeatable a then 3 else 0).
    bus_hist t = attempt (ReadWord (fc s) a) k (bus_hist s) \<and>
    w = env_data env (attempt (ReadWord (fc s) a) k (bus_hist s)) \<and>
    (\<forall>j < k. env_berr env (attempt (ReadWord (fc s) a) j (bus_hist s))) \<and>
    g_buserr t = env_berr env (attempt (ReadWord (fc s) a) k (bus_hist s)) \<and>
    (g_buserr t \<longrightarrow> k = (if mfp_read_repeatable a then 3 else 0))"
proof -
  let ?c = "ReadWord (fc s) a"
  obtain v u where r: "ps_read_16 env a s = (v, u)" by fastforce
  have u: "fc u = fc s" "bus_hist u = ?c # bus_hist s" "g_buserr u = env_berr env (?c # bus_hist s)"
    "v = env_data env (?c # bus_hist s)"
    using ps_read_16_plain [OF assms(1), of env s] r assms(2) by simp_all
  show ?thesis
    using assms(3) r u by (intro berr_retry_cycles [OF assms(1)]) (simp_all add: mfp_read16_retry_def)
qed

text \<open>A machine whose first cycle after the start always fails.\<close>

definition flaky_env :: bus_env where
  "flaky_env = \<lparr>env_data = (\<lambda>h. 0x1234), env_berr = (\<lambda>h. length h \<le> 1), env_mmap_fixed = (\<lambda>_. True),
     env_memfd = True, env_hugetlb_release = True, env_mprotect = (\<lambda>_. True)\<rparr>"

theorem mfp_read_retry_spec_witness:
  "\<exists>w t. mfp_read16_retry flaky_env 0x00FFFA22 hw_boot = (w, t) \<and> w = 0x1234 \<and> \<not> g_buserr t \<and> length (bus_hist t) = 2"
proof -
  obtain w t where r: "mfp_read16_retry flaky_env 0x00FFFA22 hw_boot = (w, t)" by fastforce
  have b: "\<not> g_buserr hw_boot" "bus_hist hw_boot = []" by (simp_all add: hw_boot_def smc_state.extend_def boot_state_def)
  have rep: "mfp_read_repeatable 0x00FFFA22" by (simp add: mfp_read_repeatable_def)
  have a: "(0x00FFFA22 :: u32) AND 0x00FFFFFF \<noteq> 0x00FFFA00" by simp
  obtain k where k: "k \<le> 3" "bus_hist t = attempt (ReadWord (fc hw_boot) 0x00FFFA22) k []"
    "w = env_data flaky_env (attempt (ReadWord (fc hw_boot) 0x00FFFA22) k [])"
    "\<forall>j < k. env_berr flaky_env (attempt (ReadWord (fc hw_boot) 0x00FFFA22) j [])"
    "g_buserr t = env_berr flaky_env (attempt (ReadWord (fc hw_boot) 0x00FFFA22) k [])" "g_buserr t \<longrightarrow> k = 3"
    using mfp_read_retry_spec [OF a b(1) r] unfolding b(2) if_P [OF rep] by blast
  have "k = 1"
  proof (rule ccontr)
    assume "k \<noteq> 1"
    then consider "k = 0" | "2 \<le> k" by linarith
    then show False
    proof cases
      case 1
      have "g_buserr t" unfolding k(5) 1 by (simp add: flaky_env_def attempt_def)
      with k(6) 1 show False by simp
    next
      case 2
      then show False using k(4) [rule_format, of 1] by (simp add: flaky_env_def attempt_def)
    qed
  qed
  then have "length (attempt (ReadWord (fc hw_boot) 0x00FFFA22) k []) = 2" by (simp add: attempt_def)
  then have "\<not> g_buserr t" "length (bus_hist t) = 2" unfolding k(2,5) by (simp_all add: flaky_env_def)
  moreover have "w = 0x1234" using k(3) by (simp add: flaky_env_def)
  ultimately show ?thesis using r by blast
qed

text \<open>The cycles an access adds to the history, and whether they are 24-bit cycles.\<close>

fun cycle_addr :: "bus_cycle \<Rightarrow> u32" where
  "cycle_addr (WriteByte _ a _) = a"
| "cycle_addr (WriteWord _ a _) = a"
| "cycle_addr (ReadByte _ a) = a"
| "cycle_addr (ReadWord _ a) = a"

text \<open>The address that reaches the bus.\<close>

lemma and_FFFFFF: "unat (a AND 0x00FFFFFF) = unat a mod 2 ^ 24" for a :: u32
  using unat_and_mask [of a 24] by (simp add: mask_eq_exp_minus_1)

lemma and_FF000000: "a AND 0xFF000000 = 0 \<longleftrightarrow> unat a < 2 ^ 24" for a :: u32
proof -
  have "(0xFF000000 :: u32) = NOT (mask 24)" by (simp add: mask_eq_exp_minus_1)
  then have "unat (a AND 0xFF000000) = unat a div 2 ^ 24 * 2 ^ 24" by (simp only: unat_and_not_mask)
  moreover have "a AND 0xFF000000 = 0 \<longleftrightarrow> unat (a AND 0xFF000000) = 0" by (simp add: unat_eq_zero)
  ultimately show ?thesis by (simp add: div_eq_0_iff)
qed

lemma dm_bus_addr_Some:
  assumes "dm_bus_addr a s = (Some b, t)"
  shows "t = s" "b = a AND 0x00FFFFFF"
proof -
  show "t = s" using assms by (auto simp: dm_bus_addr_def Let_def split: if_splits)
  have "a AND 0x00FFFFFF = a" if "a AND 0xFF000000 = 0"
  proof -
    have "unat a < 2 ^ 24" using that by (simp only: and_FF000000)
    then have "unat (a AND 0x00FFFFFF) = unat a" by (simp add: and_FFFFFF)
    then show ?thesis by (simp only: word_unat_eq_iff)
  qed
  then show "b = a AND 0x00FFFFFF" using assms by (auto simp: dm_bus_addr_def Let_def split: if_splits)
qed

lemma dm_bus_addr_None:
  assumes "dm_bus_addr a s = (None, t)"
  shows "\<not> pistorm_addr24 s" "bus_hist t = bus_hist s" "2 ^ 24 \<le> unat a" "a AND 0xFF000000 \<noteq> 0xFF000000"
    "mem_view t = mem_view s"
proof -
  have m: "unat (a AND 0x00FFFFFF) < 2 ^ 24" by (simp add: and_FFFFFF)
  then have z: "(a AND 0x00FFFFFF) AND 0xFF000000 = 0" by (simp only: and_FF000000)
  show "\<not> pistorm_addr24 s" "bus_hist t = bus_hist s" "2 ^ 24 \<le> unat a" "a AND 0xFF000000 \<noteq> 0xFF000000"
    "mem_view t = mem_view s"
    using assms z by (auto simp: dm_bus_addr_def Let_def mem_view_def and_FF000000 split: if_splits)
qed


text \<open>Which guest addresses the machine has on its bus: all of them with 24 address lines, the
  first 16 MB and their alias at the top otherwise.\<close>

definition dm_decoded :: "'a hw_state_scheme \<Rightarrow> u32 \<Rightarrow> bool" where
  "dm_decoded s a \<longleftrightarrow> pistorm_addr24 s \<or> unat a < 2 ^ 24 \<or> a AND 0xFF000000 = 0xFF000000"

lemma dm_bus_addr_decoded:
  assumes "dm_decoded s a"
  shows "dm_bus_addr a s = (Some (a AND 0x00FFFFFF), s)"
proof (cases "dm_bus_addr a s")
  case (Pair r t)
  then show ?thesis using assms dm_bus_addr_None [of a s t] dm_bus_addr_Some [of a s _ t]
    by (cases r) (auto simp: dm_decoded_def)
qed

lemma fc_data_frame [simp]:
  "bus_hist (fc_data (s\<lparr>g_buserr := False\<rparr>)) = bus_hist s" "\<not> g_buserr (fc_data (s\<lparr>g_buserr := False\<rparr>))"
  "pistorm_addr24 (fc_data (s\<lparr>g_buserr := False\<rparr>)) = pistorm_addr24 s"
  "fc (fc_data (s\<lparr>g_buserr := False\<rparr>)) = (if regs_s s then 5 else 1)" for s :: "'a hw_state_scheme"
  by (simp_all add: fc_data_def)

lemma ps_read_16_cycle:
  "bus_hist (snd (ps_read_16 env a s)) = ReadWord (fc s) a # bus_hist s"
  "g_buserr (snd (ps_read_16 env a s)) = (g_buserr s \<or> env_berr env (ReadWord (fc s) a # bus_hist s))"
proof -
  have "bus_hist (gpip7_debounce b t) = bus_hist t" "g_buserr (gpip7_debounce b t) = g_buserr t" for b and t :: "'a bus_state_scheme"
    by (simp_all add: gpip7_debounce_def Let_def)
  then show "bus_hist (snd (ps_read_16 env a s)) = ReadWord (fc s) a # bus_hist s"
    "g_buserr (snd (ps_read_16 env a s)) = (g_buserr s \<or> env_berr env (ReadWord (fc s) a # bus_hist s))"
    by (auto simp: ps_read_16_def ps_read_txn_def latch_berr_def gpip7_filter_def Let_def)
qed

text \<open>A word access to undecoded space. On a decoded address it is one bus cycle, at the low 24
  bits of the address and with the data function code of the CPU's mode, and a bus error of that
  cycle is exactly what raises exception 2. High space above 16 MB of a 32-bit map is silent: no
  cycle, no exception, reads give 0.\<close>

theorem dm_word_access:
  "let c = (if regs_s s then 5 else 1); b = a AND 0x00FFFFFF in
   if dm_decoded s a
   then bus_hist (snd (dm_wget env a s)) = ReadWord c b # bus_hist s \<and>
        isl (fst (dm_wget env a s)) = env_berr env (ReadWord c b # bus_hist s) \<and>
        bus_hist (snd (dm_wput env a v s)) = WriteWord c b (ucast v) # bus_hist s \<and>
        isl (fst (dm_wput env a v s)) = env_berr env (WriteWord c b (ucast v) # bus_hist s) \<and>
        unat b < 2 ^ 24
   else fst (dm_wget env a s) = Inr 0 \<and> bus_hist (snd (dm_wget env a s)) = bus_hist s \<and>
        fst (dm_wput env a v s) = Inr () \<and> bus_hist (snd (dm_wput env a v s)) = bus_hist s \<and>
        mem_view (snd (dm_wput env a v s)) = mem_view s"
proof (cases "dm_decoded s a")
  case True
  let ?s = "fc_data (s\<lparr>g_buserr := False\<rparr>)"
  have "dm_decoded ?s a" using True by (simp add: dm_decoded_def)
  then have d: "dm_bus_addr a ?s = (Some (a AND 0x00FFFFFF), ?s)" by (rule dm_bus_addr_decoded)
  have "unat (a AND 0x00FFFFFF) < 2 ^ 24" by (simp add: and_FFFFFF)
  then show ?thesis
    using True ps_read_16_cycle [of env "a AND 0x00FFFFFF" ?s]
    by (auto simp: Let_def dm_wget_def dm_wput_def d pistorm_buserr_def ps_write_16_def ps_write_txn_def latch_berr_def
        split: prod.splits)
next
  case False
  let ?s = "fc_data (s\<lparr>g_buserr := False\<rparr>)"
  obtain r t where d: "dm_bus_addr a ?s = (r, t)" by fastforce
  have "r = None"
  proof (rule ccontr)
    assume "r \<noteq> None"
    then have "a AND 0xFF000000 = 0xFF000000 \<or> pistorm_addr24 s \<or> a AND 0xFF000000 = 0"
      using d by (auto simp: dm_bus_addr_def Let_def split: if_splits)
    then show False using False by (auto simp: dm_decoded_def and_FF000000)
  qed
  then have n: "dm_bus_addr a ?s = (None, t)" using d by simp
  show ?thesis using False dm_bus_addr_None(2,5) [OF n] by (auto simp: Let_def dm_wget_def dm_wput_def n)
qed

end
