(* ===== verification/Blitter_Page.thy ===== *)
theory Blitter_Page
  imports Bus_Banks
begin

text \<open>
  The blitter page at \<open>$FF8A00\<close> (\<open>pistorm_natmem.cpp\<close>): hidden, passed to the real chip with the
  destination copied back into the guest mirror, or emulated by \<open>st_blitter.c\<close>.
\<close>

section \<open>The mode\<close>

definition pistorm_set_blitter_mode :: "int \<Rightarrow> 'a hw_state_scheme \<Rightarrow> 'a hw_state_scheme" where
  "pistorm_set_blitter_mode mode s =
     (let m = (if mode \<ge> 0 \<and> mode \<le> 2 then mode else 2)
      in s\<lparr>pistorm_blitter_mode := m, pistorm_blitter_real_bus := (m = 1)\<rparr>)"

definition pistorm_set_blitter_enabled :: "int \<Rightarrow> 'a hw_state_scheme \<Rightarrow> 'a hw_state_scheme" where
  "pistorm_set_blitter_enabled enabled s = pistorm_set_blitter_mode (if enabled \<noteq> 0 then 2 else 0) s"

definition blitter_addr :: "u32 \<Rightarrow> bool" where
  "blitter_addr a \<longleftrightarrow> (a AND 0x00FFFFFF) \<ge> 0x00FF8A00 \<and> (a AND 0x00FFFFFF) < 0x00FF8C00"

definition blitter_hide_addr :: "'a hw_state_scheme \<Rightarrow> u32 \<Rightarrow> bool" where
  "blitter_hide_addr s a \<longleftrightarrow> blitter_addr a \<and> pistorm_blitter_mode s = 0"

definition blitter_emulated :: "'a hw_state_scheme \<Rightarrow> bool" where
  "blitter_emulated s \<longleftrightarrow> pistorm_blitter_mode s = 2"

section \<open>Shadow of the real chip's registers\<close>

definition blitter_shadow_w :: "'a hw_state_scheme \<Rightarrow> nat \<Rightarrow> u16" where
  "blitter_shadow_w s off = push_bit 8 (ucast (blitter_shadow s off)) OR ucast (blitter_shadow s (off + 1))"

definition blitter_shadow_l :: "'a hw_state_scheme \<Rightarrow> nat \<Rightarrow> u32" where
  "blitter_shadow_l s off =
     push_bit 24 (ucast (blitter_shadow s off)) OR push_bit 16 (ucast (blitter_shadow s (off + 1))) OR
     push_bit 8 (ucast (blitter_shadow s (off + 2))) OR ucast (blitter_shadow s (off + 3))"

definition blitter_shadow_write :: "u32 \<Rightarrow> u32 \<Rightarrow> nat \<Rightarrow> 'a hw_state_scheme \<Rightarrow> 'a hw_state_scheme" where
  "blitter_shadow_write a v n s =
     (let off = unat (a AND 0x3F); sh = blitter_shadow s in
      if \<not> blitter_addr a \<or> off + n > 64 then s
      else if n = 4 then s\<lparr>blitter_shadow := sh(off := ucast (drop_bit 24 v), off + 1 := ucast (drop_bit 16 v),
             off + 2 := ucast (drop_bit 8 v), off + 3 := ucast v)\<rparr>
      else if n = 2 then s\<lparr>blitter_shadow := sh(off := ucast (drop_bit 8 v), off + 1 := ucast v)\<rparr>
      else s\<lparr>blitter_shadow := sh(off := ucast v)\<rparr>)"

section \<open>Copying the destination back\<close>

text \<open>The byte offsets from the destination address between which the blit is taken to write.\<close>

definition sync_offsets :: "nat \<Rightarrow> nat \<Rightarrow> int \<Rightarrow> int \<Rightarrow> int \<times> int" where
  "sync_offsets xcnt ycnt dx dy =
     (let xlast = int (xcnt - 1) * dx; ylast = int (ycnt - 1) * dy;
          minoff = 0; maxoff = 2;
          minoff = (if xlast < minoff then xlast else minoff);
          maxoff = (if xlast + 2 > maxoff then xlast + 2 else maxoff);
          minoff = (if ylast < minoff then ylast else minoff);
          maxoff = (if ylast + 2 > maxoff then ylast + 2 else maxoff);
          minoff = (if xlast + ylast < minoff then xlast + ylast else minoff);
          maxoff = (if xlast + ylast + 2 > maxoff then xlast + ylast + 2 else maxoff)
      in (minoff, maxoff))"

text \<open>The range of ST-RAM to copy, \<open>None\<close> for every early return. Counts of 0 mean 65536.\<close>

definition sync_range :: "u32 \<Rightarrow> u16 \<Rightarrow> u16 \<Rightarrow> u16 \<Rightarrow> u16 \<Rightarrow> (u32 \<times> u32) option" where
  "sync_range dest dxw dyw xw yw =
     (let xcnt = (if xw = 0 then 65536 else unat xw); ycnt = (if yw = 0 then 65536 else unat yw) in
      if xcnt > 4096 \<or> ycnt > 4096 then None
      else
        (let (minoff, maxoff) = sync_offsets xcnt ycnt (sint dxw) (sint dyw);
             start64 = uint dest + minoff; end64 = uint dest + maxoff
         in if end64 \<le> 0 \<or> start64 \<ge> uint ST_RAM_SIZE then None
            else
              (let start64 = (if start64 < 0 then 0 else start64);
                   end64 = (if end64 > uint ST_RAM_SIZE then uint ST_RAM_SIZE else end64);
                   start = word_of_int start64 AND NOT 1;
                   end' = (word_of_int end64 + 1) AND NOT 1;
                   end' = (if end' > ST_RAM_SIZE then ST_RAM_SIZE else end')
               in if end' \<le> start then None else Some (start, end'))))"

text \<open>The copy loop: both bounds are even, so \<open>p + 1 < end\<close> holds once per word of the range.\<close>

fun sync_words :: "bus_env \<Rightarrow> nat \<Rightarrow> u32 \<Rightarrow> 'a hw_state_scheme \<Rightarrow> 'a hw_state_scheme" where
  "sync_words env 0 p s = s"
| "sync_words env (Suc n) p s =
     (let (w, s1) = ps_read_16 env p (s\<lparr>g_buserr := False\<rparr>) in
      if g_buserr s1 then s1\<lparr>g_buserr := False\<rparr>
      else sync_words env n (p + 2)
             (mem_put_byte (Natmem (p + 1)) (ucast w) (mem_put_byte (Natmem p) (ucast (drop_bit 8 w)) s1)))"

definition blitter_sync_dest :: "bus_env \<Rightarrow> 'a hw_state_scheme \<Rightarrow> 'a hw_state_scheme" where
  "blitter_sync_dest env s =
     (case sync_range (blitter_shadow_l s 0x32 AND 0x00FFFFFE) (blitter_shadow_w s 0x2E) (blitter_shadow_w s 0x30)
             (blitter_shadow_w s 0x36) (blitter_shadow_w s 0x38) of
        None \<Rightarrow> s
      | Some (start, end') \<Rightarrow>
          (let s1 = sync_words env (unat (end' - start) div 2) start (s\<lparr>fc := 5\<rparr>)
           in pistorm_smc start (end' - start) (s1\<lparr>fc := fc s\<rparr>)))"

text \<open>Waiting for BUSY to clear, at most \<open>n\<close> polls.\<close>

fun blit_poll :: "bus_env \<Rightarrow> nat \<Rightarrow> 'a hw_state_scheme \<Rightarrow> 'a hw_state_scheme" where
  "blit_poll env 0 s = s"
| "blit_poll env (Suc n) s =
     (let (v, s1) = ps_read_8 env 0x00FF8A3C (s\<lparr>g_buserr := False\<rparr>) in
      if v AND 0x80 = 0 \<or> g_buserr s1 then s1 else blit_poll env n s1)"

definition blitter_after_write :: "bus_env \<Rightarrow> u32 \<Rightarrow> u32 \<Rightarrow> nat \<Rightarrow> 'a hw_state_scheme \<Rightarrow> 'a hw_state_scheme" where
  "blitter_after_write env a v n s =
     (let s1 = blitter_shadow_write a v n s; folded = a AND 0x00FFFFFF in
      if \<not> blitter_addr a then s1
      else if folded \<le> 0x00FF8A3C \<and> folded + of_nat n > 0x00FF8A3C \<and> blitter_shadow s1 0x3C AND 0x80 \<noteq> 0
      then (let s2 = blit_poll env 100000 (s1\<lparr>fc := 5\<rparr>)
            in blitter_sync_dest env (s2\<lparr>g_buserr := False, fc := fc s1\<rparr>))
      else s1)"

section \<open>Cycles on the real page\<close>

definition BLITTER_BERR_RETRIES :: nat where [c_const]: "BLITTER_BERR_RETRIES = 64"

definition bus_get_n :: "bus_env \<Rightarrow> u32 \<Rightarrow> nat \<Rightarrow> 'a bus_state_scheme \<Rightarrow> u32 \<times> 'a bus_state_scheme" where
  "bus_get_n env a n s =
     (if n = 1 then (let (v, t) = ps_read_8 env a s in (ucast v, t))
      else if n = 2 then (let (v, t) = ps_read_16 env a s in (ucast v, t))
      else ps_bus_lget env a s)"

definition bus_put_n :: "bus_env \<Rightarrow> u32 \<Rightarrow> u32 \<Rightarrow> nat \<Rightarrow> 'a bus_state_scheme \<Rightarrow> 'a bus_state_scheme" where
  "bus_put_n env a v n s =
     (if n = 1 then ps_write_8 env a (ucast v) s
      else if n = 2 then ps_write_16 env a (ucast v) s else ps_bus_lput env a v s)"

fun hw_blitter_get_loop ::
  "bus_env \<Rightarrow> u32 \<Rightarrow> nat \<Rightarrow> nat \<Rightarrow> u32 \<Rightarrow> 'a bus_state_scheme \<Rightarrow> (u32, 'a bus_state_scheme) access" where
  "hw_blitter_get_loop env a n 0 v s = pistorm_buserr a 0 True n v s"
| "hw_blitter_get_loop env a n (Suc k) v s =
     (let (w, t) = bus_get_n env a n (s\<lparr>g_buserr := False\<rparr>)
      in if \<not> g_buserr t then (Inr w, t) else hw_blitter_get_loop env a n k w t)"

definition hw_blitter_bus_get :: "bus_env \<Rightarrow> u32 \<Rightarrow> nat \<Rightarrow> 'a bus_state_scheme \<Rightarrow> (u32, 'a bus_state_scheme) access"
where
  "hw_blitter_bus_get env a n s = hw_blitter_get_loop env a n BLITTER_BERR_RETRIES 0 s"

fun hw_blitter_put_loop ::
  "bus_env \<Rightarrow> u32 \<Rightarrow> u32 \<Rightarrow> nat \<Rightarrow> nat \<Rightarrow> 'a bus_state_scheme \<Rightarrow> (unit, 'a bus_state_scheme) access" where
  "hw_blitter_put_loop env a v n 0 s = pistorm_buserr a v False n () s"
| "hw_blitter_put_loop env a v n (Suc k) s =
     (let t = bus_put_n env a v n (s\<lparr>g_buserr := False\<rparr>)
      in if \<not> g_buserr t then (Inr (), t) else hw_blitter_put_loop env a v n k t)"

definition hw_blitter_bus_put ::
  "bus_env \<Rightarrow> u32 \<Rightarrow> u32 \<Rightarrow> nat \<Rightarrow> 'a bus_state_scheme \<Rightarrow> (unit, 'a bus_state_scheme) access" where
  "hw_blitter_bus_put env a v n s = hw_blitter_put_loop env a v n BLITTER_BERR_RETRIES s"

section \<open>The handlers\<close>

text \<open>The three widths differ in the size only. A put is \<open>None\<close> if the host store of the emulated
  chip faults outside the pages the handler manages.\<close>

definition hw_blitter_get ::
  "bus_env \<Rightarrow> u64 \<Rightarrow> nat \<Rightarrow> u32 \<Rightarrow> 'a hw_state_scheme \<Rightarrow> (u32, 'a hw_state_scheme) access" where
  "hw_blitter_get env now n a s =
     (if blitter_hide_addr s a then (Inl (Exception2 a 0 True n), s)
      else if blitter_emulated s then
        (if hw_fold_addr a - 0x00FF8A00 \<ge> 0x40 then (Inl (Exception2 a 0 True n), s)
         else (Inr (st_blitter_reg_read s now a n (chip s)), s))
      else hw_blitter_bus_get env a n s)"

definition hw_blitter_put ::
  "bus_env \<Rightarrow> u64 \<Rightarrow> nat \<Rightarrow> u32 \<Rightarrow> u32 \<Rightarrow> 'a hw_state_scheme \<Rightarrow> (unit, 'a hw_state_scheme) access option" where
  "hw_blitter_put env now n a v s =
     (if blitter_hide_addr s a then Some (Inl (Exception2 a v False n), s)
      else if blitter_emulated s then
        (if hw_fold_addr a - 0x00FF8A00 \<ge> 0x40 then Some (Inl (Exception2 a v False n), s)
         else case st_blitter_reg_write env now a v n (chip s, s) of
                None \<Rightarrow> None
              | Some (b, t) \<Rightarrow> Some (Inr (), t\<lparr>chip := b\<rparr>))
      else case hw_blitter_bus_put env a v n s of
             (Inl e, t) \<Rightarrow> Some (Inl e, t)
           | (Inr _, t) \<Rightarrow> Some (Inr (), blitter_after_write env a v n t))"

definition hw_blitter_lget where "hw_blitter_lget env now = hw_blitter_get env now 4"
definition hw_blitter_wget where "hw_blitter_wget env now = hw_blitter_get env now 2"
definition hw_blitter_bget where "hw_blitter_bget env now = hw_blitter_get env now 1"
definition hw_blitter_lput where "hw_blitter_lput env now = hw_blitter_put env now 4"
definition hw_blitter_wput where "hw_blitter_wput env now = hw_blitter_put env now 2"
definition hw_blitter_bput where "hw_blitter_bput env now = hw_blitter_put env now 1"


section \<open>The range is inside ST-RAM\<close>

lemma and_not_1: "unat (a AND NOT 1) = unat a - unat a mod 2" for a :: u32
proof -
  have "NOT 1 = (NOT (mask 1) :: u32)" by (simp add: mask_eq_exp_minus_1)
  then have "unat (a AND NOT 1) = unat a div 2 ^ 1 * 2 ^ 1" by (simp only: unat_and_not_mask)
  then show ?thesis by (simp add: minus_mod_eq_div_mult)
qed

lemma sync_range_bounds:
  assumes "sync_range dest dxw dyw xw yw = Some (start, e)"
  shows "unat start < unat e" "unat e \<le> 0x400000" "even (unat start)" "even (unat e)"
proof -
  obtain mn mx where o: "sync_offsets (if xw = 0 then 65536 else unat xw) (if yw = 0 then 65536 else unat yw)
      (sint dxw) (sint dyw) = (mn, mx)" by fastforce
  define a where "a = (if uint dest + mn < 0 then 0 else uint dest + mn)"
  define b where "b = (if uint dest + mx > 0x400000 then 0x400000 else uint dest + mx)"
  define e1 :: u32 where "e1 = (word_of_int b + 1) AND NOT 1"
  have r: "uint dest + mx > 0" "uint dest + mn < 0x400000" "start = word_of_int a AND NOT 1"
    "e = (if e1 > 0x400000 then 0x400000 else e1)" "start < e"
    using assms o by (auto simp: sync_range_def Let_def a_def b_def e1_def ST_RAM_SIZE_def not_le split: if_splits)
  have b: "0 < b" "b \<le> 0x400000" using r(1) by (auto simp: b_def)
  have "unat (word_of_int b + 1 :: u32) = nat b + 1"
  proof -
    have "(word_of_int b + 1 :: u32) = of_nat (nat b + 1)" using b by (simp add: add.commute)
    then show ?thesis using b by (simp add: unat_of_nat del: of_nat_Suc of_nat_add)
  qed
  then have "unat e1 = nat b + 1 - (nat b + 1) mod 2" unfolding e1_def and_not_1 by simp
  then have "even (unat e1)" by (simp add: minus_mod_eq_mult_div)
  then show "even (unat e)" using r(4) by simp
  show "even (unat start)" unfolding r(3) and_not_1 by (simp add: minus_mod_eq_mult_div)
  show "unat start < unat e" using r(5) by (simp add: word_less_nat_alt)
  show "unat e \<le> 0x400000" using r(4) by (auto simp: word_less_nat_alt split: if_splits)
qed

text \<open>The copy loop writes its range only, and leaves everything else but the bus history alone.\<close>

lemma mem_view_read: "mem_view (snd (ps_read_16 env a s)) = mem_view s" "fc (snd (ps_read_16 env a s)) = fc s"
  by (simp_all add: ps_read_16_def ps_read_txn_def gpip7_filter_def gpip7_debounce_def latch_berr_def mem_view_def
      Let_def case_prod_unfold)

lemma ps_read_16_keeps:
  assumes "ps_read_16 env a s = (w, t)"
  shows "mem_view t = mem_view s" "alias_view t = alias_view s" "fc t = fc s"
  using mem_view_read [of env a s] alias_view_read [of env a s] assms by simp_all

lemma sync_words_keeps:
  assumes "flat s" "unat p + 2 * n \<le> 0x400000"
  shows "flat (sync_words env n p s) \<and> fc (sync_words env n p s) = fc s \<and>
    (\<forall>a. unat a < unat p \<or> unat p + 2 * n \<le> unat a \<longrightarrow> nm_anon (sync_words env n p s) a = nm_anon s a)"
  using assms
proof (induction n arbitrary: p s)
  case (Suc n)
  obtain w s1 where r: "ps_read_16 env p (s\<lparr>g_buserr := False\<rparr>) = (w, s1)" by fastforce
  have v: "mem_view s1 = mem_view s" "alias_view s1 = alias_view s" and f: "fc s1 = fc s"
    using ps_read_16_keeps [OF r] by simp_all
  have fl: "flat s1" and an: "nm_anon s1 = nm_anon s"
    using flat_alias_view [OF v(2)] mem_view_fields(1) [OF v(1)] Suc.prems(1) by simp_all
  show ?case
  proof (cases "g_buserr s1")
    case True
    then show ?thesis using fl an f by (simp add: r flat_def)
  next
    case False
    let ?t = "s1\<lparr>nm_anon := (nm_anon s)(p := ucast (drop_bit 8 w), p + 1 := ucast w)\<rparr>"
    have t: "mem_put_byte (Natmem (p + 1)) (ucast w) (mem_put_byte (Natmem p) (ucast (drop_bit 8 w)) s1) = ?t"
      using fl by (simp add: put_byte_flat an)
    have p1: "unat (p + 1) = unat p + 1" "unat (p + 2) = unat p + 2"
      using Suc.prems(2) by (simp_all add: unat_add_small)
    have ih: "flat (sync_words env n (p + 2) ?t) \<and> fc (sync_words env n (p + 2) ?t) = fc ?t \<and>
      (\<forall>a. unat a < unat (p + 2) \<or> unat (p + 2) + 2 * n \<le> unat a \<longrightarrow> nm_anon (sync_words env n (p + 2) ?t) a = nm_anon ?t a)"
      using fl p1 Suc.prems(2) by (intro Suc.IH) simp_all
    have "sync_words env (Suc n) p s = sync_words env n (p + 2) ?t" using False t by (simp add: r)
    moreover have "nm_anon ?t a = nm_anon s a" if "unat a < unat p \<or> unat p + 2 * Suc n \<le> unat a" for a
      using that p1 by auto
    ultimately show ?thesis using ih f p1 by auto
  qed
qed simp


lemma mem_view_fc [simp]: "mem_view (s\<lparr>fc := x\<rparr>) = mem_view s"
  by (simp add: mem_view_def)

lemma pistorm_smc_fc [simp]: "fc (pistorm_smc a z s) = fc s"
  by (simp add: pistorm_smc_def cache_invalidate_def Let_def)

text \<open>The registers the copy back works from.\<close>

definition shadow_range :: "'a hw_state_scheme \<Rightarrow> (u32 \<times> u32) option" where
  "shadow_range s =
     sync_range (blitter_shadow_l s 0x32 AND 0x00FFFFFE) (blitter_shadow_w s 0x2E) (blitter_shadow_w s 0x30)
       (blitter_shadow_w s 0x36) (blitter_shadow_w s 0x38)"

lemma blitter_sync_dest_frame:
  assumes "flat s" and r: "shadow_range s = Some (start, e)"
  shows "fc (blitter_sync_dest env s) = fc s"
    "unat a < unat start \<or> unat e \<le> unat a \<Longrightarrow> natmem_byte (blitter_sync_dest env s) a = natmem_byte s a"
proof -
  note b = sync_range_bounds [OF r [unfolded shadow_range_def]]
  let ?n = "unat (e - start) div 2" and ?s = "s\<lparr>fc := 5\<rparr>"
  let ?t = "sync_words env ?n start ?s"
  let ?u = "pistorm_smc start (e - start) (?t\<lparr>fc := fc s\<rparr>)"
  have u: "blitter_sync_dest env s = ?u" using r by (simp add: blitter_sync_dest_def shadow_range_def Let_def)
  show "fc (blitter_sync_dest env s) = fc s" by (simp add: u)
  assume a: "unat a < unat start \<or> unat e \<le> unat a"
  have d: "unat (e - start) = unat e - unat start" using b(1) by (simp add: unat_sub word_le_nat_alt)
  then have n: "unat start + 2 * ?n = unat e" using b by simp
  have "flat ?s" using assms(1) by (simp add: flat_def)
  then have k: "flat ?t" "nm_anon ?t a = nm_anon s a"
    using sync_words_keeps [of ?s start ?n env] n b(2) a by auto
  have "mem_view ?u = mem_view ?t" by simp
  then have "natmem_byte ?u = natmem_byte ?t" by (rule mem_view_gets)
  then show "natmem_byte (blitter_sync_dest env s) a = natmem_byte s a"
    using natmem_byte_flat [OF k(1)] natmem_byte_flat [OF assms(1)] k(2) by (simp add: u)
qed

text \<open>C39: Copying the destination of a real blit back into the guest mirror: whatever the shadowed
  registers hold, the copy stays inside a non-empty even range below 4 MB, and neither bytes
  outside that range nor the function code change; without such a range nothing happens.\<close>

theorem blitter_sync_bounds:
  assumes "flat s"
  shows "case shadow_range s of
      None \<Rightarrow> blitter_sync_dest env s = s
    | Some (start, e) \<Rightarrow>
        unat start < unat e \<and> unat e \<le> 0x400000 \<and> even (unat start) \<and> even (unat e) \<and>
        fc (blitter_sync_dest env s) = fc s \<and>
        (\<forall>a. unat a < unat start \<or> unat e \<le> unat a \<longrightarrow> natmem_byte (blitter_sync_dest env s) a = natmem_byte s a)"
proof (cases "shadow_range s")
  case None
  then show ?thesis by (simp add: blitter_sync_dest_def shadow_range_def)
next
  case (Some r)
  then obtain start e where r: "shadow_range s = Some (start, e)" by (metis prod.exhaust)
  show ?thesis
    using sync_range_bounds [OF r [unfolded shadow_range_def]] blitter_sync_dest_frame [OF assms r] by (simp add: r)
qed

text \<open>A 32-pixel wide, 200-line blit to a screen at \<open>$F8000\<close>: two words per line, 160 bytes apart.\<close>

definition tall_state :: hw_state where
  "tall_state = hw_boot\<lparr>blitter_shadow := (\<lambda>_. 0)(0x2F := 2, 0x31 := 158, 0x33 := 0x0F, 0x34 := 0x80, 0x37 := 2, 0x39 := 200)\<rparr>"

lemma tall_shadow: "blitter_shadow tall_state =
    (\<lambda>_. 0)(0x2F := 2, 0x31 := 158, 0x33 := 0x0F, 0x34 := 0x80, 0x37 := 2, 0x39 := 200)"
  by (simp add: tall_state_def)

lemma tall_range: "shadow_range tall_state = Some (0xF8000, 0xFFAD6)"
proof -
  have "blitter_shadow_l tall_state 0x32 = 0xF8000" "blitter_shadow_w tall_state 0x2E = 2" "blitter_shadow_w tall_state 0x30 = 158"
    "blitter_shadow_w tall_state 0x36 = 2" "blitter_shadow_w tall_state 0x38 = 200"
    by (simp_all add: blitter_shadow_l_def blitter_shadow_w_def tall_state_def)
  moreover have "sync_range 0xF8000 2 158 2 200 = Some (0xF8000, 0xFFAD6)"
    by (simp add: sync_range_def sync_offsets_def Let_def ST_RAM_SIZE_def)
  ultimately show ?thesis by (simp add: shadow_range_def)
qed

lemma tall_flat: "flat tall_state"
  by (simp add: flat_def tall_state_def hw_boot_def smc_state.extend_def boot_state_def)

theorem blitter_sync_bounds_witness:
  "\<forall>env. natmem_byte (blitter_sync_dest env tall_state) 0x100000 = natmem_byte tall_state 0x100000"
  using blitter_sync_bounds [OF tall_flat] by (simp add: tall_range)


text \<open>The copy back takes the Y increment for the distance between lines, but the chip adds it
  to the address of the last word of a line. For a blit of 200 lines of two words the rectangle of
  the same registers reaches beyond the range copied: its last word stays stale in the guest
  mirror, whatever the board's memory holds.\<close>

theorem blitter_sync_misses_lines:
  "let p = blit_geom tall_state (demo_blitter\<lparr>R := blitter_shadow tall_state\<rparr>) in
   dst_addr p 0xF8000 199 1 = 0xFFC62 \<and> 0xFFC62 \<in> blit_rect p 0xF8000 200 \<and>
   natmem_byte (blitter_sync_dest env tall_state) 0xFFC62 = natmem_byte tall_state 0xFFC62"
proof -
  let ?b = "demo_blitter\<lparr>R := blitter_shadow tall_state\<rparr>"
  let ?p = "blit_geom tall_state ?b"
  have tt: "\<not> blit_is_tt tall_state a" for a
    by (simp add: blit_is_tt_def tall_state_def hw_boot_def smc_state.extend_def boot_state_def)
  have p: "dmask ?p = 0x00FFFFFE" "xc ?p = 2" "dxi ?p = 2" "dyi ?p = 158"
    by (simp_all add: blit_geom_def blit_setup_def Let_def blit_addr_mask_def tt blit_rd16_def tall_shadow)
  then have d: "dst_addr ?p 0xF8000 199 1 = 0xFFC62" by (simp add: dst_addr_def walk_addr_def)
  moreover have "0xFFC62 \<in> blit_rect ?p 0xF8000 200"
    unfolding blit_rect_def using d p(2) by (intro CollectI exI [of _ 199] exI [of _ 1]) simp
  moreover have "natmem_byte (blitter_sync_dest env tall_state) 0xFFC62 = natmem_byte tall_state 0xFFC62"
    by (rule blitter_sync_dest_frame(2) [OF tall_flat tall_range]) simp
  ultimately show ?thesis by (simp add: Let_def)
qed

section \<open>The emulated page\<close>

text \<open>In emulation mode a word write with BUSY set starts the blit on the registers as they are
  after the write.\<close>

lemma blit_start_word:
  assumes "blitter_emulated s" "bit v 15" "\<not> blitter_hide_addr s 0x00FF8A3C"
  shows "hw_blitter_wput env now 0x00FF8A3C v s =
    (case blit_run env now (blit_sanitize (blit_put_bytes 0x3C v 2 (chip s)), s) of
       None \<Rightarrow> None | Some (b, t) \<Rightarrow> Some (Inr (), t\<lparr>chip := b\<rparr>))"
proof -
  have e: "(0x80 :: u8) = 2 ^ 7" by simp
  have "R (blit_put_bytes 0x3C v 2 (chip s)) 0x3C = ucast (drop_bit 8 v)"
    by (simp add: blit_put_bytes_def upt_rec)
  then have r: "R (blit_sanitize (blit_put_bytes 0x3C v 2 (chip s))) 0x3C = ucast (drop_bit 8 v) AND 0xEF"
    by (simp add: blit_sanitize_def and_reg_def)
  have "bit (ucast (drop_bit 8 v) AND 0xEF :: u8) 7"
    using assms(2) by (simp add: bit_and_iff bit_ucast_iff bit_drop_bit_eq)
  then have "R (blit_sanitize (blit_put_bytes 0x3C v 2 (chip s))) 0x3C AND 0x80 \<noteq> 0"
    unfolding r e and_exp_eq_0_iff_not_bit by simp
  then show ?thesis
    using assms(1,3) by (simp add: hw_blitter_wput_def hw_blitter_put_def st_blitter_reg_write_def hw_fold_addr_def Let_def)
qed


text \<open>C7: A guest that has set the registers for a copy between two rectangles of ST-RAM that do
  not meet, and then writes a word with BUSY to the control register, finds on return every word of
  the destination rectangle equal to what the source rectangle held before.\<close>

theorem guest_blit_copies:
  assumes "flat s" "blitter_emulated s" "bit v 15"
    and b: "b = blit_sanitize (blit_put_bytes 0x3C v 2 (chip s))" and "copy_ready s b"
  shows "\<exists>t. hw_blitter_wput env now 0x00FF8A3C v s = Some (Inr (), t) \<and>
    (\<forall>y < unat (blit_rd16 b 0x38). \<forall>x < unat (xc (blit_geom s b)).
       ram_word t (dst_addr (blit_geom s b) (blit_rd32 b 0x32) y x) =
       ram_word s (src_addr (blit_geom s b) (blit_rd32 b 0x24) y x))"
proof -
  have h: "\<not> blitter_hide_addr s 0x00FF8A3C" using assms(2) by (simp add: blitter_hide_addr_def blitter_emulated_def)
  have m: "ram_word (t\<lparr>chip := c\<rparr>) a = ram_word t a" for t :: "'a hw_state_scheme" and c a
    by (simp add: ram_word_def mem_view_gets(7) [of "t\<lparr>chip := c\<rparr>" t] mem_view_def)
  obtain b' t where "blit_run env now (b, s) = Some (b', t)"
    "\<forall>y < unat (blit_rd16 b 0x38). \<forall>x < unat (xc (blit_geom s b)).
       ram_word t (dst_addr (blit_geom s b) (blit_rd32 b 0x32) y x) =
       ram_word s (src_addr (blit_geom s b) (blit_rd32 b 0x24) y x)"
    using blit_run_copies [OF assms(1,5), of env now] by blast
  then show ?thesis using blit_start_word [OF assms(2,3) h, of env now] m by (simp add: b)
qed

text \<open>The example registers with the control byte still clear.\<close>

definition idle_state :: hw_state where
  "idle_state = hw_boot\<lparr>chip := demo_blitter\<lparr>R := (R demo_blitter)(0x3C := 0)\<rparr>\<rparr>"

lemma idle_started: "blit_sanitize (blit_put_bytes 0x3C 0x8000 2 (chip idle_state)) = demo_blitter"
proof -
  have "R (blit_put_bytes 0x3C 0x8000 2 (chip idle_state)) = R demo_blitter"
    by (rule ext) (simp add: blit_put_bytes_def upt_rec idle_state_def demo_blitter_def)
  then have "blit_put_bytes 0x3C 0x8000 2 (chip idle_state) = demo_blitter"
    by (simp add: blit_put_bytes_def upt_rec idle_state_def)
  moreover have "R (blit_sanitize demo_blitter) = R demo_blitter"
    by (rule ext) (simp add: blit_sanitize_def and_reg_def demo_blitter_def)
  moreover have "blit_sanitize c = c\<lparr>R := R (blit_sanitize c)\<rparr>" for c
    by (simp add: blit_sanitize_def and_reg_def)
  ultimately show ?thesis by (metis blitter.surjective blitter.update_convs(1))
qed


lemma blit_geom_cfg: "ram_cfg s = ram_cfg t \<Longrightarrow> blit_geom s b = blit_geom t b"
  by (simp add: blit_geom_def blit_setup_def blit_addr_mask_def blit_is_tt_def ram_cfg_def Let_def)

lemma copy_ready_cfg: "ram_cfg s = ram_cfg t \<Longrightarrow> copy_ready s b = copy_ready t b"
  using blit_geom_cfg [of s t b] by (simp add: copy_ready_def ram_cfg_def Let_def)

lemma idle_cfg: "ram_cfg idle_state = ram_cfg (boot_state boot_config)" "flat idle_state" "blitter_emulated idle_state"
  by (simp_all add: ram_cfg_def idle_state_def hw_boot_def smc_state.extend_def boot_state_def flat_def blitter_emulated_def)

theorem guest_blit_copies_witness:
  "\<forall>env now. \<exists>t. hw_blitter_wput env now 0x00FF8A3C 0x8000 idle_state = Some (Inr (), t) \<and>
     ram_word t 0x20A2 = ram_word idle_state 0x10A2"
proof (intro allI)
  fix env now
  have n: "unat (2 :: u16) = 2" "unat (2 :: u32) = 2" "(1::nat) < 2" by simp_all
  have g: "blit_geom idle_state demo_blitter = blit_geom (boot_state boot_config) demo_blitter"
    by (rule blit_geom_cfg [OF idle_cfg(1)])
  have x: "xc (blit_geom (boot_state boot_config) demo_blitter) = 2" by (simp add: demo_geom)
  have r: "copy_ready idle_state demo_blitter" using demo_copy_ready copy_ready_cfg [OF idle_cfg(1)] by blast
  have v: "bit (0x8000 :: u32) 15" by simp
  obtain t where "hw_blitter_wput env now 0x00FF8A3C 0x8000 idle_state = Some (Inr (), t)"
    "\<forall>y < 2. \<forall>x < 2. ram_word t (dst_addr (blit_geom (boot_state boot_config) demo_blitter) 0x2000 y x) =
       ram_word idle_state (src_addr (blit_geom (boot_state boot_config) demo_blitter) 0x1000 y x)"
    using guest_blit_copies [OF idle_cfg(2,3) v idle_started [symmetric] r, of env now]
    unfolding g demo_blitter_regs x n by auto
  then show "\<exists>t. hw_blitter_wput env now 0x00FF8A3C 0x8000 idle_state = Some (Inr (), t) \<and>
     ram_word t 0x20A2 = ram_word idle_state 0x10A2"
    using n(3) demo_addr [OF n(3,3)] by (metis one_neq_zero)
qed

end
