(* ===== verification/Mem_Init.thy ===== *)
theory Mem_Init
  imports Blitter_Page Guest_Ram
begin

text \<open>
  Setting up guest memory: \<open>jit_mem_init\<close> and \<open>pistorm_seed_reset_vector\<close> of
  \<open>pistorm_natmem.cpp\<close>, and the bank lookup of \<open>pistorm_stubs.cpp\<close>. What the host and the files
  decide is a record: the results of \<open>mmap\<close>, the ROM image and its addresses, the addresses of
  the graphics card.
\<close>

section \<open>Parameters and state\<close>

record init_env =
  ie_bus :: bus_env
  ie_natmem_mmap :: bool
  ie_fvdi_mmap :: bool
  ie_psv_mmap :: bool
  pistorm_rom_ptr :: "(nat \<Rightarrow> u8) option"
  pistorm_rom_start :: u32
  pistorm_rom_end :: u32
  et4k_vram_base :: u32
  et4k_io_base :: u32

text \<open>\<open>natmem_none\<close> lists the ranges made inaccessible with \<open>PROT_NONE\<close>.\<close>

record init_state = hw_state +
  pistorm_rom_size :: u32
  natmem_none :: "(u32 \<times> u32) list"
  psv_vram_ptr :: bool
  special_mem :: int

definition MEMORY_BANKS :: nat where [c_const]: "MEMORY_BANKS = 65536"
definition IO_IDE_BASE :: u32 where [c_const]: "IO_IDE_BASE = 0x00F00000"
definition IO_HW_BASE :: u32 where [c_const]: "IO_HW_BASE = 0x00FF8000"
definition VRAM_SIZE :: u32 where [c_const]: "VRAM_SIZE = 0x00100000"
definition VGA_IO_SIZE :: u32 where [c_const]: "VGA_IO_SIZE = 0x00100000"
definition FVDI_FB_BASE :: u32 where [c_const]: "FVDI_FB_BASE = 0x20000000"
definition FVDI_FB_MAX_BYTES :: u32 where [c_const]: "FVDI_FB_MAX_BYTES = 0x01000000"
definition PSV_LO_BASE :: u32 where [c_const]: "PSV_LO_BASE = 0xA0000000"
definition PSV_LO_SIZE :: u32 where [c_const]: "PSV_LO_SIZE = 0x01000000"
definition PSV_VRAM_BASE :: u32 where [c_const]: "PSV_VRAM_BASE = 0xA1000000"
definition PSV_VRAM_SIZE :: u32 where [c_const]: "PSV_VRAM_SIZE = 0x07000000"
definition PSV_SVREG_BASE :: u32 where [c_const]: "PSV_SVREG_BASE = 0x80010000"
definition PSV_SVREG_SIZE :: u32 where [c_const]: "PSV_SVREG_SIZE = 0x00010000"
definition GUARD_SIZE :: u32 where [c_const]: "GUARD_SIZE = 0x00040000"

definition GUARD_BASE :: "init_env \<Rightarrow> u32" where
  "GUARD_BASE ie = et4k_vram_base ie - GUARD_SIZE"

abbreviation map_words :: "u32 \<Rightarrow> u32 \<Rightarrow> bank \<Rightarrow> 'a bank_state_scheme \<Rightarrow> 'a bank_state_scheme" where
  "map_words start len b s \<equiv> map_region (unat start) (unat len) b s"

section \<open>The steps of \<open>jit_mem_init\<close>\<close>

text \<open>The graphics card: its windows become inaccessible in the mirror.\<close>

definition init_et4k :: "init_env \<Rightarrow> 'a init_state_scheme \<Rightarrow> 'a init_state_scheme" where
  "init_et4k ie s =
     (if cfg_et4k (config s)
      then s\<lparr>natmem_none := natmem_none s @ [(et4k_vram_base ie, VRAM_SIZE), (et4k_io_base ie, VGA_IO_SIZE)],
             bank_baseaddr := (bank_baseaddr s)(pistorm_vga_vram := None, pistorm_vga_io := Some (uint (et4k_io_base ie)))\<rparr>
      else s)"

definition init_baseaddrs :: "init_env \<Rightarrow> 'a init_state_scheme \<Rightarrow> 'a init_state_scheme" where
  "init_baseaddrs ie s =
     (let bb = (bank_baseaddr s)(pistorm_lowram_bank := Some 0, pistorm_dummy_bank := Some 0, pistorm_stram_bank := Some 0,
                pistorm_rom_bank := Some (uint (pistorm_rom_start ie)), pistorm_ide_bank := Some (uint IO_IDE_BASE),
                pistorm_io_bank := Some (uint IO_HW_BASE), pistorm_hw_bank := Some 0x00FF0000,
                pistorm_ttram_bank := Some (uint TT_RAM_BASE));
          bb = (if cfg_et4k (config s) then bb(pistorm_guard_bank := Some (uint (GUARD_BASE ie))) else bb)
      in s\<lparr>bank_baseaddr := bb\<rparr>)"

definition init_rom :: "init_env \<Rightarrow> 'a init_state_scheme \<Rightarrow> 'a init_state_scheme" where
  "init_rom ie s =
     (let sz = pistorm_rom_end ie - pistorm_rom_start ie; s1 = s\<lparr>pistorm_rom_size := sz\<rparr>
      in case pistorm_rom_ptr ie of
           None \<Rightarrow> s1
         | Some rom \<Rightarrow> natmem_store (pistorm_rom_start ie) (map rom [0..<unat sz]) s1)"

text \<open>The whole table on the bus, then ST-RAM with its direct window and the routing of a smaller
  board.\<close>

definition init_ram_banks :: "'a init_state_scheme \<Rightarrow> 'a init_state_scheme" where
  "init_ram_banks s =
     (let s1 = s\<lparr>mem_banks := (\<lambda>i. if i < MEMORY_BANKS then Some pistorm_dummy_bank else mem_banks s i)\<rparr>;
          s2 = map_words 0 GUEST_RESERVE pistorm_dummy_bank s1;
          s3 = map_words 0 ST_RAM_SIZE pistorm_stram_bank s2;
          s4 = (if cfg_stram_direct (config s3)
                then map_words STRAM_DIRECT_START (STRAM_DIRECT_END - STRAM_DIRECT_START) pistorm_lowram_bank s3 else s3)
      in stram_alias_apply_banks s4)"

text \<open>14 MB of ST-RAM for a Falcon.\<close>

definition falcon_14m :: "emu_config \<Rightarrow> bool" where
  "falcon_14m c \<longleftrightarrow>
     cfg_falcon_stram c > ST_RAM_SIZE \<and> cfg_machine_kind c = 3 \<and> \<not> cfg_et4k c \<and> cfg_stram_size c = 0"

definition init_stram_top :: "'a init_state_scheme \<Rightarrow> 'a init_state_scheme" where
  "init_stram_top s =
     (let s1 = s\<lparr>g_stram_top := ST_RAM_SIZE\<rparr> in
      if falcon_14m (config s)
      then map_words ST_RAM_SIZE (0x00E00000 - ST_RAM_SIZE) pistorm_lowram_bank (s1\<lparr>g_stram_top := 0x00E00000\<rparr>)
      else s1)"

definition init_video_banks :: "init_env \<Rightarrow> 'a init_state_scheme \<Rightarrow> 'a init_state_scheme" where
  "init_video_banks ie s =
     (let s1 = (if cfg_et4k (config s)
                then map_words (et4k_io_base ie) VGA_IO_SIZE pistorm_vga_io
                       (map_words (et4k_vram_base ie) VRAM_SIZE pistorm_vga_vram
                          (map_words (GUARD_BASE ie) GUARD_SIZE pistorm_guard_bank s))
                else s);
          s2 = map_words FVDI_FB_BASE FVDI_FB_MAX_BYTES pistorm_fvdi_bank s1
      in if cfg_psvidel (config s2) \<and> \<not> pistorm_addr24 s2 \<and> ie_psv_mmap ie
         then map_words PSV_SVREG_BASE PSV_SVREG_SIZE pistorm_psvreg_bank
                (map_words PSV_VRAM_BASE PSV_VRAM_SIZE pistorm_psvram_bank
                   (map_words PSV_LO_BASE PSV_LO_SIZE pistorm_psvlo_bank (s2\<lparr>psv_vram_ptr := True\<rparr>)))
         else s2)"

text \<open>The cartridge port: the magic decides whether its 128 KB are copied into the mirror. The two
  reads of the magic are taken in the order of the text.\<close>

fun cart_words :: "bus_env \<Rightarrow> nat \<Rightarrow> u32 \<Rightarrow> 'a stram_state_scheme \<Rightarrow> 'a stram_state_scheme" where
  "cart_words env 0 a s = s"
| "cart_words env (Suc n) a s =
     (let (v, s1) = ps_read_16 env a s
      in cart_words env n (a + 2)
           (mem_put_byte (Natmem (a + 1)) (ucast v) (mem_put_byte (Natmem a) (ucast (drop_bit 8 v)) s1)))"

definition init_cart :: "bus_env \<Rightarrow> 'a init_state_scheme \<Rightarrow> 'a init_state_scheme" where
  "init_cart env s =
     (if getenv_cart_off (config s) then s
      else
        (let (hi, s1) = ps_read_16 env 0x00FA0000 s; (lo, s2) = ps_read_16 env 0x00FA0002 s1;
             magic = push_bit 16 (ucast hi) OR ucast lo :: u32
         in if magic = 0xFA52235F \<or> magic = 0xABCDEF42
            then map_words 0x00FA0000 0x20000 pistorm_rom_bank (cart_words env 0x10000 0x00FA0000 s2)
            else s2))"

definition init_io_banks :: "'a init_state_scheme \<Rightarrow> 'a init_state_scheme" where
  "init_io_banks s =
     (let s1 = map_words 0xFFF00000 0x00100 pistorm_ide_bank (map_words 0x00F00000 0x00100 pistorm_ide_bank
                 (map_words 0xFFFF0000 0x10000 pistorm_hw_bank (map_words 0x00FF0000 0x10000 pistorm_hw_bank s)))
      in if tt_ram_available s1 then map_words TT_RAM_BASE (tt_ram_size s1) pistorm_ttram_bank s1 else s1)"

text \<open>The whole routine; \<open>None\<close> is \<open>abort()\<close>.\<close>

definition jit_mem_init :: "init_env \<Rightarrow> 'a init_state_scheme \<Rightarrow> 'a init_state_scheme option" where
  "jit_mem_init ie s =
     (if \<not> ie_natmem_mmap ie then None
      else case stram_alias_init (ie_bus ie) (s\<lparr>nm_anon := (\<lambda>_. 0), nm_page := (\<lambda>_. None)\<rparr>) of
             None \<Rightarrow> None
           | Some s1 \<Rightarrow>
               if \<not> ie_fvdi_mmap ie then None
               else
                 (let s2 = init_rom ie (init_baseaddrs ie (init_et4k ie s1));
                      s3 = init_video_banks ie (init_stram_top (init_ram_banks s2));
                      s4 = init_cart (ie_bus ie) (map_words (pistorm_rom_start ie) (pistorm_rom_size s3) pistorm_rom_bank s3)
                  in Some ((init_io_banks s4)\<lparr>special_mem := 0\<rparr>)))"

definition pistorm_seed_reset_vector :: "init_env \<Rightarrow> 'a init_state_scheme \<Rightarrow> 'a init_state_scheme" where
  "pistorm_seed_reset_vector ie s =
     natmem_store 0 (map (\<lambda>i. natmem_byte s (pistorm_rom_start ie + of_nat i)) [0..<8]) s"

section \<open>Bank lookup\<close>

definition pistorm_mem_addr :: "bool \<Rightarrow> u32 \<Rightarrow> u32" where
  "pistorm_mem_addr address_space_24 a = (if address_space_24 then a AND 0x00FFFFFF else a)"

definition get_mem_bank_real :: "bool \<Rightarrow> 'a bank_state_scheme \<Rightarrow> u32 \<Rightarrow> bank option" where
  "get_mem_bank_real as24 s a = mem_banks s (bankindex (unat (pistorm_mem_addr as24 a)))"


section \<open>The bank table\<close>

lemma map_region_slot: "mem_banks (map_region start len b s) p = mem_banks s p \<or> mem_banks (map_region start len b s) p = Some b"
  by (simp only: map_region_fold map_mirror_fold_banks split: if_split) simp

text \<open>Every slot is filled, none with the TT-RAM bank.\<close>

definition slots_ok :: "'a bank_state_scheme \<Rightarrow> bool" where
  "slots_ok s \<longleftrightarrow> (\<forall>p < 65536. \<exists>b. mem_banks s p = Some b \<and> b \<noteq> pistorm_ttram_bank)"

lemma slots_ok_fields [simp]: "slots_ok (s\<lparr>g_stram_top := x\<rparr>) = slots_ok s" "slots_ok (u\<lparr>psv_vram_ptr := y\<rparr>) = slots_ok u"
  by (simp_all add: slots_ok_def)

lemma slots_ok_map_region: "slots_ok s \<Longrightarrow> b \<noteq> pistorm_ttram_bank \<Longrightarrow> slots_ok (map_region start len b s)"
  unfolding slots_ok_def using map_region_slot [of start len b s] by metis

lemma slots_ok_apply_banks: "slots_ok s \<Longrightarrow> slots_ok (stram_alias_apply_banks s)"
  by (auto simp: stram_alias_apply_banks_def Let_def intro!: slots_ok_map_region)

lemma slots_ok_ram_banks: "slots_ok (init_ram_banks s)"
proof -
  have "slots_ok (s\<lparr>mem_banks := (\<lambda>i. if i < MEMORY_BANKS then Some pistorm_dummy_bank else mem_banks s i)\<rparr>)"
    by (simp add: slots_ok_def MEMORY_BANKS_def)
  then show ?thesis by (simp add: init_ram_banks_def Let_def slots_ok_map_region slots_ok_apply_banks)
qed

lemma slots_ok_stram_top: "slots_ok s \<Longrightarrow> slots_ok (init_stram_top s)"
  by (simp add: init_stram_top_def Let_def slots_ok_map_region)

lemma slots_ok_video_banks: "slots_ok s \<Longrightarrow> slots_ok (init_video_banks ie s)"
proof -
  assume s: "slots_ok s"
  let ?s = "map_words FVDI_FB_BASE FVDI_FB_MAX_BYTES pistorm_fvdi_bank (if cfg_et4k (config s)
      then map_words (et4k_io_base ie) VGA_IO_SIZE pistorm_vga_io (map_words (et4k_vram_base ie) VRAM_SIZE pistorm_vga_vram
        (map_words (GUARD_BASE ie) GUARD_SIZE pistorm_guard_bank s)) else s)"
  have "slots_ok ?s" using s by (simp add: slots_ok_map_region)
  then show ?thesis by (simp add: init_video_banks_def Let_def slots_ok_map_region)
qed

lemma mem_banks_read: "mem_banks (snd (ps_read_16 env a s)) = mem_banks s"
  by (simp add: ps_read_16_def ps_read_txn_def gpip7_filter_def gpip7_debounce_def latch_berr_def Let_def case_prod_unfold)

lemma mem_banks_put: "mem_banks (mem_put_byte p v s) = mem_banks s"
  by (simp add: mem_put_byte_def cell_put_def split: cell.split)

lemma mem_banks_cart_words: "mem_banks (cart_words env n a s) = mem_banks s"
  by (induction n arbitrary: a s) (simp_all add: mem_banks_put mem_banks_read case_prod_unfold Let_def)

lemma slots_ok_cart: "slots_ok s \<Longrightarrow> slots_ok (init_cart env s)"
proof -
  assume s: "slots_ok s"
  obtain hi s1 where r1: "ps_read_16 env 0x00FA0000 s = (hi, s1)" by fastforce
  obtain lo s2 where r2: "ps_read_16 env 0x00FA0002 s1 = (lo, s2)" by fastforce
  have "mem_banks s2 = mem_banks s"
    using mem_banks_read [of env "0x00FA0000" s] mem_banks_read [of env "0x00FA0002" s1] r1 r2 by simp
  then have "slots_ok s2" "slots_ok (cart_words env 0x10000 0x00FA0000 s2)"
    using s unfolding slots_ok_def mem_banks_cart_words by simp_all
  then show ?thesis using s by (simp add: init_cart_def r1 r2 Let_def slots_ok_map_region del: cart_words.simps)
qed

lemma jit_mem_init_io:
  assumes "jit_mem_init ie s = Some t"
  obtains u where "slots_ok u" "t = (init_io_banks u)\<lparr>special_mem := 0\<rparr>"
proof -
  obtain s1 where s1: "t = (init_io_banks (init_cart (ie_bus ie) (map_words (pistorm_rom_start ie)
      (pistorm_rom_size (init_video_banks ie (init_stram_top (init_ram_banks s1)))) pistorm_rom_bank
      (init_video_banks ie (init_stram_top (init_ram_banks s1))))))\<lparr>special_mem := 0\<rparr>"
    using assms by (auto simp: jit_mem_init_def Let_def split: option.splits if_splits)
  show thesis
    by (rule that [OF _ s1]) (intro slots_ok_cart slots_ok_map_region slots_ok_video_banks slots_ok_stram_top
        slots_ok_ram_banks, simp)
qed


text \<open>The last overlays: the hardware and IDE pages with their aliases, and TT-RAM.\<close>

lemma map_region_addr24 [simp]:
  "pistorm_addr24 (map_region start len b s) = pistorm_addr24 s"
  by (subst map_region_only) simp

lemma map_region_tt [simp]:
  "tt_ram_available (map_region start len b s) = tt_ram_available s"
  "tt_ram_size (map_region start len b s) = tt_ram_size s"
  by (subst map_region_only, simp)+

definition io_page :: "bool \<Rightarrow> nat \<Rightarrow> bank option" where
  "io_page a24 p =
     (if p = 0xFFF0 \<or> (if a24 then p mod 256 else p) = 0xF0 then Some pistorm_ide_bank
      else if p = 0xFFFF \<or> (if a24 then p mod 256 else p) = 0xFF then Some pistorm_hw_bank else None)"

lemma page_in_io:
  assumes "p < 65536"
  shows "page_in_region a24 0x00FF0000 0x10000 p \<longleftrightarrow> (if a24 then p mod 256 else p) = 0xFF"
    "page_in_region a24 0xFFFF0000 0x10000 p \<longleftrightarrow> p = 0xFFFF"
    "page_in_region a24 0x00F00000 0x00100 p \<longleftrightarrow> (if a24 then p mod 256 else p) = 0xF0"
    "page_in_region a24 0xFFF00000 0x00100 p \<longleftrightarrow> p = 0xFFF0"
  using assms by (auto simp: page_in_region_def Let_def)

lemma init_io_banks_slot:
  assumes "p < 65536" "unat (tt_ram_size s) \<le> 0x10000000"
  shows "mem_banks (init_io_banks s) p =
    (if tt_ram_available s \<and> page_in_region (pistorm_addr24 s) 0x01000000 (unat (tt_ram_size s)) p then Some pistorm_ttram_bank
     else case io_page (pistorm_addr24 s) p of Some b \<Rightarrow> Some b | None \<Rightarrow> mem_banks s p)"
proof -
  have p: "p < 2 ^ 16" using assms(1) by simp
  have al: "(2::nat) ^ 16 dvd 0x00FF0000" "(2::nat) ^ 16 dvd 0xFFFF0000" "(2::nat) ^ 16 dvd 0x00F00000" "(2::nat) ^ 16 dvd 0xFFF00000"
    "(2::nat) ^ 16 dvd 0x01000000" by simp_all
  have e: "(0x00FF0000::nat) + 0x10000 \<le> 2 ^ 32" "(0xFFFF0000::nat) + 0x10000 \<le> 2 ^ 32" "(0x00F00000::nat) + 0x00100 \<le> 2 ^ 32"
    "(0xFFF00000::nat) + 0x00100 \<le> 2 ^ 32" "(0x01000000::nat) + unat (tt_ram_size s) \<le> 2 ^ 32" using assms(2) by simp_all
  note m = map_region_banks [OF al(1) e(1) p] map_region_banks [OF al(2) e(2) p] map_region_banks [OF al(3) e(3) p]
    map_region_banks [OF al(4) e(4) p] map_region_banks [OF al(5) e(5) p]
  have "mem_banks (init_io_banks s) p =
    (if tt_ram_available s \<and> page_in_region (pistorm_addr24 s) 0x01000000 (unat (tt_ram_size s)) p then Some pistorm_ttram_bank
     else if page_in_region (pistorm_addr24 s) 0xFFF00000 0x00100 p then Some pistorm_ide_bank
     else if page_in_region (pistorm_addr24 s) 0x00F00000 0x00100 p then Some pistorm_ide_bank
     else if page_in_region (pistorm_addr24 s) 0xFFFF0000 0x10000 p then Some pistorm_hw_bank
     else if page_in_region (pistorm_addr24 s) 0x00FF0000 0x10000 p then Some pistorm_hw_bank else mem_banks s p)"
    by (simp add: init_io_banks_def Let_def TT_RAM_BASE_def m)
  then show ?thesis unfolding page_in_io [OF assms(1)] io_page_def by auto
qed

lemma init_io_banks_frame [simp]:
  "tt_ram_available (init_io_banks s) = tt_ram_available s" "tt_ram_size (init_io_banks s) = tt_ram_size s"
  "pistorm_addr24 (init_io_banks s) = pistorm_addr24 s"
  by (simp_all add: init_io_banks_def Let_def)

lemma tt_page_range:
  "page_in_region False 0x01000000 n p \<Longrightarrow> n \<le> 0x10000000 \<Longrightarrow> 0x100 \<le> p \<and> p < 0x1100"
  by (auto simp: page_in_region_def Let_def)

lemma jit_write_flag_iff: "\<not> jit_write_flag b \<longleftrightarrow> b = pistorm_ttram_bank"
  by (cases b) simp_all

text \<open>C16: After \<open>jit_mem_init\<close>, in every configuration (a machine with TT-RAM has a 32-bit map), each
  of the 65536 slots of the bank table is filled, so no access of the JIT or of the interpreter
  meets a missing bank; TT-RAM pages, and no others, may be written inline by translated code; and
  the hardware and IDE pages, with their aliases in a 32-bit map and in every mirror of a 24-bit
  one, are reached through their handlers.\<close>

theorem jit_mem_init_banks:
  assumes "jit_mem_init ie s = Some t" "unat (tt_ram_size t) \<le> 0x10000000" "pistorm_addr24 t \<Longrightarrow> \<not> tt_ram_available t"
  shows "(\<forall>p < 65536. \<exists>b. mem_banks t p = Some b \<and>
      (jit_write_flag b \<longleftrightarrow>
         \<not> (tt_ram_available t \<and> page_in_region (pistorm_addr24 t) 0x01000000 (unat (tt_ram_size t)) p)) \<and>
      (\<forall>c. io_page (pistorm_addr24 t) p = Some c \<longrightarrow> b = c)) \<and>
    (\<forall>as24 a. get_mem_bank_real as24 t a \<noteq> None)"
proof -
  obtain u where u: "slots_ok u" "t = (init_io_banks u)\<lparr>special_mem := 0\<rparr>"
    using jit_mem_init_io [OF assms(1)] by blast
  have f: "tt_ram_available t = tt_ram_available u" "tt_ram_size t = tt_ram_size u" "pistorm_addr24 t = pistorm_addr24 u"
    by (simp_all add: u(2))
  have slot: "mem_banks t p =
      (if tt_ram_available u \<and> page_in_region (pistorm_addr24 u) 0x01000000 (unat (tt_ram_size u)) p then Some pistorm_ttram_bank
       else case io_page (pistorm_addr24 u) p of Some b \<Rightarrow> Some b | None \<Rightarrow> mem_banks u p)" if "p < 65536" for p
    using init_io_banks_slot [OF that, of u] assms(2) f(2) by (simp add: u(2))
  have main: "\<exists>b. mem_banks t p = Some b \<and>
      (jit_write_flag b \<longleftrightarrow> \<not> (tt_ram_available t \<and> page_in_region (pistorm_addr24 t) 0x01000000 (unat (tt_ram_size t)) p)) \<and>
      (\<forall>c. io_page (pistorm_addr24 t) p = Some c \<longrightarrow> b = c)" if p: "p < 65536" for p
  proof (cases "tt_ram_available u \<and> page_in_region (pistorm_addr24 u) 0x01000000 (unat (tt_ram_size u)) p")
    case True
    then have "\<not> pistorm_addr24 u" using assms(3) f by auto
    then have "0x100 \<le> p \<and> p < 0x1100" using True tt_page_range [of "unat (tt_ram_size u)" p] assms(2) f by simp
    then have "io_page (pistorm_addr24 u) p = None" using \<open>\<not> pistorm_addr24 u\<close> by (auto simp: io_page_def)
    then show ?thesis using True slot [OF p] f by (simp add: jit_write_flag_iff)
  next
    case False
    obtain b where "mem_banks u p = Some b" "b \<noteq> pistorm_ttram_bank" using u(1) p by (auto simp: slots_ok_def)
    moreover have "io_page (pistorm_addr24 u) p \<noteq> Some pistorm_ttram_bank" by (auto simp: io_page_def)
    ultimately show ?thesis
      using False slot [OF p] f jit_write_flag_iff by (cases "io_page (pistorm_addr24 u) p") auto
  qed
  have "get_mem_bank_real as24 t a \<noteq> None" for as24 a
  proof -
    have "bankindex (unat (pistorm_mem_addr as24 a)) < 65536" by (simp add: bankindex_def less_mult_imp_div_less)
    then show ?thesis using main unfolding get_mem_bank_real_def by force
  qed
  with main show ?thesis by blast
qed


section \<open>Memory after the set-up\<close>

text \<open>What the routing steps leave alone.\<close>

definition cfg_view where
  "cfg_view s = (config s, tt_ram_available s, tt_ram_size s, pistorm_addr24 s)"

definition ram_view where
  "ram_view s = (alias_view s, nm_anon s, cfg_view s, g_stram_top s)"

lemma ram_view_tables: "tables_only s t \<Longrightarrow> ram_view t = ram_view s"
  by (auto simp: tables_only_def ram_view_def alias_view_def cfg_view_def)

lemma ram_view_map_region [simp]: "ram_view (map_region start len b s) = ram_view s"
  by (rule ram_view_tables) (rule tables_only_map_region [OF tables_only_refl])

lemma ram_view_apply_banks [simp]: "ram_view (stram_alias_apply_banks s) = ram_view s"
  by (rule ram_view_tables) (rule tables_only_apply_banks)

lemma ram_view_fields [simp]:
  "ram_view (s\<lparr>psv_vram_ptr := x\<rparr>) = ram_view s" "ram_view (s\<lparr>special_mem := y\<rparr>) = ram_view s"
  "ram_view (u\<lparr>mem_banks := m\<rparr>) = ram_view u"
  by (simp_all add: ram_view_def alias_view_def cfg_view_def)

lemma ram_view_steps [simp]:
  "ram_view (init_ram_banks s) = ram_view s" "ram_view (init_video_banks ie s) = ram_view s"
  "ram_view (init_io_banks s) = ram_view s"
  by (simp_all add: init_ram_banks_def init_video_banks_def init_io_banks_def Let_def)

lemma ram_view_stram_top:
  "alias_view (init_stram_top s) = alias_view s" "nm_anon (init_stram_top s) = nm_anon s" "cfg_view (init_stram_top s) = cfg_view s"
  "g_stram_top (init_stram_top s) = (if falcon_14m (config s) then 0x00E00000 else 0x00400000)"
proof -
  have "ram_view (init_stram_top s) =
      (alias_view s, nm_anon s, cfg_view s, if falcon_14m (config s) then 0x00E00000 else 0x00400000)"
    by (auto simp: init_stram_top_def Let_def ST_RAM_SIZE_def) (simp_all add: ram_view_def alias_view_def cfg_view_def)
  then show "alias_view (init_stram_top s) = alias_view s" "nm_anon (init_stram_top s) = nm_anon s"
    "cfg_view (init_stram_top s) = cfg_view s"
    "g_stram_top (init_stram_top s) = (if falcon_14m (config s) then 0x00E00000 else 0x00400000)"
    by (simp_all add: ram_view_def)
qed

text \<open>The cartridge snapshot writes its 128 KB only.\<close>

lemma cfg_read: "cfg_view (snd (ps_read_16 env a s)) = cfg_view s" "g_stram_top (snd (ps_read_16 env a u)) = g_stram_top u"
  by (simp_all add: ps_read_16_def ps_read_txn_def gpip7_filter_def gpip7_debounce_def latch_berr_def cfg_view_def Let_def case_prod_unfold)

lemma cfg_put: "cfg_view (mem_put_byte p v s) = cfg_view s" "g_stram_top (mem_put_byte p v u) = g_stram_top u"
  by (simp_all add: mem_put_byte_def cell_put_def cfg_view_def split: cell.split)

lemma cart_words_cfg:
  "alias_view (cart_words env n a s) = alias_view s \<and> cfg_view (cart_words env n a s) = cfg_view s \<and>
   g_stram_top (cart_words env n a s) = g_stram_top s" for s :: "'a smc_state_scheme"
proof (induction n arbitrary: a s)
  case (Suc n)
  then show ?case
    using alias_view_read [of env a s] by (simp add: case_prod_unfold Let_def cfg_read cfg_put)
qed simp

lemma cart_words_keeps:
  assumes "flat s" "unat a + 2 * n < 2 ^ 32" "unat x < unat a \<or> unat a + 2 * n \<le> unat x"
  shows "nm_anon (cart_words env n a s) x = nm_anon s x"
  using assms
proof (induction n arbitrary: a s)
  case (Suc n)
  obtain w s1 where r: "ps_read_16 env a s = (w, s1)" by fastforce
  have fl: "flat s1" and an: "nm_anon s1 = nm_anon s"
    using ps_read_16_keeps [OF r] flat_alias_view [of s1 s] mem_view_fields(1) [of s1 s] Suc.prems(1) by simp_all
  let ?t = "s1\<lparr>nm_anon := (nm_anon s)(a := ucast (drop_bit 8 w), a + 1 := ucast w)\<rparr>"
  have t: "mem_put_byte (Natmem (a + 1)) (ucast w) (mem_put_byte (Natmem a) (ucast (drop_bit 8 w)) s1) = ?t"
    using fl by (simp add: put_byte_flat an)
  have u: "unat (a + 1) = unat a + 1" "unat (a + 2) = unat a + 2" using Suc.prems(2) by (simp_all add: unat_add_small)
  have "nm_anon (cart_words env n (a + 2) ?t) x = nm_anon ?t x"
    using Suc.prems fl u by (intro Suc.IH) auto
  moreover have "nm_anon ?t x = nm_anon s x" using Suc.prems(3) u by auto
  ultimately show ?case by (simp add: r t)
qed simp


lemma init_cart_keeps:
  "alias_view (init_cart env s) = alias_view s" "cfg_view (init_cart env s) = cfg_view s"
  "g_stram_top (init_cart env s) = g_stram_top s"
  "flat s \<Longrightarrow> unat x < 0x00FA0000 \<or> 0x00FC0000 \<le> unat x \<Longrightarrow> nm_anon (init_cart env s) x = nm_anon s x"
proof -
  obtain hi s1 where r1: "ps_read_16 env 0x00FA0000 s = (hi, s1)" by fastforce
  obtain lo s2 where r2: "ps_read_16 env 0x00FA0002 s1 = (lo, s2)" by fastforce
  let ?c = "cart_words env 0x10000 0x00FA0000 s2"
  let ?m = "map_words 0x00FA0000 0x20000 pistorm_rom_bank ?c"
  have s2: "mem_view s2 = mem_view s" "alias_view s2 = alias_view s" "cfg_view s2 = cfg_view s" "g_stram_top s2 = g_stram_top s"
    using ps_read_16_keeps [OF r1] ps_read_16_keeps [OF r2] r1 r2 cfg_read [of env "0x00FA0000" s] cfg_read [of env "0x00FA0002" s1]
    by simp_all
  have m: "alias_view ?m = alias_view s" "nm_anon ?m = nm_anon ?c" "cfg_view ?m = cfg_view s" "g_stram_top ?m = g_stram_top s"
    using ram_view_map_region [of "unat (0x00FA0000 :: u32)" "unat (0x20000 :: u32)" pistorm_rom_bank ?c]
      cart_words_cfg [of env "0x10000" "0x00FA0000" s2] s2
    by (simp_all add: ram_view_def del: cart_words.simps ram_view_map_region)
  have c: "init_cart env s = s \<or> init_cart env s = s2 \<or> init_cart env s = ?m"
    by (simp add: init_cart_def r1 r2 Let_def del: cart_words.simps)
  show "alias_view (init_cart env s) = alias_view s" "cfg_view (init_cart env s) = cfg_view s"
    "g_stram_top (init_cart env s) = g_stram_top s"
    using c m s2 by auto
  assume fl: "flat s" and x: "unat x < 0x00FA0000 \<or> 0x00FC0000 \<le> unat x"
  have "nm_anon s2 = nm_anon s" using s2(1) by (rule mem_view_fields)
  moreover have "nm_anon ?c x = nm_anon s2 x"
    using fl flat_alias_view [OF s2(2)] x by (intro cart_words_keeps) auto
  ultimately show "nm_anon (init_cart env s) x = nm_anon s x" using c m(2) by auto
qed

lemma init_rom_flat:
  assumes "flat s" "pistorm_rom_ptr ie = Some rom" "unat (pistorm_rom_start ie) + n < 2 ^ 32"
    "n = unat (pistorm_rom_end ie - pistorm_rom_start ie)"
  shows "nm_anon (init_rom ie s) = put_bytes (pistorm_rom_start ie) (map rom [0..<n]) (nm_anon s)"
proof -
  let ?s = "s\<lparr>pistorm_rom_size := pistorm_rom_end ie - pistorm_rom_start ie\<rparr>"
  have "flat ?s" using assms(1) by (simp add: flat_def)
  then have "natmem_store (pistorm_rom_start ie) (map rom [0..<n]) ?s =
      ?s\<lparr>nm_anon := put_bytes (pistorm_rom_start ie) (map rom [0..<n]) (nm_anon ?s)\<rparr>"
    by (rule natmem_store_flat) (use assms(3) in simp)
  then show ?thesis using assms(2,4) by (simp add: init_rom_def Let_def)
qed

lemma cfg_view_natmem_store: "cfg_view (natmem_store a bs s) = cfg_view s"
  by (induction bs arbitrary: a s) (simp_all add: cfg_put)

lemma init_early:
  "alias_view (init_rom ie s) = alias_view s" "cfg_view (init_rom ie s) = cfg_view s"
  "alias_view (init_baseaddrs ie s) = alias_view s" "cfg_view (init_baseaddrs ie s) = cfg_view s"
  "nm_anon (init_baseaddrs ie s) = nm_anon s"
  "alias_view (init_et4k ie s) = alias_view s" "cfg_view (init_et4k ie s) = cfg_view s" "nm_anon (init_et4k ie s) = nm_anon s"
proof -
  have "alias_view (s\<lparr>pistorm_rom_size := x\<rparr>) = alias_view s" for x by (simp add: alias_view_def)
  then show "alias_view (init_rom ie s) = alias_view s" by (simp add: init_rom_def Let_def split: option.split)
  have "cfg_view (s\<lparr>pistorm_rom_size := x\<rparr>) = cfg_view s" for x by (simp add: cfg_view_def)
  then show "cfg_view (init_rom ie s) = cfg_view s"
    by (simp add: init_rom_def Let_def cfg_view_natmem_store split: option.split)
  show "alias_view (init_baseaddrs ie s) = alias_view s" "cfg_view (init_baseaddrs ie s) = cfg_view s"
    "nm_anon (init_baseaddrs ie s) = nm_anon s"
    by (simp_all add: init_baseaddrs_def Let_def alias_view_def cfg_view_def)
  show "alias_view (init_et4k ie s) = alias_view s" "cfg_view (init_et4k ie s) = cfg_view s" "nm_anon (init_et4k ie s) = nm_anon s"
    by (simp_all add: init_et4k_def alias_view_def cfg_view_def)
qed

text \<open>The stages of a successful set-up.\<close>

lemma jit_mem_init_stages:
  assumes "jit_mem_init ie s = Some t"
  obtains s1 where "stram_alias_init (ie_bus ie) (s\<lparr>nm_anon := (\<lambda>_. 0), nm_page := (\<lambda>_. None)\<rparr>) = Some s1"
    "alias_view t = alias_view s1" "cfg_view t = cfg_view s1"
    "g_stram_top t = (if falcon_14m (config s1) then 0x00E00000 else 0x00400000)"
    "\<And>x. flat s1 \<Longrightarrow> unat x < 0x00FA0000 \<or> 0x00FC0000 \<le> unat x \<Longrightarrow>
       nm_anon t x = nm_anon (init_rom ie (init_baseaddrs ie (init_et4k ie s1))) x"
proof -
  obtain s1 where i: "stram_alias_init (ie_bus ie) (s\<lparr>nm_anon := (\<lambda>_. 0), nm_page := (\<lambda>_. None)\<rparr>) = Some s1"
    using assms by (auto simp: jit_mem_init_def split: option.splits if_splits)
  let ?r = "init_rom ie (init_baseaddrs ie (init_et4k ie s1))"
  let ?v = "init_video_banks ie (init_stram_top (init_ram_banks ?r))"
  let ?m = "map_words (pistorm_rom_start ie) (pistorm_rom_size ?v) pistorm_rom_bank ?v"
  have t: "t = (init_io_banks (init_cart (ie_bus ie) ?m))\<lparr>special_mem := 0\<rparr>"
    using assms i by (simp add: jit_mem_init_def Let_def split: if_splits)
  have "ram_view ?m = ram_view (init_stram_top (init_ram_banks ?r))" by simp
  then have m: "alias_view ?m = alias_view (init_stram_top (init_ram_banks ?r))" "nm_anon ?m = nm_anon (init_stram_top (init_ram_banks ?r))"
    "cfg_view ?m = cfg_view (init_stram_top (init_ram_banks ?r))" "g_stram_top ?m = g_stram_top (init_stram_top (init_ram_banks ?r))"
    by (simp_all add: ram_view_def)
  have "ram_view (init_ram_banks ?r) = ram_view ?r" by simp
  then have r: "alias_view (init_ram_banks ?r) = alias_view s1" "nm_anon (init_ram_banks ?r) = nm_anon ?r"
    "cfg_view (init_ram_banks ?r) = cfg_view s1"
    by (simp_all add: ram_view_def init_early)
  have c0: "config (init_ram_banks ?r) = config s1" using r(3) by (simp add: cfg_view_def)
  have mm: "alias_view ?m = alias_view s1" "nm_anon ?m = nm_anon ?r" "cfg_view ?m = cfg_view s1"
    "g_stram_top ?m = (if falcon_14m (config s1) then 0x00E00000 else 0x00400000)"
    using m r c0 by (simp_all add: ram_view_stram_top)
  have "ram_view t = ram_view (init_cart (ie_bus ie) ?m)" by (simp add: t)
  then have c: "alias_view t = alias_view (init_cart (ie_bus ie) ?m)" "nm_anon t = nm_anon (init_cart (ie_bus ie) ?m)"
    "cfg_view t = cfg_view (init_cart (ie_bus ie) ?m)" "g_stram_top t = g_stram_top (init_cart (ie_bus ie) ?m)"
    by (simp_all add: ram_view_def)
  show thesis
  proof (rule that [OF i])
    show "alias_view t = alias_view s1" "cfg_view t = cfg_view s1"
      "g_stram_top t = (if falcon_14m (config s1) then 0x00E00000 else 0x00400000)"
      using c mm init_cart_keeps(1-3) [of "ie_bus ie" ?m] by simp_all
    fix x :: u32 assume "flat s1" "unat x < 0x00FA0000 \<or> 0x00FC0000 \<le> unat x"
    then show "nm_anon t x = nm_anon ?r x"
      using c mm init_cart_keeps(4) [of ?m x "ie_bus ie"] flat_alias_view [OF mm(1)] by simp
  qed
qed


lemma seed_vector:
  assumes "flat s"
  shows "i < 8 \<Longrightarrow> natmem_byte (pistorm_seed_reset_vector ie s) (of_nat i) = natmem_byte s (pistorm_rom_start ie + of_nat i)"
proof -
  assume i: "i < 8"
  let ?bs = "map (\<lambda>i. natmem_byte s (pistorm_rom_start ie + of_nat i)) [0..<8]"
  have s: "pistorm_seed_reset_vector ie s = s\<lparr>nm_anon := put_bytes 0 ?bs (nm_anon s)\<rparr>"
    unfolding pistorm_seed_reset_vector_def by (rule natmem_store_flat [OF assms]) simp
  have "unat (of_nat i :: u32) = i" using i by (simp add: unat_of_nat)
  then have "put_bytes 0 ?bs (nm_anon s) (of_nat i) = ?bs ! i" using i by (simp add: put_bytes_def)
  also have "\<dots> = natmem_byte s (pistorm_rom_start ie + of_nat i)" using i by simp
  finally show ?thesis using assms by (simp add: s natmem_byte_flat)
qed

text \<open>Where a ROM may lie: not across the cartridge port.\<close>

definition rom_fits :: "init_env \<Rightarrow> bool" where
  "rom_fits ie \<longleftrightarrow>
     unat (pistorm_rom_start ie) + 8 \<le> unat (pistorm_rom_end ie) \<and>
     (unat (pistorm_rom_end ie) \<le> 0x00FA0000 \<or> 0x00FC0000 \<le> unat (pistorm_rom_start ie)) \<and>
     unat (pistorm_rom_end ie) \<le> 0x01000000"

text \<open>The bytes of the ROM image, which lies outside the cartridge port.\<close>

lemma rom_fits_addr:
  assumes f: "rom_fits ie" and k: "k < unat (pistorm_rom_end ie) - unat (pistorm_rom_start ie)"
  defines "a \<equiv> pistorm_rom_start ie + of_nat k"
  shows "unat a = unat (pistorm_rom_start ie) + k" "unat a < 0x00FA0000 \<or> 0x00FC0000 \<le> unat a"
proof -
  have "k < 2 ^ 32" using f k by (auto simp: rom_fits_def)
  then have "unat (of_nat k :: u32) = k" by (simp add: unat_of_nat)
  then show "unat a = unat (pistorm_rom_start ie) + k"
    using f k unfolding a_def by (subst unat_add_small) (auto simp: rom_fits_def)
  then show "unat a < 0x00FA0000 \<or> 0x00FC0000 \<le> unat a" using f k unfolding rom_fits_def by linarith
qed

lemma init_rom_byte:
  assumes "flat s" and p: "pistorm_rom_ptr ie = Some rom" and f: "rom_fits ie"
    and k: "k < unat (pistorm_rom_end ie) - unat (pistorm_rom_start ie)"
  shows "nm_anon (init_rom ie (init_baseaddrs ie (init_et4k ie s))) (pistorm_rom_start ie + of_nat k) = rom k"
proof -
  let ?n = "unat (pistorm_rom_end ie - pistorm_rom_start ie)"
  have n: "?n = unat (pistorm_rom_end ie) - unat (pistorm_rom_start ie)"
    using f by (intro unat_sub) (simp add: rom_fits_def word_le_nat_alt)
  have "flat (init_baseaddrs ie (init_et4k ie s))" using assms(1) flat_alias_view init_early by metis
  then have "nm_anon (init_rom ie (init_baseaddrs ie (init_et4k ie s))) =
      put_bytes (pistorm_rom_start ie) (map rom [0..<?n]) (nm_anon s)"
    using init_rom_flat [of "init_baseaddrs ie (init_et4k ie s)" ie rom ?n] p n f by (simp add: init_early rom_fits_def)
  moreover have "unat (pistorm_rom_start ie) + k < unat (pistorm_rom_end ie)" using k by linarith
  ultimately show ?thesis using rom_fits_addr(1) [OF f k] n by (simp add: put_bytes_def)
qed

text \<open>C20: After \<open>jit_mem_init\<close> from power-up the bank-aliasing invariant holds and ST-RAM is 4 MB,
  or 14 MB for a Falcon configuration without ET4000 and without \<open>stram_size\<close>. Without
  \<open>stram_size\<close>, memory is flat and holds the ROM image at the ROM's address, whatever a cartridge
  or the other windows are mapped to, and seeding the reset vector puts the ROM's first two longs
  at address 0.\<close>

theorem jit_mem_init_memory:
  assumes "jit_mem_init ie s = Some t" "\<not> g_stram_alias s" "\<not> g_stram_fold_hook s"
  shows "stram_inv t \<and>
    g_stram_top t = (if falcon_14m (config t) then 0x00E00000 else 0x00400000) \<and>
    (cfg_stram_size (config s) = 0 \<longrightarrow> flat t \<and>
      (\<forall>rom. pistorm_rom_ptr ie = Some rom \<longrightarrow> rom_fits ie \<longrightarrow>
        (\<forall>i < unat (pistorm_rom_end ie) - unat (pistorm_rom_start ie).
           natmem_byte t (pistorm_rom_start ie + of_nat i) = rom i) \<and>
        (\<forall>i < 8. natmem_byte (pistorm_seed_reset_vector ie t) (of_nat i) = rom i)))"
proof -
  let ?s = "s\<lparr>nm_anon := (\<lambda>_. 0), nm_page := (\<lambda>_. None)\<rparr>"
  obtain s1 where i: "stram_alias_init (ie_bus ie) ?s = Some s1" and v: "alias_view t = alias_view s1" "cfg_view t = cfg_view s1"
    "g_stram_top t = (if falcon_14m (config s1) then 0x00E00000 else 0x00400000)"
    and x: "\<And>x. flat s1 \<Longrightarrow> unat x < 0x00FA0000 \<or> 0x00FC0000 \<le> unat x \<Longrightarrow>
       nm_anon t x = nm_anon (init_rom ie (init_baseaddrs ie (init_et4k ie s1))) x"
    using jit_mem_init_stages [OF assms(1)] by blast
  have "stram_start s1"
    unfolding stram_start_def using i assms(2,3) by (intro exI [of _ "ie_bus ie"] exI [of _ ?s]) simp
  then have inv: "stram_inv t" using stram_inv_alias_view [OF v(1)] stram_start_inv by blast
  have flat: "flat s1" "flat t" if "cfg_stram_size (config s) = 0"
  proof -
    have "s1 = ?s" using i that by (simp add: stram_alias_init_def)
    then show "flat s1" using assms(2,3) by (simp add: flat_def)
    then show "flat t" using flat_alias_view [OF v(1)] by simp
  qed
  have rom: "natmem_byte t (pistorm_rom_start ie + of_nat k) = rom k"
    if c: "cfg_stram_size (config s) = 0" and "pistorm_rom_ptr ie = Some rom" "rom_fits ie"
      "k < unat (pistorm_rom_end ie) - unat (pistorm_rom_start ie)" for rom k
    using init_rom_byte [OF flat(1) [OF c] that(2-4)] rom_fits_addr [OF that(3,4)] x [OF flat(1) [OF c]]
      natmem_byte_flat [OF flat(2) [OF c]] by simp
  have "natmem_byte (pistorm_seed_reset_vector ie t) (of_nat k) = rom k"
    if "cfg_stram_size (config s) = 0" "pistorm_rom_ptr ie = Some rom" "rom_fits ie" "k < 8" for rom k
  proof -
    have "k < unat (pistorm_rom_end ie) - unat (pistorm_rom_start ie)" using that(3,4) unfolding rom_fits_def by linarith
    then show ?thesis using seed_vector [OF flat(2) [OF that(1)] that(4), of ie] rom [OF that(1-3), of k] by simp
  qed
  moreover have "config t = config s1" using v(2) by (simp add: cfg_view_def)
  ultimately show ?thesis using inv v(3) flat rom by auto
qed


section \<open>A machine that boots\<close>

definition init_boot :: "emu_config \<Rightarrow> init_state" where
  "init_boot c = hw_state.extend (smc_state.extend (boot_state c)
     \<lparr>pistorm_dm_berr_addr = 0, pistorm_dm_berr_count = 0, mfp_gpip_berr_retries = 0, pistorm_blitter_real_bus = False,
      pistorm_blitter_mode = 2, blitter_shadow = (\<lambda>_. 0), chip = demo_blitter\<rparr>)
     \<lparr>pistorm_rom_size = 0, natmem_none = [], psv_vram_ptr = False, special_mem = 0\<rparr>"

definition demo_init :: init_env where
  "demo_init = \<lparr>ie_bus = flaky_env, ie_natmem_mmap = True, ie_fvdi_mmap = True, ie_psv_mmap = True,
     pistorm_rom_ptr = Some (\<lambda>i. of_nat (i mod 251)), pistorm_rom_start = 0x00FC0000, pistorm_rom_end = 0x00FF0000,
     et4k_vram_base = 0, et4k_io_base = 0\<rparr>"

lemma demo_init_runs: "\<exists>t. jit_mem_init demo_init (init_boot boot_config) = Some t"
proof -
  have "cfg_stram_size (config (init_boot boot_config)) = 0"
    by (simp add: init_boot_def hw_state.extend_def smc_state.extend_def boot_state_def boot_config_def)
  then show ?thesis by (simp add: jit_mem_init_def stram_alias_init_def demo_init_def Let_def)
qed


lemma demo_init_cfg:
  assumes "jit_mem_init demo_init (init_boot boot_config) = Some t"
  shows "tt_ram_size t = 0" "\<not> pistorm_addr24 t"
proof -
  let ?s = "(init_boot boot_config)\<lparr>nm_anon := (\<lambda>_. 0), nm_page := (\<lambda>_. None)\<rparr>"
  obtain s1 where i: "stram_alias_init (ie_bus demo_init) ?s = Some s1" and c: "cfg_view t = cfg_view s1"
    using jit_mem_init_stages [OF assms] by blast
  have "cfg_stram_size (config (init_boot boot_config)) = 0"
    by (simp add: init_boot_def hw_state.extend_def smc_state.extend_def boot_state_def boot_config_def)
  then have "s1 = ?s" using i by (simp add: stram_alias_init_def)
  then show "tt_ram_size t = 0" "\<not> pistorm_addr24 t"
    using c by (simp_all add: cfg_view_def init_boot_def hw_state.extend_def smc_state.extend_def boot_state_def)
qed

theorem jit_mem_init_banks_witness:
  "\<exists>t. jit_mem_init demo_init (init_boot boot_config) = Some t \<and> (\<forall>p < 65536. \<exists>b. mem_banks t p = Some b)"
proof -
  obtain t where t: "jit_mem_init demo_init (init_boot boot_config) = Some t" using demo_init_runs by blast
  have "unat (tt_ram_size t) \<le> 0x10000000" "pistorm_addr24 t \<Longrightarrow> \<not> tt_ram_available t"
    using demo_init_cfg [OF t] by simp_all
  from jit_mem_init_banks [OF t this] t show ?thesis by blast
qed

theorem jit_mem_init_memory_witness:
  "\<exists>t. jit_mem_init demo_init (init_boot boot_config) = Some t \<and> stram_inv t \<and> natmem_byte t 0x00FC0101 = 6"
proof -
  obtain t where t: "jit_mem_init demo_init (init_boot boot_config) = Some t" using demo_init_runs by blast
  have b: "\<not> g_stram_alias (init_boot boot_config)" "\<not> g_stram_fold_hook (init_boot boot_config)"
    "cfg_stram_size (config (init_boot boot_config)) = 0"
    by (simp_all add: init_boot_def hw_state.extend_def smc_state.extend_def boot_state_def boot_config_def)
  have r: "rom_fits demo_init" "pistorm_rom_ptr demo_init = Some (\<lambda>i. of_nat (i mod 251))" "pistorm_rom_start demo_init = 0x00FC0000"
    by (simp_all add: rom_fits_def demo_init_def)
  have n: "257 < unat (pistorm_rom_end demo_init) - unat (pistorm_rom_start demo_init)" by (simp add: demo_init_def)
  note m = jit_mem_init_memory [OF t b(1,2)]
  then have "natmem_byte t (pistorm_rom_start demo_init + of_nat 257) = of_nat (257 mod 251)" using b(3) r n by blast
  then show ?thesis using m t by (simp add: r(3))
qed

end
