(* ===== verification/Mfp_Hub.thy ===== *)
theory Mfp_Hub
  imports Prelude
begin

text \<open>
  The virtual interrupt controller (\<open>platforms/atari/mfp_hub.c\<close>): shadows of the guest's MFP
  registers, pending and in-service latches of the virtual channels, arbitration and interrupt
  acknowledge, and Timer A in event-count mode. The C11 atomics are plain fields and every function
  is one step. A level source is a function pointer; what the functions return when they are called
  is the argument \<open>line\<close>. The trace output is left out.
\<close>

section \<open>State\<close>

type_synonym poll = nat

record mfp_hub =
  g_ier :: u16
  g_imr :: u16
  g_vpend :: u16
  g_visr :: u16
  g_vr :: u8
  g_tacr :: u8
  g_tadr :: u32
  g_tacnt :: u32
  g_level_poll :: "nat \<Rightarrow> poll option"
  g_iacks :: "nat \<Rightarrow> u32"
  kbd_iack_notes :: nat

definition hub_boot :: mfp_hub where
  "hub_boot = \<lparr>g_ier = 0xFFFF, g_imr = 0xFFFF, g_vpend = 0, g_visr = 0, g_vr = 0x48, g_tacr = 0,
     g_tadr = 256, g_tacnt = 256, g_level_poll = (\<lambda>_. None), g_iacks = (\<lambda>_. 0), kbd_iack_notes = 0\<rparr>"

definition mfp_hub_register_level :: "int \<Rightarrow> poll option \<Rightarrow> mfp_hub \<Rightarrow> mfp_hub" where
  "mfp_hub_register_level ch p h =
     (if ch \<ge> 0 \<and> ch < 16 then h\<lparr>g_level_poll := (g_level_poll h)(nat ch := p)\<rparr> else h)"

section \<open>Guest writes\<close>

definition reg_write :: "u32 \<Rightarrow> u8 \<Rightarrow> mfp_hub \<Rightarrow> mfp_hub" where
  "reg_write a b h =
     (if a = 0x00FFFA07 then
        (let ier = (g_ier h AND 0x00FF) OR push_bit 8 (ucast b) in h\<lparr>g_ier := ier, g_vpend := g_vpend h AND ier\<rparr>)
      else if a = 0x00FFFA09 then
        (let ier = (g_ier h AND 0xFF00) OR ucast b in h\<lparr>g_ier := ier, g_vpend := g_vpend h AND ier\<rparr>)
      else if a = 0x00FFFA0B then h\<lparr>g_vpend := g_vpend h AND (push_bit 8 (ucast b) OR 0x00FF)\<rparr>
      else if a = 0x00FFFA0D then h\<lparr>g_vpend := g_vpend h AND (0xFF00 OR ucast b)\<rparr>
      else if a = 0x00FFFA0F then h\<lparr>g_visr := g_visr h AND (push_bit 8 (ucast b) OR 0x00FF)\<rparr>
      else if a = 0x00FFFA11 then h\<lparr>g_visr := g_visr h AND (0xFF00 OR ucast b)\<rparr>
      else if a = 0x00FFFA13 then h\<lparr>g_imr := (g_imr h AND 0x00FF) OR push_bit 8 (ucast b)\<rparr>
      else if a = 0x00FFFA15 then h\<lparr>g_imr := (g_imr h AND 0xFF00) OR ucast b\<rparr>
      else if a = 0x00FFFA17 then
        (let h1 = h\<lparr>g_vr := b\<rparr> in if b AND 0x08 = 0 then h1\<lparr>g_visr := 0\<rparr> else h1)
      else if a = 0x00FFFA19 then h\<lparr>g_tacr := b AND 0x0F, g_tacnt := g_tadr h\<rparr>
      else if a = 0x00FFFA1F then
        h\<lparr>g_tadr := (if b \<noteq> 0 then ucast b else 256), g_tacnt := (if b \<noteq> 0 then ucast b else 256)\<rparr>
      else h)"

definition mfp_hub_write_snoop :: "u32 \<Rightarrow> u32 \<Rightarrow> bool \<Rightarrow> mfp_hub \<Rightarrow> mfp_hub" where
  "mfp_hub_write_snoop addr v is_word h =
     (let a = addr AND 0x00FFFFFF in
      if a < 0x00FFFA00 \<or> a > 0x00FFFA2F then h
      else if is_word then reg_write (a OR 1) (ucast (v AND 0xFF)) h
      else reg_write a (ucast (v AND 0xFF)) h)"

section \<open>Pending channels and guest reads\<close>

definition poll_channel :: "(poll \<Rightarrow> bool) \<Rightarrow> mfp_hub \<Rightarrow> nat \<Rightarrow> u16 \<Rightarrow> u16" where
  "poll_channel line h ch p =
     (case g_level_poll h ch of None \<Rightarrow> p | Some f \<Rightarrow> if line f then p OR push_bit ch 1 else p)"

definition pending_now :: "(poll \<Rightarrow> bool) \<Rightarrow> mfp_hub \<Rightarrow> u16" where
  "pending_now line h = fold (poll_channel line h) [0..<16] (g_vpend h) AND g_ier h"

definition mfp_hub_read_shim :: "(poll \<Rightarrow> bool) \<Rightarrow> u32 \<Rightarrow> u8 \<Rightarrow> mfp_hub \<Rightarrow> u8" where
  "mfp_hub_read_shim line addr real_v h =
     (let a = addr AND 0x00FFFFFF in
      if a = 0x00FFFA0B then ucast (ucast real_v OR drop_bit 8 (pending_now line h))
      else if a = 0x00FFFA0D then ucast (ucast real_v OR (pending_now line h AND 0xFF))
      else if a = 0x00FFFA0F then ucast (ucast real_v OR drop_bit 8 (g_visr h))
      else if a = 0x00FFFA11 then ucast (ucast real_v OR (g_visr h AND 0xFF))
      else real_v)"

section \<open>Sources\<close>

definition mfp_hub_raise :: "int \<Rightarrow> mfp_hub \<Rightarrow> mfp_hub" where
  "mfp_hub_raise ch h =
     (if ch < 0 \<or> ch > 15 then h
      else (let b = push_bit (nat ch) 1
            in if g_ier h AND b \<noteq> 0 then h\<lparr>g_vpend := g_vpend h OR b\<rparr> else h))"

definition mfp_hub_timer_a_event :: "mfp_hub \<Rightarrow> mfp_hub" where
  "mfp_hub_timer_a_event h =
     (if g_tacr h \<noteq> 8 then h
      else (let c = g_tacnt h in
            if c \<le> 1 then mfp_hub_raise 13 (h\<lparr>g_tacnt := g_tadr h\<rparr>)
            else h\<lparr>g_tacnt := c - 1\<rparr>))"

section \<open>Arbitration\<close>

text \<open>The scan from channel 15 downwards for a set bit; the argument is one above the channel.\<close>

fun top_channel :: "u16 \<Rightarrow> nat \<Rightarrow> int" where
  "top_channel m 0 = -1"
| "top_channel m (Suc ch) = (if m AND push_bit ch 1 \<noteq> 0 then int ch else top_channel m ch)"

definition deliverable :: "(poll \<Rightarrow> bool) \<Rightarrow> mfp_hub \<Rightarrow> u16" where
  "deliverable line h =
     (let pend = pending_now line h AND g_imr h in
      if pend = 0 then 0
      else (let isr = g_visr h in
            if isr \<noteq> 0
            then (let t = top_channel isr 16
                  in pend AND ucast (NOT (push_bit (nat (t + 1)) (1 :: u32) - 1)))
            else pend))"

definition mfp_hub_irq_wanted :: "(poll \<Rightarrow> bool) \<Rightarrow> mfp_hub \<Rightarrow> bool" where
  "mfp_hub_irq_wanted line h \<longleftrightarrow> deliverable line h \<noteq> 0"

definition mfp_hub_top_wanted :: "(poll \<Rightarrow> bool) \<Rightarrow> mfp_hub \<Rightarrow> int" where
  "mfp_hub_top_wanted line h =
     (let pend = deliverable line h in if pend = 0 then -1 else top_channel pend 16)"

definition mfp_hub_iacks :: "int \<Rightarrow> mfp_hub \<Rightarrow> u32" where
  "mfp_hub_iacks ch h = (if ch \<ge> 0 \<and> ch < 16 then g_iacks h (nat ch) else 0)"

definition mfp_hub_iack :: "(poll \<Rightarrow> bool) \<Rightarrow> mfp_hub \<Rightarrow> int \<times> mfp_hub" where
  "mfp_hub_iack line h =
     (let pend = deliverable line h in
      if pend = 0 then (-1, h)
      else
        (let ch = nat (top_channel pend 16);
             b = push_bit ch 1;
             h1 = h\<lparr>g_vpend := g_vpend h AND NOT b, g_iacks := (g_iacks h)(ch := g_iacks h ch + 1)\<rparr>;
             h2 = (if ch = 6 then h1\<lparr>kbd_iack_notes := kbd_iack_notes h1 + 1\<rparr> else h1);
             h3 = (if g_vr h2 AND 0x08 \<noteq> 0 then h2\<lparr>g_visr := g_visr h2 OR b\<rparr> else h2)
         in (uint ((ucast (g_vr h3 AND 0xF0) :: u32) OR of_nat ch), h3)))"

definition mfp_hub_snapshot :: "(poll \<Rightarrow> bool) \<Rightarrow> mfp_hub \<Rightarrow> u16 \<times> u16 \<times> u16 \<times> u16 \<times> u8" where
  "mfp_hub_snapshot line h = (g_ier h, g_imr h, pending_now line h, g_visr h, g_vr h)"

definition mfp_hub_reset :: "mfp_hub \<Rightarrow> mfp_hub" where
  "mfp_hub_reset h =
     h\<lparr>g_vpend := 0, g_visr := 0, g_ier := 0xFFFF, g_imr := 0xFFFF, g_vr := 0x48, g_tacr := 0,
       g_tadr := 256, g_tacnt := 256\<rparr>"

section \<open>Channel sets\<close>

definition chans :: "u16 \<Rightarrow> nat set" where
  "chans w = {c. bit w c}"

definition bank_chans :: "nat \<Rightarrow> u8 \<Rightarrow> nat set" where
  "bank_chans k b = {c. k \<le> c \<and> c < k + 8 \<and> bit b (c - k)}"

lemma chans_less: "c \<in> chans w \<Longrightarrow> c < 16"
  using bit_imp_le_length [of w c] by (simp add: chans_def)

lemma finite_chans [simp]: "finite (chans w)"
  by (rule finite_subset [of _ "{..<16}"]) (auto dest: chans_less)

lemma chans_and [simp]: "chans (v AND w) = chans v \<inter> chans w"
  by (auto simp: chans_def bit_simps)

lemma chans_or [simp]: "chans (v OR w) = chans v \<union> chans w"
  by (auto simp: chans_def bit_simps)

lemma chans_zero [simp]: "chans 0 = {}"
  by (simp add: chans_def)

lemma chans_empty: "chans w = {} \<longleftrightarrow> w = 0"
  by (auto simp: chans_def intro!: bit_word_eqI)

lemma chans_bit: "c < 16 \<Longrightarrow> chans (2 ^ c) = {c}"
  by (auto simp: chans_def bit_simps)

lemma exp_out_of_range: "\<not> c < 16 \<Longrightarrow> (2 ^ c :: u16) = 0"
  by (rule exp_eq_zero_iff [THEN iffD2]) simp

lemma chans_eqI: "(\<And>c. c < 16 \<Longrightarrow> bit v c \<longleftrightarrow> c \<in> S) \<Longrightarrow> S \<subseteq> {..<16} \<Longrightarrow> chans v = S"
  using bit_imp_le_length [of v] by (fastforce simp: chans_def)

lemma chans_not_bit: "chans (NOT (2 ^ c)) = {..<16} - {c}"
  by (rule chans_eqI) (auto simp: bit_simps)

lemma chans_high: "chans (push_bit 8 (ucast b)) = bank_chans 8 b"
  by (rule chans_eqI) (auto simp: bank_chans_def bit_simps)

lemma chans_low: "chans (ucast b) = bank_chans 0 b"
  by (rule chans_eqI) (auto simp: bank_chans_def bit_simps dest: bit_imp_le_length)

lemma chans_masks: "chans 0x00FF = {0..<8}" "chans 0xFF00 = {8..<16}" "chans 0xFFFF = {0..<16}"
proof -
  have e: "(0x00FF :: u16) = mask 8" "(0xFF00 :: u16) = push_bit 8 (mask 8)" "(0xFFFF :: u16) = mask 16"
    by (simp_all add: mask_eq_exp_minus_1)
  show "chans 0x00FF = {0..<8}" "chans 0xFF00 = {8..<16}" "chans 0xFFFF = {0..<16}"
    unfolding e by (auto simp: chans_def bit_simps)
qed


section \<open>The controller the datasheet describes\<close>

text \<open>The channels as sets. A channel requests an interrupt if it is enabled, pending (or its line
  is asserted), let through by the mask, and above every channel in service.\<close>

record mfp68901 =
  enabled :: "nat set"
  unmasked :: "nat set"
  pending :: "nat set"
  in_service :: "nat set"
  vector_base :: u8
  software_eoi :: bool

definition requesting :: "nat set \<Rightarrow> mfp68901 \<Rightarrow> nat set" where
  "requesting asserted m =
     {c \<in> enabled m \<inter> (pending m \<union> asserted) \<inter> unmasked m. \<forall>d \<in> in_service m. d < c}"

definition acknowledge :: "nat \<Rightarrow> mfp68901 \<Rightarrow> mfp68901" where
  "acknowledge c m =
     m\<lparr>pending := pending m - {c},
       in_service := (if software_eoi m then insert c (in_service m) else in_service m)\<rparr>"

datatype mfp_reg = IER nat | IPR nat | ISR nat | IMR nat | VR | Other

definition mfp_reg_at :: "u32 \<Rightarrow> mfp_reg" where
  "mfp_reg_at a =
     (case map_of [(0x00FFFA07, IER 8), (0x00FFFA09, IER 0), (0x00FFFA0B, IPR 8), (0x00FFFA0D, IPR 0),
        (0x00FFFA0F, ISR 8), (0x00FFFA11, ISR 0), (0x00FFFA13, IMR 8), (0x00FFFA15, IMR 0), (0x00FFFA17, VR)] a
      of Some r \<Rightarrow> r | None \<Rightarrow> Other)"

fun write_reg :: "mfp_reg \<Rightarrow> u8 \<Rightarrow> mfp68901 \<Rightarrow> mfp68901" where
  "write_reg (IER k) b m =
     (let e = (enabled m - {k..<k + 8}) \<union> bank_chans k b in m\<lparr>enabled := e, pending := pending m \<inter> e\<rparr>)"
| "write_reg (IPR k) b m = m\<lparr>pending := pending m - ({k..<k + 8} - bank_chans k b)\<rparr>"
| "write_reg (ISR k) b m = m\<lparr>in_service := in_service m - ({k..<k + 8} - bank_chans k b)\<rparr>"
| "write_reg (IMR k) b m = m\<lparr>unmasked := (unmasked m - {k..<k + 8}) \<union> bank_chans k b\<rparr>"
| "write_reg VR b m =
     m\<lparr>vector_base := b AND 0xF0, software_eoi := bit b 3, in_service := (if bit b 3 then in_service m else {})\<rparr>"
| "write_reg Other b m = m"

definition abs_hub :: "mfp_hub \<Rightarrow> mfp68901" where
  "abs_hub h = \<lparr>enabled = chans (g_ier h), unmasked = chans (g_imr h), pending = chans (g_vpend h),
     in_service = chans (g_visr h), vector_base = g_vr h AND 0xF0, software_eoi = bit (g_vr h) 3\<rparr>"

definition asserted :: "(poll \<Rightarrow> bool) \<Rightarrow> mfp_hub \<Rightarrow> nat set" where
  "asserted line h = {c. c < 16 \<and> (\<exists>f. g_level_poll h c = Some f \<and> line f)}"

section \<open>Lemmas on arbitration\<close>

lemma bit3_iff: "b AND 0x08 = 0 \<longleftrightarrow> \<not> bit b 3" for b :: u8
  using bit_iff_and_push_bit_not_eq_0 [of b 3] by simp

lemma and_exp: "w AND 2 ^ c = 0 \<longleftrightarrow> c \<notin> chans w" for w :: u16
proof -
  have "w AND 2 ^ c = 0 \<longleftrightarrow> chans (w AND 2 ^ c) = {}" by (simp only: chans_empty)
  also have "\<dots> \<longleftrightarrow> c \<notin> chans w" using chans_less [of c w] by (auto simp: chans_def bit_simps)
  finally show ?thesis .
qed

lemma top_channel_Max:
  assumes "chans w \<inter> {..<n} \<noteq> {}"
  shows "top_channel w n = int (Max (chans w \<inter> {..<n}))"
  using assms
proof (induction n)
  case (Suc n)
  show ?case
  proof (cases "n \<in> chans w")
    case True
    then have "Max (chans w \<inter> {..<Suc n}) = n" by (intro Max_eqI) auto
    with True show ?thesis by (simp add: and_exp)
  next
    case False
    then have "chans w \<inter> {..<Suc n} = chans w \<inter> {..<n}" by (auto simp: less_Suc_eq)
    with False Suc show ?thesis by (simp add: and_exp)
  qed
qed simp

lemma top_channel_16: "w \<noteq> 0 \<Longrightarrow> top_channel w 16 = int (Max (chans w))"
proof -
  have e: "chans w \<inter> {..<16} = chans w" by (auto dest: chans_less)
  show "w \<noteq> 0 \<Longrightarrow> top_channel w 16 = int (Max (chans w))"
    using top_channel_Max [of w 16] by (simp add: e chans_empty)
qed

lemma chans_above: "chans (ucast (NOT (2 ^ n - 1 :: u32))) = {n..<16}"
  unfolding mask_eq_exp_minus_1 [symmetric] by (rule chans_eqI) (auto simp: bit_simps)

lemma fold_poll:
  "chans (fold (poll_channel line h) [0..<n] w) =
     chans w \<union> {c. c < n \<and> c < 16 \<and> (\<exists>f. g_level_poll h c = Some f \<and> line f)}"
proof (induction n)
  case (Suc n)
  have "chans (fold (poll_channel line h) [0..<Suc n] w) =
      chans (fold (poll_channel line h) [0..<n] w) \<union> {c. c = n \<and> c < 16 \<and> (\<exists>f. g_level_poll h c = Some f \<and> line f)}"
    by (cases "n < 16") (auto simp: poll_channel_def chans_bit exp_out_of_range split: option.splits)
  then show ?case unfolding Suc by (auto simp: less_Suc_eq)
qed simp

lemma pending_now_chans:
  "chans (pending_now line h) = (chans (g_vpend h) \<union> asserted line h) \<inter> chans (g_ier h)"
  unfolding pending_now_def chans_and fold_poll asserted_def by auto

lemma deliverable_chans: "chans (deliverable line h) = requesting (asserted line h) (abs_hub h)"
proof -
  have m: "(\<forall>d \<in> chans w. d < c) \<longleftrightarrow> Max (chans w) < c" if "w \<noteq> 0" for w c
    using that by (simp add: chans_empty)
  let ?p = "pending_now line h AND g_imr h"
  have "chans (deliverable line h) = {c \<in> chans ?p. \<forall>d \<in> chans (g_visr h). d < c}"
  proof (cases "?p = 0 \<or> g_visr h = 0")
    case False
    then have "deliverable line h = ?p AND ucast (NOT (2 ^ Suc (Max (chans (g_visr h))) - 1 :: u32))"
      by (simp add: deliverable_def Let_def top_channel_16 nat_add_distrib)
    then have "chans (deliverable line h) = chans ?p \<inter> {Suc (Max (chans (g_visr h)))..<16}"
      by (simp only: chans_and chans_above)
    then show ?thesis using False m [of "g_visr h"] by (auto simp: Suc_le_eq dest: chans_less)
  next
    case True
    then have "deliverable line h = ?p" by (auto simp: deliverable_def Let_def)
    moreover have "chans ?p = {} \<or> chans (g_visr h) = {}" using True by (auto simp only: chans_empty)
    ultimately show ?thesis by auto
  qed
  then show ?thesis by (auto simp: requesting_def abs_hub_def pending_now_chans)
qed


section \<open>An interrupt controller, for its clients\<close>

text \<open>What the delivery of interrupts relies on: which channels ask, which are in service, the best
  channel, and the acknowledge cycle. An acknowledged channel is the highest of those that ask,
  and lies above everything in service; it is in service afterwards if the controller holds it.\<close>

locale int_controller =
  fixes wants :: "'l \<Rightarrow> 's \<Rightarrow> nat set" and serving :: "'s \<Rightarrow> nat set" and holds :: "'s \<Rightarrow> bool"
    and top_wanted :: "'l \<Rightarrow> 's \<Rightarrow> int" and ack :: "'l \<Rightarrow> 's \<Rightarrow> int \<times> 's" and vec :: "'s \<Rightarrow> nat \<Rightarrow> int"
  assumes wants_less: "wants l s \<subseteq> {..<16}" and serving_less: "serving s \<subseteq> {..<16}"
    and wants_above: "c \<in> wants l s \<Longrightarrow> d \<in> serving s \<Longrightarrow> d < c"
    and top_law: "top_wanted l s = (if wants l s = {} then -1 else int (Max (wants l s)))"
    and ack_none: "wants l s = {} \<Longrightarrow> ack l s = (-1, s)"
    and ack_vec: "wants l s \<noteq> {} \<Longrightarrow> fst (ack l s) = vec s (Max (wants l s))"
    and ack_serving: "wants l s \<noteq> {} \<Longrightarrow>
      serving (snd (ack l s)) = (if holds s then insert (Max (wants l s)) (serving s) else serving s)"
    and vec_nonneg: "0 \<le> vec s c"
begin

lemma finite_wants: "finite (wants l s)"
  using wants_less by (rule finite_subset) simp

lemma top_nonneg: "0 \<le> top_wanted l s \<longleftrightarrow> wants l s \<noteq> {}"
  by (simp add: top_law)

lemma Max_wants: "wants l s \<noteq> {} \<Longrightarrow> Max (wants l s) \<in> wants l s"
  by (simp add: finite_wants)

lemma ack_nonneg: "0 \<le> fst (ack l s) \<longleftrightarrow> wants l s \<noteq> {}"
  by (cases "wants l s = {}") (simp_all add: ack_none ack_vec vec_nonneg)

text \<open>The handlers entered and not yet ended, the last one first.\<close>

definition nest_of :: "'s \<Rightarrow> nat list \<Rightarrow> bool" where
  "nest_of s ns \<longleftrightarrow> sorted_wrt (>) ns \<and> set ns = serving s"

lemma nest_length: "nest_of s ns \<Longrightarrow> length ns \<le> 16"
proof -
  assume n: "nest_of s ns"
  have "sorted_wrt (>) ns \<Longrightarrow> distinct ns" by (induction ns) auto
  with n have "distinct ns" by (simp add: nest_of_def)
  then have "length ns = card (set ns)" by (simp add: distinct_card)
  also have "\<dots> \<le> card {..<16 :: nat}" using n serving_less by (intro card_mono) (auto simp: nest_of_def)
  finally show "length ns \<le> 16" by simp
qed

lemma nest_ack:
  assumes "nest_of s ns" "wants l s \<noteq> {}"
  shows "nest_of (snd (ack l s)) (if holds s then Max (wants l s) # ns else ns)"
  using assms Max_wants [of l s] wants_above [of "Max (wants l s)" l s]
  by (auto simp: nest_of_def ack_serving)

lemma nest_release:
  assumes "nest_of s ns" "serving t \<subseteq> serving s"
  shows "nest_of t (filter (\<lambda>c. c \<in> serving t) ns)"
  using assms by (auto simp: nest_of_def sorted_wrt_filter)

end

definition hub_wants :: "(poll \<Rightarrow> bool) \<Rightarrow> mfp_hub \<Rightarrow> nat set" where
  "hub_wants line h = chans (deliverable line h)"

definition hub_vec :: "mfp_hub \<Rightarrow> nat \<Rightarrow> int" where
  "hub_vec h c = uint ((ucast (g_vr h AND 0xF0) :: u32) OR of_nat c)"

lemma hub_wants_spec: "hub_wants line h = requesting (asserted line h) (abs_hub h)"
  by (simp add: hub_wants_def deliverable_chans)

lemma iack_channel:
  assumes "hub_wants line h \<noteq> {}"
  shows "fst (mfp_hub_iack line h) = hub_vec h (Max (hub_wants line h))"
    and "abs_hub (snd (mfp_hub_iack line h)) = acknowledge (Max (hub_wants line h)) (abs_hub h)"
proof -
  let ?c = "Max (hub_wants line h)"
  have d: "deliverable line h \<noteq> 0" using assms by (simp add: hub_wants_def chans_empty)
  have t: "nat (top_channel (deliverable line h) 16) = ?c" using top_channel_16 [OF d] by (simp add: hub_wants_def)
  have "?c \<in> hub_wants line h" using assms by (simp add: hub_wants_def)
  then have c: "?c < 16" by (auto simp: hub_wants_def dest: chans_less)
  have p: "chans (g_vpend h) \<inter> ({..<16} - {?c}) = chans (g_vpend h) - {?c}" by (auto dest: chans_less)
  show "fst (mfp_hub_iack line h) = hub_vec h ?c"
    using d by (simp add: mfp_hub_iack_def t Let_def hub_vec_def)
  show "abs_hub (snd (mfp_hub_iack line h)) = acknowledge ?c (abs_hub h)"
    using d c by (auto simp: mfp_hub_iack_def t Let_def abs_hub_def acknowledge_def bit3_iff chans_bit chans_not_bit p
        chans_not_bit [of 6, simplified] dest: chans_less)
qed

lemma iack_none: "hub_wants line h = {} \<Longrightarrow> mfp_hub_iack line h = (-1, h)"
  by (simp add: hub_wants_def chans_empty mfp_hub_iack_def)

lemma top_wanted_Max:
  "mfp_hub_top_wanted line h = (if hub_wants line h = {} then -1 else int (Max (hub_wants line h)))"
  by (simp add: mfp_hub_top_wanted_def Let_def top_channel_16 hub_wants_def chans_empty)

interpretation hub: int_controller hub_wants "\<lambda>h. chans (g_visr h)" "\<lambda>h. bit (g_vr h) 3"
  mfp_hub_top_wanted mfp_hub_iack hub_vec
proof
  fix l h
  show "hub_wants l h \<subseteq> {..<16}" "chans (g_visr h) \<subseteq> {..<16}" by (auto simp: hub_wants_def dest: chans_less)
  show "d < c" if "c \<in> hub_wants l h" "d \<in> chans (g_visr h)" for c d
    using that by (auto simp: hub_wants_spec requesting_def abs_hub_def)
  show "mfp_hub_top_wanted l h = (if hub_wants l h = {} then -1 else int (Max (hub_wants l h)))"
    by (rule top_wanted_Max)
  show "mfp_hub_iack l h = (-1, h)" if "hub_wants l h = {}" using that by (rule iack_none)
  show "fst (mfp_hub_iack l h) = hub_vec h (Max (hub_wants l h))" if "hub_wants l h \<noteq> {}"
    using that by (rule iack_channel)
  show "chans (g_visr (snd (mfp_hub_iack l h))) =
      (if bit (g_vr h) 3 then insert (Max (hub_wants l h)) (chans (g_visr h)) else chans (g_visr h))"
    if "hub_wants l h \<noteq> {}"
    using arg_cong [OF iack_channel(2) [OF that], of in_service] by (simp add: abs_hub_def acknowledge_def)
  show "0 \<le> hub_vec h c" for c by (simp add: hub_vec_def)
qed


section \<open>The other operations on channel sets\<close>

lemma bank_range: "bank_chans k b \<subseteq> {k..<k + 8}"
  by (auto simp: bank_chans_def)

lemma keep_high: "S \<inter> {8..<16} = S - {0..<8}" "S \<inter> {0..<8} = S - {8..<16}" if "S \<subseteq> {..<16}" for S :: "nat set"
  using that by auto

lemma clear_high: "S \<inter> (bank_chans 8 b \<union> {0..<8}) = S - ({8..<16} - bank_chans 8 b)"
    "S \<inter> ({8..<16} \<union> bank_chans 0 b) = S - ({0..<8} - bank_chans 0 b)" if "S \<subseteq> {..<16}" for S :: "nat set"
  using that bank_range [of 8 b] bank_range [of 0 b] by auto

lemma chans_sub: "chans w \<subseteq> {..<16}"
  by (auto dest: chans_less)

lemma abs_reg_write: "abs_hub (reg_write a b h) = write_reg (mfp_reg_at a) b (abs_hub h)"
  by (simp add: reg_write_def mfp_reg_at_def abs_hub_def Let_def chans_high chans_low chans_masks bit3_iff
      keep_high [OF chans_sub] clear_high [OF chans_sub])

lemma abs_raise:
  "abs_hub (mfp_hub_raise ch h) =
     (abs_hub h)\<lparr>pending := pending (abs_hub h) \<union> ({nat ch} \<inter> (if ch < 0 then {} else enabled (abs_hub h)))\<rparr>"
  using chans_less [of "nat ch" "g_ier h"]
  by (auto simp: mfp_hub_raise_def Let_def abs_hub_def and_exp chans_bit)


lemma hub_vec_sum: "c < 16 \<Longrightarrow> hub_vec h c = uint (vector_base (abs_hub h)) + int c"
proof -
  assume c: "c < 16"
  let ?x = "ucast (g_vr h AND 0xF0) :: u32" and ?y = "of_nat c :: u32"
  have F0: "(0xF0 :: u8) = NOT (mask 4)" by (simp add: mask_eq_exp_minus_1)
  have y: "unat ?y = c" using c by (simp add: unat_of_nat)
  have z: "?x AND ?y = 0"
  proof (rule bit_word_eqI)
    fix n
    show "bit (?x AND ?y) n = bit (0 :: u32) n"
      using high_bits_zero [of ?y 4 n] c y by (cases "n < 4") (auto simp: F0 bit_simps)
  qed
  have l: "unat (g_vr h AND 0xF0) < 256" using unat_less_exp [of "g_vr h AND 0xF0"] by simp
  then have x: "unat ?x = unat (g_vr h AND 0xF0)" by (simp only: unsigned_ucast_eq) (simp add: take_bit_nat_eq_self)
  then have "unat (?x + ?y) = unat ?x + unat ?y" using c x y l by (intro unat_add_small) simp
  moreover have "?x OR ?y = ?x + ?y" using word_plus_and_or [of ?x ?y] z by simp
  ultimately have "unat (?x OR ?y) = unat (g_vr h AND 0xF0) + c" by (simp only: x y)
  then have "int (unat (?x OR ?y)) = int (unat (g_vr h AND 0xF0)) + int c" by simp
  then show ?thesis unfolding hub_vec_def abs_hub_def mfp68901.select_convs by (simp only: of_nat_unat)
qed

lemma ucast_low_byte: "ucast (v AND 0xFF) = (ucast v :: u8)" for v :: u32
proof -
  have "(0xFF :: u32) = mask 8" by (simp add: mask_eq_exp_minus_1)
  then show ?thesis by (simp add: bit_eq_iff bit_simps)
qed

lemma abs_snoop:
  "abs_hub (mfp_hub_write_snoop a v w h) =
     (let b = a AND 0x00FFFFFF
      in if b \<in> {0x00FFFA00..0x00FFFA2F} then write_reg (mfp_reg_at (if w then b OR 1 else b)) (ucast v) (abs_hub h)
         else abs_hub h)"
  by (auto simp: mfp_hub_write_snoop_def Let_def abs_reg_write ucast_low_byte)

text \<open>C3: The hub is the interrupt controller of the datasheet on sets of channels: guest writes, raised
  events, the request line, the best channel, the acknowledge cycle with its vector, and reset are
  the operations of the abstract controller, where a channel asks for an interrupt exactly if it is
  enabled, pending or asserted, unmasked, and above every channel in service.\<close>

theorem mfp_hub_refines_68901:
  "let m = abs_hub h; b = a AND 0x00FFFFFF; r = requesting (asserted line h) m in
   abs_hub (mfp_hub_write_snoop a v w h) =
     (if b \<in> {0x00FFFA00..0x00FFFA2F} then write_reg (mfp_reg_at (if w then b OR 1 else b)) (ucast v) m else m) \<and>
   abs_hub (mfp_hub_raise ch h) =
     (if 0 \<le> ch \<and> nat ch \<in> enabled m then m\<lparr>pending := insert (nat ch) (pending m)\<rparr> else m) \<and>
   mfp_hub_irq_wanted line h = (r \<noteq> {}) \<and>
   mfp_hub_top_wanted line h = (if r = {} then -1 else int (Max r)) \<and>
   (if r = {} then mfp_hub_iack line h = (-1, h)
    else fst (mfp_hub_iack line h) = uint (vector_base m) + int (Max r) \<and>
         abs_hub (snd (mfp_hub_iack line h)) = acknowledge (Max r) m) \<and>
   abs_hub (mfp_hub_reset h) =
     \<lparr>enabled = {0..<16}, unmasked = {0..<16}, pending = {}, in_service = {}, vector_base = 0x40, software_eoi = True\<rparr>"
proof -
  let ?r = "requesting (asserted line h) (abs_hub h)"
  have r: "hub_wants line h = ?r" by (rule hub_wants_spec)
  have c: "Max ?r < 16" if "?r \<noteq> {}"
    using hub.Max_wants [of line h] hub.wants_less [of line h] that by (auto simp: r)
  have "mfp_hub_irq_wanted line h = (?r \<noteq> {})"
    by (simp add: mfp_hub_irq_wanted_def r [symmetric] hub_wants_def chans_empty)
  moreover have "abs_hub (mfp_hub_reset h) = \<lparr>enabled = {0..<16}, unmasked = {0..<16}, pending = {}, in_service = {},
      vector_base = 0x40, software_eoi = True\<rparr>"
    by (simp add: abs_hub_def mfp_hub_reset_def chans_masks)
  moreover have "abs_hub (mfp_hub_raise ch h) = (if 0 \<le> ch \<and> nat ch \<in> enabled (abs_hub h)
      then (abs_hub h)\<lparr>pending := insert (nat ch) (pending (abs_hub h))\<rparr> else abs_hub h)"
    by (auto simp: abs_raise)
  ultimately show ?thesis
    using iack_none [of line h] iack_channel [of line h] top_wanted_Max [of line h] hub_vec_sum [OF c, of h]
    by (simp add: Let_def abs_snoop r)
qed


section \<open>Histories of the controller\<close>

text \<open>The hub with the list of handlers that were entered and have not ended: an acknowledge in
  software end-of-interrupt mode enters the handler of its channel, a guest write or a reset that
  clears the in-service bit of a channel ends its handler.\<close>

inductive hub_step :: "mfp_hub \<times> nat list \<Rightarrow> mfp_hub \<times> nat list \<Rightarrow> bool"
where
  hub_write: "h' = mfp_hub_write_snoop a v w h \<Longrightarrow> hub_step (h, ns) (h', filter (\<lambda>c. c \<in> chans (g_visr h')) ns)"
| hub_raise: "hub_step (h, ns) (mfp_hub_raise ch h, ns)"
| hub_timer: "hub_step (h, ns) (mfp_hub_timer_a_event h, ns)"
| hub_level: "hub_step (h, ns) (mfp_hub_register_level ch p h, ns)"
| hub_iack: "mfp_hub_iack line h = (vc, h') \<Longrightarrow>
    hub_step (h, ns) (h', if 0 \<le> vc \<and> software_eoi (abs_hub h) then nat (vc mod 16) # ns else ns)"
| hub_reset: "hub_step (h, ns) (mfp_hub_reset h, [])"

definition hub_start :: "mfp_hub \<times> nat list \<Rightarrow> bool" where
  "hub_start s \<longleftrightarrow> s = (hub_boot, [])"

definition hub_wf :: "mfp_hub \<Rightarrow> bool" where
  "hub_wf h \<longleftrightarrow> pending (abs_hub h) \<subseteq> enabled (abs_hub h) \<and>
     (software_eoi (abs_hub h) \<or> in_service (abs_hub h) = {}) \<and>
     unat (g_tadr h) \<in> {1..256} \<and> unat (g_tacnt h) \<in> {1..unat (g_tadr h)} \<and> unat (g_tacr h) < 16"

definition hub_inv :: "mfp_hub \<times> nat list \<Rightarrow> bool" where
  "hub_inv s \<longleftrightarrow> hub_wf (fst s) \<and> hub.nest_of (fst s) (snd s)"

lemma tad_bounds: "unat (if b \<noteq> 0 then ucast b else 256 :: u32) = (if b = 0 then 256 else unat b)" for b :: u8
proof -
  have "unat b < 256" using unat_less_exp [of b] by simp
  then show ?thesis by (auto simp: unsigned_ucast_eq take_bit_nat_eq_self)
qed

lemma tacr_bound: "unat (b AND 0x0F) < 16" for b :: u8
proof -
  have "(0x0F :: u8) = mask 4" by (simp add: mask_eq_exp_minus_1)
  then have "unat (b AND 0x0F) = unat b mod 16" by (simp only: unat_and_mask) simp
  then show ?thesis by simp
qed

lemma write_reg_wf:
  assumes "pending m \<subseteq> enabled m" "software_eoi m \<or> in_service m = {}"
  shows "pending (write_reg r b m) \<subseteq> enabled (write_reg r b m)"
    "software_eoi (write_reg r b m) \<or> in_service (write_reg r b m) = {}"
    "in_service (write_reg r b m) \<subseteq> in_service m"
  using assms by (cases r; auto simp: Let_def)+

lemma reg_write_timer:
  assumes "unat (g_tadr h) \<in> {1..256}" "unat (g_tacnt h) \<in> {1..unat (g_tadr h)}" "unat (g_tacr h) < 16"
  shows "unat (g_tadr (reg_write a b h)) \<in> {1..256}" "unat (g_tacnt (reg_write a b h)) \<in> {1..unat (g_tadr (reg_write a b h))}"
    "unat (g_tacr (reg_write a b h)) < 16"
proof -
  have "unat b < 256" "b \<noteq> 0 \<Longrightarrow> 0 < unat b" using unat_less_exp [of b] by (auto simp: unat_gt_0)
  then have "unat (if b \<noteq> 0 then ucast b else 256 :: u32) \<in> {1..256}" unfolding tad_bounds by auto
  then show "unat (g_tadr (reg_write a b h)) \<in> {1..256}" "unat (g_tacnt (reg_write a b h)) \<in> {1..unat (g_tadr (reg_write a b h))}"
    "unat (g_tacr (reg_write a b h)) < 16"
    using assms tacr_bound [of b] by (auto simp: reg_write_def Let_def)
qed

lemma snoop_cases: "mfp_hub_write_snoop a v w h = h \<or> (\<exists>b c. mfp_hub_write_snoop a v w h = reg_write b c h)"
  by (auto simp: mfp_hub_write_snoop_def Let_def)

lemma snoop_wf:
  assumes "hub_wf h"
  shows "hub_wf (mfp_hub_write_snoop a v w h)" "chans (g_visr (mfp_hub_write_snoop a v w h)) \<subseteq> chans (g_visr h)"
proof -
  have "hub_wf (reg_write b c h) \<and> in_service (abs_hub (reg_write b c h)) \<subseteq> in_service (abs_hub h)" for b c
    using assms write_reg_wf [of "abs_hub h" "mfp_reg_at b" c] reg_write_timer [of h b c] by (auto simp: hub_wf_def abs_reg_write)
  then show "hub_wf (mfp_hub_write_snoop a v w h)" "chans (g_visr (mfp_hub_write_snoop a v w h)) \<subseteq> chans (g_visr h)"
    using snoop_cases [of a v w h] assms by (fastforce simp: abs_hub_def)+
qed

lemma raise_frame [simp]:
  "g_visr (mfp_hub_raise ch h) = g_visr h" "g_ier (mfp_hub_raise ch h) = g_ier h" "g_tadr (mfp_hub_raise ch h) = g_tadr h"
  "g_tacnt (mfp_hub_raise ch h) = g_tacnt h" "g_tacr (mfp_hub_raise ch h) = g_tacr h"
  by (simp_all add: mfp_hub_raise_def Let_def)

lemma raise_wf: "hub_wf h \<Longrightarrow> hub_wf (mfp_hub_raise ch h)"
  by (auto simp: hub_wf_def abs_raise)

lemma timer_wf:
  assumes "hub_wf h"
  shows "hub_wf (mfp_hub_timer_a_event h)" "g_visr (mfp_hub_timer_a_event h) = g_visr h"
proof -
  have "hub_wf (h\<lparr>g_tacnt := g_tadr h\<rparr>)" using assms by (simp add: hub_wf_def abs_hub_def)
  moreover have "hub_wf (h\<lparr>g_tacnt := g_tacnt h - 1\<rparr>)" if "\<not> g_tacnt h \<le> 1"
  proof -
    have "1 < unat (g_tacnt h)" using that by (simp add: word_le_nat_alt)
    then have "unat (g_tacnt h - 1) = unat (g_tacnt h) - 1" by (intro unat_minus_one) auto
    then show ?thesis using assms \<open>1 < unat (g_tacnt h)\<close> by (auto simp: hub_wf_def abs_hub_def)
  qed
  ultimately show "hub_wf (mfp_hub_timer_a_event h)" using assms by (auto simp: mfp_hub_timer_a_event_def Let_def intro: raise_wf)
  show "g_visr (mfp_hub_timer_a_event h) = g_visr h" by (simp add: mfp_hub_timer_a_event_def Let_def)
qed

lemma iack_timer:
  "g_tadr (snd (mfp_hub_iack l h)) = g_tadr h" "g_tacnt (snd (mfp_hub_iack l h)) = g_tacnt h"
  "g_tacr (snd (mfp_hub_iack l h)) = g_tacr h"
  by (simp_all add: mfp_hub_iack_def Let_def)

lemma iack_wf:
  assumes "hub_wf h"
  shows "hub_wf (snd (mfp_hub_iack l h))"
proof (cases "hub_wants l h = {}")
  case False
  from iack_channel(2) [OF this] assms show ?thesis
    by (auto simp: hub_wf_def iack_timer acknowledge_def)
qed (simp add: iack_none assms)


lemma vec_channel: "c < 16 \<Longrightarrow> nat (hub_vec h c mod 16) = c"
proof -
  assume c: "c < 16"
  have "(0xF0 :: u8) = NOT (mask 4)" by (simp add: mask_eq_exp_minus_1)
  then have "unat (g_vr h AND 0xF0) = unat (g_vr h) div 16 * 16" by (simp only: unat_and_not_mask) simp
  then have "int (unat (g_vr h AND 0xF0)) = int (unat (g_vr h) div 16) * 16" by simp
  then have "uint (vector_base (abs_hub h)) = int (unat (g_vr h) div 16) * 16"
    by (simp only: abs_hub_def mfp68901.select_convs of_nat_unat)
  then show ?thesis using hub_vec_sum [OF c, of h] c by simp
qed

lemma iack_nest:
  assumes "hub.nest_of h ns" "mfp_hub_iack l h = (vc, h')"
  shows "hub.nest_of h' (if 0 \<le> vc \<and> software_eoi (abs_hub h) then nat (vc mod 16) # ns else ns)"
proof (cases "hub_wants l h = {}")
  case True
  with iack_none [OF this] assms show ?thesis by simp
next
  case False
  have "Max (hub_wants l h) < 16" using hub.Max_wants [OF False] hub.wants_less [of l h] by auto
  from vec_channel [OF this, of h] have v: "nat (vc mod 16) = Max (hub_wants l h)"
    using hub.ack_vec [OF False] assms(2) by simp
  have "0 \<le> vc" using hub.ack_nonneg [of l h] False assms(2) by simp
  with hub.nest_ack [OF assms(1) False] v assms(2) show ?thesis by (simp add: abs_hub_def split: if_splits)
qed

interpretation hubm: invariant_system hub_start hub_step hub_inv
proof
  show "hub_inv s" if "hub_start s" for s
    using that by (simp add: hub_start_def hub_inv_def hub_wf_def hub_boot_def abs_hub_def hub.nest_of_def)
  show "hub_inv t" if i: "hub_inv s" and st: "hub_step s t" for s t
    using st i
  proof cases
    case (hub_write h' a v w h ns)
    with i snoop_wf [of h a v w] hub.nest_release [of h ns h'] show ?thesis by (simp add: hub_inv_def)
  next
    case (hub_raise h ns ch)
    with i raise_wf [of h ch] show ?thesis by (simp add: hub_inv_def hub.nest_of_def)
  next
    case (hub_timer h ns)
    with i timer_wf [of h] show ?thesis by (simp add: hub_inv_def hub.nest_of_def)
  next
    case (hub_level h ns ch p)
    with i show ?thesis by (simp add: hub_inv_def hub.nest_of_def mfp_hub_register_level_def hub_wf_def abs_hub_def)
  next
    case (hub_iack line h vc h' ns)
    with i iack_nest [of h ns line vc h'] iack_wf [of h line] show ?thesis by (simp add: hub_inv_def)
  next
    case (hub_reset h ns)
    then show ?thesis by (simp add: hub_inv_def hub_wf_def mfp_hub_reset_def abs_hub_def hub.nest_of_def)
  qed
qed

text \<open>C8: Interrupt handlers nest safely. In every history of guest writes, raised events, timer
  events, acknowledge cycles and resets, the handlers entered and not yet ended are those of the
  channels in service, each of a higher channel than the ones below it, so at most 16 deep, and a
  channel that is delivered next is above all of them. Only enabled channels are pending, and
  nothing is in service in automatic end-of-interrupt mode.\<close>

theorem mfp_handlers_nest:
  assumes "reach hub_start hub_step (h, ns)"
  shows "sorted_wrt (>) ns \<and> set ns = in_service (abs_hub h) \<and> length ns \<le> 16 \<and>
    (\<forall>line. mfp_hub_top_wanted line h = -1 \<or> (\<forall>c \<in> set ns. int c < mfp_hub_top_wanted line h)) \<and>
    pending (abs_hub h) \<subseteq> enabled (abs_hub h) \<and> (software_eoi (abs_hub h) \<or> ns = [])"
proof -
  have i: "hub_wf h" "hub.nest_of h ns" using hubm.reach_inv [OF assms] by (simp_all add: hub_inv_def)
  have "int c < mfp_hub_top_wanted line h" if "mfp_hub_top_wanted line h \<noteq> -1" "c \<in> set ns" for line c
  proof -
    have w: "hub_wants line h \<noteq> {}" using that(1) by (auto simp: hub.top_law)
    have "c \<in> chans (g_visr h)" using that(2) i(2) by (simp add: hub.nest_of_def)
    with hub.wants_above [OF hub.Max_wants [OF w]] w show ?thesis by (simp add: hub.top_law)
  qed
  then show ?thesis
    using i hub.nest_length [OF i(2)] by (auto simp: hub.nest_of_def hub_wf_def abs_hub_def)
qed

text \<open>The sound interrupt preempts the keyboard handler.\<close>

lemma reach_iack:
  "reach hub_start hub_step (h, ns) \<Longrightarrow>
   reach hub_start hub_step (snd (mfp_hub_iack line h),
     if 0 \<le> fst (mfp_hub_iack line h) \<and> bit (g_vr h) 3 then nat (fst (mfp_hub_iack line h) mod 16) # ns else ns)"
proof (erule reach.step)
  have "software_eoi (abs_hub h) = bit (g_vr h) 3" by (simp add: abs_hub_def)
  then show "hub_step (h, ns) (snd (mfp_hub_iack line h),
      if 0 \<le> fst (mfp_hub_iack line h) \<and> bit (g_vr h) 3 then nat (fst (mfp_hub_iack line h) mod 16) # ns else ns)"
    using hub_step.hub_iack [of line h "fst (mfp_hub_iack line h)" "snd (mfp_hub_iack line h)" ns] by simp
qed

definition demo_kbd :: mfp_hub where
  "demo_kbd = snd (mfp_hub_iack (\<lambda>_. False) (mfp_hub_raise 6 hub_boot))"

definition demo_snd :: mfp_hub where
  "demo_snd = snd (mfp_hub_iack (\<lambda>_. False) (mfp_hub_raise 13 demo_kbd))"

lemma demo_nest: "reach hub_start hub_step (demo_snd, [13, 6])"
proof -
  have "reach hub_start hub_step (hub_boot, [])" by (rule reach.start) (simp add: hub_start_def)
  then have r: "reach hub_start hub_step (mfp_hub_raise 6 hub_boot, [])" by (rule reach.step) (rule hub_step.hub_raise)
  have e: "fst (mfp_hub_iack (\<lambda>_. False) (mfp_hub_raise 6 hub_boot)) = 0x46" "bit (g_vr (mfp_hub_raise 6 hub_boot)) 3"
    by code_simp+
  have "reach hub_start hub_step (demo_kbd, [6])" using reach_iack [OF r, of "\<lambda>_. False"] by (simp add: e demo_kbd_def)
  then have r2: "reach hub_start hub_step (mfp_hub_raise 13 demo_kbd, [6])" by (rule reach.step) (rule hub_step.hub_raise)
  have e2: "fst (mfp_hub_iack (\<lambda>_. False) (mfp_hub_raise 13 demo_kbd)) = 0x4D" "bit (g_vr (mfp_hub_raise 13 demo_kbd)) 3"
    by code_simp+
  show ?thesis using reach_iack [OF r2, of "\<lambda>_. False"] by (simp add: e2 demo_snd_def)
qed

theorem mfp_handlers_nest_witness:
  "reach hub_start hub_step (demo_snd, [13, 6]) \<and> in_service (abs_hub demo_snd) = {6, 13}"
  using mfp_handlers_nest [OF demo_nest] demo_nest by auto

section \<open>Timer A\<close>

lemma timer_event:
  assumes "g_tacr h = 8" "unat (g_tacnt h) = Suc c"
  shows "g_tacr (mfp_hub_timer_a_event h) = 8" "g_tadr (mfp_hub_timer_a_event h) = g_tadr h"
    "unat (g_tacnt (mfp_hub_timer_a_event h)) = (if c = 0 then unat (g_tadr h) else c)"
    "pending (abs_hub (mfp_hub_timer_a_event h)) =
       (if c = 0 then pending (abs_hub h) \<union> ({13} \<inter> enabled (abs_hub h)) else pending (abs_hub h))"
    "enabled (abs_hub (mfp_hub_timer_a_event h)) = enabled (abs_hub h)"
proof -
  have "g_tacnt h \<le> 1 \<longleftrightarrow> c = 0" using assms(2) by (simp add: word_le_nat_alt)
  moreover have "unat (g_tacnt h - 1) = c" using assms(2) unat_minus_one [of "g_tacnt h"] by force
  moreover have "abs_hub (h\<lparr>g_tacnt := x\<rparr>) = abs_hub h" for x by (simp add: abs_hub_def)
  ultimately show "g_tacr (mfp_hub_timer_a_event h) = 8" "g_tadr (mfp_hub_timer_a_event h) = g_tadr h"
    "unat (g_tacnt (mfp_hub_timer_a_event h)) = (if c = 0 then unat (g_tadr h) else c)"
    "pending (abs_hub (mfp_hub_timer_a_event h)) =
       (if c = 0 then pending (abs_hub h) \<union> ({13} \<inter> enabled (abs_hub h)) else pending (abs_hub h))"
    "enabled (abs_hub (mfp_hub_timer_a_event h)) = enabled (abs_hub h)"
    using assms(1) by (simp_all add: mfp_hub_timer_a_event_def Let_def abs_raise)
qed

lemma timer_events:
  assumes "g_tacr h = 8" "unat (g_tadr h) = n" "unat (g_tacnt h) = n" "0 < n"
  defines "t \<equiv> \<lambda>k. (mfp_hub_timer_a_event ^^ k) h"
  shows "g_tacr (t k) = 8 \<and> unat (g_tadr (t k)) = n \<and> unat (g_tacnt (t k)) = n - k mod n \<and>
    enabled (abs_hub (t k)) = enabled (abs_hub h) \<and>
    pending (abs_hub (t k)) = (if n \<le> k then pending (abs_hub h) \<union> ({13} \<inter> enabled (abs_hub h)) else pending (abs_hub h))"
proof (induction k)
  case 0
  then show ?case using assms by simp
next
  case (Suc k)
  have "k mod n < n" using assms(4) by simp
  then have c: "unat (g_tacnt (t k)) = Suc (n - Suc (k mod n))" using Suc by simp
  have e: "n - Suc (k mod n) = 0 \<longleftrightarrow> Suc k mod n = 0" "n - Suc (k mod n) \<noteq> 0 \<Longrightarrow> Suc k mod n = Suc (k mod n)"
    using \<open>k mod n < n\<close> by (auto simp: mod_Suc)
  have z: "Suc k mod n = 0 \<Longrightarrow> n \<le> Suc k" by (auto dest: dvd_imp_le simp: mod_eq_0_iff_dvd)
  have m: "n \<le> Suc k \<Longrightarrow> Suc k mod n \<noteq> 0 \<Longrightarrow> n \<le> k" by (cases "n = Suc k") auto
  have t: "t (Suc k) = mfp_hub_timer_a_event (t k)" by (simp add: t_def)
  from Suc have "g_tacr (t k) = 8" by simp
  note ev = timer_event [OF this c, folded t]
  show ?case using ev Suc e z m by (auto split: if_splits)
qed

text \<open>C36: Timer A in event-count mode divides by its data register. After the guest has written
  \<open>b\<close> to TADR and 8 to TACR, the channel of Timer A, if it is enabled, becomes pending at the \<open>n\<close>-th
  event and not before, where \<open>n\<close> is \<open>b\<close>, or 256 for 0; the counter restarts then and always shows
  the events that are left.\<close>

theorem timer_a_counts:
  "let n = (if b = 0 then 256 else unat b);
       t = (mfp_hub_timer_a_event ^^ k) (reg_write 0x00FFFA19 8 (reg_write 0x00FFFA1F b h))
   in unat (g_tacnt t) = n - k mod n \<and>
      pending (abs_hub t) = (if n \<le> k then pending (abs_hub h) \<union> ({13} \<inter> enabled (abs_hub h)) else pending (abs_hub h))"
proof -
  let ?h = "reg_write 0x00FFFA19 8 (reg_write 0x00FFFA1F b h)"
  have w: "reg_write 0x00FFFA1F b h = h\<lparr>g_tadr := (if b \<noteq> 0 then ucast b else 256), g_tacnt := (if b \<noteq> 0 then ucast b else 256)\<rparr>"
    by (simp add: reg_write_def)
  have "g_tacr ?h = 8" "unat (g_tadr ?h) = (if b = 0 then 256 else unat b)" "unat (g_tacnt ?h) = (if b = 0 then 256 else unat b)"
    unfolding w using tad_bounds [of b] by (simp_all add: reg_write_def)
  moreover have "0 < (if b = 0 then 256 else unat b)" by (simp add: unat_gt_0)
  moreover have "abs_hub ?h = abs_hub h" by (simp add: w reg_write_def abs_hub_def)
  ultimately show ?thesis using timer_events [of ?h "if b = 0 then 256 else unat b" k] by (simp add: Let_def)
qed

end
