(* ===== verification/Acia_Kbd.thy ===== *)
theory Acia_Kbd
  imports Bus "HOL-Library.Sublist"
begin

text \<open>
  The receive rescue of the keyboard ACIA (\<open>gpio/ps_protocol.c\<close>): while the CPU thread is busy,
  \<open>ipl_task\<close> moves received bytes from the chip into a FIFO, and the guest's reads of the two ACIA
  registers are served from it first. Every function holds the bus lock for its whole body, so an
  interleaving of the two threads is a sequence of these functions.
\<close>

section \<open>The FIFO and its operations\<close>

definition ACIA_KBD_CTRL :: u32 where [c_const]: "ACIA_KBD_CTRL = 0x00FFFC00"
definition ACIA_KBD_DATA :: u32 where [c_const]: "ACIA_KBD_DATA = 0x00FFFC02"
definition ACIA_KQ_SIZE :: u32 where [c_const]: "ACIA_KQ_SIZE = 1024"

record acia_fifo =
  acia_kq :: "nat \<Rightarrow> u8"
  acia_kq_head :: u32
  acia_kq_tail :: u32
  ps_acia_kbd_rescued :: u32
  ps_acia_kbd_dropped :: u32

definition ps_acia_kbd_pending :: "acia_fifo \<Rightarrow> bool" where
  "ps_acia_kbd_pending q \<longleftrightarrow> acia_kq_head q \<noteq> acia_kq_tail q"

definition kq_index :: "u32 \<Rightarrow> nat" where
  "kq_index i = unat (i AND (ACIA_KQ_SIZE - 1))"

definition ps_acia_kbd_read8 ::
  "bus_env \<Rightarrow> u32 \<Rightarrow> acia_fifo \<times> 'a bus_state_scheme \<Rightarrow> u8 \<times> acia_fifo \<times> 'a bus_state_scheme" where
  "ps_acia_kbd_read8 env addr qs =
     (let (q, s) = qs; a = addr AND 0x00FFFFFF in
      if a = ACIA_KBD_DATA \<and> acia_kq_head q \<noteq> acia_kq_tail q
      then (acia_kq q (kq_index (acia_kq_head q)), q\<lparr>acia_kq_head := acia_kq_head q + 1\<rparr>, s)
      else
        (let ((d, b), s1) = ps_read_txn env (ReadByte (fc s) addr) s;
             v = (if addr AND 1 \<noteq> 0 then ucast d else ucast (drop_bit 8 d));
             v = (if a = ACIA_KBD_CTRL \<and> acia_kq_head q \<noteq> acia_kq_tail q then v OR 0x81 else v)
         in (v, q, latch_berr b addr s1)))"

definition ps_acia_kbd_read16 ::
  "bus_env \<Rightarrow> u32 \<Rightarrow> acia_fifo \<times> 'a bus_state_scheme \<Rightarrow> u16 \<times> acia_fifo \<times> 'a bus_state_scheme" where
  "ps_acia_kbd_read16 env addr qs =
     (let (q, s) = qs; a = addr AND 0x00FFFFFF in
      if a = ACIA_KBD_DATA \<and> acia_kq_head q \<noteq> acia_kq_tail q
      then (push_bit 8 (ucast (acia_kq q (kq_index (acia_kq_head q)))) OR 0xFF, q\<lparr>acia_kq_head := acia_kq_head q + 1\<rparr>, s)
      else
        (let ((d, b), s1) = ps_read_txn env (ReadWord (fc s) addr) s;
             v = (if a = ACIA_KBD_CTRL \<and> acia_kq_head q \<noteq> acia_kq_tail q then d OR 0x8100 else d)
         in (v, q, latch_berr b addr s1)))"

definition ps_acia_kbd_ctrl_written :: "u8 \<Rightarrow> acia_fifo \<Rightarrow> acia_fifo" where
  "ps_acia_kbd_ctrl_written cr q = (if cr AND 0x03 \<noteq> 0x03 then q else q\<lparr>acia_kq_head := acia_kq_tail q\<rparr>)"

text \<open>The argument \<open>locked\<close> is the result of \<open>ps_bus_lock_within\<close>.\<close>

definition ps_acia_kbd_rescue ::
  "bus_env \<Rightarrow> bool \<Rightarrow> acia_fifo \<times> 'a bus_state_scheme \<Rightarrow> nat \<times> acia_fifo \<times> 'a bus_state_scheme" where
  "ps_acia_kbd_rescue env locked qs =
     (let (q, s) = qs in
      if \<not> locked then (0, q, s)
      else
        (let ((d, b), s1) = ps_read_txn env (ReadByte 5 ACIA_KBD_CTRL) s in
         if \<not> b \<and> drop_bit 8 d AND 0x01 \<noteq> 0
         then
           (let ((d2, b2), s2) = ps_read_txn env (ReadByte 5 ACIA_KBD_DATA) s1 in
            if \<not> b2
            then
              (if acia_kq_tail q - acia_kq_head q < ACIA_KQ_SIZE
               then (1, q\<lparr>acia_kq := (acia_kq q)(kq_index (acia_kq_tail q) := ucast (drop_bit 8 d2)),
                          acia_kq_tail := acia_kq_tail q + 1,
                          ps_acia_kbd_rescued := ps_acia_kbd_rescued q + 1\<rparr>, s2)
               else (0, q\<lparr>ps_acia_kbd_dropped := ps_acia_kbd_dropped q + 1\<rparr>, s2))
            else (0, q, s2))
         else (0, q, s1)))"

section \<open>The FIFO as a queue\<close>

definition kq_len :: "acia_fifo \<Rightarrow> nat" where
  "kq_len q = unat (acia_kq_tail q - acia_kq_head q)"

definition queue :: "acia_fifo \<Rightarrow> u8 list" where
  "queue q = map (\<lambda>i. acia_kq q (kq_index (acia_kq_head q + of_nat i))) [0..<kq_len q]"

lemma kq_index_mod: "kq_index i = unat i mod 1024"
proof -
  have "(ACIA_KQ_SIZE - 1) = (mask 10 :: u32)" by (simp add: ACIA_KQ_SIZE_def mask_eq_exp_minus_1)
  then show ?thesis by (simp add: kq_index_def unat_and_mask)
qed

lemma unat_add_mod: "unat (x + of_nat i) mod 1024 = (unat x + i) mod 1024" for x :: u32
proof -
  have "unat (x + of_nat i) = (unat x + i) mod 2 ^ 32"
    by (simp add: unat_word_ariths unat_of_nat mod_simps)
  then show ?thesis by (simp add: mod_mod_cancel)
qed

lemma queue_empty: "queue q = [] \<longleftrightarrow> \<not> ps_acia_kbd_pending q"
  by (auto simp: queue_def kq_len_def ps_acia_kbd_pending_def unat_eq_zero)

lemma pending_iff: "ps_acia_kbd_pending q \<longleftrightarrow> queue q \<noteq> []"
  by (simp add: queue_empty)

lemma queue_length [simp]: "length (queue q) = kq_len q"
  by (simp add: queue_def)

lemma kq_len_pop:
  assumes "acia_kq_head q \<noteq> acia_kq_tail q"
  shows "kq_len q = Suc (kq_len (q\<lparr>acia_kq_head := acia_kq_head q + 1\<rparr>))"
proof -
  let ?d = "acia_kq_tail q - acia_kq_head q"
  have "?d \<noteq> 0" using assms by simp
  then have "unat (?d - 1) = unat ?d - 1" "0 < unat ?d" by (simp_all add: unat_minus_one unat_gt_0)
  moreover have e: "acia_kq_tail q - (acia_kq_head q + 1) = ?d - 1" by simp
  ultimately have "unat ?d = Suc (unat (acia_kq_tail q - (acia_kq_head q + 1)))" unfolding e by simp
  then show ?thesis by (simp add: kq_len_def)
qed

lemma queue_pop:
  assumes "acia_kq_head q \<noteq> acia_kq_tail q"
  shows "queue q = acia_kq q (kq_index (acia_kq_head q)) # queue (q\<lparr>acia_kq_head := acia_kq_head q + 1\<rparr>)"
proof -
  let ?q = "q\<lparr>acia_kq_head := acia_kq_head q + 1\<rparr>"
  have "queue q = map (\<lambda>i. acia_kq q (kq_index (acia_kq_head q + of_nat i))) (0 # map Suc [0..<kq_len ?q])"
    unfolding queue_def kq_len_pop [OF assms] by (simp add: upt_conv_Cons map_Suc_upt del: upt_Suc)
  then show ?thesis by (simp add: queue_def comp_def add.assoc)
qed

lemma queue_push:
  assumes "acia_kq_tail q - acia_kq_head q < ACIA_KQ_SIZE"
  shows "queue (q\<lparr>acia_kq := (acia_kq q)(kq_index (acia_kq_tail q) := b), acia_kq_tail := acia_kq_tail q + 1,
      ps_acia_kbd_rescued := r\<rparr>) = queue q @ [b]"
proof -
  let ?n = "kq_len q"
  have n: "?n < 1024" using assms by (simp add: kq_len_def ACIA_KQ_SIZE_def word_less_nat_alt)
  have e: "acia_kq_tail q + 1 - acia_kq_head q = (acia_kq_tail q - acia_kq_head q) + 1" by simp
  have "unat (acia_kq_tail q - acia_kq_head q + 1) = unat (acia_kq_tail q - acia_kq_head q) + 1"
    using unat_add_small [of "acia_kq_tail q - acia_kq_head q" 1] n by (simp add: kq_len_def)
  then have l: "unat (acia_kq_tail q + 1 - acia_kq_head q) = Suc ?n" unfolding e by (simp add: kq_len_def)
  have t: "acia_kq_tail q = acia_kq_head q + of_nat ?n" by (simp add: kq_len_def)
  have x: "kq_index (acia_kq_head q + of_nat i) = (unat (acia_kq_head q) + i) mod 1024" for i
    by (simp only: kq_index_mod unat_add_mod)
  have d: "kq_index (acia_kq_head q + of_nat i) = kq_index (acia_kq_tail q) \<longleftrightarrow> i = ?n" if "i \<le> ?n" for i
  proof
    assume "kq_index (acia_kq_head q + of_nat i) = kq_index (acia_kq_tail q)"
    then have "(unat (acia_kq_head q) + ?n) mod 1024 = (unat (acia_kq_head q) + i) mod 1024" using x [of i] x [of ?n] t by simp
    then have "1024 dvd ?n - i" using mod_eq_dvd_iff_nat [of "unat (acia_kq_head q) + i" "unat (acia_kq_head q) + ?n" 1024] that by simp
    then show "i = ?n" using n that by (auto dest: dvd_imp_le)
  next
    assume "i = ?n"
    then show "kq_index (acia_kq_head q + of_nat i) = kq_index (acia_kq_tail q)" using t by simp
  qed
  show ?thesis using l d by (auto simp: queue_def kq_len_def)
qed


section \<open>The two threads together\<close>

text \<open>The bytes the chip has given up: its data register was read without a bus error.\<close>

fun is_data_read :: "bus_cycle \<Rightarrow> bool" where
  "is_data_read (ReadByte _ a) = (a AND 0x00FFFFFF = ACIA_KBD_DATA)"
| "is_data_read (ReadWord _ a) = (a AND 0x00FFFFFF = ACIA_KBD_DATA)"
| "is_data_read _ = False"

definition chip_byte :: "bus_env \<Rightarrow> bus_cycle list \<Rightarrow> u8" where
  "chip_byte env h = ucast (drop_bit 8 (env_data env h))"

fun chip_bytes :: "bus_env \<Rightarrow> bus_cycle list \<Rightarrow> u8 list" where
  "chip_bytes env [] = []"
| "chip_bytes env (c # h) =
     chip_bytes env h @ (if is_data_read c \<and> \<not> env_berr env (c # h) then [chip_byte env (c # h)] else [])"

text \<open>The machine: FIFO and bus, the bytes the guest has read or has thrown away with a master reset,
  and the number of bytes that found the FIFO full. A read of the data register that ends in a bus
  error gives the guest no byte. Cycles of the guest at other addresses come in between.\<close>

type_synonym kbd_state = "(acia_fifo \<times> bus_state) \<times> u8 list \<times> nat"

definition got_byte :: "bus_env \<Rightarrow> u32 \<Rightarrow> acia_fifo \<Rightarrow> bus_state \<Rightarrow> bool" where
  "got_byte env a q t \<longleftrightarrow>
     a AND 0x00FFFFFF = ACIA_KBD_DATA \<and> (ps_acia_kbd_pending q \<or> \<not> env_berr env (bus_hist t))"

inductive kbd_step :: "bus_env \<Rightarrow> kbd_state \<Rightarrow> kbd_state \<Rightarrow> bool" for env :: bus_env
where
  kbd_read8: "ps_acia_kbd_read8 env a (q, s) = (v, q', t) \<Longrightarrow>
    kbd_step env ((q, s), gone, lost) ((q', t), gone @ (if got_byte env a q t then [v] else []), lost)"
| kbd_read16: "ps_acia_kbd_read16 env a (q, s) = (w, q', t) \<Longrightarrow>
    kbd_step env ((q, s), gone, lost) ((q', t), gone @ (if got_byte env a q t then [ucast (drop_bit 8 w)] else []), lost)"
| kbd_rescue: "ps_acia_kbd_rescue env locked (q, s) = (n, q', t) \<Longrightarrow>
    kbd_step env ((q, s), gone, lost)
      ((q', t), gone, lost + (if ps_acia_kbd_dropped q' = ps_acia_kbd_dropped q then 0 else 1))"
| kbd_ctrl: "q' = ps_acia_kbd_ctrl_written cr q \<Longrightarrow>
    kbd_step env ((q, s), gone, lost) ((q', s), gone @ take (kq_len q - kq_len q') (queue q), lost)"
| kbd_other: "\<not> is_data_read c \<Longrightarrow>
    kbd_step env ((q, s), gone, lost) ((q, s\<lparr>bus_hist := c # bus_hist s, g_buserr := b, fc := f\<rparr>), gone, lost)"

definition kbd_start :: "kbd_state \<Rightarrow> bool" where
  "kbd_start x \<longleftrightarrow> (\<exists>q s. x = ((q, s), [], 0) \<and> acia_kq_head q = acia_kq_tail q \<and> bus_hist s = [])"

definition kbd_inv :: "bus_env \<Rightarrow> kbd_state \<Rightarrow> bool" where
  "kbd_inv env x \<longleftrightarrow>
     (case x of ((q, s), gone, lost) \<Rightarrow>
        subseq (gone @ queue q) (chip_bytes env (bus_hist s)) \<and> kq_len q \<le> 1024 \<and>
        length (chip_bytes env (bus_hist s)) = length gone + kq_len q + lost)"

lemma read_txn_hist:
  assumes "ps_read_txn env c s = ((d, b), t)"
  shows "bus_hist t = c # bus_hist s" "b = env_berr env (c # bus_hist s)"
    "is_data_read c \<Longrightarrow> d = env_data env (c # bus_hist s)"
proof -
  have "bus_hist (gpip7_debounce x u) = bus_hist u" for x and u :: "'a bus_state_scheme"
    by (simp add: gpip7_debounce_def Let_def)
  then show "bus_hist t = c # bus_hist s" "b = env_berr env (c # bus_hist s)"
    using assms by (auto simp: ps_read_txn_def gpip7_filter_def Let_def split: if_splits)
  have "\<not> is_gpip_read c" if "is_data_read c" using that by (cases c) (auto simp: ACIA_KBD_DATA_def)
  then show "is_data_read c \<Longrightarrow> d = env_data env (c # bus_hist s)"
    using assms by (auto simp: ps_read_txn_def Let_def split: if_splits)
qed

lemma latch_hist [simp]: "bus_hist (latch_berr b a s) = bus_hist s"
  by (simp add: latch_berr_def)

text \<open>A read of the guest takes the head of the queue or the byte of the chip.\<close>

lemma read8_cases:
  assumes "ps_acia_kbd_read8 env a (q, s) = (v, q', t)"
  obtains (pop) "a AND 0x00FFFFFF = ACIA_KBD_DATA" "queue q = v # queue q'" "t = s"
  | (chip) "q' = q" "bus_hist t = ReadByte (fc s) a # bus_hist s"
      "a AND 0x00FFFFFF = ACIA_KBD_DATA \<Longrightarrow> queue q = [] \<and> v = chip_byte env (bus_hist t)"
proof (cases "a AND 0x00FFFFFF = ACIA_KBD_DATA \<and> acia_kq_head q \<noteq> acia_kq_tail q")
  case True
  then show ?thesis using assms queue_pop [of q] by (intro pop) (auto simp: ps_acia_kbd_read8_def Let_def)
next
  case False
  obtain d b s1 where r: "ps_read_txn env (ReadByte (fc s) a) s = ((d, b), s1)" by (metis surj_pair)
  have e: "a AND 1 = 0" if "a AND 0x00FFFFFF = ACIA_KBD_DATA"
  proof -
    have "a AND 1 = (a AND 0x00FFFFFF) AND 1" by (simp add: and.assoc)
    then show ?thesis by (simp add: that ACIA_KBD_DATA_def)
  qed
  show ?thesis
  proof (rule chip)
    show "q' = q" "bus_hist t = ReadByte (fc s) a # bus_hist s"
      using assms False r read_txn_hist(1) [OF r] by (auto simp: ps_acia_kbd_read8_def Let_def split: if_splits)
    show "queue q = [] \<and> v = chip_byte env (bus_hist t)" if "a AND 0x00FFFFFF = ACIA_KBD_DATA"
      using assms False r read_txn_hist [OF r] that e
      by (auto simp: ps_acia_kbd_read8_def Let_def queue_empty ps_acia_kbd_pending_def chip_byte_def c_const split: if_splits)
  qed
qed

lemma read16_cases:
  assumes "ps_acia_kbd_read16 env a (q, s) = (w, q', t)"
  obtains (pop) "a AND 0x00FFFFFF = ACIA_KBD_DATA" "queue q = ucast (drop_bit 8 w) # queue q'" "t = s"
  | (chip) "q' = q" "bus_hist t = ReadWord (fc s) a # bus_hist s"
      "a AND 0x00FFFFFF = ACIA_KBD_DATA \<Longrightarrow> queue q = [] \<and> ucast (drop_bit 8 w) = chip_byte env (bus_hist t)"
proof (cases "a AND 0x00FFFFFF = ACIA_KBD_DATA \<and> acia_kq_head q \<noteq> acia_kq_tail q")
  case True
  have "ucast (drop_bit 8 (push_bit 8 (ucast b) OR 0xFF :: u16)) = b" for b :: u8
  proof -
    have "(0xFF :: u16) = mask 8" by (simp add: mask_eq_exp_minus_1)
    then show ?thesis by (auto simp: bit_eq_iff bit_simps)
  qed
  then show ?thesis using True assms queue_pop [of q] by (intro pop) (auto simp: ps_acia_kbd_read16_def Let_def)
next
  case False
  obtain d b s1 where r: "ps_read_txn env (ReadWord (fc s) a) s = ((d, b), s1)" by (metis surj_pair)
  show ?thesis
  proof (rule chip)
    show "q' = q" "bus_hist t = ReadWord (fc s) a # bus_hist s"
      using assms False r read_txn_hist(1) [OF r] by (auto simp: ps_acia_kbd_read16_def Let_def split: if_splits)
    show "queue q = [] \<and> ucast (drop_bit 8 w) = chip_byte env (bus_hist t)" if "a AND 0x00FFFFFF = ACIA_KBD_DATA"
      using assms False r read_txn_hist [OF r] that
      by (auto simp: ps_acia_kbd_read16_def Let_def queue_empty ps_acia_kbd_pending_def chip_byte_def c_const split: if_splits)
  qed
qed


lemma kq_len_push: "queue q' = queue q @ [b] \<Longrightarrow> kq_len q' = Suc (kq_len q)"
  by (metis length_append_singleton queue_length)

text \<open>A rescue issues no data read, or takes the chip's byte: into the FIFO, or nowhere if it is full.\<close>

lemma rescue_cases:
  assumes "ps_acia_kbd_rescue env locked (q, s) = (n, q', t)"
  obtains (idle) "q' = q" "chip_bytes env (bus_hist t) = chip_bytes env (bus_hist s)"
  | (push) b where "queue q' = queue q @ [b]" "chip_bytes env (bus_hist t) = chip_bytes env (bus_hist s) @ [b]"
      "ps_acia_kbd_dropped q' = ps_acia_kbd_dropped q" "kq_len q < 1024"
  | (full) b where "queue q' = queue q" "kq_len q' = kq_len q" "chip_bytes env (bus_hist t) = chip_bytes env (bus_hist s) @ [b]"
      "ps_acia_kbd_dropped q' \<noteq> ps_acia_kbd_dropped q" "1024 \<le> kq_len q"
proof -
  obtain d b s1 where r: "ps_read_txn env (ReadByte 5 ACIA_KBD_CTRL) s = ((d, b), s1)" by (metis surj_pair)
  obtain d2 b2 s2 where r2: "ps_read_txn env (ReadByte 5 ACIA_KBD_DATA) s1 = ((d2, b2), s2)" by (metis surj_pair)
  note h1 = read_txn_hist [OF r]
  note h2 = read_txn_hist [OF r2]
  have c1: "chip_bytes env (bus_hist s1) = chip_bytes env (bus_hist s)" by (simp add: h1(1) c_const)
  have c2: "chip_bytes env (bus_hist s2) = chip_bytes env (bus_hist s1) @ (if b2 then [] else [ucast (drop_bit 8 d2)])"
    using h2 by (simp add: chip_byte_def c_const)
  have sz: "acia_kq_tail q - acia_kq_head q < ACIA_KQ_SIZE \<longleftrightarrow> kq_len q < 1024"
    by (simp add: kq_len_def c_const word_less_nat_alt)
  define p where "p \<longleftrightarrow> drop_bit 8 d AND 0x01 \<noteq> 0"
  have rq: "ps_acia_kbd_rescue env locked (q, s) =
      (if \<not> locked then (0, q, s)
       else if \<not> b \<and> p
       then (if \<not> b2
             then (if kq_len q < 1024
                   then (1, q\<lparr>acia_kq := (acia_kq q)(kq_index (acia_kq_tail q) := ucast (drop_bit 8 d2)),
                           acia_kq_tail := acia_kq_tail q + 1, ps_acia_kbd_rescued := ps_acia_kbd_rescued q + 1\<rparr>, s2)
                   else (0, q\<lparr>ps_acia_kbd_dropped := ps_acia_kbd_dropped q + 1\<rparr>, s2))
             else (0, q, s2))
       else (0, q, s1))"
    unfolding ps_acia_kbd_rescue_def Let_def prod.case r r2 sz p_def ..
  note e = assms [unfolded rq]
  show ?thesis
  proof (cases "locked \<and> \<not> b \<and> p \<and> \<not> b2")
    case True
    show ?thesis
    proof (cases "kq_len q < 1024")
      case len: True
      then have t: "t = s2" and q: "q' = q\<lparr>acia_kq := (acia_kq q)(kq_index (acia_kq_tail q) := ucast (drop_bit 8 d2)),
          acia_kq_tail := acia_kq_tail q + 1, ps_acia_kbd_rescued := ps_acia_kbd_rescued q + 1\<rparr>"
        using e True by simp_all
      show ?thesis using c1 c2 sz len True queue_push [of q] by (intro push [of "ucast (drop_bit 8 d2)"]) (simp_all add: t q)
    next
      case len: False
      then have t: "t = s2" and q: "q' = q\<lparr>ps_acia_kbd_dropped := ps_acia_kbd_dropped q + 1\<rparr>" using e True by simp_all
      show ?thesis
        using c1 c2 len True by (intro full [of "ucast (drop_bit 8 d2)"]) (simp_all add: t q queue_def kq_len_def)
    qed
  next
    case False
    then have "q' = q \<and> (t = s \<or> t = s1 \<or> t = s2 \<and> b2)" using e by (simp split: if_splits)
    then show ?thesis using c1 c2 by (intro idle) auto
  qed
qed

text \<open>The effect of a guest read on the three logs.\<close>

lemma kbd_inv_pop:
  assumes "kbd_inv env ((q, s), gone, lost)" "queue q = v # queue q'"
  shows "kbd_inv env ((q', s), gone @ [v], lost)"
proof -
  have "kq_len q = Suc (kq_len q')" using assms(2) by (metis length_Cons queue_length)
  then show ?thesis using assms by (auto simp: kbd_inv_def)
qed

lemma kbd_inv_chip:
  assumes "kbd_inv env ((q, s), gone, lost)" "queue q = []" "is_data_read c" "bus_hist t = c # bus_hist s"
  shows "kbd_inv env ((q, t), gone @ (if env_berr env (bus_hist t) then [] else [chip_byte env (bus_hist t)]), lost)"
proof -
  have "kq_len q = 0" using assms(2) by (metis list.size(3) queue_length)
  then show ?thesis using assms by (auto simp: kbd_inv_def intro: list_emb_append_mono)
qed

lemma kbd_inv_skip:
  assumes "kbd_inv env ((q, s), gone, lost)" "\<not> is_data_read c" "bus_hist t = c # bus_hist s"
  shows "kbd_inv env ((q, t), gone, lost)"
  using assms by (simp add: kbd_inv_def)

lemma kbd_inv_ctrl:
  assumes "kbd_inv env ((q, s), gone, lost)" "q' = ps_acia_kbd_ctrl_written cr q"
  shows "kbd_inv env ((q', s), gone @ take (kq_len q - kq_len q') (queue q), lost)"
proof (cases "cr AND 0x03 = 0x03")
  case True
  then have "q' = q\<lparr>acia_kq_head := acia_kq_tail q\<rparr>" using assms(2) by (simp add: ps_acia_kbd_ctrl_written_def)
  then have "kq_len q' = 0" "queue q' = []" by (simp_all add: kq_len_def queue_def)
  then show ?thesis using assms(1) by (simp add: kbd_inv_def)
next
  case False
  then have "q' = q" using assms(2) by (simp add: ps_acia_kbd_ctrl_written_def)
  then show ?thesis using assms(1) by simp
qed

lemma kbd_inv_rescue:
  assumes i: "kbd_inv env ((q, s), gone, lost)" and r: "ps_acia_kbd_rescue env locked (q, s) = (n, q', t)"
  shows "kbd_inv env ((q', t), gone, lost + (if ps_acia_kbd_dropped q' = ps_acia_kbd_dropped q then 0 else 1))"
  using r
proof (cases rule: rescue_cases)
  case idle
  then show ?thesis using i by (simp add: kbd_inv_def)
next
  case (push b)
  have "subseq ((gone @ queue q) @ [b]) (chip_bytes env (bus_hist s) @ [b])"
    using i by (intro list_emb_append_mono) (auto simp: kbd_inv_def)
  then show ?thesis using push i kq_len_push [OF push(1)] by (simp add: kbd_inv_def)
next
  case (full b)
  have "subseq (gone @ queue q) (chip_bytes env (bus_hist s) @ [b])"
    using i by (auto simp: kbd_inv_def intro: list_emb_append2)
  then show ?thesis using full i by (simp add: kbd_inv_def)
qed

interpretation acia: invariant_system kbd_start "kbd_step env" "kbd_inv env" for env
proof
  show "kbd_inv env x" if "kbd_start x" for x
    using that by (auto simp: kbd_start_def kbd_inv_def queue_def kq_len_def)
  show "kbd_inv env y" if i: "kbd_inv env x" and st: "kbd_step env x y" for x y
    using st
  proof cases
    case (kbd_read8 a q s v q' t gone lost)
    note i = i [unfolded kbd_read8(1)]
    from kbd_read8(3) show ?thesis
    proof (cases rule: read8_cases)
      case pop
      then show ?thesis using kbd_read8(2) kbd_inv_pop [OF i] by (simp add: got_byte_def pending_iff)
    next
      case chip
      then show ?thesis using kbd_read8(2) kbd_inv_chip [OF i _ _ chip(2)] kbd_inv_skip [OF i _ chip(2)]
        by (cases "a AND 0x00FFFFFF = ACIA_KBD_DATA") (auto simp: got_byte_def pending_iff)
    qed
  next
    case (kbd_read16 a q s w q' t gone lost)
    note i = i [unfolded kbd_read16(1)]
    from kbd_read16(3) show ?thesis
    proof (cases rule: read16_cases)
      case pop
      then show ?thesis using kbd_read16(2) kbd_inv_pop [OF i] by (simp add: got_byte_def pending_iff)
    next
      case chip
      then show ?thesis using kbd_read16(2) kbd_inv_chip [OF i _ _ chip(2)] kbd_inv_skip [OF i _ chip(2)]
        by (cases "a AND 0x00FFFFFF = ACIA_KBD_DATA") (auto simp: got_byte_def pending_iff)
    qed
  next
    case (kbd_rescue locked q s n q' t gone lost)
    then show ?thesis using kbd_inv_rescue i by simp
  next
    case (kbd_ctrl q' cr q s gone lost)
    then show ?thesis using kbd_inv_ctrl i by simp
  next
    case (kbd_other c q s gone lost b f)
    then show ?thesis using i by (auto intro: kbd_inv_skip)
  qed
qed


section \<open>Nothing is invented and nothing is reordered\<close>

text \<open>C4: Whatever the interleaving of guest reads, rescues, master resets and other bus traffic, the
  bytes the guest has had, followed by those in the FIFO, are bytes of the chip in the order the
  chip gave them up, without a duplicate; bytes are missing only for as many as found the FIFO full
  of 1024 bytes, and while the FIFO is not full a rescue loses none. The 32-bit counters of the
  FIFO may wrap.\<close>

theorem acia_bytes_in_order:
  assumes "reach kbd_start (kbd_step env) ((q, s), gone, lost)"
  shows "subseq (gone @ queue q) (chip_bytes env (bus_hist s)) \<and>
    length (chip_bytes env (bus_hist s)) = length (gone @ queue q) + lost \<and>
    (lost = 0 \<longrightarrow> gone @ queue q = chip_bytes env (bus_hist s)) \<and> length (queue q) \<le> 1024 \<and>
    (length (queue q) < 1024 \<longrightarrow>
       ps_acia_kbd_dropped (fst (snd (ps_acia_kbd_rescue env locked (q, s)))) = ps_acia_kbd_dropped q)"
proof -
  have i: "subseq (gone @ queue q) (chip_bytes env (bus_hist s))" "kq_len q \<le> 1024"
    "length (chip_bytes env (bus_hist s)) = length gone + kq_len q + lost"
    using acia.reach_inv [OF assms] by (simp_all add: kbd_inv_def)
  have "gone @ queue q = chip_bytes env (bus_hist s)" if "lost = 0"
    using subseq_same_length [OF i(1)] i(3) that by simp
  moreover have "ps_acia_kbd_dropped (fst (snd (ps_acia_kbd_rescue env locked (q, s)))) = ps_acia_kbd_dropped q" if "kq_len q < 1024"
  proof -
    obtain n q' t where r: "ps_acia_kbd_rescue env locked (q, s) = (n, q', t)" by (metis surj_pair)
    then show ?thesis using that by (cases rule: rescue_cases) (simp_all add: r)
  qed
  ultimately show ?thesis using i by simp
qed

text \<open>A chip that has a byte for every read, the number of cycles so far. Two rescues, then the guest
  reads: it gets the byte of the first rescue.\<close>

definition kbd_env :: bus_env where
  "kbd_env = \<lparr>env_data = (\<lambda>h. if length h mod 2 = 1 then 0x8100 else push_bit 8 (of_nat (length h))), env_berr = (\<lambda>_. False),
     env_mmap_fixed = (\<lambda>_. True), env_memfd = True, env_hugetlb_release = True, env_mprotect = (\<lambda>_. True)\<rparr>"

definition kbd_bus :: bus_state where
  "kbd_bus = \<lparr>bus_hist = [], g_buserr = False, g_buserr_addr = 0, fc = 5, regs_s = True, ps_gpip7_force = 0,
     ps_gpip7_stable = 1, gpip7_run = 0, ps_gpip7_glitches = 0, ps_gpip7_reads = 0\<rparr>"

definition kbd_fifo :: acia_fifo where
  "kbd_fifo = \<lparr>acia_kq = (\<lambda>_. 0), acia_kq_head = 0xFFFFFFFF, acia_kq_tail = 0xFFFFFFFF, ps_acia_kbd_rescued = 0, ps_acia_kbd_dropped = 0\<rparr>"

definition kbd_two :: "acia_fifo \<times> bus_state" where
  "kbd_two = snd (ps_acia_kbd_rescue kbd_env True (snd (ps_acia_kbd_rescue kbd_env True (kbd_fifo, kbd_bus))))"

lemma reach_rescue:
  assumes "reach kbd_start (kbd_step env) (x, gone, 0)"
    "ps_acia_kbd_dropped (fst (snd (ps_acia_kbd_rescue env l x))) = ps_acia_kbd_dropped (fst x)"
  shows "reach kbd_start (kbd_step env) (snd (ps_acia_kbd_rescue env l x), gone, 0)"
proof -
  obtain q s n q' t where x: "x = (q, s)" and r: "ps_acia_kbd_rescue env l (q, s) = (n, q', t)" by (metis surj_pair)
  have "kbd_step env (x, gone, 0) ((q', t), gone, 0)" using kbd_step.kbd_rescue [OF r, of gone 0] assms(2) by (simp add: x r)
  with assms(1) show ?thesis by (auto simp: x r intro: reach.step)
qed

lemma kbd_two_reach: "reach kbd_start (kbd_step kbd_env) (kbd_two, [], 0)"
proof -
  have "reach kbd_start (kbd_step kbd_env) ((kbd_fifo, kbd_bus), [], 0)"
    by (rule reach.start) (simp add: kbd_start_def kbd_fifo_def kbd_bus_def)
  then have "reach kbd_start (kbd_step kbd_env) (snd (ps_acia_kbd_rescue kbd_env True (kbd_fifo, kbd_bus)), [], 0)"
    by (rule reach_rescue) code_simp
  then show ?thesis unfolding kbd_two_def by (rule reach_rescue) code_simp
qed

theorem acia_bytes_in_order_witness:
  "queue (fst kbd_two) = chip_bytes kbd_env (bus_hist (snd kbd_two)) \<and> queue (fst kbd_two) = [2, 4] \<and>
   fst (ps_acia_kbd_read8 kbd_env 0x00FFFC02 kbd_two) = 2"
proof (intro conjI)
  show "queue (fst kbd_two) = chip_bytes kbd_env (bus_hist (snd kbd_two))"
    using acia_bytes_in_order [of kbd_env "fst kbd_two" "snd kbd_two" "[]" 0] kbd_two_reach by simp
qed code_simp+

end
