(* ===== verification/Dma_Snoop.thy ===== *)
theory Dma_Snoop
  imports Guest_Ram
begin

text \<open>
  Bus-master DMA by real hardware (\<open>platforms/atari/fdd/dma_snoop.c\<close>). A floppy or hard disk
  controller of the machine writes the board's RAM behind the emulator's back. The snoop follows the
  DMA registers as the guest programs them and, when the controller reports the end of a transfer,
  copies the window from the bus into the mirror; before a transfer to the device it copies the
  mirror to the bus. Log lines are left out, the counters that bound them are kept.
\<close>

section \<open>Registers and state\<close>

definition FDC_DATA_REG :: u32 where [c_const]: "FDC_DATA_REG = 0xFF8604"
definition DMA_MODE_REG :: u32 where [c_const]: "DMA_MODE_REG = 0xFF8606"
definition DMA_BASE_HIGH :: u32 where [c_const]: "DMA_BASE_HIGH = 0xFF8609"
definition DMA_BASE_MID :: u32 where [c_const]: "DMA_BASE_MID = 0xFF860B"
definition DMA_BASE_LOW :: u32 where [c_const]: "DMA_BASE_LOW = 0xFF860D"
definition DMA_MODE_SCREG :: u32 where [c_const]: "DMA_MODE_SCREG = 0x10"
definition DMA_MODE_RW :: u32 where [c_const]: "DMA_MODE_RW = 0x100"
definition DMA_STATUS_SCZERO :: u32 where [c_const]: "DMA_STATUS_SCZERO = 0x02"
definition STRAM_LIMIT :: u32 where [c_const]: "STRAM_LIMIT = 0x400000"
definition MAX_SYNC_SECTORS :: u32 where [c_const]: "MAX_SYNC_SECTORS = 256"
definition TRACE_MAX :: u32 where [c_const]: "TRACE_MAX = 240"

record dma_snoop_state =
  snoop_env :: int
  dma_base :: u32
  dma_mode :: u32
  dma_count :: u32
  win_base :: u32
  win_count :: u32
  win_is_write :: bool
  win_armed :: bool
  pulls :: u32
  traced :: u32

section \<open>Operations\<close>

definition trace_access :: "dma_snoop_state \<Rightarrow> dma_snoop_state" where
  "trace_access d = (if traced d \<ge> TRACE_MAX then d else d\<lparr>traced := traced d + 1\<rparr>)"

text \<open>The first argument is the environment variable \<open>PISTORM_DMA_SNOOP\<close>, read at the first call.\<close>

definition dma_snoop_active :: "string option \<Rightarrow> dma_snoop_state \<Rightarrow> int \<times> dma_snoop_state" where
  "dma_snoop_active e d =
     (let d1 = (if snoop_env d < 0
                then d\<lparr>snoop_env :=
                         (case e of
                            Some (c # _) \<Rightarrow>
                              if c = CHR ''3'' then 3 else if c = CHR ''2'' then 2 else if c = CHR ''1'' then 1 else 0
                          | _ \<Rightarrow> 0)\<rparr>
                else d)
      in (snoop_env d1, d1))"

definition dma_snoop_owns :: "u32 \<Rightarrow> bool" where
  "dma_snoop_owns addr \<longleftrightarrow> addr \<ge> 0xFF8600 \<and> addr \<le> 0xFF860F"

definition read_dma_base :: "bus_env \<Rightarrow> 'a bus_state_scheme \<Rightarrow> u32 \<times> 'a bus_state_scheme" where
  "read_dma_base env s =
     (let (h, s1) = ps_read_8 env DMA_BASE_HIGH s;
          (m, s2) = ps_read_8 env DMA_BASE_MID s1;
          (l, s3) = ps_read_8 env DMA_BASE_LOW s2
      in (push_bit 16 (ucast h) OR push_bit 8 (ucast m) OR ucast l, s3))"

text \<open>The inner loops: a buffer read from the bus and a buffer written to it.\<close>

fun bus_get :: "bus_env \<Rightarrow> u32 \<Rightarrow> nat \<Rightarrow> 'a bus_state_scheme \<Rightarrow> u8 list \<times> 'a bus_state_scheme" where
  "bus_get env a 0 s = ([], s)"
| "bus_get env a (Suc n) s =
     (let (b, s1) = ps_read_8 env a s; (bs, s2) = bus_get env (a + 1) n s1 in (b # bs, s2))"

fun bus_put :: "bus_env \<Rightarrow> u32 \<Rightarrow> u8 list \<Rightarrow> 'a bus_state_scheme \<Rightarrow> 'a bus_state_scheme" where
  "bus_put env a [] s = s"
| "bus_put env a (b # bs) s = bus_put env (a + 1) bs (ps_write_8 env a b s)"

fun pull_sectors :: "bus_env \<Rightarrow> u32 \<Rightarrow> nat \<Rightarrow> u32 \<Rightarrow> dma_snoop_state \<times> 'a smc_state_scheme \<Rightarrow>
  dma_snoop_state \<times> 'a smc_state_scheme" where
  "pull_sectors env base 0 off ds = ds"
| "pull_sectors env base (Suc n) off (d, s) =
     (let (buf, s1) = bus_get env (base + off) 512 s;
          s2 = pistorm_dma_to_stram (base + off) buf s1;
          d1 = (if pulls d < 6 \<and> off = 0 then d\<lparr>pulls := pulls d + 1\<rparr> else d)
      in pull_sectors env base n (off + 512) (d1, s2))"

definition sync_pull :: "bus_env \<Rightarrow> u32 \<Rightarrow> u32 \<Rightarrow> dma_snoop_state \<times> 'a smc_state_scheme \<Rightarrow>
  dma_snoop_state \<times> 'a smc_state_scheme" where
  "sync_pull env base count0 ds =
     (let count = (if count0 > MAX_SYNC_SECTORS then MAX_SYNC_SECTORS else count0);
          len = count * 512
      in if len = 0 \<or> base \<ge> STRAM_LIMIT \<or> base + len > STRAM_LIMIT then ds
         else pull_sectors env base (unat count) 0 ds)"

text \<open>\<open>buf\<close> is the buffer on the stack: \<open>pistorm_dma_from_stram\<close> leaves it alone when the range is not
  RAM.\<close>

fun push_sectors :: "bus_env \<Rightarrow> u32 \<Rightarrow> nat \<Rightarrow> u32 \<Rightarrow> u8 list \<Rightarrow> 'a smc_state_scheme \<Rightarrow> 'a smc_state_scheme" where
  "push_sectors env base 0 off buf s = s"
| "push_sectors env base (Suc n) off buf s =
     (let buf1 = (case pistorm_dma_from_stram (base + off) 512 s of Some b \<Rightarrow> b | None \<Rightarrow> buf)
      in push_sectors env base n (off + 512) buf1 (bus_put env (base + off) buf1 s))"

definition sync_push :: "bus_env \<Rightarrow> u8 list \<Rightarrow> u32 \<Rightarrow> u32 \<Rightarrow> 'a smc_state_scheme \<Rightarrow> 'a smc_state_scheme" where
  "sync_push env buf base count0 s =
     (let count = (if count0 > MAX_SYNC_SECTORS then MAX_SYNC_SECTORS else count0);
          len = count * 512
      in if len = 0 \<or> base \<ge> STRAM_LIMIT \<or> base + len > STRAM_LIMIT then s
         else push_sectors env base (unat count) 0 buf s)"

text \<open>\<open>$FF8604\<close> and \<open>$FF8606\<close> are word registers: a byte access to the odd half means the register.\<close>

definition snoop_reg :: "u32 \<Rightarrow> u32" where
  "snoop_reg addr = (if addr = 0xFF8605 \<or> addr = 0xFF8607 then addr AND NOT 1 else addr)"

text \<open>A write to the data register: a sector count, or a command byte that starts the transfer.\<close>

definition snoop_data_write :: "bus_env \<Rightarrow> u8 list \<Rightarrow> u32 \<Rightarrow> dma_snoop_state \<times> 'a smc_state_scheme \<Rightarrow>
  dma_snoop_state \<times> 'a smc_state_scheme" where
  "snoop_data_write env buf val ds =
     (let (d, s) = ds in
      if dma_mode d AND DMA_MODE_SCREG \<noteq> 0 then (d\<lparr>dma_count := val AND 0xFF\<rparr>, s)
      else if dma_count d \<noteq> 0 then
        (let d1 = d\<lparr>win_base := dma_base d, win_count := dma_count d,
                    win_is_write := (dma_mode d AND DMA_MODE_RW \<noteq> 0), win_armed := True\<rparr>;
             s1 = (if snoop_env d1 = 2 then snd (ps_read_16 env DMA_MODE_REG s) else s);
             s2 = (if win_is_write d1 then sync_push env buf (win_base d1) (win_count d1) s1 else s1)
         in (d1, s2))
      else (d, s))"

text \<open>A byte or word write.\<close>

definition snoop_write :: "string option \<Rightarrow> bus_env \<Rightarrow> u8 list \<Rightarrow> u32 \<Rightarrow> u32 \<Rightarrow> nat \<Rightarrow>
  dma_snoop_state \<times> 'a smc_state_scheme \<Rightarrow> dma_snoop_state \<times> 'a smc_state_scheme" where
  "snoop_write e env buf addr0 val0 sz ds =
     (let (d0, s) = ds; (act, d) = dma_snoop_active e d0 in
      if act = 0 \<or> \<not> dma_snoop_owns addr0 then (d, s)
      else
        (let addr = snoop_reg addr0;
             val = (if sz = 2 then val0 AND 0xFFFF else val0);
             d1 = (if snoop_env d = 3 then trace_access d else d)
         in if addr = DMA_BASE_HIGH
            then (d1\<lparr>dma_base := dma_base d1 AND 0x00FFFF OR push_bit 16 (val AND 0xFF)\<rparr>, s)
            else if addr = DMA_BASE_MID
            then (d1\<lparr>dma_base := dma_base d1 AND 0xFF00FF OR push_bit 8 (val AND 0xFF)\<rparr>, s)
            else if addr = DMA_BASE_LOW
            then (d1\<lparr>dma_base := dma_base d1 AND 0xFFFF00 OR val AND 0xFF\<rparr>, s)
            else if addr = DMA_MODE_REG then (d1\<lparr>dma_mode := val\<rparr>, s)
            else if addr = FDC_DATA_REG then snoop_data_write env buf val (d1, s)
            else (d1, s)))"

definition dma_snoop_write :: "string option \<Rightarrow> bus_env \<Rightarrow> u8 list \<Rightarrow> u32 \<Rightarrow> u32 \<Rightarrow> nat \<Rightarrow>
  dma_snoop_state \<times> 'a smc_state_scheme \<Rightarrow> dma_snoop_state \<times> 'a smc_state_scheme" where
  "dma_snoop_write e env buf addr val sz ds =
     (let (act, d) = dma_snoop_active e (fst ds) in
      if act = 0 \<or> \<not> dma_snoop_owns addr then (d, snd ds)
      else if sz = 4 then
        snoop_write e env buf (addr + 2) (val AND 0xFFFF) 2
          (snoop_write e env buf addr (drop_bit 16 val AND 0xFFFF) 2 (d, snd ds))
      else snoop_write e env buf addr val sz (d, snd ds))"

definition snoop_read :: "string option \<Rightarrow> bus_env \<Rightarrow> u32 \<Rightarrow> u32 \<Rightarrow>
  dma_snoop_state \<times> 'a smc_state_scheme \<Rightarrow> dma_snoop_state \<times> 'a smc_state_scheme" where
  "snoop_read e env addr0 val ds =
     (let (d0, s) = ds; (act, d) = dma_snoop_active e d0 in
      if act = 0 then (d, s)
      else if \<not> win_armed d \<and> snoop_env d \<noteq> 3 then (d, s)
      else
        (let addr = snoop_reg addr0;
             d1 = (if snoop_env d = 3 then trace_access d else d)
         in if win_armed d1 \<and> addr = DMA_MODE_REG \<and> val AND DMA_STATUS_SCZERO \<noteq> 0 then
              (let d2 = d1\<lparr>win_armed := False\<rparr>;
                   s1 = (if snoop_env d2 = 2 then snd (read_dma_base env s) else s);
                   (d3, s2) = (if win_is_write d2 then (d2, s1) else sync_pull env (win_base d2) (win_count d2) (d2, s1))
               in (d3\<lparr>dma_count := 0\<rparr>, s2))
            else (d1, s)))"

definition dma_snoop_read :: "string option \<Rightarrow> bus_env \<Rightarrow> u32 \<Rightarrow> u32 \<Rightarrow> nat \<Rightarrow>
  dma_snoop_state \<times> 'a smc_state_scheme \<Rightarrow> dma_snoop_state \<times> 'a smc_state_scheme" where
  "dma_snoop_read e env addr val sz ds =
     (let (act, d) = dma_snoop_active e (fst ds) in
      if act = 0 then (d, snd ds)
      else if \<not> win_armed d \<and> snoop_env d \<noteq> 3 then (d, snd ds)
      else if sz = 4 then
        snoop_read e env (addr + 2) (val AND 0xFFFF) (snoop_read e env addr (drop_bit 16 val AND 0xFFFF) (d, snd ds))
      else snoop_read e env addr val (d, snd ds))"

section \<open>Reading a window from the bus\<close>

text \<open>The RAM of the board over the window of \<open>n\<close> bytes at \<open>lo\<close>, as byte reads on the bus show it: \<open>B\<close> is
  what the controller left there. The code does not ask whether the board decodes the window.\<close>

definition board_ram :: "bus_env \<Rightarrow> nat \<Rightarrow> nat \<Rightarrow> (u32 \<Rightarrow> u8) \<Rightarrow> bool" where
  "board_ram env lo n B \<longleftrightarrow> (\<forall>f a h. lo \<le> unat a \<and> unat a < lo + n \<longrightarrow>
     (if a AND 1 = 0 then ucast (drop_bit 8 (env_data env (ReadByte f a # h))) else ucast (env_data env (ReadByte f a # h))) =
       B a)"

text \<open>States that differ in what the bus has seen.\<close>

definition bus_seen :: "bus_cycle list \<Rightarrow> bool \<Rightarrow> u32 \<Rightarrow> 'a bus_state_scheme \<Rightarrow> 'a bus_state_scheme" where
  "bus_seen h b ba s = s\<lparr>bus_hist := h, g_buserr := b, g_buserr_addr := ba\<rparr>"

lemma bus_seen_twice [simp]: "bus_seen h b ba (bus_seen h' b' ba' s) = bus_seen h b ba s"
  by (simp add: bus_seen_def)

lemma bus_seen_self: "bus_seen (bus_hist s) (g_buserr s) (g_buserr_addr s) s = s"
  by (simp add: bus_seen_def)

lemma latch_berr_seen: "\<exists>b' ba. latch_berr b a (s\<lparr>bus_hist := h\<rparr>) = bus_seen h b' ba s"
proof (cases b)
  case True
  then show ?thesis by (auto simp: latch_berr_def bus_seen_def)
next
  case False
  then have "latch_berr b a (s\<lparr>bus_hist := h\<rparr>) = bus_seen h (g_buserr s) (g_buserr_addr s) s"
    by (simp add: latch_berr_def bus_seen_def)
  then show ?thesis by blast
qed

lemma ps_read_8_seen:
  assumes "a AND 0x00FFFFFF \<noteq> 0x00FFFA01"
  shows "\<exists>h b ba. ps_read_8 env a s =
    (if a AND 1 = 0 then ucast (drop_bit 8 (env_data env (ReadByte (fc s) a # bus_hist s)))
     else ucast (env_data env (ReadByte (fc s) a # bus_hist s)), bus_seen h b ba s)"
  using latch_berr_seen [of "env_berr env (ReadByte (fc s) a # bus_hist s)" a "ReadByte (fc s) a # bus_hist s" s] assms
  by (auto simp: ps_read_8_def ps_read_txn_def Let_def)

lemma below_limit: "a < STRAM_LIMIT \<Longrightarrow> a AND 0x00FFFFFF = a"
proof -
  assume "a < STRAM_LIMIT"
  then have "unat a < 2 ^ 24" by (simp add: word_less_nat_alt c_const)
  then have "take_bit 24 a = a" by (metis take_bit_nat_eq_self unat_take_bit unsigned_take_bit_eq word_unat_eq_iff)
  moreover have "(0x00FFFFFF :: u32) = mask 24" by (simp add: mask_eq_exp_minus_1)
  ultimately show ?thesis by (simp add: take_bit_eq_mask)
qed

lemma ps_read_8_board:
  assumes "board_ram env lo n B" "a < STRAM_LIMIT" "lo \<le> unat a" "unat a < lo + n"
  shows "\<exists>h b ba. ps_read_8 env a s = (B a, bus_seen h b ba s)"
proof -
  have "a AND 0x00FFFFFF \<noteq> 0x00FFFA01" using assms(2) below_limit [OF assms(2)] by (auto simp: c_const)
  then show ?thesis using ps_read_8_seen [of a env s] assms by (auto simp: board_ram_def)
qed

lemma bus_get_board:
  assumes "board_ram env lo k B"
  shows "unat a + n \<le> 0x400000 \<Longrightarrow> lo \<le> unat a \<Longrightarrow> unat a + n \<le> lo + k \<Longrightarrow>
    \<exists>h b ba. bus_get env a n s = (map (\<lambda>x. B (of_nat x)) [unat a..<unat a + n], bus_seen h b ba s)"
proof (induction n arbitrary: a s)
  case 0
  then show ?case using bus_seen_self [of s] by auto metis
next
  case (Suc n)
  have a: "a < STRAM_LIMIT" "unat (a + 1) = unat a + 1" using Suc.prems
    by (simp add: word_less_nat_alt c_const) (rule unat_Suc, use Suc.prems in simp)
  obtain h b ba where r: "ps_read_8 env a s = (B a, bus_seen h b ba s)" using ps_read_8_board [OF assms a(1), of s] Suc.prems by auto
  obtain h' b' ba' where "bus_get env (a + 1) n (bus_seen h b ba s) =
      (map (\<lambda>x. B (of_nat x)) [unat a + 1..<unat a + 1 + n], bus_seen h' b' ba' (bus_seen h b ba s))"
    using Suc.IH [of "a + 1" "bus_seen h b ba s"] Suc.prems a(2) by auto
  with r show ?case by (auto simp: upt_conv_Cons simp del: upt_Suc)
qed

section \<open>The copy into the mirror\<close>

text \<open>What a copy leaves: the bytes, the counters of the translation cache and the bus.\<close>

definition pulled :: "u32 \<Rightarrow> u8 list \<Rightarrow> 'a smc_state_scheme \<Rightarrow> 'a smc_state_scheme \<Rightarrow> bool" where
  "pulled a bs s t \<longleftrightarrow> (\<exists>j f h b ba. t = bus_seen h b ba (wrote a bs j f s) \<and> jit_flushes s \<le> f \<and>
     (flush_icache_set s \<longrightarrow> touches_code s a (length bs) \<longrightarrow> jit_flushes s < f))"

lemma bus_seen_ram [simp]:
  "flat (bus_seen h b ba s) = flat s" "g_stram_top (bus_seen h b ba s) = g_stram_top s"
  "jit_flushes (bus_seen h b ba s) = jit_flushes s" "flush_icache_set (bus_seen h b ba s) = flush_icache_set s"
  "touches_code (bus_seen h b ba s) a n = touches_code s a n" "nm_anon (bus_seen h b ba s) = nm_anon s"
  "wrote a bs j f (bus_seen h b ba s) = bus_seen h b ba (wrote a bs j f s)"
  by (simp_all add: bus_seen_def flat_def touches_code_def wrote_def)

lemma wrote_ram [simp]:
  "flat (wrote a bs j f s) = flat s" "g_stram_top (wrote a bs j f s) = g_stram_top s"
  "jit_flushes (wrote a bs j f s) = f" "flush_icache_set (wrote a bs j f s) = flush_icache_set s"
  "touches_code (wrote a bs j f s) x n = touches_code s x n"
  by (simp_all add: wrote_def flat_def touches_code_def)

lemma touches_code_append:
  "unat (a + of_nat m) = unat a + m \<Longrightarrow> touches_code s a (m + n) \<Longrightarrow>
   touches_code s a m \<or> touches_code s (a + of_nat m) n"
  unfolding touches_code_def by (metis add.assoc linorder_not_le)

lemma pulled_append:
  assumes "pulled a bs s t" "pulled (a + of_nat (length bs)) cs t u" "unat a + length bs + length cs < 2 ^ 32"
  shows "pulled a (bs @ cs) s u"
proof -
  obtain j f h b ba where t: "t = bus_seen h b ba (wrote a bs j f s)" "jit_flushes s \<le> f"
    "flush_icache_set s \<longrightarrow> touches_code s a (length bs) \<longrightarrow> jit_flushes s < f"
    using assms(1) by (auto simp: pulled_def)
  let ?c = "a + of_nat (length bs)"
  obtain j' f' h' b' ba' where u: "u = bus_seen h' b' ba' (wrote ?c cs j' f' t)" "jit_flushes t \<le> f'"
    "flush_icache_set t \<longrightarrow> touches_code t ?c (length cs) \<longrightarrow> jit_flushes t < f'"
    using assms(2) by (auto simp: pulled_def)
  have "unat (of_nat (length bs) :: u32) = length bs" using assms(3) by (simp add: unat_of_nat)
  then have c: "unat ?c = unat a + length bs" using assms(3) by (subst unat_add_small) simp_all
  have "wrote ?c cs j' f' (wrote a bs j f s) = wrote a (bs @ cs) j' f' s"
    using put_bytes_append [OF assms(3)] by (simp add: wrote_def)
  then have "u = bus_seen h' b' ba' (wrote a (bs @ cs) j' f' s)" using u(1) t(1) by simp
  moreover have "jit_flushes s < f'" if "flush_icache_set s" "touches_code s a (length bs + length cs)"
    using touches_code_append [OF c that(2)] that(1) t u(2,3) by auto
  ultimately show ?thesis using t(1,2) u(2) unfolding pulled_def by fastforce
qed

lemma pulled_one:
  assumes "flat s" "0 < length bs" "length bs \<le> 4096" "unat a + length bs \<le> 0x400000" "0x400000 \<le> unat (g_stram_top s)"
    "unat (g_stram_top s) \<le> 0x01000000"
  shows "pulled a bs s (pistorm_dma_to_stram a bs (bus_seen h b ba s))"
proof -
  have "a < g_stram_top s" unfolding word_less_nat_alt using assms(2,4,5) by linarith
  then obtain j f where "pistorm_dma_to_stram a bs (bus_seen h b ba s) = wrote a bs j f (bus_seen h b ba s)" "jit_flushes s \<le> f"
    "flush_icache_set s \<Longrightarrow> touches_code s a (length bs) \<Longrightarrow> jit_flushes s < f"
    using dma_to_stram_wrote [of "bus_seen h b ba s" a bs] assms by auto
  then show ?thesis unfolding pulled_def by (metis bus_seen_ram(7))
qed

lemma pull_sectors_pulled:
  assumes B: "board_ram env lo k B"
  shows "lo \<le> unat base \<Longrightarrow> unat base + unat off + n * 512 \<le> lo + k \<Longrightarrow> flat s \<Longrightarrow> 0x400000 \<le> unat (g_stram_top s) \<Longrightarrow> unat (g_stram_top s) \<le> 0x01000000 \<Longrightarrow>
    unat base + unat off + n * 512 \<le> 0x400000 \<Longrightarrow>
    \<exists>p t. pull_sectors env base n off (d, s) = (d\<lparr>pulls := p\<rparr>, t) \<and>
      pulled (base + off) (map (\<lambda>x. B (of_nat x)) [unat (base + off)..<unat (base + off) + n * 512]) s t"
proof (induction n arbitrary: off d s)
  case 0
  have "pulled (base + off) [] s s"
    unfolding pulled_def
    by (rule exI [of _ "g_jp_smc s"], rule exI [of _ "jit_flushes s"], rule exI [of _ "bus_hist s"],
        rule exI [of _ "g_buserr s"], rule exI [of _ "g_buserr_addr s"])
      (simp add: wrote_def bus_seen_self touches_code_def)
  then show ?case by (intro exI [of _ "pulls d"] exI [of _ s]) simp
next
  case (Suc n)
  have u: "unat (base + off) = unat base + unat off" "unat (off + 512) = unat off + 512"
    using Suc.prems(6) by (simp_all add: unat_add_small)
  let ?a = "base + off"
  let ?B = "\<lambda>m. map (\<lambda>x. B (of_nat x)) [unat ?a..<unat ?a + m]"
  obtain h b ba where g: "bus_get env ?a 512 s = (?B 512, bus_seen h b ba s)"
    using bus_get_board [OF B, of ?a 512 s] Suc.prems(1,2,6) u(1) by auto
  define t where "t = pistorm_dma_to_stram ?a (?B 512) (bus_seen h b ba s)"
  have p: "pulled ?a (?B 512) s t"
    unfolding t_def using Suc.prems u(1) by (intro pulled_one) simp_all
  then have keep: "flat t = flat s" "g_stram_top t = g_stram_top s" by (auto simp: pulled_def)
  define d1 where "d1 = (if pulls d < 6 \<and> off = 0 then d\<lparr>pulls := pulls d + 1\<rparr> else d)"
  have a: "base + (off + 512) = ?a + of_nat 512" "unat (?a + of_nat 512) = unat ?a + 512"
    using Suc.prems(6) u by (simp_all add: unat_add_small add.assoc)
  obtain p' t' where r: "pull_sectors env base n (off + 512) (d1, t) = (d1\<lparr>pulls := p'\<rparr>, t')"
    "pulled (?a + of_nat 512) (map (\<lambda>x. B (of_nat x)) [unat ?a + 512..<unat ?a + 512 + n * 512]) t t'"
    using Suc.IH [of "off + 512" t d1] Suc.prems keep u(2) unfolding a by auto
  have "?B 512 @ map (\<lambda>x. B (of_nat x)) [unat ?a + 512..<unat ?a + 512 + n * 512] = ?B (Suc n * 512)"
    using upt_add_eq_append [of "unat ?a" "unat ?a + 512" "n * 512"] by (simp add: add.assoc flip: map_append)
  moreover have "pulled ?a (?B 512 @ map (\<lambda>x. B (of_nat x)) [unat ?a + 512..<unat ?a + 512 + n * 512]) s t'"
    using p r(2) Suc.prems(6) u(1) by (intro pulled_append [of _ _ _ t]) simp_all
  moreover have "d1\<lparr>pulls := p'\<rparr> = d\<lparr>pulls := p'\<rparr>" by (simp add: d1_def)
  ultimately show ?case using r(1) by (auto simp: g Let_def t_def [symmetric] d1_def [symmetric])
qed

text \<open>Every byte of the window is what the board holds, and no other byte of the mirror has changed.\<close>

lemma pulled_bytes:
  assumes "pulled a (map (\<lambda>x. B (of_nat x)) [unat a..<unat a + n]) s t" "unat a + n < 2 ^ 32"
  shows "nm_anon t x = (if unat a \<le> unat x \<and> unat x < unat a + n then B x else nm_anon s x)"
    "flush_icache_set s \<Longrightarrow> touches_code s a n \<Longrightarrow> jit_flushes s < jit_flushes t"
proof -
  obtain j f h b ba where t: "t = bus_seen h b ba (wrote a (map (\<lambda>x. B (of_nat x)) [unat a..<unat a + n]) j f s)"
    "flush_icache_set s \<longrightarrow> touches_code s a n \<longrightarrow> jit_flushes s < f"
    using assms(1) by (auto simp: pulled_def)
  show "nm_anon t x = (if unat a \<le> unat x \<and> unat x < unat a + n then B x else nm_anon s x)"
    by (auto simp: t(1) wrote_def put_bytes_def)
  show "jit_flushes s < jit_flushes t" if "flush_icache_set s" "touches_code s a n"
    using that t by simp
qed

section \<open>Programming a transfer\<close>

text \<open>The accesses of the guest to the DMA registers, with their size; a read carries the value the
  controller gave.\<close>

datatype dma_access = DmaWrite u32 u32 nat | DmaRead u32 u32 nat

fun dma_run :: "string option \<Rightarrow> bus_env \<Rightarrow> u8 list \<Rightarrow> dma_access list \<Rightarrow>
  dma_snoop_state \<times> 'a smc_state_scheme \<Rightarrow> dma_snoop_state \<times> 'a smc_state_scheme" where
  "dma_run e env buf [] ds = ds"
| "dma_run e env buf (DmaWrite a v n # as) ds = dma_run e env buf as (dma_snoop_write e env buf a v n ds)"
| "dma_run e env buf (DmaRead a v n # as) ds = dma_run e env buf as (dma_snoop_read e env a v n ds)"

lemma dma_run_append: "dma_run e env buf (as @ bs) ds = dma_run e env buf bs (dma_run e env buf as ds)"
  by (induction e env buf as ds rule: dma_run.induct) simp_all

definition window_addr :: "u8 \<Rightarrow> u8 \<Rightarrow> u8 \<Rightarrow> u32" where
  "window_addr bh bm bl = push_bit 16 (ucast bh) OR push_bit 8 (ucast bm) OR ucast bl"

definition long_of :: "u16 \<Rightarrow> u16 \<Rightarrow> u32" where
  "long_of hi lo = push_bit 16 (ucast hi) OR ucast lo"

lemma snoop_masks: "(0xFF :: u32) = mask 8" "(0xFFFF :: u32) = mask 16"
  by (simp_all add: mask_eq_exp_minus_1)

lemma long_of_parts: "drop_bit 16 (long_of hi lo) AND 0xFFFF = ucast hi" "long_of hi lo AND 0xFFFF = ucast lo"
  unfolding snoop_masks long_of_def
  by (rule bit_eqI, auto simp: bit_simps dest: bit_imp_le_length)+

lemma ucast_and_masks:
  "(ucast (b :: u8) :: u32) AND 0xFF = ucast b" "(ucast (b :: u8) :: u32) AND 0xFFFF = ucast b"
  "(ucast (w :: u16) :: u32) AND 0xFFFF = ucast w"
  unfolding snoop_masks by (rule bit_eqI, auto simp: bit_simps dest: bit_imp_le_length)+

lemma dma_base_written:
  "((old AND 0xFFFF00 OR ucast bl) AND 0xFF00FF OR push_bit 8 (ucast bm)) AND 0x00FFFF OR push_bit 16 (ucast bh) =
     window_addr bh bm bl"
proof -
  have m: "(0xFFFF00 :: u32) = push_bit 8 (mask 16)" "(0xFF00FF :: u32) = push_bit 16 (mask 8) OR mask 8"
    "(0x00FFFF :: u32) = mask 16"
    by (simp_all add: mask_eq_exp_minus_1)
  show ?thesis unfolding m window_addr_def by (rule bit_eqI) (auto simp: bit_simps dest: bit_imp_le_length)
qed

lemma active_on [simp]: "0 < snoop_env d \<Longrightarrow> dma_snoop_active e d = (snoop_env d, d)"
  by (simp add: dma_snoop_active_def)

lemma trace_access_keeps [simp]:
  "snoop_env (trace_access d) = snoop_env d" "dma_base (trace_access d) = dma_base d" "dma_mode (trace_access d) = dma_mode d"
  "dma_count (trace_access d) = dma_count d" "win_base (trace_access d) = win_base d" "win_count (trace_access d) = win_count d"
  "win_is_write (trace_access d) = win_is_write d" "win_armed (trace_access d) = win_armed d"
  by (simp_all add: trace_access_def)

lemmas dma_regs = dma_snoop_owns_def snoop_reg_def c_const

text \<open>A transfer from the device has been programmed; its window has been armed.\<close>

definition dma_ready :: "u32 \<Rightarrow> u32 \<Rightarrow> dma_snoop_state \<Rightarrow> bool" where
  "dma_ready a n d \<longleftrightarrow> 0 < snoop_env d \<and> dma_base d = a \<and> dma_count d = n \<and>
     dma_mode d AND DMA_MODE_SCREG = 0 \<and> dma_mode d AND DMA_MODE_RW = 0"

definition dma_armed :: "u32 \<Rightarrow> u32 \<Rightarrow> dma_snoop_state \<Rightarrow> bool" where
  "dma_armed a n d \<longleftrightarrow> dma_ready a n d \<and> win_base d = a \<and> win_count d = n \<and> \<not> win_is_write d \<and> win_armed d"

definition sees :: "'a bus_state_scheme \<Rightarrow> 'a bus_state_scheme \<Rightarrow> bool" where
  "sees s t \<longleftrightarrow> (\<exists>h b ba. t = bus_seen h b ba s)"

lemma seesI [simp, intro]: "sees s (bus_seen h b ba s)"
  unfolding sees_def by blast

lemma sees_refl [simp, intro]: "sees s s"
  unfolding sees_def by (metis bus_seen_self)

lemma sees_trans: "sees s t \<Longrightarrow> sees t u \<Longrightarrow> sees s u"
  unfolding sees_def by (metis bus_seen_twice)

lemma sees_read_16: "a AND 0x00FFFFFF \<noteq> 0x00FFFA00 \<Longrightarrow> sees s (snd (ps_read_16 env a s))"
  using latch_berr_seen [of "env_berr env (ReadWord (fc s) a # bus_hist s)" a "ReadWord (fc s) a # bus_hist s" s]
  by (auto simp: ps_read_16_def ps_read_txn_def Let_def sees_def)

definition dma_setup :: "u8 \<Rightarrow> u8 \<Rightarrow> u8 \<Rightarrow> u16 \<Rightarrow> u8 \<Rightarrow> u16 \<Rightarrow> dma_access list" where
  "dma_setup bh bm bl m1 n m2 =
     [DmaWrite DMA_BASE_LOW (ucast bl) 1, DmaWrite DMA_BASE_MID (ucast bm) 1, DmaWrite DMA_BASE_HIGH (ucast bh) 1,
      DmaWrite DMA_MODE_REG (ucast m1) 2, DmaWrite FDC_DATA_REG (ucast n) 2, DmaWrite DMA_MODE_REG (ucast m2) 2]"

text \<open>A command byte with the next mode, in one long write.\<close>

definition dma_commands :: "(u16 \<times> u16) list \<Rightarrow> dma_access list" where
  "dma_commands cms = map (\<lambda>(c, m). DmaWrite FDC_DATA_REG (long_of c m) 4) cms"

lemma dma_setup_ready:
  assumes "0 < snoop_env d" "(ucast m1 :: u32) AND DMA_MODE_SCREG \<noteq> 0"
    "(ucast m2 :: u32) AND DMA_MODE_SCREG = 0" "(ucast m2 :: u32) AND DMA_MODE_RW = 0"
  shows "\<exists>d'. dma_run e env buf (dma_setup bh bm bl m1 n m2) (d, s) = (d', s) \<and> dma_ready (window_addr bh bm bl) (ucast n) d'"
  using assms dma_base_written [of "dma_base d" bl bm bh]
  by (simp add: dma_setup_def dma_snoop_write_def snoop_write_def snoop_data_write_def dma_ready_def dma_regs
      ucast_and_masks Let_def)

lemma dma_command_arms:
  assumes "dma_ready a n d" "n \<noteq> 0" "(ucast m :: u32) AND DMA_MODE_SCREG = 0" "(ucast m :: u32) AND DMA_MODE_RW = 0"
  shows "\<exists>d' t. dma_snoop_write e env buf FDC_DATA_REG (long_of c m) 4 (d, s) = (d', t) \<and> dma_armed a n d' \<and> sees s t"
proof -
  have o: "dma_snoop_owns FDC_DATA_REG" "dma_snoop_owns (FDC_DATA_REG + 2)" "snoop_reg FDC_DATA_REG = FDC_DATA_REG"
    "snoop_reg (FDC_DATA_REG + 2) = DMA_MODE_REG" "FDC_DATA_REG \<noteq> DMA_BASE_HIGH" "FDC_DATA_REG \<noteq> DMA_BASE_MID"
    "FDC_DATA_REG \<noteq> DMA_BASE_LOW" "FDC_DATA_REG \<noteq> DMA_MODE_REG" "DMA_MODE_REG \<noteq> DMA_BASE_HIGH"
    "DMA_MODE_REG \<noteq> DMA_BASE_MID" "DMA_MODE_REG \<noteq> DMA_BASE_LOW"
    by (simp_all add: dma_regs)
  have "sees s (snd (ps_read_16 env DMA_MODE_REG s))" by (rule sees_read_16) (simp add: c_const)
  then show ?thesis
    using assms o by (simp add: dma_snoop_write_def snoop_write_def snoop_data_write_def dma_ready_def dma_armed_def
        long_of_parts ucast_and_masks Let_def)
qed

lemma dma_commands_arm:
  assumes "cms \<noteq> []" "dma_ready a n d" "n \<noteq> 0"
    "\<forall>(c, m) \<in> set cms. (ucast m :: u32) AND DMA_MODE_SCREG = 0 \<and> (ucast m :: u32) AND DMA_MODE_RW = 0"
  shows "\<exists>d' t. dma_run e env buf (dma_commands cms) (d, s) = (d', t) \<and> dma_armed a n d' \<and> sees s t"
  using assms
proof (induction cms arbitrary: d s)
  case (Cons cm cms)
  obtain c m where cm: "cm = (c, m)" by fastforce
  obtain d1 s1 where w: "dma_snoop_write e env buf FDC_DATA_REG (long_of c m) 4 (d, s) = (d1, s1)" "dma_armed a n d1" "sees s s1"
    using dma_command_arms [of a n d m e env buf c s] Cons.prems cm by auto
  show ?case
  proof (cases "cms = []")
    case True
    then show ?thesis using w by (simp add: dma_commands_def cm)
  next
    case False
    then obtain d2 s2 where "dma_run e env buf (dma_commands cms) (d1, s1) = (d2, s2)" "dma_armed a n d2" "sees s1 s2"
      using Cons.IH [of d1 s1] Cons.prems w(2) by (auto simp: dma_armed_def)
    then show ?thesis using w sees_trans [OF w(3)] by (auto simp: dma_commands_def cm)
  qed
qed simp

lemma sees_read_dma_base: "sees s (snd (read_dma_base env s))"
proof -
  have r: "sees s (snd (ps_read_8 env a s))" if "a AND 0x00FFFFFF \<noteq> 0x00FFFA01" for a and s :: "'a bus_state_scheme"
    using ps_read_8_seen [OF that, of env s] by auto
  have "sees s (snd (ps_read_8 env DMA_BASE_LOW (snd (ps_read_8 env DMA_BASE_MID (snd (ps_read_8 env DMA_BASE_HIGH s))))))"
    by (intro sees_trans [OF r sees_trans [OF r r]]) (simp_all add: c_const)
  then show ?thesis by (simp add: read_dma_base_def Let_def case_prod_unfold)
qed

lemma sees_ram:
  assumes "sees s t"
  shows "flat t = flat s" "g_stram_top t = g_stram_top s" "nm_anon t = nm_anon s" "jit_flushes t = jit_flushes s"
    "flush_icache_set t = flush_icache_set s" "touches_code t a n = touches_code s a n"
  using assms by (auto simp: sees_def)

text \<open>The status read that ends the transfer.\<close>

lemma dma_status_pulls:
  assumes arm: "dma_armed a n d" and st: "v AND DMA_STATUS_SCZERO \<noteq> 0" and B: "board_ram env (unat a) (unat n * 512) B" and s: "flat s"
    "0x400000 \<le> unat (g_stram_top s)" "unat (g_stram_top s) \<le> 0x01000000"
    and n: "0 < unat n" "unat n \<le> 255" "unat a + unat n * 512 \<le> 0x400000"
  shows "\<exists>d' s' t. dma_snoop_read e env DMA_MODE_REG v 2 (d, s) = (d', t) \<and> \<not> win_armed d' \<and> dma_count d' = 0 \<and>
    sees s s' \<and> pulled a (map (\<lambda>x. B (of_nat x)) [unat a..<unat a + unat n * 512]) s' t"
proof -
  have on: "0 < snoop_env d" "win_armed d" "\<not> win_is_write d" "win_base d = a" "win_count d = n"
    using arm by (simp_all add: dma_armed_def dma_ready_def)
  let ?d = "(if snoop_env d = 3 then trace_access d else d)\<lparr>win_armed := False\<rparr>"
  define s' where "s' = (if snoop_env d = 2 then snd (read_dma_base env s) else s)"
  have see: "sees s s'" by (simp add: s'_def sees_read_dma_base)
  have len: "unat (n * 512) = unat n * 512" using n(2) by (simp add: unat_word_ariths)
  have sum: "unat (a + n * 512) = unat a + unat n * 512" using n(3) len by (simp add: unat_add_small)
  have "sync_pull env a n (?d, s') = pull_sectors env a (unat n) 0 (?d, s')"
    using n len sum by (auto simp: sync_pull_def Let_def c_const word_less_nat_alt word_le_nat_alt unat_eq_0 [symmetric])
  moreover obtain p t where r: "pull_sectors env a (unat n) 0 (?d, s') = (?d\<lparr>pulls := p\<rparr>, t)"
    "pulled a (map (\<lambda>x. B (of_nat x)) [unat a..<unat a + unat n * 512]) s' t"
    using pull_sectors_pulled [OF B, of a 0 "unat n" s' ?d] s n(3) sees_ram [OF see] by auto
  ultimately have "dma_snoop_read e env DMA_MODE_REG v 2 (d, s) = (?d\<lparr>pulls := p, dma_count := 0\<rparr>, t)"
    using on st
    by (cases "snoop_env d = 3")
      (simp_all add: dma_snoop_read_def snoop_read_def snoop_reg_def Let_def s'_def DMA_MODE_REG_def)
  with r(2) see show ?thesis by auto
qed

section \<open>Pushing a window to the bus\<close>

text \<open>The cycles of a copy of the mirror to the bus, newest first.\<close>

definition push_cycles :: "u8 \<Rightarrow> (u32 \<Rightarrow> u8) \<Rightarrow> nat \<Rightarrow> nat \<Rightarrow> bus_cycle list" where
  "push_cycles f m a n = rev (map (\<lambda>x. WriteByte f (of_nat x) (m (of_nat x))) [a..<a + n])"

lemma sees_write_8: "\<exists>b ba. ps_write_8 env a v s = bus_seen (WriteByte (fc s) a v # bus_hist s) b ba s"
  using latch_berr_seen [of "env_berr env (WriteByte (fc s) a v # bus_hist s)" a "WriteByte (fc s) a v # bus_hist s" s]
  by (simp add: ps_write_8_def ps_write_txn_def Let_def)

lemma bus_put_hist:
  "unat a + length bs < 2 ^ 32 \<Longrightarrow> \<exists>b ba. bus_put env a bs s =
     bus_seen (rev (map (\<lambda>i. WriteByte (fc s) (of_nat (unat a + i)) (bs ! i)) [0..<length bs]) @ bus_hist s) b ba s"
proof (induction bs arbitrary: a s)
  case Nil
  then show ?case using bus_seen_self [of s] by auto metis
next
  case (Cons v bs)
  obtain b ba where w: "ps_write_8 env a v s = bus_seen (WriteByte (fc s) a v # bus_hist s) b ba s"
    using sees_write_8 by blast
  let ?s = "bus_seen (WriteByte (fc s) a v # bus_hist s) b ba s"
  have f: "fc ?s = fc s" "bus_hist ?s = WriteByte (fc s) a v # bus_hist s" by (simp_all add: bus_seen_def)
  have u: "unat (a + 1) = unat a + 1" using Cons.prems by (intro unat_Suc) simp
  obtain b' ba' where "bus_put env (a + 1) bs ?s = bus_seen (rev (map (\<lambda>i. WriteByte (fc s) (of_nat (unat a + 1 + i)) (bs ! i))
      [0..<length bs]) @ WriteByte (fc s) a v # bus_hist s) b' ba' s"
    using Cons.IH [of "a + 1" ?s] Cons.prems unfolding f u by auto
  moreover have "map (\<lambda>i. WriteByte (fc s) (of_nat (unat a + i)) ((v # bs) ! i)) [0..<length (v # bs)] =
      WriteByte (fc s) a v # map (\<lambda>i. WriteByte (fc s) (of_nat (unat a + 1 + i)) (bs ! i)) [0..<length bs]"
    by (simp add: upt_conv_Cons flip: map_Suc_upt del: upt_Suc)
  ultimately show ?case using w by auto
qed

lemma push_sectors_hist:
  "flat s \<Longrightarrow> 0x400000 \<le> unat (g_stram_top s) \<Longrightarrow> unat base + unat off + n * 512 \<le> 0x400000 \<Longrightarrow>
   \<exists>b ba. push_sectors env base n off buf s =
     bus_seen (push_cycles (fc s) (nm_anon s) (unat base + unat off) (n * 512) @ bus_hist s) b ba s"
proof (induction n arbitrary: off buf s)
  case 0
  then show ?case using bus_seen_self [of s] by (auto simp: push_cycles_def) metis
next
  case (Suc n)
  let ?a = "unat base + unat off"
  have u: "unat (base + off) = ?a" "unat (off + 512) = unat off + 512"
    using Suc.prems(3) by (simp_all add: unat_add_small)
  let ?bs = "map (\<lambda>x. nm_anon s (of_nat x)) [?a..<?a + 512]"
  have "base + off < g_stram_top s" "512 \<le> g_stram_top s - (base + off)"
    using Suc.prems(2,3) u(1) by (simp_all add: word_less_nat_alt word_le_nat_alt unat_sub)
  then have l: "pistorm_dma_from_stram (base + off) 512 s = Some ?bs"
    using natmem_load_flat [OF Suc.prems(1), of "base + off" 512] Suc.prems(3) u(1)
    by (simp add: pistorm_dma_from_stram_def)
  have c: "map (\<lambda>i. WriteByte (fc s) (of_nat (?a + i)) (?bs ! i)) [0..<512] =
      map (\<lambda>x. WriteByte (fc s) (of_nat x) (nm_anon s (of_nat x))) [?a..<?a + 512]"
    by (rule nth_equalityI) simp_all
  obtain b ba where p: "bus_put env (base + off) ?bs s = bus_seen (push_cycles (fc s) (nm_anon s) ?a 512 @ bus_hist s) b ba s"
    using bus_put_hist [of "base + off" ?bs env s] Suc.prems(3) u(1) c by (auto simp: push_cycles_def)
  let ?s = "bus_seen (push_cycles (fc s) (nm_anon s) ?a 512 @ bus_hist s) b ba s"
  have f: "fc ?s = fc s" "bus_hist ?s = push_cycles (fc s) (nm_anon s) ?a 512 @ bus_hist s" by (simp_all add: bus_seen_def)
  obtain b' ba' where "push_sectors env base n (off + 512) ?bs ?s =
      bus_seen (push_cycles (fc s) (nm_anon s) (?a + 512) (n * 512) @ push_cycles (fc s) (nm_anon s) ?a 512 @ bus_hist s) b' ba' s"
    using Suc.IH [of ?s "off + 512" ?bs] Suc.prems u(2) unfolding f by (auto simp: add.assoc)
  moreover have "push_cycles (fc s) (nm_anon s) ?a (Suc n * 512) =
      push_cycles (fc s) (nm_anon s) (?a + 512) (n * 512) @ push_cycles (fc s) (nm_anon s) ?a 512"
    using upt_add_eq_append [of ?a "?a + 512" "n * 512"]
    by (simp add: push_cycles_def add.assoc flip: rev_append map_append)
  ultimately show ?case using l p by (auto simp: Let_def)
qed

section \<open>Properties\<close>

text \<open>C11: what a bus-master device writes into the machine becomes visible to the guest. With the snoop
  on at any level, a guest that writes an address, a sector count and command bytes to the DMA registers
  and then reads the status with the sector count at zero has, in the mirror, exactly the bytes that reads
  of the bus show over the whole window (the code does not ask whether the board decodes all of it); every
  other byte is as before, a page of translated code in the window makes the translator flush, and the
  window is disarmed.\<close>

theorem dma_read_visible:
  assumes "board_ram env (unat (window_addr bh bm bl)) (unat n * 512) B" and "flat s" and "0x400000 \<le> unat (g_stram_top s)" and "unat (g_stram_top s) \<le> 0x01000000"
    and "0 < snoop_env d" and "n \<noteq> 0" and "(ucast m1 :: u32) AND DMA_MODE_SCREG \<noteq> 0"
    and "\<forall>m \<in> insert m2 (snd ` set cms). (ucast m :: u32) AND DMA_MODE_SCREG = 0 \<and> (ucast m :: u32) AND DMA_MODE_RW = 0"
    and "cms \<noteq> []" and "v AND DMA_STATUS_SCZERO \<noteq> 0"
    and "unat (window_addr bh bm bl) + unat n * 512 \<le> 0x400000"
  shows "\<exists>d' t. dma_run e env buf (dma_setup bh bm bl m1 n m2 @ dma_commands cms @ [DmaRead DMA_MODE_REG v 2]) (d, s) = (d', t) \<and>
    (\<forall>x. natmem_byte t x =
       (if unat (window_addr bh bm bl) \<le> unat x \<and> unat x < unat (window_addr bh bm bl) + unat n * 512 then B x
        else natmem_byte s x)) \<and>
    (flush_icache_set s \<longrightarrow> touches_code s (window_addr bh bm bl) (unat n * 512) \<longrightarrow> jit_flushes s < jit_flushes t) \<and>
    \<not> win_armed d' \<and> dma_count d' = 0"
proof -
  let ?a = "window_addr bh bm bl"
  have l: "unat n < 256" using unat_less_exp [of n] by simp
  then have u: "unat (ucast n :: u32) = unat n" by (simp add: unsigned_ucast_eq take_bit_nat_eq_self)
  have p: "0 < unat n" using assms(6) by (simp add: unat_gt_0)
  then have n: "unat (ucast n :: u32) = unat n" "unat n \<le> 255" "0 < unat n" "(ucast n :: u32) \<noteq> 0"
    using l u by (auto simp flip: unat_eq_0)
  obtain d1 where d1: "dma_run e env buf (dma_setup bh bm bl m1 n m2) (d, s) = (d1, s)" "dma_ready ?a (ucast n) d1"
    using dma_setup_ready [of d m1 m2 e env buf bh bm bl n s] assms(5,7,8) by auto
  have m: "\<forall>(c, m) \<in> set cms. (ucast m :: u32) AND DMA_MODE_SCREG = 0 \<and> (ucast m :: u32) AND DMA_MODE_RW = 0"
    using assms(8) by force
  obtain d2 s2 where d2: "dma_run e env buf (dma_commands cms) (d1, s) = (d2, s2)" "dma_armed ?a (ucast n) d2" "sees s s2"
    using dma_commands_arm [OF assms(9) d1(2) n(4) m] by blast
  note ram = sees_ram [OF d2(3)]
  obtain d' s' t where r: "dma_snoop_read e env DMA_MODE_REG v 2 (d2, s2) = (d', t)" "\<not> win_armed d'" "dma_count d' = 0"
    "sees s2 s'" "pulled ?a (map (\<lambda>x. B (of_nat x)) [unat ?a..<unat ?a + unat n * 512]) s' t"
    using dma_status_pulls [OF d2(2) assms(10), of env B s2 e] assms(1-4,11) n ram by auto
  note ram' = sees_ram [OF sees_trans [OF d2(3) r(4)]]
  have "flat t" using r(5) ram'(1) assms(2) by (auto simp: pulled_def)
  then show ?thesis
    using d1(1) d2(1) r(1-3) pulled_bytes [OF r(5)] assms(2,11) ram' by (simp add: dma_run_append natmem_byte_flat)
qed

text \<open>A machine whose RAM holds \<open>0x47\<close> everywhere, with translated code in the page of the transfer.\<close>

definition disk_env :: bus_env where
  "disk_env = \<lparr>env_data = (\<lambda>_. 0x4747), env_berr = (\<lambda>_. False), env_mmap_fixed = (\<lambda>_. True),
     env_memfd = True, env_hugetlb_release = True, env_mprotect = (\<lambda>_. True)\<rparr>"

definition snoop_boot :: dma_snoop_state where
  "snoop_boot = \<lparr>snoop_env = 1, dma_base = 0, dma_mode = 0, dma_count = 0, win_base = 0, win_count = 0,
     win_is_write = False, win_armed = False, pulls = 0, traced = 0\<rparr>"

definition disk_state :: smc_state where
  "disk_state = code_state\<lparr>nm_page := (\<lambda>_. None), g_stram_alias := False, g_stram_fold_hook := False,
     g_stram_top := 0x400000\<rparr>"

lemma disk_facts: "board_ram disk_env lo n (\<lambda>_. 0x47)" "flat disk_state" "g_stram_top disk_state = 0x400000"
  by (simp_all add: board_ram_def disk_env_def flat_def disk_state_def)

theorem dma_read_visible_witness:
  "\<exists>d' t. dma_run None disk_env [] (dma_setup 0x01 0x20 0x00 0x90 2 0x88 @ dma_commands [(0x08, 0x8A), (0, 0x8A)] @
      [DmaRead DMA_MODE_REG 0x03 2]) (snoop_boot, disk_state) = (d', t) \<and>
    natmem_byte t 0x012000 = 0x47 \<and> natmem_byte t 0x0123FF = 0x47 \<and> natmem_byte t 0x012400 = natmem_byte disk_state 0x012400"
proof -
  have a: "window_addr 0x01 0x20 0x00 = 0x012000" by (simp add: window_addr_def)
  have "\<exists>d' t. dma_run None disk_env [] (dma_setup 0x01 0x20 0x00 0x90 2 0x88 @ dma_commands [(0x08, 0x8A), (0, 0x8A)] @
      [DmaRead DMA_MODE_REG 0x03 2]) (snoop_boot, disk_state) = (d', t) \<and>
    (\<forall>x. natmem_byte t x = (if unat (window_addr 0x01 0x20 0x00) \<le> unat x \<and>
       unat x < unat (window_addr 0x01 0x20 0x00) + unat (2 :: u8) * 512 then 0x47 else natmem_byte disk_state x)) \<and>
    (flush_icache_set disk_state \<longrightarrow> touches_code disk_state (window_addr 0x01 0x20 0x00) (unat (2 :: u8) * 512) \<longrightarrow>
       jit_flushes disk_state < jit_flushes t) \<and> \<not> win_armed d' \<and> dma_count d' = 0"
    by (rule dma_read_visible [OF disk_facts(1,2)]) (simp_all add: disk_facts(3) snoop_boot_def c_const a)
  then show ?thesis by (auto simp: a)
qed

text \<open>The command byte that starts a transfer of \<open>n\<close> sectors to the device: the snoop puts every byte of
  the window on the bus, in address order and nothing else, and changes nothing of the mirror.\<close>

lemma dma_write_pushed:
  assumes "flat s" and "0x400000 \<le> unat (g_stram_top s)" and "snoop_env d \<in> {1, 3}"
    and "dma_mode d AND DMA_MODE_SCREG = 0" and "dma_mode d AND DMA_MODE_RW \<noteq> 0"
    and "0 < unat (dma_count d)" and "unat (dma_count d) \<le> 255"
    and "unat (dma_base d) + unat (dma_count d) * 512 \<le> 0x400000"
  shows "\<exists>d' t. dma_snoop_write e env buf FDC_DATA_REG v 2 (d, s) = (d', t) \<and>
    bus_hist t = push_cycles (fc s) (natmem_byte s) (unat (dma_base d)) (unat (dma_count d) * 512) @ bus_hist s \<and>
    natmem_byte t = natmem_byte s"
proof -
  let ?a = "dma_base d" and ?n = "dma_count d"
  have nz: "?n \<noteq> 0" using assms(6) by (simp add: unat_gt_0)
  have len: "unat (?n * 512) = unat ?n * 512" using assms(7) by (simp add: unat_word_ariths)
  have sum: "unat (?a + ?n * 512) = unat ?a + unat ?n * 512" using assms(8) len by (simp add: unat_add_small)
  have p: "sync_push env buf ?a ?n s = push_sectors env ?a (unat ?n) 0 buf s"
    using assms(6-8) len sum
    by (auto simp: sync_push_def Let_def c_const word_less_nat_alt word_le_nat_alt unat_eq_0 [symmetric])
  obtain b ba where r: "push_sectors env ?a (unat ?n) 0 buf s =
      bus_seen (push_cycles (fc s) (nm_anon s) (unat ?a) (unat ?n * 512) @ bus_hist s) b ba s"
    using push_sectors_hist [OF assms(1,2), of ?a 0 "unat ?n" env buf] assms(8) by auto
  have w: "snd (dma_snoop_write e env buf FDC_DATA_REG v 2 (d, s)) = sync_push env buf ?a ?n s"
    using assms(3-5) nz
    by (auto simp: dma_snoop_write_def snoop_write_def snoop_data_write_def dma_regs Let_def)
  have nb: "natmem_byte u = nm_anon u" if "flat u" for u :: "'a smc_state_scheme"
    using natmem_byte_flat [OF that] by (intro ext)
  obtain d' t where t: "dma_snoop_write e env buf FDC_DATA_REG v 2 (d, s) = (d', t)" by fastforce
  then have "t = bus_seen (push_cycles (fc s) (nm_anon s) (unat ?a) (unat ?n * 512) @ bus_hist s) b ba s"
    using w p r by simp
  with t assms(1) show ?thesis by (auto simp: nb bus_seen_def flat_def)
qed

end
