(* ===== verification/Mfp_Page.thy ===== *)
theory Mfp_Page
  imports Bus_Banks Mfp_Hub Acia_Kbd Dma_Snoop
begin

text \<open>
  Guest accesses to the MFP (\<open>pistorm_natmem.cpp\<close>): the GPIP byte with the lines the emulated
  devices pull, the merge of the virtual interrupt channels into reads, and writes that go to the
  chip and to the hub. What the floppy, keyboard and sound emulations answer at the time of the
  access is the argument \<open>me\<close>. \<open>mfp_note_eoi_write\<close> is compiled out and the traces are left out.
\<close>

section \<open>State and surroundings\<close>

text \<open>Calls to the emulated devices that have no model here, newest first, with address, value and
  size.\<close>

datatype dev_call =
    Et4000_Read u32 | Et4000_Write u32 u8
  | Psvidel_Read u32 nat | Psvidel_Write u32 u32 nat | Psvidel_Snoop u32 u32 nat
  | Falcon_Read u32 nat | Falcon_Write u32 u32 nat | Falcon_Psg u32 u32 nat
  | Tos_Read u32 nat | Tos_Write u32 u32 nat | Tos_Snoop u32 u32 nat
  | Fdd_Read u32 nat | Fdd_Write u32 u32 nat
  | Dmasnd_Read u32 nat | Dmasnd_Snoop u32 u32 nat | Ym_Snoop u32 u32 nat
  | Joy_Read u32 nat u32 | Joy_Write u32 nat u32
  | Kbd_Status u8 | Kbd_Data | Kbd_Ctrl u8 | Kbd_Ctrl_Filter u8 | Kbd_Tx u8 | Kbd_Native_Tx u8
  | Kbd_Hotkey u8 bool | Kbd_Native_Rx u8

record page_state = hw_state +
  mfp :: mfp_hub
  kbd :: acia_fifo
  snoop :: dma_snoop_state
  dev_calls :: "dev_call list"

record mfp_env =
  FDD_enabled :: bool
  acsi_enabled :: bool
  fdd_passthrough :: bool
  fdd_gpip :: "u8 \<Rightarrow> u8"
  IDE_intrq_pending :: bool
  KBD_USB_enabled :: bool
  kbd_usb_gpip_shim :: "u8 \<Rightarrow> u8"
  DMA_Sound_enabled :: bool
  dmasnd_gpip_shim :: "u8 \<Rightarrow> u8"
  falcon_dma_playing :: bool
  monitor_force :: int
  hub_line :: "poll \<Rightarrow> bool"

definition MFP_GPIP :: u32 where [c_const]: "MFP_GPIP = 0x00FFFA01"

definition hw_mfp_addr :: "u32 \<Rightarrow> bool" where
  "hw_mfp_addr a \<longleftrightarrow> a \<ge> 0x00FFFA00 \<and> a < 0x00FFFA40"

definition fdd_owns_address :: "u32 \<Rightarrow> bool" where
  "fdd_owns_address a \<longleftrightarrow> a \<ge> 0xFF8600 \<and> a \<le> 0xFF860F \<or> a \<ge> 0xFF8800 \<and> a \<le> 0xFF8803"

definition fdd_route_address :: "'e mfp_env_scheme \<Rightarrow> u32 \<Rightarrow> bool" where
  "fdd_route_address me a \<longleftrightarrow>
     (if FDD_enabled me then fdd_owns_address a
      else if acsi_enabled me \<or> fdd_passthrough me then a \<ge> 0xFF8600 \<and> a \<le> 0xFF860F
      else False)"

definition fdd_dma_routed :: "'e mfp_env_scheme \<Rightarrow> bool" where
  "fdd_dma_routed me \<longleftrightarrow> FDD_enabled me \<or> acsi_enabled me \<or> fdd_passthrough me"

section \<open>The GPIP byte\<close>

definition mfp_gpip_shim :: "'e mfp_env_scheme \<Rightarrow> acia_fifo \<Rightarrow> u8 \<Rightarrow> u8" where
  "mfp_gpip_shim me q v0 =
     (let v1 = (if fdd_dma_routed me then fdd_gpip me v0 else v0);
          v2 = (if IDE_intrq_pending me then v1 AND NOT 0x20 else v1);
          v3 = (if ps_acia_kbd_pending q then v2 AND NOT 0x10 else v2);
          v4 = (if KBD_USB_enabled me then kbd_usb_gpip_shim me v3 else v3);
          v5 = (if DMA_Sound_enabled me then dmasnd_gpip_shim me v4 else v4);
          v6 = (if falcon_dma_playing me then (let x = v5 XOR 0x80 in if x = 0 then 0x40 else x) else v5)
      in if monitor_force me = 1 then v6 AND NOT 0x80
         else if monitor_force me = 2 then v6 OR 0x80 else v6)"

section \<open>Accesses\<close>

definition hw_mfp_wget :: "bus_env \<Rightarrow> 'e mfp_env_scheme \<Rightarrow> u32 \<Rightarrow> 'a page_state_scheme \<Rightarrow> (u32, 'a page_state_scheme) access" where
  "hw_mfp_wget env me a s =
     (if a = MFP_GPIP
      then (let (v, t) = mfp_gpip_read env a s in pistorm_buserr a 0 True 2 (ucast (mfp_gpip_shim me (kbd t) v)) t)
      else
        (let (v, t) = mfp_read16_retry env a s;
             lo = (if (a OR 1) = MFP_GPIP then mfp_gpip_shim me (kbd t) (ucast v)
                   else mfp_hub_read_shim (hub_line me) (a OR 1) (ucast v) (mfp t))
         in pistorm_buserr a 0 True 2 (ucast ((v AND 0xFF00) OR ucast lo)) t))"

definition hw_mfp_bget :: "bus_env \<Rightarrow> 'e mfp_env_scheme \<Rightarrow> u32 \<Rightarrow> 'a page_state_scheme \<Rightarrow> (u32, 'a page_state_scheme) access" where
  "hw_mfp_bget env me a s =
     (if a = MFP_GPIP
      then (let (v, t) = mfp_gpip_read env a s in pistorm_buserr a 0 True 1 (ucast (mfp_gpip_shim me (kbd t) v)) t)
      else
        (let (v, t) = mfp_read8_retry env a s
         in pistorm_buserr a 0 True 1 (ucast (mfp_hub_read_shim (hub_line me) a v (mfp t))) t))"

definition hw_mfp_lput :: "bus_env \<Rightarrow> 'e mfp_env_scheme \<Rightarrow> u32 \<Rightarrow> u32 \<Rightarrow> 'a page_state_scheme \<Rightarrow> (unit, 'a page_state_scheme) access" where
  "hw_mfp_lput env me a v s =
     (if fdd_route_address me a then (Inr (), s\<lparr>dev_calls := Fdd_Write a v 4 # dev_calls s\<rparr>)
      else
        (let h1 = mfp_hub_write_snoop (a + 1) (drop_bit 16 v AND 0xFF) False (mfp s);
             h2 = mfp_hub_write_snoop (a + 3) (v AND 0xFF) False h1
         in hw_bus_lput env a v (s\<lparr>mfp := h2\<rparr>)))"

definition hw_mfp_wput :: "bus_env \<Rightarrow> 'e mfp_env_scheme \<Rightarrow> u32 \<Rightarrow> u32 \<Rightarrow> 'a page_state_scheme \<Rightarrow> (unit, 'a page_state_scheme) access" where
  "hw_mfp_wput env me a v s =
     (if fdd_route_address me a then (Inr (), s\<lparr>dev_calls := Fdd_Write a v 2 # dev_calls s\<rparr>)
      else hw_bus_wput env a v (s\<lparr>mfp := mfp_hub_write_snoop a v True (mfp s)\<rparr>))"

definition hw_mfp_bput :: "bus_env \<Rightarrow> 'e mfp_env_scheme \<Rightarrow> u32 \<Rightarrow> u32 \<Rightarrow> 'a page_state_scheme \<Rightarrow> (unit, 'a page_state_scheme) access" where
  "hw_mfp_bput env me a v s =
     (if fdd_route_address me a then (Inr (), s\<lparr>dev_calls := Fdd_Write a v 1 # dev_calls s\<rparr>)
      else hw_bus_bput env a v (s\<lparr>mfp := mfp_hub_write_snoop a v False (mfp s)\<rparr>))"


section \<open>What a bus cycle leaves alone\<close>

lemma latch_mfp [simp]: "mfp (latch_berr b a s) = mfp s" "kbd (latch_berr b a s) = kbd s" for s :: "'a page_state_scheme"
  by (simp_all add: latch_berr_def)

lemma read_8_mfp: "mfp (snd (ps_read_8 env a s)) = mfp s" "kbd (snd (ps_read_8 env a s)) = kbd s" for s :: "'a page_state_scheme"
proof -
  have "mfp (gpip7_debounce x u) = mfp u" "kbd (gpip7_debounce x u) = kbd u" for x and u :: "'a page_state_scheme"
    by (simp_all add: gpip7_debounce_def Let_def)
  then show "mfp (snd (ps_read_8 env a s)) = mfp s" "kbd (snd (ps_read_8 env a s)) = kbd s"
    by (simp_all add: ps_read_8_def ps_read_txn_def gpip7_filter_def Let_def)
qed

lemma retry_mfp:
  fixes vs :: "u8 \<times> 'a page_state_scheme"
  shows "mfp (snd (berr_retry (ps_read_8 env a) n vs)) = mfp (snd vs)"
  by (induction n arbitrary: vs) (simp_all add: read_8_mfp mfp_berr_note_def)

lemma read8_retry_mfp: "mfp (snd (mfp_read8_retry env a s)) = mfp s" for s :: "'a page_state_scheme"
  by (simp add: mfp_read8_retry_def retry_mfp read_8_mfp)

lemma bus_bput_mfp:
  fixes s :: "'a page_state_scheme"
  shows "mfp (snd (hw_bus_bput env a v s)) = mfp s" "bus_hist (snd (hw_bus_bput env a v s)) = WriteByte (fc s) a (ucast v) # bus_hist s"
  by (simp_all add: hw_bus_bput_def pistorm_buserr_def ps_write_8_def ps_write_txn_def latch_berr_def)

section \<open>The in-service register\<close>

text \<open>The register of a channel, and its bit there.\<close>

definition isr_of :: "nat \<Rightarrow> u32" where
  "isr_of c = (if c < 8 then 0x00FFFA11 else 0x00FFFA0F)"

lemma isr_of_simps [simp]:
  "isr_of c \<noteq> MFP_GPIP" "isr_of c AND 0x00FFFFFF = isr_of c" "0x00FFFA00 \<le> isr_of c" "isr_of c \<le> 0x00FFFA2F"
  "\<not> fdd_route_address me (isr_of c)" "mfp_reg_at (isr_of c) = ISR (if c < 8 then 0 else 8)"
  by (simp_all add: isr_of_def MFP_GPIP_def fdd_route_address_def fdd_owns_address_def mfp_reg_at_def)

lemma isr_snoop:
  "abs_hub (mfp_hub_write_snoop (isr_of c) v False h) = write_reg (ISR (if c < 8 then 0 else 8)) (ucast v) (abs_hub h)"
  by (simp add: abs_snoop Let_def)

lemma shim_isr:
  assumes "c \<in> in_service (abs_hub h)"
  shows "bit (mfp_hub_read_shim line (isr_of c) r h) (c mod 8)"
proof -
  have b: "bit (g_visr h) c" "c < 16" using assms chans_less [of c "g_visr h"] by (auto simp: abs_hub_def chans_def)
  have m: "(0xFF :: u16) = mask 8" by (simp add: mask_eq_exp_minus_1)
  show ?thesis
  proof (cases "c < 8")
    case True
    then show ?thesis using b by (simp add: mfp_hub_read_shim_def isr_of_def m bit_simps)
  next
    case False
    then have "c mod 8 = c - 8" using b(2) by (simp add: mod_if)
    then show ?thesis using False b by (simp add: mfp_hub_read_shim_def isr_of_def bit_simps)
  qed
qed

lemma clear_one:
  assumes "c < 16" "k = (if c < 8 then 0 else 8)"
  shows "{k..<k + 8} - bank_chans k (NOT (2 ^ (c mod 8))) = {c}"
proof -
  have "c mod 8 = c - k" using assms by (simp add: mod_if)
  then show ?thesis using assms by (auto simp: bank_chans_def bit_simps)
qed

lemma byte_back [simp]: "ucast (ucast b :: u32) = b" for b :: u8
  by (auto simp: bit_eq_iff bit_simps)

text \<open>C31: The life of a virtual interrupt. After an acknowledge cycle in software end-of-interrupt
  mode the guest finds the channel in the in-service register, whatever the chip itself reads;
  when its handler writes a 0 to that bit, the write goes to the chip as one bus cycle, and the
  channels in service are the ones from before the interrupt, with the request taken.\<close>

theorem mfp_service_cycle:
  fixes s :: page_state
  assumes "hub_wants line (mfp s) \<noteq> {}" "software_eoi (abs_hub (mfp s))" "c = Max (hub_wants line (mfp s))"
    "s1 = s\<lparr>mfp := snd (mfp_hub_iack line (mfp s))\<rparr>" "hw_mfp_bput env me (isr_of c) (ucast (NOT (2 ^ (c mod 8)) :: u8)) s1 = (e, t)"
  shows "(hw_mfp_bget env me (isr_of c) s1 = (Inr r, u) \<longrightarrow> bit r (c mod 8)) \<and>
    in_service (abs_hub (mfp t)) = in_service (abs_hub (mfp s)) \<and>
    pending (abs_hub (mfp t)) = pending (abs_hub (mfp s)) - {c} \<and>
    bus_hist t = WriteByte (fc s) (isr_of c) (NOT (2 ^ (c mod 8))) # bus_hist s"
proof -
  let ?m = "NOT (2 ^ (c mod 8)) :: u8"
  have c: "c \<in> hub_wants line (mfp s)" using assms(1,3) hub.Max_wants by simp
  then have c16: "c < 16" using hub.wants_less [of line "mfp s"] by auto
  have new: "c \<notin> in_service (abs_hub (mfp s))" using hub.wants_above [OF c] by (auto simp: abs_hub_def)
  have a1: "abs_hub (mfp s1) = acknowledge c (abs_hub (mfp s))" using iack_channel(2) [OF assms(1)] by (simp add: assms(3,4))
  then have serv: "in_service (abs_hub (mfp s1)) = insert c (in_service (abs_hub (mfp s)))"
    using assms(2) by (simp add: acknowledge_def)
  have "bit r (c mod 8)" if r: "hw_mfp_bget env me (isr_of c) s1 = (Inr r, u)"
  proof -
    obtain v w where v: "mfp_read8_retry env (isr_of c) s1 = (v, w)" by fastforce
    have "mfp w = mfp s1" using read8_retry_mfp [of env "isr_of c" s1] v by simp
    then have "r = ucast (mfp_hub_read_shim (hub_line me) (isr_of c) v (mfp s1))"
      using r v by (auto simp: hw_mfp_bget_def pistorm_buserr_def split: if_splits)
    then show ?thesis using shim_isr [of c "mfp s1" "hub_line me" v] serv by (simp add: bit_simps)
  qed
  moreover have "t = snd (hw_bus_bput env (isr_of c) (ucast ?m) (s1\<lparr>mfp := mfp_hub_write_snoop (isr_of c) (ucast ?m) False (mfp s1)\<rparr>))"
    using assms(5) by (simp add: hw_mfp_bput_def)
  then have "mfp t = mfp_hub_write_snoop (isr_of c) (ucast ?m) False (mfp s1)" "bus_hist t = WriteByte (fc s) (isr_of c) ?m # bus_hist s"
    by (simp_all add: bus_bput_mfp assms(4))
  then have "abs_hub (mfp t) = write_reg (ISR (if c < 8 then 0 else 8)) ?m (abs_hub (mfp s1))"
    "bus_hist t = WriteByte (fc s) (isr_of c) ?m # bus_hist s"
    by (simp_all only: isr_snoop byte_back)
  ultimately show ?thesis using a1 serv new clear_one [OF c16 refl] by (auto simp: acknowledge_def)
qed


text \<open>A machine with the sound interrupt pending.\<close>

definition demo_page :: page_state where
  "demo_page = hw_state.extend hw_boot
     \<lparr>mfp = mfp_hub_raise 13 hub_boot, kbd = kbd_fifo, snoop = snoop_boot, dev_calls = []\<rparr>"

definition demo_me :: mfp_env where
  "demo_me = \<lparr>FDD_enabled = True, acsi_enabled = False, fdd_passthrough = False, fdd_gpip = id, IDE_intrq_pending = False,
     KBD_USB_enabled = True, kbd_usb_gpip_shim = id, DMA_Sound_enabled = True, dmasnd_gpip_shim = id,
     falcon_dma_playing = False, monitor_force = 0, hub_line = (\<lambda>_. False)\<rparr>"

lemma demo_page_mfp [simp]: "mfp demo_page = mfp_hub_raise 13 hub_boot"
  by (simp add: demo_page_def hw_state.extend_def)

lemma demo_wants: "hub_wants (\<lambda>_. False) (mfp demo_page) = {13}"
proof -
  have "deliverable (\<lambda>_. False) (mfp_hub_raise 13 hub_boot) = 0x2000" by code_simp
  then show ?thesis using chans_bit [of 13] by (simp add: hub_wants_def)
qed

theorem mfp_service_cycle_witness:
  "\<exists>e t. hw_mfp_bput flaky_env demo_me 0x00FFFA0F 0xDF (demo_page\<lparr>mfp := snd (mfp_hub_iack (\<lambda>_. False) (mfp demo_page))\<rparr>) = (e, t) \<and>
     in_service (abs_hub (mfp t)) = {} \<and> pending (abs_hub (mfp t)) = {}"
proof -
  have v: "NOT (2 ^ (13 mod 8)) = (0xDF :: u8)" by code_simp
  obtain e t where w: "hw_mfp_bput flaky_env demo_me 0x00FFFA0F 0xDF
      (demo_page\<lparr>mfp := snd (mfp_hub_iack (\<lambda>_. False) (mfp demo_page))\<rparr>) = (e, t)" by fastforce
  have b: "abs_hub (mfp demo_page) = \<lparr>enabled = {0..<16}, unmasked = {0..<16}, pending = {13}, in_service = {},
      vector_base = 0x40, software_eoi = True\<rparr>"
    by (simp add: abs_raise) (simp add: abs_hub_def hub_boot_def chans_masks)
  have n: "hub_wants (\<lambda>_. False) (mfp demo_page) \<noteq> {}" "13 = Max (hub_wants (\<lambda>_. False) (mfp demo_page))"
    unfolding demo_wants by simp_all
  have x: "isr_of 13 = 0x00FFFA0F" "ucast (0xDF :: u8) = (0xDF :: u32)" by (simp_all add: isr_of_def)
  have eoi: "software_eoi (abs_hub (mfp demo_page))" unfolding b by simp
  note cyc = mfp_service_cycle [OF n(1) eoi n(2) refl, unfolded v x, OF w]
  have "in_service (abs_hub (mfp t)) = {}" "pending (abs_hub (mfp t)) = {}" using cyc unfolding b by simp_all
  then show ?thesis using w by blast
qed

end
