(* ===== verification/Int_Ack.thy ===== *)
theory Int_Ack
  imports Mfp_Page
begin

text \<open>
  The interrupt acknowledge of the CPU core (\<open>intlev_ack\<close> in \<open>jit_glue.cpp\<close>): a level-6 interrupt
  is answered by the virtual MFP channels, by the host port of the Falcon DSP, or by an acknowledge
  cycle on the real bus. The interrupt level on the pins, the level sources and the DSP at the time
  of the call are the argument \<open>ie\<close>; the once-a-second statistics and the log are left out.
\<close>

section \<open>Acknowledge cycle on the bus\<close>

definition ps_read_8_fc :: "bus_env \<Rightarrow> u32 \<Rightarrow> u8 \<Rightarrow> 'a bus_state_scheme \<Rightarrow> (u8 \<times> bool) \<times> 'a bus_state_scheme" where
  "ps_read_8_fc env a f s =
     (let ((d, b), s1) = ps_read_txn env (ReadByte f a) s
      in ((if a AND 1 = 0 then ucast (drop_bit 8 d) else ucast d, b), latch_berr b a s1))"

section \<open>State and surroundings\<close>

record ack_state = page_state +
  pistorm_iack_vector :: u16
  pistorm_iack_dsp :: bool
  pistorm_mfp_last_iack_vector :: u8
  pistorm_mfp_iack_counts :: "nat \<Rightarrow> u32"
  kbd_usb_stat_virtual_iacks :: u32
  phantom :: u32

text \<open>\<open>live_ipl k\<close> is what the call of \<open>ps_read_ipl\<close> number \<open>k\<close> in the source text of the function reads,
  \<open>ack_line\<close> what the level sources answer during \<open>mfp_hub_iack\<close>; during \<open>mfp_hub_top_wanted\<close> before
  it they answer \<open>hub_line\<close>.\<close>

record int_env =
  pst_fdd_mfp_irq :: bool
  live_ipl :: "nat \<Rightarrow> u8"
  ack_line :: "poll \<Rightarrow> bool"
  falcon_hreq :: bool
  falcon_ivr :: u8
  iack_check :: bool

section \<open>The function\<close>

definition virtual_ack :: "'e mfp_env_scheme \<Rightarrow> int_env \<Rightarrow> ack_state \<Rightarrow> ack_state option" where
  "virtual_ack me ie s =
     (if (DMA_Sound_enabled me \<or> KBD_USB_enabled me \<or> pst_fdd_mfp_irq ie) \<and> mfp_hub_top_wanted (hub_line me) (mfp s) \<ge> 0
      then
        (let vtop = mfp_hub_top_wanted (hub_line me) (mfp s) in
         if live_ipl ie 0 < 6 \<or> vtop > 6
         then
           (let (vc, h) = mfp_hub_iack (ack_line ie) (mfp s) in
            if vc \<ge> 0
            then Some (s\<lparr>mfp := h, pistorm_iack_vector := word_of_int vc, pistorm_mfp_last_iack_vector := word_of_int vc,
                         pistorm_mfp_iack_counts := (pistorm_mfp_iack_counts s)(6 := pistorm_mfp_iack_counts s 6 + 1),
                         kbd_usb_stat_virtual_iacks := kbd_usb_stat_virtual_iacks s + 1\<rparr>)
            else None)
         else None)
      else None)"

definition no_ack :: "ack_state \<Rightarrow> ack_state" where
  "no_ack s = s\<lparr>pistorm_iack_vector := 0xFFFE, g_buserr := False\<rparr>"

definition bus_ack :: "bus_env \<Rightarrow> u8 \<Rightarrow> ack_state \<Rightarrow> ack_state" where
  "bus_ack env nr s =
     (let ((v, b), s1) = ps_read_8_fc env (0x00FFFFF1 OR push_bit 1 (ucast nr)) 7 s in
      if b then no_ack s1
      else
        (let s2 = s1\<lparr>pistorm_iack_vector := ucast v\<rparr> in
         if nr = 6 \<and> v \<ge> 0x40 \<and> v \<le> 0x4F
         then s2\<lparr>pistorm_mfp_last_iack_vector := v,
                 pistorm_mfp_iack_counts := (pistorm_mfp_iack_counts s2)
                   (unat (v AND 0x0F) := pistorm_mfp_iack_counts s2 (unat (v AND 0x0F)) + 1)\<rparr>
         else s2))"

definition intlev_ack :: "bus_env \<Rightarrow> 'e mfp_env_scheme \<Rightarrow> int_env \<Rightarrow> u8 \<Rightarrow> ack_state \<Rightarrow> ack_state" where
  "intlev_ack env me ie nr s0 =
     (let s = s0\<lparr>pistorm_iack_dsp := False\<rparr> in
      case (if nr = 6 then virtual_ack me ie s else None) of
        Some t \<Rightarrow> t
      | None \<Rightarrow>
          if nr = 6 \<and> falcon_hreq ie \<and> live_ipl ie 1 < 6
          then s\<lparr>pistorm_iack_vector := ucast (falcon_ivr ie), pistorm_iack_dsp := True\<rparr>
          else if iack_check ie \<and> nr \<ge> 6 \<and> live_ipl ie 2 < nr
          then no_ack (s\<lparr>phantom := phantom s + 1\<rparr>)
          else bus_ack env nr s)"

section \<open>Who answers\<close>

text \<open>The virtual channels answer if they may ask at all, and no real level 6 is waiting or the
  channel is above the keyboard's.\<close>

definition virtual_first :: "'e mfp_env_scheme \<Rightarrow> int_env \<Rightarrow> ack_state \<Rightarrow> bool" where
  "virtual_first me ie s \<longleftrightarrow>
     (DMA_Sound_enabled me \<or> KBD_USB_enabled me \<or> pst_fdd_mfp_irq ie) \<and>
     (\<exists>c \<in> hub_wants (hub_line me) (mfp s). live_ipl ie 0 < 6 \<or> 6 < c)"

lemma virtual_first_top:
  "virtual_first me ie s \<longleftrightarrow>
     (DMA_Sound_enabled me \<or> KBD_USB_enabled me \<or> pst_fdd_mfp_irq ie) \<and> mfp_hub_top_wanted (hub_line me) (mfp s) \<ge> 0 \<and>
     (live_ipl ie 0 < 6 \<or> mfp_hub_top_wanted (hub_line me) (mfp s) > 6)"
proof -
  let ?w = "hub_wants (hub_line me) (mfp s)"
  have f: "finite ?w" by (rule hub.finite_wants)
  have "(\<exists>c \<in> ?w. 6 < c) \<longleftrightarrow> 6 < Max ?w" if "?w \<noteq> {}" using Max_gr_iff [OF f that, of 6] by simp
  then show ?thesis by (auto simp: virtual_first_def hub.top_law)
qed

lemma virtual_ack_Some:
  assumes "virtual_first me ie s" "hub_wants (ack_line ie) (mfp s) \<noteq> {}"
  shows "\<exists>t. virtual_ack me ie s = Some t \<and> mfp t = snd (mfp_hub_iack (ack_line ie) (mfp s)) \<and>
    pistorm_iack_vector t = word_of_int (fst (mfp_hub_iack (ack_line ie) (mfp s))) \<and>
    bus_hist t = bus_hist s \<and> pistorm_iack_dsp t = pistorm_iack_dsp s"
  using assms hub.ack_nonneg [of "ack_line ie" "mfp s"]
  by (auto simp: virtual_ack_def virtual_first_top Let_def split: prod.splits)

lemma virtual_ack_None:
  assumes "\<not> virtual_first me ie s \<or> hub_wants (ack_line ie) (mfp s) = {}"
  shows "virtual_ack me ie s = None"
  using assms hub.ack_nonneg [of "ack_line ie" "mfp s"]
  by (auto simp: virtual_ack_def virtual_first_top Let_def split: prod.splits)


lemma bus_ack_cycle:
  fixes s :: ack_state
  defines "c \<equiv> ReadByte 7 0x00FFFFFD"
  shows "bus_hist (bus_ack env 6 s) = c # bus_hist s" "mfp (bus_ack env 6 s) = mfp s"
    "pistorm_iack_dsp (bus_ack env 6 s) = pistorm_iack_dsp s"
    "pistorm_iack_vector (bus_ack env 6 s) =
       (if env_berr env (c # bus_hist s) then 0xFFFE else ucast (ucast (env_data env (c # bus_hist s)) :: u8))"
  by (simp_all add: bus_ack_def ps_read_8_fc_def ps_read_txn_def latch_berr_def no_ack_def Let_def c_def)

lemma vector_word:
  assumes "vc = uint (b :: u8) + int c" "c < 16"
  shows "uint (word_of_int vc :: u16) = vc"
proof -
  have "0 \<le> uint b" "uint b < 256" using uint_lt2p [of b] by simp_all
  then have "0 \<le> vc" "vc < 65536" using assms by linarith+
  then show ?thesis by (simp add: uint_word_of_int)
qed

text \<open>C30: Every level-6 acknowledge has one answer. A virtual channel answers, without touching the
  bus, if one asks and no real level 6 is waiting or the channel outranks the keyboard; it is the
  highest that asks and its vector is the guest's vector base plus the channel. Otherwise the hub
  is untouched and the DSP answers if it asks and the real level is below 6; failing that there is
  exactly one acknowledge cycle on the bus, none at all on boards that check the level first and
  find it gone, and a failed acknowledge is marked as such.\<close>

theorem intlev_ack_source:
  "let m = abs_hub (mfp s); r = requesting (asserted (ack_line ie) (mfp s)) m;
       t = intlev_ack env me ie 6 s; c = ReadByte 7 0x00FFFFFD
   in if virtual_first me ie s \<and> r \<noteq> {}
      then bus_hist t = bus_hist s \<and> \<not> pistorm_iack_dsp t \<and>
        uint (pistorm_iack_vector t) = uint (vector_base m) + int (Max r) \<and> abs_hub (mfp t) = acknowledge (Max r) m
      else mfp t = mfp s \<and>
        (if falcon_hreq ie \<and> live_ipl ie 1 < 6
         then bus_hist t = bus_hist s \<and> pistorm_iack_dsp t \<and> pistorm_iack_vector t = ucast (falcon_ivr ie)
         else \<not> pistorm_iack_dsp t \<and>
           (if iack_check ie \<and> live_ipl ie 2 < 6 then bus_hist t = bus_hist s \<and> pistorm_iack_vector t = 0xFFFE
            else bus_hist t = c # bus_hist s \<and>
              pistorm_iack_vector t =
                (if env_berr env (c # bus_hist s) then 0xFFFE else ucast (ucast (env_data env (c # bus_hist s)) :: u8))))"
proof -
  let ?s = "s\<lparr>pistorm_iack_dsp := False\<rparr>" and ?r = "hub_wants (ack_line ie) (mfp s)"
  have vf: "virtual_first me ie ?s = virtual_first me ie s" by (simp add: virtual_first_def)
  have r: "requesting (asserted (ack_line ie) (mfp s)) (abs_hub (mfp s)) = ?r" by (rule hub_wants_spec [symmetric])
  show ?thesis
  proof (cases "virtual_first me ie s \<and> ?r \<noteq> {}")
    case True
    then obtain t where t: "virtual_ack me ie ?s = Some t" "mfp t = snd (mfp_hub_iack (ack_line ie) (mfp s))"
      "pistorm_iack_vector t = word_of_int (fst (mfp_hub_iack (ack_line ie) (mfp s)))" "bus_hist t = bus_hist s" "\<not> pistorm_iack_dsp t"
      using virtual_ack_Some [of me ie ?s] vf by auto
    have "Max ?r < 16" using hub.Max_wants [of "ack_line ie" "mfp s"] hub.wants_less [of "ack_line ie" "mfp s"] True by auto
    note v = hub_vec_sum [OF this, of "mfp s"]
    have "uint (pistorm_iack_vector t) = uint (vector_base (abs_hub (mfp s))) + int (Max ?r)"
      using vector_word [OF v \<open>Max ?r < 16\<close>] v hub.ack_vec [of "ack_line ie" "mfp s"] True t(3) by simp
    moreover have "intlev_ack env me ie 6 s = t" by (simp add: intlev_ack_def t(1))
    ultimately show ?thesis using True t iack_channel(2) [of "ack_line ie" "mfp s"] by (simp add: Let_def r)
  next
    case False
    then have "virtual_ack me ie ?s = None" using vf by (intro virtual_ack_None) auto
    then have "intlev_ack env me ie 6 s =
        (if falcon_hreq ie \<and> live_ipl ie 1 < 6 then ?s\<lparr>pistorm_iack_vector := ucast (falcon_ivr ie), pistorm_iack_dsp := True\<rparr>
         else if iack_check ie \<and> live_ipl ie 2 < 6 then no_ack (?s\<lparr>phantom := phantom s + 1\<rparr>) else bus_ack env 6 ?s)"
      by (simp add: intlev_ack_def Let_def)
    then show ?thesis unfolding Let_def r if_not_P [OF False] using bus_ack_cycle [of env ?s] by (simp add: no_ack_def)
  qed
qed

end
