(* ===== verification/Io_Page.thy ===== *)
theory Io_Page
  imports Mfp_Page Blitter_Page
begin

text \<open>
  The hardware I/O bank (\<open>hw_lget\<close> to \<open>hw_bput\<close> in \<open>pistorm_natmem.cpp\<close>): every guest access to
  \<open>$FFxxxx\<close> is folded to 24 bits and dispatched to the device that owns it, or to the real bus. The
  devices that have no model here are one argument of the environment: a function from the call to
  its effect on the state and its answer. The two operands of the word reads of a split long are
  evaluated from left to right. Traces and profiling are left out.
\<close>

section \<open>The devices around the bank\<close>

record io_env = mfp_env +
  dev :: "dev_call \<Rightarrow> page_state \<Rightarrow> u32 \<times> page_state"
  psvidel_hw_owns :: "page_state \<Rightarrow> u32 \<Rightarrow> bool"
  falcon_hw_owns :: "page_state \<Rightarrow> u32 \<Rightarrow> bool"
  falcon_tos_owns :: "page_state \<Rightarrow> u32 \<Rightarrow> bool"
  dmasnd_owns :: "u32 \<Rightarrow> bool"
  getenv_dma_snoop :: "string option"
  stack_buf :: "u8 list"
  emulator_config_fpu :: bool
  et4k_io_base :: "u32 option"
  emulator_falcon_tos :: bool
  psvidel_getphys :: "page_state \<Rightarrow> u32"
  JOY_USB_enabled :: bool
  joy_usb_ste_addr :: "u32 \<Rightarrow> bool"
  falcon_armed :: bool
  machine_kind :: int
  kbd_native_mouse_enabled :: bool
  kbd_ikbd_divert_active :: bool
  kbd_hotkeys_on :: bool
  io_now :: u64

definition ask :: "io_env \<Rightarrow> dev_call \<Rightarrow> page_state \<Rightarrow> u32 \<times> page_state" where
  "ask me c s = dev me c (s\<lparr>dev_calls := c # dev_calls s\<rparr>)"

definition tell :: "io_env \<Rightarrow> dev_call \<Rightarrow> page_state \<Rightarrow> page_state" where
  "tell me c s = snd (ask me c s)"

definition ask_r :: "io_env \<Rightarrow> dev_call \<Rightarrow> page_state \<Rightarrow> (u32, page_state) access" where
  "ask_r me c s = (let (v, t) = ask me c s in (Inr v, t))"

text \<open>A statement after an access that may end in an exception.\<close>

fun and_then :: "(unit, page_state) access \<Rightarrow> (page_state \<Rightarrow> page_state) \<Rightarrow> (unit, page_state) access" where
  "and_then (Inl e, s) f = (Inl e, s)"
| "and_then (Inr _, s) f = (Inr (), f s)"

section \<open>Addresses\<close>

definition hw_page_addr :: "u32 \<Rightarrow> u32" where
  "hw_page_addr a = a AND 0x00FFFF00"

definition HW_PAGE_VIDEO :: u32 where [c_const]: "HW_PAGE_VIDEO = 0x00FF8200"
definition HW_PAGE_FDD_DMA :: u32 where [c_const]: "HW_PAGE_FDD_DMA = 0x00FF8600"
definition HW_PAGE_PSG :: u32 where [c_const]: "HW_PAGE_PSG = 0x00FF8800"
definition HW_PAGE_DMASND :: u32 where [c_const]: "HW_PAGE_DMASND = 0x00FF8900"
definition HW_PAGE_BLITTER_LO :: u32 where [c_const]: "HW_PAGE_BLITTER_LO = 0x00FF8A00"
definition HW_PAGE_BLITTER_HI :: u32 where [c_const]: "HW_PAGE_BLITTER_HI = 0x00FF8B00"
definition HW_PAGE_JOYPAD :: u32 where [c_const]: "HW_PAGE_JOYPAD = 0x00FF9200"
definition HW_PAGE_MFP :: u32 where [c_const]: "HW_PAGE_MFP = 0x00FFFA00"
definition HW_PAGE_ACIA :: u32 where [c_const]: "HW_PAGE_ACIA = 0x00FFFC00"

definition fpu_in_regs :: "io_env \<Rightarrow> u32 \<Rightarrow> bool" where
  "fpu_in_regs me a \<longleftrightarrow> emulator_config_fpu me \<and> hw_fold_addr a \<ge> 0x00FFFA40 \<and> hw_fold_addr a < 0x00FFFA60"

definition nova_io_alias_addr :: "io_env \<Rightarrow> u32 \<Rightarrow> bool" where
  "nova_io_alias_addr me a \<longleftrightarrow>
     et4k_io_base me \<noteq> None \<and> hw_fold_addr a \<ge> 0x00FF83B0 \<and> hw_fold_addr a < 0x00FF83E0"

definition nova_io_alias_card_addr :: "io_env \<Rightarrow> u32 \<Rightarrow> u32" where
  "nova_io_alias_card_addr me a =
     (case et4k_io_base me of None \<Rightarrow> 0 | Some b \<Rightarrow> b + 0x000003B0 + (hw_fold_addr a - 0x00FF83B0))"

section \<open>Joypad, floppy and the keyboard registers\<close>

definition hw_joypad_idle :: "u32 \<Rightarrow> nat \<Rightarrow> u32" where
  "hw_joypad_idle a n =
     foldl (\<lambda>v i. push_bit 8 v OR (if (a + of_nat i) AND 0xFF < 4 then 0xFF else 0)) 0 [0..<n]"

definition joypad_port_claimed :: "io_env \<Rightarrow> bool" where
  "joypad_port_claimed me \<longleftrightarrow> falcon_armed me \<or> machine_kind me = 1 \<or> machine_kind me = 3"

definition hw_joypad_get :: "bus_env \<Rightarrow> io_env \<Rightarrow> u32 \<Rightarrow> nat \<Rightarrow> page_state \<Rightarrow> (u32, page_state) access" where
  "hw_joypad_get env me a n s =
     (let (v, s1) =
        (if falcon_armed me \<and> machine_kind me \<noteq> 1 then (hw_joypad_idle a n, s)
         else
           (let (v0, t) = (if n = 4 then ps_bus_lget env a s
                           else if n = 2 then (let (w, u) = ps_read_16 env a s in (ucast w, u))
                           else (let (w, u) = ps_read_8 env a s in (ucast w, u)))
            in if g_buserr t \<and> joypad_port_claimed me then (hw_joypad_idle a n, t\<lparr>g_buserr := False\<rparr>) else (v0, t)));
        (w, s2) = (if JOY_USB_enabled me \<and> \<not> g_buserr s1 \<and> joy_usb_ste_addr me a then ask me (Joy_Read a n v) s1 else (v, s1))
      in pistorm_buserr a 0 True n w s2)"

definition hw_joypad_put :: "bus_env \<Rightarrow> io_env \<Rightarrow> u32 \<Rightarrow> nat \<Rightarrow> u32 \<Rightarrow> page_state \<Rightarrow> (unit, page_state) access" where
  "hw_joypad_put env me a n v s =
     (let s1 = (if JOY_USB_enabled me \<and> joy_usb_ste_addr me a then tell me (Joy_Write a n v) s else s) in
      if joypad_port_claimed me
      then (let s2 = s1\<lparr>g_buserr := False\<rparr>;
                s3 = (if n = 4 then ps_bus_lput env a v s2
                      else if n = 2 then ps_write_16 env a (ucast v) s2 else ps_write_8 env a (ucast v) s2)
            in (Inr (), s3\<lparr>g_buserr := False\<rparr>))
      else if n = 4 then hw_bus_lput env a v s1
      else if n = 2 then hw_bus_wput env a v s1 else hw_bus_bput env a v s1)"

text \<open>\<open>if (dma_snoop_active() && dma_snoop_owns(a)) dma_snoop_read(a, v, n);\<close>, and for a write. A buffer that
  the snoop leaves unset holds \<open>stack_buf\<close>.\<close>

definition snooped :: "io_env \<Rightarrow> u32 \<Rightarrow> (dma_snoop_state \<times> page_state \<Rightarrow> dma_snoop_state \<times> page_state) \<Rightarrow>
  page_state \<Rightarrow> page_state" where
  "snooped me a f t =
     (let (act, d) = dma_snoop_active (getenv_dma_snoop me) (snoop t);
          (d1, t1) = (if act \<noteq> 0 \<and> dma_snoop_owns a then f (d, t) else (d, t))
      in t1\<lparr>snoop := d1\<rparr>)"

definition hw_fdd_get :: "bus_env \<Rightarrow> io_env \<Rightarrow> nat \<Rightarrow> u32 \<Rightarrow> page_state \<Rightarrow> (u32, page_state) access" where
  "hw_fdd_get env me n a s =
     (if fdd_route_address me a
      then (let (v, t) = ask me (Fdd_Read a n) s in (Inr (if n = 4 then v else v AND mask (8 * n)), t))
      else
        (case (if n = 4 then hw_bus_lget env a s else if n = 2 then hw_bus_wget env a s else hw_bus_bget env a s) of
           (Inl e, t) \<Rightarrow> (Inl e, t)
         | (Inr v, t) \<Rightarrow>
             (Inr v, snooped me a (dma_snoop_read (getenv_dma_snoop me) env a v n) t)))"

definition hw_fdd_put :: "bus_env \<Rightarrow> io_env \<Rightarrow> nat \<Rightarrow> u32 \<Rightarrow> u32 \<Rightarrow> page_state \<Rightarrow> (unit, page_state) access" where
  "hw_fdd_put env me n a v s =
     (if fdd_route_address me a then (Inr (), tell me (Fdd_Write a v n) s)
      else
        and_then (if n = 4 then hw_bus_lput env a v s else if n = 2 then hw_bus_wput env a v s else hw_bus_bput env a v s)
          (snooped me a (dma_snoop_write (getenv_dma_snoop me) env (stack_buf me) a v n)))"

definition kbd_read8 :: "bus_env \<Rightarrow> u32 \<Rightarrow> page_state \<Rightarrow> u8 \<times> page_state" where
  "kbd_read8 env a s = (let (v, q, t) = ps_acia_kbd_read8 env a (kbd s, s) in (v, t\<lparr>kbd := q\<rparr>))"

definition kbd_read16 :: "bus_env \<Rightarrow> u32 \<Rightarrow> page_state \<Rightarrow> u16 \<times> page_state" where
  "kbd_read16 env a s = (let (v, q, t) = ps_acia_kbd_read16 env a (kbd s, s) in (v, t\<lparr>kbd := q\<rparr>))"

definition kbd_acia_reg :: "u32 \<Rightarrow> bool" where
  "kbd_acia_reg a \<longleftrightarrow> a = ACIA_KBD_CTRL \<or> a = ACIA_KBD_DATA"

definition kbd_acia_shadowed :: "io_env \<Rightarrow> u32 \<Rightarrow> bool" where
  "kbd_acia_shadowed me a \<longleftrightarrow>
     (if a \<noteq> ACIA_KBD_CTRL \<and> a \<noteq> ACIA_KBD_DATA then False
      else if KBD_USB_enabled me then True
      else a = ACIA_KBD_DATA \<and> (kbd_native_mouse_enabled me \<or> kbd_ikbd_divert_active me))"

definition kbd_acia_status_merge :: "io_env \<Rightarrow> u8 \<Rightarrow> page_state \<Rightarrow> u8 \<times> page_state" where
  "kbd_acia_status_merge me v s = (let (w, t) = ask me (Kbd_Status v) s in (ucast w, t))"

definition kbd_acia_data_read :: "bus_env \<Rightarrow> io_env \<Rightarrow> page_state \<Rightarrow> u8 \<times> page_state" where
  "kbd_acia_data_read env me s =
     (if KBD_USB_enabled me then (let (w, t) = ask me Kbd_Data s in (ucast w, t))
      else
        (let (fresh, s1) = (if kbd_hotkeys_on me then (let (st, t) = kbd_read8 env ACIA_KBD_CTRL s in (st AND 0x01 \<noteq> 0, t))
                            else (False, s));
             (v, s2) = kbd_read8 env ACIA_KBD_DATA s1;
             s3 = (if kbd_hotkeys_on me then tell me (Kbd_Hotkey v fresh) s2 else s2);
             (w, s4) = ask me (Kbd_Native_Rx v) s3
         in (ucast w, s4)))"


section \<open>Falcon video registers\<close>

definition vbase_byte :: "u32 \<Rightarrow> u32 \<Rightarrow> u8 option" where
  "vbase_byte phys a =
     (if a = 0x00FF8200 \<or> a = 0x00FF8202 \<or> a = 0x00FF820C then Some 0
      else if a = 0x00FF8201 then Some (ucast (drop_bit 16 phys))
      else if a = 0x00FF8203 then Some (ucast (drop_bit 8 phys))
      else if a = 0x00FF820D then Some (ucast phys)
      else None)"

definition falcon_vbase_read :: "io_env \<Rightarrow> u32 \<Rightarrow> nat \<Rightarrow> page_state \<Rightarrow> u32 option" where
  "falcon_vbase_read me address n s =
     (let a = address AND 0x00FFFFFF in
      if \<not> emulator_falcon_tos me \<or> a < 0x00FF8200 \<or> a + of_nat n > 0x00FF820E then None
      else map_option (foldl (\<lambda>v b. push_bit 8 v OR ucast b) 0)
             (those (map (\<lambda>i. vbase_byte (psvidel_getphys me s) (a + of_nat i)) [0..<n])))"

definition psvidel_ste_mirror :: "bus_env \<Rightarrow> u32 \<Rightarrow> u32 \<Rightarrow> nat \<Rightarrow> page_state \<Rightarrow> page_state" where
  "psvidel_ste_mirror env a v n s =
     (let s1 = (if n = 2 then ps_write_16 env a (ucast v) ((st_video_snoop16 a (ucast v) s)\<lparr>g_buserr := False\<rparr>)
                else ps_write_8 env a (ucast v) ((st_video_snoop8 a (ucast v) s)\<lparr>g_buserr := False\<rparr>))
      in stram_shadow_video_after env a n (s1\<lparr>g_buserr := False\<rparr>))"

definition psvidel_put :: "bus_env \<Rightarrow> io_env \<Rightarrow> u32 \<Rightarrow> u32 \<Rightarrow> nat \<Rightarrow> page_state \<Rightarrow> (unit, page_state) access" where
  "psvidel_put env me a v n s =
     (let (r, t) = ask me (Psvidel_Write a v n) s
      in (Inr (), if r \<noteq> 0 then psvidel_ste_mirror env a v n t else t))"

section \<open>Reads of the keyboard page\<close>

definition hw_acia_lget :: "bus_env \<Rightarrow> io_env \<Rightarrow> u32 \<Rightarrow> page_state \<Rightarrow> (u32, page_state) access" where
  "hw_acia_lget env me a s =
     (if a = ACIA_KBD_CTRL \<and> (KBD_USB_enabled me \<or> kbd_native_mouse_enabled me \<or> kbd_ikbd_divert_active me)
      then
        (let (r, s1) = kbd_read8 env ACIA_KBD_CTRL s;
             (st, s2) = (if KBD_USB_enabled me then kbd_acia_status_merge me r s1 else (r, s1));
             (d, s3) = kbd_acia_data_read env me s2
         in pistorm_buserr a 0 True 4 (push_bit 24 (ucast st) OR 0x00FF0000 OR push_bit 8 (ucast d) OR 0xFF) s3)
      else if kbd_acia_reg a
      then
        (let (hi, s1) = kbd_read16 env a s;
             (lo, s2) = (if a = ACIA_KBD_CTRL then kbd_read16 env ACIA_KBD_DATA s1 else ps_read_16 env (a + 2) s1)
         in pistorm_buserr a 0 True 4 (push_bit 16 (ucast hi) OR ucast lo) s2)
      else hw_bus_lget env a s)"

definition hw_acia_wget :: "bus_env \<Rightarrow> io_env \<Rightarrow> u32 \<Rightarrow> page_state \<Rightarrow> (u32, page_state) access" where
  "hw_acia_wget env me a s =
     (if kbd_acia_shadowed me a
      then
        (let (v, s1) =
           (if a = ACIA_KBD_CTRL
            then (let (w, t) = kbd_read16 env a s; (st, u) = kbd_acia_status_merge me (ucast (drop_bit 8 w)) t
                  in (push_bit 8 (ucast st) OR (w AND 0xFF), u))
            else (let (d, t) = kbd_acia_data_read env me s in (push_bit 8 (ucast d) OR 0xFF, t)))
         in pistorm_buserr a 0 True 2 (ucast (v :: u16)) s1)
      else if kbd_acia_reg a then (let (v, s1) = kbd_read16 env a s in pistorm_buserr a 0 True 2 (ucast v) s1)
      else hw_bus_wget env a s)"

definition hw_acia_bget :: "bus_env \<Rightarrow> io_env \<Rightarrow> u32 \<Rightarrow> page_state \<Rightarrow> (u32, page_state) access" where
  "hw_acia_bget env me a s =
     (if kbd_acia_shadowed me a
      then
        (let (v, s1) =
           (if a = ACIA_KBD_CTRL then (let (w, t) = kbd_read8 env a s in kbd_acia_status_merge me w t)
            else kbd_acia_data_read env me s)
         in pistorm_buserr a 0 True 1 (ucast v) s1)
      else if kbd_acia_reg a then (let (v, s1) = kbd_read8 env a s in pistorm_buserr a 0 True 1 (ucast v) s1)
      else hw_bus_bget env a s)"

section \<open>Reads\<close>

definition hw_wget :: "bus_env \<Rightarrow> io_env \<Rightarrow> u32 \<Rightarrow> page_state \<Rightarrow> (u32, page_state) access" where
  "hw_wget env me address s0 =
     (let s = fc_data (s0\<lparr>g_buserr := False\<rparr>); a = hw_fold_addr address; p = hw_page_addr a in
      if fpu_in_regs me a then (Inr 0, s)
      else if nova_io_alias_addr me a then ask_r me (Et4000_Read (nova_io_alias_card_addr me a)) s
      else if hw_mfp_addr a then hw_mfp_wget env me a s
      else if psvidel_hw_owns me s a then ask_r me (Psvidel_Read a 2) s
      else case falcon_vbase_read me a 2 s of Some v \<Rightarrow> (Inr v, s)
      | None \<Rightarrow>
          if falcon_hw_owns me s a then ask_r me (Falcon_Read a 2) s
          else if falcon_tos_owns me s a then ask_r me (Tos_Read a 2) s
          else if p = HW_PAGE_FDD_DMA \<or> p = HW_PAGE_PSG then hw_fdd_get env me 2 a s
          else if p = HW_PAGE_BLITTER_LO \<or> p = HW_PAGE_BLITTER_HI then hw_blitter_wget env (io_now me) a s
          else if p = HW_PAGE_DMASND
          then (if DMA_Sound_enabled me \<and> dmasnd_owns me a then ask_r me (Dmasnd_Read a 2) s else hw_bus_wget env a s)
          else if p = HW_PAGE_JOYPAD then hw_joypad_get env me a 2 s
          else if p = HW_PAGE_ACIA then hw_acia_wget env me a s
          else hw_bus_wget env a s)"

definition hw_bget :: "bus_env \<Rightarrow> io_env \<Rightarrow> u32 \<Rightarrow> page_state \<Rightarrow> (u32, page_state) access" where
  "hw_bget env me address s0 =
     (let s = fc_data (s0\<lparr>g_buserr := False\<rparr>); a = hw_fold_addr address; p = hw_page_addr a in
      if fpu_in_regs me a then (Inr 0, s)
      else if nova_io_alias_addr me a then ask_r me (Et4000_Read (nova_io_alias_card_addr me a)) s
      else if hw_mfp_addr a then hw_mfp_bget env me a s
      else if psvidel_hw_owns me s a then ask_r me (Psvidel_Read a 1) s
      else case falcon_vbase_read me a 1 s of Some v \<Rightarrow> (Inr v, s)
      | None \<Rightarrow>
          if falcon_hw_owns me s a then ask_r me (Falcon_Read a 1) s
          else if falcon_tos_owns me s a then ask_r me (Tos_Read a 1) s
          else case pistorm_stram_memcfg_read_shim s a 1 of Some v \<Rightarrow> (Inr v, s)
          | None \<Rightarrow>
              case pistorm_video_base_read_shim s a 1 of Some v \<Rightarrow> (Inr v, s)
              | None \<Rightarrow>
                  if p = HW_PAGE_FDD_DMA \<or> p = HW_PAGE_PSG then hw_fdd_get env me 1 a s
                  else if p = HW_PAGE_BLITTER_LO \<or> p = HW_PAGE_BLITTER_HI then hw_blitter_bget env (io_now me) a s
                  else if p = HW_PAGE_DMASND
                  then (if DMA_Sound_enabled me \<and> dmasnd_owns me a then ask_r me (Dmasnd_Read a 1) s else hw_bus_bget env a s)
                  else if p = HW_PAGE_JOYPAD then hw_joypad_get env me a 1 s
                  else if p = HW_PAGE_ACIA then hw_acia_bget env me a s
                  else hw_bus_bget env a s)"

text \<open>A long that is taken as two words.\<close>

definition hw_split_get :: "bus_env \<Rightarrow> io_env \<Rightarrow> u32 \<Rightarrow> page_state \<Rightarrow> (u32, page_state) access" where
  "hw_split_get env me a s =
     (case hw_wget env me a s of
        (Inl e, t) \<Rightarrow> (Inl e, t)
      | (Inr hi, t) \<Rightarrow>
          (case hw_wget env me (a + 2) t of
             (Inl e, u) \<Rightarrow> (Inl e, u)
           | (Inr lo, u) \<Rightarrow> (Inr (push_bit 16 hi OR (lo AND 0xFFFF)), u)))"

definition hw_lget :: "bus_env \<Rightarrow> io_env \<Rightarrow> u32 \<Rightarrow> page_state \<Rightarrow> (u32, page_state) access" where
  "hw_lget env me address s0 =
     (let s = fc_data (s0\<lparr>g_buserr := False\<rparr>); a = hw_fold_addr address; p = hw_page_addr a in
      if fpu_in_regs me a \<or> nova_io_alias_addr me a then (Inr 0, s)
      else case falcon_vbase_read me a 4 s of Some v \<Rightarrow> (Inr v, s)
      | None \<Rightarrow>
          if psvidel_hw_owns me s a \<or> psvidel_hw_owns me s (a + 2) then hw_split_get env me a s
          else if falcon_hw_owns me s a then ask_r me (Falcon_Read a 4) s
          else if emulator_falcon_tos me \<and> a AND 0x00FFFFFC = 0x00FF8604 then hw_split_get env me a s
          else if falcon_tos_owns me s a then ask_r me (Tos_Read a 4) s
          else if p = HW_PAGE_FDD_DMA \<or> p = HW_PAGE_PSG then hw_fdd_get env me 4 a s
          else if p = HW_PAGE_BLITTER_LO \<or> p = HW_PAGE_BLITTER_HI then hw_blitter_lget env (io_now me) a s
          else if p = HW_PAGE_DMASND
          then (if DMA_Sound_enabled me \<and> dmasnd_owns me a then ask_r me (Dmasnd_Read a 4) s else hw_bus_lget env a s)
          else if p = HW_PAGE_JOYPAD then hw_joypad_get env me a 4 s
          else if p = HW_PAGE_ACIA then hw_acia_lget env me a s
          else hw_bus_lget env a s)"


section \<open>Writes to the keyboard page\<close>

text \<open>The control byte through the USB filter, with its snoop.\<close>

definition kbd_ctrl_byte :: "io_env \<Rightarrow> u8 \<Rightarrow> page_state \<Rightarrow> u8 \<times> page_state" where
  "kbd_ctrl_byte me b s = (let (f, t) = ask me (Kbd_Ctrl_Filter b) (tell me (Kbd_Ctrl b) s) in (ucast f, t))"

definition kbd_ctrl_note :: "u32 \<Rightarrow> u8 \<Rightarrow> page_state \<Rightarrow> page_state" where
  "kbd_ctrl_note a b s = (if a = ACIA_KBD_CTRL then s\<lparr>kbd := ps_acia_kbd_ctrl_written b (kbd s)\<rparr> else s)"

definition hw_acia_lput :: "bus_env \<Rightarrow> io_env \<Rightarrow> u32 \<Rightarrow> u32 \<Rightarrow> page_state \<Rightarrow> (unit, page_state) access" where
  "hw_acia_lput env me a v s =
     (let (v1, s1) =
        (if KBD_USB_enabled me \<and> a = ACIA_KBD_CTRL
         then (let (f, t) = kbd_ctrl_byte me (ucast (drop_bit 24 v)) s; w = (v AND 0x00FFFFFF) OR push_bit 24 (ucast f)
               in (w, tell me (Kbd_Tx (ucast (drop_bit 8 w))) t))
         else (v, if a = ACIA_KBD_CTRL \<and> kbd_native_mouse_enabled me then tell me (Kbd_Native_Tx (ucast (drop_bit 8 v))) s else s))
      in hw_bus_lput env a v1 (kbd_ctrl_note a (ucast (drop_bit 24 v1)) s1))"

definition hw_acia_wput :: "bus_env \<Rightarrow> io_env \<Rightarrow> u32 \<Rightarrow> u32 \<Rightarrow> page_state \<Rightarrow> (unit, page_state) access" where
  "hw_acia_wput env me a v s =
     (let (v1, s1) =
        (if KBD_USB_enabled me
         then (if a = ACIA_KBD_CTRL
               then (let (f, t) = kbd_ctrl_byte me (ucast (drop_bit 8 v)) s in ((v AND 0x00FF) OR push_bit 8 (ucast f), t))
               else (v, if a = ACIA_KBD_DATA then tell me (Kbd_Tx (ucast (drop_bit 8 v))) s else s))
         else (v, if a = ACIA_KBD_DATA \<and> kbd_native_mouse_enabled me then tell me (Kbd_Native_Tx (ucast (drop_bit 8 v))) s else s))
      in hw_bus_wput env a v1 (kbd_ctrl_note a (ucast (drop_bit 8 v1)) s1))"

definition hw_acia_bput :: "bus_env \<Rightarrow> io_env \<Rightarrow> u32 \<Rightarrow> u32 \<Rightarrow> page_state \<Rightarrow> (unit, page_state) access" where
  "hw_acia_bput env me a v s =
     (let (v1, s1) =
        (if KBD_USB_enabled me
         then (if a = ACIA_KBD_CTRL then (let (f, t) = kbd_ctrl_byte me (ucast v) s in (ucast f, t))
               else (v, if a = ACIA_KBD_DATA then tell me (Kbd_Tx (ucast v)) s else s))
         else (v, if a = ACIA_KBD_DATA \<and> kbd_native_mouse_enabled me then tell me (Kbd_Native_Tx (ucast v)) s else s))
      in hw_bus_bput env a v1 (kbd_ctrl_note a (ucast v1) s1))"

section \<open>Writes\<close>

text \<open>\<open>None\<close> is \<open>abort()\<close> while a memory configuration write moves the RAM windows, or a host fault of the
  emulated blitter.\<close>

definition hw_wput :: "bus_env \<Rightarrow> io_env \<Rightarrow> u32 \<Rightarrow> u32 \<Rightarrow> page_state \<Rightarrow> (unit, page_state) access option" where
  "hw_wput env me address v0 s0 =
     (let a = hw_fold_addr address; p = hw_page_addr a in
      case stram_memcfg_snoop env a v0 2 (fc_data (s0\<lparr>g_buserr := False\<rparr>)) of None \<Rightarrow> None
      | Some s1 \<Rightarrow>
          (let (v, s2) = pistorm_stram_memcfg_bus_value a v0 2 s1; s = tell me (Tos_Snoop a v 2) s2 in
           if fpu_in_regs me a then Some (Inr (), s)
           else if nova_io_alias_addr me a then Some (Inr (), tell me (Et4000_Write (nova_io_alias_card_addr me a) (ucast v)) s)
           else if psvidel_hw_owns me s a then Some (psvidel_put env me a (v AND 0xFFFF) 2 s)
           else if falcon_hw_owns me s a then Some (Inr (), tell me (Falcon_Write a (v AND 0xFFFF) 2) s)
           else if falcon_tos_owns me s a then Some (Inr (), tell me (Tos_Write a (v AND 0xFFFF) 2) s)
           else if p = HW_PAGE_VIDEO
           then Some (and_then (hw_bus_wput env a v (tell me (Psvidel_Snoop a (v AND 0xFFFF) 2) (st_video_snoop16 a (ucast v) s)))
                        (stram_shadow_video_after env a 2))
           else if p = HW_PAGE_FDD_DMA then Some (hw_fdd_put env me 2 a v s)
           else if p = HW_PAGE_PSG
           then Some (hw_fdd_put env me 2 a v (tell me (Falcon_Psg a (v AND 0xFFFF) 2) (tell me (Ym_Snoop a (v AND 0xFFFF) 2) s)))
           else if p = HW_PAGE_DMASND
           then Some (if DMA_Sound_enabled me \<and> dmasnd_owns me a then (Inr (), tell me (Dmasnd_Snoop a (v AND 0xFFFF) 2) s)
                      else hw_bus_wput env a v s)
           else if p = HW_PAGE_BLITTER_LO \<or> p = HW_PAGE_BLITTER_HI then hw_blitter_wput env (io_now me) a v s
           else if p = HW_PAGE_MFP then Some (if hw_mfp_addr a then hw_mfp_wput env me a v s else hw_bus_wput env a v s)
           else if p = HW_PAGE_JOYPAD then Some (hw_joypad_put env me a 2 v s)
           else if p = HW_PAGE_ACIA then Some (hw_acia_wput env me a v s)
           else Some (hw_bus_wput env a v s)))"

definition hw_bput :: "bus_env \<Rightarrow> io_env \<Rightarrow> u32 \<Rightarrow> u32 \<Rightarrow> page_state \<Rightarrow> (unit, page_state) access option" where
  "hw_bput env me address v0 s0 =
     (let a = hw_fold_addr address; p = hw_page_addr a in
      case stram_memcfg_snoop env a v0 1 (fc_data (s0\<lparr>g_buserr := False\<rparr>)) of None \<Rightarrow> None
      | Some s1 \<Rightarrow>
          (let (v, s2) = pistorm_stram_memcfg_bus_value a v0 1 s1; s = tell me (Tos_Snoop a v 1) s2 in
           if fpu_in_regs me a then Some (Inr (), s)
           else if nova_io_alias_addr me a then Some (Inr (), tell me (Et4000_Write (nova_io_alias_card_addr me a) (ucast v)) s)
           else if psvidel_hw_owns me s a then Some (psvidel_put env me a (v AND 0xFF) 1 s)
           else if falcon_hw_owns me s a then Some (Inr (), tell me (Falcon_Write a (v AND 0xFF) 1) s)
           else if falcon_tos_owns me s a then Some (Inr (), tell me (Tos_Write a (v AND 0xFF) 1) s)
           else if p = HW_PAGE_VIDEO
           then Some (and_then (hw_bus_bput env a v (tell me (Psvidel_Snoop a (v AND 0xFF) 1) (st_video_snoop8 a (ucast v) s)))
                        (stram_shadow_video_after env a 1))
           else if p = HW_PAGE_FDD_DMA then Some (hw_fdd_put env me 1 a v s)
           else if p = HW_PAGE_PSG
           then Some (hw_fdd_put env me 1 a v (tell me (Falcon_Psg a (v AND 0xFF) 1) (tell me (Ym_Snoop a (v AND 0xFF) 1) s)))
           else if p = HW_PAGE_DMASND
           then Some (if DMA_Sound_enabled me \<and> dmasnd_owns me a then (Inr (), tell me (Dmasnd_Snoop a (v AND 0xFF) 1) s)
                      else hw_bus_bput env a v s)
           else if p = HW_PAGE_BLITTER_LO \<or> p = HW_PAGE_BLITTER_HI then hw_blitter_bput env (io_now me) a v s
           else if p = HW_PAGE_MFP then Some (if hw_mfp_addr a then hw_mfp_bput env me a v s else hw_bus_bput env a v s)
           else if p = HW_PAGE_JOYPAD then Some (hw_joypad_put env me a 1 v s)
           else if p = HW_PAGE_ACIA then Some (hw_acia_bput env me a v s)
           else Some (hw_bus_bput env a v s)))"

definition hw_split_put :: "bus_env \<Rightarrow> io_env \<Rightarrow> u32 \<Rightarrow> u32 \<Rightarrow> page_state \<Rightarrow> (unit, page_state) access option" where
  "hw_split_put env me a v s =
     (case hw_wput env me a (drop_bit 16 v) s of
        Some (Inr _, t) \<Rightarrow> hw_wput env me (a + 2) (v AND 0xFFFF) t
      | r \<Rightarrow> r)"

definition hw_lput :: "bus_env \<Rightarrow> io_env \<Rightarrow> u32 \<Rightarrow> u32 \<Rightarrow> page_state \<Rightarrow> (unit, page_state) access option" where
  "hw_lput env me address v0 s0 =
     (let a = hw_fold_addr address; p = hw_page_addr a in
      case stram_memcfg_snoop env a v0 4 (fc_data (s0\<lparr>g_buserr := False\<rparr>)) of None \<Rightarrow> None
      | Some s1 \<Rightarrow>
          (let (v, s) = pistorm_stram_memcfg_bus_value a v0 4 s1 in
           if emulator_falcon_tos me \<and> a AND 0x00FFFFFC = 0x00FF8604 then hw_split_put env me a v s
           else if fpu_in_regs me a \<or> nova_io_alias_addr me a then Some (Inr (), s)
           else if psvidel_hw_owns me s a \<or> psvidel_hw_owns me s (a + 2) then hw_split_put env me a v s
           else if falcon_hw_owns me s a then Some (Inr (), tell me (Falcon_Write a v 4) s)
           else if falcon_tos_owns me s a then Some (Inr (), tell me (Tos_Write a v 4) s)
           else if p = HW_PAGE_VIDEO
           then Some (and_then (hw_bus_lput env a v (tell me (Psvidel_Snoop a v 4) (st_video_snoop32 a v s)))
                        (stram_shadow_video_after env a 4))
           else if p = HW_PAGE_FDD_DMA then Some (hw_fdd_put env me 4 a v s)
           else if p = HW_PAGE_PSG then Some (hw_fdd_put env me 4 a v (tell me (Falcon_Psg a v 4) (tell me (Ym_Snoop a v 4) s)))
           else if p = HW_PAGE_DMASND
           then Some (if DMA_Sound_enabled me \<and> dmasnd_owns me a then (Inr (), tell me (Dmasnd_Snoop a v 4) s)
                      else hw_bus_lput env a v s)
           else if p = HW_PAGE_BLITTER_LO \<or> p = HW_PAGE_BLITTER_HI then hw_blitter_lput env (io_now me) a v s
           else if p = HW_PAGE_MFP then Some (if hw_mfp_addr a then hw_mfp_lput env me a v s else hw_bus_lput env a v s)
           else if p = HW_PAGE_JOYPAD then Some (hw_joypad_put env me a 4 v s)
           else if p = HW_PAGE_ACIA then Some (hw_acia_lput env me a v s)
           else Some (hw_bus_lput env a v s)))"


section \<open>The memory configuration register through the bank\<close>

text \<open>What the register's path depends on.\<close>

definition cfg_path :: "'a shadow_state_scheme \<Rightarrow> u8 \<times> u8 \<times> bus_cycle list \<times> u8" where
  "cfg_path s = (g_stram_phys_memcfg s, g_stram_guest_memcfg s, bus_hist s, fc s)"

lemma cfg_path_region [simp]: "cfg_path (map_region start len b s) = cfg_path s"
  by (subst map_region_only) (simp add: cfg_path_def)

lemma cfg_path_chunks: "stram_map_chunks env gs s = Some t \<Longrightarrow> cfg_path t = cfg_path s"
  by (induction env gs s rule: stram_map_chunks.induct) (auto simp: cfg_path_def split: if_splits)

lemma cfg_path_recfg:
  assumes "stram_alias_recfg env c s = Some t"
  shows "cfg_path t = cfg_path s"
proof -
  have h: "cfg_path (stram_fold_hook_update u) = cfg_path u" for u :: "'a shadow_state_scheme"
    by (simp add: stram_fold_hook_update_def cfg_path_def)
  have b: "cfg_path (stram_alias_apply_banks u) = cfg_path u" for u :: "'a shadow_state_scheme"
    by (simp add: stram_alias_apply_banks_def Let_def)
  let ?s = "s\<lparr>g_stram_memcfg := c, g_stram_cfgb0 := memcfg_bank0 c, g_stram_cfgb1 := memcfg_bank1 c\<rparr>"
  have u: "cfg_path ?s = cfg_path s" by (simp add: cfg_path_def)
  show ?thesis
  proof (cases "c = g_stram_memcfg s")
    case False
    then obtain s3 where "stram_map_chunks env stram_chunks (stram_fold_hook_update ?s) = Some s3" "t = stram_alias_apply_banks s3"
      using assms by (auto simp: stram_alias_recfg_def stram_alias_layout_def Let_def split: option.splits)
    then show ?thesis using cfg_path_chunks [of env stram_chunks "stram_fold_hook_update ?s" s3] h [of ?s] b [of s3] u by simp
  qed (use assms in \<open>simp add: stram_alias_recfg_def\<close>)
qed

lemma cfg_path_snoop: "stram_memcfg_snoop env a v n s = Some t \<Longrightarrow> cfg_path t = cfg_path s"
  by (auto simp: stram_memcfg_snoop_def dest: cfg_path_recfg split: if_splits)

text \<open>No device claims the register, and the calls to devices leave its path alone.\<close>

definition memcfg_unclaimed :: "io_env \<Rightarrow> bool" where
  "memcfg_unclaimed me \<longleftrightarrow>
     (\<forall>s. \<forall>a \<in> {0x00FF8000, 0x00FF8001, 0x00FF8002}.
        \<not> psvidel_hw_owns me s a \<and> \<not> falcon_hw_owns me s a \<and> \<not> falcon_tos_owns me s a)"

definition snoop_quiet :: "io_env \<Rightarrow> bool" where
  "snoop_quiet me \<longleftrightarrow> (\<forall>a v n s. cfg_path (snd (dev me (Tos_Snoop a v n) s)) = cfg_path s)"

definition hw_put :: "nat \<Rightarrow> bus_env \<Rightarrow> io_env \<Rightarrow> u32 \<Rightarrow> u32 \<Rightarrow> page_state \<Rightarrow> (unit, page_state) access option" where
  "hw_put n = (if n = 1 then hw_bput else if n = 2 then hw_wput else hw_lput)"

lemma tell_path: "snoop_quiet me \<Longrightarrow> cfg_path (tell me (Tos_Snoop a v n) s) = cfg_path s"
  by (simp add: snoop_quiet_def tell_def ask_def) (simp add: cfg_path_def)

lemmas io_page_consts = HW_PAGE_VIDEO_def HW_PAGE_FDD_DMA_def HW_PAGE_PSG_def HW_PAGE_DMASND_def HW_PAGE_BLITTER_LO_def
  HW_PAGE_BLITTER_HI_def HW_PAGE_JOYPAD_def HW_PAGE_MFP_def HW_PAGE_ACIA_def

lemma bus_put_path:
  "cfg_path (snd (hw_bus_bput env a v s)) = (g_stram_phys_memcfg s, g_stram_guest_memcfg s, WriteByte (fc s) a (ucast v) # bus_hist s, fc s)"
  "cfg_path (snd (hw_bus_wput env a v s)) = (g_stram_phys_memcfg s, g_stram_guest_memcfg s, WriteWord (fc s) a (ucast v) # bus_hist s, fc s)"
  "cfg_path (snd (hw_bus_lput env a v s)) =
     (g_stram_phys_memcfg s, g_stram_guest_memcfg s,
      WriteWord (fc s) (a + 2) (ucast v) # WriteWord (fc s) a (ucast (drop_bit 16 v)) # bus_hist s, fc s)"
  for s :: "'a shadow_state_scheme"
  by (simp_all add: cfg_path_def hw_bus_bput_def hw_bus_wput_def hw_bus_lput_def ps_bus_lput_def pistorm_buserr_def ps_write_8_def
      ps_write_16_def ps_write_txn_def latch_berr_def)

lemma memcfg_addr_facts:
  "hw_fold_addr 0x00FF8001 = 0x00FF8001" "hw_fold_addr 0x00FF8000 = 0x00FF8000"
  "hw_page_addr 0x00FF8001 = 0x00FF8000" "hw_page_addr 0x00FF8000 = 0x00FF8000"
  "\<not> fpu_in_regs me 0x00FF8001" "\<not> fpu_in_regs me 0x00FF8000"
  "\<not> nova_io_alias_addr me 0x00FF8001" "\<not> nova_io_alias_addr me 0x00FF8000"
  "\<not> hw_mfp_addr 0x00FF8001" "falcon_vbase_read me 0x00FF8001 1 s = None"
  by (simp_all add: hw_fold_addr_def hw_page_addr_def fpu_in_regs_def nova_io_alias_addr_def hw_mfp_addr_def falcon_vbase_read_def)

text \<open>The write of the register in its three sizes ends in a plain bus write of the value that carries
  the board's byte.\<close>

lemma hw_put_memcfg:
  assumes un: "memcfg_unclaimed me" and q: "snoop_quiet me" and p: "hw_put n env me a v s = Some (r, t)"
    and n: "n = 1 \<and> hw_fold_addr a = 0x00FF8001 \<or> n = 2 \<and> hw_fold_addr a = 0x00FF8000 \<or> n = 4 \<and> hw_fold_addr a = 0x00FF8000"
  shows "\<exists>(s1 :: page_state) w (s2 :: page_state). cfg_path s1 = (g_stram_phys_memcfg s, g_stram_guest_memcfg s, bus_hist s, fc s1) \<and>
    pistorm_stram_memcfg_bus_value (hw_fold_addr a) v n s1 = (w, s2) \<and>
    (\<exists>s3. cfg_path s3 = cfg_path s2 \<and>
       t = snd (if n = 1 then hw_bus_bput env (hw_fold_addr a) w s3 else if n = 2 then hw_bus_wput env (hw_fold_addr a) w s3
                else hw_bus_lput env (hw_fold_addr a) w s3))"
proof -
  let ?s = "fc_data (s\<lparr>g_buserr := False\<rparr>)" and ?A = "hw_fold_addr a"
  have c0: "cfg_path ?s = (g_stram_phys_memcfg s, g_stram_guest_memcfg s, bus_hist s, fc ?s)" by (simp add: cfg_path_def fc_data_def)
  obtain s1 where s1: "stram_memcfg_snoop env ?A v n ?s = Some s1"
    using p n by (auto simp: hw_put_def hw_bput_def hw_wput_def hw_lput_def Let_def split: option.splits)
  obtain w s2 where w: "pistorm_stram_memcfg_bus_value ?A v n s1 = (w, s2)" by fastforce
  have ow: "\<not> psvidel_hw_owns me u b" "\<not> falcon_hw_owns me u b" "\<not> falcon_tos_owns me u b"
    if "b \<in> {0x00FF8000, 0x00FF8001, 0x00FF8002}" for u b using un that by (auto simp: memcfg_unclaimed_def)
  let ?s3 = "if n = 4 then s2 else tell me (Tos_Snoop ?A w n) s2"
  have "t = snd (if n = 1 then hw_bus_bput env ?A w ?s3 else if n = 2 then hw_bus_wput env ?A w ?s3 else hw_bus_lput env ?A w ?s3)"
    using p n s1 w ow by (auto simp: hw_put_def hw_bput_def hw_wput_def hw_lput_def Let_def memcfg_addr_facts io_page_consts)
  moreover have "cfg_path ?s3 = cfg_path s2" using q by (simp add: tell_path)
  moreover have "cfg_path s1 = cfg_path ?s" using cfg_path_snoop [OF s1] .
  then have "cfg_path s1 = (g_stram_phys_memcfg s, g_stram_guest_memcfg s, bus_hist s, fc s1)" using c0 by (simp add: cfg_path_def)
  ultimately show ?thesis using w by blast
qed


text \<open>C19: The memory configuration register through the whole bank, on a board whose own value is known and not 0
  (which excludes boards with 128K banks only, see \<open>memcfg_128k_board_not_owned\<close>) and while no device claims the
  register. Whatever alias of the register the guest writes, as a byte at \<open>$FF8001\<close> or as a word or long at
  \<open>$FF8000\<close>, the last cycle that reaches the chip carries the value of the board, and a byte read of \<open>$FF8001\<close>
  through any alias gives the guest its own value back. Word and long reads show the chip.\<close>

theorem io_memcfg_roundtrip:
  assumes "g_stram_phys_memcfg s \<noteq> 0" "memcfg_unclaimed me" "snoop_quiet me"
    "n = 1 \<and> hw_fold_addr a = 0x00FF8001 \<or> n = 2 \<and> hw_fold_addr a = 0x00FF8000 \<or> n = 4 \<and> hw_fold_addr a = 0x00FF8000"
    "hw_put n env me a v s = Some (r, t)" "hw_fold_addr b = 0x00FF8001"
  shows "bus_mem m (bus_hist t) 0x00FF8001 = g_stram_phys_memcfg s \<and>
    (\<exists>g. write_byte (hw_fold_addr a) v n 0x00FF8001 = Some g \<and> fst (hw_bget env me b t) = Inr (ucast g))"
proof -
  obtain s1 s2 s3 :: page_state and w where s1: "cfg_path s1 = (g_stram_phys_memcfg s, g_stram_guest_memcfg s, bus_hist s, fc s1)"
    and w: "pistorm_stram_memcfg_bus_value (hw_fold_addr a) v n s1 = (w, s2)" and s3: "cfg_path s3 = cfg_path s2"
    and t: "t = snd (if n = 1 then hw_bus_bput env (hw_fold_addr a) w s3 else if n = 2 then hw_bus_wput env (hw_fold_addr a) w s3
                     else hw_bus_lput env (hw_fold_addr a) w s3)"
    using hw_put_memcfg [OF assms(2,3,5,4)] by blast
  obtain g where g: "write_byte (hw_fold_addr a) v n 0x00FF8001 = Some g" using assms(4) by (auto simp: write_byte_cases simp del: One_nat_def)
  have ph: "g_stram_phys_memcfg s1 = g_stram_phys_memcfg s" "g_stram_phys_memcfg s1 \<noteq> 0" using s1 assms(1) by (simp_all add: cfg_path_def)
  have "g_stram_phys_memcfg s2 = g_stram_phys_memcfg s \<and> g_stram_guest_memcfg s2 = g"
    using w assms(4) g ph by (auto simp: pistorm_stram_memcfg_bus_value_def write_byte_cases hw_fold_addr_def simp del: One_nat_def)
  then have gs: "g_stram_phys_memcfg s3 = g_stram_phys_memcfg s" "g_stram_guest_memcfg s3 = g" using s3 by (simp_all add: cfg_path_def)
  have tp: "g_stram_phys_memcfg t = g_stram_phys_memcfg s3" "g_stram_guest_memcfg t = g_stram_guest_memcfg s3"
    using bus_put_path [of env "hw_fold_addr a" w s3] by (simp_all add: t cfg_path_def)
  have "hw_fold_addr a < 0x01000000"
    "n = 1 \<or> n = 2 \<and> even (unat (hw_fold_addr a)) \<or> n = 4 \<and> even (unat (hw_fold_addr a)) \<and> hw_fold_addr a \<noteq> 0x00FF7FFE"
    using assms(4) by auto
  from memcfg_bus_byte [OF ph(2) this w, of "0x00FF8001"] g ph(1)
  have "write_byte (hw_fold_addr a) w n 0x00FF8001 = Some (g_stram_phys_memcfg s)" by simp
  then have "bus_mem m (bus_hist t) 0x00FF8001 = g_stram_phys_memcfg s"
    using bus_put_path [of env "hw_fold_addr a" w s3] assms(4) by (auto simp: t cfg_path_def write_byte_cases long_halves simp del: One_nat_def)
  moreover have "pistorm_stram_memcfg_read_shim (fc_data (t\<lparr>g_buserr := False\<rparr>)) 0x00FF8001 1 = Some (ucast g)"
    using assms(1) gs tp by (simp add: pistorm_stram_memcfg_read_shim_def fc_data_def)
  then have "fst (hw_bget env me b t) = Inr (ucast g)"
    using assms(2,6) by (simp add: hw_bget_def Let_def memcfg_addr_facts memcfg_unclaimed_def del: One_nat_def)
  ultimately show ?thesis using g by blast
qed


text \<open>A machine without the optional devices, on a board of 512K and 512K.\<close>

definition demo_io :: io_env where
  "demo_io = mfp_env.extend demo_me
     \<lparr>dev = (\<lambda>c s. (0, s)), psvidel_hw_owns = (\<lambda>_ _. False), falcon_hw_owns = (\<lambda>_ _. False), falcon_tos_owns = (\<lambda>_ _. False),
      dmasnd_owns = (\<lambda>_. False), getenv_dma_snoop = None, stack_buf = [], emulator_config_fpu = False,
      et4k_io_base = None, emulator_falcon_tos = False, psvidel_getphys = (\<lambda>_. 0), JOY_USB_enabled = False,
      joy_usb_ste_addr = (\<lambda>_. False), falcon_armed = False, machine_kind = 0, kbd_native_mouse_enabled = False,
      kbd_ikbd_divert_active = False, kbd_hotkeys_on = False, io_now = 0\<rparr>"

definition demo_board :: page_state where
  "demo_board = demo_page\<lparr>g_stram_phys_memcfg := 5, g_stram_alias := False\<rparr>"

lemma demo_io_facts: "memcfg_unclaimed demo_io" "snoop_quiet demo_io"
  by (simp_all add: memcfg_unclaimed_def snoop_quiet_def demo_io_def mfp_env.extend_def)

lemma demo_put: "\<exists>r t. hw_put 2 flaky_env demo_io 0xFFFF8000 0x000A demo_board = Some (r, t)"
proof -
  have "\<not> g_stram_alias (fc_data (demo_board\<lparr>g_buserr := False\<rparr>))" by (simp add: demo_board_def fc_data_def)
  then have "stram_memcfg_snoop flaky_env a v 2 (fc_data (demo_board\<lparr>g_buserr := False\<rparr>)) = Some (fc_data (demo_board\<lparr>g_buserr := False\<rparr>))" for a v
    by (simp add: stram_memcfg_snoop_def)
  moreover have "hw_fold_addr 0xFFFF8000 = 0x00FF8000" by (simp add: hw_fold_addr_def)
  ultimately show ?thesis
    using demo_io_facts(1) by (simp add: hw_put_def hw_wput_def memcfg_addr_facts io_page_consts memcfg_unclaimed_def split: prod.split)
qed

theorem io_memcfg_roundtrip_witness:
  "\<exists>r t. hw_put 2 flaky_env demo_io 0xFFFF8000 0x000A demo_board = Some (r, t) \<and>
     bus_mem (\<lambda>_. 0) (bus_hist t) 0x00FF8001 = 5 \<and> fst (hw_bget flaky_env demo_io 0xFFFF8001 t) = Inr 0x0A"
proof -
  obtain r t where p: "hw_put 2 flaky_env demo_io 0xFFFF8000 0x000A demo_board = Some (r, t)" using demo_put by blast
  have a: "hw_fold_addr 0xFFFF8000 = 0x00FF8000" "hw_fold_addr 0xFFFF8001 = 0x00FF8001" by (simp_all add: hw_fold_addr_def)
  have ph: "g_stram_phys_memcfg demo_board = 5" by (simp add: demo_board_def)
  have "bus_mem (\<lambda>_. 0) (bus_hist t) 0x00FF8001 = g_stram_phys_memcfg demo_board \<and>
    (\<exists>g. write_byte (hw_fold_addr 0xFFFF8000) 0x000A 2 0x00FF8001 = Some g \<and> fst (hw_bget flaky_env demo_io 0xFFFF8001 t) = Inr (ucast g))"
    by (rule io_memcfg_roundtrip [OF _ demo_io_facts _ p a(2)]) (simp_all add: ph a)
  then show ?thesis using p by (auto simp: ph a write_byte_cases)
qed

section \<open>Long reads of the MFP\<close>

text \<open>Byte and word reads of the pending registers are merged with the virtual channels, a long read
  over both of them is not: it is the plain bus access.\<close>

lemma mfp_long_read_unmerged:
  assumes "\<And>u b. \<not> psvidel_hw_owns me u b \<and> \<not> falcon_hw_owns me u b \<and> \<not> falcon_tos_owns me u b"
  shows "hw_lget env me 0x00FFFA0A s = hw_bus_lget env 0x00FFFA0A (fc_data (s\<lparr>g_buserr := False\<rparr>))"
proof -
  have "hw_fold_addr 0x00FFFA0A = 0x00FFFA0A" "hw_page_addr 0x00FFFA0A = 0x00FFFA00" "\<not> fpu_in_regs me 0x00FFFA0A"
    "\<not> nova_io_alias_addr me 0x00FFFA0A" "falcon_vbase_read me 0x00FFFA0A 4 (fc_data (s\<lparr>g_buserr := False\<rparr>)) = None"
    by (simp_all add: hw_fold_addr_def hw_page_addr_def fpu_in_regs_def nova_io_alias_addr_def falcon_vbase_read_def)
  then show ?thesis using assms by (simp add: hw_lget_def io_page_consts)
qed

section \<open>The end of a real DMA transfer\<close>

text \<open>No emulated device answers the DMA status register: the disk controller is the machine's own.\<close>

definition dma_unclaimed :: "io_env \<Rightarrow> bool" where
  "dma_unclaimed me \<longleftrightarrow> \<not> fdd_route_address me DMA_MODE_REG \<and>
     (\<forall>s. \<not> psvidel_hw_owns me s DMA_MODE_REG \<and> \<not> falcon_hw_owns me s DMA_MODE_REG \<and> \<not> falcon_tos_owns me s DMA_MODE_REG)"

lemma dma_status_addr:
  "hw_fold_addr DMA_MODE_REG = DMA_MODE_REG" "hw_page_addr DMA_MODE_REG = HW_PAGE_FDD_DMA"
  "\<not> fpu_in_regs me DMA_MODE_REG" "\<not> nova_io_alias_addr me DMA_MODE_REG" "\<not> hw_mfp_addr DMA_MODE_REG"
  "falcon_vbase_read me DMA_MODE_REG 2 s = None"
  by (simp_all add: hw_fold_addr_def hw_page_addr_def fpu_in_regs_def nova_io_alias_addr_def hw_mfp_addr_def
      falcon_vbase_read_def Let_def c_const)

lemma dma_status_get:
  assumes un: "dma_unclaimed me" and ok: "\<not> env_berr env (ReadWord (fc (fc_data s)) DMA_MODE_REG # bus_hist s)"
  defines "v \<equiv> ucast (env_data env (ReadWord (fc (fc_data s)) DMA_MODE_REG # bus_hist s))"
  shows "hw_wget env me DMA_MODE_REG s = (Inr v, snooped me DMA_MODE_REG (dma_snoop_read (getenv_dma_snoop me) env DMA_MODE_REG v 2)
    ((fc_data (s\<lparr>g_buserr := False\<rparr>))\<lparr>bus_hist := ReadWord (fc (fc_data s)) DMA_MODE_REG # bus_hist s\<rparr>))"
proof -
  let ?s = "fc_data (s\<lparr>g_buserr := False\<rparr>)"
  have f: "fc ?s = fc (fc_data s)" "bus_hist ?s = bus_hist s" "\<not> g_buserr ?s" by (simp_all add: fc_data_def)
  have b: "hw_bus_wget env DMA_MODE_REG ?s =
      (Inr v, ?s\<lparr>bus_hist := ReadWord (fc (fc_data s)) DMA_MODE_REG # bus_hist s\<rparr>)"
    using ok f by (simp add: hw_bus_wget_def ps_read_16_def ps_read_txn_def latch_berr_def pistorm_buserr_def v_def Let_def
        DMA_MODE_REG_def)
  show ?thesis
    using un b by (simp add: hw_wget_def dma_status_addr dma_unclaimed_def hw_fdd_get_def)
qed

text \<open>C22: the whole path of a real disk read ends in guest memory. When the guest reads the DMA status
  through the I/O bank and the chip reports a sector count of zero for an armed transfer from the
  device, the guest gets the chip's word, and when the access returns the mirror holds the bytes that reads
  of the bus show over the window, any other byte is unchanged and the window is disarmed.\<close>

theorem guest_dma_status_read:
  assumes "dma_unclaimed me" and "dma_armed a n (snoop s)" and "board_ram env (unat a) (unat n * 512) B" and "flat s"
    and "0x400000 \<le> unat (g_stram_top s)" and "unat (g_stram_top s) \<le> 0x01000000"
    and "0 < unat n" and "unat n \<le> 255" and "unat a + unat n * 512 \<le> 0x400000"
    and "\<not> env_berr env (ReadWord (fc (fc_data s)) DMA_MODE_REG # bus_hist s)"
    and "ucast (env_data env (ReadWord (fc (fc_data s)) DMA_MODE_REG # bus_hist s)) AND DMA_STATUS_SCZERO \<noteq> 0"
  shows "\<exists>t. hw_wget env me DMA_MODE_REG s =
      (Inr (ucast (env_data env (ReadWord (fc (fc_data s)) DMA_MODE_REG # bus_hist s))), t) \<and>
    (\<forall>x. natmem_byte t x = (if unat a \<le> unat x \<and> unat x < unat a + unat n * 512 then B x else natmem_byte s x)) \<and>
    \<not> win_armed (snoop t)"
proof -
  let ?h = "ReadWord (fc (fc_data s)) DMA_MODE_REG # bus_hist s"
  let ?v = "ucast (env_data env ?h) :: u32"
  let ?s = "(fc_data (s\<lparr>g_buserr := False\<rparr>))\<lparr>bus_hist := ?h\<rparr>"
  have f: "flat ?s" "g_stram_top ?s = g_stram_top s" "snoop ?s = snoop s" "nm_anon ?s = nm_anon s"
    using assms(4) by (simp_all add: fc_data_def flat_def)
  have on: "dma_snoop_active (getenv_dma_snoop me) (snoop s) = (snoop_env (snoop s), snoop s)" "snoop_env (snoop s) \<noteq> 0"
    using assms(2) by (simp_all add: dma_armed_def dma_ready_def)
  obtain d' s' t where r: "dma_snoop_read (getenv_dma_snoop me) env DMA_MODE_REG ?v 2 (snoop s, ?s) = (d', t)" "\<not> win_armed d'"
    "sees ?s s'" "pulled a (map (\<lambda>x. B (of_nat x)) [unat a..<unat a + unat n * 512]) s' t"
    using dma_status_pulls [OF assms(2,11,3) f(1), of "getenv_dma_snoop me"] assms(5-9) f(2) by auto
  have "hw_wget env me DMA_MODE_REG s = (Inr ?v, t\<lparr>snoop := d'\<rparr>)"
    using dma_status_get [OF assms(1,10)] on r(1) f(3) by (simp add: snooped_def dma_snoop_owns_def DMA_MODE_REG_def)
  moreover have ft: "flat t" using r(4) f(1) sees_ram(1) [OF r(3)] by (auto simp: pulled_def)
  moreover have "flat (t\<lparr>snoop := d'\<rparr>)" using ft by (simp add: flat_def)
  ultimately show ?thesis
    using pulled_bytes(1) [OF r(4)] sees_ram(3) [OF r(3)] f(4) r(2) assms(4,9) by (simp add: natmem_byte_flat)
qed

definition disk_board :: page_state where
  "disk_board = demo_page\<lparr>nm_page := (\<lambda>_. None), g_stram_alias := False, g_stram_fold_hook := False, g_stram_top := 0x400000,
     snoop := snoop_boot\<lparr>dma_base := 0x2000, dma_count := 2, win_base := 0x2000, win_count := 2, win_armed := True\<rparr>\<rparr>"

theorem guest_dma_status_read_witness:
  "\<exists>t. hw_wget disk_env (demo_io\<lparr>FDD_enabled := False\<rparr>) DMA_MODE_REG disk_board = (Inr 0x4747, t) \<and>
     natmem_byte t 0x23FF = 0x47 \<and> natmem_byte t 0x2400 = natmem_byte disk_board 0x2400"
proof -
  have un: "dma_unclaimed (demo_io\<lparr>FDD_enabled := False\<rparr>)"
    by (simp add: dma_unclaimed_def demo_io_def demo_me_def mfp_env.extend_def fdd_route_address_def)
  have arm: "dma_armed 0x2000 2 (snoop disk_board)"
    by (simp add: dma_armed_def dma_ready_def disk_board_def snoop_boot_def)
  have ram: "flat disk_board" "g_stram_top disk_board = 0x400000" by (simp_all add: disk_board_def flat_def)
  have env: "env_data disk_env h = 0x4747" "\<not> env_berr disk_env h" for h by (simp_all add: disk_env_def)
  have "\<exists>t. hw_wget disk_env (demo_io\<lparr>FDD_enabled := False\<rparr>) DMA_MODE_REG disk_board =
      (Inr (ucast (env_data disk_env (ReadWord (fc (fc_data disk_board)) DMA_MODE_REG # bus_hist disk_board))), t) \<and>
    (\<forall>x. natmem_byte t x = (if unat (0x2000 :: u32) \<le> unat x \<and> unat x < unat (0x2000 :: u32) + unat (2 :: u32) * 512 then 0x47
       else natmem_byte disk_board x)) \<and> \<not> win_armed (snoop t)"
    by (rule guest_dma_status_read [OF un arm disk_facts(1) ram(1)]) (simp_all add: ram(2) env DMA_STATUS_SCZERO_def)
  then show ?thesis by (auto simp: env)
qed

section \<open>The start of a real DMA transfer\<close>

text \<open>No emulated device answers the data and the mode register, and the call that shows writes to the
  Falcon's TOS leaves the state alone.\<close>

definition dma_put_unclaimed :: "io_env \<Rightarrow> bool" where
  "dma_put_unclaimed me \<longleftrightarrow> \<not> emulator_falcon_tos me \<and> \<not> fdd_route_address me FDC_DATA_REG \<and>
     (\<forall>a v n s. snd (dev me (Tos_Snoop a v n) s) = s) \<and>
     (\<forall>s. \<forall>a \<in> {FDC_DATA_REG, DMA_MODE_REG}.
        \<not> psvidel_hw_owns me s a \<and> \<not> falcon_hw_owns me s a \<and> \<not> falcon_tos_owns me s a)"

text \<open>The cycles of the access itself: a word is the command, a long the command and then the mode.\<close>

definition command_cycles :: "nat \<Rightarrow> u8 \<Rightarrow> u32 \<Rightarrow> bus_cycle list" where
  "command_cycles n f v =
     (if n = 2 then [WriteWord f FDC_DATA_REG (ucast v)]
      else [WriteWord f DMA_MODE_REG (ucast v), WriteWord f FDC_DATA_REG (ucast (drop_bit 16 v))])"

lemma dma_data_addr:
  "hw_fold_addr FDC_DATA_REG = FDC_DATA_REG" "hw_page_addr FDC_DATA_REG = HW_PAGE_FDD_DMA"
  "\<not> fpu_in_regs me FDC_DATA_REG" "\<not> nova_io_alias_addr me FDC_DATA_REG" "FDC_DATA_REG + 2 = DMA_MODE_REG"
  "stram_memcfg_snoop env FDC_DATA_REG v n s = Some s"
  "pistorm_stram_memcfg_bus_value FDC_DATA_REG v n s = (v, s)" for s :: page_state
  by (simp_all add: hw_fold_addr_def hw_page_addr_def fpu_in_regs_def nova_io_alias_addr_def stram_memcfg_snoop_def
      pistorm_stram_memcfg_bus_value_def Let_def c_const)

text \<open>The access without its snoop: no cycle of it ends in a bus error.\<close>

definition put_answered :: "bus_env \<Rightarrow> bus_cycle list \<Rightarrow> bus_cycle list \<Rightarrow> bool" where
  "put_answered env cs h \<longleftrightarrow> (\<forall>i < length cs. \<not> env_berr env (drop i cs @ h))"

lemma put_answered_command:
  "put_answered env (command_cycles n f v) h \<longleftrightarrow>
     (if n = 2 then \<not> env_berr env (WriteWord f FDC_DATA_REG (ucast v) # h)
      else \<not> env_berr env (WriteWord f DMA_MODE_REG (ucast v) # WriteWord f FDC_DATA_REG (ucast (drop_bit 16 v)) # h) \<and>
        \<not> env_berr env (WriteWord f FDC_DATA_REG (ucast (drop_bit 16 v)) # h))"
  by (auto simp: put_answered_def command_cycles_def less_Suc_eq)

lemma dma_command_put:
  assumes un: "dma_put_unclaimed me" and n: "n \<in> {2, 4}"
    and ok: "put_answered env (command_cycles n (fc (fc_data s)) v) (bus_hist s)"
  shows "\<exists>c. hw_put n env me FDC_DATA_REG v s = Some (Inr (),
    snooped me FDC_DATA_REG (dma_snoop_write (getenv_dma_snoop me) env (stack_buf me) FDC_DATA_REG v n)
      ((fc_data (s\<lparr>g_buserr := False\<rparr>))\<lparr>dev_calls := c, bus_hist := command_cycles n (fc (fc_data s)) v @ bus_hist s\<rparr>))"
proof -
  let ?s = "fc_data (s\<lparr>g_buserr := False\<rparr>)"
  have f: "fc ?s = fc (fc_data s)" "bus_hist ?s = bus_hist s" "\<not> g_buserr ?s" by (simp_all add: fc_data_def)
  let ?t = "if n = 2 then ?s\<lparr>dev_calls := Tos_Snoop FDC_DATA_REG v 2 # dev_calls ?s\<rparr> else ?s"
  have put: "(if n = 4 then hw_bus_lput env FDC_DATA_REG v ?t else hw_bus_wput env FDC_DATA_REG v ?t) =
      (Inr (), ?t\<lparr>bus_hist := command_cycles n (fc (fc_data s)) v @ bus_hist s\<rparr>)"
    using ok [unfolded put_answered_command] n f by (auto simp: hw_bus_lput_def hw_bus_wput_def ps_bus_lput_def ps_write_16_def ps_write_txn_def
        latch_berr_def pistorm_buserr_def command_cycles_def dma_data_addr Let_def)
  have tell: "tell me (Tos_Snoop FDC_DATA_REG v 2) ?s = ?s\<lparr>dev_calls := Tos_Snoop FDC_DATA_REG v 2 # dev_calls ?s\<rparr>"
    using un by (simp add: tell_def ask_def dma_put_unclaimed_def)
  have "hw_put n env me FDC_DATA_REG v s = Some (hw_fdd_put env me n FDC_DATA_REG v ?t)"
    using n un by (auto simp: hw_put_def hw_wput_def hw_lput_def dma_data_addr dma_put_unclaimed_def tell io_page_consts)
  also have "hw_fdd_put env me n FDC_DATA_REG v ?t = (Inr (), snooped me FDC_DATA_REG
      (dma_snoop_write (getenv_dma_snoop me) env (stack_buf me) FDC_DATA_REG v n)
        (?t\<lparr>bus_hist := command_cycles n (fc (fc_data s)) v @ bus_hist s\<rparr>))"
    using n un put by (auto simp: hw_fdd_put_def dma_put_unclaimed_def)
  finally show ?thesis using n by (intro exI [of _ "dev_calls ?t"]) auto
qed

lemma snoop_mode_write:
  assumes "snoop_env d \<noteq> 0" "0 \<le> snoop_env d"
  shows "\<exists>d'. snoop_write e env stk DMA_MODE_REG v 2 (d, s) = (d', s)"
  using assms by (auto simp: snoop_write_def dma_snoop_active_def dma_snoop_owns_def snoop_reg_def Let_def c_const)

lemma dma_command_pushes:
  assumes n: "n \<in> {2, 4}" and "flat s" and "0x400000 \<le> unat (g_stram_top s)" and "snoop_env d \<in> {1, 3}"
    and "dma_mode d AND DMA_MODE_SCREG = 0" and "dma_mode d AND DMA_MODE_RW \<noteq> 0"
    and "0 < unat (dma_count d)" and "unat (dma_count d) \<le> 255"
    and "unat (dma_base d) + unat (dma_count d) * 512 \<le> 0x400000"
  shows "\<exists>d' t. dma_snoop_write e env stk FDC_DATA_REG v n (d, s) = (d', t) \<and>
    bus_hist t = push_cycles (fc s) (natmem_byte s) (unat (dma_base d)) (unat (dma_count d) * 512) @ bus_hist s \<and>
    natmem_byte t = natmem_byte s"
proof -
  note w = dma_write_pushed [OF assms(2-9), of e env stk]
  show ?thesis
  proof (cases "n = 2")
    case False
    have act: "dma_snoop_active e d = (snoop_env d, d)" "snoop_env d \<noteq> 0" "dma_snoop_owns FDC_DATA_REG" "\<not> snoop_env d < 0"
      using assms(4) by (auto simp: dma_snoop_active_def dma_snoop_owns_def c_const)
    have two: "dma_snoop_write e env stk FDC_DATA_REG x 2 (d, s) = snoop_write e env stk FDC_DATA_REG x 2 (d, s)" for x
      using act by (simp add: dma_snoop_write_def)
    obtain d1 t1 where r: "snoop_write e env stk FDC_DATA_REG (drop_bit 16 v AND 0xFFFF) 2 (d, s) = (d1, t1)"
      "bus_hist t1 = push_cycles (fc s) (natmem_byte s) (unat (dma_base d)) (unat (dma_count d) * 512) @ bus_hist s"
      "natmem_byte t1 = natmem_byte s"
      using w [of "drop_bit 16 v AND 0xFFFF"] unfolding two by blast
    have "snoop_env d1 = snoop_env d"
      using r(1) act assms(4) by (auto simp: snoop_write_def snoop_data_write_def trace_access_def Let_def split: if_splits)
    then obtain d' where "snoop_write e env stk DMA_MODE_REG (v AND 0xFFFF) 2 (d1, t1) = (d', t1)"
      using snoop_mode_write [of d1 e env stk "v AND 0xFFFF" t1] act by auto
    with r n False act show ?thesis by (auto simp: dma_snoop_write_def dma_data_addr)
  qed (use w in simp)
qed

text \<open>C23: a transfer to a real device finds the guest's data in the board's RAM when the access that starts
  it returns. With the snoop on (level 1 or 3) and no emulated controller, the command the guest writes to the
  DMA data register, as a word or as the long that sets the next mode too, goes to the bus first; then every
  byte of the window goes to the bus, in address order, and nothing else; the mirror is unchanged.\<close>

theorem guest_dma_command_pushes:
  assumes "dma_put_unclaimed me" and "n \<in> {2, 4}" and "put_answered env (command_cycles n (fc (fc_data s)) v) (bus_hist s)"
    and "flat s" and "0x400000 \<le> unat (g_stram_top s)" and "snoop_env (snoop s) \<in> {1, 3}"
    and "dma_mode (snoop s) AND DMA_MODE_SCREG = 0" and "dma_mode (snoop s) AND DMA_MODE_RW \<noteq> 0"
    and "0 < unat (dma_count (snoop s))" and "unat (dma_count (snoop s)) \<le> 255"
    and "unat (dma_base (snoop s)) + unat (dma_count (snoop s)) * 512 \<le> 0x400000"
  shows "\<exists>t. hw_put n env me FDC_DATA_REG v s = Some (Inr (), t) \<and>
    bus_hist t =
      push_cycles (fc (fc_data s)) (natmem_byte s) (unat (dma_base (snoop s))) (unat (dma_count (snoop s)) * 512) @
      command_cycles n (fc (fc_data s)) v @ bus_hist s \<and>
    natmem_byte t = natmem_byte s"
proof -
  let ?h = "command_cycles n (fc (fc_data s)) v @ bus_hist s"
  obtain c where put: "hw_put n env me FDC_DATA_REG v s = Some (Inr (),
    snooped me FDC_DATA_REG (dma_snoop_write (getenv_dma_snoop me) env (stack_buf me) FDC_DATA_REG v n)
      ((fc_data (s\<lparr>g_buserr := False\<rparr>))\<lparr>dev_calls := c, bus_hist := ?h\<rparr>))"
    using dma_command_put [OF assms(1-3)] by blast
  let ?s = "(fc_data (s\<lparr>g_buserr := False\<rparr>))\<lparr>dev_calls := c, bus_hist := ?h\<rparr>"
  have f: "flat ?s" "g_stram_top ?s = g_stram_top s" "snoop ?s = snoop s" "fc ?s = fc (fc_data s)" "bus_hist ?s = ?h"
    using assms(4) by (simp_all add: fc_data_def flat_def)
  have nb: "natmem_byte ?s = natmem_byte s" by (rule mem_view_gets) (simp add: mem_view_def fc_data_def)
  obtain d' t where r: "dma_snoop_write (getenv_dma_snoop me) env (stack_buf me) FDC_DATA_REG v n (snoop s, ?s) = (d', t)"
    "bus_hist t = push_cycles (fc (fc_data s)) (natmem_byte s) (unat (dma_base (snoop s))) (unat (dma_count (snoop s)) * 512) @ ?h"
    "natmem_byte t = natmem_byte s"
    using dma_command_pushes [OF assms(2) f(1), of "snoop s" "getenv_dma_snoop me" env "stack_buf me" v] assms(5-11) f nb by auto
  have "dma_snoop_active (getenv_dma_snoop me) (snoop s) = (snoop_env (snoop s), snoop s)" "snoop_env (snoop s) \<noteq> 0"
    using assms(6) by (auto simp: dma_snoop_active_def)
  then have "snooped me FDC_DATA_REG (dma_snoop_write (getenv_dma_snoop me) env (stack_buf me) FDC_DATA_REG v n) ?s = t\<lparr>snoop := d'\<rparr>"
    using r(1) f(3) by (simp add: snooped_def dma_snoop_owns_def FDC_DATA_REG_def)
  moreover have "natmem_byte (t\<lparr>snoop := d'\<rparr>) = natmem_byte t" by (rule mem_view_gets) (simp add: mem_view_def)
  ultimately show ?thesis using put r by simp
qed

theorem guest_dma_command_pushes_witness:
  "\<exists>t. hw_put 4 disk_env (demo_io\<lparr>FDD_enabled := False\<rparr>) FDC_DATA_REG 0x000A018A
      (disk_board\<lparr>snoop := snoop_boot\<lparr>dma_mode := 0x188, dma_count := 1, dma_base := 0x2000\<rparr>\<rparr>) = Some (Inr (), t) \<and>
    length (bus_hist t) = 514 + length (bus_hist disk_board)"
proof -
  let ?s = "disk_board\<lparr>snoop := snoop_boot\<lparr>dma_mode := 0x188, dma_count := 1, dma_base := 0x2000\<rparr>\<rparr>"
  have un: "dma_put_unclaimed (demo_io\<lparr>FDD_enabled := False\<rparr>)"
    by (simp add: dma_put_unclaimed_def demo_io_def demo_me_def mfp_env.extend_def fdd_route_address_def)
  have ans: "put_answered disk_env cs h" for cs h by (simp add: put_answered_def disk_env_def)
  have ram: "flat ?s" "g_stram_top disk_board = 0x400000" by (simp_all add: disk_board_def flat_def)
  have d: "snoop ?s = snoop_boot\<lparr>dma_mode := 0x188, dma_count := 1, dma_base := 0x2000\<rparr>" "bus_hist ?s = bus_hist disk_board" by simp_all
  have "\<exists>t. hw_put 4 disk_env (demo_io\<lparr>FDD_enabled := False\<rparr>) FDC_DATA_REG 0x000A018A ?s = Some (Inr (), t) \<and>
    bus_hist t = push_cycles (fc (fc_data ?s)) (natmem_byte ?s) (unat (dma_base (snoop ?s))) (unat (dma_count (snoop ?s)) * 512) @
      command_cycles 4 (fc (fc_data ?s)) 0x000A018A @ bus_hist ?s \<and> natmem_byte t = natmem_byte ?s"
    by (rule guest_dma_command_pushes [OF un _ ans ram(1)]) (simp_all add: ram(2) snoop_boot_def c_const)
  moreover have "length (command_cycles 4 f v) = 2" "length (push_cycles f m p k) = k" for f v m p k
    by (simp_all add: command_cycles_def push_cycles_def)
  ultimately show ?thesis unfolding d by (auto simp: snoop_boot_def)
qed

end
