(* ===== verification/Screen_Shadow.thy ===== *)
theory Screen_Shadow
  imports Io_Page
begin

text \<open>
  The picture on the real Shifter. The guest keeps its screen anywhere in the emulated 4 MB, the
  Shifter scans a window in the board's RAM: stores into the screen are written through to the window,
  and a move of the screen refills it (\<open>pistorm_natmem.cpp\<close>). The steps are the handlers the CPU calls:
  the stores of the ST-RAM bank, the writes of the hardware bank to the video page, and the copies that
  disk transfers and host calls make into guest RAM.
\<close>

section \<open>Writes to the video page\<close>

text \<open>An ST or STE without the Falcon's video: no emulated device owns a register of the page, and the
  calls that show writes to them leave the state alone.\<close>

definition plain_video :: "io_env \<Rightarrow> bool" where
  "plain_video me \<longleftrightarrow>
     (\<forall>s b. \<not> psvidel_hw_owns me s b \<and> \<not> falcon_hw_owns me s b \<and> \<not> falcon_tos_owns me s b) \<and>
     (\<forall>a v n s. snd (dev me (Tos_Snoop a v n) s) = s \<and> snd (dev me (Psvidel_Snoop a v n) s) = s)"

lemma video_page_bounds:
  assumes "hw_page_addr (hw_fold_addr a) = HW_PAGE_VIDEO"
  shows "0x00FF8200 \<le> unat (hw_fold_addr a)" "unat (hw_fold_addr a) < 0x00FF8300"
    "hw_fold_addr a AND 0x00FFFFFF = hw_fold_addr a"
proof -
  let ?A = "hw_fold_addr a"
  have m: "(0x00FFFFFF :: u32) = mask 24" "(0x00FFFF00 :: u32) = mask 24 AND NOT (mask 8)" by (simp_all add: mask_eq_exp_minus_1)
  show f: "?A AND 0x00FFFFFF = ?A" by (simp add: hw_fold_addr_def)
  have "?A AND 0x00FFFF00 = (?A AND 0x00FFFFFF) AND NOT (mask 8)" by (simp only: m and.assoc)
  then have "?A AND NOT (mask 8) = 0x00FF8200" using assms f by (simp add: hw_page_addr_def c_const)
  then have "unat (?A AND NOT (mask 8)) = 0x00FF8200" by simp
  then have "unat ?A div 2 ^ 8 * 2 ^ 8 = 0x00FF8200" by (simp only: unat_and_not_mask)
  then show "0x00FF8200 \<le> unat ?A" "unat ?A < 0x00FF8300" by simp_all
qed

lemma video_page_addr:
  fixes s t :: page_state
  assumes "hw_page_addr (hw_fold_addr a) = HW_PAGE_VIDEO"
  shows "\<not> fpu_in_regs me (hw_fold_addr a)" "\<not> nova_io_alias_addr me (hw_fold_addr a)"
    "\<not> (hw_fold_addr a AND 0x00FFFFFC = 0x00FF8604)"
    "stram_memcfg_snoop env (hw_fold_addr a) v n s = Some s"
    "pistorm_stram_memcfg_bus_value (hw_fold_addr a) v n t = (v, t)"
proof -
  let ?A = "hw_fold_addr a"
  note b = video_page_bounds [OF assms]
  have ne: "?A \<noteq> 0x00FF8000" "?A \<noteq> 0x00FF8001" using b(1) by auto
  show "\<not> fpu_in_regs me ?A" "\<not> nova_io_alias_addr me ?A"
    using b by (auto simp: fpu_in_regs_def nova_io_alias_addr_def hw_fold_addr_def word_le_nat_alt word_less_nat_alt)
  show "\<not> (?A AND 0x00FFFFFC = 0x00FF8604)"
  proof
    assume "?A AND 0x00FFFFFC = 0x00FF8604"
    then have "(?A AND 0x00FFFFFC) AND 0x00FFFF00 = 0x00FF8604 AND 0x00FFFF00" by simp
    then have "?A AND 0x00FFFF00 = 0x00FF8600" by (simp add: and.assoc)
    with assms show False by (simp add: hw_page_addr_def c_const)
  qed
  show "stram_memcfg_snoop env ?A v n s = Some s" "pistorm_stram_memcfg_bus_value ?A v n t = (v, t)"
    using ne b(3) by (auto simp: stram_memcfg_snoop_def pistorm_stram_memcfg_bus_value_def Let_def)
qed

lemma trace_hist [simp]: "bus_hist (st_rez_sync_trace a v s) = bus_hist s"
  by (simp add: st_rez_sync_trace_def Let_def)

lemma palette_hist [simp]: "bus_hist (palette_write i v s) = bus_hist s"
  by (simp add: palette_write_def)

lemma snoop8_hist [simp]: "bus_hist (st_video_snoop8 a v s) = bus_hist s"
  by (simp add: st_video_snoop8_def st_video_ste_extras_clear_def Let_def)

lemma snoop_put_hist: "bus_hist (snoop_put n a v s) = bus_hist s"
  by (simp add: snoop_put_def st_video_snoop16_def st_video_snoop32_def st_video_ste_extras_clear_def Let_def)

lemma bus_put_video:
  fixes u :: page_state
  assumes "(if n = 1 then hw_bus_bput env a v u else if n = 2 then hw_bus_wput env a v u else hw_bus_lput env a v u) = (r, t)"
    and "n \<in> {1, 2, 4}"
  shows "bus_only u t" "bus_mem m (bus_hist t) = overwrite (write_byte a v n) (bus_mem m (bus_hist u))"
proof -
  note d = hw_bus_bput_def hw_bus_wput_def hw_bus_lput_def pistorm_buserr_def
  have h: "bus_hist (ps_bus_lput env a v u) = bus_hist (ps_write_32 env a v u)"
    by (simp add: ps_bus_lput_def)
  have l: "bus_only u (ps_bus_lput env a v u)" by (simp add: ps_bus_lput_def bus_only_def)
  show "bus_only u t" using assms l by (auto simp: d bus_only_def)
  show "bus_mem m (bus_hist t) = overwrite (write_byte a v n) (bus_mem m (bus_hist u))"
    using assms(2)
  proof (elim insertE emptyE)
    assume "n = 1"
    then have "t = ps_write_8 env a (ucast v) u" using assms(1) by (auto simp: d)
    with \<open>n = 1\<close> show ?thesis by (simp add: bus_mem_ps_write write_byte_low del: bus_hist_ps_write One_nat_def)
  next
    assume "n = 2"
    then have "t = ps_write_16 env a (ucast v) u" using assms(1) by (auto simp: d)
    with \<open>n = 2\<close> show ?thesis by (simp add: bus_mem_ps_write write_byte_low del: bus_hist_ps_write)
  next
    assume "n = 4"
    then have "t = ps_bus_lput env a v u" using assms(1) by (auto simp: d)
    with \<open>n = 4\<close> show ?thesis by (simp add: h bus_mem_ps_write del: bus_hist_ps_write)
  qed
qed

text \<open>The access: the snoop, the bus, the correction of the Shifter. State \<open>s1\<close> is what the snoop starts from.\<close>

lemma video_put_form:
  assumes pl: "plain_video me" and n: "n \<in> {1, 2, 4}" and pg: "hw_page_addr (hw_fold_addr a) = HW_PAGE_VIDEO"
  shows "\<exists>s1 c u. video_frame s1 = video_frame s \<and> rtg s1 = rtg s \<and> bus_hist s1 = bus_hist s \<and>
    u = (snoop_put n (hw_fold_addr a) v s1)\<lparr>dev_calls := c\<rparr> \<and> g_buserr s1 = False \<and>
    hw_put n env me a v s = Some (and_then
      (if n = 1 then hw_bus_bput env (hw_fold_addr a) v u else if n = 2 then hw_bus_wput env (hw_fold_addr a) v u
       else hw_bus_lput env (hw_fold_addr a) v u)
      (stram_shadow_video_after env (hw_fold_addr a) n))"
proof -
  let ?A = "hw_fold_addr a" and ?s = "fc_data (s\<lparr>g_buserr := False\<rparr>)"
  have tl: "tell me (Tos_Snoop b w k) z = z\<lparr>dev_calls := Tos_Snoop b w k # dev_calls z\<rparr>"
    "tell me (Psvidel_Snoop b w k) z = z\<lparr>dev_calls := Psvidel_Snoop b w k # dev_calls z\<rparr>" for b w k z
    using pl by (simp_all add: tell_def ask_def plain_video_def)
  have ow: "\<not> psvidel_hw_owns me z b" "\<not> falcon_hw_owns me z b" "\<not> falcon_tos_owns me z b" for z b
    using pl by (simp_all add: plain_video_def)
  define s1 where "s1 = (if n = 4 then ?s else ?s\<lparr>dev_calls := Tos_Snoop ?A v n # dev_calls ?s\<rparr>)"
  define w where "w = (if n = 1 then v AND 0xFF else if n = 2 then v AND 0xFFFF else v)"
  define u where "u = (snoop_put n ?A v s1)\<lparr>dev_calls := Psvidel_Snoop ?A w n # dev_calls (snoop_put n ?A v s1)\<rparr>"
  note ad = video_page_addr [OF pg]
  have "hw_put n env me a v s = Some (and_then
      (if n = 1 then hw_bus_bput env ?A v u else if n = 2 then hw_bus_wput env ?A v u else hw_bus_lput env ?A v u)
      (stram_shadow_video_after env ?A n))"
    using n pg by (auto simp: hw_put_def hw_bput_def hw_wput_def hw_lput_def ad ow tl s1_def w_def u_def snoop_put_def Let_def)
  moreover have "video_frame s1 = video_frame s" "rtg s1 = rtg s" "bus_hist s1 = bus_hist s" "g_buserr s1 = False"
    by (simp_all add: s1_def fc_data_def video_frame_def flat_def)
  ultimately show ?thesis using u_def by blast
qed

lemma video_put:
  assumes pl: "plain_video me" and n: "n \<in> {1, 2, 4}" and pg: "hw_page_addr (hw_fold_addr a) = HW_PAGE_VIDEO"
    and put: "hw_put n env me a v s = Some (Inr (), t)"
  shows "\<exists>u. video_frame u = video_frame s \<and>
    (\<not> shadow_hit (hw_fold_addr a) n \<longrightarrow> reg_base (rtg u) = reg_base (rtg s)) \<and>
    bus_mem m (bus_hist u) = overwrite (write_byte (hw_fold_addr a) v n) (bus_mem m (bus_hist s)) \<and>
    t = stram_shadow_video_after env (hw_fold_addr a) n u"
proof -
  let ?A = "hw_fold_addr a"
  obtain s1 c u0 where s1: "video_frame s1 = video_frame s" "rtg s1 = rtg s" "bus_hist s1 = bus_hist s"
    and u0: "u0 = (snoop_put n ?A v s1)\<lparr>dev_calls := c\<rparr>"
    and eq: "hw_put n env me a v s = Some (and_then
      (if n = 1 then hw_bus_bput env ?A v u0 else if n = 2 then hw_bus_wput env ?A v u0 else hw_bus_lput env ?A v u0)
      (stram_shadow_video_after env ?A n))"
    using video_put_form [OF pl n pg] by blast
  obtain r u where bus: "(if n = 1 then hw_bus_bput env ?A v u0 else if n = 2 then hw_bus_wput env ?A v u0 else hw_bus_lput env ?A v u0) = (r, u)"
    by fastforce
  note bp = bus_put_video [OF bus n]
  have t: "t = stram_shadow_video_after env ?A n u"
    using put unfolding eq bus by (cases r) simp_all
  have "video_frame u = video_frame u0" using bus_only_fields [OF bp(1)] by (simp add: video_frame_def flat_def)
  also have "\<dots> = video_frame (snoop_put n ?A v s1)" by (simp add: u0 video_frame_def flat_def)
  finally have fr: "video_frame u = video_frame s" using s1(1) by (simp add: snoop_put_frame)
  have "bus_hist u0 = bus_hist s" by (simp add: u0 s1 snoop_put_hist)
  moreover have "reg_base (rtg u) = reg_base (rtg s)" if "\<not> shadow_hit ?A n"
    using that n video_page_bounds(3) [OF pg] snoop_put_base [of ?A n v s1] bus_only_fields(5) [OF bp(1)] s1(2) by (simp add: u0)
  ultimately show ?thesis using fr bp(2) t by auto
qed

lemma refill_fold:
  "g_shadow_base (fold (refill_long env d p q) os s) = g_shadow_base s" "rtg (fold (refill_long env d p q) os s) = rtg s"
  "g_shadow_have_base (fold (refill_long env d p q) os s) = g_shadow_have_base s"
  by (induction os arbitrary: s) (simp_all add: bus_only_fields(5,6,8) [OF bus_only_refill_long])

lemma after_fields:
  "g_shadow_base (stram_shadow_video_after env a n s) = g_shadow_base s" "rtg (stram_shadow_video_after env a n s) = rtg s"
  "stram_shadow_on s \<Longrightarrow> \<not> psvidel_act s \<Longrightarrow> shadow_hit (a AND 0x00FFFFFF) n \<Longrightarrow> g_shadow_have_base (stram_shadow_video_after env a n s)"
  by (simp_all add: stram_shadow_video_after_def stram_shadow_refill_def bus_only_fields(5,6,8) [OF program_base_only] refill_fold Let_def)

section \<open>Copies into guest RAM\<close>

lemma dma_copy_view:
  fixes s :: "'a smc_state_scheme"
  assumes fl: "flat s" and l: "unat a + length bs < 2 ^ 32"
  shows "shadow_view (pistorm_dma_to_stram a bs s) = shadow_view s" "bus_hist (pistorm_dma_to_stram a bs s) = bus_hist s"
    "unat x < unat a \<or> unat a + length bs \<le> unat x \<Longrightarrow> natmem_byte (pistorm_dma_to_stram a bs s) x = natmem_byte s x"
proof -
  define m where "m = (if a < g_stram_top s \<and> of_nat (length bs) \<le> g_stram_top s - a then put_bytes a bs (nm_anon s) else nm_anon s)"
  have t: "pistorm_dma_to_stram a bs s = pistorm_smc a (of_nat (length bs)) (s\<lparr>nm_anon := m\<rparr>)"
    using natmem_store_flat [OF fl l] by (simp add: pistorm_dma_to_stram_def m_def Let_def)
  show v: "shadow_view (pistorm_dma_to_stram a bs s) = shadow_view s" "bus_hist (pistorm_dma_to_stram a bs s) = bus_hist s"
    by (simp_all add: t)
  have "flat (pistorm_dma_to_stram a bs s)" using v(1) fl by (simp add: shadow_view_def)
  moreover have "nm_anon (pistorm_smc a k z) = nm_anon z" for k and z :: "'a smc_state_scheme"
    by (simp add: pistorm_smc_def cache_invalidate_def Let_def)
  ultimately show "natmem_byte (pistorm_dma_to_stram a bs s) x = natmem_byte s x"
    if "unat x < unat a \<or> unat a + length bs \<le> unat x"
    using that fl by (auto simp: natmem_byte_flat t m_def put_bytes_def)
qed

text \<open>A copy that misses the guest's screen.\<close>

definition off_screen :: "'a smc_state_scheme \<Rightarrow> u32 \<Rightarrow> nat \<Rightarrow> bool" where
  "off_screen s a n \<longleftrightarrow> unat a + n < 2 ^ 32 \<and>
     (stram_shadow_guest_base s \<noteq> 0 \<longrightarrow> apart a n (stram_shadow_guest_base s) 0x8000)"

lemma shadow_inv_dma:
  assumes inv: "shadow_inv m s" and off: "off_screen s a (length bs)"
  shows "shadow_inv m (pistorm_dma_to_stram a bs s)"
proof -
  let ?t = "pistorm_dma_to_stram a bs s" and ?scr = "stram_shadow_guest_base s"
  have fl: "flat s" using inv by (simp add: shadow_inv_def shadow_engaged_def)
  have l: "unat a + length bs < 2 ^ 32" using off by (simp add: off_screen_def)
  note v = dma_copy_view [OF fl l]
  have f: "g_shadow_base ?t = g_shadow_base s" "g_shadow_src ?t = g_shadow_src s" "config ?t = config s"
    "psvidel_act ?t = psvidel_act s" "flat ?t = flat s" "g_shadow_ste_reg ?t = g_shadow_ste_reg s"
    using v(1) by (simp_all add: shadow_view_def)
  have gb: "stram_shadow_guest_base ?t = ?scr" by (rule shadow_view_guest_base(1) [OF v(1)])
  have "natmem_byte ?t (?scr + j) = natmem_byte s (?scr + j)" if "?scr \<noteq> 0" "unat j < 0x8000" for j
  proof (rule v(3))
    have "unat (?scr + j) = unat ?scr + unat j" using guest_base_bounds(2) [OF that(1)] that(2) by (subst unat_add_small) auto
    then show "unat (?scr + j) < unat a \<or> unat a + length bs \<le> unat (?scr + j)"
      using off that by (auto simp: off_screen_def apart_def)
  qed
  moreover have "shifter_programmed m ?t = shifter_programmed m s"
    by (rule shifter_programmed_cong) (simp_all add: v f)
  ultimately show ?thesis
    using inv by (auto simp: shadow_inv_def shadow_engaged_def shadow_holds_def f gb v(2))
qed

section \<open>The machine\<close>

text \<open>A write to the video page that the correction of the Shifter sees: if it reaches a base register on
  the bus, it is one of the accesses \<open>stram_shadow_video_after\<close> tests for. A long at \<open>$FF8202\<close> or \<open>$FF820A\<close>
  is not.\<close>

definition corrected_write :: "u32 \<Rightarrow> nat \<Rightarrow> bool" where
  "corrected_write a n \<longleftrightarrow> (\<exists>x \<in> shifter_regs. unat (x - a) < n) \<longrightarrow> shadow_hit a n"

text \<open>Stores of the CPU that are clean, copies that miss the screen, and writes to the video page that do
  not end in a bus error, are corrected and leave the screen at a usable address.\<close>

inductive shadow_step :: "page_state \<Rightarrow> page_state \<Rightarrow> bool" where
  byte: "clean_store s a v 1 \<Longrightarrow> shadow_step s (sr_bput env a v s)"
| word: "clean_store s a v 2 \<Longrightarrow> shadow_step s (sr_wput env a v s)"
| long: "clean_store s a v 4 \<Longrightarrow> shadow_step s (sr_lput env a v s)"
| copy: "off_screen s a (length bs) \<Longrightarrow> shadow_step s (pistorm_dma_to_stram a bs s)"
| video: "plain_video me \<Longrightarrow> n \<in> {1, 2, 4} \<Longrightarrow> hw_page_addr (hw_fold_addr a) = HW_PAGE_VIDEO \<Longrightarrow>
    corrected_write (hw_fold_addr a) n \<Longrightarrow> hw_put n env me a v s = Some (Inr (), t) \<Longrightarrow>
    (shadow_hit (hw_fold_addr a) n \<Longrightarrow> stram_shadow_guest_base t \<noteq> 0) \<Longrightarrow> shadow_step s t"

lemma after_guest_base:
  "stram_shadow_guest_base (stram_shadow_video_after env a n u) \<noteq> 0 \<Longrightarrow> stram_shadow_guest_base (u\<lparr>g_shadow_have_base := True\<rparr>) \<noteq> 0"
  using after_fields(2) [of env a n u] by (simp add: stram_shadow_guest_base_def Let_def split: if_splits)

lemma shadow_inv_video_put:
  assumes inv: "shadow_inv m s" and pl: "plain_video me" "n \<in> {1, 2, 4}" "hw_page_addr (hw_fold_addr a) = HW_PAGE_VIDEO"
    and cw: "corrected_write (hw_fold_addr a) n" and put: "hw_put n env me a v s = Some (Inr (), t)"
    and ok: "shadow_hit (hw_fold_addr a) n \<Longrightarrow> stram_shadow_guest_base t \<noteq> 0"
  shows "shadow_inv m t" "g_shadow_base t = g_shadow_base s"
proof -
  let ?A = "hw_fold_addr a"
  note b = video_page_bounds [OF pl(3)]
  obtain u where u: "video_frame u = video_frame s" "\<not> shadow_hit ?A n \<longrightarrow> reg_base (rtg u) = reg_base (rtg s)"
    "bus_mem m (bus_hist u) = overwrite (write_byte ?A v n) (bus_mem m (bus_hist s))" "t = stram_shadow_video_after env ?A n u"
    using video_put [OF pl put, of m] by blast
  show "g_shadow_base t = g_shadow_base s" using video_frame_natmem(2) [OF u(1)] by (simp add: u(4) after_fields)
  show "shadow_inv m t"
    unfolding u(4)
  proof (rule shadow_inv_after [OF inv u(1)])
    show "bus_mem m (bus_hist u) x = bus_mem m (bus_hist s) x" if "unat x < 0x400000" for x
    proof -
      have "\<not> unat (x - ?A) < n"
      proof
        assume lt: "unat (x - ?A) < n"
        have "n \<le> 4" using pl(2) by auto
        with lt b(2) have "unat ?A + unat (x - ?A) < 2 ^ LENGTH(32)" by simp
        then have "unat (?A + (x - ?A)) = unat ?A + unat (x - ?A)" by (rule unat_add_small)
        then show False using b(1) that by simp
      qed
      then show ?thesis by (simp add: u(3) overwrite_def write_byte_def)
    qed
    show "stram_shadow_guest_base (u\<lparr>g_shadow_have_base := True\<rparr>) \<noteq> 0" if "shadow_hit (?A AND 0x00FFFFFF) n"
      using ok that after_guest_base [of env ?A n u] unfolding u(4) b(3) by blast
    show "reg_base (rtg u) = reg_base (rtg s) \<and> (\<forall>x \<in> shifter_regs. bus_mem m (bus_hist u) x = bus_mem m (bus_hist s) x)"
      if "\<not> shadow_hit (?A AND 0x00FFFFFF) n"
      using that cw u(2) unfolding b(3) by (auto simp: corrected_write_def u(3) overwrite_def write_byte_def)
  qed
qed

lemma clean_store_handlers:
  "sr_bput env a v s = sr_store env a v 1 s" "sr_wput env a v s = sr_store env a v 2 s" "sr_lput env a v s = sr_store env a v 4 s"
  by (simp_all add: sr_store_def)

lemma store_base: "clean_store s a v n \<Longrightarrow> shadow_inv m s \<Longrightarrow> g_shadow_base (sr_store env a v n s) = g_shadow_base s"
  using sr_store_effect(1) [of s n env a v] by (simp add: clean_store_def shadow_inv_def shadow_engaged_def shadow_view_def)

definition screen_inv :: "(u32 \<Rightarrow> u8) \<Rightarrow> page_state \<Rightarrow> bool" where
  "screen_inv m s \<longleftrightarrow> shadow_inv m s \<and> g_shadow_base s AND 0xFF = 0"

interpretation shadow: invariant_system shadow_start shadow_step "screen_inv m" for m
proof unfold_locales
  show "screen_inv m s" if "shadow_start s" for s
    using that shadow_inv_start [OF that] by (simp add: screen_inv_def shadow_start_def)
  show "screen_inv m t" if "screen_inv m s" "shadow_step s t" for s t
    using that(2,1)
  proof (induction rule: shadow_step.induct)
    case (copy s a bs)
    then have "flat s" by (simp add: screen_inv_def shadow_inv_def shadow_engaged_def)
    then have "g_shadow_base (pistorm_dma_to_stram a bs s) = g_shadow_base s"
      using dma_copy_view(1) [of s a bs] copy(1) by (simp add: off_screen_def shadow_view_def)
    then show ?case using copy shadow_inv_dma [of m s a bs] by (simp add: screen_inv_def)
  next
    case (video me n a env v s t)
    then show ?case using shadow_inv_video_put [of m s me n a env v t] by (simp add: screen_inv_def)
  qed (auto simp: screen_inv_def clean_store_handlers store_base intro: shadow_inv_store)
qed

text \<open>The address the Shifter scans, from its registers as last written. The low byte of an ST is zero.\<close>

definition shifter_base :: "(u32 \<Rightarrow> u8) \<Rightarrow> page_state \<Rightarrow> u32" where
  "shifter_base m s =
     push_bit 16 (ucast (bus_mem m (bus_hist s) 0x00FF8201)) OR push_bit 8 (ucast (bus_mem m (bus_hist s) 0x00FF8203)) OR
     (if g_shadow_ste_reg s then ucast (bus_mem m (bus_hist s) 0x00FF820D) else 0)"

lemma base_bytes:
  fixes b :: u32
  assumes "unat b < 2 ^ 24" "b AND 0xFF = 0"
  shows "push_bit 16 (ucast (ucast (drop_bit 16 b) :: u8)) OR push_bit 8 (ucast (ucast (drop_bit 8 b) :: u8)) = b"
    "(ucast (b AND 0xFE) :: u8) = 0"
proof -
  have "take_bit 24 b = b"
    using assms(1) by (metis take_bit_nat_eq_self unat_take_bit unsigned_take_bit_eq word_unat_eq_iff)
  then have hi: "\<not> bit b n" if "24 \<le> n" for n using that by (metis bit_take_bit_iff leD)
  have ff: "(0xFF :: u32) = mask 8" "(0xFE :: u32) = mask 8 AND NOT 1" by (simp_all add: mask_eq_exp_minus_1)
  have lo: "\<not> bit b n" if "n < 8" for n
  proof -
    have "\<not> bit (b AND mask 8) n" using assms(2) unfolding ff by simp
    then show ?thesis using that by (auto simp: bit_and_iff bit_mask_iff)
  qed
  show "push_bit 16 (ucast (ucast (drop_bit 16 b) :: u8)) OR push_bit 8 (ucast (ucast (drop_bit 8 b) :: u8)) = b" (is "?l = b")
  proof (rule bit_eqI)
    fix n assume n: "possible_bit TYPE(u32) n"
    consider "n < 8" | "8 \<le> n" "n < 16" | "16 \<le> n" "n < 24" | "24 \<le> n" by linarith
    then show "bit ?l n = bit b n"
      using hi [of n] lo [of n] n by cases (auto simp: bit_simps dest: bit_imp_le_length)
  qed
  have "b AND 0xFE = (b AND 0xFF) AND NOT 1" unfolding ff by (simp only: and.assoc)
  then show "(ucast (b AND 0xFE) :: u8) = 0" using assms(2) by simp
qed

lemma shifter_scans_shadow:
  assumes "screen_inv m s" "stram_shadow_guest_base s \<noteq> 0"
  shows "shifter_base m s = g_shadow_base s"
proof -
  have "unat (g_shadow_base s) < 2 ^ 24"
    using assms(1) by (simp add: screen_inv_def shadow_inv_def shadow_engaged_def word_le_nat_alt)
  note bb = base_bytes [OF this]
  show ?thesis
    using assms bb by (simp add: screen_inv_def shadow_inv_def shifter_programmed_def shifter_base_def)
qed

section \<open>Properties\<close>

text \<open>C6: the picture on the real Shifter is the guest's screen. The conditions: the ST-RAM cache is on, the
  real Shifter is the display, and the history consists of CPU stores that start in the screen or miss both
  the screen and the shadow, copies of DMA and host calls into RAM off the screen, and writes to the video page
  that do not end in a bus error, leave the screen at a usable address, and reach the base registers only by
  the accesses the code corrects. Then in every state with a screen, the base registers of the Shifter, as
  last written on the bus, hold the address of the shadow, and the board's RAM holds the 32K of the guest's
  screen there, byte for byte.\<close>

theorem shadow_shows_screen:
  assumes "reach shadow_start shadow_step s" and "stram_shadow_guest_base s \<noteq> 0"
  shows "shifter_base m s = g_shadow_base s \<and>
    (\<forall>j. unat j < 0x8000 \<longrightarrow>
       bus_mem m (bus_hist s) (shifter_base m s + j) = natmem_byte s (stram_shadow_guest_base s + j))"
proof -
  have inv: "screen_inv m s" using shadow.reach_inv [OF assms(1)] .
  then have "shadow_holds m (stram_shadow_guest_base s) s" using assms(2) by (auto simp: screen_inv_def shadow_inv_def)
  then show ?thesis using shifter_scans_shadow [OF inv assms(2)] by (simp add: shadow_holds_def)
qed

text \<open>A machine with 1 MB whose guest puts its screen at \<open>$100000\<close> with one long write.\<close>

definition screen_boot :: page_state where
  "screen_boot = demo_board\<lparr>nm_page := (\<lambda>_. None), g_stram_alias := False, g_stram_fold_hook := False, config := boot_config,
     g_shadow_base := 0xF8000, g_shadow_src := 0, g_shadow_have_base := False, psvidel_act := False\<rparr>"

lemma screen_boot_start: "shadow_start screen_boot" "plain_video demo_io"
  by (simp_all add: shadow_start_def shadow_engaged_def screen_boot_def boot_config_def flat_def plain_video_def demo_io_def mfp_env.extend_def)

lemma screen_boot_moves:
  "\<exists>t. hw_put 4 disk_env demo_io 0x00FF8200 0x00100000 screen_boot = Some (Inr (), t) \<and> stram_shadow_guest_base t = 0x100000"
proof -
  have A: "hw_fold_addr 0x00FF8200 = 0x00FF8200" "hw_page_addr 0x00FF8200 = HW_PAGE_VIDEO"
    by (simp_all add: hw_fold_addr_def hw_page_addr_def c_const)
  obtain s1 c u where f: "video_frame s1 = video_frame screen_boot" "rtg s1 = rtg screen_boot"
    "u = (snoop_put 4 0x00FF8200 0x00100000 s1)\<lparr>dev_calls := c\<rparr>" "g_buserr s1 = False"
    "hw_put 4 disk_env demo_io 0x00FF8200 0x00100000 screen_boot = Some (and_then (hw_bus_lput disk_env 0x00FF8200 0x00100000 u)
      (stram_shadow_video_after disk_env 0x00FF8200 4))"
    using video_put_form [OF screen_boot_start(2), of 4 "0x00FF8200" screen_boot "0x00100000" disk_env] A by auto
  have u: "g_buserr u = False" "rtg u = (rtg screen_boot)\<lparr>high := 0x10, mid := 0, low := 0\<rparr>"
    using f(4) by (simp_all add: f(2,3) snoop_put_def st_video_snoop32_def st_video_ste_extras_clear_def)
  have ps: "stram_shadow_on u" "\<not> psvidel_act u"
    using video_frame_natmem [OF f(1)] video_frame_natmem [OF snoop_put_frame [of 4 "0x00FF8200" "0x00100000" s1]]
    by (simp_all add: f(3) stram_shadow_on_def screen_boot_def)
  let ?w = "ps_bus_lput disk_env 0x00FF8200 0x00100000 u"
  have bus: "hw_bus_lput disk_env 0x00FF8200 0x00100000 u = (Inr (), ?w)"
    using u(1) by (simp add: hw_bus_lput_def pistorm_buserr_def ps_bus_lput_def ps_write_16_def ps_write_txn_def latch_berr_def disk_env_def)
  have "bus_only u ?w" by (simp add: ps_bus_lput_def bus_only_def)
  note w = bus_only_fields [OF this]
  let ?t = "stram_shadow_video_after disk_env 0x00FF8200 4 ?w"
  have "g_shadow_have_base ?t" using ps w by (intro after_fields(3)) (simp_all add: stram_shadow_on_def shadow_hit_def)
  moreover have "reg_base (rtg ?t) = 0x100000"
    using u(2) w(5) by (simp add: after_fields(2) reg_base_def push_bit_eq_mult)
  ultimately have "stram_shadow_guest_base ?t = 0x100000" by (simp add: stram_shadow_guest_base_def c_const)
  with f(5) bus show ?thesis by auto
qed

theorem shadow_shows_screen_witness:
  "\<exists>s. stram_shadow_guest_base s = 0x100000 \<and> shifter_base (\<lambda>_. 0) s = 0xF8000 \<and>
     bus_mem (\<lambda>_. 0) (bus_hist s) (0xF8000 + 5) = natmem_byte s (0x100000 + 5)"
proof -
  obtain t where t: "hw_put 4 disk_env demo_io 0x00FF8200 0x00100000 screen_boot = Some (Inr (), t)" "stram_shadow_guest_base t = 0x100000"
    using screen_boot_moves by blast
  have A: "hw_fold_addr 0x00FF8200 = 0x00FF8200" "hw_page_addr 0x00FF8200 = HW_PAGE_VIDEO" "shadow_hit 0x00FF8200 4"
    by (simp_all add: hw_fold_addr_def hw_page_addr_def shadow_hit_def c_const)
  have step: "shadow_step screen_boot t"
    by (rule shadow_step.video [OF screen_boot_start(2) _ _ _ t(1)]) (simp_all add: A t(2) corrected_write_def)
  have "reach shadow_start shadow_step screen_boot" using screen_boot_start(1) by (rule reach.start)
  then have r: "reach shadow_start shadow_step t" using step by (rule reach.step)
  have "g_shadow_base t = g_shadow_base screen_boot"
    by (rule shadow_inv_video_put(2) [OF shadow_inv_start [OF screen_boot_start(1)] screen_boot_start(2) _ _ _ t(1)])
      (simp_all add: A t(2) corrected_write_def)
  then have "g_shadow_base t = 0xF8000" by (simp add: screen_boot_def)
  moreover have "shifter_base (\<lambda>_. 0) t = g_shadow_base t"
    "\<forall>j. unat j < 0x8000 \<longrightarrow> bus_mem (\<lambda>_. 0) (bus_hist t) (shifter_base (\<lambda>_. 0) t + j) = natmem_byte t (stram_shadow_guest_base t + j)"
    using shadow_shows_screen [OF r, of "\<lambda>_. 0"] t(2) by auto
  moreover have "unat (5 :: u32) < 0x8000" by simp
  ultimately show ?thesis using t(2) by metis
qed

end
