(* ===== verification/Machine_Cookie.thy ===== *)
theory Machine_Cookie
  imports Host_Mem "HOL-Library.AList"
begin

text \<open>
  The cookie watcher (\<open>platforms/atari/machine_cookie.c\<close>): a poll that waits for TOS to build its
  cookie jar and then forces the cookies of the configured machine into it, in guest memory.
  What a jar holds is specified as a list of tag and value pairs; forcing a cookie is an update of
  that list.
\<close>

section \<open>Constants and state\<close>

definition COOKIE_PTR :: u32 where [c_const]: "COOKIE_PTR = 0x5A0"
definition C_MCH :: u32 where [c_const]: "C_MCH = 0x5F4D4348"
definition C_CPU :: u32 where [c_const]: "C_CPU = 0x5F435055"
definition C_VDO :: u32 where [c_const]: "C_VDO = 0x5F56444F"
definition C_SND :: u32 where [c_const]: "C_SND = 0x5F534E44"
definition JAR_MAX_SLOTS :: nat where [c_const]: "JAR_MAX_SLOTS = 64"
definition MAX_FORCED :: nat where [c_const]: "MAX_FORCED = 3"

record forced_cookie =
  fc_tag :: u32
  fc_want :: u32
  fc_logged :: bool

text \<open>The lines printed: a cookie replaced or appended (name, value, jar), a full jar (capacity,
  entries, name).\<close>

datatype mch_msg =
    Mch_Replaced "u8 list" u32 u32
  | Mch_Appended "u8 list" u32 u32
  | Mch_Full u32 u32 "u8 list"

text \<open>\<open>g_forced\<close> holds the first \<open>g_nforced\<close> entries of the array of the code.\<close>

record cookie_state =
  g_forced :: "forced_cookie list"
  g_seen_ptr :: u32
  g_settled :: nat
  g_full_logged :: bool
  mch_log :: "mch_msg list"

abbreviation g_nforced :: "cookie_state \<Rightarrow> nat" where "g_nforced c \<equiv> length (g_forced c)"

section \<open>Operations\<close>

definition rl :: "'a stram_state_scheme \<Rightarrow> u32 \<Rightarrow> u32" where
  "rl s a =
     push_bit 24 (ucast (mem_get_byte s (Natmem a))) OR
     push_bit 16 (ucast (mem_get_byte s (Natmem (a + 1)))) OR
     push_bit 8 (ucast (mem_get_byte s (Natmem (a + 2)))) OR ucast (mem_get_byte s (Natmem (a + 3)))"

definition wl :: "u32 \<Rightarrow> u32 \<Rightarrow> 'a stram_state_scheme \<Rightarrow> 'a stram_state_scheme" where
  "wl a v s =
     mem_put_byte (Natmem (a + 3)) (ucast v)
       (mem_put_byte (Natmem (a + 2)) (ucast (drop_bit 8 v))
         (mem_put_byte (Natmem (a + 1)) (ucast (drop_bit 16 v))
           (mem_put_byte (Natmem a) (ucast (drop_bit 24 v)) s)))"

definition tag_name :: "u32 \<Rightarrow> u8 list" where
  "tag_name tag = [ucast (drop_bit 24 tag), ucast (drop_bit 16 tag), ucast (drop_bit 8 tag), ucast tag]"

text \<open>The inner loop over the four bytes of a tag.\<close>

definition cookie_tag :: "u32 \<Rightarrow> bool" where
  "cookie_tag tag \<longleftrightarrow>
     list_all (\<lambda>b. let c = drop_bit b tag AND 0xFF in \<not> (c < 0x20 \<or> c > 0x7E)) [0, 8, 16, 24]"

text \<open>The walk: slots left, entries so far, address, whether a cookie of the OS was seen.\<close>

fun jar_walk :: "'a stram_state_scheme \<Rightarrow> nat \<Rightarrow> u32 \<Rightarrow> u32 \<Rightarrow> bool \<Rightarrow> (u32 \<times> u32 \<times> bool) option" where
  "jar_walk s 0 i a os_cookie = Some (i, a, os_cookie)"
| "jar_walk s (Suc n) i a os_cookie =
     (let tag = rl s a in
      if tag = 0 then Some (i, a, os_cookie)
      else if \<not> cookie_tag tag then None
      else jar_walk s n (i + 1) (a + 8) (tag = C_CPU \<or> tag = C_VDO \<or> os_cookie))"

definition jar_looks_real :: "'a stram_state_scheme \<Rightarrow> u32 \<Rightarrow> u32 option" where
  "jar_looks_real s jar =
     (case jar_walk s JAR_MAX_SLOTS 0 jar False of
        None \<Rightarrow> None
      | Some (i, a, os_cookie) \<Rightarrow>
          if i \<ge> of_nat JAR_MAX_SLOTS \<or> i = 0 \<or> \<not> os_cookie then None
          else if rl s (a + 4) > of_nat JAR_MAX_SLOTS * 4 \<or> rl s (a + 4) \<le> i then None
          else Some i)"

definition force_add :: "u32 \<Rightarrow> u32 \<Rightarrow> cookie_state \<Rightarrow> cookie_state" where
  "force_add tag want c =
     (if tag \<in> fc_tag ` set (g_forced c)
      then c\<lparr>g_forced :=
               takeWhile (\<lambda>f. fc_tag f \<noteq> tag) (g_forced c) @
               (hd (dropWhile (\<lambda>f. fc_tag f \<noteq> tag) (g_forced c)))\<lparr>fc_want := want\<rparr> #
               tl (dropWhile (\<lambda>f. fc_tag f \<noteq> tag) (g_forced c))\<rparr>
      else if g_nforced c < MAX_FORCED
      then c\<lparr>g_forced := g_forced c @ [\<lparr>fc_tag = tag, fc_want = want, fc_logged = False\<rparr>]\<rparr>
      else c)"

definition machine_cookie_set :: "u32 \<Rightarrow> cookie_state \<Rightarrow> cookie_state" where
  "machine_cookie_set mch_value = force_add C_MCH mch_value"

definition machine_cookie_set_ste_hw :: "cookie_state \<Rightarrow> cookie_state" where
  "machine_cookie_set_ste_hw c = force_add C_SND 0x00000003 (force_add C_VDO 0x00010000 c)"

text \<open>The loop of \<open>force_one\<close> over the entries: where it stopped, and whether at the tag.\<close>

fun force_walk :: "'a stram_state_scheme \<Rightarrow> u32 \<Rightarrow> nat \<Rightarrow> u32 \<Rightarrow> u32 \<Rightarrow> bool \<times> u32 \<times> u32" where
  "force_walk s tag 0 i a = (False, i, a)"
| "force_walk s tag (Suc n) i a =
     (if rl s a = 0 then (False, i, a)
      else if rl s a = tag then (True, i, a)
      else force_walk s tag n (i + 1) (a + 8))"

text \<open>\<open>if (!g_forced[k].logged) { ... }\<close>\<close>

definition log_forced :: "nat \<Rightarrow> (u8 list \<Rightarrow> u32 \<Rightarrow> u32 \<Rightarrow> mch_msg) \<Rightarrow> u32 \<Rightarrow> cookie_state \<Rightarrow> cookie_state" where
  "log_forced k msg jar c =
     (let f = g_forced c ! k in
      if fc_logged f then c
      else c\<lparr>g_forced := (g_forced c)[k := f\<lparr>fc_logged := True\<rparr>],
             mch_log := msg (tag_name (fc_tag f)) (fc_want f) jar # mch_log c\<rparr>)"

definition force_one :: "u32 \<Rightarrow> nat \<Rightarrow> cookie_state \<times> 'a stram_state_scheme \<Rightarrow>
  bool \<times> cookie_state \<times> 'a stram_state_scheme" where
  "force_one jar k cs =
     (let (c, s) = cs;
          tag = fc_tag (g_forced c ! k); want = fc_want (g_forced c ! k);
          (found, i, a) = force_walk s tag JAR_MAX_SLOTS 0 jar
      in if found then
           (if rl s (a + 4) \<noteq> want
            then (True, log_forced k Mch_Replaced jar c, wl (a + 4) want s)
            else (True, c, s))
         else
           (let used = i; cap = rl s (a + 4) in
            if cap > used + 1 \<and> cap \<le> of_nat JAR_MAX_SLOTS then
              (let s1 = wl (a + 8) 0 s;
                   s2 = wl (a + 12) cap s1;
                   s3 = wl a tag s2;
                   s4 = wl (a + 4) want s3
               in (True, log_forced k Mch_Appended jar c, s4))
            else
              (False,
               if g_full_logged c then c
               else c\<lparr>g_full_logged := True, mch_log := Mch_Full cap used (tag_name tag) # mch_log c\<rparr>,
               s)))"

text \<open>The last loop: the cookies still to force.\<close>

fun force_all :: "u32 \<Rightarrow> nat list \<Rightarrow> cookie_state \<times> 'a stram_state_scheme \<Rightarrow>
  cookie_state \<times> 'a stram_state_scheme" where
  "force_all jar [] cs = cs"
| "force_all jar (k # ks) cs =
     (let (ok, cs') = force_one jar k cs in if ok then force_all jar ks cs' else cs')"

definition jar_plausible :: "u32 \<Rightarrow> bool" where
  "jar_plausible jar \<longleftrightarrow>
     \<not> (jar = 0 \<or> jar \<ge> ST_RAM_SIZE - of_nat JAR_MAX_SLOTS * 8 \<or> jar AND 1 \<noteq> 0)"

definition machine_cookie_tick :: "bool \<Rightarrow> cookie_state \<times> 'a stram_state_scheme \<Rightarrow>
  cookie_state \<times> 'a stram_state_scheme" where
  "machine_cookie_tick natmem cs =
     (let (c, s) = cs in
      if g_nforced c = 0 \<or> \<not> natmem then cs
      else
        (let jar = rl s COOKIE_PTR in
         if jar \<noteq> g_seen_ptr c then (c\<lparr>g_seen_ptr := jar, g_settled := 0\<rparr>, s)
         else if \<not> jar_plausible jar then cs
         else if jar_looks_real s jar = None then (c\<lparr>g_settled := 0\<rparr>, s)
         else if g_settled c < 2 then (c\<lparr>g_settled := g_settled c + 1\<rparr>, s)
         else force_all jar [0..<g_nforced c] cs))"

section \<open>The jar as a list\<close>

text \<open>What a jar in guest memory holds: its entries in order, then a zero tag with the capacity.\<close>

definition jar_at :: "'a stram_state_scheme \<Rightarrow> u32 \<Rightarrow> (u32 \<times> u32) list \<Rightarrow> u32 \<Rightarrow> bool" where
  "jar_at s jar es cap \<longleftrightarrow>
     (\<forall>i < length es. fst (es ! i) \<noteq> 0 \<and> rl s (jar + 8 * of_nat i) = fst (es ! i) \<and>
        rl s (jar + 8 * of_nat i + 4) = snd (es ! i)) \<and>
     rl s (jar + 8 * of_nat (length es)) = 0 \<and> rl s (jar + 8 * of_nat (length es) + 4) = cap"

text \<open>The bytes of the first \<open>n\<close> slots of a jar, and that no two bytes of the largest jar the watcher
  extends are the same byte of the host.\<close>

definition win_cell :: "'a stram_state_scheme \<Rightarrow> u32 \<Rightarrow> nat \<Rightarrow> cell" where
  "win_cell s jar i = natmem_cell s (jar + of_nat i)"

definition jar_cells :: "nat \<Rightarrow> 'a stram_state_scheme \<Rightarrow> u32 \<Rightarrow> cell set" where
  "jar_cells n s jar = win_cell s jar ` {..<8 * n}"

definition jar_window :: "'a stram_state_scheme \<Rightarrow> u32 \<Rightarrow> bool" where
  "jar_window s jar \<longleftrightarrow> inj_on (win_cell s jar) {..<512}"

text \<open>Forcing one cookie, on the list: none when it is missing and the jar has no room.\<close>

definition jar_force :: "u32 \<Rightarrow> u32 \<times> u32 \<Rightarrow> (u32 \<times> u32) list \<Rightarrow> (u32 \<times> u32) list option" where
  "jar_force cap tw es =
     (if fst tw \<in> fst ` set es \<or> length es + 1 < unat cap \<and> unat cap \<le> JAR_MAX_SLOTS
      then Some (AList.update (fst tw) (snd tw) es) else None)"

fun jar_force_all :: "u32 \<Rightarrow> (u32 \<times> u32) list \<Rightarrow> (u32 \<times> u32) list \<Rightarrow> (u32 \<times> u32) list" where
  "jar_force_all cap [] es = es"
| "jar_force_all cap (tw # tws) es =
     (case jar_force cap tw es of None \<Rightarrow> es | Some es' \<Rightarrow> jar_force_all cap tws es')"

definition forced_list :: "cookie_state \<Rightarrow> (u32 \<times> u32) list" where
  "forced_list c = map (\<lambda>f. (fc_tag f, fc_want f)) (g_forced c)"

section \<open>Longs of the window\<close>

lemma rl_cells: "rl s a = do_get_mem_long s (Natmem a)"
  by (simp add: rl_def do_get_mem_long_def)

lemma wl_cells: "wl a v s = do_put_mem_long (Natmem a) v s"
  by (simp add: wl_def do_put_mem_long_def)

lemma natmem_cell_wl [simp]: "natmem_cell (wl a v s) x = natmem_cell s x"
  by (simp add: wl_def mem_put_byte_def)

lemma win_cell_wl [simp]: "win_cell (wl a v s) jar = win_cell s jar"
  by (rule ext) (simp add: win_cell_def)

lemma jar_cells_wl [simp]: "jar_cells n (wl a v s) jar = jar_cells n s jar"
  and jar_window_wl [simp]: "jar_window (wl a v s) jar = jar_window s jar"
  by (simp_all add: jar_cells_def jar_window_def)

definition jar_long :: "'a stram_state_scheme \<Rightarrow> u32 \<Rightarrow> nat \<Rightarrow> u32" where
  "jar_long s jar j = rl s (jar + of_nat (4 * j))"

definition jar_put :: "u32 \<Rightarrow> nat \<Rightarrow> u32 \<Rightarrow> 'a stram_state_scheme \<Rightarrow> 'a stram_state_scheme" where
  "jar_put jar j v s = wl (jar + of_nat (4 * j)) v s"

text \<open>The four cells of a long of the window.\<close>

lemma jar_long_cells:
  "jar_long s jar j = cells.get32 s (win_cell s jar (4 * j)) (win_cell s jar (4 * j + 1))
     (win_cell s jar (4 * j + 2)) (win_cell s jar (4 * j + 3))"
  by (simp add: jar_long_def rl_cells do_mem_long_cells add_ac win_cell_def)

lemma jar_put_cells:
  "jar_put jar j v s = cells.put32 (win_cell s jar (4 * j)) (win_cell s jar (4 * j + 1))
     (win_cell s jar (4 * j + 2)) (win_cell s jar (4 * j + 3)) v s"
  by (simp add: jar_put_def wl_cells do_mem_long_cells add_ac win_cell_def)

lemma win_cell_eq:
  "jar_window s jar \<Longrightarrow> i < 512 \<Longrightarrow> j < 512 \<Longrightarrow> win_cell s jar i = win_cell s jar j \<longleftrightarrow> i = j"
  unfolding jar_window_def by (rule inj_on_eq_iff) (assumption, (rule lessThan_iff [THEN iffD2], assumption)+)

lemma jar_long_put:
  assumes w: "jar_window s jar" and jk: "j < 128" "k < 128"
  shows "jar_long (jar_put jar k v s) jar j = (if j = k then v else jar_long s jar j)"
proof -
  have cell: "win_cell (jar_put jar k v s) jar = win_cell s jar" by (simp add: jar_put_def)
  note eq = win_cell_eq [OF w]
  show ?thesis
  proof (cases "j = k")
    case True
    have "distinct [win_cell s jar (4 * k), win_cell s jar (4 * k + 1), win_cell s jar (4 * k + 2),
        win_cell s jar (4 * k + 3)]"
      using jk by (simp add: eq)
    then have "cells.get32 (jar_put jar k v s) (win_cell s jar (4 * k)) (win_cell s jar (4 * k + 1))
        (win_cell s jar (4 * k + 2)) (win_cell s jar (4 * k + 3)) = v"
      unfolding jar_put_cells by (rule cells.get32_put32)
    with True show ?thesis by (simp only: jar_long_cells cell) simp
  next
    case False
    have "cell_get (jar_put jar k v s) (win_cell s jar x) = cell_get s (win_cell s jar x)"
      if "x < 512" "x div 4 = j" for x
      unfolding jar_put_cells using that jk False by (intro cells.get_put32_other) (auto simp: eq)
    with jk False show ?thesis
      unfolding jar_long_cells cell by (simp add: cells.get32_def)
  qed
qed

lemma jar_put_other:
  assumes "k < 2 * n" "c \<notin> jar_cells n s jar"
  shows "cell_get (jar_put jar k v s) c = cell_get s c"
  unfolding jar_put_cells using assms by (intro cells.get_put32_other) (auto simp: jar_cells_def)

text \<open>The jar in terms of its longs.\<close>

lemma jar_at_longs:
  "jar_at s jar es cap \<longleftrightarrow>
     (\<forall>i < length es. fst (es ! i) \<noteq> 0 \<and> jar_long s jar (2 * i) = fst (es ! i) \<and>
        jar_long s jar (2 * i + 1) = snd (es ! i)) \<and>
     jar_long s jar (2 * length es) = 0 \<and> jar_long s jar (2 * length es + 1) = cap"
  by (simp add: jar_at_def jar_long_def add_ac mult.assoc)

section \<open>The walks\<close>

text \<open>Where a tag stands in a list of entries.\<close>

definition tag_pos :: "u32 \<Rightarrow> (u32 \<times> u32) list \<Rightarrow> nat" where
  "tag_pos tag es = length (takeWhile (\<lambda>e. fst e \<noteq> tag) es)"

lemma tag_pos_le: "tag_pos tag es \<le> length es"
  by (simp add: tag_pos_def length_takeWhile_le)

lemma tag_pos_less: "tag_pos tag es < length es \<longleftrightarrow> tag \<in> fst ` set es"
  by (induction es) (auto simp: tag_pos_def)

lemma tag_pos_nth: "tag_pos tag es < length es \<Longrightarrow> fst (es ! tag_pos tag es) = tag"
  unfolding tag_pos_def using nth_length_takeWhile [of "\<lambda>e. fst e \<noteq> tag" es] by simp

lemma tag_pos_missing: "tag \<notin> fst ` set es \<Longrightarrow> tag_pos tag es = length es"
  using tag_pos_less [of tag es] tag_pos_le [of tag es] by simp

lemma update_tag_pos:
  "AList.update tag v es =
     (if tag_pos tag es < length es then es[tag_pos tag es := (tag, v)] else es @ [(tag, v)])"
  by (induction es) (auto simp: tag_pos_def)

lemma force_walk_from:
  assumes "jar_at s jar es cap" "length es < 64" "n + i = 64" "i \<le> length es"
  shows "force_walk s tag n (of_nat i) (jar + 8 * of_nat i) =
     (let j = i + tag_pos tag (drop i es) in (j < length es, of_nat j, jar + 8 * of_nat j))"
  using assms(3,4)
proof (induction n arbitrary: i)
  case 0
  with assms(2) show ?case by simp
next
  case (Suc n)
  show ?case
  proof (cases "i = length es")
    case True
    with assms(1) show ?thesis by (simp add: jar_at_def tag_pos_def Let_def)
  next
    case False
    with Suc.prems have i: "i < length es" by simp
    then have d: "drop i es = es ! i # drop (Suc i) es" by (simp add: Cons_nth_drop_Suc)
    have "force_walk s tag n (of_nat (Suc i)) (jar + 8 * of_nat (Suc i)) =
       (let j = Suc i + tag_pos tag (drop (Suc i) es) in (j < length es, of_nat j, jar + 8 * of_nat j))"
      using Suc.prems i by (intro Suc.IH) simp_all
    then show ?thesis
      using assms(1) i by (auto simp: jar_at_def d tag_pos_def Let_def algebra_simps)
  qed
qed

lemma force_walk_jar:
  assumes "jar_at s jar es cap" "length es < 64"
  shows "force_walk s tag JAR_MAX_SLOTS 0 jar =
     (tag \<in> fst ` set es, of_nat (tag_pos tag es), jar + 8 * of_nat (tag_pos tag es))"
  using force_walk_from [OF assms, of 64 0 tag] by (simp add: c_const tag_pos_less Let_def)

section \<open>Forcing cookies\<close>

text \<open>States that differ in the bytes of the first \<open>n\<close> slots of the jar at most.\<close>

definition jar_only :: "nat \<Rightarrow> u32 \<Rightarrow> 'a stram_state_scheme \<Rightarrow> 'a stram_state_scheme \<Rightarrow> bool" where
  "jar_only n jar s t \<longleftrightarrow> (\<forall>x. natmem_cell t x = natmem_cell s x) \<and>
     (\<forall>c. c \<notin> jar_cells n s jar \<longrightarrow> cell_get t c = cell_get s c)"

lemma jar_only_refl [simp, intro]: "jar_only n jar s s"
  by (simp add: jar_only_def)

lemma jar_only_keeps:
  assumes "jar_only n jar s t"
  shows "win_cell t = win_cell s" "jar_cells m t jar = jar_cells m s jar" "jar_window t jar = jar_window s jar"
proof -
  show w: "win_cell t = win_cell s" using assms by (intro ext) (simp add: jar_only_def win_cell_def)
  show "jar_cells m t jar = jar_cells m s jar" "jar_window t jar = jar_window s jar"
    by (simp_all add: jar_cells_def jar_window_def w)
qed

lemma jar_only_trans: "jar_only n jar s t \<Longrightarrow> jar_only n jar t u \<Longrightarrow> jar_only n jar s u"
  using jar_only_keeps(2) [of n jar s t n] by (simp add: jar_only_def)

lemma jar_only_put: "k < 2 * n \<Longrightarrow> jar_only n jar s (jar_put jar k v s)"
  using jar_put_other [of k n _ s jar v] by (simp add: jar_only_def) (simp add: jar_put_def)

lemma jar_only_put_trans: "k < 2 * n \<Longrightarrow> jar_only n jar s t \<Longrightarrow> jar_only n jar s (jar_put jar k v t)"
  by (rule jar_only_trans [OF _ jar_only_put])

lemma jar_window_put [simp]: "jar_window (jar_put jar' k v s) jar = jar_window s jar"
  by (simp add: jar_put_def)

text \<open>Replacing a value and appending an entry, as stores of longs.\<close>

lemma jar_at_replace:
  assumes "jar_at s jar es cap" "jar_window s jar" "p < length es" "length es < 64"
  shows "jar_at (jar_put jar (2 * p + 1) v s) jar (es[p := (fst (es ! p), v)]) cap"
proof -
  have "jar_long (jar_put jar (2 * p + 1) v s) jar j = (if j = 2 * p + 1 then v else jar_long s jar j)"
    if "j \<le> 2 * length es + 1" for j
    using that assms by (intro jar_long_put) simp_all
  then show ?thesis
    using assms(1,3) unfolding jar_at_longs by (auto simp: nth_list_update)
qed

lemma jar_at_append:
  assumes "jar_at s jar es cap" "jar_window s jar" "length es < 63" "tag \<noteq> 0"
  defines "n \<equiv> 2 * length es"
  shows "jar_at (jar_put jar (n + 1) want (jar_put jar n tag (jar_put jar (n + 3) cap (jar_put jar (n + 2) 0 s))))
    jar (es @ [(tag, want)]) cap"
proof -
  have n: "n + 3 < 128" using assms(3) by (simp add: n_def)
  have "jar_long (jar_put jar (n + 1) want (jar_put jar n tag (jar_put jar (n + 3) cap (jar_put jar (n + 2) 0 s))))
      jar j = (if j = n + 1 then want else if j = n then tag else if j = n + 3 then cap
        else if j = n + 2 then 0 else jar_long s jar j)" if "j < 128" for j
    using that n assms(2) by (simp add: jar_long_put)
  moreover have "length es < 63" by fact
  ultimately show ?thesis
    using assms(1,4) unfolding jar_at_longs by (auto simp: nth_append n_def less_Suc_eq)
qed

text \<open>The watcher's own state apart from what it has printed.\<close>

definition same_watch :: "cookie_state \<Rightarrow> cookie_state \<Rightarrow> bool" where
  "same_watch c d \<longleftrightarrow> forced_list d = forced_list c \<and> g_seen_ptr d = g_seen_ptr c \<and> g_settled d = g_settled c"

lemma same_watch_refl [simp, intro]: "same_watch c c"
  by (simp add: same_watch_def)

lemma length_forced_list [simp]: "length (forced_list c) = g_nforced c"
  by (simp add: forced_list_def)

lemma same_watch_log: "k < g_nforced c \<Longrightarrow> same_watch c (log_forced k msg jar c)"
  by (auto simp: same_watch_def forced_list_def log_forced_def Let_def list_eq_iff_nth_eq nth_list_update)

lemma jar_put_wl:
  "jar_put jar (2 * p) v s = wl (jar + 8 * of_nat p) v s"
  "jar_put jar (2 * p + 1) v s = wl (jar + 8 * of_nat p + 4) v s"
  "jar_put jar (2 * p + 2) v s = wl (jar + 8 * of_nat p + 8) v s"
  "jar_put jar (2 * p + 3) v s = wl (jar + 8 * of_nat p + 12) v s"
  by (simp_all add: jar_put_def algebra_simps)

lemma jar_room:
  "cap > of_nat n + 1 \<and> cap \<le> of_nat JAR_MAX_SLOTS \<longleftrightarrow> n + 1 < unat cap \<and> unat cap \<le> JAR_MAX_SLOTS"
  if "n < 64" for cap :: u32
proof -
  have "unat (of_nat n + 1 :: u32) = n + 1"
    using that by (subst unat_add_small) (simp_all add: unat_of_nat)
  then show ?thesis by (simp add: word_less_nat_alt word_le_nat_alt c_const)
qed

text \<open>\<open>force_one\<close> does on memory what \<open>jar_force\<close> does on the list, and reports whether it could.\<close>

definition one_forced :: "u32 \<Rightarrow> nat \<Rightarrow> u32 \<Rightarrow> u32 \<times> u32 \<Rightarrow> (u32 \<times> u32) list \<Rightarrow> cookie_state \<Rightarrow>
  'a stram_state_scheme \<Rightarrow> bool" where
  "one_forced jar k cap tw es c s \<longleftrightarrow>
     (\<exists>c' s'. force_one jar k (c, s) = (jar_force cap tw es \<noteq> None, c', s') \<and> same_watch c c' \<and>
        jar_only (unat cap) jar s s' \<and> jar_at s' jar (case jar_force cap tw es of None \<Rightarrow> es | Some es' \<Rightarrow> es') cap)"

lemma one_forcedI:
  assumes "force_one jar k (c, s) = (jar_force cap tw es \<noteq> None, c', s')" "same_watch c c'" "jar_only (unat cap) jar s s'"
    "jar_at s' jar (case jar_force cap tw es of None \<Rightarrow> es | Some es' \<Rightarrow> es') cap"
  shows "one_forced jar k cap tw es c s"
  using assms unfolding one_forced_def by blast

lemma force_one_present:
  assumes j: "jar_at s jar es cap" and w: "jar_window s jar" and l: "length es < 64" and k: "k < g_nforced c"
    and lc: "length es < unat cap"
    and fk: "fc_tag (g_forced c ! k) = tag" "fc_want (g_forced c ! k) = want" and present: "tag \<in> fst ` set es"
  shows "one_forced jar k cap (tag, want) es c s"
proof -
  let ?p = "tag_pos tag es"
  note walk = force_walk_jar [OF j l, of tag]
  have p: "?p < length es" using present by (simp add: tag_pos_less)
  have ep: "es ! ?p = (tag, snd (es ! ?p))" using tag_pos_nth [OF p] by (metis prod.collapse)
  have v: "rl s (jar + 8 * of_nat ?p + 4) = snd (es ! ?p)" using j p by (simp add: jar_at_def)
  have jf: "jar_force cap (tag, want) es = Some (es[?p := (tag, want)])"
    using present p by (simp add: jar_force_def update_tag_pos)
  show ?thesis
  proof (cases "snd (es ! ?p) = want")
    case True
    have "force_one jar k (c, s) = (True, c, s)" using present v True by (simp add: force_one_def walk fk)
    moreover have "es[?p := (tag, want)] = es" by (metis ep True list_update_id)
    ultimately show ?thesis using j by (intro one_forcedI [of jar k c s cap _ es c s]) (simp_all add: jf)
  next
    case False
    have "force_one jar k (c, s) = (True, log_forced k Mch_Replaced jar c, jar_put jar (2 * ?p + 1) want s)"
      using present v False by (simp add: force_one_def walk fk flip: jar_put_wl(2))
    moreover have "jar_only (unat cap) jar s (jar_put jar (2 * ?p + 1) want s)" using p lc by (intro jar_only_put) simp
    moreover have "jar_at (jar_put jar (2 * ?p + 1) want s) jar (es[?p := (tag, want)]) cap"
      using jar_at_replace [OF j w p l, of want] by (simp add: tag_pos_nth [OF p])
    ultimately show ?thesis using same_watch_log [OF k] by (intro one_forcedI) (simp_all add: jf)
  qed
qed

lemma force_one_missing:
  assumes j: "jar_at s jar es cap" and w: "jar_window s jar" and l: "length es < 64" and k: "k < g_nforced c"
    and fk: "fc_tag (g_forced c ! k) = tag" "fc_want (g_forced c ! k) = want"
    and missing: "tag \<notin> fst ` set es" and nz: "tag \<noteq> 0"
  shows "one_forced jar k cap (tag, want) es c s"
proof -
  let ?n = "2 * length es"
  have pl: "tag_pos tag es = length es" using missing by (rule tag_pos_missing)
  have walk: "force_walk s tag JAR_MAX_SLOTS 0 jar = (False, of_nat (length es), jar + 8 * of_nat (length es))"
    using force_walk_jar [OF j l, of tag] missing by (simp add: pl)
  have cap: "rl s (jar + 8 * of_nat (length es) + 4) = cap" using j by (simp add: jar_at_def)
  show ?thesis
  proof (cases "length es + 1 < unat cap \<and> unat cap \<le> JAR_MAX_SLOTS")
    case True
    let ?s = "jar_put jar (?n + 1) want (jar_put jar ?n tag (jar_put jar (?n + 3) cap (jar_put jar (?n + 2) 0 s)))"
    have n: "length es < 63" using True by (simp add: c_const)
    have "force_one jar k (c, s) = (True, log_forced k Mch_Appended jar c, ?s)"
      using True jar_room [OF l, of cap]
      by (simp only: force_one_def walk fk cap jar_put_wl Let_def case_prod_conv if_True if_False simp_thms)
    moreover have "jar_only (unat cap) jar s ?s"
      using True by (intro jar_only_put_trans jar_only_refl) simp_all
    moreover have "jar_force cap (tag, want) es = Some (es @ [(tag, want)])"
      using True pl by (simp add: jar_force_def update_tag_pos)
    ultimately show ?thesis
      using same_watch_log [OF k] jar_at_append [OF j w n nz, of want] by (intro one_forcedI) simp_all
  next
    case full: False
    obtain c' where "force_one jar k (c, s) = (False, c', s)" "same_watch c c'"
      using full jar_room [OF l, of cap]
      by (simp add: force_one_def walk fk cap Let_def same_watch_def forced_list_def)
    moreover have "jar_force cap (tag, want) es = None" using missing full by (simp add: jar_force_def)
    ultimately show ?thesis using j by (intro one_forcedI [of jar k c s cap _ es c' s]) simp_all
  qed
qed

lemma force_one_spec:
  assumes "jar_at s jar es cap" "jar_window s jar" "length es < 64" "k < g_nforced c" "length es < unat cap"
    "fst (forced_list c ! k) \<noteq> 0"
  shows "one_forced jar k cap (forced_list c ! k) es c s"
proof (cases "forced_list c ! k")
  case (Pair tag want)
  then have "fc_tag (g_forced c ! k) = tag" "fc_want (g_forced c ! k) = want"
    using assms(4) by (simp_all add: forced_list_def)
  note fk = this
  have "tag \<noteq> 0" using assms(6) Pair by simp
  then show ?thesis
    unfolding Pair using force_one_present [OF assms(1-5) fk] force_one_missing [OF assms(1-4) fk] by blast
qed

lemma jar_force_length:
  "jar_force cap tw es = Some es' \<Longrightarrow> length es < 64 \<Longrightarrow> length es' < 64"
  "jar_force cap tw es = Some es' \<Longrightarrow> length es < unat cap \<Longrightarrow> length es' < unat cap"
  by (auto simp: jar_force_def update_tag_pos tag_pos_less c_const split: if_splits)

lemma same_watch_trans: "same_watch c d \<Longrightarrow> same_watch d e \<Longrightarrow> same_watch c e"
  by (simp add: same_watch_def)

lemma same_watch_nforced: "same_watch c d \<Longrightarrow> g_nforced d = g_nforced c"
  unfolding same_watch_def by (metis length_forced_list)

text \<open>The loop over the forced cookies.\<close>

lemma force_all_spec:
  assumes "jar_at s jar es cap" "jar_window s jar" "length es < 64" "length es < unat cap" "0 \<notin> fst ` set (forced_list c)"
    "\<forall>k \<in> set ks. k < g_nforced c"
  shows "\<exists>c' s'. force_all jar ks (c, s) = (c', s') \<and> same_watch c c' \<and> jar_only (unat cap) jar s s' \<and>
    jar_at s' jar (jar_force_all cap (map ((!) (forced_list c)) ks) es) cap"
  using assms
proof (induction ks arbitrary: c s es)
  case Nil
  then show ?case by auto
next
  case (Cons k ks)
  have k: "k < g_nforced c" using Cons.prems by simp
  have "fst (forced_list c ! k) \<noteq> 0"
    using Cons.prems(5) k by (metis length_forced_list nth_mem rev_image_eqI)
  then obtain c1 s1 where f: "force_one jar k (c, s) = (jar_force cap (forced_list c ! k) es \<noteq> None, c1, s1)"
    "same_watch c c1" "jar_only (unat cap) jar s s1"
    "jar_at s1 jar (case jar_force cap (forced_list c ! k) es of None \<Rightarrow> es | Some es' \<Rightarrow> es') cap"
    using force_one_spec [of s jar es cap k c] Cons.prems k by (auto simp: one_forced_def)
  show ?case
  proof (cases "jar_force cap (forced_list c ! k) es")
    case None
    with f show ?thesis by (auto simp: Let_def)
  next
    case (Some es1)
    have fl: "forced_list c1 = forced_list c" using f(2) by (simp add: same_watch_def)
    have "\<exists>c' s'. force_all jar ks (c1, s1) = (c', s') \<and> same_watch c1 c' \<and> jar_only (unat cap) jar s1 s' \<and>
        jar_at s' jar (jar_force_all cap (map ((!) (forced_list c1)) ks) es1) cap"
      using f Some Cons.prems jar_only_keeps(3) [OF f(3)] jar_force_length [OF Some]
        same_watch_nforced [OF f(2)] by (intro Cons.IH) (simp_all add: fl)
    then show ?thesis
      using f Some same_watch_trans [OF f(2)] jar_only_trans [OF f(3)] by (auto simp: Let_def fl)
  qed
qed

section \<open>Recognising a jar\<close>

definition os_cookie_in :: "(u32 \<times> u32) list \<Rightarrow> bool" where
  "os_cookie_in es \<longleftrightarrow> C_CPU \<in> fst ` set es \<or> C_VDO \<in> fst ` set es"

definition real_jar :: "(u32 \<times> u32) list \<Rightarrow> u32 \<Rightarrow> bool" where
  "real_jar es cap \<longleftrightarrow> length es < JAR_MAX_SLOTS \<and> list_all (\<lambda>e. cookie_tag (fst e)) es \<and>
     os_cookie_in es \<and> length es < unat cap \<and> unat cap \<le> 4 * JAR_MAX_SLOTS"

definition real_jar_at :: "'a stram_state_scheme \<Rightarrow> u32 \<Rightarrow> bool" where
  "real_jar_at s jar \<longleftrightarrow> (\<exists>es cap. jar_at s jar es cap \<and> real_jar es cap)"

lemma jar_walk_to:
  assumes "jar_at s jar es cap" "list_all (\<lambda>e. cookie_tag (fst e)) es" "length es < n + i" "i \<le> length es"
  shows "jar_walk s n (of_nat i) (jar + 8 * of_nat i) b =
    Some (of_nat (length es), jar + 8 * of_nat (length es), b \<or> os_cookie_in (drop i es))"
  using assms(3,4)
proof (induction n arbitrary: i b)
  case 0
  then show ?case by simp
next
  case (Suc n)
  show ?case
  proof (cases "i = length es")
    case True
    with assms(1) show ?thesis by (simp add: jar_at_def os_cookie_in_def)
  next
    case False
    with Suc.prems have i: "i < length es" by simp
    then have d: "drop i es = es ! i # drop (Suc i) es" by (simp add: Cons_nth_drop_Suc)
    have "jar_walk s n (of_nat (Suc i)) (jar + 8 * of_nat (Suc i)) b' =
        Some (of_nat (length es), jar + 8 * of_nat (length es), b' \<or> os_cookie_in (drop (Suc i) es))" for b'
      using Suc.prems i by (intro Suc.IH) simp_all
    moreover have "cookie_tag (fst (es ! i))" using assms(2) i by (simp add: list_all_length)
    ultimately show ?thesis
      using assms(1) i by (auto simp: jar_at_def d os_cookie_in_def Let_def algebra_simps)
  qed
qed

lemma jar_walk_from:
  assumes "jar_walk s n i a b = Some (i', a', b')"
  shows "\<exists>es. length es \<le> n \<and> i' = i + of_nat (length es) \<and> a' = a + 8 * of_nat (length es) \<and>
    (length es < n \<longrightarrow> rl s a' = 0) \<and> list_all (\<lambda>e. fst e \<noteq> 0 \<and> cookie_tag (fst e)) es \<and>
    (\<forall>j < length es. rl s (a + 8 * of_nat j) = fst (es ! j) \<and> rl s (a + 8 * of_nat j + 4) = snd (es ! j)) \<and>
    b' = (b \<or> os_cookie_in es)"
  using assms
proof (induction s n i a b rule: jar_walk.induct)
  case (1 s i a b)
  then show ?case by (intro exI [of _ "[]"]) (simp add: os_cookie_in_def)
next
  case (2 s n i a b)
  show ?case
  proof (cases "rl s a = 0")
    case True
    with "2.prems" show ?thesis by (intro exI [of _ "[]"]) (simp add: os_cookie_in_def Let_def)
  next
    case False
    with "2.prems" have c: "cookie_tag (rl s a)"
      and w: "jar_walk s n (i + 1) (a + 8) (rl s a = C_CPU \<or> rl s a = C_VDO \<or> b) = Some (i', a', b')"
      by (auto simp: Let_def split: if_splits)
    from "2.IH" [OF refl False] c w obtain es where es: "length es \<le> n" "i' = i + 1 + of_nat (length es)"
      "a' = a + 8 + 8 * of_nat (length es)" "length es < n \<longrightarrow> rl s a' = 0"
      "list_all (\<lambda>e. fst e \<noteq> 0 \<and> cookie_tag (fst e)) es"
      "\<forall>j < length es. rl s (a + 8 + 8 * of_nat j) = fst (es ! j) \<and> rl s (a + 8 + 8 * of_nat j + 4) = snd (es ! j)"
      "b' = ((rl s a = C_CPU \<or> rl s a = C_VDO \<or> b) \<or> os_cookie_in es)" by auto
    show ?thesis
      by (rule exI [of _ "(rl s a, rl s (a + 4)) # es"])
        (use es c False in \<open>auto simp: os_cookie_in_def algebra_simps less_Suc_eq_0_disj\<close>)
  qed
qed

lemma jar_looks_real_iff: "jar_looks_real s jar \<noteq> None \<longleftrightarrow> real_jar_at s jar"
proof
  assume "real_jar_at s jar"
  then obtain es cap where j: "jar_at s jar es cap" "real_jar es cap" by (auto simp: real_jar_at_def)
  then have l: "length es < 64" "0 < length es" "length es < unat cap" "unat cap \<le> 256"
    by (auto simp: real_jar_def os_cookie_in_def c_const)
  have "jar_walk s 64 0 jar False = Some (of_nat (length es), jar + 8 * of_nat (length es), os_cookie_in es)"
    using jar_walk_to [OF j(1), of 64 0 False] j(2) l(1) by (simp add: real_jar_def)
  moreover have "rl s (jar + 8 * of_nat (length es) + 4) = cap" using j(1) by (simp add: jar_at_def)
  moreover have "unat (of_nat (length es) :: u32) = length es" using l(1) by (simp add: unat_of_nat)
  ultimately show "jar_looks_real s jar \<noteq> None"
    using l j(2) by (auto simp: jar_looks_real_def real_jar_def os_cookie_in_def c_const word_le_nat_alt
        word_less_nat_alt)
next
  assume "jar_looks_real s jar \<noteq> None"
  then obtain i a where w: "jar_walk s 64 0 jar False = Some (i, a, True)"
    and c: "i < 64" "rl s (a + 4) \<le> 256" "i < rl s (a + 4)"
    by (auto simp: jar_looks_real_def c_const not_le not_less split: option.splits if_splits prod.splits)
  obtain es where es: "length es \<le> 64" "i = of_nat (length es)" "a = jar + 8 * of_nat (length es)"
    "length es < 64 \<longrightarrow> rl s a = 0" "list_all (\<lambda>e. fst e \<noteq> 0 \<and> cookie_tag (fst e)) es"
    "\<forall>j < length es. rl s (jar + 8 * of_nat j) = fst (es ! j) \<and> rl s (jar + 8 * of_nat j + 4) = snd (es ! j)"
    "os_cookie_in es"
    using jar_walk_from [OF w] by auto
  have u: "unat i = length es" using es(1,2) by (simp add: unat_of_nat)
  then have "length es < 64" using c(1) by (simp add: word_less_nat_alt)
  then have "jar_at s jar es (rl s (a + 4))" using es by (auto simp: jar_at_def list_all_length)
  moreover have "real_jar es (rl s (a + 4))"
    using es(5,7) c u by (auto simp: real_jar_def os_cookie_in_def c_const word_less_nat_alt word_le_nat_alt
        list_all_iff)
  ultimately show "real_jar_at s jar" by (auto simp: real_jar_at_def)
qed

section \<open>Only the jar is written\<close>

text \<open>A tick that writes has seen the pointer before and the jar twice, and stays inside the slots of
  the jar.\<close>

lemma cookie_tick_writes:
  assumes "machine_cookie_tick natmem (c, s) = (c', s')" "s' \<noteq> s"
  shows "rl s COOKIE_PTR = g_seen_ptr c" "jar_plausible (g_seen_ptr c)" "real_jar_at s (g_seen_ptr c)" "2 \<le> g_settled c"
    "force_all (g_seen_ptr c) [0..<g_nforced c] (c, s) = (c', s')"
  using assms by (auto simp: machine_cookie_tick_def Let_def simp flip: jar_looks_real_iff split: if_splits)

lemma cookie_tick_slots:
  assumes "machine_cookie_tick natmem (c, s) = (c', s')" "s' \<noteq> s" "0 \<notin> fst ` set (forced_list c)"
    and "jar_window s (g_seen_ptr c)" "jar_at s (g_seen_ptr c) es cap" "real_jar es cap"
  shows "jar_only (unat cap) (g_seen_ptr c) s s'"
  using force_all_spec [OF assms(5,4) _ _ assms(3), of "[0..<g_nforced c]"] cookie_tick_writes(5) [OF assms(1,2)] assms(6)
  by (auto simp: real_jar_def c_const)

lemma force_one_watch: "k < g_nforced c \<Longrightarrow> force_one jar k (c, s) = (ok, c', s') \<Longrightarrow> same_watch c c'"
  using same_watch_log [of k c]
  by (auto simp: force_one_def Let_def same_watch_def forced_list_def split: if_splits prod.splits)

lemma force_all_watch:
  "\<forall>k \<in> set ks. k < g_nforced c \<Longrightarrow> force_all jar ks (c, s) = (c', s') \<Longrightarrow> same_watch c c'"
proof (induction ks arbitrary: c s)
  case (Cons k ks)
  obtain ok c1 s1 where f: "force_one jar k (c, s) = (ok, c1, s1)" by (metis prod_cases3)
  have w: "same_watch c c1" using Cons.prems f by (intro force_one_watch) auto
  show ?case
  proof (cases ok)
    case True
    then have "same_watch c1 c'"
      using Cons.prems f same_watch_nforced [OF w] by (intro Cons.IH [of c1 s1]) simp_all
    with w show ?thesis by (rule same_watch_trans)
  next
    case False
    then show ?thesis using Cons.prems f w by simp
  qed
qed simp

text \<open>The watcher over a history of looks, newest first; between looks the guest may do anything to
  its memory.\<close>

fun cookie_run :: "bool \<Rightarrow> cookie_state \<Rightarrow> 'a stram_state_scheme list \<Rightarrow> cookie_state" where
  "cookie_run natmem c [] = c"
| "cookie_run natmem c (s # h) = fst (machine_cookie_tick natmem (cookie_run natmem c h, s))"

definition looked :: "u32 \<Rightarrow> nat \<Rightarrow> 'a stram_state_scheme list \<Rightarrow> bool" where
  "looked p n h \<longleftrightarrow> n < length h \<and> jar_plausible p \<and> (\<forall>i \<le> n. rl (h ! i) COOKIE_PTR = p) \<and>
     (\<forall>i < n. real_jar_at (h ! i) p)"

lemma looked_Cons:
  "looked p n h \<Longrightarrow> rl s COOKIE_PTR = p \<Longrightarrow> real_jar_at s p \<Longrightarrow> looked p (Suc n) (s # h)"
  by (auto simp: looked_def nth_Cons' )

lemma looked_le: "looked p n h \<Longrightarrow> m \<le> n \<Longrightarrow> looked p m h"
  by (auto simp: looked_def)

lemma cookie_tick_looks:
  assumes tick: "machine_cookie_tick True (c, s) = (c', s')" and n: "0 < g_nforced c" and l: "g_settled c \<le> 2"
    and old: "\<not> jar_plausible (g_seen_ptr c) \<and> g_settled c = 0 \<or> looked (g_seen_ptr c) (g_settled c) h"
  shows "0 < g_nforced c' \<and> g_settled c' \<le> 2 \<and>
    (\<not> jar_plausible (g_seen_ptr c') \<and> g_settled c' = 0 \<or> looked (g_seen_ptr c') (g_settled c') (s # h))"
proof -
  let ?p = "rl s COOKIE_PTR"
  consider (moved) "?p \<noteq> g_seen_ptr c" | (implausible) "?p = g_seen_ptr c" "\<not> jar_plausible ?p"
    | (unreal) "?p = g_seen_ptr c" "jar_plausible ?p" "\<not> real_jar_at s ?p"
    | (settling) "?p = g_seen_ptr c" "jar_plausible ?p" "real_jar_at s ?p" "g_settled c < 2"
    | (forcing) "?p = g_seen_ptr c" "jar_plausible ?p" "real_jar_at s ?p" "2 \<le> g_settled c"
    by linarith
  then show ?thesis
  proof cases
    case moved
    with tick n show ?thesis by (auto simp: machine_cookie_tick_def looked_def)
  next
    case implausible
    with tick n l old show ?thesis by (auto simp: machine_cookie_tick_def looked_def)
  next
    case unreal
    then have "jar_looks_real s ?p = None" using jar_looks_real_iff [of s ?p] by blast
    with unreal tick n show ?thesis by (auto simp: machine_cookie_tick_def looked_def)
  next
    case settling
    then have "jar_looks_real s ?p \<noteq> None" using jar_looks_real_iff [of s ?p] by blast
    with settling tick n have "c' = c\<lparr>g_settled := g_settled c + 1\<rparr>" by (auto simp: machine_cookie_tick_def)
    with settling old n looked_Cons [of ?p "g_settled c" h s] show ?thesis by auto
  next
    case forcing
    then have "jar_looks_real s ?p \<noteq> None" using jar_looks_real_iff [of s ?p] by blast
    with forcing tick n have f: "force_all ?p [0..<g_nforced c] (c, s) = (c', s')" by (auto simp: machine_cookie_tick_def)
    have "same_watch c c'" using f by (intro force_all_watch) auto
    moreover have "looked ?p (g_settled c) (s # h)"
      using forcing old by (intro looked_le [OF looked_Cons [of ?p "g_settled c" h s]]) auto
    ultimately show ?thesis
      using n l forcing same_watch_nforced [of c c'] by (simp add: same_watch_def)
  qed
qed

lemma cookie_run_looked:
  assumes "g_seen_ptr c = 0" "g_settled c = 0" "0 < g_nforced c"
  shows "0 < g_nforced (cookie_run True c h) \<and> g_settled (cookie_run True c h) \<le> 2 \<and>
    (\<not> jar_plausible (g_seen_ptr (cookie_run True c h)) \<and> g_settled (cookie_run True c h) = 0 \<or>
     looked (g_seen_ptr (cookie_run True c h)) (g_settled (cookie_run True c h)) h)"
proof (induction h)
  case Nil
  then show ?case using assms by (simp add: jar_plausible_def)
next
  case (Cons s h)
  obtain c' s' where t: "machine_cookie_tick True (cookie_run True c h, s) = (c', s')" by fastforce
  with cookie_tick_looks [OF t, of h] Cons.IH show ?case by simp
qed

lemma cookie_idle: "\<not> natmem \<or> g_nforced c = 0 \<Longrightarrow> machine_cookie_tick natmem (c, s) = (c, s)"
  by (auto simp: machine_cookie_tick_def)

lemma cookie_run_idle: "\<not> natmem \<or> g_nforced c = 0 \<Longrightarrow> cookie_run natmem c h = c"
  by (induction h) (simp_all add: cookie_idle)

text \<open>A plausible jar pointer leaves room for the largest jar below the end of ST-RAM.\<close>

lemma jar_plausible_room: "jar_plausible p \<Longrightarrow> unat p + 512 < 0x400000"
  by (simp add: jar_plausible_def c_const not_le word_less_nat_alt)

section \<open>Settling\<close>

lemma map_of_force_all:
  "length es + length tws < unat cap \<Longrightarrow> unat cap \<le> JAR_MAX_SLOTS \<Longrightarrow> distinct (map fst tws) \<Longrightarrow>
   map_of (jar_force_all cap tws es) = map_of es ++ map_of tws \<and>
   length (jar_force_all cap tws es) \<le> length es + length tws"
proof (induction tws arbitrary: es)
  case (Cons tw tws)
  let ?e = "AList.update (fst tw) (snd tw) es"
  have f: "jar_force cap tw es = Some ?e" using Cons.prems by (simp add: jar_force_def)
  have l: "length ?e \<le> length es + 1" by (simp add: update_tag_pos)
  have ih: "map_of (jar_force_all cap tws ?e) = map_of ?e ++ map_of tws \<and>
      length (jar_force_all cap tws ?e) \<le> length ?e + length tws"
    using Cons.prems l by (intro Cons.IH) simp_all
  have "fst tw \<notin> dom (map_of tws)" using Cons.prems(3) by (simp add: dom_map_of_conv_image_fst)
  then have "map_of ?e ++ map_of tws = map_of es ++ map_of (tw # tws)"
    by (cases tw) (simp add: update_conv' map_add_upd_left)
  with ih f l show ?case by (simp del: map_of.simps)
qed simp

lemma jar_force_all_done:
  "\<forall>tw \<in> set tws. map_of es (fst tw) = Some (snd tw) \<Longrightarrow> jar_force_all cap tws es = es"
proof (induction tws)
  case (Cons tw tws)
  then have m: "map_of es (fst tw) = Some (snd tw)" by simp
  have "AList.update t w es = es" if "map_of es t = Some w" for t w
    using that by (induction es) (auto split: if_splits)
  moreover have "fst tw \<in> fst ` set es" using m by (metis domI dom_map_of_conv_image_fst)
  ultimately show ?case using Cons m by (simp add: jar_force_def)
qed simp

text \<open>What the configuration may force: cookie-shaped tags, each once.\<close>

definition watch_ok :: "cookie_state \<Rightarrow> bool" where
  "watch_ok c \<longleftrightarrow> g_nforced c \<le> MAX_FORCED \<and> distinct (map fst (forced_list c)) \<and>
     list_all (\<lambda>tw. cookie_tag (fst tw) \<and> fst tw \<noteq> 0) (forced_list c)"

lemma forced_list_add:
  "forced_list (force_add tag want c) =
     (if tag \<in> fst ` set (forced_list c) \<or> g_nforced c < MAX_FORCED
      then AList.update tag want (forced_list c) else forced_list c)"
proof -
  have "map (\<lambda>f. (fc_tag f, fc_want f)) (takeWhile (\<lambda>f. fc_tag f \<noteq> tag) fs @
      (hd (dropWhile (\<lambda>f. fc_tag f \<noteq> tag) fs))\<lparr>fc_want := want\<rparr> # tl (dropWhile (\<lambda>f. fc_tag f \<noteq> tag) fs)) =
      AList.update tag want (map (\<lambda>f. (fc_tag f, fc_want f)) fs)" if "tag \<in> fc_tag ` set fs" for fs
    using that by (induction fs) auto
  moreover have "AList.update tag want xs = xs @ [(tag, want)]" if "tag \<notin> fst ` set xs" for xs
    using that by (simp add: update_tag_pos tag_pos_less)
  ultimately show ?thesis by (auto simp: force_add_def forced_list_def image_image)
qed

lemma watch_ok_add:
  assumes "watch_ok c" "cookie_tag tag" "tag \<noteq> 0"
  shows "watch_ok (force_add tag want c)"
proof -
  have w: "watch_ok d \<longleftrightarrow> length (forced_list d) \<le> MAX_FORCED \<and> distinct (map fst (forced_list d)) \<and>
      list_all (\<lambda>tw. cookie_tag (fst tw) \<and> fst tw \<noteq> 0) (forced_list d)" for d
    by (simp add: watch_ok_def)
  have d: "distinct (map fst (AList.update tag want xs))" if "distinct (map fst xs)" for xs :: "(u32 \<times> u32) list"
    using that by (rule distinct_update)
  have a: "list_all P (AList.update tag want xs)" if "list_all P xs" "P (tag, want)" for P xs
    using that by (induction xs) auto
  have l: "length (AList.update tag want xs) = (if tag \<in> fst ` set xs then length xs else length xs + 1)"
    for xs :: "(u32 \<times> u32) list"
    by (simp add: update_tag_pos tag_pos_less)
  show ?thesis
  proof (cases "tag \<in> fst ` set (forced_list c) \<or> g_nforced c < MAX_FORCED")
    case True
    then have f: "forced_list (force_add tag want c) = AList.update tag want (forced_list c)"
      by (simp only: forced_list_add if_True)
    have "length (AList.update tag want (forced_list c)) \<le> MAX_FORCED"
      unfolding l using True assms(1) by (auto simp: watch_ok_def)
    then show ?thesis
      unfolding w f using assms by (intro conjI d a) (simp_all add: watch_ok_def)
  next
    case False
    then have "forced_list (force_add tag want c) = forced_list c" by (simp only: forced_list_add if_False)
    with assms(1) show ?thesis by (simp only: w)
  qed
qed

text \<open>How far the watcher is with a jar at \<open>p\<close>: not seen, seen, looked at once or twice.\<close>

definition watch_stage :: "u32 \<Rightarrow> cookie_state \<Rightarrow> nat" where
  "watch_stage p c = (if g_seen_ptr c \<noteq> p then 0 else min 2 (g_settled c) + 1)"

text \<open>A jar that stays where it is, with room for what is forced.\<close>

definition steady_jar :: "'a stram_state_scheme \<Rightarrow> u32 \<Rightarrow> (u32 \<times> u32) list \<Rightarrow> u32 \<Rightarrow> bool" where
  "steady_jar s jar es cap \<longleftrightarrow> jar_at s jar es cap \<and> real_jar es cap \<and> jar_plausible jar \<and>
     rl s COOKIE_PTR = jar \<and> jar_window s jar \<and> (\<forall>i < 4. natmem_cell s (COOKIE_PTR + of_nat i) \<notin> jar_cells (unat cap) s jar)"

lemma steady_jar_only:
  assumes "steady_jar s jar es cap" "jar_only (unat cap) jar s t" "jar_at t jar es' cap" "real_jar es' cap"
  shows "steady_jar t jar es' cap"
proof -
  have ptr: "cell_get t (natmem_cell t (COOKIE_PTR + of_nat i)) = cell_get s (natmem_cell s (COOKIE_PTR + of_nat i))"
    if "i < 4" for i
    using assms(1,2) that by (auto simp: steady_jar_def jar_only_def)
  from ptr [of 0] ptr [of 1] ptr [of 2] ptr [of 3] have "rl t COOKIE_PTR = rl s COOKIE_PTR"
    by (simp add: rl_def mem_get_byte_def)
  moreover have "natmem_cell t = natmem_cell s" using assms(2) by (intro ext) (simp add: jar_only_def)
  ultimately show ?thesis
    using assms(1,3,4) jar_only_keeps(2,3) [OF assms(2)] by (simp add: steady_jar_def)
qed

lemma jar_force_tags:
  assumes "jar_force cap tw es = Some es'"
  shows "fst ` set es' = insert (fst tw) (fst ` set es)"
proof -
  have "fst ` set (AList.update t w xs) = insert t (fst ` set xs)" for t w and xs :: "(u32 \<times> u32) list"
    by (induction xs) auto
  moreover have "es' = AList.update (fst tw) (snd tw) es"
    using assms by (simp add: jar_force_def split: if_splits)
  ultimately show ?thesis by simp
qed

lemma jar_force_all_tags:
  "fst ` set es \<subseteq> fst ` set (jar_force_all cap tws es) \<and>
   fst ` set (jar_force_all cap tws es) \<subseteq> fst ` set es \<union> fst ` set tws"
proof (induction tws arbitrary: es)
  case (Cons tw tws)
  show ?case
  proof (cases "jar_force cap tw es")
    case None
    then show ?thesis by auto
  next
    case (Some es')
    from Cons.IH [of es'] jar_force_tags [OF Some] Some show ?thesis by auto
  qed
qed simp

lemma real_jar_forced:
  assumes "real_jar es cap" "watch_ok c" "length es + g_nforced c < unat cap" "unat cap \<le> JAR_MAX_SLOTS"
  shows "real_jar (jar_force_all cap (forced_list c) es) cap"
proof -
  let ?e = "jar_force_all cap (forced_list c) es"
  have "length ?e \<le> length es + g_nforced c"
    using map_of_force_all [of es "forced_list c" cap] assms by (simp add: watch_ok_def)
  moreover have "\<forall>t \<in> fst ` set ?e. cookie_tag t"
    using assms(1,2) jar_force_all_tags [of es cap "forced_list c"]
    by (fastforce simp: real_jar_def watch_ok_def list_all_iff)
  ultimately show ?thesis
    using assms jar_force_all_tags [of es cap "forced_list c"]
    by (auto simp: real_jar_def os_cookie_in_def list_all_iff c_const)
qed

text \<open>One tick over a steady jar: a further stage, or the cookies.\<close>

lemma cookie_tick_steady:
  assumes j: "steady_jar s jar es cap" and ok: "watch_ok c" and n: "0 < g_nforced c"
  defines "f \<equiv> jar_force_all cap (forced_list c) es"
  obtains c' s' where "machine_cookie_tick True (c, s) = (c', s')" "forced_list c' = forced_list c" "jar_only (unat cap) jar s s'"
    "watch_stage jar c' = min 3 (watch_stage jar c + 1)"
    "jar_at s' jar (if watch_stage jar c = 3 then f else es) cap"
proof -
  have ptr: "rl s COOKIE_PTR = jar" "jar_plausible jar" using j by (simp_all add: steady_jar_def)
  obtain i where real: "jar_looks_real s jar = Some i"
    using j jar_looks_real_iff [of s jar] by (auto simp: steady_jar_def real_jar_at_def)
  have at: "jar_at s jar es cap" "jar_window s jar" "length es < 64" "length es < unat cap"
    using j by (simp_all add: steady_jar_def real_jar_def c_const)
  consider (unseen) "g_seen_ptr c \<noteq> jar" | (settling) "g_seen_ptr c = jar" "g_settled c < 2"
    | (settled) "g_seen_ptr c = jar" "2 \<le> g_settled c" by linarith
  then show thesis
  proof cases
    case unseen
    with n ptr at show ?thesis
      by (intro that [of "c\<lparr>g_seen_ptr := jar, g_settled := 0\<rparr>" s])
        (simp_all add: machine_cookie_tick_def watch_stage_def forced_list_def)
  next
    case settling
    with n ptr at real show ?thesis
      by (intro that [of "c\<lparr>g_settled := g_settled c + 1\<rparr>" s])
        (simp_all add: machine_cookie_tick_def watch_stage_def forced_list_def min_def)
  next
    case settled
    have "0 \<notin> fst ` set (forced_list c)" using ok by (auto simp: watch_ok_def list_all_iff)
    moreover have "map ((!) (forced_list c)) [0..<g_nforced c] = forced_list c"
      by (metis length_forced_list map_nth)
    ultimately obtain c' s' where r: "force_all jar [0..<g_nforced c] (c, s) = (c', s')" "same_watch c c'"
      "jar_only (unat cap) jar s s'" "jar_at s' jar f cap"
      using force_all_spec [OF at, of c "[0..<g_nforced c]"] by (auto simp: f_def)
    have "machine_cookie_tick True (c, s) = (c', s')"
      using settled n ptr real r(1) by (simp add: machine_cookie_tick_def)
    with settled r show ?thesis
      by (intro that [of c' s']) (simp_all add: watch_stage_def same_watch_def)
  qed
qed

text \<open>Ticks over a steady jar: the cookies are in from the fourth on.\<close>

lemma cookie_ticks_steady:
  assumes j: "steady_jar s jar es cap" and ok: "watch_ok c" and n: "0 < g_nforced c"
    and room: "length es + g_nforced c < unat cap" "unat cap \<le> JAR_MAX_SLOTS"
  defines "f \<equiv> jar_force_all cap (forced_list c) es"
  shows "\<exists>c' s' e. ((machine_cookie_tick True ^^ m) (c, s)) = (c', s') \<and> forced_list c' = forced_list c \<and>
    jar_only (unat cap) jar s s' \<and> min 3 m \<le> watch_stage jar c' \<and> steady_jar s' jar e cap \<and>
    (e = f \<or> e = es \<and> m < 4)"
proof (induction m)
  case 0
  then show ?case using j by auto
next
  case (Suc m)
  then obtain c1 s1 e where i: "(machine_cookie_tick True ^^ m) (c, s) = (c1, s1)" "forced_list c1 = forced_list c"
    "jar_only (unat cap) jar s s1" "min 3 m \<le> watch_stage jar c1" "steady_jar s1 jar e cap" "e = f \<or> e = es \<and> m < 4"
    by blast
  have n1: "g_nforced c1 = g_nforced c" using i(2) by (metis length_forced_list)
  then have ok1: "watch_ok c1" using ok i(2) by (simp add: watch_ok_def)
  have f2: "jar_force_all cap (forced_list c) e = f"
  proof -
    have "map_of f = map_of es ++ map_of (forced_list c)"
      using map_of_force_all [of es "forced_list c" cap] ok room by (simp add: f_def watch_ok_def)
    then have "\<forall>tw \<in> set (forced_list c). map_of f (fst tw) = Some (snd tw)"
      using ok by (auto simp: watch_ok_def map_add_Some_iff)
    then show ?thesis using i(6) jar_force_all_done [of "forced_list c" f cap] by (auto simp: f_def)
  qed
  obtain c2 s2 where t: "machine_cookie_tick True (c1, s1) = (c2, s2)" "forced_list c2 = forced_list c1"
    "jar_only (unat cap) jar s1 s2" "watch_stage jar c2 = min 3 (watch_stage jar c1 + 1)"
    "jar_at s2 jar (if watch_stage jar c1 = 3 then f else e) cap"
    using cookie_tick_steady [OF i(5) ok1] n1 n unfolding i(2) f2 by metis
  let ?e = "if watch_stage jar c1 = 3 then f else e"
  have "real_jar e cap" using i(5) by (simp add: steady_jar_def)
  then have "real_jar ?e cap"
    using j real_jar_forced [of es cap c] ok room by (simp add: f_def steady_jar_def)
  then have "steady_jar s2 jar ?e cap" by (rule steady_jar_only [OF i(5) t(3,5)])
  moreover have "?e = f \<or> ?e = es \<and> Suc m < 4"
    using i(4,6) by (auto simp: watch_stage_def min_def split: if_splits)
  moreover have "min 3 (Suc m) \<le> watch_stage jar c2" using i(4) t(4) by auto
  ultimately show ?case
    using i(1,2) t(1,2) jar_only_trans [OF i(3) t(3)] by auto
qed

section \<open>Configuration\<close>

text \<open>The watcher before the configuration file is read.\<close>

definition cookie_boot :: cookie_state where
  "cookie_boot = \<lparr>g_forced = [], g_seen_ptr = 0, g_settled = 0, g_full_logged = False, mch_log = []\<rparr>"

lemma cookie_tags: "cookie_tag C_MCH" "cookie_tag C_VDO" "cookie_tag C_SND" "cookie_tag C_CPU"
  by (simp_all add: cookie_tag_def c_const Let_def drop_bit_word_numeral take_bit_word_numeral)

text \<open>Both entry points of the configuration fit the table together, in any order and repeated.\<close>

lemma watch_ok_boot: "watch_ok cookie_boot"
  by (simp add: watch_ok_def cookie_boot_def forced_list_def)

lemma watch_ok_set:
  assumes "watch_ok c"
  shows "watch_ok (machine_cookie_set v c)" "watch_ok (machine_cookie_set_ste_hw c)"
  unfolding machine_cookie_set_def machine_cookie_set_ste_hw_def
  by (intro watch_ok_add assms cookie_tags; simp add: c_const)+

lemma ste_forced_list:
  "forced_list (machine_cookie_set_ste_hw (machine_cookie_set v cookie_boot)) =
     [(C_MCH, v), (C_VDO, 0x00010000), (C_SND, 3)]"
  by (simp add: machine_cookie_set_ste_hw_def machine_cookie_set_def forced_list_add)
    (simp add: force_add_def forced_list_def cookie_boot_def c_const)

section \<open>A jar in memory that is not folded\<close>

lemma win_cell_flat: "nm_page s = (\<lambda>_. None) \<Longrightarrow> win_cell s jar i = Anon (jar + of_nat i)"
  by (simp add: win_cell_def natmem_cell_def)

lemma jar_window_flat: "nm_page s = (\<lambda>_. None) \<Longrightarrow> jar_window s jar"
  unfolding jar_window_def by (auto simp: inj_on_def win_cell_flat of_nat_eq_iff word_of_nat_eq_iff take_bit_nat_eq_self)

lemma jar_cells_flat:
  assumes "nm_page s = (\<lambda>_. None)" "unat jar + 8 * n < 2 ^ 32" "unat x < unat jar"
  shows "natmem_cell s x \<notin> jar_cells n s jar"
proof -
  have "x \<noteq> jar + of_nat i" if "i < 8 * n" for i
  proof -
    have "unat (jar + of_nat i) = unat jar + i"
      using assms(2) that by (subst unat_add_small) (simp_all add: unat_of_nat)
    with assms(3) show ?thesis by auto
  qed
  with assms(1) show ?thesis by (auto simp: jar_cells_def win_cell_flat natmem_cell_def)
qed

text \<open>A file mapping starts at a page of the file (the kernel refuses any other offset), so the bytes of
  a jar are bytes of their own whatever the memory configuration.\<close>

definition pages_aligned :: "'a stram_state_scheme \<Rightarrow> bool" where
  "pages_aligned s \<longleftrightarrow> (\<forall>p off. nm_page s p = Some off \<longrightarrow> 4096 dvd unat off)"

lemma page_mod: "unat (a + b) mod 4096 = (unat a + unat b) mod 4096" for a b :: u32
  using mod_mod_cancel [of 4096 "2 ^ 32" "unat a + unat b"] by (simp add: unat_word_ariths)

lemma win_cell_low:
  assumes al: "pages_aligned s" and eq: "win_cell s jar i = win_cell s jar j"
  shows "unat (jar + of_nat i) mod 4096 = unat (jar + of_nat j) mod 4096"
proof -
  have low: "unat (off + (a AND mask 17)) mod 4096 = unat a mod 4096" if "nm_page s p = Some off" for p off and a :: u32
  proof -
    have "unat off mod 4096 = 0" using al that by (simp add: pages_aligned_def)
    then have "unat (off + (a AND mask 17)) mod 4096 = unat (a AND mask 17) mod 4096"
      unfolding page_mod by (metis add_0 mod_add_left_eq)
    also have "\<dots> = unat a mod 4096" using mod_mod_cancel [of 4096 "2 ^ 17" "unat a"] by (simp add: unat_and_mask)
    finally show ?thesis .
  qed
  show ?thesis using eq low by (auto simp: win_cell_def natmem_cell_def split: option.splits) metis
qed

lemma jar_window_pages:
  assumes "pages_aligned s"
  shows "jar_window s jar"
  unfolding jar_window_def
proof (rule inj_onI)
  fix i j :: nat
  assume ij: "i \<in> {..<512}" "j \<in> {..<512}" and eq: "win_cell s jar i = win_cell s jar j"
  have "(unat jar + i) mod 4096 = (unat jar + j) mod 4096"
    using win_cell_low [OF assms eq] ij by (simp add: page_mod unat_of_nat)
  then obtain q1 q2 where "unat jar + i + 4096 * q1 = unat jar + j + 4096 * q2" using nat_mod_eq_iff by blast
  then have "i + 4096 * q1 = j + 4096 * q2" by simp
  then have "i mod 4096 = j mod 4096" by (metis mod_mult_self2)
  with ij show "i = j" by simp
qed

lemma cookie_tick_forced: "forced_list (fst (machine_cookie_tick natmem (c, s))) = forced_list c"
proof (cases "force_all (rl s COOKIE_PTR) [0..<g_nforced c] (c, s)")
  case (Pair c' s')
  then have "same_watch c c'" by (intro force_all_watch) auto
  with Pair show ?thesis by (auto simp: machine_cookie_tick_def Let_def same_watch_def forced_list_def)
qed

lemma cookie_run_forced: "forced_list (cookie_run natmem c h) = forced_list c"
  by (induction h) (simp_all add: cookie_tick_forced)

section \<open>Properties\<close>

text \<open>C12: the watcher gives the guest the configured machine. From any state of the watcher, once the
  OS has a jar of at most 64 slots with room for the forced cookies and leaves it alone, four or more
  ticks later the jar holds every forced cookie with its value and every other cookie as before, and
  no byte outside the slots of the jar has changed.\<close>

theorem machine_cookies_forced:
  assumes "jar_at s jar es cap" and "real_jar es cap" and "jar_plausible jar" and "rl s COOKIE_PTR = jar"
    and "jar_window s jar" and "\<forall>i < 4. natmem_cell s (COOKIE_PTR + of_nat i) \<notin> jar_cells (unat cap) s jar"
    and "watch_ok c" and "0 < g_nforced c"
    and "length es + g_nforced c < unat cap" and "unat cap \<le> JAR_MAX_SLOTS" and "4 \<le> n"
  shows "\<exists>c' s' es'. (machine_cookie_tick True ^^ n) (c, s) = (c', s') \<and> jar_at s' jar es' cap \<and>
    map_of es' = map_of es ++ map_of (forced_list c) \<and>
    (\<forall>x. natmem_cell s x \<notin> jar_cells (unat cap) s jar \<longrightarrow> mem_get_byte s' (Natmem x) = mem_get_byte s (Natmem x))"
proof -
  have st: "steady_jar s jar es cap" using assms(1-6) by (simp add: steady_jar_def)
  let ?f = "jar_force_all cap (forced_list c) es"
  obtain c' s' where r: "(machine_cookie_tick True ^^ n) (c, s) = (c', s')" "jar_only (unat cap) jar s s'"
    "steady_jar s' jar ?f cap"
    using cookie_ticks_steady [OF st assms(7-10), of n] assms(11) by auto
  have "map_of ?f = map_of es ++ map_of (forced_list c)"
    using map_of_force_all [of es "forced_list c" cap] assms(7,9,10) by (simp add: watch_ok_def)
  moreover have "jar_at s' jar ?f cap" using r(3) by (simp add: steady_jar_def)
  ultimately show ?thesis using r by (auto simp: jar_only_def mem_get_byte_def)
qed

text \<open>A jar with one cookie at \<open>0x1000\<close>.\<close>

definition small_jar :: "'a stram_state_scheme \<Rightarrow> 'a stram_state_scheme" where
  "small_jar s = s\<lparr>nm_page := (\<lambda>_. None), nm_anon := (\<lambda>_. 0)(0x5A2 := 0x10, 0x1000 := 0x5F, 0x1001 := 0x43,
     0x1002 := 0x50, 0x1003 := 0x55, 0x1007 := 30, 0x100F := 8)\<rparr>"

lemma rl_small_jar: "rl (small_jar s) a =
    push_bit 24 (ucast (nm_anon (small_jar s) a)) OR push_bit 16 (ucast (nm_anon (small_jar s) (a + 1))) OR
    push_bit 8 (ucast (nm_anon (small_jar s) (a + 2))) OR ucast (nm_anon (small_jar s) (a + 3))"
  by (simp add: rl_def mem_get_byte_def natmem_cell_def cell_get_def small_jar_def)

lemma small_jar_at: "jar_at (small_jar s) 0x1000 [(C_CPU, 30)] 8" "rl (small_jar s) COOKIE_PTR = 0x1000"
  unfolding jar_at_def rl_small_jar by (simp_all add: small_jar_def c_const)

lemma small_jar_flat: "nm_page (small_jar s) = (\<lambda>_. None)"
  by (simp add: small_jar_def)

lemma small_jar_real: "real_jar [(C_CPU, 30)] 8" "jar_plausible 0x1000"
  by (simp add: real_jar_def os_cookie_in_def cookie_tags JAR_MAX_SLOTS_def) (simp add: jar_plausible_def c_const)

lemma small_jar_ptr: "\<forall>i < 4. natmem_cell (small_jar s) (COOKIE_PTR + of_nat i) \<notin> jar_cells (unat (8 :: u32)) (small_jar s) 0x1000"
proof (intro allI impI jar_cells_flat small_jar_flat)
  fix i :: nat assume "i < 4"
  then have "unat (COOKIE_PTR + of_nat i) = 0x5A0 + i" by (subst unat_add_small) (simp_all add: unat_of_nat c_const)
  with \<open>i < 4\<close> show "unat (COOKIE_PTR + of_nat i) < unat (0x1000 :: u32)" by simp
qed simp

lemma small_jar_steady: "steady_jar (small_jar s) 0x1000 [(C_CPU, 30)] 8"
  unfolding steady_jar_def
  using small_jar_at small_jar_real jar_window_flat [OF small_jar_flat] small_jar_ptr by blast

lemma cookie_run_steady:
  assumes j: "steady_jar s jar es cap" and ok: "watch_ok c" and n: "0 < g_nforced c"
  shows "min 3 m \<le> watch_stage jar (cookie_run True c (replicate m s)) \<and>
    forced_list (cookie_run True c (replicate m s)) = forced_list c \<and>
    watch_ok (cookie_run True c (replicate m s)) \<and> 0 < g_nforced (cookie_run True c (replicate m s))"
proof (induction m)
  case 0
  then show ?case using ok n by simp
next
  case (Suc m)
  let ?d = "cookie_run True c (replicate m s)"
  obtain c' s' where t: "machine_cookie_tick True (?d, s) = (c', s')" "forced_list c' = forced_list ?d"
    "watch_stage jar c' = min 3 (watch_stage jar ?d + 1)"
    using cookie_tick_steady [OF j, of ?d] Suc.IH by blast
  have "g_nforced c' = g_nforced ?d" using t(2) by (metis length_forced_list)
  with t Suc.IH show ?case by (auto simp: watch_ok_def)
qed

theorem machine_cookies_forced_witness:
  "\<forall>s :: stram_state. \<exists>c' s' es'.
     (machine_cookie_tick True ^^ 4) (machine_cookie_set_ste_hw (machine_cookie_set 0x00010000 cookie_boot), small_jar s) =
       (c', s') \<and> jar_at s' 0x1000 es' 8 \<and>
     map_of es' = [C_CPU \<mapsto> 30, C_MCH \<mapsto> 0x00010000, C_VDO \<mapsto> 0x00010000, C_SND \<mapsto> 3]"
proof
  fix s :: stram_state
  let ?c = "machine_cookie_set_ste_hw (machine_cookie_set 0x00010000 cookie_boot)"
  have n: "g_nforced ?c = 3" by (metis ste_forced_list length_forced_list length_Cons list.size(3) numeral_3_eq_3)
  have "map_of [(C_CPU, 30)] ++ map_of (forced_list ?c) =
      [C_CPU \<mapsto> 30, C_MCH \<mapsto> 0x00010000, C_VDO \<mapsto> 0x00010000, C_SND \<mapsto> 3]"
    by (rule ext) (simp add: ste_forced_list c_const map_add_def)
  with machine_cookies_forced [OF small_jar_at(1) small_jar_real small_jar_at(2) jar_window_flat [OF small_jar_flat] small_jar_ptr
      watch_ok_set(2) [OF watch_ok_set(1) [OF watch_ok_boot]], where n = 4, of "0x00010000" s] n
  show "\<exists>c' s' es'. (machine_cookie_tick True ^^ 4) (?c, small_jar s) = (c', s') \<and> jar_at s' 0x1000 es' 8 \<and>
     map_of es' = [C_CPU \<mapsto> 30, C_MCH \<mapsto> 0x00010000, C_VDO \<mapsto> 0x00010000, C_SND \<mapsto> 3]"
    by (simp add: c_const) blast
qed

text \<open>C24: the watcher never touches memory that is not a cookie jar. Whatever the guest does to its
  memory between the looks, a tick changes memory only if the pointer at \<open>$5A0\<close> was the same at the
  four last looks and what it points to was a real jar at the three last ones, and the bytes it
  changes lie in the slots of that jar: in its first \<open>cap\<close> ones, where \<open>cap\<close> is the size the jar
  records at its end.\<close>

theorem machine_cookie_tick_safe:
  assumes "machine_cookie_tick natmem (cookie_run natmem c h, s) = (c', s')" and "s' \<noteq> s"
    and "g_seen_ptr c = 0" and "g_settled c = 0" and "watch_ok c" and "pages_aligned s"
  shows "\<exists>p es cap. unat p + 512 < 0x400000 \<and> 2 < length h \<and>
    rl s COOKIE_PTR = p \<and> (\<forall>i < 3. rl (h ! i) COOKIE_PTR = p) \<and>
    jar_at s p es cap \<and> real_jar es cap \<and> (\<forall>i < 2. real_jar_at (h ! i) p) \<and>
    (\<forall>x. mem_get_byte s' (Natmem x) \<noteq> mem_get_byte s (Natmem x) \<longrightarrow> natmem_cell s x \<in> jar_cells (unat cap) s p)"
proof -
  have "machine_cookie_tick natmem (cookie_run natmem c h, s) = (c, s)" if "\<not> natmem \<or> g_nforced c = 0"
    using cookie_run_idle [OF that, of h] cookie_idle [OF that, of s] by simp
  with assms(1,2) have act: "natmem" "0 < g_nforced c" by auto
  let ?d = "cookie_run True c h"
  note w = cookie_tick_writes [OF assms(1,2)]
  have lk: "looked (g_seen_ptr ?d) 2 h"
    using cookie_run_looked [OF assms(3,4) act(2), of h] w(4) act(1) looked_le by fastforce
  obtain es cap where j: "jar_at s (g_seen_ptr ?d) es cap" "real_jar es cap"
    using w(3) act(1) by (auto simp: real_jar_at_def)
  have "0 \<notin> fst ` set (forced_list ?d)"
    using assms(5) by (auto simp: cookie_run_forced watch_ok_def list_all_iff)
  then have "jar_only (unat cap) (g_seen_ptr ?d) s s'"
    using cookie_tick_slots [OF assms(1,2)] act(1) j jar_window_pages [OF assms(6)] by simp
  then show ?thesis
    using w act(1) jar_plausible_room [OF w(2)] lk j
    by (intro exI [of _ "g_seen_ptr ?d"] exI [of _ es] exI [of _ cap]) (auto simp: looked_def jar_only_def mem_get_byte_def)
qed

theorem machine_cookie_tick_safe_witness:
  "\<forall>s :: stram_state. \<exists>c' s' p es cap. machine_cookie_tick True
      (cookie_run True (machine_cookie_set 0x00010000 cookie_boot) [small_jar s, small_jar s, small_jar s], small_jar s) =
      (c', s') \<and> s' \<noteq> small_jar s \<and> rl (small_jar s) COOKIE_PTR = p \<and> jar_at (small_jar s) p es cap \<and>
      (\<forall>x. mem_get_byte s' (Natmem x) \<noteq> mem_get_byte (small_jar s) (Natmem x) \<longrightarrow>
        natmem_cell (small_jar s) x \<in> jar_cells (unat cap) (small_jar s) p)"
proof
  fix s :: stram_state
  let ?c = "machine_cookie_set 0x00010000 cookie_boot"
  let ?d = "cookie_run True ?c [small_jar s, small_jar s, small_jar s]"
  have f: "forced_list ?c = [(C_MCH, 0x00010000)]"
    by (simp add: machine_cookie_set_def force_add_def forced_list_def cookie_boot_def c_const)
  then have n: "0 < g_nforced ?c" by (metis length_forced_list length_greater_0_conv list.discI)
  have d: "3 \<le> watch_stage 0x1000 ?d" "forced_list ?d = forced_list ?c" "watch_ok ?d" "0 < g_nforced ?d"
    using cookie_run_steady [OF small_jar_steady watch_ok_set(1) [OF watch_ok_boot] n, of 3 s]
    by (simp_all add: eval_nat_numeral)
  obtain c' s' where t: "machine_cookie_tick True (?d, small_jar s) = (c', s')"
    "jar_at s' 0x1000 (if watch_stage 0x1000 ?d = 3 then jar_force_all 8 (forced_list ?d) [(C_CPU, 30)]
      else [(C_CPU, 30)]) 8"
    using cookie_tick_steady [OF small_jar_steady d(3,4)] by metis
  have "watch_stage 0x1000 ?d = 3" using d(1) by (simp add: watch_stage_def split: if_splits)
  with t(2) d(2) f have "rl s' 0x1008 = C_MCH"
    by (simp add: jar_force_def jar_at_def c_const less_Suc_eq)
  then have "s' \<noteq> small_jar s" using small_jar_at(1) [of s] by (auto simp: jar_at_def c_const)
  moreover have "g_seen_ptr ?c = 0" "g_settled ?c = 0"
    by (simp_all add: machine_cookie_set_def force_add_def cookie_boot_def)
  moreover have "pages_aligned (small_jar s)" by (simp add: pages_aligned_def small_jar_flat)
  ultimately show "\<exists>c' s' p es cap. machine_cookie_tick True (?d, small_jar s) = (c', s') \<and> s' \<noteq> small_jar s \<and>
      rl (small_jar s) COOKIE_PTR = p \<and> jar_at (small_jar s) p es cap \<and>
      (\<forall>x. mem_get_byte s' (Natmem x) \<noteq> mem_get_byte (small_jar s) (Natmem x) \<longrightarrow>
        natmem_cell (small_jar s) x \<in> jar_cells (unat cap) (small_jar s) p)"
    using machine_cookie_tick_safe [OF t(1) _ _ _ watch_ok_set(1) [OF watch_ok_boot]] t(1) by blast
qed

text \<open>A jar of more than 64 slots counts as real but is never extended: its cookies are reported as not
  fitting however much room there is.\<close>

lemma big_jar_not_extended:
  assumes "jar_at s jar es cap" "length es < 64" "fc_tag (g_forced c ! k) \<notin> fst ` set es" "64 < unat cap"
  shows "\<exists>c'. force_one jar k (c, s) = (False, c', s)"
  using assms force_walk_jar [OF assms(1,2), of "fc_tag (g_forced c ! k)"]
  by (auto simp: force_one_def Let_def tag_pos_missing jar_at_def word_le_nat_alt c_const)

end
