(* ===== verification/Disk_Order.thy ===== *)
theory Disk_Order
  imports Prelude
begin

text \<open>
  The byte order of hard-disk images (\<open>platforms/atari/disk_order.c\<close>): sector 0 is scored as it lies
  in the file and with the bytes of every word swapped, and the better reading wins. A file is the
  list of its bytes; the reasons printed in the log are left out.
\<close>

section \<open>Modes\<close>

definition DISK_ORDER_AUTO :: int where [c_const]: "DISK_ORDER_AUTO = 0"
definition DISK_ORDER_NATIVE :: int where [c_const]: "DISK_ORDER_NATIVE = 1"
definition DISK_ORDER_SWAPPED :: int where [c_const]: "DISK_ORDER_SWAPPED = 2"
definition DISK_ORDER_BOOTSWAP :: int where [c_const]: "DISK_ORDER_BOOTSWAP = 3"

record disk_modes =
  hdd_mode :: "int list"
  acsi_mode :: "int list"

definition disk_order_set_hdd :: "int \<Rightarrow> int \<Rightarrow> disk_modes \<Rightarrow> disk_modes" where
  "disk_order_set_hdd i m d = (if i \<ge> 0 \<and> i < 8 then d\<lparr>hdd_mode := (hdd_mode d)[nat i := m]\<rparr> else d)"

definition disk_order_set_acsi :: "int \<Rightarrow> int \<Rightarrow> disk_modes \<Rightarrow> disk_modes" where
  "disk_order_set_acsi i m d = (if i \<ge> 0 \<and> i < 8 then d\<lparr>acsi_mode := (acsi_mode d)[nat i := m]\<rparr> else d)"

definition disk_order_get_hdd :: "int \<Rightarrow> disk_modes \<Rightarrow> int" where
  "disk_order_get_hdd i d = (if i \<ge> 0 \<and> i < 8 then hdd_mode d ! nat i else 0)"

definition disk_order_get_acsi :: "int \<Rightarrow> disk_modes \<Rightarrow> int" where
  "disk_order_get_acsi i d = (if i \<ge> 0 \<and> i < 8 then acsi_mode d ! nat i else 0)"

text \<open>\<open>strncasecmp(s, word, strlen(word)) == 0\<close>: ASCII letters compare without case.\<close>

definition lower :: "char \<Rightarrow> char" where
  "lower c = (let n = of_char c :: nat in if 65 \<le> n \<and> n \<le> 90 then char_of (n + 32) else c)"

definition starts_with :: "string \<Rightarrow> string \<Rightarrow> bool" where
  "starts_with s word \<longleftrightarrow> map lower (take (length word) s) = word"

definition disk_order_parse_mode :: "string \<Rightarrow> int" where
  "disk_order_parse_mode s0 =
     (let s = dropWhile (\<lambda>c. c = CHR '' '' \<or> c = CHR 0x09) s0 in
      if starts_with s ''auto'' then DISK_ORDER_AUTO
      else if starts_with s ''native'' then DISK_ORDER_NATIVE
      else if starts_with s ''swapped'' then DISK_ORDER_SWAPPED
      else if starts_with s ''bootswap'' then DISK_ORDER_BOOTSWAP
      else - 1)"

definition disk_order_mode_name :: "int \<Rightarrow> string" where
  "disk_order_mode_name m =
     (if m = DISK_ORDER_NATIVE then ''native'' else if m = DISK_ORDER_SWAPPED then ''swapped''
      else if m = DISK_ORDER_BOOTSWAP then ''bootswap'' else ''auto'')"

section \<open>Scoring a sector\<close>

fun disk_swap512 :: "u8 list \<Rightarrow> u8 list" where
  "disk_swap512 (a # b # s) = b # a # disk_swap512 s"
| "disk_swap512 s = s"

text \<open>The partition identifiers \<open>GEM\<close>, \<open>BGM\<close>, \<open>XGM\<close>, \<open>RAW\<close>, \<open>LNX\<close>, \<open>MIX\<close>, \<open>BSD\<close>, \<open>UNX\<close>, \<open>F32\<close>, \<open>MAC\<close>,
  \<open>SWP\<close> and \<open>QWA\<close>, and the DOS types.\<close>

definition ahdi_ids :: "u8 list list" where
  "ahdi_ids = [[0x47, 0x45, 0x4D], [0x42, 0x47, 0x4D], [0x58, 0x47, 0x4D], [0x52, 0x41, 0x57], [0x4C, 0x4E, 0x58],
     [0x4D, 0x49, 0x58], [0x42, 0x53, 0x44], [0x55, 0x4E, 0x58], [0x46, 0x33, 0x32], [0x4D, 0x41, 0x43],
     [0x53, 0x57, 0x50], [0x51, 0x57, 0x41]]"

definition dos_types :: "u8 list" where
  "dos_types = [0x01, 0x04, 0x06, 0x0B, 0x0C, 0x0E, 0x82, 0x83, 0xA3]"

definition mbr_signed :: "u8 list \<Rightarrow> bool" where
  "mbr_signed s \<longleftrightarrow> s ! 510 = 0x55 \<and> s ! 511 = 0xAA"

definition ahdi_entry :: "u8 list \<Rightarrow> nat \<Rightarrow> bool" where
  "ahdi_entry s i \<longleftrightarrow>
     (let e = 0x1C6 + 12 * i in s ! e AND 1 \<noteq> 0 \<and> take 3 (drop (e + 1) s) \<in> set ahdi_ids)"

definition dos_entry :: "u8 list \<Rightarrow> nat \<Rightarrow> bool" where
  "dos_entry s i \<longleftrightarrow>
     (let e = 0x1BE + 16 * i in (s ! e = 0x00 \<or> s ! e = 0x80) \<and> s ! (e + 4) \<in> set dos_types)"

definition fat_bpb :: "u8 list \<Rightarrow> bool" where
  "fat_bpb s \<longleftrightarrow>
     (let bps = ucast (s ! 11) OR push_bit 8 (ucast (s ! 12)) :: u32; spc = s ! 13
      in bps \<in> {512, 1024, 2048, 4096, 8192, 16384} \<and> spc \<noteq> 0 \<and> spc AND (spc - 1) = 0)"

definition boot_bra :: "u8 list \<Rightarrow> bool" where
  "boot_bra s \<longleftrightarrow> s ! 0 = 0x60 \<and> s ! 1 \<noteq> 0 \<and> s ! 1 AND 1 = 0"

definition score :: "u8 list \<Rightarrow> nat" where
  "score s =
     (let sig = mbr_signed s;
          ahdi = length (filter (ahdi_entry s) [0..<4]);
          dos = (if sig then length (filter (dos_entry s) [0..<4]) else 0)
      in (if sig then 3 else 0) + 2 * ahdi + dos + (if fat_bpb s then 1 else 0) + (if boot_bra s then 1 else 0))"

text \<open>\<open>pread\<close> of sector 0 fails on a file of less than a sector.\<close>

definition disk_order_detect :: "u8 list \<Rightarrow> int" where
  "disk_order_detect file =
     (if length file < 512 then - 1
      else
        (let raw = take 512 file; sw = disk_swap512 raw; a = score raw; b = score sw in
         if b \<ge> 3 \<and> b > a then 1
         else if a \<ge> 3 \<and> a > b then (if boot_bra sw \<and> \<not> boot_bra raw then 2 else 0)
         else - 1))"

definition disk_order_resolve :: "u8 list \<Rightarrow> int \<Rightarrow> int" where
  "disk_order_resolve file mode =
     (if mode \<noteq> DISK_ORDER_AUTO
      then (if mode = DISK_ORDER_SWAPPED then 1 else if mode = DISK_ORDER_BOOTSWAP then 2 else 0)
      else (let r = disk_order_detect file in if r < 0 then 0 else r))"

section \<open>Swapping\<close>

lemma length_disk_swap512 [simp]: "length (disk_swap512 s) = length s"
  by (induction s rule: disk_swap512.induct) simp_all

lemma disk_swap512_twice [simp]: "disk_swap512 (disk_swap512 s) = s"
  by (induction s rule: disk_swap512.induct) simp_all

lemma disk_swap512_append: "even (length s) \<Longrightarrow> disk_swap512 (s @ t) = disk_swap512 s @ disk_swap512 t"
  by (induction s rule: disk_swap512.induct) simp_all

lemma take_disk_swap512: "even n \<Longrightarrow> take n (disk_swap512 s) = disk_swap512 (take n s)"
proof (induction s arbitrary: n rule: disk_swap512.induct)
  case (1 a b s)
  show ?case
  proof (cases n)
    case (Suc k)
    then obtain m where "k = Suc m" using "1.prems" by (cases k) auto
    with Suc "1.prems" "1.IH" [of m] show ?thesis by simp
  qed simp
next
  case "2_2"
  then show ?case by (cases n) (auto simp: take_Cons')
qed simp

lemma drop_disk_swap512: "even n \<Longrightarrow> drop n (disk_swap512 s) = disk_swap512 (drop n s)"
proof (induction s arbitrary: n rule: disk_swap512.induct)
  case (1 a b s)
  show ?case
  proof (cases n)
    case (Suc k)
    then obtain m where "k = Suc m" using "1.prems" by (cases k) auto
    with Suc "1.prems" "1.IH" [of m] show ?thesis by simp
  qed simp
next
  case "2_2"
  then show ?case by (cases n) (auto simp: drop_Cons')
qed simp

section \<open>Detection and the swapped twin\<close>

text \<open>Sector 0 decides for an image exactly when it decides for its byte-swapped twin; one of the two is
  found swapped, and it is the one whose sector 0 scores lower as it is stored.\<close>

lemma disk_order_detect_twin:
  assumes "disk_order_detect file \<noteq> - 1"
  shows "disk_order_detect (disk_swap512 file) = 1 \<longleftrightarrow> disk_order_detect file \<noteq> 1"
    "disk_order_detect (disk_swap512 file) \<noteq> - 1" "512 \<le> length file"
    "disk_order_detect file = 1 \<Longrightarrow> score (take 512 file) < score (disk_swap512 (take 512 file))"
    "disk_order_detect file \<noteq> 1 \<Longrightarrow> score (disk_swap512 (take 512 file)) < score (take 512 file)"
proof -
  have l: "\<not> length file < 512" using assms by (auto simp: disk_order_detect_def)
  let ?r = "take 512 file"
  have s: "take 512 (disk_swap512 file) = disk_swap512 ?r" by (simp add: take_disk_swap512)
  note d = disk_order_detect_def [of "file"] disk_order_detect_def [of "disk_swap512 file"]
  consider (swapped) "3 \<le> score (disk_swap512 ?r)" "score ?r < score (disk_swap512 ?r)"
    | (native) "3 \<le> score ?r" "score (disk_swap512 ?r) < score ?r"
    using assms l by (auto simp: disk_order_detect_def Let_def split: if_splits)
  note cases = this
  show "disk_order_detect (disk_swap512 file) = 1 \<longleftrightarrow> disk_order_detect file \<noteq> 1"
    "disk_order_detect (disk_swap512 file) \<noteq> - 1"
    using cases l by (cases; auto simp: d Let_def s)+
  show "512 \<le> length file" using l by simp
  show "disk_order_detect file = 1 \<Longrightarrow> score ?r < score (disk_swap512 ?r)"
    "disk_order_detect file \<noteq> 1 \<Longrightarrow> score (disk_swap512 ?r) < score ?r"
    using cases l by (cases; auto simp: d Let_def s split: if_splits)+
qed

text \<open>A DOS boot record with one FAT16 partition.\<close>

definition mbr_image :: "u8 list" where
  "mbr_image = replicate 450 0 @ [0x06] @ replicate 59 0 @ [0x55, 0xAA]"

lemma mbr_image_native: "disk_order_detect mbr_image = 0"
  by code_simp

lemma parse_mode_name:
  "m \<in> {0, 1, 2, 3} \<Longrightarrow> disk_order_parse_mode (disk_order_mode_name m) = m"
  by (auto simp: disk_order_mode_name_def disk_order_parse_mode_def starts_with_def lower_def c_const Let_def)

end
