(* ===== verification/Acsi.thy ===== *)
theory Acsi
  imports Dma_Snoop Disk_Order
begin

text \<open>
  Emulated hard disks on the DMA port (\<open>platforms/atari/fdd/acsi.c\<close>) with the services of the DMA chip
  they use (\<open>atari_fdd.c\<close>): images attached as targets, the byte-wise command handshake, the commands,
  the FIFO of the DMA chip and the status. An image is the list of the bytes of its file; whether the
  host completes a transfer is an argument. Log lines are left out.
\<close>

section \<open>State\<close>

definition ACSI_MAX_TARGETS :: nat where [c_const]: "ACSI_MAX_TARGETS = 8"
definition DMA_STATUS_OK :: u32 where [c_const]: "DMA_STATUS_OK = 0x01"
definition SENSE_NONE :: u8 where [c_const]: "SENSE_NONE = 0x00"
definition SENSE_INVALID_OP :: u8 where [c_const]: "SENSE_INVALID_OP = 0x20"
definition SENSE_INVALID_LBA :: u8 where [c_const]: "SENSE_INVALID_LBA = 0x21"
definition SENSE_INVALID_CDB :: u8 where [c_const]: "SENSE_INVALID_CDB = 0x24"
definition SENSE_INVALID_LUN :: u8 where [c_const]: "SENSE_INVALID_LUN = 0x25"

record acsi_target =
  t_fd :: int
  t_path :: string
  t_hfs :: bool
  t_total_lba :: u32
  t_root :: "u8 list"
  t_sense :: u8
  t_sense_lba :: u32
  t_probed :: bool
  t_swapped :: bool

datatype acsi_phase = PH_IDLE | PH_CDB | PH_STATUS

text \<open>\<open>dma_fifo\<close> holds the \<open>dma_fifo_n\<close> bytes that wait in the chip; \<open>dma_addr\<close> and \<open>dma_status\<close> are the
  registers of the chip (\<open>fdc.dma_addr\<close>, \<open>fdc.dma_status\<close>); \<open>acsi_files\<close> are the files behind the
  descriptors.\<close>

record acsi_state =
  tgt :: "acsi_target list"
  n_targets :: nat
  phase :: acsi_phase
  cur_id :: int
  cdb :: "u8 list"
  cdb_len :: nat
  cdb_got :: nat
  icd :: bool
  status_byte :: u8
  irq :: bool
  owns :: bool
  status_valid :: bool
  residual :: u16
  dma_fifo :: "u8 list"
  dma_addr :: u32
  dma_status :: u32
  acsi_files :: "int \<Rightarrow> u8 list"

record disk_io =
  io_open :: "string \<Rightarrow> int option"
  io_stat_ok :: "int \<Rightarrow> bool"
  io_read_ok :: "int \<Rightarrow> nat \<Rightarrow> bool"
  io_write_ok :: "int \<Rightarrow> nat \<Rightarrow> bool"

type_synonym 'a acsi_world = "acsi_state \<times> 'a smc_state_scheme"

section \<open>The DMA chip\<close>

definition dma_copy_to_ram :: "bus_env \<Rightarrow> u32 \<Rightarrow> u8 list \<Rightarrow> 'a smc_state_scheme \<Rightarrow> 'a smc_state_scheme" where
  "dma_copy_to_ram env addr buf s =
     pistorm_dma_to_stram addr buf (bus_put env addr (take (0x400000 - unat addr) buf) s)"

text \<open>The buffer keeps its old bytes when the range is not RAM.\<close>

definition dma_copy_from_ram :: "u32 \<Rightarrow> u8 list \<Rightarrow> nat \<Rightarrow> 'a smc_state_scheme \<Rightarrow> u8 list" where
  "dma_copy_from_ram addr old n s =
     (case pistorm_dma_from_stram addr (of_nat n) s of Some bs \<Rightarrow> bs | None \<Rightarrow> old)"

definition fdd_dma_base_advance :: "u32 \<Rightarrow> acsi_state \<Rightarrow> acsi_state" where
  "fdd_dma_base_advance n a = a\<lparr>dma_addr := dma_addr a + n\<rparr>"

definition fdd_dma_note_ok :: "bool \<Rightarrow> acsi_state \<Rightarrow> acsi_state" where
  "fdd_dma_note_ok count_zero a = a\<lparr>dma_status := DMA_STATUS_OK OR (if count_zero then DMA_STATUS_SCZERO else 0)\<rparr>"

definition acsi_dma_fifo_reset :: "acsi_state \<Rightarrow> acsi_state" where
  "acsi_dma_fifo_reset a = a\<lparr>dma_fifo := []\<rparr>"

text \<open>One burst to RAM, and the loop of \<open>dma_out\<close>.\<close>

definition dma_burst :: "bus_env \<Rightarrow> u8 list \<Rightarrow> 'a acsi_world \<Rightarrow> 'a acsi_world" where
  "dma_burst env bs w =
     (let (a, s) = w in (fdd_dma_base_advance (of_nat (length bs)) a, dma_copy_to_ram env (dma_addr a) bs s))"

function dma_out :: "bus_env \<Rightarrow> u8 list \<Rightarrow> 'a acsi_world \<Rightarrow> 'a acsi_world" where
  "dma_out env buf (a, s) =
     (if buf = [] then (a, s)
      else if dma_fifo a = [] \<and> length buf \<ge> 16 then
        (let n = length buf - length buf mod 16 in dma_out env (drop n buf) (dma_burst env (take n buf) (a, s)))
      else
        (let a1 = a\<lparr>dma_fifo := dma_fifo a @ [hd buf]\<rparr>;
             (a2, s2) = (if length (dma_fifo a1) = 16
                         then (let (a', s') = dma_burst env (dma_fifo a1) (a1, s) in (a'\<lparr>dma_fifo := []\<rparr>, s'))
                         else (a1, s))
         in dma_out env (tl buf) (a2, s2)))"
  by pat_completeness auto
termination
  by (relation "measure (\<lambda>(env, buf, w). length buf)")
    (auto simp: le_less_trans [OF mod_less_eq_dividend] intro: le_trans [of 16] less_le_trans [OF mod_less_divisor])

declare dma_out.simps [simp del]

definition dma_in :: "u8 list \<Rightarrow> nat \<Rightarrow> 'a acsi_world \<Rightarrow> u8 list \<times> 'a acsi_world" where
  "dma_in old n w =
     (let (a, s) = w in
      if n = 0 then (old, w) else (dma_copy_from_ram (dma_addr a) old n s, fdd_dma_base_advance (of_nat n) a, s))"

section \<open>Images\<close>

definition be32_bytes :: "u32 \<Rightarrow> u8 list" where
  "be32_bytes v = [ucast (drop_bit 24 v), ucast (drop_bit 16 v), ucast (drop_bit 8 v), ucast v]"

text \<open>An AHDI root sector with one partition of type \<open>MAC\<close>.\<close>

definition synth_root :: "u32 \<Rightarrow> u8 list" where
  "synth_root hfs_sectors =
     replicate 0x1C2 0 @ be32_bytes (hfs_sectors + 1) @ [0x01, 0x4D, 0x41, 0x43, 0, 0, 0, 1] @ be32_bytes hfs_sectors @
     replicate 0x2E 0"

text \<open>\<open>pread\<close> and \<open>pwrite\<close> of a sector; a short transfer is a failure.\<close>

definition sector_read :: "disk_io \<Rightarrow> int \<Rightarrow> nat \<Rightarrow> acsi_state \<Rightarrow> u8 list option" where
  "sector_read io fd off a =
     (if io_read_ok io fd off \<and> off + 512 \<le> length (acsi_files a fd) then Some (take 512 (drop off (acsi_files a fd)))
      else None)"

definition file_patch :: "nat \<Rightarrow> u8 list \<Rightarrow> u8 list \<Rightarrow> u8 list" where
  "file_patch off bs f = take off (f @ replicate (off - length f) 0) @ bs @ drop (off + length bs) f"

definition sector_write :: "disk_io \<Rightarrow> int \<Rightarrow> nat \<Rightarrow> u8 list \<Rightarrow> acsi_state \<Rightarrow> bool \<times> acsi_state" where
  "sector_write io fd off bs a =
     (if io_write_ok io fd off
      then (True, a\<lparr>acsi_files := (acsi_files a)(fd := file_patch off bs (acsi_files a fd))\<rparr>)
      else (False, a))"

definition read_lba :: "disk_io \<Rightarrow> acsi_target \<Rightarrow> u32 \<Rightarrow> acsi_state \<Rightarrow> u8 list option" where
  "read_lba io t lba a =
     (if t_hfs t
      then (if lba = 0 then Some (t_root t) else sector_read io (t_fd t) (unat (lba - 1) * 512) a)
      else
        (case sector_read io (t_fd t) (unat lba * 512) a of
           None \<Rightarrow> None
         | Some buf \<Rightarrow> Some (if t_swapped t then disk_swap512 buf else buf)))"

definition write_lba :: "disk_io \<Rightarrow> acsi_target \<Rightarrow> u32 \<Rightarrow> u8 list \<Rightarrow> acsi_state \<Rightarrow> bool \<times> acsi_state" where
  "write_lba io t lba buf a =
     (if t_hfs t
      then (if lba = 0 then (True, a) else sector_write io (t_fd t) (unat (lba - 1) * 512) buf a)
      else if t_swapped t then sector_write io (t_fd t) (unat lba * 512) (disk_swap512 buf) a
      else sector_write io (t_fd t) (unat lba * 512) buf a)"

definition acsi_release :: "acsi_state \<Rightarrow> acsi_state" where
  "acsi_release a = a\<lparr>owns := False, irq := False, phase := PH_IDLE\<rparr>"

text \<open>The suffix from the last dot, without case, is \<open>.hfs\<close>.\<close>

definition hfs_suffix :: "string \<Rightarrow> bool" where
  "hfs_suffix path \<longleftrightarrow>
     CHR ''.'' \<in> set path \<and> map lower (rev (takeWhile (\<lambda>c. c \<noteq> CHR ''.'') (rev path))) = ''hfs''"

definition free_id :: "acsi_state \<Rightarrow> nat" where
  "free_id a = length (takeWhile (\<lambda>t. t_fd t \<ge> 0) (take ACSI_MAX_TARGETS (tgt a)))"

definition acsi_attach_at :: "disk_io \<Rightarrow> disk_modes \<Rightarrow> int \<Rightarrow> string \<Rightarrow> acsi_state \<Rightarrow> int \<times> acsi_state" where
  "acsi_attach_at io modes id0 path a =
     (let i = (if id0 < 0 then free_id a else nat id0) in
      if i \<ge> ACSI_MAX_TARGETS then (- 1, a)
      else if t_fd (tgt a ! i) \<ge> 0 then (- 1, a)
      else case io_open io path of None \<Rightarrow> (- 1, a)
      | Some fd \<Rightarrow>
          if \<not> io_stat_ok io fd \<or> length (acsi_files a fd) < 512 then (- 1, a)
          else
            (let t = tgt a ! i;
                 is_hfs = hfs_suffix path;
                 sectors = of_nat (length (acsi_files a fd) div 512);
                 t1 = t\<lparr>t_fd := fd, t_path := take 255 path, t_hfs := is_hfs, t_swapped := False, t_sense := 0\<rparr>;
                 t2 = (if is_hfs then t1\<lparr>t_total_lba := sectors + 1, t_root := synth_root sectors\<rparr>
                       else t1\<lparr>t_total_lba := sectors,
                               t_swapped := (disk_order_resolve (acsi_files a fd) (disk_order_get_acsi (int i) modes) = 1)\<rparr>)
             in (int i, a\<lparr>tgt := (tgt a)[i := t2], n_targets := n_targets a + 1\<rparr>)))"

text \<open>\<open>3:disk.img\<close> or \<open>3 disk.img\<close> pins the target.\<close>

definition acsi_attach :: "disk_io \<Rightarrow> disk_modes \<Rightarrow> string \<Rightarrow> acsi_state \<Rightarrow> int \<times> acsi_state" where
  "acsi_attach io modes path a =
     (case path of
        c # d # rest \<Rightarrow>
          if c \<in> set ''01234567'' then
            (if d \<in> {CHR '':'', CHR '' '', CHR 0x09}
             then acsi_attach_at io modes (int (of_char c) - 48) (dropWhile (\<lambda>x. x \<in> {CHR '' '', CHR 0x09}) rest) a
             else acsi_attach_at io modes (- 1) path a)
          else acsi_attach_at io modes (- 1) path a
      | _ \<Rightarrow> acsi_attach_at io modes (- 1) path a)"

section \<open>Completion\<close>

definition upd_target :: "(acsi_target \<Rightarrow> acsi_target) \<Rightarrow> acsi_state \<Rightarrow> acsi_state" where
  "upd_target f a = a\<lparr>tgt := (tgt a)[nat (cur_id a) := f (tgt a ! nat (cur_id a))]\<rparr>"

definition cur_target :: "acsi_state \<Rightarrow> acsi_target" where
  "cur_target a = tgt a ! nat (cur_id a)"

definition finish :: "u8 \<Rightarrow> u8 \<Rightarrow> u32 \<Rightarrow> acsi_state \<Rightarrow> acsi_state" where
  "finish st sns lba a =
     (let a1 = upd_target (\<lambda>t. t\<lparr>t_sense := sns, t_sense_lba := lba\<rparr>) (a\<lparr>status_byte := st\<rparr>)
      in fdd_dma_note_ok (residual a1 = 0) (a1\<lparr>phase := PH_STATUS, status_valid := True, irq := True\<rparr>))"

definition finish_good :: "acsi_state \<Rightarrow> acsi_state" where
  "finish_good = finish 0x00 SENSE_NONE 0"

definition finish_check :: "u8 \<Rightarrow> u32 \<Rightarrow> acsi_state \<Rightarrow> acsi_state" where
  "finish_check = finish 0x02"

section \<open>Commands\<close>

text \<open>The loop over the blocks of a read: blocks left, blocks done.\<close>

fun read_blocks :: "bus_env \<Rightarrow> disk_io \<Rightarrow> u32 \<Rightarrow> nat \<Rightarrow> u32 \<Rightarrow> 'a acsi_world \<Rightarrow> 'a acsi_world" where
  "read_blocks env io lba 0 i w = (let (a, s) = w in (finish_good (a\<lparr>residual := 0\<rparr>), s))"
| "read_blocks env io lba (Suc n) i w =
     (let (a, s) = w in
      case read_lba io (cur_target a) (lba + i) a of
        None \<Rightarrow> (finish_check SENSE_INVALID_LBA (lba + i) (a\<lparr>residual := of_nat (Suc n)\<rparr>), s)
      | Some buf \<Rightarrow> read_blocks env io lba n (i + 1) (dma_out env buf w))"

definition exec_read :: "bus_env \<Rightarrow> disk_io \<Rightarrow> u32 \<Rightarrow> u32 \<Rightarrow> 'a acsi_world \<Rightarrow> 'a acsi_world" where
  "exec_read env io lba blocks w =
     (let (a, s) = w in
      if lba + blocks > t_total_lba (cur_target a) \<or> lba + blocks < lba
      then (finish_check SENSE_INVALID_LBA lba a, s)
      else read_blocks env io lba (unat blocks) 0 w)"

fun write_blocks :: "disk_io \<Rightarrow> u32 \<Rightarrow> nat \<Rightarrow> u32 \<Rightarrow> u8 list \<Rightarrow> 'a acsi_world \<Rightarrow> 'a acsi_world" where
  "write_blocks io lba 0 i buf w = (let (a, s) = w in (finish_good (a\<lparr>residual := 0\<rparr>), s))"
| "write_blocks io lba (Suc n) i buf w =
     (let (buf1, a1, s1) = dma_in buf 512 w;
          (ok, a2) = write_lba io (cur_target a1) (lba + i) buf1 a1
      in if ok then write_blocks io lba n (i + 1) buf1 (a2, s1)
         else (finish_check SENSE_INVALID_LBA (lba + i) (a2\<lparr>residual := of_nat (Suc n)\<rparr>), s1))"

text \<open>\<open>buf\<close> is the buffer on the stack.\<close>

definition exec_write :: "disk_io \<Rightarrow> u8 list \<Rightarrow> u32 \<Rightarrow> u32 \<Rightarrow> 'a acsi_world \<Rightarrow> 'a acsi_world" where
  "exec_write io buf lba blocks w =
     (let (a, s) = w in
      if lba + blocks > t_total_lba (cur_target a) \<or> lba + blocks < lba
      then (finish_check SENSE_INVALID_LBA lba a, s)
      else write_blocks io lba (unat blocks) 0 buf w)"

definition ascii :: "string \<Rightarrow> u8 list" where
  "ascii str = map of_char str"

text \<open>The end of a command that has sent its reply.\<close>

definition reply :: "bus_env \<Rightarrow> u8 list \<Rightarrow> 'a acsi_world \<Rightarrow> 'a acsi_world" where
  "reply env d w = (let (a, s) = dma_out env d w in (finish_good (a\<lparr>residual := 0\<rparr>), s))"

definition exec_inquiry :: "bus_env \<Rightarrow> nat \<Rightarrow> u8 \<Rightarrow> 'a acsi_world \<Rightarrow> 'a acsi_world" where
  "exec_inquiry env alloc pdt w =
     (let d = [pdt, 0, 0x02, 0x02, 31, 0, 0, 0] @ ascii ''PiStorm '' @
              (if t_hfs (cur_target (fst w)) then ascii ''ACSI HFS DISK   '' else ascii ''ACSI DISK       '') @
              ascii ''1.0 '' @ replicate 12 0
      in reply env (take (if alloc > 48 then 48 else alloc) d) w)"

definition exec_request_sense :: "bus_env \<Rightarrow> nat \<Rightarrow> 'a acsi_world \<Rightarrow> 'a acsi_world" where
  "exec_request_sense env alloc0 w =
     (let t = cur_target (fst w);
          alloc1 = (if alloc0 < 4 then 4 else alloc0);
          alloc = (if alloc1 > 16 then 16 else alloc1);
          d = [t_sense t, ucast (drop_bit 16 (t_sense_lba t)) AND 0x1F, ucast (drop_bit 8 (t_sense_lba t)), ucast (t_sense_lba t)] @
              replicate 12 0;
          (a1, s1) = dma_out env (take alloc d) w
      in (finish_good (upd_target (\<lambda>t. t\<lparr>t_sense := SENSE_NONE\<rparr>) a1\<lparr>residual := 0\<rparr>), s1))"

definition exec_mode_sense :: "bus_env \<Rightarrow> u8 \<Rightarrow> nat \<Rightarrow> 'a acsi_world \<Rightarrow> 'a acsi_world" where
  "exec_mode_sense env page alloc w =
     (let blocks = t_total_lba (cur_target (fst w));
          cyl = (let c = blocks div 512 in if c = 0 then 1 else c);
          trim = (\<lambda>d. if alloc \<noteq> 0 \<and> alloc < length d then take alloc d else d)
      in if page = 0x00
         then reply env (trim [0, 0, 0, 8, 0, ucast (drop_bit 16 blocks), ucast (drop_bit 8 blocks), ucast blocks, 0, 0, 2, 0]) w
         else if page = 0x04
         then reply env (trim ([22, 0, 0, 0, 0x04, 0x12, ucast (drop_bit 16 cyl), ucast (drop_bit 8 cyl), ucast cyl, 16] @
                               replicate 14 0)) w
         else (finish_check SENSE_INVALID_CDB 0 (fst w), snd w))"

text \<open>\<open>MODE SELECT\<close>: the parameter list is fetched and dropped, 512 bytes at a time.\<close>

function mode_select_in :: "nat \<Rightarrow> acsi_state \<Rightarrow> acsi_state" where
  "mode_select_in n a =
     (if n = 0 then a
      else (let chunk = (if n > 512 then 512 else n) in mode_select_in (n - chunk) (fdd_dma_base_advance (of_nat chunk) a)))"
  by pat_completeness auto
termination
  by (relation "measure fst") auto

declare mode_select_in.simps [simp del]

definition cmd_byte :: "acsi_state \<Rightarrow> nat \<Rightarrow> u8" where
  "cmd_byte a i = cdb a ! (if icd a then i + 1 else i)"

definition be_cdb :: "acsi_state \<Rightarrow> nat list \<Rightarrow> u32" where
  "be_cdb a is = foldl (\<lambda>v i. push_bit 8 v OR ucast (cmd_byte a i)) 0 is"

definition exec_op :: "bus_env \<Rightarrow> disk_io \<Rightarrow> u8 list \<Rightarrow> u8 \<Rightarrow> 'a acsi_world \<Rightarrow> 'a acsi_world" where
  "exec_op env io stk op w =
     (let (a, s) = w;
          c = cmd_byte a;
          lba6 = push_bit 16 (ucast (c 1) AND 0x1F) OR push_bit 8 (ucast (c 2)) OR ucast (c 3) :: u32;
          len6 = (if c 4 \<noteq> 0 then ucast (c 4) else 256) :: u32;
          good = (finish_good (a\<lparr>residual := 0\<rparr>), s);
          invalid = (finish_check SENSE_INVALID_OP 0 a, s)
      in if op = 0x00 \<or> op = 0x01 \<or> op = 0x04 then good
         else if op = 0x03 then exec_request_sense env (if c 4 \<noteq> 0 then unat (c 4) else 4) w
         else if op = 0x08 then exec_read env io lba6 len6 w
         else if op = 0x0A then exec_write io stk lba6 len6 w
         else if op = 0x0B
         then (if lba6 < t_total_lba (cur_target a) then good else (finish_check SENSE_INVALID_LBA lba6 a, s))
         else if op = 0x12 then exec_inquiry env (if c 4 \<noteq> 0 then unat (c 4) else 5) 0x00 w
         else if op = 0x15 then (finish_good (mode_select_in (unat (c 4)) a\<lparr>residual := 0\<rparr>), s)
         else if op = 0x1A then exec_mode_sense env (c 2 AND 0x3F) (unat (c 4)) w
         else if op = 0x25
         then (if icd a then reply env (be32_bytes (t_total_lba (cur_target a) - 1) @ [0, 0, 2, 0]) w else invalid)
         else if op = 0xA0
         then (if \<not> icd a then invalid
               else reply env (take (min 16 (unat (be_cdb a [6, 7, 8, 9]))) ([0, 0, 0, 8] @ replicate 12 0)) w)
         else if op = 0x28 \<or> op = 0x2A
         then (if \<not> icd a then invalid
               else if op = 0x28 then exec_read env io (be_cdb a [2, 3, 4, 5]) (be_cdb a [7, 8]) w
               else exec_write io stk (be_cdb a [2, 3, 4, 5]) (be_cdb a [7, 8]) w)
         else invalid)"

definition exec_command :: "bus_env \<Rightarrow> disk_io \<Rightarrow> u8 list \<Rightarrow> 'a acsi_world \<Rightarrow> 'a acsi_world" where
  "exec_command env io stk w =
     (let (a0, s) = w;
          op = (if icd a0 then cmd_byte a0 0 else cmd_byte a0 0 AND 0x1F);
          a = upd_target (\<lambda>t. t\<lparr>t_probed := True\<rparr>) a0;
          lun = drop_bit 5 (cmd_byte a 1)
      in if \<not> icd a \<and> lun \<noteq> 0 \<and> op = 0x12
         then exec_inquiry env (if cmd_byte a 4 \<noteq> 0 then unat (cmd_byte a 4) else 5) 0x7F (a, s)
         else if \<not> icd a \<and> lun \<noteq> 0 then (finish_check SENSE_INVALID_LUN 0 a, s)
         else exec_op env io stk op (a, s))"

section \<open>The command handshake\<close>

definition icd_cdb_len :: "u8 \<Rightarrow> nat" where
  "icd_cdb_len scsi_op =
     (let g = drop_bit 5 scsi_op in
      if g = 0 then 1 + 6 else if g = 1 \<or> g = 2 then 1 + 10 else if g = 5 then 1 + 12 else 1 + 6)"

definition put_cdb :: "u8 \<Rightarrow> acsi_state \<Rightarrow> acsi_state" where
  "put_cdb v a = a\<lparr>cdb := (cdb a)[cdb_got a := v], cdb_got := cdb_got a + 1\<rparr>"

definition acsi_cmd_byte :: "bus_env \<Rightarrow> disk_io \<Rightarrow> u8 list \<Rightarrow> u8 \<Rightarrow> bool \<Rightarrow> 'a acsi_world \<Rightarrow> bool \<times> 'a acsi_world" where
  "acsi_cmd_byte env io stk v first0 w =
     (let (a, s) = w in
      if n_targets a = 0 then (False, w)
      else
        (let first_byte = (first0 \<and> \<not> (owns a \<and> phase a = PH_CDB \<and> 0 < cdb_got a \<and> cdb_got a < cdb_len a)) in
         if first_byte then
           (let id = unat (drop_bit 5 v) in
            if t_fd (tgt a ! id) < 0 then (False, acsi_release a, s)
            else
              (let ext = (v AND 0x1F = 0x1F);
                   a1 = a\<lparr>cur_id := int id, owns := True, phase := PH_CDB, status_valid := False, icd := ext,
                          cdb_got := 0, cdb_len := (if ext then 2 else 6)\<rparr>;
                   a2 = put_cdb (v AND 0x1F) a1
               in (True, a2\<lparr>residual := 0, irq := True\<rparr>, s)))
         else if \<not> owns a \<or> phase a \<noteq> PH_CDB then (False, w)
         else
           (let a1 = put_cdb v a;
                a2 = (if icd a1 \<and> cdb_got a1 = 2 then a1\<lparr>cdb_len := icd_cdb_len v\<rparr> else a1)
            in if cdb_got a2 < cdb_len a2 then (True, a2\<lparr>irq := True\<rparr>, s)
               else (True, exec_command env io stk (a2\<lparr>irq := False\<rparr>, s)))))"

definition acsi_status_read :: "acsi_state \<Rightarrow> u8 \<times> acsi_state" where
  "acsi_status_read a0 =
     (let a = a0\<lparr>irq := False\<rparr> in
      if \<not> status_valid a then
        (let a1 = (if cur_id a \<ge> 0 \<and> cur_id a < int ACSI_MAX_TARGETS \<and> t_fd (cur_target a) \<ge> 0
                   then upd_target (\<lambda>t. t\<lparr>t_sense := SENSE_INVALID_CDB\<rparr>) a else a)
         in (0x02, a1\<lparr>status_byte := 0x02, status_valid := True, phase := PH_IDLE\<rparr>))
      else (status_byte a, if phase a = PH_STATUS then a\<lparr>phase := PH_IDLE\<rparr> else a))"

section \<open>The FIFO of the DMA chip\<close>

lemma pulled_seen:
  assumes "pulled a bs (bus_seen h b ba s) t"
  shows "pulled a bs s t"
  using assms unfolding pulled_def by simp

lemma pulled_keeps:
  assumes "pulled x bs s t"
  shows "flat t = flat s" "g_stram_top t = g_stram_top s"
  using assms by (auto simp: pulled_def)

lemma pulled_Nil: "pulled x [] s s"
  unfolding pulled_def
  by (rule exI [of _ "g_jp_smc s"], rule exI [of _ "jit_flushes s"], rule exI [of _ "bus_hist s"],
      rule exI [of _ "g_buserr s"], rule exI [of _ "g_buserr_addr s"])
    (simp add: wrote_def bus_seen_self touches_code_def)

text \<open>Memory that the DMA chip of an ST can reach.\<close>

definition st_ram :: "'a smc_state_scheme \<Rightarrow> bool" where
  "st_ram s \<longleftrightarrow> flat s \<and> 0x400000 \<le> unat (g_stram_top s) \<and> unat (g_stram_top s) \<le> 0x01000000"

lemma pulled_st_ram: "pulled x bs s t \<Longrightarrow> st_ram t = st_ram s"
  using pulled_keeps [of x bs s t] by (simp add: st_ram_def)

lemma dma_burst_pulled:
  assumes "st_ram s" "0 < length bs" "length bs \<le> 4096" "unat (dma_addr a) + length bs \<le> 0x400000"
  shows "\<exists>t. dma_burst env bs (a, s) = (a\<lparr>dma_addr := dma_addr a + of_nat (length bs)\<rparr>, t) \<and> pulled (dma_addr a) bs s t"
proof -
  have all: "take (0x400000 - unat (dma_addr a)) bs = bs" using assms(4) by simp
  obtain h b ba where "bus_put env (dma_addr a) bs s = bus_seen h b ba s"
    using bus_put_hist [of "dma_addr a" bs env s] assms(4) by auto
  moreover have "pulled (dma_addr a) bs s (pistorm_dma_to_stram (dma_addr a) bs (bus_seen h b ba s))"
    using assms by (intro pulled_one) (simp_all add: st_ram_def)
  ultimately show ?thesis
    by (simp add: dma_burst_def fdd_dma_base_advance_def dma_copy_to_ram_def all)
qed

text \<open>What \<open>dma_out\<close> does to the stream of bytes through the FIFO: whole bursts of 16 go to RAM in order,
  the tail waits.\<close>

definition burst_len :: "'b list \<Rightarrow> nat" where
  "burst_len xs = length xs - length xs mod 16"

lemma burst_len_le: "burst_len xs \<le> length xs"
  by (simp add: burst_len_def)

lemma burst_len_append16: "length ys mod 16 = 0 \<Longrightarrow> burst_len (ys @ xs) = length ys + burst_len xs"
proof -
  assume "length ys mod 16 = 0"
  then have "(length ys + length xs) mod 16 = length xs mod 16"
    by (simp add: mod_add_left_eq [of "length ys", symmetric])
  then show ?thesis by (simp add: burst_len_def)
qed

definition streamed :: "u8 list \<Rightarrow> acsi_state \<Rightarrow> 'a smc_state_scheme \<Rightarrow> 'a acsi_world \<Rightarrow> bool" where
  "streamed buf a s w \<longleftrightarrow> (let xs = dma_fifo a @ buf; n = burst_len xs in
     fst w = a\<lparr>dma_fifo := drop n xs, dma_addr := dma_addr a + of_nat n\<rparr> \<and> pulled (dma_addr a) (take n xs) s (snd w))"

lemma streamed_rest: "length buf < 16 \<Longrightarrow> dma_fifo a = [] \<Longrightarrow> streamed buf a s (a\<lparr>dma_fifo := buf\<rparr>, s)"
  using pulled_Nil [of "dma_addr a" s] by (simp add: streamed_def burst_len_def Let_def)

text \<open>A burst first, then the rest of the stream.\<close>

lemma streamed_burst:
  assumes b: "pulled (dma_addr a) bs s t" and l: "length bs mod 16 = 0" and e: "dma_fifo a @ buf = bs @ buf'"
    and r: "streamed buf' (a\<lparr>dma_fifo := [], dma_addr := dma_addr a + of_nat (length bs)\<rparr>) t w"
    and m: "unat (dma_addr a) + burst_len (dma_fifo a @ buf) \<le> 0x400000"
  shows "streamed buf a s w"
proof -
  let ?n = "burst_len buf'"
  have n: "burst_len (bs @ buf') = length bs + ?n" by (rule burst_len_append16 [OF l])
  have w: "fst w = a\<lparr>dma_fifo := drop ?n buf', dma_addr := dma_addr a + of_nat (length bs) + of_nat ?n\<rparr>"
    "pulled (dma_addr a + of_nat (length bs)) (take ?n buf') t (snd w)"
    using r by (simp_all add: streamed_def Let_def)
  have "pulled (dma_addr a) (bs @ take ?n buf') s (snd w)"
    using b w(2) m e n by (intro pulled_append [of _ _ _ t]) (simp_all add: burst_len_le min_absorb2)
  with w(1) show ?thesis by (simp add: streamed_def Let_def e n add.assoc)
qed

lemma dma_fields_commute: "a\<lparr>dma_addr := x, dma_fifo := f\<rparr> = a\<lparr>dma_fifo := f, dma_addr := x\<rparr>" for a :: acsi_state
  by (cases a) simp

text \<open>The state after a burst meets the conditions for the rest of the stream.\<close>

lemma after_burst:
  assumes "length bs mod 16 = 0" "unat p + burst_len (bs @ buf') \<le> 0x400000"
  shows "unat (p + of_nat (length bs) :: u32) + burst_len buf' \<le> 0x400000"
proof -
  have n: "unat p + length bs + burst_len buf' \<le> 0x400000"
    using assms(2) burst_len_append16 [OF assms(1), of buf'] by simp
  then have "unat (of_nat (length bs) :: u32) = length bs" by (simp add: unat_of_nat)
  then have "unat (p + of_nat (length bs)) = unat p + length bs" using n by (subst unat_add_small) simp_all
  with n show ?thesis by simp
qed

lemma dma_out_stream:
  assumes "st_ram s" "length (dma_fifo a) < 16" "length (dma_fifo a) + length buf \<le> 4096"
    "unat (dma_addr a) + burst_len (dma_fifo a @ buf) \<le> 0x400000"
  shows "streamed buf a s (dma_out env buf (a, s))"
  using assms
proof (induction "length buf" arbitrary: buf a s rule: less_induct)
  case less
  have burst: "streamed buf a s (dma_out env buf' (a\<lparr>dma_fifo := [], dma_addr := dma_addr a + of_nat (length bs)\<rparr>, t))"
    if "dma_fifo a @ buf = bs @ buf'" "length bs mod 16 = 0" "pulled (dma_addr a) bs s t" "length buf' < length buf" for bs buf' t
  proof -
    let ?a = "a\<lparr>dma_fifo := [], dma_addr := dma_addr a + of_nat (length bs)\<rparr>"
    have "unat (dma_addr ?a) + burst_len buf' \<le> 0x400000"
      using after_burst [OF that(2), of "dma_addr a" buf'] less.prems(4) that(1) by simp
    moreover have "length buf' \<le> 4096" using that(4) less.prems(3) by simp
    ultimately have "streamed buf' ?a t (dma_out env buf' (?a, t))"
      using less.hyps [OF that(4), of t ?a] less.prems(1) pulled_st_ram [OF that(3)] by simp
    then show ?thesis by (rule streamed_burst [OF that(3,2,1) _ less.prems(4)])
  qed
  consider (empty) "buf = []" | (whole) "dma_fifo a = []" "16 \<le> length buf"
    | (fill) "buf \<noteq> []" "\<not> (dma_fifo a = [] \<and> 16 \<le> length buf)" "length (dma_fifo a) = 15"
    | (hold) "buf \<noteq> []" "\<not> (dma_fifo a = [] \<and> 16 \<le> length buf)" "length (dma_fifo a) < 15"
    using less.prems(2) by linarith
  then show ?case
  proof cases
    case empty
    with less.prems(2) show ?thesis
      using pulled_Nil [of "dma_addr a" s] by (simp add: dma_out.simps streamed_def burst_len_def Let_def)
  next
    case whole
    let ?n = "length buf - length buf mod 16"
    have m: "length buf mod 16 < 16" by simp
    have n: "burst_len (dma_fifo a @ buf) = ?n" "length (take ?n buf) = ?n" "0 < ?n" using whole m
      by (simp_all add: burst_len_def)
    obtain t where t: "dma_burst env (take ?n buf) (a, s) = (a\<lparr>dma_addr := dma_addr a + of_nat ?n\<rparr>, t)"
      "pulled (dma_addr a) (take ?n buf) s t"
      using dma_burst_pulled [OF less.prems(1), of "take ?n buf" a env] less.prems(3,4) n by fastforce
    have a': "a\<lparr>dma_fifo := [], dma_addr := dma_addr a + of_nat (length (take ?n buf))\<rparr> = a\<lparr>dma_addr := dma_addr a + of_nat ?n\<rparr>"
      unfolding n(2) using whole by simp
    have o: "dma_out env buf (a, s) = dma_out env (drop ?n buf) (a\<lparr>dma_addr := dma_addr a + of_nat ?n\<rparr>, t)"
      using whole t(1) by (subst dma_out.simps) (auto simp: Let_def)
    have d: "length (take ?n buf) mod 16 = 0" unfolding n(2) by presburger
    have "dma_fifo a @ buf = take ?n buf @ drop ?n buf" "length (drop ?n buf) < length buf" using whole n(3) by simp_all
    from burst [OF this(1) d t(2) this(2)] show ?thesis unfolding a' o .
  next
    case fill
    let ?bs = "dma_fifo a @ [hd buf]" and ?a = "a\<lparr>dma_fifo := dma_fifo a @ [hd buf]\<rparr>"
    have l: "length ?bs = 16" using fill by simp
    have e: "dma_fifo a @ buf = ?bs @ tl buf" using fill by simp
    have "16 \<le> burst_len (dma_fifo a @ buf)" unfolding e using burst_len_append16 [of ?bs "tl buf"] l by simp
    then obtain t where t: "dma_burst env ?bs (?a, s) = (?a\<lparr>dma_addr := dma_addr a + 16\<rparr>, t)" "pulled (dma_addr a) ?bs s t"
      using dma_burst_pulled [OF less.prems(1), of ?bs ?a env] less.prems(4) l by auto
    have "dma_out env buf (a, s) = dma_out env (tl buf) (a\<lparr>dma_fifo := [], dma_addr := dma_addr a + of_nat (length ?bs)\<rparr>, t)"
      using fill l t(1) by (subst dma_out.simps) (auto simp: Let_def dma_fields_commute)
    then show ?thesis using burst [OF e _ t(2)] fill l by simp
  next
    case hold
    let ?a = "a\<lparr>dma_fifo := dma_fifo a @ [hd buf]\<rparr>"
    have e: "dma_fifo ?a @ tl buf = dma_fifo a @ buf" using hold by simp
    have o: "dma_out env buf (a, s) = dma_out env (tl buf) (?a, s)"
      using hold by (subst dma_out.simps) (auto simp: Let_def)
    have "streamed (tl buf) ?a s (dma_out env (tl buf) (?a, s))"
      using less.hyps [of "tl buf" s ?a] less.prems hold e by simp
    then show ?thesis unfolding o streamed_def e by simp
  qed
qed

section \<open>Sectors\<close>

text \<open>A target whose image is large enough for the sectors it claims.\<close>

definition target_ok :: "acsi_state \<Rightarrow> acsi_target \<Rightarrow> bool" where
  "target_ok a t \<longleftrightarrow> 0 \<le> t_fd t \<and> (t_hfs t \<longrightarrow> length (t_root t) = 512 \<and> 0 < unat (t_total_lba t)) \<and>
     (unat (t_total_lba t) - (if t_hfs t then 1 else 0)) * 512 \<le> length (acsi_files a (t_fd t))"

definition io_good :: "disk_io \<Rightarrow> bool" where
  "io_good io \<longleftrightarrow> (\<forall>fd off. io_read_ok io fd off \<and> io_write_ok io fd off)"

text \<open>The disk the guest sees.\<close>

definition disk_sector :: "disk_io \<Rightarrow> acsi_target \<Rightarrow> acsi_state \<Rightarrow> nat \<Rightarrow> u8 list option" where
  "disk_sector io t a k = read_lba io t (of_nat k) a"

text \<open>The offset of a sector in its file, and the order of its bytes there.\<close>

definition lba_off :: "acsi_target \<Rightarrow> nat \<Rightarrow> nat" where
  "lba_off t k = (if t_hfs t then k - 1 else k) * 512"

definition file_order :: "acsi_target \<Rightarrow> u8 list \<Rightarrow> u8 list" where
  "file_order t bs = (if \<not> t_hfs t \<and> t_swapped t then disk_swap512 bs else bs)"

lemma file_order_twice [simp]: "file_order t (file_order t bs) = bs"
  by (simp add: file_order_def)

lemma length_file_order [simp]: "length (file_order t bs) = length bs"
  by (simp add: file_order_def)

definition on_file :: "acsi_target \<Rightarrow> nat \<Rightarrow> bool" where
  "on_file t k \<longleftrightarrow> \<not> (t_hfs t \<and> k = 0)"

lemma lba_off_bound:
  assumes "target_ok a t" "k < unat (t_total_lba t)" "on_file t k"
  shows "lba_off t k + 512 \<le> length (acsi_files a (t_fd t))"
proof -
  have "(if t_hfs t then k - 1 else k) + 1 \<le> unat (t_total_lba t) - (if t_hfs t then 1 else 0)"
    using assms by (auto simp: on_file_def)
  then have "((if t_hfs t then k - 1 else k) + 1) * 512 \<le> (unat (t_total_lba t) - (if t_hfs t then 1 else 0)) * 512"
    by (rule mult_le_mono1)
  then show ?thesis using assms(1) by (simp only: lba_off_def target_ok_def) (simp add: algebra_simps)
qed

lemma unat_lba: "k < unat (t_total_lba t) \<Longrightarrow> unat (of_nat k :: u32) = k"
  using unat_less_exp [of "t_total_lba t"] by (simp add: unat_of_nat)

lemma unat_lba_pred:
  assumes "k < unat (t_total_lba t)" "0 < k"
  shows "unat (of_nat k - 1 :: u32) = k - 1"
proof -
  have "unat (of_nat k :: u32) = k" using assms(1) by (rule unat_lba)
  then show ?thesis using assms(2) by (simp add: unat_sub word_le_nat_alt)
qed

lemma disk_sector_stored:
  assumes "target_ok a t" "io_good io" "k < unat (t_total_lba t)" "on_file t k"
  shows "disk_sector io t a k = Some (file_order t (take 512 (drop (lba_off t k) (acsi_files a (t_fd t)))))"
proof (cases "t_hfs t")
  case True
  then have "0 < k" using assms(4) by (simp add: on_file_def)
  moreover have "(of_nat k :: u32) \<noteq> 0" using unat_lba [OF assms(3)] \<open>0 < k\<close> by auto
  ultimately show ?thesis
    using lba_off_bound [OF assms(1,3,4)] True assms(2) unat_lba_pred [OF assms(3)]
    by (simp add: disk_sector_def read_lba_def sector_read_def io_good_def lba_off_def file_order_def)
next
  case False
  then show ?thesis
    using lba_off_bound [OF assms(1,3,4)] assms(2) unat_lba [OF assms(3)]
    by (simp add: disk_sector_def read_lba_def sector_read_def io_good_def lba_off_def file_order_def)
qed

lemma disk_sector_root: "t_hfs t \<Longrightarrow> disk_sector io t a 0 = Some (t_root t)"
  by (simp add: disk_sector_def read_lba_def)

lemma disk_sector_some:
  assumes "target_ok a t" "io_good io" "k < unat (t_total_lba t)"
  obtains bs where "disk_sector io t a k = Some bs" "length bs = 512"
proof (cases "on_file t k")
  case True
  then show ?thesis
    using that disk_sector_stored [OF assms True] lba_off_bound [OF assms(1,3) True] by simp
next
  case False
  then show ?thesis using that assms(1) disk_sector_root [of t io a] by (auto simp: on_file_def target_ok_def)
qed

lemma write_lba_stored:
  assumes "target_ok a t" "io_good io" "k < unat (t_total_lba t)" "length bs = 512"
  shows "write_lba io t (of_nat k) bs a = (True, if on_file t k
    then a\<lparr>acsi_files := (acsi_files a)(t_fd t := file_patch (lba_off t k) (file_order t bs) (acsi_files a (t_fd t)))\<rparr> else a)"
proof (cases "k = 0")
  case True
  then show ?thesis
    using assms(2) by (auto simp: write_lba_def sector_write_def io_good_def on_file_def lba_off_def file_order_def)
next
  case False
  moreover have "(of_nat k :: u32) \<noteq> 0" using unat_lba [OF assms(3)] False by auto
  ultimately show ?thesis
    using assms(2) unat_lba [OF assms(3)] unat_lba_pred [OF assms(3)]
    by (auto simp: write_lba_def sector_write_def io_good_def on_file_def lba_off_def file_order_def)
qed

lemma length_file_patch: "off + length bs \<le> length f \<Longrightarrow> length (file_patch off bs f) = length f"
  by (simp add: file_patch_def)

lemma file_patch_sector:
  assumes "o1 + 512 \<le> length f" "length bs = 512" "512 dvd o1" "512 dvd o2"
  shows "take 512 (drop o2 (file_patch o1 bs f)) = (if o2 = o1 then bs else take 512 (drop o2 f))"
proof -
  consider "o2 = o1" | "o2 + 512 \<le> o1" | "o1 + 512 \<le> o2"
    using assms(3,4) by (auto elim!: dvdE) (metis less_Suc_eq_le linorder_neqE_nat mult_Suc_right mult_le_mono2 Suc_leI add.commute)
  then show ?thesis
    by cases (use assms(1,2) in \<open>auto simp: file_patch_def drop_append take_append drop_take min_def\<close>)
qed

text \<open>A write of one sector, on the disk as the guest sees it.\<close>

lemma disk_write_sector:
  assumes ok: "target_ok a t" and io: "io_good io" and k: "k < unat (t_total_lba t)" and l: "length bs = 512"
  obtains f where "write_lba io t (of_nat k) bs a = (True, a\<lparr>acsi_files := f\<rparr>)" "target_ok (a\<lparr>acsi_files := f\<rparr>) t"
    "\<And>j. j < unat (t_total_lba t) \<Longrightarrow>
       disk_sector io t (a\<lparr>acsi_files := f\<rparr>) j = (if j = k \<and> on_file t k then Some bs else disk_sector io t a j)"
proof (cases "on_file t k")
  case False
  then show ?thesis
    using that [of "acsi_files a"] write_lba_stored [OF ok io k l] ok by simp
next
  case True
  let ?f = "(acsi_files a)(t_fd t := file_patch (lba_off t k) (file_order t bs) (acsi_files a (t_fd t)))"
  let ?a = "a\<lparr>acsi_files := ?f\<rparr>"
  have b: "lba_off t k + 512 \<le> length (acsi_files a (t_fd t))" by (rule lba_off_bound [OF ok k True])
  then have ok': "target_ok ?a t" using ok l by (simp add: target_ok_def length_file_patch)
  have "disk_sector io t ?a j = (if j = k \<and> on_file t k then Some bs else disk_sector io t a j)" if j: "j < unat (t_total_lba t)" for j
  proof (cases "on_file t j")
    case True
    have "lba_off t j = lba_off t k \<longleftrightarrow> j = k" using True \<open>on_file t k\<close> by (auto simp: lba_off_def on_file_def)
    moreover have "take 512 (drop (lba_off t j) (?f (t_fd t))) =
        (if lba_off t j = lba_off t k then file_order t bs else take 512 (drop (lba_off t j) (acsi_files a (t_fd t))))"
      using file_patch_sector [OF b, of "file_order t bs" "lba_off t j"] l by (simp add: lba_off_def)
    ultimately show ?thesis
      using disk_sector_stored [OF ok' io j True] disk_sector_stored [OF ok io j True] \<open>on_file t k\<close> by simp
  next
    case False
    then show ?thesis using disk_sector_root [of t io] \<open>on_file t k\<close> by (auto simp: on_file_def)
  qed
  then show ?thesis using that [of ?f] write_lba_stored [OF ok io k l] True ok' by simp
qed

section \<open>Transfers\<close>

text \<open>The state at the end of a command that went well, and of one refused for its address.\<close>

lemma finish_frame [simp]:
  "acsi_files (finish st sns lba a) = acsi_files a" "dma_addr (finish st sns lba a) = dma_addr a"
  "dma_fifo (finish st sns lba a) = dma_fifo a" "status_byte (finish st sns lba a) = st"
  "cur_id (finish st sns lba a) = cur_id a" "status_valid (finish st sns lba a)" "phase (finish st sns lba a) = PH_STATUS"
  "irq (finish st sns lba a)" "residual (finish st sns lba a) = residual a" "length (tgt (finish st sns lba a)) = length (tgt a)"
  "owns (finish st sns lba a) = owns a" "cdb (finish st sns lba a) = cdb a" "n_targets (finish st sns lba a) = n_targets a"
  by (simp_all add: finish_def upd_target_def fdd_dma_note_ok_def Let_def)

text \<open>Consecutive sectors of memory.\<close>

definition mem_sector :: "(u32 \<Rightarrow> u8) \<Rightarrow> u32 \<Rightarrow> nat \<Rightarrow> u8 list" where
  "mem_sector m p i = map (\<lambda>x. m (of_nat x)) [unat p + i * 512..<unat p + i * 512 + 512]"

lemma length_mem_sector [simp]: "length (mem_sector m p i) = 512"
  by (simp add: mem_sector_def)

lemma dma_in_sector:
  assumes "st_ram s" "unat (dma_addr a) + 512 \<le> 0x400000"
  shows "dma_in buf 512 (a, s) = (mem_sector (nm_anon s) (dma_addr a) 0, a\<lparr>dma_addr := dma_addr a + 512\<rparr>, s)"
proof -
  have r: "unat (dma_addr a) + 512 \<le> unat (g_stram_top s)" using assms by (simp add: st_ram_def)
  then have lt: "dma_addr a < g_stram_top s" unfolding word_less_nat_alt by linarith
  then have "unat (g_stram_top s - dma_addr a) = unat (g_stram_top s) - unat (dma_addr a)"
    by (intro unat_sub) simp
  then have "512 \<le> g_stram_top s - dma_addr a" unfolding word_le_nat_alt using r by simp
  with lt have "pistorm_dma_from_stram (dma_addr a) 512 s = Some (mem_sector (nm_anon s) (dma_addr a) 0)"
    using natmem_load_flat [of s "dma_addr a" 512] assms by (simp add: pistorm_dma_from_stram_def st_ram_def mem_sector_def)
  then show ?thesis by (simp add: dma_in_def dma_copy_from_ram_def fdd_dma_base_advance_def)
qed

lemma mem_sector_shift:
  assumes "unat p + 512 < 2 ^ 32"
  shows "mem_sector m (p + 512) i = mem_sector m p (Suc i)"
proof -
  have "unat (p + 512) = unat p + 512" using assms by (simp add: unat_add_small)
  then show ?thesis by (simp add: mem_sector_def add.assoc)
qed

text \<open>The sectors \<open>lba + i\<close> to \<open>lba + i + n\<close> of the disk are those at the DMA address, all others as before.\<close>

definition disk_written :: "disk_io \<Rightarrow> acsi_target \<Rightarrow> acsi_state \<Rightarrow> acsi_state \<Rightarrow> nat \<Rightarrow> nat \<Rightarrow> (u32 \<Rightarrow> u8) \<Rightarrow> u32 \<Rightarrow> bool" where
  "disk_written io t a a' l n m p \<longleftrightarrow> (\<forall>j < unat (t_total_lba t). disk_sector io t a' j =
     (if l \<le> j \<and> j < l + n \<and> on_file t j then Some (mem_sector m p (j - l)) else disk_sector io t a j))"

lemma cur_target_upd [simp]:
  "cur_target (a\<lparr>acsi_files := f\<rparr>) = cur_target a" "cur_target (a\<lparr>dma_addr := p\<rparr>) = cur_target a"
  "cur_target (a\<lparr>dma_fifo := q\<rparr>) = cur_target a" "cur_target (a\<lparr>residual := r\<rparr>) = cur_target a"
  by (simp_all add: cur_target_def)

lemma disk_sector_dma [simp]: "disk_sector io t (a\<lparr>dma_addr := p\<rparr>) = disk_sector io t a"
  "disk_sector io t (a\<lparr>dma_fifo := q\<rparr>) = disk_sector io t a"
  by (intro ext, simp add: disk_sector_def read_lba_def sector_read_def)+

lemma target_ok_dma [simp]: "target_ok (a\<lparr>dma_addr := p\<rparr>) t = target_ok a t" "target_ok (a\<lparr>dma_fifo := q\<rparr>) t = target_ok a t"
  by (simp_all add: target_ok_def)

lemma disk_written_Suc:
  assumes one: "\<And>j. j < unat (t_total_lba t) \<Longrightarrow> disk_sector io t b j =
      (if j = k \<and> on_file t k then Some (mem_sector m p 0) else disk_sector io t a j)"
    and rest: "disk_written io t b c (Suc k) n m (p + 512)" and p: "unat p + 512 < 2 ^ 32"
  shows "disk_written io t a c k (Suc n) m p"
  unfolding disk_written_def
proof (intro allI impI)
  fix j assume j: "j < unat (t_total_lba t)"
  have r: "disk_sector io t c j = (if Suc k \<le> j \<and> j < Suc k + n \<and> on_file t j
      then Some (mem_sector m (p + 512) (j - Suc k)) else disk_sector io t b j)"
    using rest j by (simp add: disk_written_def)
  show "disk_sector io t c j = (if k \<le> j \<and> j < k + Suc n \<and> on_file t j then Some (mem_sector m p (j - k)) else disk_sector io t a j)"
  proof (cases j k rule: linorder_cases)
    case greater
    then have "mem_sector m (p + 512) (j - Suc k) = mem_sector m p (j - k)"
      using mem_sector_shift [OF p, of m "j - Suc k"] by (simp add: Suc_diff_Suc)
    with greater r one [OF j] show ?thesis by simp
  qed (use r one [OF j] in auto)
qed

lemma files_dma_commute: "a\<lparr>dma_addr := p, acsi_files := f\<rparr> = a\<lparr>acsi_files := f, dma_addr := p\<rparr>" for a :: acsi_state
  by (cases a) simp

lemma write_blocks_disk:
  assumes io: "io_good io"
  shows "target_ok a (cur_target a) \<Longrightarrow> st_ram s \<Longrightarrow> unat lba + unat i + n \<le> unat (t_total_lba (cur_target a)) \<Longrightarrow>
    unat (dma_addr a) + n * 512 \<le> 0x400000 \<Longrightarrow>
    \<exists>f. write_blocks io lba n i buf (a, s) =
      (finish_good (a\<lparr>acsi_files := f, dma_addr := dma_addr a + of_nat (n * 512), residual := 0\<rparr>), s) \<and>
      target_ok (a\<lparr>acsi_files := f\<rparr>) (cur_target a) \<and>
      disk_written io (cur_target a) a (a\<lparr>acsi_files := f\<rparr>) (unat lba + unat i) n (nm_anon s) (dma_addr a)"
proof (induction n arbitrary: i buf a)
  case 0
  then show ?case by (intro exI [of _ "acsi_files a"]) (auto simp: disk_written_def)
next
  case (Suc n)
  let ?t = "cur_target a" and ?k = "unat lba + unat i" and ?p = "dma_addr a"
  let ?bs = "mem_sector (nm_anon s) ?p 0" and ?a1 = "a\<lparr>dma_addr := ?p + 512\<rparr>"
  have tot: "unat (t_total_lba ?t) < 2 ^ 32" using unat_less_exp [of "t_total_lba ?t"] by simp
  have u: "unat (i + 1) = unat i + 1" "unat (lba + i) = ?k" "unat (?p + 512) = unat ?p + 512"
    using Suc.prems(3,4) tot by (simp_all add: unat_add_small)
  then have li: "lba + i = of_nat ?k" by (metis of_nat_unat ucast_id)
  have din: "dma_in buf 512 (a, s) = (?bs, ?a1, s)" using Suc.prems(2,4) by (intro dma_in_sector) simp_all
  obtain f1 where f1: "write_lba io ?t (of_nat ?k) ?bs ?a1 = (True, ?a1\<lparr>acsi_files := f1\<rparr>)" "target_ok (?a1\<lparr>acsi_files := f1\<rparr>) ?t"
    "\<And>j. j < unat (t_total_lba ?t) \<Longrightarrow>
       disk_sector io ?t (?a1\<lparr>acsi_files := f1\<rparr>) j = (if j = ?k \<and> on_file ?t ?k then Some ?bs else disk_sector io ?t ?a1 j)"
    using disk_write_sector [of ?a1 ?t io ?k ?bs] Suc.prems(1,3) io by auto
  have w: "write_lba io ?t (lba + i) ?bs ?a1 = (True, ?a1\<lparr>acsi_files := f1\<rparr>)" using f1(1) unfolding li .
  let ?a2 = "?a1\<lparr>acsi_files := f1\<rparr>"
  obtain f where f: "write_blocks io lba n (i + 1) ?bs (?a2, s) =
      (finish_good (?a2\<lparr>acsi_files := f, dma_addr := dma_addr ?a2 + of_nat (n * 512), residual := 0\<rparr>), s)"
    "target_ok (?a2\<lparr>acsi_files := f\<rparr>) (cur_target ?a2)"
    "disk_written io (cur_target ?a2) ?a2 (?a2\<lparr>acsi_files := f\<rparr>) (unat lba + unat (i + 1)) n (nm_anon s) (dma_addr ?a2)"
    using Suc.IH [of ?a2 "i + 1" ?bs] f1(2) Suc.prems(2-4) u by auto
  have "write_blocks io lba (Suc n) i buf (a, s) =
      (finish_good (a\<lparr>acsi_files := f, dma_addr := ?p + of_nat (Suc n * 512), residual := 0\<rparr>), s)"
    using f(1) w by (simp add: din files_dma_commute add.assoc)
  moreover have "target_ok (a\<lparr>acsi_files := f\<rparr>) ?t" using f(2) by (simp add: target_ok_def)
  moreover have "disk_written io ?t a (a\<lparr>acsi_files := f\<rparr>) ?k (Suc n) (nm_anon s) ?p"
    using f(3) f1(3) Suc.prems(4) u(1)
    by (intro disk_written_Suc [of ?t io "a\<lparr>acsi_files := f1\<rparr>"])
      (simp_all add: files_dma_commute disk_written_def)
  ultimately show ?case by blast
qed

text \<open>The bytes of consecutive sectors of the disk.\<close>

definition disk_bytes :: "disk_io \<Rightarrow> acsi_target \<Rightarrow> acsi_state \<Rightarrow> nat \<Rightarrow> nat \<Rightarrow> u8 list" where
  "disk_bytes io t a k n = concat (map (\<lambda>j. the (disk_sector io t a j)) [k..<k + n])"

lemma disk_bytes_Suc: "disk_bytes io t a k (Suc n) = the (disk_sector io t a k) @ disk_bytes io t a (Suc k) n"
  by (simp add: disk_bytes_def upt_conv_Cons del: upt_Suc)

lemma length_disk_bytes:
  assumes "target_ok a t" "io_good io"
  shows "k + n \<le> unat (t_total_lba t) \<Longrightarrow> length (disk_bytes io t a k n) = n * 512"
proof (induction n arbitrary: k)
  case (Suc n)
  obtain bs where "disk_sector io t a k = Some bs" "length bs = 512"
    using disk_sector_some [OF assms, of k] Suc.prems by auto
  with Suc.IH [of "Suc k"] Suc.prems show ?case by (simp add: disk_bytes_Suc)
qed (simp add: disk_bytes_def)

lemma dma_out_sector:
  assumes "st_ram s" "dma_fifo a = []" "length bs = 512" "unat (dma_addr a) + 512 \<le> 0x400000"
  shows "\<exists>t. dma_out env bs (a, s) = (a\<lparr>dma_addr := dma_addr a + 512\<rparr>, t) \<and> pulled (dma_addr a) bs s t"
proof -
  have n: "burst_len bs = 512" using assms(3) by (simp add: burst_len_def)
  have "streamed bs a s (dma_out env bs (a, s))"
    using assms n by (intro dma_out_stream) simp_all
  then have "fst (dma_out env bs (a, s)) = a\<lparr>dma_addr := dma_addr a + 512\<rparr>" "pulled (dma_addr a) bs s (snd (dma_out env bs (a, s)))"
    using assms(2,3) n by (simp_all add: streamed_def Let_def)
  then show ?thesis by (metis prod.collapse)
qed

lemma read_blocks_disk:
  assumes io: "io_good io"
  shows "target_ok a (cur_target a) \<Longrightarrow> st_ram s \<Longrightarrow> dma_fifo a = [] \<Longrightarrow>
    unat lba + unat i + n \<le> unat (t_total_lba (cur_target a)) \<Longrightarrow> unat (dma_addr a) + n * 512 \<le> 0x400000 \<Longrightarrow>
    \<exists>t. read_blocks env io lba n i (a, s) =
        (finish_good (a\<lparr>dma_addr := dma_addr a + of_nat (n * 512), residual := 0\<rparr>), t) \<and>
      pulled (dma_addr a) (disk_bytes io (cur_target a) a (unat lba + unat i) n) s t"
proof (induction n arbitrary: i a s)
  case 0
  then show ?case using pulled_Nil by (simp add: disk_bytes_def)
next
  case (Suc n)
  let ?t = "cur_target a" and ?k = "unat lba + unat i" and ?p = "dma_addr a"
  have tot: "unat (t_total_lba ?t) < 2 ^ 32" using unat_less_exp [of "t_total_lba ?t"] by simp
  have u: "unat (i + 1) = unat i + 1" "unat (lba + i) = ?k" "unat (?p + 512) = unat ?p + 512"
    using Suc.prems(4,5) tot by (simp_all add: unat_add_small)
  then have li: "lba + i = of_nat ?k" by (metis of_nat_unat ucast_id)
  obtain bs where bs: "disk_sector io ?t a ?k = Some bs" "length bs = 512"
    using disk_sector_some [OF Suc.prems(1) io, of ?k] Suc.prems(4) by auto
  have r: "read_lba io ?t (lba + i) a = Some bs" using bs(1) unfolding li disk_sector_def .
  obtain s1 where s1: "dma_out env bs (a, s) = (a\<lparr>dma_addr := ?p + 512\<rparr>, s1)" "pulled ?p bs s s1"
    using dma_out_sector [OF Suc.prems(2,3) bs(2)] Suc.prems(5) by auto
  let ?a = "a\<lparr>dma_addr := ?p + 512\<rparr>"
  have bytes: "disk_bytes io ?t ?a = disk_bytes io ?t a" by (intro ext) (simp add: disk_bytes_def)
  obtain t where t: "read_blocks env io lba n (i + 1) (?a, s1) =
      (finish_good (?a\<lparr>dma_addr := dma_addr ?a + of_nat (n * 512), residual := 0\<rparr>), t)"
    "pulled (?p + 512) (disk_bytes io ?t a (Suc ?k) n) s1 t"
    using Suc.IH [of ?a s1 "i + 1"] Suc.prems u pulled_st_ram [OF s1(2)] by (auto simp: bytes)
  have "pulled ?p (bs @ disk_bytes io ?t a (Suc ?k) n) s t"
    using s1(2) t(2) bs(2) Suc.prems(4,5) length_disk_bytes [OF Suc.prems(1) io, of "Suc ?k" n]
    by (intro pulled_append [of _ _ _ s1]) simp_all
  moreover have "read_blocks env io lba (Suc n) i (a, s) =
      (finish_good (a\<lparr>dma_addr := ?p + of_nat (Suc n * 512), residual := 0\<rparr>), t)"
    using t(1) r s1(1) by (simp add: add.assoc)
  ultimately show ?case using bs(1) by (simp add: disk_bytes_Suc)
qed

lemma cur_target_finish: "\<exists>sns lba. cur_target (finish st x l a) = cur_target a\<lparr>t_sense := sns, t_sense_lba := lba\<rparr>"
proof (cases "nat (cur_id a) < length (tgt a)")
  case True
  then show ?thesis by (auto simp: finish_def upd_target_def fdd_dma_note_ok_def cur_target_def Let_def)
next
  case False
  then have "cur_target (finish st x l a) = cur_target a\<lparr>t_sense := t_sense (cur_target a), t_sense_lba := t_sense_lba (cur_target a)\<rparr>"
    by (simp add: finish_def upd_target_def fdd_dma_note_ok_def cur_target_def Let_def list_update_beyond not_less)
  then show ?thesis by blast
qed

lemma target_sense [simp]:
  "disk_sector io (t\<lparr>t_sense := x, t_sense_lba := y\<rparr>) = disk_sector io t"
  "target_ok a (t\<lparr>t_sense := x, t_sense_lba := y\<rparr>) = target_ok a t"
  "disk_bytes io (t\<lparr>t_sense := x, t_sense_lba := y\<rparr>) = disk_bytes io t"
proof -
  show d: "disk_sector io (t\<lparr>t_sense := x, t_sense_lba := y\<rparr>) = disk_sector io t"
    by (intro ext) (auto simp: disk_sector_def read_lba_def split: option.split)
  show "target_ok a (t\<lparr>t_sense := x, t_sense_lba := y\<rparr>) = target_ok a t" by (simp add: target_ok_def)
  show "disk_bytes io (t\<lparr>t_sense := x, t_sense_lba := y\<rparr>) = disk_bytes io t"
    by (intro ext) (simp add: disk_bytes_def d)
qed

section \<open>Reading back what was written\<close>

lemma disk_bytes_sectors:
  "(\<And>j. k \<le> j \<Longrightarrow> j < k + n \<Longrightarrow> disk_sector io t a j = Some (mem_sector m p (j - k))) \<Longrightarrow> unat p + n * 512 < 2 ^ 32 \<Longrightarrow>
   disk_bytes io t a k n = map (\<lambda>x. m (of_nat x)) [unat p..<unat p + n * 512]"
proof (induction n arbitrary: k p)
  case (Suc n)
  have u: "unat (p + 512) = unat p + 512" using Suc.prems(2) by (simp add: unat_add_small)
  have "disk_sector io t a j = Some (mem_sector m (p + 512) (j - Suc k))" if "Suc k \<le> j" "j < Suc k + n" for j
    using Suc.prems(1) [of j] that mem_sector_shift [of p m "j - Suc k"] Suc.prems(2) by (simp add: Suc_diff_Suc)
  then have "disk_bytes io t a (Suc k) n = map (\<lambda>x. m (of_nat x)) [unat (p + 512)..<unat (p + 512) + n * 512]"
    using Suc.prems(2) u by (intro Suc.IH) simp_all
  then show ?case
    using Suc.prems(1) [of k] upt_add_eq_append [of "unat p" "unat p + 512" "n * 512"]
    by (simp add: disk_bytes_Suc u mem_sector_def add.assoc flip: map_append)
qed (simp add: disk_bytes_def)

lemma exec_write_disk:
  assumes "io_good io" "target_ok a (cur_target a)" "st_ram s"
    "unat lba + unat blocks \<le> unat (t_total_lba (cur_target a))" "unat (dma_addr a) + unat blocks * 512 \<le> 0x400000"
  obtains f where "exec_write io buf lba blocks (a, s) =
      (finish_good (a\<lparr>acsi_files := f, dma_addr := dma_addr a + blocks * 512, residual := 0\<rparr>), s)"
    "target_ok (a\<lparr>acsi_files := f\<rparr>) (cur_target a)"
    "disk_written io (cur_target a) a (a\<lparr>acsi_files := f\<rparr>) (unat lba) (unat blocks) (nm_anon s) (dma_addr a)"
proof -
  have "unat (lba + blocks) = unat lba + unat blocks"
    using assms(4) unat_less_exp [of "t_total_lba (cur_target a)"] by (intro unat_add_small) simp
  then have "exec_write io buf lba blocks (a, s) = write_blocks io lba (unat blocks) 0 buf (a, s)"
    using assms(4) by (auto simp: exec_write_def word_less_nat_alt)
  then show ?thesis
    using write_blocks_disk [OF assms(1-3), of lba 0 "unat blocks" buf] assms(4,5) that by auto
qed

lemma exec_read_disk:
  assumes "io_good io" "target_ok a (cur_target a)" "st_ram s" "dma_fifo a = []"
    "unat lba + unat blocks \<le> unat (t_total_lba (cur_target a))" "unat (dma_addr a) + unat blocks * 512 \<le> 0x400000"
  obtains t where "exec_read env io lba blocks (a, s) =
      (finish_good (a\<lparr>dma_addr := dma_addr a + blocks * 512, residual := 0\<rparr>), t)"
    "pulled (dma_addr a) (disk_bytes io (cur_target a) a (unat lba) (unat blocks)) s t"
proof -
  have "unat (lba + blocks) = unat lba + unat blocks"
    using assms(5) unat_less_exp [of "t_total_lba (cur_target a)"] by (intro unat_add_small) simp
  then have "exec_read env io lba blocks (a, s) = read_blocks env io lba (unat blocks) 0 (a, s)"
    using assms(5) by (auto simp: exec_read_def word_less_nat_alt)
  then show ?thesis
    using read_blocks_disk [OF assms(1-4), of lba 0 "unat blocks" env] assms(5,6) that by auto
qed

section \<open>The handshake\<close>

text \<open>What holds between the accesses of the guest: the command buffer is never overrun, a command under way has
  an attached target and no status yet, and less than a burst waits in the FIFO.\<close>

definition acsi_inv :: "acsi_state \<Rightarrow> bool" where
  "acsi_inv a \<longleftrightarrow> length (tgt a) = 8 \<and> length (cdb a) = 16 \<and> length (dma_fifo a) < 16 \<and>
     (phase a = PH_CDB \<longrightarrow> owns a \<and> 0 \<le> cur_id a \<and> cur_id a < 8 \<and> 0 \<le> t_fd (cur_target a) \<and> \<not> status_valid a \<and>
        0 < cdb_got a \<and> cdb_got a < cdb_len a \<and> cdb_len a \<le> 13 \<and>
        (if icd a then cdb_len a = 2 \<and> cdb_got a = 1 \<or> 2 \<le> cdb_got a else cdb_len a = 6))"

text \<open>What a command leaves alone.\<close>

definition same_bus :: "acsi_state \<Rightarrow> acsi_state \<Rightarrow> bool" where
  "same_bus a b \<longleftrightarrow> length (tgt b) = length (tgt a) \<and> cdb b = cdb a \<and> owns b = owns a \<and> cur_id b = cur_id a \<and>
     n_targets b = n_targets a \<and> map t_fd (tgt b) = map t_fd (tgt a) \<and> (length (dma_fifo a) < 16 \<longrightarrow> length (dma_fifo b) < 16) \<and>
     (\<forall>fd. nat (cur_id a) < length (tgt a) \<longrightarrow> fd \<notin> set (map t_fd (tgt a)) \<longrightarrow> acsi_files b fd = acsi_files a fd)"

lemma same_bus_refl [simp, intro]: "same_bus a a"
  by (simp add: same_bus_def)

lemma same_bus_trans: "same_bus a b \<Longrightarrow> same_bus b c \<Longrightarrow> same_bus a c"
  unfolding same_bus_def by metis

lemma upd_target_same_bus:
  assumes "\<And>t. t_fd (f t) = t_fd t"
  shows "same_bus a (upd_target f a)"
proof -
  have "map t_fd (xs[i := f (xs ! i)]) = map t_fd xs" for xs i
    by (cases "i < length xs") (simp_all add: map_update assms list_update_beyond not_less, metis list_update_id nth_map)
  then show ?thesis by (simp add: same_bus_def upd_target_def)
qed

text \<open>A command has ended: status and interrupt are there.\<close>

definition ended :: "acsi_state \<Rightarrow> acsi_state \<Rightarrow> bool" where
  "ended a b \<longleftrightarrow> same_bus a b \<and> phase b = PH_STATUS \<and> status_valid b \<and> irq b \<and> status_byte b \<in> {0x00, 0x02}"

lemma ended_trans: "same_bus a b \<Longrightarrow> ended b c \<Longrightarrow> ended a c"
  using same_bus_trans by (auto simp: ended_def)

lemma finish_ended:
  assumes "same_bus a b" "st \<in> {0x00, 0x02}"
  shows "ended a (finish st sns lba b)"
proof -
  have "same_bus b (upd_target (\<lambda>t. t\<lparr>t_sense := sns, t_sense_lba := lba\<rparr>) (b\<lparr>status_byte := st\<rparr>))"
    using same_bus_trans [OF _ upd_target_same_bus, of b "b\<lparr>status_byte := st\<rparr>"] by (simp add: same_bus_def)
  then have "same_bus b (finish st sns lba b)"
    by (simp add: finish_def fdd_dma_note_ok_def same_bus_def Let_def)
  with assms same_bus_trans show ?thesis unfolding ended_def by auto
qed

lemmas finish_endeds = finish_ended [where st = "0x00", simplified] finish_ended [where st = "0x02", simplified]

lemma dma_out_step:
  assumes "buf \<noteq> []"
  obtains buf' f p s' where "dma_out env buf (a, s) = dma_out env buf' (a\<lparr>dma_fifo := f, dma_addr := p\<rparr>, s')" "length buf' < length buf"
    "length (dma_fifo a) < 16 \<longrightarrow> length f < 16"
proof -
  have self: "a\<lparr>dma_fifo := dma_fifo a, dma_addr := p\<rparr> = a\<lparr>dma_addr := p\<rparr>" "a\<lparr>dma_fifo := f, dma_addr := dma_addr a\<rparr> = a\<lparr>dma_fifo := f\<rparr>"
    for p f by (cases a; simp)+
  have r: "length buf mod 16 < 16" by simp
  consider (whole) "dma_fifo a = []" "16 \<le> length buf"
    | (fill) "\<not> (dma_fifo a = [] \<and> 16 \<le> length buf)" "length (dma_fifo a) = 15"
    | (hold) "\<not> (dma_fifo a = [] \<and> 16 \<le> length buf)" "length (dma_fifo a) \<noteq> 15" by blast
  then show thesis
  proof cases
    case whole
    let ?n = "length buf - length buf mod 16"
    have "dma_out env buf (a, s) = dma_out env (drop ?n buf)
        (a\<lparr>dma_fifo := dma_fifo a, dma_addr := dma_addr a + of_nat (length (take ?n buf))\<rparr>,
         dma_copy_to_ram env (dma_addr a) (take ?n buf) s)"
      unfolding self using whole assms by (subst dma_out.simps) (simp add: Let_def dma_burst_def fdd_dma_base_advance_def)
    then show ?thesis by (rule that) (use whole r in simp_all)
  next
    case fill
    let ?f = "dma_fifo a @ [hd buf]"
    have "dma_out env buf (a, s) = dma_out env (tl buf) (a\<lparr>dma_fifo := [], dma_addr := dma_addr a + 16\<rparr>,
        dma_copy_to_ram env (dma_addr a) ?f s)"
      using fill assms
      by (subst dma_out.simps) (auto simp: Let_def dma_burst_def fdd_dma_base_advance_def dma_fields_commute)
    then show ?thesis by (rule that) (use assms in simp_all)
  next
    case hold
    have "dma_out env buf (a, s) = dma_out env (tl buf) (a\<lparr>dma_fifo := dma_fifo a @ [hd buf], dma_addr := dma_addr a\<rparr>, s)"
      unfolding self using hold assms by (subst dma_out.simps) (auto simp: Let_def)
    then show ?thesis by (rule that) (use assms hold in simp_all)
  qed
qed

lemma dma_out_same_bus: "same_bus a (fst (dma_out env buf (a, s)))"
proof (induction "length buf" arbitrary: buf a s rule: less_induct)
  case less
  show ?case
  proof (cases "buf = []")
    case True
    then show ?thesis by (simp add: dma_out.simps)
  next
    case False
    then obtain buf' f p s' where o: "dma_out env buf (a, s) = dma_out env buf' (a\<lparr>dma_fifo := f, dma_addr := p\<rparr>, s')"
      "length buf' < length buf" "length (dma_fifo a) < 16 \<longrightarrow> length f < 16" by (rule dma_out_step [of buf env a s])
    from o(3) have "same_bus a (a\<lparr>dma_fifo := f, dma_addr := p\<rparr>)" by (simp add: same_bus_def)
    then show ?thesis unfolding o(1) using less.hyps [OF o(2)] same_bus_trans by blast
  qed
qed

lemma residual_same_bus [simp, intro]: "same_bus a (b\<lparr>residual := r\<rparr>) = same_bus a b"
  by (simp add: same_bus_def)

lemma reply_ended: "ended a (fst (reply env d (a, s)))"
  using dma_out_same_bus [of a env d s] by (auto simp: reply_def finish_good_def Let_def case_prod_unfold intro!: finish_endeds)

lemma read_blocks_ended: "same_bus a b \<Longrightarrow> ended a (fst (read_blocks env io lba n i (b, s)))"
proof (induction n arbitrary: i b s)
  case (Suc n)
  show ?case
  proof (cases "read_lba io (cur_target b) (lba + i) b")
    case None
    with Suc.prems show ?thesis by (auto simp: finish_check_def intro!: finish_endeds)
  next
    case (Some buf)
    obtain c u where o: "dma_out env buf (b, s) = (c, u)" by fastforce
    have "same_bus a c" using Suc.prems dma_out_same_bus [of b env buf s] same_bus_trans by (simp add: o)
    with Some o Suc.IH show ?thesis by simp
  qed
qed (auto simp: finish_good_def intro!: finish_endeds)

text \<open>A command changes no file but that of its target.\<close>

lemma target_file_same_bus: "same_bus a (a\<lparr>acsi_files := (acsi_files a)(t_fd (cur_target a) := x)\<rparr>)"
  by (auto simp: same_bus_def cur_target_def)

lemma write_lba_same_bus: "same_bus a (snd (write_lba io (cur_target a) lba buf a))"
  by (simp add: write_lba_def sector_write_def target_file_same_bus)

lemma write_blocks_ended: "same_bus a b \<Longrightarrow> ended a (fst (write_blocks io lba n i buf (b, s)))"
proof (induction n arbitrary: i b buf)
  case (Suc n)
  obtain buf1 c u where d: "dma_in buf 512 (b, s) = (buf1, c, u)" by (metis prod_cases3)
  then have c: "same_bus a c" "u = s" using Suc.prems by (auto simp: dma_in_def fdd_dma_base_advance_def same_bus_def)
  obtain ok e where w: "write_lba io (cur_target c) (lba + i) buf1 c = (ok, e)" by fastforce
  then have e: "same_bus a e" using same_bus_trans [OF c(1) write_lba_same_bus] by (metis snd_conv)
  then show ?case
    using Suc.IH [of e] d w c(2) by (auto simp: finish_check_def intro!: finish_endeds)
qed (auto simp: finish_good_def intro!: finish_endeds)

lemma exec_read_ended: "ended a (fst (exec_read env io lba n (a, s)))"
  using read_blocks_ended [of a a] by (auto simp: exec_read_def finish_check_def intro!: finish_endeds)

lemma exec_write_ended: "ended a (fst (exec_write io buf lba n (a, s)))"
  using write_blocks_ended [of a a] by (auto simp: exec_write_def finish_check_def intro!: finish_endeds)

lemma exec_request_sense_ended: "ended a (fst (exec_request_sense env n (a, s)))"
proof -
  have "same_bus a (upd_target (\<lambda>t. t\<lparr>t_sense := SENSE_NONE\<rparr>) (fst (dma_out env d (a, s))))" for d
    by (rule same_bus_trans [OF dma_out_same_bus upd_target_same_bus]) simp
  then show ?thesis
    by (auto simp: exec_request_sense_def finish_good_def Let_def case_prod_unfold intro!: finish_endeds)
qed

lemma mode_select_same_bus: "same_bus a b \<Longrightarrow> same_bus a (mode_select_in n b)"
proof (induction n b rule: mode_select_in.induct)
  case (1 n b)
  show ?case
  proof (cases "n = 0")
    case True
    with "1.prems" show ?thesis by (simp add: mode_select_in.simps)
  next
    case False
    let ?c = "if n > 512 then 512 else n"
    have "same_bus a (fdd_dma_base_advance (of_nat ?c) b)" using "1.prems" by (simp add: same_bus_def fdd_dma_base_advance_def)
    with "1.IH" [OF False refl] False show ?thesis by (subst mode_select_in.simps) (simp only: if_False Let_def)
  qed
qed

lemma exec_op_ended: "ended a (fst (exec_op env io stk op (a, s)))"
proof -
  have good: "ended a (finish_good (a\<lparr>residual := r\<rparr>))" "ended a (finish_check sns l a)" for r sns l
    by (auto simp: finish_good_def finish_check_def intro!: finish_endeds)
  have sel: "ended a (finish_good (mode_select_in n a\<lparr>residual := r\<rparr>))" for n r
    using mode_select_same_bus [of a a n] by (auto simp: finish_good_def intro!: finish_endeds)
  have inq: "ended a (fst (exec_inquiry env n p (a, s)))" for n p
    by (simp add: exec_inquiry_def reply_ended)
  have sense: "ended a (fst (exec_mode_sense env p n (a, s)))" for p n
    using good(2) by (simp add: exec_mode_sense_def reply_ended Let_def)
  show ?thesis
    unfolding exec_op_def Let_def case_prod_conv
    by (simp add: good sel inq sense reply_ended exec_read_ended exec_write_ended exec_request_sense_ended)
qed

lemma exec_command_ended: "ended a (fst (exec_command env io stk (a, s)))"
proof -
  let ?a = "upd_target (\<lambda>t. t\<lparr>t_probed := True\<rparr>) a"
  have b: "same_bus a ?a" by (rule upd_target_same_bus) simp
  have "ended ?a (fst (exec_inquiry env n p (?a, s)))" for n p by (simp add: exec_inquiry_def reply_ended)
  moreover have "ended ?a (finish_check sns l ?a)" for sns l by (auto simp: finish_check_def intro!: finish_endeds)
  ultimately show ?thesis
    by (intro ended_trans [OF b]) (simp add: exec_command_def Let_def exec_op_ended)
qed

text \<open>The operations keep the invariant.\<close>

lemma acsi_inv_ended: "acsi_inv a \<Longrightarrow> ended (a\<lparr>irq := False\<rparr>) b \<Longrightarrow> acsi_inv b"
  by (auto simp: acsi_inv_def ended_def same_bus_def)

lemma icd_cdb_len_bounds: "7 \<le> icd_cdb_len v" "icd_cdb_len v \<le> 13"
  by (simp_all add: icd_cdb_len_def Let_def)

lemma acsi_inv_status: "acsi_inv a \<Longrightarrow> acsi_inv (snd (acsi_status_read a))"
  using upd_target_same_bus [of "\<lambda>t. t\<lparr>t_sense := SENSE_INVALID_CDB\<rparr>" "a\<lparr>irq := False\<rparr>"]
  by (auto simp: acsi_status_read_def acsi_inv_def same_bus_def Let_def)

lemma acsi_inv_release: "acsi_inv a \<Longrightarrow> acsi_inv (acsi_release a)"
  by (simp add: acsi_inv_def acsi_release_def)

text \<open>An image is only attached where there is none.\<close>

lemma acsi_attach_form:
  obtains "snd (acsi_attach_at io modes id0 path a) = a"
  | i t where "snd (acsi_attach_at io modes id0 path a) = a\<lparr>tgt := (tgt a)[i := t], n_targets := n_targets a + 1\<rparr>"
    "t_fd (tgt a ! i) < 0"
proof -
  define i where "i = (if id0 < 0 then free_id a else nat id0)"
  have "snd (acsi_attach_at io modes id0 path a) = a \<or>
    (\<exists>t. snd (acsi_attach_at io modes id0 path a) = a\<lparr>tgt := (tgt a)[i := t], n_targets := n_targets a + 1\<rparr> \<and> t_fd (tgt a ! i) < 0)"
    unfolding acsi_attach_at_def i_def [symmetric] Let_def by (cases "io_open io path") auto
  then show thesis using that by blast
qed

lemma acsi_inv_attach:
  assumes "acsi_inv a"
  shows "acsi_inv (snd (acsi_attach_at io modes id0 path a))"
proof (rule acsi_attach_form [of io modes id0 path a])
  fix i t assume r: "snd (acsi_attach_at io modes id0 path a) = a\<lparr>tgt := (tgt a)[i := t], n_targets := n_targets a + 1\<rparr>"
    "t_fd (tgt a ! i) < 0"
  have "cur_target (a\<lparr>tgt := (tgt a)[i := t], n_targets := n_targets a + 1\<rparr>) = cur_target a" if "phase a = PH_CDB"
  proof -
    have "0 \<le> t_fd (cur_target a)" using assms that by (simp add: acsi_inv_def)
    then have "i \<noteq> nat (cur_id a)" using r(2) by (auto simp: cur_target_def)
    then show ?thesis by (simp add: cur_target_def)
  qed
  then show ?thesis using assms unfolding r(1) by (auto simp: acsi_inv_def)
qed (use assms in simp)

lemma unat_drop5: "unat (drop_bit 5 (v :: u8)) < 8" "uint (drop_bit 5 (v :: u8)) < 8"
proof -
  have "unat v < 256" using unat_less_exp [of v] by simp
  then show "unat (drop_bit 5 v) < 8" by (simp add: unat_drop_bit)
  then show "uint (drop_bit 5 v) < 8" by (metis int_ops(3) nat_uint_eq unsigned_greater_eq zless_nat_eq_int_zless nat_less_iff of_nat_numeral)
qed

lemma acsi_inv_first:
  assumes "acsi_inv a" "0 \<le> t_fd (tgt a ! unat (drop_bit 5 v))"
  shows "acsi_inv ((put_cdb (v AND 0x1F) (a\<lparr>cur_id := int (unat (drop_bit 5 v)), owns := True, phase := PH_CDB, status_valid := False,
    icd := ext, cdb_got := 0, cdb_len := (if ext then 2 else 6)\<rparr>))\<lparr>residual := 0, irq := True\<rparr>)"
  using assms unat_drop5 [of v] by (auto simp: acsi_inv_def put_cdb_def cur_target_def)

text \<open>A byte of a command under way.\<close>

lemma acsi_next_byte:
  assumes inv: "acsi_inv a" and p: "phase a = PH_CDB" and n: "0 < n_targets a"
    and b_def: "b = (put_cdb v a)\<lparr>cdb_len := (if icd a \<and> cdb_got a = 1 then icd_cdb_len v else cdb_len a)\<rparr>"
  shows "acsi_cmd_byte env io stk v first (a, s) =
    (True, if cdb_got b < cdb_len b then (b\<lparr>irq := True\<rparr>, s) else exec_command env io stk (b\<lparr>irq := False\<rparr>, s))"
proof -
  have mid: "owns a" "0 < cdb_got a" "cdb_got a < cdb_len a" using inv p by (simp_all add: acsi_inv_def)
  have b: "(if icd (put_cdb v a) \<and> cdb_got (put_cdb v a) = 2 then (put_cdb v a)\<lparr>cdb_len := icd_cdb_len v\<rparr> else put_cdb v a) = b"
    by (cases a) (auto simp: put_cdb_def b_def)
  show ?thesis using mid p n by (simp add: acsi_cmd_byte_def Let_def b)
qed

lemma acsi_inv_next:
  assumes "acsi_inv a" "phase a = PH_CDB"
    and b: "b = (put_cdb v a)\<lparr>cdb_len := (if icd a \<and> cdb_got a = 1 then icd_cdb_len v else cdb_len a)\<rparr>"
  shows "cdb_got b < cdb_len b \<Longrightarrow> acsi_inv (b\<lparr>irq := True\<rparr>)" "\<not> cdb_got b < cdb_len b \<Longrightarrow> ended b c \<Longrightarrow> acsi_inv c"
  using assms(1,2) icd_cdb_len_bounds [of v]
  by (auto simp: acsi_inv_def b put_cdb_def cur_target_def ended_def same_bus_def)

lemma acsi_inv_cmd_byte:
  assumes inv: "acsi_inv a"
  shows "acsi_inv (fst (snd (acsi_cmd_byte env io stk v first (a, s))))"
proof (cases "phase a = PH_CDB \<and> n_targets a \<noteq> 0")
  case True
  let ?b = "(put_cdb v a)\<lparr>cdb_len := (if icd a \<and> cdb_got a = 1 then icd_cdb_len v else cdb_len a)\<rparr>"
  have "ended ?b (fst (exec_command env io stk (?b\<lparr>irq := False\<rparr>, s)))"
    by (rule ended_trans [OF _ exec_command_ended]) (simp add: same_bus_def)
  then show ?thesis
    using acsi_inv_next [OF inv _ refl, of v] True by (subst acsi_next_byte [OF inv _ _ refl]) auto
next
  case False
  then show ?thesis
    using inv acsi_inv_first [OF inv, of v] acsi_inv_release [OF inv]
    by (auto simp: acsi_cmd_byte_def Let_def not_less)
qed

lemma acsi_cmd_byte_files:
  assumes inv: "acsi_inv a" and b_def: "b = fst (snd (acsi_cmd_byte env io stk v first (a, s)))"
  shows "map t_fd (tgt b) = map t_fd (tgt a)" "fd \<notin> set (map t_fd (tgt a)) \<Longrightarrow> acsi_files b fd = acsi_files a fd"
proof -
  have "map t_fd (tgt b) = map t_fd (tgt a) \<and> (fd \<notin> set (map t_fd (tgt a)) \<longrightarrow> acsi_files b fd = acsi_files a fd)"
  proof (cases "phase a = PH_CDB \<and> n_targets a \<noteq> 0")
    case True
    let ?c = "(put_cdb v a)\<lparr>cdb_len := (if icd a \<and> cdb_got a = 1 then icd_cdb_len v else cdb_len a)\<rparr>"
    have "nat (cur_id a) < length (tgt a)" using inv True by (auto simp: acsi_inv_def)
    moreover have "ended (?c\<lparr>irq := False\<rparr>) (fst (exec_command env io stk (?c\<lparr>irq := False\<rparr>, s)))" by (rule exec_command_ended)
    moreover have "b = (if cdb_got ?c < cdb_len ?c then ?c\<lparr>irq := True\<rparr> else fst (exec_command env io stk (?c\<lparr>irq := False\<rparr>, s)))"
      using True by (simp add: b_def acsi_next_byte [OF inv _ _ refl])
    ultimately show ?thesis by (auto simp: ended_def same_bus_def put_cdb_def)
  next
    case False
    then show ?thesis by (auto simp: b_def acsi_cmd_byte_def acsi_release_def put_cdb_def Let_def)
  qed
  then show "map t_fd (tgt b) = map t_fd (tgt a)" "fd \<notin> set (map t_fd (tgt a)) \<Longrightarrow> acsi_files b fd = acsi_files a fd" by auto
qed

section \<open>Sequences of accesses\<close>

text \<open>A run of command bytes, each with the state of A1, and what the calls return.\<close>

fun acsi_bytes :: "bus_env \<Rightarrow> disk_io \<Rightarrow> u8 list \<Rightarrow> (u8 \<times> bool) list \<Rightarrow> 'a acsi_world \<Rightarrow> bool list \<times> 'a acsi_world" where
  "acsi_bytes env io stk [] w = ([], w)"
| "acsi_bytes env io stk ((v, first) # xs) w =
     (let (r, w1) = acsi_cmd_byte env io stk v first w; (rs, w2) = acsi_bytes env io stk xs w1 in (r # rs, w2))"

definition full_cdb :: "u8 list \<Rightarrow> acsi_state \<Rightarrow> acsi_state" where
  "full_cdb vs a = a\<lparr>cdb := take (cdb_got a) (cdb a) @ vs @ drop (cdb_got a + length vs) (cdb a),
     cdb_got := cdb_got a + length vs, irq := False\<rparr>"

lemma acsi_bytes_rest:
  assumes "acsi_inv a" "phase a = PH_CDB" "0 < n_targets a" "icd a \<Longrightarrow> 2 \<le> cdb_got a"
    and "length fs = length vs" "cdb_got a + length vs = cdb_len a"
  shows "acsi_bytes env io stk (zip vs fs) (a, s) = (replicate (length vs) True, exec_command env io stk (full_cdb vs a, s))"
  using assms
proof (induction vs arbitrary: a fs)
  case Nil
  then show ?case by (auto simp: acsi_inv_def)
next
  case (Cons v vs)
  then obtain g gs where fs: "fs = g # gs" "length gs = length vs" by (metis length_Suc_conv)
  let ?b = "put_cdb v a"
  have same: "(put_cdb v a)\<lparr>cdb_len := (if icd a \<and> cdb_got a = 1 then icd_cdb_len v else cdb_len a)\<rparr> = ?b"
    using Cons.prems(4) by (cases a) (auto simp: put_cdb_def)
  note next_byte = acsi_next_byte [OF Cons.prems(1-3) same [symmetric], where env = env and io = io and stk = stk and first = g and s = s]
  have len: "length (cdb a) = 16" "cdb_len a \<le> 13" "cdb_got a < 16" using Cons.prems(1,2) by (auto simp: acsi_inv_def)
  then have upd: "(cdb a)[cdb_got a := v] = take (cdb_got a) (cdb a) @ v # drop (Suc (cdb_got a)) (cdb a)"
    by (simp add: upd_conv_take_nth_drop)
  show ?case
  proof (cases "vs = []")
    case True
    then have "?b\<lparr>irq := False\<rparr> = full_cdb [v] a" by (simp add: full_cdb_def put_cdb_def upd)
    moreover have "\<not> cdb_got ?b < cdb_len ?b" using Cons.prems(6) True by (simp add: put_cdb_def)
    ultimately show ?thesis using True fs by (simp add: next_byte)
  next
    case False
    then have lt: "cdb_got ?b < cdb_len ?b" using Cons.prems(6) by (cases vs) (simp_all add: put_cdb_def)
    have inv: "acsi_inv (?b\<lparr>irq := True\<rparr>)" by (rule acsi_inv_next(1) [OF Cons.prems(1,2) same [symmetric] lt])
    have "full_cdb vs (?b\<lparr>irq := True\<rparr>) = full_cdb (v # vs) a"
      using len by (simp add: full_cdb_def put_cdb_def upd min_def add.commute)
    moreover have "acsi_bytes env io stk (zip vs gs) (?b\<lparr>irq := True\<rparr>, s) =
        (replicate (length vs) True, exec_command env io stk (full_cdb vs (?b\<lparr>irq := True\<rparr>), s))"
      using Cons.prems fs(2) by (intro Cons.IH [OF inv]) (simp_all add: put_cdb_def)
    ultimately show ?thesis using lt fs(1) by (simp add: next_byte)
  qed
qed

text \<open>The state before the first image is attached, and what the guest and the host do to it.\<close>

definition no_target :: acsi_target where
  "no_target = \<lparr>t_fd = - 1, t_path = '''', t_hfs = False, t_total_lba = 0, t_root = replicate 512 0, t_sense = 0,
     t_sense_lba = 0, t_probed = False, t_swapped = False\<rparr>"

definition acsi_boot :: "(int \<Rightarrow> u8 list) \<Rightarrow> acsi_state" where
  "acsi_boot files = \<lparr>tgt = replicate ACSI_MAX_TARGETS no_target, n_targets = 0, phase = PH_IDLE, cur_id = - 1,
     cdb = replicate 16 0, cdb_len = 0, cdb_got = 0, icd = False, status_byte = 0, irq = False, owns = False,
     status_valid = False, residual = 0, dma_fifo = [], dma_addr = 0, dma_status = 0, acsi_files = files\<rparr>"

inductive acsi_step :: "'a acsi_world \<Rightarrow> 'a acsi_world \<Rightarrow> bool" where
  attach: "acsi_step (a, s) (snd (acsi_attach io modes path a), s)"
| cmd: "acsi_step (a, s) (snd (acsi_cmd_byte env io stk v first (a, s)))"
| status: "acsi_step (a, s) (snd (acsi_status_read a), s)"
| release: "acsi_step (a, s) (acsi_release a, s)"
| toggle: "acsi_step (a, s) (acsi_dma_fifo_reset a, s)"
| base: "acsi_step (a, s) (a\<lparr>dma_addr := p\<rparr>, s)"
| other: "acsi_step (a, s) (a, t)"

lemma acsi_inv_attach_path: "acsi_inv a \<Longrightarrow> acsi_inv (snd (acsi_attach io modes path a))"
  by (auto simp: acsi_attach_def acsi_inv_attach split: list.split)

interpretation acsi_sys: invariant_system "\<lambda>w :: 'a acsi_world. \<exists>files. fst w = acsi_boot files" acsi_step "\<lambda>w. acsi_inv (fst w)"
proof
  fix w :: "'a acsi_world"
  assume "\<exists>files. fst w = acsi_boot files"
  then show "acsi_inv (fst w)" by (auto simp: acsi_boot_def acsi_inv_def c_const)
next
  fix w w' :: "'a acsi_world"
  assume inv: "acsi_inv (fst w)" and "acsi_step w w'"
  from this(2) show "acsi_inv (fst w')"
    using inv
    by cases (simp_all add: acsi_inv_attach_path acsi_inv_cmd_byte acsi_inv_status acsi_inv_release acsi_dma_fifo_reset_def,
      auto simp: acsi_inv_def cur_target_def)
qed

section \<open>Images stored byte-swapped\<close>

text \<open>What attaching an image that is not a bare HFS volume leaves.\<close>

lemma attach_plain:
  assumes "acsi_attach_at io modes id0 path a = (int i, a')" and "io_open io path = Some fd" and "\<not> hfs_suffix path"
  shows "a' = a\<lparr>tgt := (tgt a)[i := (tgt a ! i)\<lparr>t_fd := fd, t_path := take 255 path, t_hfs := False, t_sense := 0,
      t_total_lba := of_nat (length (acsi_files a fd) div 512),
      t_swapped := (disk_order_resolve (acsi_files a fd) (disk_order_get_acsi (int i) modes) = 1)\<rparr>], n_targets := n_targets a + 1\<rparr>"
    "i = (if id0 < 0 then free_id a else nat id0)" "i < ACSI_MAX_TARGETS" "t_fd (tgt a ! i) < 0" "io_stat_ok io fd"
    "512 \<le> length (acsi_files a fd)"
  using assms unfolding acsi_attach_at_def Let_def by (auto simp: not_le not_less split: if_splits)

text \<open>The same attach with another content of the same length.\<close>

lemma attach_other_content:
  assumes "acsi_attach_at io modes id0 path a = (int i, a')" and "io_open io path = Some fd"
    and "b = a\<lparr>acsi_files := (acsi_files a)(fd := g)\<rparr>" and "length g = length (acsi_files a fd)"
  shows "fst (acsi_attach_at io modes id0 path b) = int i"
  using assms unfolding acsi_attach_at_def Let_def free_id_def by (simp split: if_splits)

lemma swap_sector:
  "even off \<Longrightarrow> take 512 (drop off (disk_swap512 f)) = disk_swap512 (take 512 (drop off f))"
  by (simp add: drop_disk_swap512 take_disk_swap512)

lemma swap_patch:
  assumes "even off" "off + length bs \<le> length f" "even (length bs)"
  shows "file_patch off (disk_swap512 bs) (disk_swap512 f) = disk_swap512 (file_patch off bs f)"
  using assms
  by (simp add: file_patch_def drop_disk_swap512 take_disk_swap512 disk_swap512_append)

section \<open>Properties\<close>

text \<open>A board with one raw image of two sectors.\<close>

definition disk_board_io :: disk_io where
  "disk_board_io = \<lparr>io_open = (\<lambda>p. if p = ''d.img'' then Some 3 else None), io_stat_ok = (\<lambda>_. True),
     io_read_ok = (\<lambda>_ _. True), io_write_ok = (\<lambda>_ _. True)\<rparr>"

definition one_disk :: acsi_state where
  "one_disk = (acsi_boot (\<lambda>_. replicate 1024 0xE5))\<lparr>tgt := (replicate 8 no_target)[2 := no_target\<lparr>t_fd := 3, t_total_lba := 2\<rparr>],
     n_targets := 1, cur_id := 2\<rparr>"

lemma one_disk_facts:
  "acsi_inv one_disk" "phase one_disk = PH_IDLE" "n_targets one_disk = 1" "dma_fifo one_disk = []"
  "tgt one_disk ! 2 = no_target\<lparr>t_fd := 3, t_total_lba := 2\<rparr>" "cur_target one_disk = tgt one_disk ! 2"
  "io_good disk_board_io" "target_ok one_disk (cur_target one_disk)"
  by (simp_all add: one_disk_def acsi_boot_def acsi_inv_def cur_target_def no_target_def io_good_def disk_board_io_def target_ok_def)

lemma disk_state_st_ram: "st_ram disk_state"
  by (simp add: st_ram_def disk_facts)

text \<open>C13: a target counts the bytes of a command itself. A driver that addresses an attached target with the first
  byte and then sends the remaining bytes of the command (six in all, or for the extended commands the length of the
  SCSI group plus one) has every byte taken, whatever A1 does after the first, and the command runs exactly once,
  after the last byte, on exactly those bytes.\<close>

theorem acsi_cdb_any_a1:
  assumes "acsi_inv a" and "phase a \<noteq> PH_CDB" and "0 < n_targets a" and "0 \<le> t_fd (tgt a ! unat (drop_bit 5 v))"
    and "Suc (length vs) = (if v AND 0x1F = 0x1F then icd_cdb_len (hd vs) else 6)" and "length fs = length vs"
  shows "\<exists>b. acsi_bytes env io stk ((v, True) # zip vs fs) (a, s) =
      (replicate (Suc (length vs)) True, exec_command env io stk (b, s)) \<and>
    cur_id b = int (unat (drop_bit 5 v)) \<and> icd b = (v AND 0x1F = 0x1F) \<and> take (Suc (length vs)) (cdb b) = (v AND 0x1F) # vs \<and>
    tgt b = tgt a \<and> acsi_files b = acsi_files a \<and> dma_addr b = dma_addr a \<and> dma_fifo b = dma_fifo a"
proof -
  define a1 where "a1 = (put_cdb (v AND 0x1F) (a\<lparr>cur_id := int (unat (drop_bit 5 v)), owns := True, phase := PH_CDB,
    status_valid := False, icd := (v AND 0x1F = 0x1F), cdb_got := 0, cdb_len := (if v AND 0x1F = 0x1F then 2 else 6)\<rparr>))\<lparr>residual := 0, irq := True\<rparr>"
  have first: "acsi_cmd_byte env io stk v True (a, s) = (True, a1, s)"
    using assms(2-4) by (simp add: acsi_cmd_byte_def Let_def a1_def)
  have inv: "acsi_inv a1" unfolding a1_def by (rule acsi_inv_first [OF assms(1,4)])
  have len: "length (cdb a) = 16" using assms(1) by (simp add: acsi_inv_def)
  show ?thesis
  proof (cases "v AND 0x1F = 0x1F")
    case False
    have "acsi_bytes env io stk (zip vs fs) (a1, s) = (replicate (length vs) True, exec_command env io stk (full_cdb vs a1, s))"
      using assms(3,5,6) False by (intro acsi_bytes_rest [OF inv]) (simp_all add: a1_def put_cdb_def)
    then show ?thesis
      using False len by (intro exI [of _ "full_cdb vs a1"]) (simp add: first full_cdb_def a1_def put_cdb_def take_Suc_conv_app_nth)
  next
    case True
    then obtain u us where vs: "vs = u # us" using assms(5) icd_cdb_len_bounds(1) [of "hd vs"] by (cases vs) auto
    then obtain g gs where fs: "fs = g # gs" "length gs = length us" using assms(6) by (metis length_Suc_conv)
    define a2 where "a2 = (put_cdb u a1)\<lparr>cdb_len := icd_cdb_len u, irq := True\<rparr>"
    have l: "Suc (Suc (length us)) = icd_cdb_len u" "7 \<le> icd_cdb_len u" using assms(5) True vs icd_cdb_len_bounds by simp_all
    have "acsi_cmd_byte env io stk u g (a1, s) = (True, a2, s)"
      using acsi_next_byte [OF inv _ _ refl, where v = u and env = env and io = io and stk = stk and first = g and s = s] True l(2) assms(3) by (simp add: a1_def a2_def put_cdb_def)
    moreover have "acsi_inv a2"
      using acsi_inv_next(1) [OF inv _ refl, of u] True l(2) by (simp add: a1_def a2_def put_cdb_def)
    then have "acsi_bytes env io stk (zip us gs) (a2, s) = (replicate (length us) True, exec_command env io stk (full_cdb us a2, s))"
      using assms(3) l(1) fs(2) by (intro acsi_bytes_rest) (simp_all add: a2_def a1_def put_cdb_def)
    ultimately show ?thesis
      using True len by (intro exI [of _ "full_cdb us a2"]) (simp add: first vs fs(1) full_cdb_def a2_def a1_def put_cdb_def numeral_2_eq_2 take_Suc_conv_app_nth)
  qed
qed

theorem acsi_cdb_any_a1_witness:
  "\<exists>b. acsi_bytes disk_env disk_board_io [] [(0x48, True), (0, True), (0, False), (1, True), (1, False), (0, True)] (one_disk, disk_state) =
      (replicate 6 True, exec_command disk_env disk_board_io [] (b, disk_state)) \<and> cur_id b = 2 \<and>
    take 6 (cdb b) = [0x08, 0, 0, 1, 1, 0]"
proof -
  let ?run = "acsi_bytes disk_env disk_board_io []"
  have z: "(0x48, True) # zip [0, 0, 1, 1, 0] [True, False, True, False, True] =
      [(0x48 :: u8, True), (0 :: u8, True), (0, False), (1, True), (1, False), (0, True)]" by simp
  have "\<exists>b. ?run ((0x48, True) # zip [0, 0, 1, 1, 0] [True, False, True, False, True]) (one_disk, disk_state) =
      (replicate (Suc (length [0 :: u8, 0, 1, 1, 0])) True, exec_command disk_env disk_board_io [] (b, disk_state)) \<and>
    cur_id b = int (unat (drop_bit 5 (0x48 :: u8))) \<and> icd b = ((0x48 :: u8) AND 0x1F = 0x1F) \<and>
    take (Suc (length [0 :: u8, 0, 1, 1, 0])) (cdb b) = (0x48 AND 0x1F) # [0, 0, 1, 1, 0] \<and>
    tgt b = tgt one_disk \<and> acsi_files b = acsi_files one_disk \<and> dma_addr b = dma_addr one_disk \<and> dma_fifo b = dma_fifo one_disk"
    by (rule acsi_cdb_any_a1) (simp_all add: one_disk_facts)
  moreover have "Suc (length [0 :: u8, 0, 1, 1, 0]) = 6" "int (unat (drop_bit 5 (0x48 :: u8))) = 2" "(0x48 AND 0x1F :: u8) = 0x08"
    by simp_all
  ultimately show ?thesis unfolding z by (metis (no_types, lifting))
qed

text \<open>C21: in every state that attaching images, command bytes with any value and any A1, status reads, direction
  toggles and register writes lead to, the command buffer of 16 bytes and the FIFO of 16 bytes have room for the next
  byte, a command under way belongs to an attached target, and a status read while a command is incomplete
  reports CHECK CONDITION, never the good status of an earlier command.\<close>

theorem acsi_reachable_safe:
  assumes "reach (\<lambda>w. \<exists>files. fst w = acsi_boot files) acsi_step (a, s)"
  shows "length (dma_fifo a) < 16 \<and> (phase a = PH_CDB \<longrightarrow> cdb_got a < length (cdb a) \<and> cdb_len a \<le> length (cdb a) \<and>
    0 \<le> cur_id a \<and> cur_id a < int ACSI_MAX_TARGETS \<and> 0 \<le> t_fd (cur_target a) \<and> fst (acsi_status_read a) = 0x02)"
  using acsi_sys.reach_inv [OF assms] by (auto simp: acsi_inv_def acsi_status_read_def Let_def c_const)

theorem acsi_reachable_safe_witness:
  "\<exists>a :: acsi_state. reach (\<lambda>w. \<exists>files. fst w = acsi_boot files) acsi_step (a, disk_state) \<and> phase a = PH_CDB \<and>
     fst (acsi_status_read a) = 0x02"
proof -
  let ?a = "snd (acsi_attach disk_board_io \<lparr>hdd_mode = [], acsi_mode = replicate 8 DISK_ORDER_SWAPPED\<rparr> ''2:d.img''
    (acsi_boot (\<lambda>_. replicate 1024 0xE5)))"
  let ?w = "snd (acsi_cmd_byte disk_env disk_board_io [] 0x48 True (?a, disk_state))"
  have "reach (\<lambda>w. \<exists>files. fst w = acsi_boot files) acsi_step (acsi_boot (\<lambda>_. replicate 1024 0xE5), disk_state)"
    by (rule reach.start) auto
  then have "reach (\<lambda>w. \<exists>files. fst w = acsi_boot files) acsi_step (?a, disk_state)"
    by (rule reach.step) (rule acsi_step.attach)
  then have r: "reach (\<lambda>w. \<exists>files. fst w = acsi_boot files) acsi_step ?w" by (rule reach.step) (rule acsi_step.cmd)
  have "phase ?a = PH_IDLE \<and> n_targets ?a = 1 \<and> t_fd (tgt ?a ! 2) = 3"
    by (simp add: acsi_attach_def acsi_attach_at_def acsi_boot_def disk_board_io_def c_const no_target_def Let_def)
  then have "phase (fst ?w) = PH_CDB \<and> snd ?w = disk_state" by (simp add: acsi_cmd_byte_def put_cdb_def Let_def)
  then obtain b where b: "?w = (b, disk_state)" "phase b = PH_CDB" by (metis prod.collapse)
  with r acsi_reachable_safe [of b disk_state] show ?thesis by auto
qed

text \<open>C10: what the guest writes to an emulated disk it reads back. For a raw, a byte-swapped and an HFS image alike,
  a WRITE of any number of blocks from address \<open>p\<close> followed by a READ of the same blocks to address \<open>q\<close>
  ends both commands with good status, leaves the sectors of the disk outside the range as they were, and
  leaves at \<open>q\<close> the bytes that were at \<open>p\<close>, with all other memory unchanged. Block 0 of an HFS volume is
  synthesised and read-only; there the range starts at block 1.\<close>

theorem acsi_disk_roundtrip:
  assumes "io_good io" and "target_ok a (cur_target a)" and "st_ram s" and "dma_fifo a = []"
    and "unat lba + unat blocks \<le> unat (t_total_lba (cur_target a))" and "t_hfs (cur_target a) \<Longrightarrow> 0 < unat lba"
    and "unat p + unat blocks * 512 \<le> 0x400000" and "unat q + unat blocks * 512 \<le> 0x400000"
    and "exec_write io buf lba blocks (a\<lparr>dma_addr := p\<rparr>, s) = (a1, s1)"
    and "exec_read env io lba blocks (a1\<lparr>dma_addr := q\<rparr>, s1) = (a2, s2)"
  shows "status_byte a1 = 0 \<and> status_byte a2 = 0 \<and>
    (\<forall>k < unat (t_total_lba (cur_target a)). \<not> (unat lba \<le> k \<and> k < unat lba + unat blocks) \<longrightarrow>
       disk_sector io (cur_target a) a2 k = disk_sector io (cur_target a) a k) \<and>
    (\<forall>x. natmem_byte s2 x = (if unat q \<le> unat x \<and> unat x < unat q + unat blocks * 512
       then natmem_byte s (p + (x - q)) else natmem_byte s x))"
proof -
  let ?t = "cur_target a"
  let ?a = "a\<lparr>dma_addr := p\<rparr>"
  obtain f where e: "exec_write io buf lba blocks (?a, s) =
      (finish_good (?a\<lparr>acsi_files := f, dma_addr := dma_addr ?a + blocks * 512, residual := 0\<rparr>), s)"
    "target_ok (?a\<lparr>acsi_files := f\<rparr>) (cur_target ?a)"
    "disk_written io (cur_target ?a) ?a (?a\<lparr>acsi_files := f\<rparr>) (unat lba) (unat blocks) (nm_anon s) (dma_addr ?a)"
    by (rule exec_write_disk [OF assms(1), of ?a s lba blocks buf]) (use assms(2,3,5,7) in simp_all)
  have w: "a1 = finish_good (a\<lparr>acsi_files := f, dma_addr := p + blocks * 512, residual := 0\<rparr>)" "s1 = s"
    using e(1) assms(9) by (simp_all add: files_dma_commute)
  have w': "target_ok (a\<lparr>acsi_files := f\<rparr>) ?t" "disk_written io ?t a (a\<lparr>acsi_files := f\<rparr>) (unat lba) (unat blocks) (nm_anon s) p"
    using e(2,3) by (simp_all add: files_dma_commute disk_written_def)
  obtain sns l where t1: "cur_target a1 = ?t\<lparr>t_sense := sns, t_sense_lba := l\<rparr>"
    using cur_target_finish [of "0x00" SENSE_NONE 0 "a\<lparr>acsi_files := f, dma_addr := p + blocks * 512, residual := 0\<rparr>"]
    by (auto simp: w(1) finish_good_def)
  have files: "acsi_files a1 = f" "dma_fifo a1 = []" using assms(4) by (simp_all add: w(1) finish_good_def)
  have sec: "disk_sector io ?t b = disk_sector io ?t (a\<lparr>acsi_files := f\<rparr>)" if "acsi_files b = f" for b
    using that by (intro ext) (simp add: disk_sector_def read_lba_def sector_read_def)
  obtain t where r: "a2 = finish_good (a1\<lparr>dma_addr := q + blocks * 512, residual := 0\<rparr>)" "s2 = t"
    "pulled q (disk_bytes io ?t (a1\<lparr>dma_addr := q\<rparr>) (unat lba) (unat blocks)) s t"
    using exec_read_disk [OF assms(1), of "a1\<lparr>dma_addr := q\<rparr>" s lba blocks env] assms(3,5,8,10) w(2) w'(1) t1 files
    by (auto simp: target_ok_def)
  have "disk_bytes io ?t (a1\<lparr>dma_addr := q\<rparr>) (unat lba) (unat blocks) =
      map (\<lambda>x. nm_anon s (of_nat x)) [unat p..<unat p + unat blocks * 512]"
    using w'(2) assms(5-7) sec [of a1] files(1)
    by (intro disk_bytes_sectors) (auto simp: disk_written_def on_file_def)
  then obtain j g h b ba where m: "s2 = bus_seen h b ba (wrote q (map (\<lambda>x. nm_anon s (of_nat x)) [unat p..<unat p + unat blocks * 512]) j g s)"
    using r(2,3) by (auto simp: pulled_def)
  have "flat s" "flat s2" using assms(3) m by (simp_all add: st_ram_def)
  then have "natmem_byte s2 x = (if unat q \<le> unat x \<and> unat x < unat q + unat blocks * 512
       then natmem_byte s (p + (x - q)) else natmem_byte s x)" for x
    by (auto simp: natmem_byte_flat m wrote_def put_bytes_def less_diff_conv2 algebra_simps)
  moreover have "disk_sector io ?t a2 k = disk_sector io ?t a k"
    if "k < unat (t_total_lba ?t)" "\<not> (unat lba \<le> k \<and> k < unat lba + unat blocks)" for k
    using w'(2) that sec [of a2] files(1) by (auto simp: r(1) finish_good_def disk_written_def)
  moreover have "status_byte a1 = 0" "status_byte a2 = 0" by (simp_all add: w(1) r(1) finish_good_def)
  ultimately show ?thesis by blast
qed

theorem acsi_disk_roundtrip_witness:
  "\<exists>a1 s1 a2 s2. exec_write disk_board_io [] 1 1 (one_disk\<lparr>dma_addr := 0x1000\<rparr>, disk_state) = (a1, s1) \<and>
     exec_read disk_env disk_board_io 1 1 (a1\<lparr>dma_addr := 0x2000\<rparr>, s1) = (a2, s2) \<and> status_byte a2 = 0 \<and>
     natmem_byte s2 0x2005 = natmem_byte disk_state 0x1005 \<and> natmem_byte s2 0x2200 = natmem_byte disk_state 0x2200"
proof -
  obtain a1 s1 where w: "exec_write disk_board_io [] 1 1 (one_disk\<lparr>dma_addr := 0x1000\<rparr>, disk_state) = (a1, s1)" by fastforce
  obtain a2 s2 where r: "exec_read disk_env disk_board_io 1 1 (a1\<lparr>dma_addr := 0x2000\<rparr>, s1) = (a2, s2)" by fastforce
  note acsi_disk_roundtrip [OF one_disk_facts(7,8) disk_state_st_ram one_disk_facts(4) _ _ _ _ w r]
  then show ?thesis using w r by (simp add: one_disk_facts(5,6) no_target_def)
qed

text \<open>C25: the byte order an image was dumped in does not matter on the ACSI bus. When the order of an image
  that is not a bare HFS volume is left to detection and sector 0 decides, the image and its byte-swapped
  twin are attached as the same target, one of the two as a swapped file: every sector of the one reads as
  the same sector of the other, sector 0 as the order that scores higher, and after the same write they are
  twins still.\<close>

theorem acsi_order_irrelevant:
  assumes "acsi_attach_at io modes id0 path a = (int i, a')" and "i < length (tgt a)" and "io_open io path = Some fd" and "\<not> hfs_suffix path"
    and "disk_order_get_acsi (int i) modes = DISK_ORDER_AUTO" and "disk_order_detect (acsi_files a fd) \<noteq> - 1"
    and "acsi_attach_at io modes id0 path (a\<lparr>acsi_files := (acsi_files a)(fd := disk_swap512 (acsi_files a fd))\<rparr>) = (k, b')"
  shows "k = int i \<and> t_total_lba (tgt b' ! i) = t_total_lba (tgt a' ! i) \<and>
    t_swapped (tgt b' ! i) = (\<not> t_swapped (tgt a' ! i)) \<and>
    (\<forall>lba. read_lba io (tgt b' ! i) lba b' = read_lba io (tgt a' ! i) lba a') \<and>
    (\<forall>buf. read_lba io (tgt a' ! i) 0 a' = Some buf \<longrightarrow> score (disk_swap512 buf) < score buf) \<and>
    (\<forall>lba buf ok a2. lba < t_total_lba (tgt a' ! i) \<and> length buf = 512 \<and> write_lba io (tgt a' ! i) lba buf a' = (ok, a2) \<longrightarrow>
       (\<exists>b2. write_lba io (tgt b' ! i) lba buf b' = (ok, b2) \<and> acsi_files b2 fd = disk_swap512 (acsi_files a2 fd)))"
proof -
  let ?f = "acsi_files a fd"
  let ?b = "a\<lparr>acsi_files := (acsi_files a)(fd := disk_swap512 ?f)\<rparr>"
  note twin = disk_order_detect_twin [OF assms(6)]
  have k: "k = int i" using attach_other_content [OF assms(1,3), of ?b "disk_swap512 ?f"] assms(7) by simp
  note pa = attach_plain [OF assms(1,3,4)] and pb = attach_plain [OF assms(7) [unfolded k] assms(3,4)]
  have ra: "disk_order_resolve ?f DISK_ORDER_AUTO = 1 \<longleftrightarrow> disk_order_detect ?f = 1"
    "disk_order_resolve (disk_swap512 ?f) DISK_ORDER_AUTO = 1 \<longleftrightarrow> disk_order_detect ?f \<noteq> 1"
    using twin(1) by (auto simp: disk_order_resolve_def Let_def)
  have fa: "acsi_files a' = acsi_files a" "acsi_files b' = (acsi_files a)(fd := disk_swap512 ?f)" using pa(1) pb(1) by simp_all
  have ta: "t_fd (tgt a' ! i) = fd" "\<not> t_hfs (tgt a' ! i)" "t_swapped (tgt a' ! i) = (disk_order_detect ?f = 1)"
    "t_total_lba (tgt a' ! i) = of_nat (length ?f div 512)"
    using assms(2,5) unfolding pa(1) by (simp_all add: ra)
  have tb: "t_fd (tgt b' ! i) = fd" "\<not> t_hfs (tgt b' ! i)" "t_swapped (tgt b' ! i) = (disk_order_detect ?f \<noteq> 1)"
    "t_total_lba (tgt b' ! i) = of_nat (length ?f div 512)"
    using assms(2,5) unfolding pb(1) by (simp_all add: ra)
  have reads: "read_lba io (tgt b' ! i) lba b' = read_lba io (tgt a' ! i) lba a'" for lba
    by (auto simp: read_lba_def ta tb sector_read_def fa swap_sector)
  have zero: "score (disk_swap512 buf) < score buf" if "read_lba io (tgt a' ! i) 0 a' = Some buf" for buf
    using that twin(4,5) by (auto simp: read_lba_def ta sector_read_def fa split: if_splits)
  have writes: "\<exists>b2. write_lba io (tgt b' ! i) lba buf b' = (ok, b2) \<and> acsi_files b2 fd = disk_swap512 (acsi_files a2 fd)"
    if w: "lba < t_total_lba (tgt a' ! i)" "length buf = 512" "write_lba io (tgt a' ! i) lba buf a' = (ok, a2)" for lba buf ok a2
  proof -
    have "unat lba < length ?f div 512"
      using w(1) mod_less_eq_dividend [of "length ?f div 512" "2 ^ 32"] by (simp add: ta word_less_nat_alt unat_of_nat)
    then have in_file: "unat lba * 512 + 512 \<le> length ?f" by linarith
    show ?thesis
      using w(2,3) in_file fa(1) swap_patch [of "unat lba * 512" buf ?f] swap_patch [of "unat lba * 512" "disk_swap512 buf" ?f]
      by (auto simp: write_lba_def ta tb sector_write_def fa(2) split: if_splits)
  qed
  show ?thesis using k reads zero writes by (simp add: ta tb)
qed

text \<open>A one-sector image with a DOS boot record, stored swapped and stored as it is.\<close>

definition auto_modes :: disk_modes where
  "auto_modes = \<lparr>hdd_mode = replicate 8 0, acsi_mode = replicate 8 0\<rparr>"

definition swapped_disk :: acsi_state where
  "swapped_disk = acsi_boot (\<lambda>_. disk_swap512 mbr_image)"

definition plain_disk :: acsi_state where
  "plain_disk = swapped_disk\<lparr>acsi_files := (acsi_files swapped_disk)(3 := mbr_image)\<rparr>"

lemma swapped_disk_attach:
  "\<exists>a'. acsi_attach_at disk_board_io auto_modes 0 ''d.img'' swapped_disk = (int 0, a')"
  by (simp add: acsi_attach_at_def swapped_disk_def acsi_boot_def no_target_def disk_board_io_def c_const Let_def mbr_image_def)

theorem acsi_order_irrelevant_witness:
  "\<exists>a' b'. acsi_attach_at disk_board_io auto_modes 0 ''d.img'' swapped_disk = (0, a') \<and>
     acsi_attach_at disk_board_io auto_modes 0 ''d.img'' plain_disk = (0, b') \<and> t_swapped (tgt b' ! 0) = (\<not> t_swapped (tgt a' ! 0)) \<and>
     (\<forall>lba. read_lba disk_board_io (tgt b' ! 0) lba b' = read_lba disk_board_io (tgt a' ! 0) lba a')"
proof -
  obtain a' where a: "acsi_attach_at disk_board_io auto_modes 0 ''d.img'' swapped_disk = (int 0, a')"
    using swapped_disk_attach by blast
  have files: "acsi_files swapped_disk 3 = disk_swap512 mbr_image" by (simp add: swapped_disk_def acsi_boot_def)
  obtain k b' where b: "acsi_attach_at disk_board_io auto_modes 0 ''d.img''
      (swapped_disk\<lparr>acsi_files := (acsi_files swapped_disk)(3 := disk_swap512 (acsi_files swapped_disk 3))\<rparr>) = (k, b')" by fastforce
  have d: "disk_order_detect (acsi_files swapped_disk 3) \<noteq> - 1"
    unfolding files using disk_order_detect_twin(2) [of mbr_image] mbr_image_native by simp
  have "io_open disk_board_io ''d.img'' = Some 3" "\<not> hfs_suffix ''d.img''" "0 < length (tgt swapped_disk)"
    "disk_order_get_acsi (int 0) auto_modes = DISK_ORDER_AUTO"
    by (simp_all add: disk_board_io_def hfs_suffix_def swapped_disk_def acsi_boot_def disk_order_get_acsi_def auto_modes_def c_const lower_def)
  then show ?thesis
    using acsi_order_irrelevant [OF a _ _ _ _ d b] a b unfolding plain_disk_def files by auto
qed

end
