(* ===== verification/Msa.thy ===== *)
theory Msa
  imports Prelude
begin

text \<open>
  MSA floppy archives (\<open>msa_open_decoded\<close> in \<open>platforms/atari/fdd/atari_fdd.c\<close>): header, run-length coded tracks
  and the raw image they stand for. Whether the host can allocate memory and write the temporary file is an
  argument; log lines are left out.
\<close>

section \<open>Decoding\<close>

definition msa_word :: "u8 list \<Rightarrow> nat \<Rightarrow> u16" where
  "msa_word raw i = push_bit 8 (ucast (raw ! i)) OR ucast (raw ! (i + 1))"

text \<open>The loop over the bytes of a coded track with room for \<open>n\<close> bytes: what it writes, \<^const>\<open>None\<close> for \<open>goto bad\<close>.\<close>

function msa_rle :: "u8 list \<Rightarrow> nat \<Rightarrow> u8 list option" where
  "msa_rle bs n =
     (if bs = [] \<or> n = 0 then Some []
      else
        (let b = hd bs; rest = tl bs in
         if b \<noteq> 0xE5 then map_option ((#) b) (msa_rle rest (n - 1))
         else if length rest < 3 then None
         else
           (let v = rest ! 0; m = min (unat (msa_word rest 1)) n
            in map_option ((@) (replicate m v)) (msa_rle (drop 3 rest) (n - m)))))"
  by pat_completeness auto
termination by (relation "measure (\<lambda>(bs, n). length bs)") (auto simp: neq_Nil_conv)

declare msa_rle.simps [simp del]

text \<open>One track: the block of the archive and the bytes of the image, which was cleared before.\<close>

definition msa_track :: "nat \<Rightarrow> u8 list \<Rightarrow> u8 list option" where
  "msa_track tlen blk =
     (if length blk = tlen then Some blk
      else map_option (\<lambda>xs. xs @ replicate (tlen - length xs) 0) (msa_rle blk tlen))"

text \<open>The loop over the tracks: tracks left, bytes written so far, the archive from \<open>src\<close> on.\<close>

fun msa_tracks :: "nat \<Rightarrow> nat \<Rightarrow> nat \<Rightarrow> nat \<Rightarrow> u8 list \<Rightarrow> u8 list option" where
  "msa_tracks tlen tot 0 dst raw = Some []"
| "msa_tracks tlen tot (Suc k) dst raw =
     (if length raw < 2 then None
      else
        (let dlen = unat (msa_word raw 0) in
         if length raw < 2 + dlen \<or> tot < dst + tlen then None
         else case msa_track tlen (take dlen (drop 2 raw)) of None \<Rightarrow> None
         | Some xs \<Rightarrow> map_option ((@) xs) (msa_tracks tlen tot k (dst + tlen) (drop (2 + dlen) raw))))"

datatype msa_result = Not_Msa | Bad_Msa | Decoded "u8 list"

definition msa_decode :: "u8 list \<Rightarrow> u8 list option" where
  "msa_decode raw =
     (let spt = msa_word raw 2; sides = msa_word raw 4 + 1; tstart = msa_word raw 6; tend = msa_word raw 8;
          tlen = 512 * ucast spt :: u32;
          ntracks = ucast tend - ucast tstart + 1 :: u32;
          tot = tlen * ucast sides * ntracks
      in if spt = 0 \<or> spt > 12 \<or> sides > 2 \<or> tend < tstart \<or> tot > 2048 * 1024 then None
         else msa_tracks (unat tlen) (unat tot) (unat (ntracks * ucast sides)) 0 (drop 10 raw))"

text \<open>\<open>file\<close> is the content of the file, \<^const>\<open>None\<close> when it cannot be opened.\<close>

definition msa_open_decoded :: "bool \<Rightarrow> u8 list option \<Rightarrow> msa_result" where
  "msa_open_decoded host_ok file =
     (case file of None \<Rightarrow> Not_Msa
      | Some raw \<Rightarrow>
          if length raw < 2 \<or> raw ! 0 \<noteq> 0x0E \<or> raw ! 1 \<noteq> 0x0F then Not_Msa
          else if length raw < 12 \<or> length raw > 2 * 1024 * 1024 \<or> \<not> host_ok then Bad_Msa
          else case msa_decode raw of None \<Rightarrow> Bad_Msa | Some img \<Rightarrow> Decoded img)"

section \<open>What an archive stands for\<close>

definition bytes16 :: "nat \<Rightarrow> u8 list" where
  "bytes16 n = [of_nat (n div 256), of_nat n]"

lemma word_bytes16:
  assumes "n < 65536" "length pre = i"
  shows "unat (msa_word (pre @ bytes16 n @ post) i) = n"
proof -
  have h: "unat (of_nat (n div 256) :: u8) = n div 256" using assms(1) by (simp add: unat_of_nat)
  have l: "unat (of_nat n :: u8) = n mod 256" by (simp add: unat_of_nat)
  have "unat (push_bit 8 (ucast (of_nat (n div 256) :: u8)) OR ucast (of_nat n :: u8) :: u16) = 2 ^ 8 * (n div 256) + n mod 256"
    using assms(1) h l by (subst unat_push_bit_or) (simp_all add: unsigned_ucast_eq take_bit_nat_eq_self)
  then have "unat (push_bit 8 (ucast (of_nat (n div 256) :: u8)) OR ucast (of_nat n :: u8) :: u16) = n" by simp
  then show ?thesis using assms(2) by (simp add: msa_word_def bytes16_def nth_append)
qed

text \<open>The run-length codes of a track: a byte other than \<open>$E5\<close> stands for itself, \<open>$E5 v hi lo\<close> for a run.\<close>

inductive rle_of :: "u8 list \<Rightarrow> u8 list \<Rightarrow> bool" where
  nil: "rle_of [] []"
| lit: "rle_of (b # xs) (b # c)" if "b \<noteq> 0xE5" "rle_of xs c"
| run: "rle_of (replicate n v @ xs) (0xE5 # v # bytes16 n @ c)" if "0 < n" "n < 65536" "rle_of xs c"

lemma msa_rle_of: "rle_of xs c \<Longrightarrow> length xs \<le> n \<Longrightarrow> msa_rle c n = Some xs"
proof (induction arbitrary: n rule: rle_of.induct)
  case nil
  then show ?case by (simp add: msa_rle.simps)
next
  case (lit b xs c)
  then show ?case by (subst msa_rle.simps) simp
next
  case (run k xs c v)
  have "unat (msa_word (v # bytes16 k @ c) 1) = k" using word_bytes16 [of k "[v]" 1 c] run.hyps by simp
  moreover have "drop 3 (v # bytes16 k @ c) = c" by (simp add: bytes16_def)
  moreover have "\<not> length (v # bytes16 k @ c) < 3" by (simp add: bytes16_def)
  moreover have "min k n = k" "msa_rle c (n - k) = Some xs" using run by simp_all
  moreover have "n \<noteq> 0" using run by auto
  ultimately show ?case by (subst msa_rle.simps) (simp add: Let_def)
qed

definition track_of :: "u8 list \<Rightarrow> u8 list \<Rightarrow> bool" where
  "track_of xs blk \<longleftrightarrow> blk = xs \<or> (length blk \<noteq> length xs \<and> rle_of xs blk)"

lemma msa_track_of: "track_of xs blk \<Longrightarrow> msa_track (length xs) blk = Some xs"
  using msa_rle_of [of xs blk "length xs"] by (auto simp: track_of_def msa_track_def)

definition msa_block :: "u8 list \<Rightarrow> u8 list" where
  "msa_block blk = bytes16 (length blk) @ blk"

definition msa_file :: "nat \<Rightarrow> nat \<Rightarrow> nat \<Rightarrow> nat \<Rightarrow> u8 list list \<Rightarrow> u8 list" where
  "msa_file spt sides tstart tend blks =
     [0x0E, 0x0F] @ bytes16 spt @ bytes16 (sides - 1) @ bytes16 tstart @ bytes16 tend @ concat (map msa_block blks)"

lemma msa_tracks_of:
  assumes "list_all2 track_of trks blks" "\<forall>t \<in> set trks. length t = tlen" "\<forall>b \<in> set blks. length b < 65536"
    and "dst + length trks * tlen \<le> tot"
  shows "msa_tracks tlen tot (length trks) dst (concat (map msa_block blks)) = Some (concat trks)"
  using assms
proof (induction trks blks arbitrary: dst rule: list_all2_induct)
  case (Cons t ts b bs)
  let ?raw = "msa_block b @ concat (map msa_block bs)"
  have l: "unat (msa_word ?raw 0) = length b"
    using word_bytes16 [of "length b" "[]" 0 "b @ concat (map msa_block bs)"] Cons.prems by (simp add: msa_block_def)
  have d: "drop (2 + length b) ?raw = concat (map msa_block bs)" "take (length b) (drop 2 ?raw) = b" "\<not> length ?raw < 2 + length b"
    by (simp_all add: msa_block_def bytes16_def)
  have "msa_track tlen b = Some t" using msa_track_of [OF Cons.hyps(1)] Cons.prems by simp
  moreover have "msa_tracks tlen tot (length ts) (dst + tlen) (concat (map msa_block bs)) = Some (concat ts)"
    using Cons.prems by (intro Cons.IH) (simp_all add: algebra_simps)
  moreover have "\<not> tot < dst + tlen" using Cons.prems by simp
  ultimately show ?case using l d by (simp add: Let_def)
qed simp

lemma msa_rle_length: "msa_rle bs n = Some xs \<Longrightarrow> length xs \<le> n"
proof (induction bs n arbitrary: xs rule: msa_rle.induct)
  case (1 bs n)
  show ?case
  proof (cases "bs = [] \<or> n = 0")
    case False
    then show ?thesis
      using "1.prems" "1.IH"(1) [OF False refl refl] "1.IH"(2) [OF False refl refl _ _ refl refl]
      by (subst (asm) msa_rle.simps) (fastforce simp: Let_def split: if_splits)
  qed (use "1.prems" in \<open>simp add: msa_rle.simps\<close>)
qed

lemma msa_track_length: "msa_track tlen blk = Some xs \<Longrightarrow> length xs = tlen"
  using msa_rle_length [of blk tlen] by (fastforce simp: msa_track_def split: if_splits)

lemma msa_tracks_length: "msa_tracks tlen tot k dst raw = Some img \<Longrightarrow> length img = k * tlen"
proof (induction k arbitrary: dst raw img)
  case (Suc k)
  then show ?case
    by (fastforce simp: Let_def dest: msa_track_length split: if_splits option.splits)
qed simp

lemma header_fields:
  assumes "spt < 65536" "s1 < 65536" "t0 < 65536" "t1 < 65536"
    and raw_def: "raw = [0x0E, 0x0F] @ bytes16 spt @ bytes16 s1 @ bytes16 t0 @ bytes16 t1 @ post"
  shows "unat (msa_word raw 2) = spt" "unat (msa_word raw 4) = s1" "unat (msa_word raw 6) = t0" "unat (msa_word raw 8) = t1" "drop 10 raw = post"
  using word_bytes16 [OF assms(1), of "[0x0E, 0x0F]" 2 "bytes16 s1 @ bytes16 t0 @ bytes16 t1 @ post"]
    word_bytes16 [OF assms(2), of "[0x0E, 0x0F] @ bytes16 spt" 4 "bytes16 t0 @ bytes16 t1 @ post"]
    word_bytes16 [OF assms(3), of "[0x0E, 0x0F] @ bytes16 spt @ bytes16 s1" 6 "bytes16 t1 @ post"]
    word_bytes16 [OF assms(4), of "[0x0E, 0x0F] @ bytes16 spt @ bytes16 s1 @ bytes16 t0" 8 post]
  by (simp_all add: raw_def bytes16_def)

text \<open>Within the limits the 32-bit products of the header fields do not wrap.\<close>

lemma msa_sizes:
  fixes spt sides t0 t1 :: u16
  assumes "unat spt \<le> 12" "unat sides \<le> 2" "unat t0 \<le> unat t1"
  defines "k \<equiv> unat t1 - unat t0 + 1"
  shows "unat (512 * ucast spt :: u32) = 512 * unat spt"
    "unat ((ucast t1 - ucast t0 + 1) * ucast sides :: u32) = k * unat sides"
    "unat (512 * ucast spt * ucast sides * (ucast t1 - ucast t0 + 1) :: u32) = 512 * unat spt * unat sides * k"
proof -
  have u: "unat (ucast x :: u32) = unat x" for x :: u16
    using unat_less_exp [of x] by (simp add: unsigned_ucast_eq take_bit_nat_eq_self)
  have k: "k \<le> 65536" using unat_less_exp [of t1] by (simp add: k_def)
  have "unat (ucast t1 - ucast t0 :: u32) = unat t1 - unat t0"
    using assms(3) by (subst unat_sub) (simp_all add: u word_le_nat_alt)
  then have n: "unat (ucast t1 - ucast t0 + 1 :: u32) = k"
    using k by (subst unat_add_small) (simp_all add: k_def)
  have m: "unat (x * y) = unat x * unat y" if "unat x * unat y < 2 ^ 32" for x y :: u32
    using that by (simp add: unat_word_ariths)
  show tl: "unat (512 * ucast spt :: u32) = 512 * unat spt" using assms(1) by (subst m) (simp_all add: u)
  have b: "512 * unat spt * unat sides \<le> 512 * 12 * 2" using assms(1,2) by (intro mult_le_mono) simp_all
  have "k * unat sides \<le> 65536 * 2" using k assms(2) by (rule mult_le_mono)
  then show "unat ((ucast t1 - ucast t0 + 1) * ucast sides :: u32) = k * unat sides" by (subst m) (simp_all add: u n)
  have ts: "unat (512 * ucast spt * ucast sides :: u32) = 512 * unat spt * unat sides"
    using b by (subst m) (simp_all add: u tl)
  have "512 * unat spt * unat sides * k \<le> 512 * 12 * 2 * 65536" using b k by (rule mult_le_mono)
  then show "unat (512 * ucast spt * ucast sides * (ucast t1 - ucast t0 + 1) :: u32) = 512 * unat spt * unat sides * k"
    by (subst m) (simp_all add: ts n)
qed

section \<open>Properties\<close>

text \<open>C27: the decoder inverts the archive format. A file with the MSA header of a floppy of one or two sides and up to
  12 sectors per track, whose tracks are stored plain or in any run-length code, is recognised and decoded
  to exactly the sectors of the floppy, track by track.\<close>

theorem msa_decodes_archive:
  assumes "0 < spt" "spt \<le> 12" "sides \<in> {1, 2}" "t0 \<le> t1" "t1 < 65536"
    and "list_all2 track_of trks blks" "length trks = (t1 - t0 + 1) * sides"
    and "\<forall>t \<in> set trks. length t = 512 * spt" "\<forall>b \<in> set blks. length b < 65536"
    and "512 * spt * sides * (t1 - t0 + 1) \<le> 2048 * 1024"
    and "12 \<le> length (msa_file spt sides t0 t1 blks)" "length (msa_file spt sides t0 t1 blks) \<le> 2 * 1024 * 1024"
  shows "msa_open_decoded True (Some (msa_file spt sides t0 t1 blks)) = Decoded (concat trks)"
proof -
  let ?raw = "msa_file spt sides t0 t1 blks"
  have b: "spt < 65536" "sides - 1 < 65536" "t0 < 65536" using assms by auto
  have f: "unat (msa_word ?raw 2) = spt" "unat (msa_word ?raw 4) = sides - 1" "unat (msa_word ?raw 6) = t0" "unat (msa_word ?raw 8) = t1"
    "drop 10 ?raw = concat (map msa_block blks)" using header_fields [OF b assms(5) msa_file_def] by simp_all
  have s: "unat (msa_word ?raw 4 + 1) = sides" using assms(3) f(2) by (subst unat_add_small) auto
  have sz: "unat (512 * ucast (msa_word ?raw 2) :: u32) = 512 * spt"
    "unat ((ucast (msa_word ?raw 8) - ucast (msa_word ?raw 6) + 1) * ucast (msa_word ?raw 4 + 1) :: u32) = (t1 - t0 + 1) * sides"
    "unat (512 * ucast (msa_word ?raw 2) * ucast (msa_word ?raw 4 + 1) * (ucast (msa_word ?raw 8) - ucast (msa_word ?raw 6) + 1) :: u32) =
      512 * spt * sides * (t1 - t0 + 1)"
    using msa_sizes [of "msa_word ?raw 2" "msa_word ?raw 4 + 1" "msa_word ?raw 6" "msa_word ?raw 8"] assms(2,3,4) f s by auto
  have "msa_tracks (512 * spt) (512 * spt * sides * (t1 - t0 + 1)) (length trks) 0 (concat (map msa_block blks)) = Some (concat trks)"
    by (rule msa_tracks_of [OF assms(6,8,9)]) (simp add: assms(7) algebra_simps)
  moreover have "\<not> (msa_word ?raw 2 = 0 \<or> msa_word ?raw 2 > 12 \<or> msa_word ?raw 4 + 1 > 2 \<or> msa_word ?raw 8 < msa_word ?raw 6)"
    using assms(1-4) f s by (auto simp: word_less_nat_alt unat_eq_0)
  ultimately have "msa_decode ?raw = Some (concat trks)"
    using sz assms(7,10) f(5) by (simp add: msa_decode_def Let_def word_less_nat_alt)
  moreover have "?raw ! 0 = 0x0E" "?raw ! 1 = 0x0F" by (simp_all add: msa_file_def)
  ultimately show ?thesis using assms(11,12) by (simp add: msa_open_decoded_def)
qed

theorem msa_decodes_archive_witness:
  "msa_open_decoded True (Some (msa_file 1 1 0 1 [0xE5 # 0x00 # bytes16 512, replicate 512 0x41])) =
     Decoded (replicate 512 0 @ replicate 512 0x41)"
proof -
  have "rle_of (replicate 512 0 @ []) (0xE5 # 0 # bytes16 512 @ [])" by (rule rle_of.run) (simp_all add: rle_of.nil)
  then have t: "list_all2 track_of [replicate 512 0, replicate 512 0x41] [0xE5 # 0x00 # bytes16 512, replicate 512 0x41]"
    by (simp add: track_of_def bytes16_def)
  have "msa_open_decoded True (Some (msa_file 1 1 0 1 [0xE5 # 0x00 # bytes16 512, replicate 512 0x41])) =
     Decoded (concat [replicate 512 0, replicate 512 0x41])"
    by (rule msa_decodes_archive [OF _ _ _ _ _ t]) (simp_all add: msa_file_def msa_block_def bytes16_def)
  then show ?thesis by simp
qed

text \<open>Whatever the file, a decoded image has whole tracks and at most 2 MB.\<close>

lemma msa_decoded_size:
  assumes "msa_open_decoded ok (Some raw) = Decoded img"
  shows "length img = 512 * unat (msa_word raw 2) * unat (msa_word raw 4 + 1) * (unat (msa_word raw 8) - unat (msa_word raw 6) + 1)"
    "length img \<le> 2048 * 1024"
proof -
  let ?k = "unat (msa_word raw 8) - unat (msa_word raw 6) + 1"
  have d: "msa_decode raw = Some img" using assms by (auto simp: msa_open_decoded_def split: if_splits option.splits)
  then have g: "unat (msa_word raw 2) \<le> 12" "unat (msa_word raw 4 + 1) \<le> 2" "unat (msa_word raw 6) \<le> unat (msa_word raw 8)"
    by (auto simp: msa_decode_def Let_def word_less_nat_alt word_le_nat_alt not_less split: if_splits)
  note sz = msa_sizes [OF g]
  from d sz have "msa_tracks (512 * unat (msa_word raw 2)) (512 * unat (msa_word raw 2) * unat (msa_word raw 4 + 1) * ?k) (?k * unat (msa_word raw 4 + 1)) 0 (drop 10 raw) = Some img"
    "512 * unat (msa_word raw 2) * unat (msa_word raw 4 + 1) * ?k \<le> 2048 * 1024"
    by (auto simp: msa_decode_def Let_def word_less_nat_alt not_less split: if_splits)
  with msa_tracks_length show "length img = 512 * unat (msa_word raw 2) * unat (msa_word raw 4 + 1) * ?k" "length img \<le> 2048 * 1024"
    by (fastforce simp: algebra_simps)+
qed

text \<open>The field for the sides is one less than their number, and the sum is kept in 16 bits: the value \<open>$FFFF\<close> passes
  the test for at most two sides, and the archive is taken for a floppy without any sector.\<close>

lemma msa_no_sides:
  assumes "12 \<le> length raw" "length raw \<le> 2 * 1024 * 1024" "raw ! 0 = 0x0E" "raw ! 1 = 0x0F"
    and "msa_word raw 4 = 0xFFFF" "0 < msa_word raw 2" "msa_word raw 2 \<le> 12" "msa_word raw 6 \<le> msa_word raw 8"
  shows "msa_open_decoded True (Some raw) = Decoded []"
  using assms by (auto simp: msa_open_decoded_def msa_decode_def Let_def)

end
