(* ===== verification/Floppy.thy ===== *)
theory Floppy
  imports Acsi Msa
begin

text \<open>
  The floppy controller and the DMA port (\<open>platforms/atari/fdd/atari_fdd.c\<close>): the emulated WD1772 with two drives on
  images, drive select through the sound chip, the routing of the DMA registers between the emulated
  floppy, the emulated ACSI targets and the real devices on the bus, and the coherence of transfers by real
  devices. Log lines and the command trace (\<open>PISTORM_HDC_TRACE\<close>) are left out, as are the delays.
\<close>

section \<open>Registers and state\<close>

definition DMA_MODE_A0 :: u16 where [c_const]: "DMA_MODE_A0 = 0x02"
definition DMA_MODE_A1 :: u16 where [c_const]: "DMA_MODE_A1 = 0x04"
definition DMA_MODE_FDC_HDC :: u16 where [c_const]: "DMA_MODE_FDC_HDC = 0x08"
definition PSG_REG_SELECT :: u32 where [c_const]: "PSG_REG_SELECT = 0xFF8800"
definition PSG_REG_WRITE :: u32 where [c_const]: "PSG_REG_WRITE = 0xFF8802"
definition PSG_PORT_A_REG :: u8 where [c_const]: "PSG_PORT_A_REG = 14"
definition PSG_SIDE_SEL :: u8 where [c_const]: "PSG_SIDE_SEL = 0x01"
definition PSG_DRIVE_A_SEL :: u8 where [c_const]: "PSG_DRIVE_A_SEL = 0x02"
definition PSG_DRIVE_B_SEL :: u8 where [c_const]: "PSG_DRIVE_B_SEL = 0x04"
definition FDC_STATUS_BUSY :: u8 where [c_const]: "FDC_STATUS_BUSY = 0x01"
definition FDC_STATUS_INDEX :: u8 where [c_const]: "FDC_STATUS_INDEX = 0x02"
definition FDC_STATUS_TRACK0 :: u8 where [c_const]: "FDC_STATUS_TRACK0 = 0x04"
definition FDC_STATUS_LOSTDATA :: u8 where [c_const]: "FDC_STATUS_LOSTDATA = 0x04"
definition FDC_STATUS_CRCERR :: u8 where [c_const]: "FDC_STATUS_CRCERR = 0x08"
definition FDC_STATUS_SEEKERR :: u8 where [c_const]: "FDC_STATUS_SEEKERR = 0x10"
definition FDC_STATUS_RECNF :: u8 where [c_const]: "FDC_STATUS_RECNF = 0x10"
definition FDC_STATUS_WRTPROT :: u8 where [c_const]: "FDC_STATUS_WRTPROT = 0x40"
definition FDC_STATUS_MOTORON :: u8 where [c_const]: "FDC_STATUS_MOTORON = 0x80"
definition FDD_MAX_DRIVES :: int where [c_const]: "FDD_MAX_DRIVES = 2"
definition FDD_TRACKS_80 :: int where [c_const]: "FDD_TRACKS_80 = 80"
definition FDD_SECTOR_SIZE :: int where [c_const]: "FDD_SECTOR_SIZE = 512"
definition MOTOR_OFF_TICKS :: int where [c_const]: "MOTOR_OFF_TICKS = 90"
definition HDC_MAX_SYNC_SECTORS :: u32 where [c_const]: "HDC_MAX_SYNC_SECTORS = 256"

datatype fdd_type = FDD_TYPE_NONE | FDD_TYPE_DD | FDD_TYPE_HD

record fdd_drive =
  d_fd :: int
  image_path :: string
  write_protected :: bool
  disk_inserted :: bool
  media_changed :: bool
  d_type :: fdd_type
  current_track :: int
  sectors_per_track :: int
  num_tracks :: int
  num_sides :: int
  image_size :: u32
  reserved_sectors :: int

text \<open>A read command of the real controller that has not been pulled yet.\<close>

record rfdc_window =
  r_armed :: bool
  r_base :: u32
  r_count :: u32

text \<open>The controller with the static variables of the file. The address counter, the status of the DMA chip and
  the files behind the descriptors are those of the ACSI targets.\<close>

record fdd_state =
  fdc_status :: u8
  fdc_command :: u8
  track_reg :: u8
  sector_reg :: u8
  data_reg :: u8
  fdc_dma_mode :: u16
  dma_sector_count :: u16
  dma_base_addr :: u32
  hdc_base :: u32
  hdc_count :: u16
  hdc_dir_write :: bool
  hdc_pending :: bool
  psg_porta :: u8
  psg_reg_sel :: u8
  selected_drive :: int
  selected_side :: int
  irq_pending :: bool
  irq_ready :: bool
  drives :: "fdd_drive list"
  motor_ticks :: "int list"
  last_wp :: "bool list"
  hdc_active :: bool
  hdc_count_fresh :: bool
  hdc_prepush_base :: u32
  hdc_prepush_count :: u32
  hdc_prepushed :: bool
  rfdc :: rfdc_window
  fdd_passthrough :: bool
  ac :: acsi_state

text \<open>\<open>fe_fresh\<close> are the bytes of a buffer before anything is stored in it, \<open>fe_samples\<close> the samples of the address
  counter that fit into 2 ms, \<open>fe_settled\<close> tells whether 200 \<open>\<mu>s\<close> have passed since the last command of the real
  controller.\<close>

record fdd_env =
  fe_bus :: bus_env
  fe_io :: disk_io
  fe_open :: "string \<Rightarrow> bool \<Rightarrow> int option"
  fe_tmp :: int
  fe_host_ok :: bool
  fe_malloc :: bool
  fe_fresh :: "u8 list"
  fe_samples :: nat
  fe_settled :: bool
  FDD_enabled :: bool
  pst_fdd_mfp_irq :: bool
  fe_no_intrq_clear :: bool

type_synonym 'a fdd_world = "fdd_state \<times> 'a smc_state_scheme"

section \<open>Addresses\<close>

definition dma_hi_mask :: "'a smc_state_scheme \<Rightarrow> u8" where
  "dma_hi_mask s = (if g_stram_top s > 0x400000 then 0xFF else 0x3F)"

definition in_dma_window :: "u32 \<Rightarrow> bool" where
  "in_dma_window addr \<longleftrightarrow> addr \<ge> 0xFF8600 \<and> addr \<le> 0xFF860F"

section \<open>Images\<close>

definition fdd_drive_ok :: "int \<Rightarrow> bool" where
  "fdd_drive_ok d \<longleftrightarrow> 0 \<le> d \<and> d < FDD_MAX_DRIVES"

definition drv :: "int \<Rightarrow> fdd_state \<Rightarrow> fdd_drive" where
  "drv d f = drives f ! nat d"

definition upd_drive :: "int \<Rightarrow> (fdd_drive \<Rightarrow> fdd_drive) \<Rightarrow> fdd_state \<Rightarrow> fdd_state" where
  "upd_drive d g f = f\<lparr>drives := (drives f)[nat d := g (drv d f)]\<rparr>"

text \<open>\<open>pread\<close>; a short read is a failure.\<close>

definition file_read :: "disk_io \<Rightarrow> int \<Rightarrow> nat \<Rightarrow> nat \<Rightarrow> acsi_state \<Rightarrow> u8 list option" where
  "file_read io fd off n a =
     (if io_read_ok io fd off \<and> off + n \<le> length (acsi_files a fd) then Some (take n (drop off (acsi_files a fd))) else None)"

definition drive_sides :: "fdd_drive \<Rightarrow> int" where
  "drive_sides d = (if num_sides d \<noteq> 0 then num_sides d else 2)"

definition sector_offset :: "fdd_drive \<Rightarrow> int \<Rightarrow> int \<Rightarrow> int \<Rightarrow> int" where
  "sector_offset d track side sector =
     (let bytes_per_track = FDD_SECTOR_SIZE * sectors_per_track d
      in bytes_per_track * side + bytes_per_track * drive_sides d * track + FDD_SECTOR_SIZE * (sector - 1))"

definition out_of_range :: "fdd_drive \<Rightarrow> int \<Rightarrow> int \<Rightarrow> int \<Rightarrow> int \<Rightarrow> bool" where
  "out_of_range d track side sector n \<longleftrightarrow>
     track < 0 \<or> track \<ge> num_tracks d \<or> side < 0 \<or> side \<ge> drive_sides d \<or> sector < 1 \<or> sector + n - 1 > sectors_per_track d"

definition fdd_image_read :: "fdd_env \<Rightarrow> int \<Rightarrow> int \<Rightarrow> int \<Rightarrow> int \<Rightarrow> int \<Rightarrow> fdd_state \<Rightarrow> u8 list option" where
  "fdd_image_read e drive track side sector n f =
     (let d = drv drive f in
      if d_fd d < 0 \<or> \<not> disk_inserted d then None
      else if out_of_range d track side sector n then None
      else file_read (fe_io e) (d_fd d) (nat (sector_offset d track side sector)) (nat n * 512) (ac f))"

definition fdd_image_write :: "fdd_env \<Rightarrow> int \<Rightarrow> int \<Rightarrow> int \<Rightarrow> int \<Rightarrow> int \<Rightarrow> u8 list \<Rightarrow> fdd_state \<Rightarrow> fdd_state option" where
  "fdd_image_write e drive track side sector n buf f =
     (let d = drv drive f in
      if d_fd d < 0 \<or> \<not> disk_inserted d then None
      else if write_protected d then None
      else if out_of_range d track side sector n then None
      else (let (ok, a) = sector_write (fe_io e) (d_fd d) (nat (sector_offset d track side sector)) buf (ac f)
            in if ok then Some (f\<lparr>ac := a\<rparr>) else None))"

section \<open>Insert and eject\<close>

definition le16 :: "u8 list \<Rightarrow> nat \<Rightarrow> u16" where
  "le16 b i = ucast (b ! i) OR push_bit 8 (ucast (b ! (i + 1)))"

definition bpb_valid :: "u8 list \<Rightarrow> bool" where
  "bpb_valid boot \<longleftrightarrow>
     le16 boot 0x0B = 512 \<and> le16 boot 0x18 \<ge> 1 \<and> le16 boot 0x18 \<le> 18 \<and>
     le16 boot 0x1A \<ge> 1 \<and> le16 boot 0x1A \<le> 2 \<and> le16 boot 0x13 > 0"

text \<open>The first sector of the first two tracks that starts like a FAT.\<close>

definition fat_at :: "disk_io \<Rightarrow> int \<Rightarrow> acsi_state \<Rightarrow> nat \<Rightarrow> bool" where
  "fat_at io fd a s \<longleftrightarrow>
     (case file_read io fd (s * 512) 4 a of None \<Rightarrow> False
      | Some b \<Rightarrow> b ! 1 = 0xFF \<and> b ! 2 = 0xFF \<and> b ! 0 \<ge> 0xF8)"

definition bpb_geometry :: "disk_io \<Rightarrow> u8 list \<Rightarrow> acsi_state \<Rightarrow> fdd_drive \<Rightarrow> fdd_drive" where
  "bpb_geometry io boot a d =
     (let spt = int (unat (le16 boot 0x18)); sides = int (unat (le16 boot 0x1A)); sectors = int (unat (le16 boot 0x13));
          res = (case find (fat_at io (d_fd d) a) [1..<2 * unat (le16 boot 0x18)] of
                   Some s \<Rightarrow> int s | None \<Rightarrow> int (unat (le16 boot 0x0E)))
      in d\<lparr>sectors_per_track := spt, num_tracks := sectors div (spt * sides), num_sides := sides,
           d_type := (if spt > 9 then FDD_TYPE_HD else FDD_TYPE_DD), reserved_sectors := res\<rparr>)"

definition size_geometry :: "fdd_drive \<Rightarrow> fdd_drive" where
  "size_geometry d =
     (if image_size d \<le> 80 * 1 * 9 * 512
      then d\<lparr>d_type := FDD_TYPE_DD, sectors_per_track := 9, num_sides := 1,
             num_tracks := int (unat (image_size d)) div (512 * 9), reserved_sectors := 1\<rparr>
      else if image_size d \<le> 80 * 2 * 9 * 512
      then d\<lparr>d_type := FDD_TYPE_DD, sectors_per_track := 9, num_sides := 2, num_tracks := FDD_TRACKS_80, reserved_sectors := 1\<rparr>
      else d\<lparr>d_type := FDD_TYPE_HD, sectors_per_track := 18, num_sides := 2, num_tracks := FDD_TRACKS_80\<rparr>)"

definition fdd_geometry :: "disk_io \<Rightarrow> acsi_state \<Rightarrow> fdd_drive \<Rightarrow> fdd_drive" where
  "fdd_geometry io a d =
     (case file_read io (d_fd d) 0 512 a of None \<Rightarrow> size_geometry d
      | Some boot \<Rightarrow> if bpb_valid boot then bpb_geometry io boot a d else size_geometry d)"

text \<open>The descriptor of an image, whether it must be read-only, and the files with the decoded archive.\<close>

definition fdd_open_image :: "fdd_env \<Rightarrow> string \<Rightarrow> bool \<Rightarrow> acsi_state \<Rightarrow> (int \<times> bool \<times> acsi_state) option" where
  "fdd_open_image e path prot a =
     (case msa_open_decoded (fe_host_ok e) (map_option (acsi_files a) (fe_open e path True)) of
        Bad_Msa \<Rightarrow> None
      | Decoded img \<Rightarrow> Some (fe_tmp e, True, a\<lparr>acsi_files := (acsi_files a)(fe_tmp e := img)\<rparr>)
      | Not_Msa \<Rightarrow> map_option (\<lambda>fd. (fd, prot, a)) (fe_open e path prot))"

definition fdd_insert_disk :: "fdd_env \<Rightarrow> int \<Rightarrow> string \<Rightarrow> bool \<Rightarrow> fdd_state \<Rightarrow> int \<times> fdd_state" where
  "fdd_insert_disk e drive path prot f =
     (if \<not> fdd_drive_ok drive then (- 1, f)
      else
        (let f1 = upd_drive drive (\<lambda>d. if d_fd d \<ge> 0 then d\<lparr>d_fd := - 1\<rparr> else d) f in
         case fdd_open_image e path prot (ac f1) of None \<Rightarrow> (- 1, f1)
         | Some (fd, wp1, a) \<Rightarrow>
             (0, upd_drive drive (\<lambda>d. (fdd_geometry (fe_io e) a (d\<lparr>image_size := of_nat (length (acsi_files a fd)), d_fd := fd\<rparr>))
                    \<lparr>write_protected := wp1, disk_inserted := True, media_changed := False, image_path := take 255 path\<rparr>)
                   (f1\<lparr>ac := a\<rparr>))))"

definition fdd_eject_disk :: "int \<Rightarrow> fdd_state \<Rightarrow> fdd_state" where
  "fdd_eject_disk drive f =
     (if \<not> fdd_drive_ok drive then f
      else upd_drive drive (\<lambda>d. d\<lparr>d_fd := (if d_fd d \<ge> 0 then - 1 else d_fd d), disk_inserted := False,
             media_changed := True, write_protected := False, num_sides := 2\<rparr>) f)"

definition fdd_toggle_disk :: "fdd_env \<Rightarrow> int \<Rightarrow> fdd_state \<Rightarrow> fdd_state" where
  "fdd_toggle_disk e drive f =
     (if \<not> fdd_drive_ok drive then f
      else if disk_inserted (drv drive f)
      then fdd_eject_disk drive (f\<lparr>last_wp := (last_wp f)[nat drive := write_protected (drv drive f)]\<rparr>)
      else if image_path (drv drive f) \<noteq> []
      then snd (fdd_insert_disk e drive (image_path (drv drive f)) (last_wp f ! nat drive) f)
      else f)"

text \<open>The result and what is stored for the caller: the path (at most \<open>pathlen\<close> bytes with the final zero),
  protection, busy.\<close>

definition fdd_query :: "int \<Rightarrow> nat \<Rightarrow> fdd_state \<Rightarrow> int \<times> (string \<times> bool \<times> bool) option" where
  "fdd_query drive pathlen f =
     (if \<not> fdd_drive_ok drive then (- 1, None)
      else (let d = drv drive f in
        (if disk_inserted d then 1 else 0,
         Some (take (pathlen - 1) (if disk_inserted d then image_path d else ''''),
               write_protected d, fdc_status f AND FDC_STATUS_BUSY \<noteq> 0))))"

definition fdd_pulse_media :: "int \<Rightarrow> fdd_state \<Rightarrow> fdd_state" where
  "fdd_pulse_media drive f = (if \<not> fdd_drive_ok drive then f else upd_drive drive (\<lambda>d. d\<lparr>media_changed := True\<rparr>) f)"

definition fdd_set_write_protect :: "int \<Rightarrow> bool \<Rightarrow> fdd_state \<Rightarrow> fdd_state" where
  "fdd_set_write_protect drive prot f = (if \<not> fdd_drive_ok drive then f else upd_drive drive (\<lambda>d. d\<lparr>write_protected := prot\<rparr>) f)"

definition fdd_shutdown :: "fdd_state \<Rightarrow> fdd_state" where
  "fdd_shutdown f = f\<lparr>drives := map (\<lambda>d. if d_fd d \<ge> 0 then d\<lparr>d_fd := - 1\<rparr> else d) (drives f)\<rparr>"

section \<open>Interrupt and motor\<close>

definition fdc_raise_irq_immediate :: "fdd_state \<Rightarrow> fdd_state" where
  "fdc_raise_irq_immediate f = f\<lparr>irq_pending := True, irq_ready := True\<rparr>"

definition fdc_raise_irq_latched :: "fdd_state \<Rightarrow> fdd_state" where
  "fdc_raise_irq_latched f = f\<lparr>irq_pending := True, irq_ready := False\<rparr>"

definition fdc_clear_irq :: "fdd_state \<Rightarrow> fdd_state" where
  "fdc_clear_irq f = f\<lparr>irq_pending := False, irq_ready := False\<rparr>"

definition fdd_irq_active :: "fdd_state \<Rightarrow> bool \<times> fdd_state" where
  "fdd_irq_active f =
     (if \<not> irq_pending f then (False, f)
      else if \<not> irq_ready f then (False, f\<lparr>irq_ready := True\<rparr>)
      else (True, f))"

definition fdd_mfp_level_poll :: "fdd_env \<Rightarrow> fdd_state \<Rightarrow> bool" where
  "fdd_mfp_level_poll e f \<longleftrightarrow> pst_fdd_mfp_irq e \<and>
     (irq (ac f) \<or>
      (selected_drive f \<ge> 0 \<and> disk_inserted (drv (selected_drive f) f) \<and> irq_pending f \<and> irq_ready f))"

text \<open>The motor of a drive runs out.\<close>

definition motor_tick :: "fdd_state \<Rightarrow> nat \<Rightarrow> fdd_state" where
  "motor_tick f i =
     (if motor_ticks f ! i > 0
      then (let f1 = f\<lparr>motor_ticks := (motor_ticks f)[i := motor_ticks f ! i - 1]\<rparr>
            in if motor_ticks f1 ! i = 0 \<and> selected_drive f1 = int i
               then f1\<lparr>fdc_status := fdc_status f1 AND NOT FDC_STATUS_MOTORON\<rparr> else f1)
      else f)"

definition fdd_vbl :: "fdd_state \<Rightarrow> fdd_state" where
  "fdd_vbl f = fold (\<lambda>i f. motor_tick f i) [0, 1] f"

section \<open>Commands\<close>

definition set_dma_status :: "u32 \<Rightarrow> fdd_state \<Rightarrow> fdd_state" where
  "set_dma_status v f = f\<lparr>ac := (ac f)\<lparr>dma_status := v\<rparr>\<rparr>"

definition st_or :: "u8 \<Rightarrow> fdd_state \<Rightarrow> fdd_state" where
  "st_or m f = f\<lparr>fdc_status := fdc_status f OR m\<rparr>"

definition st_clear :: "u8 \<Rightarrow> fdd_state \<Rightarrow> fdd_state" where
  "st_clear m f = f\<lparr>fdc_status := fdc_status f AND NOT m\<rparr>"

text \<open>The error exit of the sector commands.\<close>

definition sector_error :: "u8 \<Rightarrow> fdd_state \<Rightarrow> fdd_state" where
  "sector_error m f = fdc_raise_irq_latched (set_dma_status 0 (st_clear FDC_STATUS_BUSY (st_or m f)))"

definition sector_done :: "fdd_state \<Rightarrow> fdd_state" where
  "sector_done f =
     fdc_raise_irq_latched (st_clear FDC_STATUS_BUSY (set_dma_status (DMA_STATUS_OK OR DMA_STATUS_SCZERO) (f\<lparr>dma_sector_count := 0\<rparr>)))"

text \<open>Restore, seek and step. Step itself is without effect.\<close>

definition type1_move :: "u8 \<Rightarrow> int \<Rightarrow> fdd_state \<Rightarrow> fdd_state" where
  "type1_move cmd dr f =
     (let d = drv dr f;
          max_tracks = (if disk_inserted d then num_tracks d else FDD_TRACKS_80);
          top4 = cmd AND 0xF0; top3 = cmd AND 0xE0
      in if top4 = 0x00 then (upd_drive dr (\<lambda>d. d\<lparr>current_track := 0\<rparr>) f)\<lparr>track_reg := 0\<rparr>
         else if top4 = 0x10
         then (let target = int (unat (data_reg f)) in
               if target \<ge> max_tracks then st_or FDC_STATUS_SEEKERR f
               else (upd_drive dr (\<lambda>d. d\<lparr>current_track := target\<rparr>) f)\<lparr>track_reg := data_reg f\<rparr>)
         else if top3 = 0x40 \<or> top3 = 0x60
         then (let t = current_track d;
                   t1 = (if top3 = 0x40 then (if t < max_tracks - 1 then t + 1 else t) else if t > 0 then t - 1 else t);
                   f1 = upd_drive dr (\<lambda>d. d\<lparr>current_track := t1\<rparr>) f
               in if cmd AND 0x10 \<noteq> 0 then f1\<lparr>track_reg := of_int t1\<rparr> else f1)
         else f)"

definition fdc_do_type1 :: "u8 \<Rightarrow> fdd_state \<Rightarrow> fdd_state" where
  "fdc_do_type1 cmd f =
     (let dr = selected_drive f in
      if \<not> fdd_drive_ok dr then fdc_raise_irq_immediate (st_or FDC_STATUS_SEEKERR (st_clear FDC_STATUS_BUSY f))
      else
        (let f1 = type1_move cmd dr f;
             f2 = (if current_track (drv dr f1) = 0 then st_or FDC_STATUS_TRACK0 f1 else st_clear FDC_STATUS_TRACK0 f1)
         in fdc_raise_irq_immediate (st_clear FDC_STATUS_BUSY f2)))"

definition xfer_count :: "fdd_state \<Rightarrow> int" where
  "xfer_count f = (if dma_sector_count f \<noteq> 0 then int (unat (dma_sector_count f)) else 1)"

text \<open>The source reads \<open>drives[drv].current_track\<close> before it tests the drive number; the value is used only after the
  test.\<close>

definition fdc_do_read_sectors :: "fdd_env \<Rightarrow> 'a fdd_world \<Rightarrow> 'a fdd_world" where
  "fdc_do_read_sectors e w =
     (let (f0, s) = w; f = set_dma_status DMA_STATUS_OK f0; dr = selected_drive f; n = xfer_count f in
      if \<not> fdd_drive_ok dr \<or> \<not> disk_inserted (drv dr f) then (sector_error FDC_STATUS_RECNF f, s)
      else if \<not> fe_malloc e then (sector_error FDC_STATUS_LOSTDATA f, s)
      else case fdd_image_read e dr (current_track (drv dr f)) (selected_side f) (int (unat (sector_reg f))) n f of
        None \<Rightarrow> (sector_error FDC_STATUS_RECNF f, s)
      | Some buf \<Rightarrow> (sector_done f, dma_copy_to_ram (fe_bus e) (dma_addr (ac f)) buf s))"

definition fdc_do_write_sectors :: "fdd_env \<Rightarrow> 'a fdd_world \<Rightarrow> 'a fdd_world" where
  "fdc_do_write_sectors e w =
     (let (f0, s) = w; f = set_dma_status DMA_STATUS_OK f0; dr = selected_drive f; n = xfer_count f in
      if \<not> fdd_drive_ok dr \<or> \<not> disk_inserted (drv dr f) then (sector_error FDC_STATUS_RECNF f, s)
      else if write_protected (drv dr f) then (sector_error FDC_STATUS_WRTPROT f, s)
      else if \<not> fe_malloc e then (sector_error FDC_STATUS_LOSTDATA f, s)
      else
        (let buf = dma_copy_from_ram (dma_addr (ac f)) (fe_fresh e) (nat n * 512) s in
         case fdd_image_write e dr (current_track (drv dr f)) (selected_side f) (int (unat (sector_reg f))) n buf f of
           None \<Rightarrow> (sector_error FDC_STATUS_RECNF f, s)
         | Some f1 \<Rightarrow> (sector_done f1, s)))"

definition fdc_do_read_address :: "fdd_env \<Rightarrow> 'a fdd_world \<Rightarrow> 'a fdd_world" where
  "fdc_do_read_address e w =
     (let (f, s) = w; dr = selected_drive f in
      if \<not> fdd_drive_ok dr \<or> \<not> disk_inserted (drv dr f)
      then (fdc_raise_irq_immediate (st_clear FDC_STATUS_BUSY (st_or FDC_STATUS_RECNF f)), s)
      else
        (let track = of_int (current_track (drv dr f)); sec = (if sector_reg f \<noteq> 0 then sector_reg f else 1);
             ident = [track, of_int (selected_side f), sec, 2, 0, 0]
         in (fdc_raise_irq_immediate (st_clear FDC_STATUS_BUSY (f\<lparr>track_reg := track, sector_reg := sec\<rparr>)),
             dma_copy_to_ram (fe_bus e) (dma_addr (ac f)) ident s)))"

definition cmd_start :: "u8 \<Rightarrow> fdd_state \<Rightarrow> fdd_state" where
  "cmd_start cmd f = fdc_clear_irq (st_clear (FDC_STATUS_INDEX OR FDC_STATUS_CRCERR OR FDC_STATUS_SEEKERR OR FDC_STATUS_WRTPROT OR
     FDC_STATUS_LOSTDATA) (st_or FDC_STATUS_BUSY (f\<lparr>fdc_command := cmd\<rparr>)))"

definition fdc_exec_command :: "fdd_env \<Rightarrow> u8 \<Rightarrow> 'a fdd_world \<Rightarrow> 'a fdd_world" where
  "fdc_exec_command e cmd w =
     (let (f0, s) = w;
          f = cmd_start cmd f0;
          top4 = cmd AND 0xF0; top3 = cmd AND 0xE0
      in if top4 = 0xD0
         then (let f1 = st_clear FDC_STATUS_BUSY f in (if cmd AND 0x08 \<noteq> 0 then fdc_raise_irq_immediate f1 else f1, s))
         else if top4 = 0x00 \<or> top4 = 0x10 \<or> top3 = 0x20 \<or> top3 = 0x40 \<or> top3 = 0x60 then (fdc_do_type1 cmd f, s)
         else if top3 = 0x80 then fdc_do_read_sectors e (f, s)
         else if top3 = 0xA0 then fdc_do_write_sectors e (f, s)
         else if top4 = 0xC0 then fdc_do_read_address e (f, s)
         else if top4 = 0xE0 \<or> top4 = 0xF0
         then (fdc_raise_irq_immediate (st_clear FDC_STATUS_BUSY (st_or FDC_STATUS_RECNF f)), s)
         else (fdc_raise_irq_immediate (st_clear FDC_STATUS_BUSY f), s))"

section \<open>Registers of the controller\<close>

definition screg :: "fdd_state \<Rightarrow> bool" where
  "screg f \<longleftrightarrow> fdc_dma_mode f AND ucast DMA_MODE_SCREG \<noteq> 0"

definition fdc_reg_index :: "fdd_state \<Rightarrow> u16" where
  "fdc_reg_index f = drop_bit 1 (fdc_dma_mode f) AND 0x03"

text \<open>The write-protect bit of a type I status follows the sensor of the drive; the first read after a change of
  the disk shows it inverted.\<close>

definition type1_wp :: "u8 \<Rightarrow> fdd_state \<Rightarrow> u8 \<times> fdd_state" where
  "type1_wp v f =
     (let dr = selected_drive f in
      if fdc_command f AND 0x80 = 0 \<and> fdd_drive_ok dr
      then (let d = drv dr f;
                v1 = (if \<not> disk_inserted d \<or> write_protected d then v OR FDC_STATUS_WRTPROT else v AND NOT FDC_STATUS_WRTPROT)
            in if media_changed d then (v1 XOR FDC_STATUS_WRTPROT, upd_drive dr (\<lambda>d. d\<lparr>media_changed := False\<rparr>) f)
               else (v1, f))
      else (v, f))"

definition fdc_read_addr :: "fdd_state \<Rightarrow> u32 \<times> fdd_state" where
  "fdc_read_addr f =
     (if screg f then (ucast (dma_sector_count f), f)
      else if fdc_reg_index f = 0
      then (let (v, f1) = type1_wp (fdc_status f) f in (ucast v, fdc_clear_irq f1))
      else if fdc_reg_index f = 1 then (ucast (track_reg f), f)
      else if fdc_reg_index f = 2 then (ucast (sector_reg f), f)
      else (ucast (data_reg f), f))"

definition motor_on :: "fdd_state \<Rightarrow> fdd_state" where
  "motor_on f =
     (if fdd_drive_ok (selected_drive f)
      then st_or FDC_STATUS_MOTORON (f\<lparr>motor_ticks := (motor_ticks f)[nat (selected_drive f) := MOTOR_OFF_TICKS]\<rparr>)
      else f)"

definition fdc_write_addr :: "fdd_env \<Rightarrow> u32 \<Rightarrow> 'a fdd_world \<Rightarrow> 'a fdd_world" where
  "fdc_write_addr e val w =
     (let (f, s) = w; v = ucast val :: u8 in
      if screg f then (f\<lparr>dma_sector_count := ucast v, ac := (ac f)\<lparr>dma_addr := dma_base_addr f\<rparr>\<rparr>, s)
      else if fdc_reg_index f = 0 then fdc_exec_command e v (motor_on f, s)
      else if fdc_reg_index f = 1 then (f\<lparr>track_reg := v\<rparr>, s)
      else if fdc_reg_index f = 2 then (f\<lparr>sector_reg := v\<rparr>, s)
      else (f\<lparr>data_reg := v\<rparr>, s))"

section \<open>Drive select\<close>

definition fdc_decode_drive_side :: "fdd_state \<Rightarrow> fdd_state" where
  "fdc_decode_drive_side f =
     (let p = psg_porta f in
      f\<lparr>selected_side := (if p AND PSG_SIDE_SEL \<noteq> 0 then 0 else 1),
        selected_drive := (if p AND PSG_DRIVE_A_SEL = 0 then 0 else if p AND PSG_DRIVE_B_SEL = 0 then 1 else - 1)\<rparr>)"

definition psg_served_bits :: "fdd_state \<Rightarrow> u8" where
  "psg_served_bits f =
     (if disk_inserted (drv 0 f) then PSG_DRIVE_A_SEL else 0) OR (if disk_inserted (drv 1 f) then PSG_DRIVE_B_SEL else 0)"

definition bus_read :: "bus_env \<Rightarrow> u32 \<Rightarrow> nat \<Rightarrow> 'a bus_state_scheme \<Rightarrow> u32 \<times> 'a bus_state_scheme" where
  "bus_read env addr n s =
     (if n = 2 then (let (v, t) = ps_read_16 env addr s in (ucast v, t)) else (let (v, t) = ps_read_8 env addr s in (ucast v, t)))"

definition bus_write :: "bus_env \<Rightarrow> u32 \<Rightarrow> u32 \<Rightarrow> nat \<Rightarrow> 'a bus_state_scheme \<Rightarrow> 'a bus_state_scheme" where
  "bus_write env addr val n s = (if n = 2 then ps_write_16 env addr (ucast val) s else ps_write_8 env addr (ucast val) s)"

text \<open>The sound chip is on the upper byte lane.\<close>

definition psg_lane :: "u32 \<Rightarrow> nat \<Rightarrow> u8" where
  "psg_lane val n = (if n = 2 then ucast (drop_bit 8 val) else ucast val)"

definition psg_unlane :: "u8 \<Rightarrow> u32 \<Rightarrow> nat \<Rightarrow> u32" where
  "psg_unlane v val n = (if n = 2 then push_bit 8 (ucast v) OR (val AND 0xFF) else ucast v)"

definition psg_read_addr :: "fdd_env \<Rightarrow> u32 \<Rightarrow> nat \<Rightarrow> 'a fdd_world \<Rightarrow> u32 \<times> 'a fdd_world" where
  "psg_read_addr e addr n w =
     (let (f, s) = w; (rv, s1) = bus_read (fe_bus e) addr n s; m = psg_served_bits f in
      if addr = PSG_REG_SELECT \<and> psg_reg_sel f = PSG_PORT_A_REG \<and> m \<noteq> 0
      then (psg_unlane ((psg_lane rv n AND NOT m) OR (psg_porta f AND m)) rv n, f, s1)
      else (rv, f, s1))"

definition psg_write_addr :: "fdd_env \<Rightarrow> u32 \<Rightarrow> u32 \<Rightarrow> nat \<Rightarrow> 'a fdd_world \<Rightarrow> 'a fdd_world" where
  "psg_write_addr e addr val n w =
     (let (f, s) = w; v = psg_lane val n in
      if addr = PSG_REG_SELECT then (f\<lparr>psg_reg_sel := v AND 0x0F\<rparr>, bus_write (fe_bus e) addr val n s)
      else if addr = PSG_REG_WRITE \<and> psg_reg_sel f = PSG_PORT_A_REG
      then (fdc_decode_drive_side (f\<lparr>psg_porta := v\<rparr>),
            bus_write (fe_bus e) addr (psg_unlane (v OR psg_served_bits f) val n) n s)
      else (f, bus_write (fe_bus e) addr val n s))"

section \<open>What an access leaves alone\<close>

text \<open>The identity of a disk in a drive, and files that no access of the guest may change: those that belong to no
  ACSI target and only to write-protected drives.\<close>

definition disk_id :: "fdd_drive \<Rightarrow> int \<times> bool \<times> bool" where
  "disk_id d = (d_fd d, write_protected d, disk_inserted d)"

definition sealed :: "fdd_state \<Rightarrow> int \<Rightarrow> bool" where
  "sealed f fd \<longleftrightarrow> fd \<notin> set (map t_fd (tgt (ac f))) \<and> (\<forall>x \<in> set (map disk_id (drives f)). fst x = fd \<longrightarrow> fst (snd x))"

text \<open>Well-formed states of the port.\<close>

definition port_wf :: "fdd_state \<Rightarrow> bool" where
  "port_wf f \<longleftrightarrow> acsi_inv (ac f) \<and> length (drives f) = 2 \<and> length (motor_ticks f) = 2 \<and> length (last_wp f) = 2 \<and>
     selected_drive f \<in> {- 1, 0, 1} \<and> selected_side f \<in> {0, 1} \<and> (\<forall>d \<in> set (drives f). 0 \<le> current_track d)"

definition keeps :: "fdd_state \<Rightarrow> fdd_state \<Rightarrow> bool" where
  "keeps f g \<longleftrightarrow> (port_wf f \<longrightarrow>
     port_wf g \<and> map t_fd (tgt (ac g)) = map t_fd (tgt (ac f)) \<and> map disk_id (drives g) = map disk_id (drives f) \<and>
     (\<forall>fd. sealed f fd \<longrightarrow> acsi_files (ac g) fd = acsi_files (ac f) fd))"

lemma keeps_refl [simp, intro]: "keeps f f"
  by (simp add: keeps_def)

lemma keeps_trans: "keeps f g \<Longrightarrow> keeps g h \<Longrightarrow> keeps f h"
  unfolding keeps_def sealed_def by (metis (no_types, lifting))

lemma acsi_inv_frame:
  assumes "acsi_inv a" "tgt b = tgt a" "cdb b = cdb a" "dma_fifo b = dma_fifo a" "phase b = phase a" "owns b = owns a"
    "cur_id b = cur_id a" "status_valid b = status_valid a" "cdb_got b = cdb_got a" "cdb_len b = cdb_len a" "icd b = icd a"
  shows "acsi_inv b"
  using assms by (auto simp: acsi_inv_def cur_target_def)

lemma keeps_drive:
  assumes "fdd_drive_ok k" "\<And>d. disk_id (h d) = disk_id d" "port_wf f \<Longrightarrow> 0 \<le> current_track (h (drv k f))"
  shows "keeps f (upd_drive k h f)"
proof (cases "port_wf f")
  case True
  then have l: "nat k < length (drives f)" using assms(1) by (auto simp: port_wf_def fdd_drive_ok_def c_const)
  have "map disk_id ((drives f)[nat k := h (drv k f)]) = map disk_id (drives f)"
    using l assms(2) by (simp add: map_update drv_def) (metis length_map list_update_id nth_map)
  moreover have "\<forall>d \<in> set ((drives f)[nat k := h (drv k f)]). 0 \<le> current_track d"
    using True assms(3) by (auto simp: port_wf_def dest!: set_update_subset_insert [THEN subsetD])
  ultimately show ?thesis using True by (simp add: keeps_def port_wf_def upd_drive_def)
qed (simp add: keeps_def)

lemma drv_track: "port_wf f \<Longrightarrow> fdd_drive_ok k \<Longrightarrow> 0 \<le> current_track (drv k f)"
  by (auto simp: port_wf_def drv_def fdd_drive_ok_def c_const)

text \<open>Registers do not matter.\<close>

lemma keeps_fields [simp]:
  "keeps f (g\<lparr>fdc_status := a1\<rparr>) = keeps f g" "keeps f (g\<lparr>fdc_command := a2\<rparr>) = keeps f g"
  "keeps f (g\<lparr>track_reg := a3\<rparr>) = keeps f g" "keeps f (g\<lparr>sector_reg := a4\<rparr>) = keeps f g"
  "keeps f (g\<lparr>data_reg := a5\<rparr>) = keeps f g" "keeps f (g\<lparr>fdc_dma_mode := a6\<rparr>) = keeps f g"
  "keeps f (g\<lparr>dma_sector_count := a7\<rparr>) = keeps f g" "keeps f (g\<lparr>dma_base_addr := a8\<rparr>) = keeps f g"
  "keeps f (g\<lparr>hdc_base := a9\<rparr>) = keeps f g" "keeps f (g\<lparr>hdc_count := b1\<rparr>) = keeps f g"
  "keeps f (g\<lparr>hdc_dir_write := b2\<rparr>) = keeps f g" "keeps f (g\<lparr>hdc_pending := b3\<rparr>) = keeps f g"
  "keeps f (g\<lparr>psg_porta := b4\<rparr>) = keeps f g" "keeps f (g\<lparr>psg_reg_sel := b5\<rparr>) = keeps f g"
  "keeps f (g\<lparr>irq_pending := b6\<rparr>) = keeps f g" "keeps f (g\<lparr>irq_ready := b7\<rparr>) = keeps f g"
  "keeps f (g\<lparr>hdc_active := b8\<rparr>) = keeps f g" "keeps f (g\<lparr>hdc_count_fresh := b9\<rparr>) = keeps f g"
  "keeps f (g\<lparr>hdc_prepush_base := c1\<rparr>) = keeps f g" "keeps f (g\<lparr>hdc_prepush_count := c2\<rparr>) = keeps f g"
  "keeps f (g\<lparr>hdc_prepushed := c3\<rparr>) = keeps f g" "keeps f (g\<lparr>rfdc := c4\<rparr>) = keeps f g"
  by (simp_all add: keeps_def port_wf_def)

lemma keeps_helpers [simp]:
  "keeps f (st_or m g) = keeps f g" "keeps f (st_clear m g) = keeps f g" "keeps f (fdc_raise_irq_immediate g) = keeps f g"
  "keeps f (fdc_raise_irq_latched g) = keeps f g" "keeps f (fdc_clear_irq g) = keeps f g"
  by (simp_all add: st_or_def st_clear_def fdc_raise_irq_immediate_def fdc_raise_irq_latched_def fdc_clear_irq_def)

text \<open>The DMA chip of the ACSI targets.\<close>

lemma keeps_acsi:
  assumes "keeps f g" "acsi_inv (ac g) \<Longrightarrow> acsi_inv b" "tgt b = tgt (ac g)" "acsi_files b = acsi_files (ac g)"
  shows "keeps f (g\<lparr>ac := b\<rparr>)"
  using assms by (simp add: keeps_def port_wf_def)

lemma keeps_dma_addr: "keeps f g \<Longrightarrow> keeps f (g\<lparr>ac := (ac g)\<lparr>dma_addr := p\<rparr>\<rparr>)"
  by (rule keeps_acsi) (auto intro: acsi_inv_frame)

lemma keeps_status: "keeps f g \<Longrightarrow> keeps f (set_dma_status v g)"
  unfolding set_dma_status_def by (rule keeps_acsi) (auto intro: acsi_inv_frame)

lemma sector_error_keeps: "keeps f g \<Longrightarrow> keeps f (sector_error m g)"
  unfolding sector_error_def by (simp add: keeps_status)

lemma sector_done_keeps: "keeps f g \<Longrightarrow> keeps f (sector_done g)"
  unfolding sector_done_def by (simp add: keeps_status)

section \<open>Commands keep the port well-formed\<close>

lemma type1_move_keeps:
  assumes "fdd_drive_ok k"
  shows "keeps f (type1_move cmd k f)"
proof -
  have "keeps f (upd_drive k (\<lambda>d. d\<lparr>current_track := t\<rparr>) f)" if "port_wf f \<Longrightarrow> 0 \<le> t" for t
    using that by (intro keeps_drive [OF assms]) (simp_all add: disk_id_def)
  then show ?thesis using drv_track [OF _ assms, of f] by (auto simp: type1_move_def Let_def)
qed

lemma fdc_do_type1_keeps: "keeps f (fdc_do_type1 cmd f)"
  using type1_move_keeps by (simp add: fdc_do_type1_def Let_def)

lemma fdc_do_read_sectors_keeps: "keeps f (fst (fdc_do_read_sectors e (f, s)))"
  by (auto simp: fdc_do_read_sectors_def Let_def sector_error_keeps sector_done_keeps keeps_status split: option.split)

text \<open>A write reaches the file of an unprotected drive only.\<close>

lemma fdd_image_write_keeps:
  assumes "fdd_drive_ok k" "fdd_image_write e k track side sector n buf f = Some g"
  shows "keeps f g"
proof (cases "port_wf f")
  case True
  let ?d = "drv k f"
  obtain x where g: "g = f\<lparr>ac := (ac f)\<lparr>acsi_files := (acsi_files (ac f))(d_fd ?d := x)\<rparr>\<rparr>" and u: "\<not> write_protected ?d"
    using assms(2) by (auto simp: fdd_image_write_def sector_write_def Let_def split: if_splits)
  have "?d \<in> set (drives f)" using True assms(1) by (auto simp: drv_def port_wf_def fdd_drive_ok_def c_const)
  then have "\<not> sealed f (d_fd ?d)" using u by (auto simp: sealed_def disk_id_def)
  moreover have "acsi_inv (ac g)" using True by (auto simp: g port_wf_def intro: acsi_inv_frame)
  ultimately show ?thesis using True by (auto simp: keeps_def port_wf_def g)
qed (simp add: keeps_def)

lemma fdc_do_write_sectors_keeps: "keeps f (fst (fdc_do_write_sectors e (f, s)))"
proof -
  let ?f = "set_dma_status DMA_STATUS_OK f"
  have "keeps f g" if "fdd_drive_ok k" "fdd_image_write e k t sd sec n buf ?f = Some g" for k t sd sec n buf g
    using keeps_trans [OF keeps_status [OF keeps_refl] fdd_image_write_keeps [OF that]] .
  then show ?thesis
    by (auto simp: fdc_do_write_sectors_def Let_def sector_error_keeps sector_done_keeps keeps_status split: option.split)
qed

lemma fdc_exec_command_keeps: "keeps f (fst (fdc_exec_command e cmd (f, s)))"
proof -
  let ?f = "cmd_start cmd f"
  have k: "keeps f ?f" by (simp add: cmd_start_def)
  have "keeps ?f (fst (fdc_do_read_address e (?f, s)))" by (simp add: fdc_do_read_address_def Let_def)
  with k fdc_do_type1_keeps [of ?f cmd] fdc_do_read_sectors_keeps [of ?f e s] fdc_do_write_sectors_keeps [of ?f e s]
  show ?thesis unfolding fdc_exec_command_def Let_def case_prod_conv by (auto intro: keeps_trans [OF k])
qed

lemma motor_keeps: "keeps f (f\<lparr>motor_ticks := (motor_ticks f)[i := v]\<rparr>)"
  by (simp add: keeps_def port_wf_def)

lemma fdc_write_addr_keeps: "keeps f (fst (fdc_write_addr e val (f, s)))"
proof -
  have "keeps f (motor_on f)" by (simp add: motor_on_def motor_keeps)
  then have "keeps f (fst (fdc_exec_command e v (motor_on f, s)))" for v using keeps_trans fdc_exec_command_keeps by blast
  moreover have "keeps f (f\<lparr>dma_sector_count := c, ac := (ac f)\<lparr>dma_addr := p\<rparr>\<rparr>)" for c p
    using keeps_dma_addr [of f "f\<lparr>dma_sector_count := c\<rparr>" p] by simp
  ultimately show ?thesis by (simp add: fdc_write_addr_def Let_def)
qed

lemma fdc_read_addr_keeps: "keeps f (snd (fdc_read_addr f))"
proof -
  have "keeps f (upd_drive (selected_drive f) (\<lambda>d. d\<lparr>media_changed := False\<rparr>) f)" if "fdd_drive_ok (selected_drive f)"
    using that drv_track by (intro keeps_drive) (simp_all add: disk_id_def)
  then have "keeps f (snd (type1_wp v f))" for v by (simp add: type1_wp_def Let_def)
  then show ?thesis by (simp add: fdc_read_addr_def Let_def case_prod_unfold)
qed

lemma psg_keeps: "keeps f (fst (snd (psg_read_addr e addr n (f, s))))" "keeps f (fst (psg_write_addr e addr val n (f, s)))"
proof -
  show "keeps f (fst (snd (psg_read_addr e addr n (f, s))))" by (simp add: psg_read_addr_def Let_def case_prod_unfold)
  have "keeps f (fdc_decode_drive_side (f\<lparr>psg_porta := v\<rparr>))" for v
    by (auto simp: keeps_def port_wf_def fdc_decode_drive_side_def Let_def)
  then show "keeps f (fst (psg_write_addr e addr val n (f, s)))" by (simp add: psg_write_addr_def Let_def)
qed

section \<open>The layout of an image\<close>

text \<open>The number of a sector: track by track, side by side.\<close>

definition sector_no :: "fdd_drive \<Rightarrow> int \<Rightarrow> int \<Rightarrow> int \<Rightarrow> int" where
  "sector_no d track side sector = (track * drive_sides d + side) * sectors_per_track d + (sector - 1)"

lemma sector_offset_no: "sector_offset d track side sector = 512 * sector_no d track side sector"
  by (simp add: sector_offset_def sector_no_def c_const Let_def algebra_simps)

lemma sector_no_bounds:
  assumes "\<not> out_of_range d track side sector n" "0 < n"
  shows "0 \<le> sector_no d track side sector"
    "sector_no d track side sector + n \<le> num_tracks d * drive_sides d * sectors_per_track d"
proof -
  let ?i = "track * drive_sides d + side" and ?spt = "sectors_per_track d"
  have r: "0 \<le> track" "track < num_tracks d" "0 \<le> side" "side < drive_sides d" "1 \<le> sector" "sector + n - 1 \<le> ?spt"
    using assms(1) by (auto simp: out_of_range_def)
  have "0 \<le> ?i" using r by simp
  then show "0 \<le> sector_no d track side sector" using r assms(2) by (simp add: sector_no_def)
  have "(track + 1) * drive_sides d \<le> num_tracks d * drive_sides d" using r by (intro mult_right_mono) simp_all
  then have "?i + 1 \<le> num_tracks d * drive_sides d" using r by (simp add: algebra_simps)
  then have "(?i + 1) * ?spt \<le> num_tracks d * drive_sides d * ?spt" using r assms(2) by (intro mult_right_mono) simp_all
  then show "sector_no d track side sector + n \<le> num_tracks d * drive_sides d * ?spt"
    using r by (simp add: sector_no_def algebra_simps)
qed

lemma sector_no_inj:
  assumes "\<not> out_of_range d t1 s1 c1 1" "\<not> out_of_range d t2 s2 c2 1" "sector_no d t1 s1 c1 = sector_no d t2 s2 c2"
  shows "t1 = t2 \<and> s1 = s2 \<and> c1 = c2"
proof -
  let ?spt = "sectors_per_track d" and ?n = "drive_sides d"
  have r: "0 \<le> s1" "s1 < ?n" "1 \<le> c1" "c1 \<le> ?spt" "0 \<le> s2" "s2 < ?n" "1 \<le> c2" "c2 \<le> ?spt"
    using assms(1,2) by (auto simp: out_of_range_def)
  have "(t * ?n + s) * ?spt + (c - 1) = ?spt * (t * ?n + s) + (c - 1)" for t s c by simp
  then have e: "?spt * (t1 * ?n + s1) + (c1 - 1) = ?spt * (t2 * ?n + s2) + (c2 - 1)"
    using assms(3) by (simp add: sector_no_def algebra_simps)
  have c: "(?spt * x + (y - 1)) mod ?spt = y - 1" "(?spt * x + (y - 1)) div ?spt = x" if "1 \<le> y" "y \<le> ?spt" for x y
    using that by simp_all
  have "c1 - 1 = c2 - 1" using c(1) r e by metis
  moreover have i: "t1 * ?n + s1 = t2 * ?n + s2" using c(2) r e by metis
  moreover have "s1 = s2" using arg_cong [OF i, of "\<lambda>x. x mod ?n"] r by simp
  ultimately show ?thesis using r by auto
qed

definition image_fits :: "fdd_drive \<Rightarrow> acsi_state \<Rightarrow> bool" where
  "image_fits d a \<longleftrightarrow> nat (num_tracks d * drive_sides d * sectors_per_track d) * 512 \<le> length (acsi_files a (d_fd d))"

text \<open>The bytes of \<open>n\<close> sectors in the file.\<close>

lemma image_range:
  assumes "\<not> out_of_range d track side sector n" "0 < n" "image_fits d a"
  shows "nat (sector_offset d track side sector) = nat (sector_no d track side sector) * 512"
    "nat (sector_no d track side sector) * 512 + nat n * 512 \<le> length (acsi_files a (d_fd d))"
proof -
  note b = sector_no_bounds [OF assms(1,2)]
  show "nat (sector_offset d track side sector) = nat (sector_no d track side sector) * 512"
    using b by (simp add: sector_offset_no nat_mult_distrib)
  have "nat (sector_no d track side sector) + nat n \<le> nat (num_tracks d * drive_sides d * sectors_per_track d)"
    using b assms(2) by linarith
  then have "(nat (sector_no d track side sector) + nat n) * 512 \<le> nat (num_tracks d * drive_sides d * sectors_per_track d) * 512"
    by (rule mult_le_mono1)
  then show "nat (sector_no d track side sector) * 512 + nat n * 512 \<le> length (acsi_files a (d_fd d))"
    using assms(3) unfolding image_fits_def by (simp add: algebra_simps)
qed

lemma file_patch_apart:
  assumes "o1 + length bs \<le> length f" "o2 + n \<le> o1 \<or> o1 + length bs \<le> o2"
  shows "take n (drop o2 (file_patch o1 bs f)) = take n (drop o2 f)"
  using assms by (auto simp: file_patch_def drop_take min_def)

lemma file_patch_same: "o1 + length bs \<le> length f \<Longrightarrow> take (length bs) (drop o1 (file_patch o1 bs f)) = bs"
  by (simp add: file_patch_def)

section \<open>Transfers\<close>

text \<open>What a transfer to RAM does to memory.\<close>

lemma smc_mem:
  "nm_anon (pistorm_smc a n s) = nm_anon s" "flat (pistorm_smc a n s) = flat s" "g_stram_top (pistorm_smc a n s) = g_stram_top s"
  by (simp_all add: pistorm_smc_def cache_invalidate_def flat_def Let_def)

lemma in_stram:
  assumes "st_ram s" "0 < n" "unat p + n \<le> 0x400000"
  shows "p < g_stram_top s" "of_nat n \<le> g_stram_top s - p" "unat (of_nat n :: u32) = n"
proof -
  have r: "unat p + n \<le> unat (g_stram_top s)" using assms by (simp add: st_ram_def)
  show lt: "p < g_stram_top s" unfolding word_less_nat_alt using r assms(2) by linarith
  show n: "unat (of_nat n :: u32) = n" using assms(3) by (simp add: unat_of_nat)
  have "unat (g_stram_top s - p) = unat (g_stram_top s) - unat p" using lt by (intro unat_sub) simp
  then show "of_nat n \<le> g_stram_top s - p" unfolding word_le_nat_alt n using r by linarith
qed

lemma dma_copy_to_ram_mem:
  assumes "st_ram s" "0 < length bs" "unat p + length bs \<le> 0x400000"
  shows "st_ram (dma_copy_to_ram env p bs s)" "natmem_byte (dma_copy_to_ram env p bs s) x = put_bytes p bs (nm_anon s) x"
proof -
  obtain h b ba where h: "bus_put env p bs s = bus_seen h b ba s" using bus_put_hist [of p bs env s] assms(3) by auto
  let ?s = "(bus_seen h b ba s)\<lparr>nm_anon := put_bytes p bs (nm_anon s)\<rparr>"
  have f: "flat (bus_seen h b ba s)" using assms(1) by (simp add: st_ram_def)
  have "natmem_store p bs (bus_seen h b ba s) = ?s"
    using natmem_store_flat [OF f, of p bs] assms(3) by (simp add: bus_seen_def)
  then have r: "dma_copy_to_ram env p bs s = pistorm_smc p (of_nat (length bs)) ?s"
    using in_stram [OF assms] assms(3) by (simp add: dma_copy_to_ram_def h pistorm_dma_to_stram_def Let_def)
  have g: "flat ?s" using f by (simp add: flat_def)
  then show "st_ram (dma_copy_to_ram env p bs s)" using assms(1) by (simp add: r st_ram_def smc_mem)
  show "natmem_byte (dma_copy_to_ram env p bs s) x = put_bytes p bs (nm_anon s) x"
    using g by (simp add: r natmem_byte_flat smc_mem)
qed

lemma dma_copy_from_ram_mem:
  assumes "st_ram s" "0 < n" "unat p + n \<le> 0x400000"
  shows "dma_copy_from_ram p old n s = map (\<lambda>x. nm_anon s (of_nat x)) [unat p..<unat p + n]"
  using in_stram [OF assms] natmem_load_flat [of s p n] assms
  by (simp add: dma_copy_from_ram_def pistorm_dma_from_stram_def st_ram_def)

section \<open>Properties\<close>

lemma cmd_start_frame [simp]:
  "drives (cmd_start c f) = drives f" "ac (cmd_start c f) = ac f" "selected_drive (cmd_start c f) = selected_drive f"
  "selected_side (cmd_start c f) = selected_side f" "sector_reg (cmd_start c f) = sector_reg f"
  "dma_sector_count (cmd_start c f) = dma_sector_count f" "drv k (cmd_start c f) = drv k f" "xfer_count (cmd_start c f) = xfer_count f"
  by (simp_all add: cmd_start_def fdc_clear_irq_def st_clear_def st_or_def drv_def xfer_count_def)

lemma top_bits: "cmd AND 0xE0 = (cmd AND 0xF0) AND 0xE0" for cmd :: u8
  by (simp add: and.assoc)

lemma exec_sectors:
  "cmd AND 0xE0 = 0x80 \<Longrightarrow> fdc_exec_command e cmd (f, s) = fdc_do_read_sectors e (cmd_start cmd f, s)"
  "cmd AND 0xE0 = 0xA0 \<Longrightarrow> fdc_exec_command e cmd (f, s) = fdc_do_write_sectors e (cmd_start cmd f, s)"
  using top_bits [of cmd] by (auto simp: fdc_exec_command_def Let_def)

lemma status_clear: "((y AND - 0x5F) AND - 2) AND 0x5F = 0" for y :: u8
  by (simp add: and.assoc)

lemma sector_done_frame [simp]:
  "dma_status (ac (sector_done f)) = 0x03" "irq_pending (sector_done f)" "acsi_files (ac (sector_done f)) = acsi_files (ac f)"
  "drives (sector_done f) = drives f" "selected_drive (sector_done f) = selected_drive f" "selected_side (sector_done f) = selected_side f"
  "sector_reg (sector_done f) = sector_reg f" "fdc_status (sector_done f) = fdc_status f AND NOT 1"
  by (simp_all add: sector_done_def fdc_raise_irq_latched_def st_clear_def set_dma_status_def c_const)

lemma set_dma_status_frame [simp]:
  "drives (set_dma_status v f) = drives f" "acsi_files (ac (set_dma_status v f)) = acsi_files (ac f)"
  "dma_addr (ac (set_dma_status v f)) = dma_addr (ac f)" "selected_drive (set_dma_status v f) = selected_drive f"
  "selected_side (set_dma_status v f) = selected_side f" "sector_reg (set_dma_status v f) = sector_reg f"
  "drv k (set_dma_status v f) = drv k f" "xfer_count (set_dma_status v f) = xfer_count f" "fdc_status (set_dma_status v f) = fdc_status f"
  by (simp_all add: set_dma_status_def drv_def xfer_count_def)

lemma cmd_start_status: "fdc_status (cmd_start c f) = (fdc_status f OR 1) AND NOT 0x5E"
  by (simp add: cmd_start_def fdc_clear_irq_def st_clear_def st_or_def c_const)

text \<open>The two transfers on a drive that allows them.\<close>

lemma write_sectors_ok:
  assumes "fdd_drive_ok (selected_drive f)" "d = drv (selected_drive f) f" "disk_inserted d" "0 \<le> d_fd d" "\<not> write_protected d"
    and "\<not> out_of_range d (current_track d) (selected_side f) (int (unat (sector_reg f))) (xfer_count f)" "0 < xfer_count f"
    and "io_good (fe_io e)" "fe_malloc e" "st_ram s" "unat (dma_addr (ac f)) + nat (xfer_count f) * 512 \<le> 0x400000"
  shows "\<exists>g. fdc_do_write_sectors e (f, s) = (sector_done g, s) \<and> drives g = drives f \<and> selected_drive g = selected_drive f \<and>
    selected_side g = selected_side f \<and> sector_reg g = sector_reg f \<and> fdc_status g = fdc_status f \<and>
    acsi_files (ac g) = (acsi_files (ac f))(d_fd d :=
      file_patch (nat (sector_offset d (current_track d) (selected_side f) (int (unat (sector_reg f)))))
        (map (\<lambda>x. nm_anon s (of_nat x)) [unat (dma_addr (ac f))..<unat (dma_addr (ac f)) + nat (xfer_count f) * 512])
        (acsi_files (ac f) (d_fd d)))"
  using assms dma_copy_from_ram_mem [OF assms(10), of "nat (xfer_count f) * 512" "dma_addr (ac f)" "fe_fresh e"]
  by (auto simp: fdc_do_write_sectors_def fdd_image_write_def sector_write_def io_good_def Let_def)

lemma read_sectors_ok:
  assumes "fdd_drive_ok (selected_drive f)" "d = drv (selected_drive f) f" "disk_inserted d" "0 \<le> d_fd d"
    and "\<not> out_of_range d (current_track d) (selected_side f) (int (unat (sector_reg f))) (xfer_count f)"
    and "io_good (fe_io e)" "fe_malloc e"
    and "nat (sector_offset d (current_track d) (selected_side f) (int (unat (sector_reg f)))) + nat (xfer_count f) * 512 \<le>
      length (acsi_files (ac f) (d_fd d))"
  shows "fdc_do_read_sectors e (f, s) = (sector_done (set_dma_status DMA_STATUS_OK f),
    dma_copy_to_ram (fe_bus e) (dma_addr (ac f))
      (take (nat (xfer_count f) * 512) (drop (nat (sector_offset d (current_track d) (selected_side f) (int (unat (sector_reg f)))))
        (acsi_files (ac f) (d_fd d)))) s)"
  using assms by (simp add: fdc_do_read_sectors_def fdd_image_read_def file_read_def io_good_def Let_def)

lemma xfer_count_pos: "0 < xfer_count f"
  by (auto simp: xfer_count_def less_le unsigned_eq_0_iff)

text \<open>A sector outside the range that was written.\<close>

lemma sector_apart:
  assumes "\<not> out_of_range d track side sec n" "0 < n" "\<not> out_of_range d t sd c 1"
    "\<not> (t = track \<and> sd = side \<and> sec \<le> c \<and> c < sec + n)"
  shows "sector_no d t sd c < sector_no d track side sec \<or> sector_no d track side sec + n \<le> sector_no d t sd c"
proof (rule ccontr)
  assume "\<not> ?thesis"
  then have m: "sector_no d track side sec \<le> sector_no d t sd c" "sector_no d t sd c < sector_no d track side sec + n" by auto
  let ?c = "sec + (sector_no d t sd c - sector_no d track side sec)"
  have "\<not> out_of_range d track side ?c 1" using assms(1) m by (auto simp: out_of_range_def)
  moreover have "sector_no d track side ?c = sector_no d t sd c" by (simp add: sector_no_def)
  ultimately have "t = track \<and> sd = side \<and> c = ?c" using sector_no_inj [of d track side ?c t sd c] assms(3) by metis
  with assms(4) m show False by auto
qed

lemma other_sectors_read:
  assumes rng: "\<not> out_of_range d track side sector n" and n: "0 < n" and fits: "image_fits d (ac f)" and d: "d \<equiv> drv k f"
    and c: "\<not> out_of_range d t sd c 1" "\<not> (t = track \<and> sd = side \<and> sector \<le> c \<and> c < sector + n)"
    and g: "drv k g = drv k f" "length bs = nat n * 512"
      "acsi_files (ac g) = (acsi_files (ac f))(d_fd d := file_patch (nat (sector_offset d track side sector)) bs (acsi_files (ac f) (d_fd d)))"
  shows "fdd_image_read e k t sd c 1 g = fdd_image_read e k t sd c 1 f"
proof -
  let ?off = "nat (sector_offset d track side sector)" and ?file = "acsi_files (ac f) (d_fd d)"
  have fit: "?off = nat (sector_no d track side sector) * 512" "?off + length bs \<le> length ?file"
    using image_range [OF rng n fits] by (simp_all add: g(2))
  have "nat (sector_offset d t sd c) + 512 \<le> ?off \<or> ?off + length bs \<le> nat (sector_offset d t sd c)"
    using sector_apart [OF rng n c] sector_no_bounds [OF rng n] sector_no_bounds [OF c(1)] image_range(1) [OF c(1) _ fits] n
    unfolding fit(1) g(2) by auto
  then have "take 512 (drop (nat (sector_offset d t sd c)) (file_patch ?off bs ?file)) = take 512 (drop (nat (sector_offset d t sd c)) ?file)"
    by (rule file_patch_apart [OF fit(2)])
  then show ?thesis
    using length_file_patch [OF fit(2)] g(1) by (simp add: fdd_image_read_def file_read_def g(3) d [symmetric] Let_def)
qed

text \<open>C26: what the guest writes to a floppy it reads back. A write command for the sectors from the sector register on, with the
  data at address \<open>p\<close>, and a read command for the same sectors to address \<open>q\<close> both end without an error flag and
  with the status of a complete transfer; memory at \<open>q\<close> then holds the bytes that were at \<open>p\<close>, all other memory
  is unchanged, and so is every sector of the disk that was not written, on whatever track and side.\<close>

theorem floppy_sector_roundtrip:
  fixes f :: fdd_state and s :: "'a smc_state_scheme"
  defines "d \<equiv> drv (selected_drive f) f" and "n \<equiv> xfer_count f" and "sec \<equiv> int (unat (sector_reg f))"
  assumes "fdd_drive_ok (selected_drive f)" "disk_inserted d" "0 \<le> d_fd d" "\<not> write_protected d" "image_fits d (ac f)"
    and "\<not> out_of_range d (current_track d) (selected_side f) sec n"
    and "io_good (fe_io e)" "fe_malloc e" "st_ram s" "unat p + nat n * 512 \<le> 0x400000" "unat q + nat n * 512 \<le> 0x400000"
    and "wc AND 0xE0 = 0xA0" "rc AND 0xE0 = 0x80"
    and w: "fdc_exec_command e wc (f\<lparr>ac := (ac f)\<lparr>dma_addr := p\<rparr>\<rparr>, s) = (f1, s1)"
    and r: "fdc_exec_command e rc (f1\<lparr>dma_sector_count := dma_sector_count f, ac := (ac f1)\<lparr>dma_addr := q\<rparr>\<rparr>, s1) = (f2, s2)"
  shows "fdc_status f1 AND 0x5F = 0 \<and> fdc_status f2 AND 0x5F = 0 \<and> dma_status (ac f2) = 0x03 \<and> irq_pending f2 \<and>
    (\<forall>x. natmem_byte s2 x = (if unat q \<le> unat x \<and> unat x < unat q + nat n * 512
       then natmem_byte s (p + (x - q)) else natmem_byte s x)) \<and>
    (\<forall>t sd c. \<not> out_of_range d t sd c 1 \<longrightarrow>
       \<not> (t = current_track d \<and> sd = selected_side f \<and> sec \<le> c \<and> c < sec + n) \<longrightarrow>
       fdd_image_read e (selected_drive f) t sd c 1 f2 = fdd_image_read e (selected_drive f) t sd c 1 f)"
proof -
  define g where "g = cmd_start wc (f\<lparr>ac := (ac f)\<lparr>dma_addr := p\<rparr>\<rparr>)"
  define off where "off = nat (sector_offset d (current_track d) (selected_side f) sec)"
  define bs where "bs = map (\<lambda>x. nm_anon s (of_nat x)) [unat p..<unat p + nat n * 512]"
  let ?file = "acsi_files (ac f) (d_fd d)"
  have n: "0 < n" by (simp add: n_def xfer_count_pos)
  have len: "length bs = nat n * 512" by (simp add: bs_def)
  have fits: "off = nat (sector_no d (current_track d) (selected_side f) sec) * 512" "off + length bs \<le> length ?file"
    using image_range [OF assms(9) n assms(8)] by (simp_all add: off_def len)
  have gd: "drives g = drives f" "selected_drive g = selected_drive f" "selected_side g = selected_side f" "sector_reg g = sector_reg f"
    "xfer_count g = n" "drv k g = drv k f" "acsi_files (ac g) = acsi_files (ac f)" "dma_addr (ac g) = p" for k
    by (simp_all add: g_def n_def drv_def xfer_count_def)
  obtain h where h: "fdc_do_write_sectors e (g, s) = (sector_done h, s)" "drives h = drives f" "selected_drive h = selected_drive f"
    "selected_side h = selected_side f" "sector_reg h = sector_reg f" "fdc_status h = fdc_status g"
    "acsi_files (ac h) = (acsi_files (ac f))(d_fd d := file_patch off bs ?file)"
    using write_sectors_ok [of g d e s] assms(4-7,9-13) n gd by (auto simp: d_def sec_def off_def bs_def)
  have f1: "f1 = sector_done h" "s1 = s" using w h(1) by (simp_all add: g_def exec_sectors(2) [OF assms(15)])
  define g2 where "g2 = cmd_start rc (f1\<lparr>dma_sector_count := dma_sector_count f, ac := (ac f1)\<lparr>dma_addr := q\<rparr>\<rparr>)"
  have g2: "drives g2 = drives f" "selected_drive g2 = selected_drive f" "selected_side g2 = selected_side f" "sector_reg g2 = sector_reg f"
    "xfer_count g2 = n" "drv k g2 = drv k f" "acsi_files (ac g2) = (acsi_files (ac f))(d_fd d := file_patch off bs ?file)"
    "dma_addr (ac g2) = q" for k
    by (simp_all add: g2_def f1(1) h n_def drv_def xfer_count_def)
  have "fdc_do_read_sectors e (g2, s) = (sector_done (set_dma_status DMA_STATUS_OK g2), dma_copy_to_ram (fe_bus e) q bs s)"
    using read_sectors_ok [of g2 d e s] assms(4-6,9-11) g2 fits(2) len file_patch_same [OF fits(2)] length_file_patch [OF fits(2)]
    by (simp add: d_def sec_def off_def)
  then have f2: "f2 = sector_done (set_dma_status DMA_STATUS_OK g2)" "s2 = dma_copy_to_ram (fe_bus e) q bs s"
    using r by (simp_all add: g2_def f1(2) exec_sectors(1) [OF assms(16)])
  have st: "fdc_status f1 AND 0x5F = 0" "fdc_status f2 AND 0x5F = 0"
    by (simp_all add: f1(1) f2(1) h(6) g_def g2_def cmd_start_status status_clear)
  have "flat s" using assms(12) by (simp add: st_ram_def)
  moreover have "0 < length bs" "unat q + length bs \<le> 0x400000" using n assms(14) by (simp_all add: len)
  ultimately have mem: "natmem_byte s2 x = (if unat q \<le> unat x \<and> unat x < unat q + nat n * 512
       then natmem_byte s (p + (x - q)) else natmem_byte s x)" for x
    using dma_copy_to_ram_mem(2) [OF assms(12), of bs q "fe_bus e" x]
    by (simp add: f2(2) natmem_byte_flat put_bytes_def len) (auto simp: bs_def less_diff_conv2 algebra_simps)
  have "fdd_image_read e (selected_drive f) t sd c 1 f2 = fdd_image_read e (selected_drive f) t sd c 1 f"
    if "\<not> out_of_range d t sd c 1" "\<not> (t = current_track d \<and> sd = selected_side f \<and> sec \<le> c \<and> c < sec + n)" for t sd c
    using that by (intro other_sectors_read [OF assms(9) n assms(8) d_def, where g = f2 and bs = bs])
      (simp_all add: f2(1) g2 drv_def len off_def)
  then show ?thesis using st mem by (simp add: f2(1))
qed

text \<open>A double-sided disk of 720K in drive A, one sector to transfer.\<close>

definition floppy_env :: fdd_env where
  "floppy_env = \<lparr>fe_bus = disk_env, fe_io = disk_board_io, fe_open = (\<lambda>_ _. None), fe_tmp = 4, fe_host_ok = True, fe_malloc = True,
     fe_fresh = [], fe_samples = 0, fe_settled = True, FDD_enabled = True, pst_fdd_mfp_irq = False, fe_no_intrq_clear = True\<rparr>"

definition floppy_720k :: fdd_drive where
  "floppy_720k = \<lparr>d_fd = 5, image_path = ''a.st'', write_protected = False, disk_inserted = True, media_changed = False,
     d_type = FDD_TYPE_DD, current_track = 3, sectors_per_track = 9, num_tracks = 80, num_sides = 2, image_size = 737280,
     reserved_sectors = 1\<rparr>"

definition floppy_in :: fdd_state where
  "floppy_in = \<lparr>fdc_status = 0, fdc_command = 0, track_reg = 3, sector_reg = 4, data_reg = 0, fdc_dma_mode = 0x80,
     dma_sector_count = 1, dma_base_addr = 0, hdc_base = 0, hdc_count = 0, hdc_dir_write = False, hdc_pending = False,
     psg_porta = 0xFC, psg_reg_sel = 14, selected_drive = 0, selected_side = 1, irq_pending = False, irq_ready = False,
     drives = [floppy_720k, floppy_720k\<lparr>d_fd := - 1, disk_inserted := False\<rparr>], motor_ticks = [0, 0], last_wp = [False, False],
     hdc_active = False, hdc_count_fresh = False, hdc_prepush_base = 0, hdc_prepush_count = 0, hdc_prepushed = False,
     rfdc = \<lparr>r_armed = False, r_base = 0, r_count = 0\<rparr>, fdd_passthrough = False, ac = acsi_boot (\<lambda>_. replicate 737280 0xE5)\<rparr>"

lemma floppy_in_facts:
  "fdd_drive_ok (selected_drive floppy_in)" "drv (selected_drive floppy_in) floppy_in = floppy_720k" "xfer_count floppy_in = 1"
  "sector_reg floppy_in = 4" "selected_side floppy_in = 1" "image_fits floppy_720k (ac floppy_in)" "io_good (fe_io floppy_env)"
  "fe_malloc floppy_env" "\<not> out_of_range floppy_720k 3 1 4 1"
  by (simp_all add: fdd_drive_ok_def drv_def floppy_in_def floppy_720k_def xfer_count_def image_fits_def drive_sides_def acsi_boot_def
      floppy_env_def io_good_def disk_board_io_def out_of_range_def c_const)

theorem floppy_sector_roundtrip_witness:
  "\<exists>f1 s1 f2 s2. fdc_exec_command floppy_env 0xA0 (floppy_in\<lparr>ac := (ac floppy_in)\<lparr>dma_addr := 0x2000\<rparr>\<rparr>, disk_state) = (f1, s1) \<and>
     fdc_exec_command floppy_env 0x80 (f1\<lparr>dma_sector_count := 1, ac := (ac f1)\<lparr>dma_addr := 0x3000\<rparr>\<rparr>, s1) = (f2, s2) \<and>
     fdc_status f2 AND 0x5F = 0 \<and> natmem_byte s2 0x3000 = natmem_byte disk_state 0x2000"
proof -
  obtain f1 s1 where w: "fdc_exec_command floppy_env 0xA0 (floppy_in\<lparr>ac := (ac floppy_in)\<lparr>dma_addr := 0x2000\<rparr>\<rparr>, disk_state) = (f1, s1)"
    by fastforce
  obtain f2 s2 where r: "fdc_exec_command floppy_env 0x80 (f1\<lparr>dma_sector_count := dma_sector_count floppy_in,
      ac := (ac f1)\<lparr>dma_addr := 0x3000\<rparr>\<rparr>, s1) = (f2, s2)" by fastforce
  note facts = floppy_in_facts
  have d: "disk_inserted floppy_720k" "0 \<le> d_fd floppy_720k" "\<not> write_protected floppy_720k" "current_track floppy_720k = 3"
    "dma_sector_count floppy_in = 1" by (simp_all add: floppy_720k_def floppy_in_def)
  have "fdc_status f2 AND 0x5F = 0 \<and> (\<forall>x. natmem_byte s2 x = (if unat (0x3000 :: u32) \<le> unat x \<and> unat x < unat (0x3000 :: u32) + nat 1 * 512
       then natmem_byte disk_state (0x2000 + (x - 0x3000)) else natmem_byte disk_state x))"
    using floppy_sector_roundtrip [OF facts(1) _ _ _ _ _ facts(7,8) disk_state_st_ram _ _ _ _ w r] facts d by simp
  then show ?thesis using w r d(5) by (intro exI [of _ f1] exI [of _ s1] exI [of _ f2] exI [of _ s2]) simp
qed

end
