(* ===== verification/Dma_Port.thy ===== *)
theory Dma_Port
  imports Floppy
begin

text \<open>
  The DMA port of the machine (\<open>fdd_io_read\<close>, \<open>fdd_io_write\<close> and the \<open>hdc_\<close> and \<open>rfdc_\<close> functions of
  \<open>platforms/atari/fdd/atari_fdd.c\<close>): which of the emulated floppy, the emulated ACSI targets and the real devices an
  access of the guest reaches, and how guest memory is kept coherent with transfers by real devices.
\<close>

section \<open>Windows of real transfers\<close>

definition hdc_window_ok :: "u32 \<Rightarrow> u32 \<Rightarrow> u32 \<Rightarrow> bool" where
  "hdc_window_ok phys base len =
     (if len = 0 \<or> base \<ge> 0x400000 \<or> base + len > 0x400000 then False
      else if phys \<noteq> 0 \<and> base + len > phys then False else True)"

definition hdc_clamp :: "u32 \<Rightarrow> u32 \<Rightarrow> u32 \<Rightarrow> u32" where
  "hdc_clamp phys base len =
     (let end = (if phys \<noteq> 0 \<and> phys < 0x400000 then phys else 0x400000)
      in if base \<ge> end then 0 else if len > end - base then end - base else len)"

definition hdc_dma_counter :: "bus_env \<Rightarrow> 'a bus_state_scheme \<Rightarrow> u32 \<times> 'a bus_state_scheme" where
  "hdc_dma_counter env s =
     (let (h, s1) = ps_read_8 env DMA_BASE_HIGH s; (m, s2) = ps_read_8 env DMA_BASE_MID s1; (l, s3) = ps_read_8 env DMA_BASE_LOW s2
      in (push_bit 16 (ucast h) OR push_bit 8 (ucast m) OR ucast l, s3))"

text \<open>The loop that waits for the counter: samples left, counter, samples without a change.\<close>

fun hdc_wait :: "bus_env \<Rightarrow> u32 \<Rightarrow> nat \<Rightarrow> u32 \<Rightarrow> nat \<Rightarrow> 'a bus_state_scheme \<Rightarrow> 'a bus_state_scheme" where
  "hdc_wait env end 0 prev still s = s"
| "hdc_wait env end (Suc k) prev still s =
     (if prev = end then s
      else
        (let (now, s1) = hdc_dma_counter env s in
         if now = prev \<and> still + 1 \<ge> 3 then s1
         else hdc_wait env end k now (if now = prev then still + 1 else 0) s1))"

definition hdc_wait_dma_done :: "fdd_env \<Rightarrow> u32 \<Rightarrow> u32 \<Rightarrow> 'a bus_state_scheme \<Rightarrow> 'a bus_state_scheme" where
  "hdc_wait_dma_done e base len s =
     (let (prev, s1) = hdc_dma_counter (fe_bus e) s in hdc_wait (fe_bus e) (base + len) (fe_samples e) prev 0 s1)"

text \<open>The loops over a window, 512 bytes at a time: chunks left, offset.\<close>

definition chunk :: "u32 \<Rightarrow> u32 \<Rightarrow> u32" where
  "chunk len off = (if len - off < 512 then len - off else 512)"

definition chunks :: "u32 \<Rightarrow> nat" where
  "chunks len = (unat len + 511) div 512"

fun pull_chunks :: "bus_env \<Rightarrow> u32 \<Rightarrow> u32 \<Rightarrow> nat \<Rightarrow> u32 \<Rightarrow> 'a smc_state_scheme \<Rightarrow> 'a smc_state_scheme" where
  "pull_chunks env base len 0 off s = s"
| "pull_chunks env base len (Suc k) off s =
     (let (buf, s1) = bus_get env (base + off) (unat (chunk len off)) s
      in pull_chunks env base len k (off + 512) (pistorm_dma_to_stram (base + off) buf s1))"

fun push_chunks :: "bus_env \<Rightarrow> u32 \<Rightarrow> u32 \<Rightarrow> nat \<Rightarrow> u32 \<Rightarrow> u8 list \<Rightarrow> 'a smc_state_scheme \<Rightarrow> 'a smc_state_scheme" where
  "push_chunks env base len 0 off old s = s"
| "push_chunks env base len (Suc k) off old s =
     (let n = unat (chunk len off); got = dma_copy_from_ram (base + off) old n s; buf = got @ drop (length got) old
      in push_chunks env base len k (off + 512) buf (bus_put env (base + off) (take n buf) s))"

definition hdc_sync_pull :: "fdd_env \<Rightarrow> 'a fdd_world \<Rightarrow> 'a fdd_world" where
  "hdc_sync_pull e w =
     (let (f0, s) = w; f = f0\<lparr>hdc_pending := False\<rparr>; phys = pistorm_stram_phys_top s;
          want = hdc_clamp phys (hdc_base f) (ucast (hdc_count f) * 512)
      in if want = 0 \<or> \<not> hdc_window_ok phys (hdc_base f) want then (f, s)
         else
           (let s1 = hdc_wait_dma_done e (hdc_base f) want s;
                (cnt, s2) = hdc_dma_counter (fe_bus e) s1;
                moved = (cnt - hdc_base f) AND 0xFFFFFF;
                len = (if moved < want then moved else want)
            in (f, pull_chunks (fe_bus e) (hdc_base f) len (chunks len) 0 s2)))"

definition hdc_push_window :: "fdd_env \<Rightarrow> u32 \<Rightarrow> u32 \<Rightarrow> 'a smc_state_scheme \<Rightarrow> 'a smc_state_scheme" where
  "hdc_push_window e base sectors s =
     (let phys = pistorm_stram_phys_top s; len = hdc_clamp phys base (sectors * 512)
      in if len = 0 \<or> \<not> hdc_window_ok phys base len then s
         else push_chunks (fe_bus e) base len (chunks len) 0 (fe_fresh e) s)"

definition prepushed :: "u32 \<Rightarrow> u16 \<Rightarrow> fdd_state \<Rightarrow> bool" where
  "prepushed base sectors f \<longleftrightarrow> hdc_prepushed f \<and> hdc_prepush_base f = base \<and> hdc_prepush_count f \<ge> ucast sectors"

definition hdc_sync_push :: "fdd_env \<Rightarrow> 'a fdd_world \<Rightarrow> 'a fdd_world" where
  "hdc_sync_push e w =
     (let (f, s) = w; f1 = f\<lparr>hdc_prepushed := False\<rparr> in
      if prepushed (hdc_base f) (hdc_count f) f then (f1, s)
      else (f1, hdc_push_window e (hdc_base f) (ucast (hdc_count f)) s))"

section \<open>The real floppy controller\<close>

definition rfdc_pull :: "fdd_env \<Rightarrow> 'a fdd_world \<Rightarrow> 'a fdd_world" where
  "rfdc_pull e w =
     (let (f0, s) = w; f = f0\<lparr>rfdc := (rfdc f0)\<lparr>r_armed := False\<rparr>\<rparr>;
          want = r_count (rfdc f) * 512;
          s1 = hdc_wait_dma_done e (r_base (rfdc f)) want s;
          (cnt, s2) = hdc_dma_counter (fe_bus e) s1;
          moved = (cnt - r_base (rfdc f)) AND 0xFFFFFF;
          len1 = (if want \<noteq> 0 \<and> moved > want then want else moved);
          len = (if len1 > HDC_MAX_SYNC_SECTORS * 512 then HDC_MAX_SYNC_SECTORS * 512 else len1)
      in if \<not> hdc_window_ok (pistorm_stram_phys_top s2) (r_base (rfdc f)) len then (f, s2)
         else (f, pull_chunks (fe_bus e) (r_base (rfdc f)) len (chunks len) 0 s2))"

definition rfdc_command :: "fdd_env \<Rightarrow> u8 \<Rightarrow> 'a fdd_world \<Rightarrow> 'a fdd_world" where
  "rfdc_command e cmd w =
     (let (f0, s) = w; t = cmd AND 0xF0; f = f0\<lparr>hdc_count_fresh := False, hdc_pending := False\<rparr> in
      if t = 0xD0 then (f, s)
      else
        (let f1 = f\<lparr>rfdc := (rfdc f)\<lparr>r_armed := False\<rparr>\<rparr> in
         if t = 0x80 \<or> t = 0x90 \<or> t = 0xC0 \<or> t = 0xE0
         then (f1\<lparr>rfdc := \<lparr>r_armed = True, r_base = dma_base_addr f1, r_count = ucast (hdc_count f1)\<rparr>, hdc_prepushed := False\<rparr>, s)
         else if t = 0xA0 \<or> t = 0xB0 \<or> t = 0xF0
         then (f1\<lparr>hdc_prepushed := False\<rparr>,
               if prepushed (dma_base_addr f1) (hdc_count f1) f1 then s
               else hdc_push_window e (dma_base_addr f1) (ucast (hdc_count f1)) s)
         else (f1\<lparr>hdc_prepushed := False\<rparr>, s)))"

definition rfdc_status_read :: "fdd_env \<Rightarrow> u32 \<Rightarrow> 'a fdd_world \<Rightarrow> 'a fdd_world" where
  "rfdc_status_read e val w =
     (let (f, s) = w in
      if r_armed (rfdc f) \<and> fdc_dma_mode f AND (DMA_MODE_A0 OR DMA_MODE_A1) = 0 \<and> val AND ucast FDC_STATUS_BUSY = 0 \<and> fe_settled e
      then rfdc_pull e w else w)"

definition rfdc_gpip :: "fdd_env \<Rightarrow> u8 \<Rightarrow> 'a fdd_world \<Rightarrow> 'a fdd_world" where
  "rfdc_gpip e gpip w =
     (if r_armed (rfdc (fst w)) \<and> gpip AND 0x20 = 0 \<and> fe_settled e then rfdc_pull e w else w)"

definition fdd_gpip :: "fdd_env \<Rightarrow> u8 \<Rightarrow> 'a fdd_world \<Rightarrow> u8 \<times> 'a fdd_world" where
  "fdd_gpip e other w =
     (let (f, s) = w in
      if irq (ac f) then (other AND NOT 0x20, w)
      else
        (let (act, f1) = (if selected_drive f \<ge> 0 \<and> disk_inserted (drv (selected_drive f) f) then fdd_irq_active f else (False, f)) in
         if act then (other AND NOT 0x20, f1, s)
         else (other, if FDD_enabled e then (f1, s) else rfdc_gpip e other (f1, s))))"

section \<open>Commands of real ACSI devices\<close>

definition mode_rw :: "fdd_state \<Rightarrow> bool" where
  "mode_rw f \<longleftrightarrow> fdc_dma_mode f AND ucast DMA_MODE_RW \<noteq> 0"

definition hdc_note_sector_count :: "fdd_env \<Rightarrow> u32 \<Rightarrow> 'a fdd_world \<Rightarrow> 'a fdd_world" where
  "hdc_note_sector_count e val w =
     (let (f0, s) = w;
          n0 = ucast (val AND 0xFF) :: u16;
          n = (if n0 > ucast HDC_MAX_SYNC_SECTORS then ucast HDC_MAX_SYNC_SECTORS else n0);
          f = f0\<lparr>hdc_count := n, hdc_count_fresh := True, hdc_prepushed := False\<rparr>
      in if mode_rw f \<and> n \<noteq> 0
         then (f\<lparr>hdc_prepush_base := dma_base_addr f, hdc_prepush_count := ucast n, hdc_prepushed := True\<rparr>,
               hdc_push_window e (dma_base_addr f) (ucast n) s)
         else (f, s))"

definition hdc_claim_count :: "fdd_env \<Rightarrow> bool \<Rightarrow> 'a fdd_world \<Rightarrow> 'a fdd_world" where
  "hdc_claim_count e first w =
     (let (f0, s) = w; f = f0\<lparr>hdc_active := True\<rparr> in
      if \<not> hdc_count_fresh f then
        (if first \<and> \<not> mode_rw f
         then (let (cnt, s1) = hdc_dma_counter (fe_bus e) s
               in (f\<lparr>hdc_base := cnt, hdc_dir_write := False, hdc_count := (if hdc_count f = 0 then 1 else hdc_count f),
                     hdc_pending := True\<rparr>, s1))
         else (f, s))
      else
        (let f1 = f\<lparr>hdc_count_fresh := False, hdc_base := dma_base_addr f, hdc_dir_write := mode_rw f\<rparr> in
         if hdc_dir_write f1
         then (let (f2, s2) = hdc_sync_push e (f1, s) in (f2\<lparr>hdc_pending := False\<rparr>, s2))
         else (f1\<lparr>hdc_pending := (hdc_count f1 \<noteq> 0)\<rparr>, s)))"

section \<open>Registers of the DMA chip\<close>

definition dma_read_addr :: "u32 \<Rightarrow> 'a fdd_world \<Rightarrow> u32" where
  "dma_read_addr addr w =
     (let (f, s) = w; p = dma_addr (ac f) in
      if addr = DMA_MODE_REG then dma_status (ac f)
      else if addr = DMA_BASE_HIGH then drop_bit 16 p AND ucast (dma_hi_mask s)
      else if addr = DMA_BASE_MID then drop_bit 8 p AND 0xFF
      else if addr = DMA_BASE_LOW then p AND 0xFF
      else 0xFF)"

definition load_base :: "(u32 \<Rightarrow> u32) \<Rightarrow> fdd_state \<Rightarrow> fdd_state" where
  "load_base g f = f\<lparr>dma_base_addr := g (dma_base_addr f), ac := (ac f)\<lparr>dma_addr := g (dma_addr (ac f))\<rparr>\<rparr>"

definition dma_write_addr :: "u32 \<Rightarrow> u32 \<Rightarrow> 'a fdd_world \<Rightarrow> 'a fdd_world" where
  "dma_write_addr addr val w =
     (let (f, s) = w; v16 = ucast val :: u16; v8 = ucast val :: u8 in
      if addr = DMA_MODE_REG
      then ((if (fdc_dma_mode f XOR v16) AND ucast DMA_MODE_RW \<noteq> 0 then f\<lparr>ac := acsi_dma_fifo_reset (ac f)\<rparr> else f)
              \<lparr>fdc_dma_mode := v16\<rparr>, s)
      else if addr = DMA_BASE_HIGH
      then (load_base (\<lambda>b. (b AND 0x00FFFF) OR push_bit 16 (ucast (v8 AND dma_hi_mask s))) f, s)
      else if addr = DMA_BASE_MID then (load_base (\<lambda>b. (b AND 0xFF00FF) OR push_bit 8 (ucast v8)) f, s)
      else if addr = DMA_BASE_LOW then (load_base (\<lambda>b. (b AND 0xFFFF00) OR ucast v8) f, s)
      else w)"

section \<open>Accesses of the guest\<close>

definition hdc_selected :: "fdd_state \<Rightarrow> bool" where
  "hdc_selected f \<longleftrightarrow> fdc_dma_mode f AND DMA_MODE_FDC_HDC \<noteq> 0"

definition shared_reg :: "u32 \<Rightarrow> bool" where
  "shared_reg addr \<longleftrightarrow> addr = DMA_MODE_REG \<or> addr = DMA_BASE_HIGH \<or> addr = DMA_BASE_MID \<or> addr = DMA_BASE_LOW"

text \<open>The data register.\<close>

definition data_read :: "fdd_env \<Rightarrow> nat \<Rightarrow> 'a fdd_world \<Rightarrow> u32 \<times> 'a fdd_world" where
  "data_read e n w =
     (let (f, s) = w; real = bus_read (fe_bus e) FDC_DATA_REG n s in
      if screg f
      then (if owns (ac f) then (ucast (residual (ac f)), w)
            else if hdc_active f then (fst real, f, snd real)
            else (let (v, f1) = fdc_read_addr f in (v, f1, s)))
      else if hdc_selected f
      then (if owns (ac f) then (let (v, a) = acsi_status_read (ac f) in (ucast v, f\<lparr>ac := a\<rparr>, s))
            else (fst real,
                  if hdc_pending f
                  then (if fst real AND 0x1E \<noteq> 0 then (f\<lparr>hdc_pending := False\<rparr>, snd real) else hdc_sync_pull e (f, snd real))
                  else (f, snd real)))
      else if FDD_enabled e then (let (v, f1) = fdc_read_addr f in (v, f1, s))
      else (fst real, rfdc_status_read e (fst real) (f, snd real)))"

definition io_read :: "fdd_env \<Rightarrow> u32 \<Rightarrow> nat \<Rightarrow> 'a fdd_world \<Rightarrow> u32 \<times> 'a fdd_world" where
  "io_read e addr n w =
     (let (f, s) = w in
      if in_dma_window addr then
        (if addr = FDC_DATA_REG then data_read e n w
         else if shared_reg addr \<and> hdc_active f \<and> \<not> owns (ac f)
         then (let (v, s1) = bus_read (fe_bus e) addr n s in (v, f, s1))
         else (dma_read_addr addr w, w))
      else if addr \<ge> 0xFF8800 \<and> addr \<le> 0xFF8803 then psg_read_addr e addr n w
      else (0xFF, w))"

definition fdd_io_read :: "fdd_env \<Rightarrow> u32 \<Rightarrow> nat \<Rightarrow> 'a fdd_world \<Rightarrow> u32 \<times> 'a fdd_world" where
  "fdd_io_read e addr n w =
     (if n = 4
      then (let (hi, w1) = io_read e addr 2 w; (lo, w2) = io_read e (addr + 2) 2 w1 in (push_bit 16 hi OR lo, w2))
      else io_read e addr n w)"

definition data_write :: "fdd_env \<Rightarrow> u32 \<Rightarrow> nat \<Rightarrow> 'a fdd_world \<Rightarrow> 'a fdd_world" where
  "data_write e val n w =
     (let (f, s) = w; real = (\<lambda>(f, s). (f, bus_write (fe_bus e) FDC_DATA_REG val n s)) in
      if screg f then real (fdc_write_addr e val (hdc_note_sector_count e val w))
      else if hdc_selected f
      then (let first = (fdc_dma_mode f AND (DMA_MODE_A0 OR DMA_MODE_A1) = 0);
                (took, a, s1) = acsi_cmd_byte (fe_bus e) (fe_io e) (fe_fresh e) (ucast val) first (ac f, s)
            in if took then (f\<lparr>ac := a, hdc_count_fresh := False, hdc_pending := False\<rparr>, s1)
               else real (hdc_claim_count e first (f\<lparr>ac := a\<rparr>, s1)))
      else if \<not> FDD_enabled e
      then (let f1 = f\<lparr>ac := acsi_release (ac f), hdc_active := True\<rparr>
            in real (if fdc_dma_mode f1 AND (DMA_MODE_A0 OR DMA_MODE_A1) = 0 then rfdc_command e (ucast val) (f1, s) else (f1, s)))
      else fdc_write_addr e val
             (f\<lparr>ac := acsi_release (ac f), hdc_active := False, hdc_count_fresh := False, hdc_pending := False\<rparr>, s))"

definition io_write :: "fdd_env \<Rightarrow> u32 \<Rightarrow> u32 \<Rightarrow> nat \<Rightarrow> 'a fdd_world \<Rightarrow> 'a fdd_world" where
  "io_write e addr val n w =
     (if in_dma_window addr then
        (if shared_reg addr
         then (let (f, s) = dma_write_addr addr val w in (f, bus_write (fe_bus e) addr val n s))
         else if addr = FDC_DATA_REG then data_write e val n w
         else (fst w, bus_write (fe_bus e) addr val n (snd w)))
      else if addr \<ge> 0xFF8800 \<and> addr \<le> 0xFF8803 then psg_write_addr e addr val n w
      else w)"

definition fdd_io_write :: "fdd_env \<Rightarrow> u32 \<Rightarrow> u32 \<Rightarrow> nat \<Rightarrow> 'a fdd_world \<Rightarrow> 'a fdd_world" where
  "fdd_io_write e addr val n w =
     (if n = 4 then io_write e (addr + 2) (val AND 0xFFFF) 2 (io_write e addr (drop_bit 16 val AND 0xFFFF) 2 w)
      else io_write e addr val n w)"

section \<open>Start\<close>

definition fresh_drive :: fdd_drive where
  "fresh_drive = \<lparr>d_fd = - 1, image_path = '''', write_protected = False, disk_inserted = False, media_changed = False,
     d_type = FDD_TYPE_NONE, current_track = 0, sectors_per_track = 0, num_tracks = 0, num_sides = 2, image_size = 0,
     reserved_sectors = 0\<rparr>"



section \<open>Accesses keep the port well-formed\<close>

lemma keeps_chain:
  assumes "keeps f (fst w)" "\<And>g s. keeps g (fst (op (g, s)))"
  shows "keeps f (fst (op w))"
  using keeps_trans [OF assms(1) assms(2) [of "fst w" "snd w"]] by simp

lemma keeps_chain_read:
  assumes "keeps f (fst w)" "\<And>g s. keeps g (fst (snd (op (g, s))))"
  shows "keeps f (fst (snd (op w)))"
  using keeps_trans [OF assms(1) assms(2) [of "fst w" "snd w"]] by simp

lemma hdc_keeps:
  "keeps f (fst (hdc_sync_pull e (f, s)))" "keeps f (fst (hdc_sync_push e (f, s)))" "keeps f (fst (rfdc_pull e (f, s)))"
  "keeps f (fst (rfdc_command e cmd (f, s)))" "keeps f (fst (hdc_note_sector_count e val (f, s)))"
  by (simp_all add: hdc_sync_pull_def hdc_sync_push_def rfdc_pull_def rfdc_command_def hdc_note_sector_count_def Let_def case_prod_unfold)

lemma rfdc_keeps: "keeps f (fst (rfdc_status_read e val (f, s)))" "keeps f (fst (rfdc_gpip e g (f, s)))"
  by (simp_all add: rfdc_status_read_def rfdc_gpip_def hdc_keeps)

lemma hdc_claim_count_keeps: "keeps f (fst (hdc_claim_count e first (f, s)))"
proof -
  have "keeps f (fst (hdc_sync_push e (f\<lparr>hdc_active := True, hdc_count_fresh := False, hdc_base := b, hdc_dir_write := r\<rparr>, s)))" for b r
    by (rule keeps_trans [OF _ hdc_keeps(2)]) simp
  then show ?thesis by (simp add: hdc_claim_count_def Let_def case_prod_unfold mode_rw_def)
qed

lemma fdd_gpip_keeps: "keeps f (fst (snd (fdd_gpip e other (f, s))))"
proof -
  have k: "keeps f (snd (fdd_irq_active f))" by (simp add: fdd_irq_active_def)
  show ?thesis
    using k by (simp add: fdd_gpip_def Let_def case_prod_unfold rfdc_keeps keeps_trans [OF k rfdc_keeps(2)])
qed

lemma data_read_keeps: "keeps f (fst (snd (data_read e n (f, s))))"
proof -
  have "keeps f (f\<lparr>ac := snd (acsi_status_read (ac f))\<rparr>)"
  proof (cases "port_wf f")
    case True
    let ?a = "(ac f)\<lparr>irq := False\<rparr>"
    have "same_bus ?a (upd_target (\<lambda>t. t\<lparr>t_sense := SENSE_INVALID_CDB\<rparr>) ?a)" by (rule upd_target_same_bus) simp
    then have "map t_fd (tgt (snd (acsi_status_read (ac f)))) = map t_fd (tgt (ac f))"
      "acsi_files (snd (acsi_status_read (ac f))) = acsi_files (ac f)"
      by (auto simp: acsi_status_read_def Let_def same_bus_def upd_target_def)
    then show ?thesis using True acsi_inv_status by (simp add: keeps_def port_wf_def)
  qed (simp add: keeps_def)
  then show ?thesis
    by (simp add: data_read_def Let_def case_prod_unfold hdc_keeps rfdc_keeps fdc_read_addr_keeps)
qed

lemma io_read_keeps: "keeps f (fst (snd (io_read e addr n (f, s))))"
  by (simp add: io_read_def Let_def case_prod_unfold data_read_keeps psg_keeps)

lemma dma_write_addr_keeps: "keeps f (fst (dma_write_addr addr val (f, s)))"
proof -
  have "keeps f (load_base g f)" for g
    using keeps_dma_addr [of f "f\<lparr>dma_base_addr := g (dma_base_addr f)\<rparr>" "g (dma_addr (ac f))"] by (simp add: load_base_def)
  moreover have "keeps f (f\<lparr>ac := acsi_dma_fifo_reset (ac f)\<rparr>)"
    by (rule keeps_acsi) (auto simp: acsi_dma_fifo_reset_def acsi_inv_def cur_target_def)
  ultimately show ?thesis by (simp add: dma_write_addr_def Let_def)
qed

lemma data_write_keeps: "keeps f (fst (data_write e val n (f, s)))" for s :: "'a smc_state_scheme"
proof -
  have cnt: "keeps f (fst (fdc_write_addr e val (hdc_note_sector_count e val (f, s))))"
    by (rule keeps_chain [OF hdc_keeps(5) fdc_write_addr_keeps])
  have rel: "keeps f (f\<lparr>ac := acsi_release (ac f)\<rparr>)"
    by (rule keeps_acsi) (auto simp: acsi_inv_release, auto simp: acsi_release_def)
  then have fdc: "keeps f (fst (fdc_write_addr e val (f\<lparr>ac := acsi_release (ac f), hdc_active := x, hdc_count_fresh := y, hdc_pending := z\<rparr>, s)))" for x y z
    by (intro keeps_trans [OF _ fdc_write_addr_keeps]) simp
  have cmd: "keeps f (fst (rfdc_command e v (f\<lparr>ac := acsi_release (ac f), hdc_active := x\<rparr>, s)))" for v x
    using rel by (intro keeps_trans [OF _ hdc_keeps(4)]) simp
  have byte: "keeps f (f\<lparr>ac := fst (snd (acsi_cmd_byte env io stk v first (ac f, s)))\<rparr>)" for env io stk v first
    using acsi_inv_cmd_byte [of "ac f"] acsi_cmd_byte_files [of "ac f", OF _ refl]
    by (auto simp: keeps_def port_wf_def sealed_def)
  then have claim: "keeps f (fst (hdc_claim_count e first (f\<lparr>ac := fst (snd (acsi_cmd_byte env io stk v first (ac f, s)))\<rparr>, t)))" for env io stk v first and t :: "'a smc_state_scheme"
    by (rule keeps_trans [OF _ hdc_claim_count_keeps])
  show ?thesis
    using cnt rel fdc cmd byte claim by (simp add: data_write_def Let_def case_prod_unfold)
qed

lemma io_write_keeps: "keeps f (fst (io_write e addr val n (f, s)))"
  by (simp add: io_write_def Let_def case_prod_unfold data_write_keeps psg_keeps dma_write_addr_keeps)

lemma fdd_io_keeps: "keeps f (fst (snd (fdd_io_read e addr n (f, s))))" "keeps f (fst (fdd_io_write e addr val n (f, s)))"
proof -
  have "keeps f (fst (snd (io_read e b 2 (snd (io_read e a 2 (f, s))))))" for a b
    by (rule keeps_chain_read [OF io_read_keeps io_read_keeps])
  then show "keeps f (fst (snd (fdd_io_read e addr n (f, s))))"
    by (simp add: fdd_io_read_def io_read_keeps Let_def case_prod_unfold)
  have "keeps f (fst (io_write e b y 2 (io_write e a x 2 (f, s))))" for a b x y
    by (rule keeps_chain [OF io_write_keeps io_write_keeps])
  then show "keeps f (fst (fdd_io_write e addr val n (f, s)))" by (simp add: fdd_io_write_def io_write_keeps)
qed

lemma fdd_vbl_keeps: "keeps f (fdd_vbl f)"
proof -
  have "keeps g (motor_tick g i)" for g i by (simp add: motor_tick_def motor_keeps Let_def)
  then show ?thesis unfolding fdd_vbl_def by (simp, metis keeps_trans)
qed

section \<open>Histories of the port\<close>

text \<open>What the guest does: any access, polls of the interrupt line, vertical blanks; \<open>other\<close> is all the rest of the
  machine.\<close>

inductive port_step :: "'a fdd_world \<Rightarrow> 'a fdd_world \<Rightarrow> bool" where
  guest_read: "port_step w (snd (fdd_io_read e addr n w))"
| guest_write: "port_step w (fdd_io_write e addr val n w)"
| gpip: "port_step w (snd (fdd_gpip e other w))"
| vbl: "port_step (f, s) (fdd_vbl f, s)"
| media: "port_step (f, s) (fdd_pulse_media k f, s)"
| other: "port_step (f, s) (f, t)"


lemma fdd_pulse_keeps: "keeps f (fdd_pulse_media k f)"
proof -
  have "keeps f (upd_drive k (\<lambda>d. d\<lparr>media_changed := True\<rparr>) f)" if "fdd_drive_ok k"
    using that drv_track by (intro keeps_drive) (simp_all add: disk_id_def)
  then show ?thesis by (simp add: fdd_pulse_media_def)
qed

lemma port_step_keeps: "port_step w v \<Longrightarrow> keeps (fst w) (fst v)"
proof (induction rule: port_step.induct)
  case (guest_read w e addr n)
  then show ?case using fdd_io_keeps(1) [of "fst w"] by (cases w) simp
next
  case (guest_write w e addr val n)
  then show ?case using fdd_io_keeps(2) [of "fst w"] by (cases w) simp
next
  case (gpip w e other)
  then show ?case using fdd_gpip_keeps [of "fst w"] by (cases w) simp
qed (simp_all add: fdd_vbl_keeps fdd_pulse_keeps)



lemma geometry_track [simp]: "current_track (fdd_geometry io a d) = current_track d"
  by (simp add: fdd_geometry_def bpb_geometry_def size_geometry_def Let_def split: option.split)







interpretation sealed_sys: invariant_system "\<lambda>w. port_wf (fst w) \<and> sealed (fst w) fd \<and> acsi_files (ac (fst w)) fd = img" port_step
  "\<lambda>w :: 'a fdd_world. port_wf (fst w) \<and> sealed (fst w) fd \<and> acsi_files (ac (fst w)) fd = img" for fd img
proof
  fix w v :: "'a fdd_world"
  assume "port_wf (fst w) \<and> sealed (fst w) fd \<and> acsi_files (ac (fst w)) fd = img" "port_step w v"
  then show "port_wf (fst v) \<and> sealed (fst v) fd \<and> acsi_files (ac (fst v)) fd = img"
    using port_step_keeps [of w v] by (auto simp: keeps_def sealed_def)
qed

section \<open>Properties\<close>



text \<open>C28: no access of the guest changes a write-protected floppy. When a file is behind no drive that may be written
  and behind no ACSI target, then in every history of accesses of any kind its content stays as it is.\<close>

theorem protected_image_unchanged:
  assumes "port_wf f" and "fd \<notin> set (map t_fd (tgt (ac f)))"
    and "\<forall>d \<in> set (drives f). d_fd d = fd \<longrightarrow> write_protected d" and "port_step\<^sup>*\<^sup>* (f, s) (g, t)"
  shows "acsi_files (ac g) fd = acsi_files (ac f) fd"
proof -
  have "sealed f fd" using assms(2,3) by (auto simp: sealed_def disk_id_def)
  then show ?thesis using sealed_sys.steps_inv [OF _ assms(4), of fd "acsi_files (ac f) fd"] assms(1) by simp
qed

theorem protected_image_unchanged_witness:
  "acsi_files (ac (fst (fdd_io_write floppy_env FDC_DATA_REG 0xA0 2
     (floppy_in\<lparr>drives := [floppy_720k\<lparr>write_protected := True\<rparr>, fresh_drive]\<rparr>, disk_state)))) 5 = replicate 737280 0xE5"
proof -
  let ?f = "floppy_in\<lparr>drives := [floppy_720k\<lparr>write_protected := True\<rparr>, fresh_drive]\<rparr>"
  let ?w = "fdd_io_write floppy_env FDC_DATA_REG 0xA0 2 (?f, disk_state)"
  have "port_wf ?f" "(5 :: int) \<notin> set (map t_fd (tgt (ac ?f)))" "\<forall>d \<in> set (drives ?f). d_fd d = 5 \<longrightarrow> write_protected d"
    by (simp_all add: port_wf_def floppy_in_def floppy_720k_def fresh_drive_def acsi_boot_def acsi_inv_def no_target_def c_const)
  moreover have "port_step\<^sup>*\<^sup>* (?f, disk_state) (fst ?w, snd ?w)" by (simp add: r_into_rtranclp port_step.guest_write)
  ultimately have "acsi_files (ac (fst ?w)) 5 = acsi_files (ac ?f) 5" by (rule protected_image_unchanged)
  then show ?thesis by (simp add: floppy_in_def acsi_boot_def)
qed

end
