(* ===== verification/Spec2Isabelle.thy ===== *)
theory Spec2Isabelle
  imports Hostdos_Search Mem_Init Int_Ack Screen_Shadow Machine_Cookie Dma_Port
begin

text \<open>
  Verification of the memory, bus and host-file layers of the PiStorm Atari emulator.

  \<^bold>\<open>The program.\<close> A Raspberry Pi takes the place of the 68000 in an Atari ST. The CPU is a JIT
  compiler on the Pi (\<open>src/cpu\<close>, \<open>src/jit\<close>, third-party and generated); everything the CPU sees is
  the work of the emulator's own code: guest memory lives in one host array \<open>natmem\<close>, each 64K page
  of the address space has a bank of access handlers, and the handlers decide whether an access is
  served from the array, from an emulated device or by a cycle on the real bus of the machine.
  \<open>src/pistorm_natmem.cpp\<close> holds the banks, \<open>src/gpio/ps_protocol.c\<close> the bus primitives,
  \<open>src/platforms/atari\<close> the devices and the host services.

  \<^bold>\<open>How the code is modelled.\<close> C integers are words of the same width, structs and groups of static
  variables are records that extend one another (bus, banks, ST-RAM, video, shadow, code pages,
  hardware page), functions are functions from state to state with their early returns as branches.
  \<open>abort()\<close> and a refused host call are \<^const>\<open>None\<close>, a guest bus error is the left part of a sum,
  GEMDOS error numbers are values. The hardware is an environment: the answer to a bus cycle is a
  function of the history of cycles. The operating system and the CPU core's own accessors are
  parameters with named hypotheses, as are the devices without a model. Threads meet only under the
  bus lock or in single atomic functions, so an interleaving is a sequence of steps. Log output,
  traces, profiling and statistics are left out.

  \<^bold>\<open>Theories\<close>, each importing the ones it builds on:

  \<^item> \<open>Prelude\<close>: word types, the collections \<open>unat_conv\<close> and \<open>c_const\<close>, facts on words and lists,
    reachability, and the locale \<open>invariant_system\<close> of a machine that keeps an invariant. It is
    interpreted for ST-RAM, code pages, the screen shadow, blitter, HOSTDOS, the MFP hub, the keyboard
    FIFO, the ACSI targets and the DMA port.
  \<^item> \<open>Bus\<close> (\<open>ps_protocol.c\<close>): reads and writes of 8, 16 and 32 bits with the sticky bus error latch,
    and the filter of the monitor-detect line.
  \<^item> \<open>Bank_Map\<close>: the bank table, \<open>map_region\<close> with its mirrors under 24 address lines.
  \<^item> \<open>Stram_Banks\<close>, \<open>Stram_Probe\<close>, \<open>Host_Mem\<close>, \<open>Stram_Access\<close>: ST-RAM of a machine with smaller chips
    than the memory configuration says. The layout by page tables, the fold of the plain ST, the
    probe of the real board, big-endian accessors and the RAM, ROM and TT-RAM handlers. Every guest
    address reaches the cell of the abstract bank model; the probe finds the chips of any board.
  \<^item> \<open>Video_Snoop\<close>, \<open>Shadow\<close>, \<open>Shadow_Coherence\<close>: snoops of video registers, ownership of the memory
    configuration register, and the shadow frame buffer, with the invariant of stores, refills and
    programming of the Shifter. \<open>Screen_Shadow\<close> proves it for the handlers of the guest: under stated
    conditions on the history, the RAM of the board that the Shifter scans holds the guest's screen.
  \<^item> \<open>Smc\<close>: detection of self-modifying code by code-page bitmap and page protection.
  \<^item> \<open>Blitter\<close>, \<open>Blitter_Walk\<close> (\<open>st_blitter.c\<close>) and \<open>Blitter_Page\<close>: the emulated blitter, its word loop
    with a termination proof, and the handlers of its page, with the copy back after a real blit.
  \<^item> \<open>Bus_Banks\<close>: undecoded space and repeated MFP reads. \<open>Mem_Init\<close>: \<open>jit_mem_init\<close>, the set-up of
    memory and banks, and the bank lookup of the CPU.
  \<^item> \<open>Mfp_Hub\<close> (\<open>mfp_hub.c\<close>): the virtual interrupt controller, shown to be the controller of the
    datasheet on sets of channels. The locale \<open>int_controller\<close> is what its clients rely on.
    \<open>Mfp_Page\<close> has the guest's accesses to the chip, \<open>Int_Ack\<close> the acknowledge of the CPU
    (\<open>intlev_ack\<close> in \<open>jit_glue.cpp\<close>), which is such a client.
  \<^item> \<open>Acia_Kbd\<close> (\<open>ps_protocol.c\<close>): the FIFO two threads share to rescue keyboard bytes, with counters
    that wrap at 32 bits.
  \<^item> \<open>Io_Page\<close>: the handlers of the hardware bank, which dispatch to all of the above.
  \<^item> \<open>Hostdos_Names\<close>, \<open>Hostdos_Dir\<close>, \<open>Hostdos_State\<close>, \<open>Hostdos_Paths\<close>, \<open>Hostdos_Calls\<close> (\<open>hostdos.cpp\<close>):
    GEMDOS file calls on host directories: 8.3 names, directory tables, guest memory, paths and
    handles, all calls, and program loading. \<open>Hostdos_Safety\<close> and \<open>Hostdos\<close> prove what every sequence
    of calls keeps (paths stay under the roots of enabled drives, nothing on a read-only drive
    changes, descriptors are not leaked), \<open>Hostdos_Load\<close> and \<open>Hostdos_Search\<close> what a load and a
    search deliver.
  \<^item> \<open>Nf_Mem\<close>, \<open>Guest_Ram\<close> (\<open>atari_natfeat.cpp\<close>): the guest memory access of the host services, which
    connects HOSTDOS to the memory model: its writes reach RAM whole and invalidate translated code.
  \<^item> \<open>Dma_Snoop\<close> (\<open>fdd/dma_snoop.c\<close>): the window of a transfer by a real controller is followed from the
    register writes of the guest, and copied into guest memory when the guest reads the status, or out
    to the board when the command starts. \<open>Io_Page\<close> calls it from the DMA page.
  \<^item> \<open>Disk_Order\<close> (\<open>disk_order.c\<close>): the byte order of an image. \<open>Acsi\<close> (\<open>fdd/acsi.c\<close> and the DMA services
    of \<open>fdd/atari_fdd.c\<close>): hard disk targets on the DMA port, with the command handshake, the FIFO of
    the DMA chip and all commands; a written block reads back, a command is run once on the bytes sent,
    and no sequence of accesses overruns a buffer or shows a stale status.
  \<^item> \<open>Msa\<close>, \<open>Floppy\<close>, \<open>Dma_Port\<close> (\<open>fdd/atari_fdd.c\<close>): MSA archives, the emulated WD1772 with its drives and
    images, and the DMA port, which routes the accesses of the guest between the emulated floppy, the ACSI
    targets and real devices. Archives decode to the disk they were made from, written sectors read back,
    protected disks are never changed, and all indices stay in range.
  \<^item> \<open>Machine_Cookie\<close> (\<open>machine_cookie.c\<close>): cookies forced into the jar of the guest once it has settled.

  \<^bold>\<open>Bounds.\<close> The loops of the sources keep their own limits: the probe pattern has 252 words, the
  cartridge snapshot 65536, a failed blitter cycle is repeated 64 times, a real blit is polled
  100000 times, MFP reads are repeated three times, the keyboard FIFO has 1024 bytes, a directory
  search its table, a DMA copy 256 sectors, the search of a cookie jar 64 entries. They are structural
  recursions on these limits; the word loop of the blitter terminates because the line counter falls,
  the loop over a reply of the DMA chip because the bytes left fall, the run-length loop of an archive
  because its input does. The wait for the address counter of the DMA chip ends after 2 ms; the number
  of samples that fit is a parameter. No fuel is used. A buffer of the stack that a failed copy leaves
  unset is an argument.

  \<^bold>\<open>Idealisations.\<close> \<open>bus_mem\<close> reads the RAM of the board off the history of bus cycles: a write cycle is
  taken to land, wherever it is not in a bus error. The interface to the host has one call for reading a
  file or a directory whole, where the code opens, reads and closes a stream, so that a stream left open
  could not be expressed. Host paths are texts: symbolic links are the business of the host. The
  comparison of signals by a clock is a parameter (\<open>fe_settled\<close>, the BUSY window of the blitter).

  \<^bold>\<open>Behaviour that differs from what comments say\<close> is proved as well, for example
  \<open>shadow_overwritten_by_raw_store\<close>, \<open>smc_misses_middle_page\<close>, \<open>memcfg_128k_board_not_owned\<close>,
  \<open>video_long_gap_8202\<close>, \<open>blitter_sync_misses_lines\<close>, \<open>untabled_name_lost\<close>, \<open>fseek_position_is_pass\<close>,
  \<open>nf_write_misses_falcon_code\<close>, \<open>mfp_long_read_unmerged\<close>, \<open>guest_dma_command_pushes\<close> and \<open>msa_no_sides\<close>.

  \<^bold>\<open>Not modelled.\<close> The CPU cores, the JIT back end, soft float and the vendored code are third-party
  or generated. The graphics card, PSVIDEL, Falcon audio and DSP, the second emulated ST, sound, video
  output, network transport, USB input and the set-up screens are rendering, signal processing or
  host I/O; where the hardware bank calls them they are a parameter. The bit-level driving of the GPIO
  pins is hardware access. The IDE controller, the HOSTFS and fVDI services and the settings files are
  left out.
\<close>

end
